(* ===== verification/Prelude.thy ===== *)
theory Prelude
  imports Main "HOL-Library.Word"
begin

text \<open>
  Shared vocabulary of the development: the C integer types, byte buffers with checked
  writes, the generic lemmas on lists and words the components use, and the two locales
  every stateful component instantiates (an invariant kept by all operations, and a
  simulation of an abstract specification).

  A C pointer to a buffer of known size is modelled by the list of its bytes; a write that
  does not fit is the value \<open>None\<close>, so that an overflow of a buffer is visible in the model.
\<close>

unbundle bit_operations_syntax

section \<open>Machine types\<close>

type_synonym u8 = "8 word"
type_synonym u16 = "16 word"
type_synonym u32 = "32 word"
type_synonym u64 = "64 word"
type_synonym bytes = "u8 list"

text \<open>The bit pattern of a C \<open>double\<close> or \<open>float\<close>; arithmetic on them is a parameter.\<close>
type_synonym f64 = "64 word"
type_synonym f32 = "32 word"

text \<open>The length of a C array or string as \<open>size_t\<close>.\<close>
abbreviation u64len :: "'a list \<Rightarrow> u64" where
  "u64len xs \<equiv> of_nat (length xs)"

named_theorems wsimps \<open>reading word arithmetic as natural numbers\<close>
named_theorems inv_intros \<open>operations that keep their component's invariant\<close>
named_theorems frame_simps \<open>state components an operation does not change\<close>

section \<open>Words\<close>

lemma unat_add_small [wsimps]:
  fixes a b :: "'a::len word"
  assumes "unat a + unat b < 2 ^ LENGTH('a)"
  shows "unat (a + b) = unat a + unat b"
  using assms by (simp add: unat_word_ariths)

lemma unat_diff_le [wsimps]:
  fixes a b :: "'a::len word"
  assumes "b \<le> a"
  shows "unat (a - b) = unat a - unat b"
  using assms by (simp add: unat_sub)

lemma unat_u64len [wsimps]: "length xs < 2 ^ 64 \<Longrightarrow> unat (u64len xs) = length xs"
  by (simp add: unat_of_nat take_bit_nat_eq_self)

lemma unat_ucast_u32 [simp]: "unat (ucast (s :: u32) :: u64) = unat s"
proof -
  have "unat s < 2 ^ 64" using unsigned_less [of s] by (rule less_le_trans) simp
  then show ?thesis by (simp add: unsigned_ucast_eq take_bit_nat_eq_self)
qed

lemma word_neq_0_unat: "(a :: 'a::len word) \<noteq> 0 \<longleftrightarrow> 0 < unat a"
  by (simp add: unat_gt_0)

lemma u64len_eq_0: "length xs < 2 ^ 64 \<Longrightarrow> u64len xs = 0 \<longleftrightarrow> xs = []"
  by (simp add: unat_eq_0 [symmetric] unat_u64len)

text \<open>An \<open>int64\<close> is negative when its top bit is set.\<close>
lemma sint_neg_iff: "sint (x :: u64) < 0 \<longleftrightarrow> 2 ^ 63 \<le> unat x"
proof -
  have "sint x < 0 \<longleftrightarrow> odd (uint x div 2 ^ 63)"
    by (simp add: sint_uint bit_iff_odd)
  also have "\<dots> \<longleftrightarrow> 2 ^ 63 \<le> uint x"
  proof -
    have split: "u div M = (if M \<le> u then 1 else 0)" if "0 \<le> u" "u < 2 * M" for u M :: int
    proof (cases "M \<le> u")
      case True
      then have "u = M * 1 + (u - M)" "0 \<le> u - M" "u - M < M" using that by auto
      then have "u div M = 1" by (rule int_div_pos_eq)
      with True show ?thesis by simp
    next
      case False
      with that show ?thesis by simp
    qed
    have "uint x < 2 * 2 ^ 63" using uint_lt2p [of x] by simp
    from split [OF uint_ge_0 this] show ?thesis by simp
  qed
  finally show ?thesis
    by (simp only: unat_eq_nat_uint le_nat_iff [OF uint_ge_0] of_nat_power of_nat_numeral)
qed

lemma unat_add_u64len:
  assumes "unat a + length xs < 2 ^ 64"
  shows "unat (a + u64len xs) = unat a + length xs"
proof -
  have "unat (u64len xs) = length xs" using assms by (intro unat_u64len) simp
  with assms show ?thesis by (subst unat_add_small) simp_all
qed

lemma unat_u64len_diff:
  assumes "n \<le> length xs" and "ys = drop n xs" and "length xs < 2 ^ 64"
  shows "unat (u64len xs - u64len ys) = n"
proof -
  have x: "unat (u64len xs) = length xs" using assms(3) by (rule unat_u64len)
  have y: "unat (u64len ys) = length xs - n" using assms by (subst unat_u64len) simp_all
  have "u64len ys \<le> u64len xs" unfolding word_le_nat_alt x y by simp
  then show ?thesis using assms(1) by (simp add: unat_diff_le x y)
qed

section \<open>Byte buffers\<close>

text \<open>
  \<open>ffmem_copy (buf + off, d, n)\<close>: the bytes \<open>d\<close> are stored at \<open>off\<close>; \<open>None\<close> is a store
  outside the buffer.
\<close>

definition mem_copy :: "'a list \<Rightarrow> nat \<Rightarrow> 'a list \<Rightarrow> 'a list option" where
  "mem_copy m off d =
     (if off + length d \<le> length m then Some (take off m @ d @ drop (off + length d) m) else None)"

lemma mem_copy_Some:
  "off + length d \<le> length m \<Longrightarrow>
     mem_copy m off d = Some (take off m @ d @ drop (off + length d) m)"
  by (simp add: mem_copy_def)

lemma mem_copy_length: "mem_copy m off d = Some m' \<Longrightarrow> length m' = length m"
  by (auto simp: mem_copy_def split: if_splits)

lemma mem_copy_nth:
  assumes "mem_copy m off d = Some m'" and "i < length m"
  shows "m' ! i = (if off \<le> i \<and> i < off + length d then d ! (i - off) else m ! i)"
  using assms by (auto simp: mem_copy_def nth_append not_less split: if_splits)

section \<open>Operations that keep an invariant\<close>

text \<open>
  Several operations over one state share a contract: each keeps the invariant of the
  component. \<open>ok\<close> is the precondition under which the code calls the operation.
\<close>

fun ops_ok :: "('op \<Rightarrow> 's \<Rightarrow> bool) \<Rightarrow> ('op \<Rightarrow> 's \<Rightarrow> 's) \<Rightarrow> 'op list \<Rightarrow> 's \<Rightarrow> bool" where
  "ops_ok ok exec [] s \<longleftrightarrow> True"
| "ops_ok ok exec (x # xs) s \<longleftrightarrow> ok x s \<and> ops_ok ok exec xs (exec x s)"

lemma ops_ok_triv [simp]: "ops_ok (\<lambda>_ _. True) exec ops s"
  by (induction ops arbitrary: s) simp_all

locale op_invariant =
  fixes inv :: "'s \<Rightarrow> bool"
    and ok :: "'op \<Rightarrow> 's \<Rightarrow> bool"
    and exec :: "'op \<Rightarrow> 's \<Rightarrow> 's"
  assumes exec_inv: "inv s \<Longrightarrow> ok op s \<Longrightarrow> inv (exec op s)"
begin

lemma run_inv: "inv s \<Longrightarrow> ops_ok ok exec ops s \<Longrightarrow> inv (fold exec ops s)"
  by (induction ops arbitrary: s) (auto intro: exec_inv)

end

text \<open>
  A component that implements an abstract specification: every operation of the code
  corresponds, through the abstraction function, to the operation of the specification.
\<close>

locale simulation = op_invariant inv ok exec
  for inv :: "'s \<Rightarrow> bool" and ok :: "'op \<Rightarrow> 's \<Rightarrow> bool" and exec :: "'op \<Rightarrow> 's \<Rightarrow> 's" +
  fixes abs :: "'s \<Rightarrow> 'a"
    and spec :: "'op \<Rightarrow> 'a \<Rightarrow> 'a"
  assumes exec_sim: "inv s \<Longrightarrow> ok op s \<Longrightarrow> abs (exec op s) = spec op (abs s)"
begin

lemma run_sim:
  "inv s \<Longrightarrow> ops_ok ok exec ops s \<Longrightarrow> abs (fold exec ops s) = fold spec ops (abs s)"
proof (induction ops arbitrary: s)
  case Nil
  then show ?case by simp
next
  case (Cons op ops)
  then have "inv (exec op s)" and "abs (exec op s) = spec op (abs s)"
    by (auto intro: exec_inv simp: exec_sim)
  with Cons show ?case by simp
qed

end

end
