(* ===== verification/Track_Types.thy ===== *)
theory Track_Types
  imports Prelude
begin

text \<open>
  The data of a track: \<open>src/src/track.h\<close> and the parts of \<open>src/src/phiola.h\<close> the modelled
  components use. Anonymous structs are records of their own; a bit field of width 1 is a
  \<open>bool\<close>; a NULL-able C string is a \<open>string option\<close>; a \<open>ffvec\<close> or \<open>ffslice\<close> is the list of
  its elements; a \<open>double\<close> is its bit pattern.

  A filter is identified by its interface name (the pointer \<open>phi_filter*\<close>), so that a track
  does not contain the functions that act on it; what the interface does is a parameter of
  the definitions that call it (theory \<open>Conveyor\<close>).
\<close>

text \<open>Seconds and nanoseconds.\<close>
type_synonym fftime = "int \<times> int"

section \<open>Audio format and track configuration (phiola.h)\<close>

record phi_af =
  af_format :: u16
  af_channels :: u8
  af_interleaved :: bool
  af_rate :: u32

definition PHI_PCM_8 :: u16 where "PHI_PCM_8 = 8"
definition PHI_PCM_16 :: u16 where "PHI_PCM_16 = 16"
definition PHI_PCM_24 :: u16 where "PHI_PCM_24 = 24"
definition PHI_PCM_32 :: u16 where "PHI_PCM_32 = 32"
definition PHI_PCM_24_4 :: u16 where "PHI_PCM_24_4 = 0x0120"
definition PHI_PCM_FLOAT32 :: u16 where "PHI_PCM_FLOAT32 = 0x0220"
definition PHI_PCM_FLOAT64 :: u16 where "PHI_PCM_FLOAT64 = 0x0240"

lemmas pcm_format_defs =
  PHI_PCM_8_def PHI_PCM_16_def PHI_PCM_24_def PHI_PCM_32_def PHI_PCM_24_4_def
  PHI_PCM_FLOAT32_def PHI_PCM_FLOAT64_def

record conf_ifile =
  if_name :: "string option"
  if_buf_size :: u32
  if_include :: "string list"
  if_exclude :: "string list"
  if_preserve_date :: bool

record conf_iaudio =
  ia_format :: phi_af
  ia_device_index :: u32
  ia_buf_time :: u32
  ia_exclusive :: bool
  ia_loopback :: bool
  ia_power_save :: bool

record conf_afilter =
  afl_gain_db :: f64
  afl_peaks_info :: bool
  afl_peaks_crc :: bool
  afl_danorm :: "string option"

record conf_enc =
  aac_profile :: char
  aac_quality :: u16
  aac_bandwidth :: u16
  vorbis_quality :: u8
  opus_bitrate :: u16
  opus_mode :: u8
  opus_bandwidth :: u8

record conf_oaudio =
  oa_format :: phi_af
  oa_device_index :: u32
  oa_buf_time :: u32
  oa_exclusive :: bool

record conf_ofile =
  of_name :: "string option"
  of_mtime :: fftime
  of_buf_size :: u32
  of_overwrite :: bool
  of_name_tmp :: bool

record phi_track_conf =
  c_ifile :: conf_ifile
  c_tracks :: "u32 list"
  c_seek_msec :: u64
  c_until_msec :: u64
  c_seek_cdframes :: u64
  c_until_cdframes :: u64
  c_meta :: "string list"
  c_tee :: "string option"
  c_tee_output :: "string option"
  c_iaudio :: conf_iaudio
  c_afilter :: conf_afilter
  c_enc :: conf_enc
  c_oaudio :: conf_oaudio
  c_ofile :: conf_ofile
  c_cue_gaps :: u8
  c_print_time :: bool
  c_info_only :: bool
  c_print_tags :: bool
  c_stream_copy :: bool
  c_meta_transient :: bool
  c_cross_worker_assign :: bool

section \<open>Filters and the conveyor (track.h)\<close>

datatype phi_r =
    PHI_DATA | PHI_OK | PHI_DONE | PHI_LASTOUT | PHI_MORE | PHI_BACK
  | PHI_ASYNC | PHI_FIN | PHI_ERR

text \<open>What \<open>open\<close> returns: \<open>PHI_OPEN_SKIP\<close>, \<open>PHI_OPEN_ERR\<close> or a filter instance.\<close>
datatype phi_open = OpenSkip | OpenErr | OpenObj nat

definition MAX_FILTERS :: nat where "MAX_FILTERS = 20"

text \<open>\<open>struct filter\<close>; \<open>obj\<close> is NULL until the filter is opened.\<close>
record filter =
  f_iface :: string
  f_obj :: "nat option"
  f_busytime :: fftime
  f_backward_skip :: bool

text \<open>
  \<open>struct phi_conveyor\<close>. The pool has \<open>MAX_FILTERS\<close> slots of which the first \<open>i_fpool\<close> are
  in use; the active chain holds pool indices (the pointers \<open>struct filter*\<close>).
\<close>
record phi_conveyor =
  filters_pool :: "filter list"
  filters :: "nat list"
  i_fpool :: nat
  v_cur :: u32

definition PHI_FFIRST :: u32 where "PHI_FFIRST = 1"
definition PHI_FSTOP :: u32 where "PHI_FSTOP = 2"
definition PHI_FFWD :: u32 where "PHI_FFWD = 4"
definition PHI_FFINISHED :: u32 where "PHI_FFINISHED = 8"

lemmas phi_f_defs = PHI_FFIRST_def PHI_FSTOP_def PHI_FFWD_def PHI_FFINISHED_def

definition PHI_E_OK :: u32 where "PHI_E_OK = 0"
definition PHI_E_NOSRC :: u32 where "PHI_E_NOSRC = 1"
definition PHI_E_DSTEXIST :: u32 where "PHI_E_DSTEXIST = 2"
definition PHI_E_UNKIFMT :: u32 where "PHI_E_UNKIFMT = 3"
definition PHI_E_AUDIO_INPUT :: u32 where "PHI_E_AUDIO_INPUT = 4"
definition PHI_E_OTHER :: u32 where "PHI_E_OTHER = 255"
definition PHI_E_SYS :: u32 where "PHI_E_SYS = 0x80000000"

text \<open>\<open>enum STATE\<close> of \<open>src/src/core/track.c\<close>.\<close>
datatype track_state = ST_RUNNING | ST_FINISHED | ST_STOP | ST_STOPPING

record trk_input =
  in_size :: u64
  in_seek :: u64
  in_mtime :: fftime

record trk_audio =
  a_format :: phi_af
  a_pos :: u64
  a_total :: u64
  a_seek :: u64
  a_seek_req :: bool
  a_bitrate :: u32
  a_gain_db :: f64
  a_maxpeak_db :: f64
  a_decoder :: "string option"
  a_flac_samples :: u32
  a_flac_minblock :: u32
  a_flac_maxblock :: u32
  a_ape_block_samples :: u32
  a_ape_align4 :: u32
  a_aac_encoder_delay :: u32
  a_aac_end_padding :: u32
  a_mpeg1_delay :: u16
  a_mpeg1_padding :: u16
  a_mpeg1_vbr_scale :: u8

record trk_video =
  vid_width :: u32
  vid_height :: u32
  vid_decoder :: "string option"

record trk_oaudio =
  o_format :: phi_af
  o_conv_format :: phi_af
  o_mp4_delay :: u32
  o_mp4_bitrate :: u32
  o_mp4_frame_samples :: u32
  o_flac_vendor :: "string option"
  o_flac_frame_samples :: u32
  o_ogg_granule_pos :: u64
  o_ogg_flush :: bool
  o_ogg_gen_opus_tag :: bool
  o_pause :: bool
  o_clear :: bool

record trk_output =
  out_seek :: u64
  out_cant_seek :: bool

text \<open>
  \<open>struct phi_track\<close>. \<open>sib\<close> is whether the track is linked in the list of tracks; \<open>qent\<close> is
  the identity of its queue entry; the handles \<open>udata\<close>, \<open>adev_ctx\<close> and the callbacks of the
  union are owned by other modules and left out.
\<close>
record phi_track =
  t_sib :: bool
  t_worker :: nat
  t_conveyor :: phi_conveyor
  t_start :: fftime
  t_error :: u32
  t_state :: track_state
  t_id :: nat
  t_conf :: phi_track_conf
  t_chain_flags :: u32
  t_data_in :: bytes
  t_data_out :: bytes
  t_data_type :: "string option"
  t_input :: trk_input
  t_meta :: "string list"
  t_qent :: "nat option"
  t_icy_meta_interval :: u32
  t_meta_changed :: bool
  t_audio :: trk_audio
  t_video :: trk_video
  t_aconv_in :: phi_af
  t_aconv_out :: phi_af
  t_oaudio :: trk_oaudio
  t_output :: trk_output

text \<open>A test of one flag of \<open>chain_flags\<close>.\<close>
definition has_flag :: "phi_track \<Rightarrow> u32 \<Rightarrow> bool" where
  "has_flag t m \<longleftrightarrow> t_chain_flags t AND m \<noteq> 0"

text \<open>\<open>phi_track_conf_assign\<close>: a copy that does not share the owned strings and vectors.\<close>
definition phi_track_conf_assign :: "phi_track_conf \<Rightarrow> phi_track_conf" where
  "phi_track_conf_assign src =
     src\<lparr>c_ifile := (c_ifile src)\<lparr>if_name := None\<rparr>,
         c_ofile := (c_ofile src)\<lparr>of_name := None\<rparr>,
         c_meta := [],
         c_tracks := []\<rparr>"

section \<open>Zeroed objects\<close>

text \<open>What \<open>ffmem_zero_obj\<close> and \<open>ffmem_new\<close> leave in these structs: every byte is 0.\<close>

definition phi_af_zero :: phi_af where
  "phi_af_zero = \<lparr>af_format = 0, af_channels = 0, af_interleaved = False, af_rate = 0\<rparr>"

definition phi_track_conf_zero :: phi_track_conf where
  "phi_track_conf_zero =
    \<lparr>c_ifile = \<lparr>if_name = None, if_buf_size = 0, if_include = [], if_exclude = [],
       if_preserve_date = False\<rparr>,
     c_tracks = [], c_seek_msec = 0, c_until_msec = 0, c_seek_cdframes = 0,
     c_until_cdframes = 0, c_meta = [], c_tee = None, c_tee_output = None,
     c_iaudio = \<lparr>ia_format = phi_af_zero, ia_device_index = 0, ia_buf_time = 0,
       ia_exclusive = False, ia_loopback = False, ia_power_save = False\<rparr>,
     c_afilter = \<lparr>afl_gain_db = 0, afl_peaks_info = False, afl_peaks_crc = False,
       afl_danorm = None\<rparr>,
     c_enc = \<lparr>aac_profile = CHR 0x00, aac_quality = 0, aac_bandwidth = 0, vorbis_quality = 0,
       opus_bitrate = 0, opus_mode = 0, opus_bandwidth = 0\<rparr>,
     c_oaudio = \<lparr>oa_format = phi_af_zero, oa_device_index = 0, oa_buf_time = 0,
       oa_exclusive = False\<rparr>,
     c_ofile = \<lparr>of_name = None, of_mtime = (0, 0), of_buf_size = 0, of_overwrite = False,
       of_name_tmp = False\<rparr>,
     c_cue_gaps = 0, c_print_time = False, c_info_only = False, c_print_tags = False,
     c_stream_copy = False, c_meta_transient = False, c_cross_worker_assign = False\<rparr>"

definition filter_zero :: filter where
  "filter_zero = \<lparr>f_iface = [], f_obj = None, f_busytime = (0, 0), f_backward_skip = False\<rparr>"

definition phi_track_zero :: phi_track where
  "phi_track_zero =
    \<lparr>t_sib = False, t_worker = 0,
     t_conveyor = \<lparr>filters_pool = replicate MAX_FILTERS filter_zero, filters = [],
       i_fpool = 0, v_cur = 0\<rparr>,
     t_start = (0, 0), t_error = 0, t_state = ST_RUNNING, t_id = 0,
     t_conf = phi_track_conf_zero, t_chain_flags = 0, t_data_in = [], t_data_out = [],
     t_data_type = None,
     t_input = \<lparr>in_size = 0, in_seek = 0, in_mtime = (0, 0)\<rparr>,
     t_meta = [], t_qent = None, t_icy_meta_interval = 0, t_meta_changed = False,
     t_audio = \<lparr>a_format = phi_af_zero, a_pos = 0, a_total = 0, a_seek = 0,
       a_seek_req = False, a_bitrate = 0, a_gain_db = 0, a_maxpeak_db = 0, a_decoder = None,
       a_flac_samples = 0, a_flac_minblock = 0, a_flac_maxblock = 0, a_ape_block_samples = 0,
       a_ape_align4 = 0, a_aac_encoder_delay = 0, a_aac_end_padding = 0, a_mpeg1_delay = 0,
       a_mpeg1_padding = 0, a_mpeg1_vbr_scale = 0\<rparr>,
     t_video = \<lparr>vid_width = 0, vid_height = 0, vid_decoder = None\<rparr>,
     t_aconv_in = phi_af_zero, t_aconv_out = phi_af_zero,
     t_oaudio = \<lparr>o_format = phi_af_zero, o_conv_format = phi_af_zero, o_mp4_delay = 0,
       o_mp4_bitrate = 0, o_mp4_frame_samples = 0, o_flac_vendor = None,
       o_flac_frame_samples = 0, o_ogg_granule_pos = 0, o_ogg_flush = False,
       o_ogg_gen_opus_tag = False, o_pause = False, o_clear = False\<rparr>,
     t_output = \<lparr>out_seek = 0, out_cant_seek = False\<rparr>\<rparr>"

end
