(* ===== verification/Sys_File.thy ===== *)
theory Sys_File
  imports Prelude Track_Types
begin

text \<open>
  The operating system's file interface as the filters of \<open>src/src/core\<close> use it
  (\<open>ffsys/file.h\<close>, not part of the repository): a parameter of the model. \<open>'k\<close> is the state
  of the kernel. The laws a property relies on are the predicates below, which state the
  documented behaviour of the calls.
\<close>

text \<open>The combinations of open flags the code passes.\<close>
datatype fopen_mode =
    FFFILE_READONLY
  | FFFILE_WRITEONLY_CREATE
  | FFFILE_WRITEONLY_CREATENEW

record 'k kfs =
  k_open :: "string \<Rightarrow> fopen_mode \<Rightarrow> 'k \<Rightarrow> nat option \<times> 'k"      \<comment> \<open>\<open>fffile_open\<close>; None is \<open>FFFILE_NULL\<close>\<close>
  k_errno :: "'k \<Rightarrow> u32"                                  \<comment> \<open>\<open>fferr_last\<close>\<close>
  k_err_notexist :: "u32 \<Rightarrow> bool"                         \<comment> \<open>\<open>fferr_notexist\<close>\<close>
  k_err_exist :: "u32 \<Rightarrow> bool"                            \<comment> \<open>\<open>fferr_exist\<close>\<close>
  k_info :: "nat \<Rightarrow> 'k \<Rightarrow> (u64 \<times> fftime) option"          \<comment> \<open>\<open>fffile_info\<close>: size and mtime\<close>
  k_readat :: "nat \<Rightarrow> u64 \<Rightarrow> u64 \<Rightarrow> 'k \<Rightarrow> bytes option"    \<comment> \<open>\<open>fffile_readat\<close>; None is an error\<close>
  k_writeat :: "nat \<Rightarrow> bytes \<Rightarrow> u64 \<Rightarrow> 'k \<Rightarrow> int \<times> 'k"    \<comment> \<open>\<open>fffile_writeat\<close>\<close>
  k_write :: "nat \<Rightarrow> bytes \<Rightarrow> 'k \<Rightarrow> u64 \<times> 'k"              \<comment> \<open>\<open>fffile_write\<close>\<close>
  k_pread :: "nat \<Rightarrow> u64 \<Rightarrow> 'k \<Rightarrow> bytes option \<times> 'k"      \<comment> \<open>\<open>ffpipe_read\<close>; None is an error\<close>
  k_trunc :: "nat \<Rightarrow> u64 \<Rightarrow> 'k \<Rightarrow> 'k"                      \<comment> \<open>\<open>fffile_trunc\<close>\<close>
  k_close :: "nat \<Rightarrow> 'k \<Rightarrow> int \<times> 'k"                       \<comment> \<open>\<open>fffile_close\<close>\<close>
  k_remove :: "string \<Rightarrow> 'k \<Rightarrow> int \<times> 'k"                   \<comment> \<open>\<open>fffile_remove\<close>\<close>
  k_rename :: "string \<Rightarrow> string \<Rightarrow> 'k \<Rightarrow> int \<times> 'k"         \<comment> \<open>\<open>fffile_rename\<close>\<close>
  k_set_mtime :: "string \<Rightarrow> fftime \<Rightarrow> 'k \<Rightarrow> 'k"            \<comment> \<open>\<open>fffile_set_mtime_path\<close>\<close>
  k_exists :: "string \<Rightarrow> 'k \<Rightarrow> bool"                       \<comment> \<open>\<open>fffile_exists\<close>\<close>
  k_1970_seconds :: int                                   \<comment> \<open>\<open>FFTIME_1970_SECONDS\<close>\<close>
  k_debug :: bool                                         \<comment> \<open>\<open>core->conf.log_level >= PHI_LOG_DEBUG\<close>\<close>

text \<open>A successful positional write stores exactly the given bytes at the given offset.\<close>
definition writeat_law :: "'k kfs \<Rightarrow> nat \<Rightarrow> ('k \<Rightarrow> nat \<Rightarrow> u8) \<Rightarrow> bool" where
  "writeat_law K fd cont \<longleftrightarrow>
     (\<forall>d off k. 0 \<le> fst (k_writeat K fd d off k) \<longrightarrow>
        cont (snd (k_writeat K fd d off k)) =
          (\<lambda>i. if unat off \<le> i \<and> i < unat off + length d then d ! (i - unat off) else cont k i))"

text \<open>A positional read returns at most the requested bytes, taken from the file, and all of
  them unless the file ends first.\<close>
definition readat_law :: "'k kfs \<Rightarrow> nat \<Rightarrow> 'k \<Rightarrow> bytes \<Rightarrow> bool" where
  "readat_law K fd k file \<longleftrightarrow>
     (\<forall>n off d. k_readat K fd n off k = Some d \<longrightarrow>
        d = take (unat n) (drop (unat off) file))"

text \<open>
  The directory: \<open>names k\<close> are the existing files. Removing a file takes exactly its name away,
  truncating and closing a file do not add or remove names.
\<close>
definition dir_law :: "'k kfs \<Rightarrow> ('k \<Rightarrow> string set) \<Rightarrow> bool" where
  "dir_law K names \<longleftrightarrow>
     (\<forall>n k. names (snd (k_remove K n k)) = names k - {n})
     \<and> (\<forall>fd sz k. names (k_trunc K fd sz k) = names k)
     \<and> (\<forall>fd k. names (snd (k_close K fd k)) = names k)"

section \<open>An in-memory kernel\<close>

text \<open>
  One file whose content is a function of the offset, never failing: the instance at which
  the laws above are shown to be satisfiable.
\<close>

definition mem_kfs :: "bytes \<Rightarrow> (nat \<Rightarrow> u8) kfs" where
  "mem_kfs rd =
     \<lparr>k_open = (\<lambda>_ _ k. (Some 1, k)), k_errno = (\<lambda>_. 0),
      k_err_notexist = (\<lambda>_. False), k_err_exist = (\<lambda>_. False),
      k_info = (\<lambda>_ _. Some (u64len rd, (0, 0))),
      k_readat = (\<lambda>_ n off _. Some (take (unat n) (drop (unat off) rd))),
      k_writeat = (\<lambda>_ d off k. (int (length d),
         \<lambda>i. if unat off \<le> i \<and> i < unat off + length d then d ! (i - unat off) else k i)),
      k_write = (\<lambda>_ d k. (u64len d, k)),
      k_pread = (\<lambda>_ _ k. (Some [], k)),
      k_trunc = (\<lambda>_ _ k. k), k_close = (\<lambda>_ k. (0, k)), k_remove = (\<lambda>_ k. (0, k)),
      k_rename = (\<lambda>_ _ k. (0, k)), k_set_mtime = (\<lambda>_ _ k. k), k_exists = (\<lambda>_ _. False),
      k_1970_seconds = 62135596800, k_debug = False\<rparr>"

lemma mem_kfs_writeat_law: "writeat_law (mem_kfs rd) fd (\<lambda>k. k)"
  by (simp add: writeat_law_def mem_kfs_def)

lemma mem_kfs_readat_law: "readat_law (mem_kfs rd) fd k rd"
  by (simp add: readat_law_def mem_kfs_def)

text \<open>A kernel whose state is the set of file names.\<close>

definition dir_kfs :: "string set kfs" where
  "dir_kfs =
     \<lparr>k_open = (\<lambda>n _ k. (Some 1, insert n k)), k_errno = (\<lambda>_. 0),
      k_err_notexist = (\<lambda>_. False), k_err_exist = (\<lambda>_. False),
      k_info = (\<lambda>_ _. Some (0, (0, 0))), k_readat = (\<lambda>_ _ _ _. Some []),
      k_writeat = (\<lambda>_ d _ k. (int (length d), k)), k_write = (\<lambda>_ d k. (u64len d, k)),
      k_pread = (\<lambda>_ _ k. (Some [], k)),
      k_trunc = (\<lambda>_ _ k. k), k_close = (\<lambda>_ k. (0, k)), k_remove = (\<lambda>n k. (0, k - {n})),
      k_rename = (\<lambda>a b k. (0, insert b (k - {a}))), k_set_mtime = (\<lambda>_ _ k. k),
      k_exists = (\<lambda>n k. n \<in> k), k_1970_seconds = 62135596800, k_debug = False\<rparr>"

lemma dir_kfs_law: "dir_law dir_kfs (\<lambda>k. k)"
  by (simp add: dir_law_def dir_kfs_def)

end
