(* ===== verification/Fcache.thy ===== *)
theory Fcache
  imports Prelude
begin

text \<open>
  \<open>src/src/util/fcache.h\<close>: the read cache of the file reader (a ring of buffers that
  remember which part of the file they hold) and the write-combining buffer of the file
  writer. Buffer memory is a byte list whose length is the allocated capacity, and a store
  outside it is \<open>None\<close>.
\<close>

section \<open>Data and operations\<close>

record fcache_buf =
  b_len :: u64
  b_ptr :: bytes
  b_off :: u64

record fcache =
  bufs :: "fcache_buf list"
  idx :: u32
  hits :: u64
  misses :: u64

text \<open>
  \<open>fcache_init\<close>: \<open>alloc\<close> stands for \<open>ffslice_zallocT\<close> and \<open>ffmem_align\<close> (whether the
  \<open>i\<close>-th request of this call succeeds, the array of buffers being request 0); the content of
  fresh memory is \<open>mem\<close>. The code returns 1 at the first failure; the buffers before it stay
  allocated.
\<close>
fun fcache_init_bufs ::
    "(nat \<Rightarrow> bool) \<Rightarrow> (nat \<Rightarrow> bytes) \<Rightarrow> nat \<Rightarrow> nat \<Rightarrow> nat \<Rightarrow> fcache_buf list option" where
  "fcache_init_bufs alloc mem bufsize i 0 = Some []"
| "fcache_init_bufs alloc mem bufsize i (Suc n) =
     (if \<not> alloc i then None
      else case fcache_init_bufs alloc mem bufsize (Suc i) n of
             None \<Rightarrow> None
           | Some bs \<Rightarrow> Some (\<lparr>b_len = 0, b_ptr = take bufsize (mem i), b_off = -1\<rparr> # bs))"

definition fcache_init ::
    "(nat \<Rightarrow> bool) \<Rightarrow> (nat \<Rightarrow> bytes) \<Rightarrow> nat \<Rightarrow> nat \<Rightarrow> fcache option" where
  "fcache_init alloc mem nbufs bufsize =
     (if \<not> alloc 0 then None
      else case fcache_init_bufs alloc mem bufsize 1 nbufs of
             None \<Rightarrow> None
           | Some bs \<Rightarrow> Some \<lparr>bufs = bs, idx = 0, hits = 0, misses = 0\<rparr>)"

definition fcache_reset :: "fcache \<Rightarrow> fcache" where
  "fcache_reset c = c\<lparr>bufs := map (\<lambda>b. b\<lparr>b_off := 0, b_len := 0\<rparr>) (bufs c)\<rparr>"

text \<open>\<open>fcache_nextbuf\<close> returns the position of the buffer to fill.\<close>
definition fcache_nextbuf :: "fcache \<Rightarrow> fcache \<times> nat" where
  "fcache_nextbuf c =
     (c\<lparr>idx := of_nat ((unat (idx c) + 1) mod length (bufs c))\<rparr>, unat (idx c))"

definition buf_covers :: "u64 \<Rightarrow> fcache_buf \<Rightarrow> bool" where
  "buf_covers off b \<longleftrightarrow> b_off b \<le> off \<and> off < b_off b + b_len b"

fun find_buf :: "u64 \<Rightarrow> fcache_buf list \<Rightarrow> nat \<Rightarrow> nat option" where
  "find_buf off [] i = None"
| "find_buf off (b # bs) i = (if buf_covers off b then Some i else find_buf off bs (Suc i))"

definition fcache_find :: "fcache \<Rightarrow> u64 \<Rightarrow> fcache \<times> nat option" where
  "fcache_find c off =
     (case find_buf off (bufs c) 0 of
        Some i \<Rightarrow> (c\<lparr>hits := hits c + 1\<rparr>, Some i)
      | None \<Rightarrow> (c\<lparr>misses := misses c + 1\<rparr>, None))"

text \<open>The result of \<open>fbuf_write\<close>: the buffer, the rest of the input, the output region and
  the returned offset (an \<open>int64\<close>, negative when there is no output).\<close>
record fbuf_res =
  r_buf :: fcache_buf
  r_in :: bytes
  r_out :: bytes
  r_off :: u64

definition fbuf_flush :: "fcache_buf \<Rightarrow> bytes \<Rightarrow> fbuf_res" where
  "fbuf_flush b inp =
     \<lparr>r_buf = b, r_in = inp, r_out = take (unat (b_len b)) (b_ptr b), r_off = b_off b\<rparr>"

definition fbuf_write :: "fcache_buf \<Rightarrow> u64 \<Rightarrow> bytes \<Rightarrow> u64 \<Rightarrow> fbuf_res option" where
  "fbuf_write b cap inp off =
     (if inp = [] then Some \<lparr>r_buf = b, r_in = inp, r_out = [], r_off = -1\<rparr>
      else if b_len b \<noteq> 0 then
        (if b_off b \<le> off \<and> off \<le> b_off b + b_len b \<and> off < b_off b + cap then
           (let o' = off - b_off b;
                n = min (u64len inp) (cap - o')
            in case mem_copy (b_ptr b) (unat o') (take (unat n) inp) of
                 None \<Rightarrow> None
               | Some p \<Rightarrow>
                   (let b1 = b\<lparr>b_ptr := p\<rparr>; inp1 = drop (unat n) inp
                    in if b_len b < o' + n then
                         (let b2 = b1\<lparr>b_len := o' + n\<rparr>
                          in if b_len b2 \<noteq> cap
                             then Some \<lparr>r_buf = b2, r_in = inp1, r_out = [], r_off = -1\<rparr>
                             else Some (fbuf_flush b2 inp1))
                       else Some (fbuf_flush b1 inp1)))
         else Some (fbuf_flush b inp))
      else if cap < u64len inp then
        Some \<lparr>r_buf = b, r_in = [], r_out = inp, r_off = off\<rparr>
      else case mem_copy (b_ptr b) 0 inp of
             None \<Rightarrow> None
           | Some p \<Rightarrow>
               Some \<lparr>r_buf = b\<lparr>b_ptr := p, b_len := u64len inp, b_off := off\<rparr>,
                     r_in = [], r_out = [], r_off = -1\<rparr>)"

lemma fbuf_write_progress:
  assumes "fbuf_write b cap inp off = Some r" and "\<not> sint (r_off r) < 0"
  shows "length (r_in r) \<le> length inp \<and> (length (r_in r) < length inp \<or> b_len b \<noteq> 0)"
  using assms
  by (auto simp: fbuf_write_def fbuf_flush_def Let_def split: if_splits option.splits)

section \<open>The read cache\<close>

text \<open>
  A cached buffer is right when its valid bytes are the bytes of the file at its offset; the
  cache invariant says so of every buffer, and that the ring position is in range.
\<close>

definition buf_matches :: "bytes \<Rightarrow> fcache_buf \<Rightarrow> bool" where
  "buf_matches file b \<longleftrightarrow>
     unat (b_len b) \<le> length (b_ptr b)
     \<and> (b_len b \<noteq> 0 \<longrightarrow>
          unat (b_off b) + unat (b_len b) \<le> length file
          \<and> take (unat (b_len b)) (b_ptr b) = take (unat (b_len b)) (drop (unat (b_off b)) file))"

definition fcache_inv :: "bytes \<Rightarrow> nat \<Rightarrow> fcache \<Rightarrow> bool" where
  "fcache_inv file cap c \<longleftrightarrow>
     bufs c \<noteq> [] \<and> length (bufs c) < 2 ^ 32 \<and> unat (idx c) < length (bufs c)
     \<and> (\<forall>b \<in> set (bufs c). length (b_ptr b) = cap \<and> buf_matches file b)"

lemma find_buf_Some:
  "find_buf off bs k = Some i \<Longrightarrow> k \<le> i \<and> i < k + length bs \<and> buf_covers off (bs ! (i - k))"
proof (induction bs arbitrary: k)
  case Nil
  then show ?case by simp
next
  case (Cons b bs)
  show ?case
  proof (cases "buf_covers off b")
    case True
    with Cons.prems show ?thesis by simp
  next
    case False
    with Cons.prems have "find_buf off bs (Suc k) = Some i" by simp
    from Cons.IH [OF this] show ?thesis by (auto simp: nth_Cons' Suc_diff_le)
  qed
qed

lemma find_buf_None: "find_buf off bs k = None \<longleftrightarrow> (\<forall>b \<in> set bs. \<not> buf_covers off b)"
  by (induction bs arbitrary: k) auto

lemma buf_covers_unat:
  assumes "buf_covers off b" and "unat (b_off b) + unat (b_len b) < 2 ^ 64"
  shows "unat (b_off b) \<le> unat off \<and> unat off < unat (b_off b) + unat (b_len b)"
  using assms by (simp add: buf_covers_def word_le_nat_alt word_less_nat_alt wsimps)

lemma fcache_nextbuf_inv [inv_intros]:
  assumes "fcache_inv file cap c"
  shows "fcache_inv file cap (fst (fcache_nextbuf c)) \<and> snd (fcache_nextbuf c) < length (bufs c)"
proof -
  have "(unat (idx c) + 1) mod length (bufs c) < length (bufs c)"
    using assms by (simp add: fcache_inv_def)
  moreover have "length (bufs c) < 2 ^ 32" using assms by (simp add: fcache_inv_def)
  ultimately have "unat (of_nat ((unat (idx c) + 1) mod length (bufs c)) :: u32) < length (bufs c)"
    by (simp add: unat_of_nat take_bit_nat_eq_self)
  with assms show ?thesis by (simp add: fcache_nextbuf_def fcache_inv_def)
qed

lemma fcache_find_inv [inv_intros]:
  "fcache_inv file cap c \<Longrightarrow> fcache_inv file cap (fst (fcache_find c off))"
  by (simp add: fcache_find_def fcache_inv_def split: option.splits)

lemma fcache_find_bufs [frame_simps]: "bufs (fst (fcache_find c off)) = bufs c"
  by (simp add: fcache_find_def split: option.splits)

lemma fcache_nextbuf_bufs [frame_simps]: "bufs (fst (fcache_nextbuf c)) = bufs c"
  by (simp add: fcache_nextbuf_def)

lemma fcache_reset_inv [inv_intros]:
  "fcache_inv file cap c \<Longrightarrow> fcache_inv file cap (fcache_reset c)"
  by (auto simp: fcache_reset_def fcache_inv_def buf_matches_def)

lemma fcache_init_bufs_inv:
  assumes "\<And>j. n \<le> length (mem j)"
  shows "fcache_init_bufs alloc mem n i k = Some bs \<Longrightarrow>
     length bs = k \<and> (\<forall>b \<in> set bs. length (b_ptr b) = n \<and> b_len b = 0)"
  using assms by (induction k arbitrary: i bs) (auto split: if_splits option.splits)

lemma fcache_init_inv [inv_intros]:
  assumes "fcache_init alloc mem n cap = Some c" and "\<And>j. cap \<le> length (mem j)"
    and "0 < n" and "n < 2 ^ 32"
  shows "fcache_inv file cap c"
proof -
  from assms(1) obtain bs where
      bs: "fcache_init_bufs alloc mem cap 1 n = Some bs" and
      c: "c = \<lparr>bufs = bs, idx = 0, hits = 0, misses = 0\<rparr>"
    by (auto simp: fcache_init_def split: if_splits option.splits)
  from fcache_init_bufs_inv [OF assms(2) bs] assms(3,4) show ?thesis
    by (auto simp: c fcache_inv_def buf_matches_def)
qed

lemma fcache_find_hit:
  assumes "fcache_inv file cap c" and "snd (fcache_find c off) = Some i"
  shows "i < length (bufs c) \<and> buf_covers off (bufs c ! i) \<and> buf_matches file (bufs c ! i)"
proof -
  have "find_buf off (bufs c) 0 = Some i"
    using assms(2) by (auto simp: fcache_find_def split: option.splits)
  from find_buf_Some [OF this] assms(1) show ?thesis by (auto simp: fcache_inv_def)
qed

section \<open>The write buffer\<close>

text \<open>
  The pending write of a buffer: the bytes it holds and the file offset they belong to. A
  file image is a function from offsets to bytes together with the size of the file;
  \<open>apply_write\<close> stores a byte string in it.
\<close>

type_synonym fimg = "(nat \<Rightarrow> u8) \<times> nat"

definition apply_write :: "nat \<Rightarrow> bytes \<Rightarrow> fimg \<Rightarrow> fimg" where
  "apply_write off d F =
     (\<lambda>i. if off \<le> i \<and> i < off + length d then d ! (i - off) else fst F i,
      if d = [] then snd F else max (snd F) (off + length d))"

definition pending :: "fcache_buf \<Rightarrow> bytes" where
  "pending b = take (unat (b_len b)) (b_ptr b)"

text \<open>The file as the reader will see it once the pending bytes are written.\<close>
definition buf_view :: "fcache_buf \<Rightarrow> fimg \<Rightarrow> fimg" where
  "buf_view b f = apply_write (unat (b_off b)) (pending b) f"

definition wbuf_inv :: "u64 \<Rightarrow> fcache_buf \<Rightarrow> bool" where
  "wbuf_inv cap b \<longleftrightarrow>
     0 < unat cap \<and> length (b_ptr b) = unat cap \<and> unat cap < 2 ^ 62
     \<and> unat (b_len b) \<le> unat cap \<and> unat (b_off b) < 2 ^ 62"

lemma apply_write_Nil [simp]: "apply_write off [] f = f"
  by (auto simp: apply_write_def prod_eq_iff fun_eq_iff not_le)

lemma apply_write_idem [simp]: "apply_write off d (apply_write off d F) = apply_write off d F"
  by (cases "d = []", simp) (simp add: apply_write_def fun_eq_iff)

lemma apply_write_append:
  "apply_write off (xs @ ys) f = apply_write (off + length xs) ys (apply_write off xs f)"
  by (auto simp: apply_write_def prod_eq_iff nth_append fun_eq_iff)

lemma length_pending: "wbuf_inv cap b \<Longrightarrow> length (pending b) = unat (b_len b)"
  by (simp add: wbuf_inv_def pending_def)

text \<open>Overwriting a region of the pending bytes, possibly extending them, is a write to the view.\<close>

lemma apply_write_merge:
  assumes "o' \<le> length p" and "n = length d"
  shows "apply_write a (take o' p @ d @ drop (o' + n) p) f
       = apply_write (a + o') d (apply_write a p f)"
  using assms by (auto simp: apply_write_def prod_eq_iff fun_eq_iff nth_append not_less)

text \<open>
  What one call of \<open>fbuf_write\<close> does, as the writer relies on it: the buffer never overflows;
  without output all input is in the buffer; with output, writing it at the returned offset
  leaves the file as if the consumed input had been written over the pending bytes.
\<close>

definition fbuf_absorbed :: "u64 \<Rightarrow> fcache_buf \<Rightarrow> bytes \<Rightarrow> u64 \<Rightarrow> fbuf_res \<Rightarrow> bool" where
  "fbuf_absorbed cap b inp off r \<longleftrightarrow>
     r_in r = [] \<and> wbuf_inv cap (r_buf r)
     \<and> (\<forall>f. buf_view (r_buf r) f = apply_write (unat off) inp (buf_view b f))"

definition fbuf_flushed :: "u64 \<Rightarrow> fcache_buf \<Rightarrow> bytes \<Rightarrow> u64 \<Rightarrow> fbuf_res \<Rightarrow> bool" where
  "fbuf_flushed cap b inp off r \<longleftrightarrow>
     (\<exists>n \<le> length inp.
        r_in r = drop n inp \<and> wbuf_inv cap (r_buf r) \<and> r_out r \<noteq> []
        \<and> unat (r_off r) < 2 ^ 62 \<and> length (r_out r) < 2 ^ 62
        \<and> (n = 0 \<longrightarrow> b_len b \<noteq> 0)
        \<and> (\<forall>f. apply_write (unat (r_off r)) (r_out r) f
               = apply_write (unat off) (take n inp) (buf_view b f)))"

lemma neg1_is_neg: "sint (-1 :: u64) < 0"
  by simp

lemma small_not_neg: "unat (x :: u64) < 2 ^ 62 \<Longrightarrow> \<not> sint x < 0"
  by (simp add: sint_neg_iff)

text \<open>Reading the guards of the overlap branch as natural numbers.\<close>

lemma overlap_bounds:
  assumes "wbuf_inv cap b" and "b_off b \<le> off" and "off \<le> b_off b + b_len b"
    and "off < b_off b + cap"
  shows "unat (off - b_off b) = unat off - unat (b_off b)"
    and "unat (b_off b) \<le> unat off"
    and "unat off - unat (b_off b) \<le> unat (b_len b)"
    and "unat off - unat (b_off b) < unat cap"
proof -
  have "unat (b_off b + b_len b) = unat (b_off b) + unat (b_len b)"
    and "unat (b_off b + cap) = unat (b_off b) + unat cap"
    using assms(1) by (simp_all add: wbuf_inv_def wsimps)
  then show "unat (off - b_off b) = unat off - unat (b_off b)"
    and "unat (b_off b) \<le> unat off"
    and "unat off - unat (b_off b) \<le> unat (b_len b)"
    and "unat off - unat (b_off b) < unat cap"
    using assms(2-4) by (simp_all add: word_le_nat_alt word_less_nat_alt unat_diff_le)
qed

text \<open>The bytes pending after a copy at \<open>o'\<close> into the buffer.\<close>

lemma take_mem_copy:
  assumes "l \<le> length m" and "o' \<le> l" and "o' + length d \<le> length m"
  shows "take (max l (o' + length d)) (take o' m @ d @ drop (o' + length d) m)
       = take o' (take l m) @ d @ drop (o' + length d) (take l m)"
proof -
  have "take (max l (o' + length d)) (take o' m @ d @ drop (o' + length d) m)
      = take o' m @ d @ take (l - (o' + length d)) (drop (o' + length d) m)"
    using assms by (auto simp: max_def)
  also have "\<dots> = take o' (take l m) @ d @ drop (o' + length d) (take l m)"
    using assms by (simp add: min_def drop_take)
  finally show ?thesis .
qed

lemma buf_view_merge:
  assumes "wbuf_inv cap b" and "o' \<le> unat (b_len b)" and "o' + length d \<le> unat cap"
    and "unat l' = max (unat (b_len b)) (o' + length d)"
    and "p = take o' (b_ptr b) @ d @ drop (o' + length d) (b_ptr b)"
  shows "buf_view (b\<lparr>b_ptr := p, b_len := l'\<rparr>) f
       = apply_write (unat (b_off b) + o') d (buf_view b f)"
proof -
  have "pending (b\<lparr>b_ptr := p, b_len := l'\<rparr>) = take o' (pending b) @ d @ drop (o' + length d) (pending b)"
    using assms take_mem_copy [of "unat (b_len b)" "b_ptr b" o' d]
    by (simp add: pending_def wbuf_inv_def)
  then show ?thesis
    using assms apply_write_merge [of o' "pending b" "length d" d "unat (b_off b)" f]
    by (simp add: buf_view_def length_pending)
qed

lemma fbuf_flush_flushed:
  assumes "wbuf_inv cap b'" and "b_len b' \<noteq> 0"
    and "n \<le> length inp" and "n = 0 \<longrightarrow> b_len b \<noteq> 0"
    and "\<And>f. buf_view b' f = apply_write (unat off) (take n inp) (buf_view b f)"
  shows "\<not> sint (r_off (fbuf_flush b' (drop n inp))) < 0
       \<and> fbuf_flushed cap b inp off (fbuf_flush b' (drop n inp))"
proof -
  have "take (unat (b_len b')) (b_ptr b') \<noteq> []"
    using assms(1,2) by (auto simp: wbuf_inv_def word_neq_0_unat)
  with assms show ?thesis
    by (auto simp: fbuf_flush_def fbuf_flushed_def wbuf_inv_def small_not_neg buf_view_def pending_def)
qed

lemma fbuf_write_overlap:
  assumes inv: "wbuf_inv cap b" and bound: "unat off + length inp < 2 ^ 62"
    and ne: "inp \<noteq> []" "b_len b \<noteq> 0"
    and ov: "b_off b \<le> off" "off \<le> b_off b + b_len b" "off < b_off b + cap"
  obtains r where "fbuf_write b cap inp off = Some r"
    and "sint (r_off r) < 0 \<and> fbuf_absorbed cap b inp off r
         \<or> \<not> sint (r_off r) < 0 \<and> fbuf_flushed cap b inp off r"
proof -
  note ob = overlap_bounds [OF inv ov]
  define o' where "o' = off - b_off b"
  define n where "n = min (u64len inp) (cap - o')"
  define d where "d = take (unat n) inp"
  define p where "p = take (unat o') (b_ptr b) @ d @ drop (unat o' + length d) (b_ptr b)"
  have caps: "length (b_ptr b) = unat cap" "unat cap < 2 ^ 62" "unat (b_len b) \<le> unat cap"
    using inv by (auto simp: wbuf_inv_def)
  have uo: "unat o' = unat off - unat (b_off b)" and ol: "unat o' \<le> unat (b_len b)"
    and oc: "unat o' < unat cap"
    using ob by (simp_all add: o'_def)
  have "unat (cap - o') = unat cap - unat o'"
    using oc by (simp add: unat_diff_le word_le_nat_alt)
  moreover have "unat (u64len inp) = length inp" using bound by (simp add: unat_u64len)
  ultimately have un: "unat n = min (length inp) (unat cap - unat o')"
    by (simp add: n_def min_def word_le_nat_alt)
  have ld: "length d = unat n" by (simp add: d_def un)
  have n0: "0 < unat n" using oc ne(1) by (simp add: un)
  have fit: "unat o' + unat n \<le> unat cap" using oc by (simp add: un)
  have uon: "unat (o' + n) = unat o' + unat n" using fit caps by (simp add: wsimps)
  have cp: "mem_copy (b_ptr b) (unat o') d = Some p"
    using fit caps by (simp add: mem_copy_Some p_def ld)
  have pl: "length p = unat cap" using fit caps by (simp add: p_def ld)
  have off: "unat (b_off b) + unat o' = unat off" using ob(2) uo by simp
  have view: "buf_view (b\<lparr>b_ptr := p, b_len := l'\<rparr>) f = apply_write (unat off) d (buf_view b f)"
    if "unat l' = max (unat (b_len b)) (unat o' + unat n)" for l' f
    using buf_view_merge [OF inv ol _ _ p_def, of l' f] that fit off by (simp add: ld)
  have winv: "wbuf_inv cap (b\<lparr>b_ptr := p, b_len := l'\<rparr>)" if "unat l' \<le> unat cap" for l'
    using inv that pl by (simp add: wbuf_inv_def)
  show thesis
  proof (cases "b_len b < o' + n")
    case True
    let ?b2 = "b\<lparr>b_ptr := p, b_len := o' + n\<rparr>"
    have l2: "unat (o' + n) = max (unat (b_len b)) (unat o' + unat n)"
      using True by (simp add: word_less_nat_alt uon)
    show thesis
    proof (cases "o' + n = cap")
      case full: True
      have eq: "fbuf_write b cap inp off = Some (fbuf_flush ?b2 (drop (unat n) inp))"
        using ne ov cp True full
        by (simp add: fbuf_write_def Let_def o'_def [symmetric] n_def [symmetric] d_def [symmetric])
      show thesis
        by (rule that [OF eq], rule disjI2, rule fbuf_flush_flushed)
          (use ne n0 winv view [OF l2] full oc in \<open>auto simp: un d_def\<close>)
    next
      case False
      have all: "unat n = length inp"
      proof (rule ccontr)
        assume "unat n \<noteq> length inp"
        then have "unat n = unat cap - unat o'" by (simp add: un min_def split: if_splits)
        then have "unat (o' + n) = unat cap" using oc by (simp add: uon)
        with False show False by (simp add: word_unat_eq_iff)
      qed
      let ?r = "\<lparr>r_buf = ?b2, r_in = drop (unat n) inp, r_out = [], r_off = -1\<rparr>"
      have eq: "fbuf_write b cap inp off = Some ?r"
        using ne ov cp True False
        by (simp add: fbuf_write_def Let_def o'_def [symmetric] n_def [symmetric] d_def [symmetric])
      show thesis
        by (rule that [OF eq], rule disjI1)
          (use fit winv [of "o' + n"] view [OF l2] in \<open>simp add: fbuf_absorbed_def all d_def uon\<close>)
    qed
  next
    case False
    have l1: "unat (b_len b) = max (unat (b_len b)) (unat o' + unat n)"
      using False by (simp add: word_less_nat_alt uon)
    have eq: "fbuf_write b cap inp off = Some (fbuf_flush (b\<lparr>b_ptr := p, b_len := b_len b\<rparr>) (drop (unat n) inp))"
      using ne ov cp False
      by (simp add: fbuf_write_def Let_def o'_def [symmetric] n_def [symmetric] d_def [symmetric])
    show thesis
      by (rule that [OF eq], rule disjI2, rule fbuf_flush_flushed)
        (use ne n0 winv [of "b_len b"] view [OF l1] caps in \<open>auto simp: un d_def\<close>)
  qed
qed

lemma fbuf_write_correct:
  assumes inv: "wbuf_inv cap b" and bound: "unat off + length inp < 2 ^ 62"
  obtains r where "fbuf_write b cap inp off = Some r"
    and "sint (r_off r) < 0 \<and> fbuf_absorbed cap b inp off r
         \<or> \<not> sint (r_off r) < 0 \<and> fbuf_flushed cap b inp off r"
proof -
  consider (empty) "inp = []"
    | (overlap) "inp \<noteq> []" "b_len b \<noteq> 0" "b_off b \<le> off" "off \<le> b_off b + b_len b" "off < b_off b + cap"
    | (flush) "inp \<noteq> []" "b_len b \<noteq> 0" "\<not> (b_off b \<le> off \<and> off \<le> b_off b + b_len b \<and> off < b_off b + cap)"
    | (large) "inp \<noteq> []" "b_len b = 0" "cap < u64len inp"
    | (store) "inp \<noteq> []" "b_len b = 0" "\<not> cap < u64len inp"
    by blast
  then show thesis
  proof cases
    case empty
    then show thesis using that inv by (simp add: fbuf_write_def fbuf_absorbed_def)
  next
    case overlap
    then show thesis using fbuf_write_overlap [OF inv bound] that by blast
  next
    case flush
    then have eq: "fbuf_write b cap inp off = Some (fbuf_flush b (drop 0 inp))"
      by (auto simp: fbuf_write_def)
    show thesis
      by (rule that [OF eq], rule disjI2, rule fbuf_flush_flushed) (use inv flush in auto)
  next
    case large
    then have eq: "fbuf_write b cap inp off = Some \<lparr>r_buf = b, r_in = [], r_out = inp, r_off = off\<rparr>"
      by (simp add: fbuf_write_def)
    have "buf_view b f = f" for f using large by (simp add: buf_view_def pending_def)
    then show thesis
      by (intro that [OF eq] disjI2)
        (use inv bound large in \<open>auto simp: fbuf_flushed_def small_not_neg intro!: exI [of _ "length inp"]\<close>)
  next
    case store
    have len: "unat (u64len inp) = length inp" using bound by (simp add: unat_u64len)
    have fit: "length inp \<le> unat cap" using store(3) by (simp add: not_less word_le_nat_alt len)
    let ?b = "b\<lparr>b_ptr := inp @ drop (length inp) (b_ptr b), b_len := u64len inp, b_off := off\<rparr>"
    have eq: "fbuf_write b cap inp off = Some \<lparr>r_buf = ?b, r_in = [], r_out = [], r_off = -1\<rparr>"
      using store fit inv by (simp add: fbuf_write_def mem_copy_def wbuf_inv_def)
    have "buf_view b f = f" for f using store by (simp add: buf_view_def pending_def)
    moreover have "buf_view ?b f = apply_write (unat off) inp f" for f
      by (simp add: buf_view_def pending_def len)
    moreover have "wbuf_inv cap ?b"
      using inv fit bound by (simp add: wbuf_inv_def len)
    ultimately show thesis
      by (intro that [OF eq] disjI1) (simp add: fbuf_absorbed_def)
  qed
qed

end
