(* ===== verification/File_Write.thy ===== *)
theory File_Write
  imports Sys_File Fcache
begin

text \<open>
  \<open>src/src/core/file-write.h\<close>: the filter that writes the last filter's output to a file
  through the write-combining buffer of \<open>Fcache\<close>. The main result is that buffering is
  invisible: after any sequence of chunks and seeks the file holds what writing each chunk
  directly would have left.

  Left out: the timing statistics \<open>t_open\<close> and \<open>t_io\<close>, which only feed a debug message.
\<close>

record file_w =
  w_fd :: "nat option"
  w_off_cur :: u64
  w_size :: u64
  w_wbuf :: fcache_buf
  w_buf_cap :: u64
  w_name :: string
  w_filename_tmp :: "string option"
  w_fin :: bool
  w_writes :: u64
  w_cached_writes :: u64

section \<open>Operations\<close>

text \<open>\<open>fw_write\<close>: pass data to the kernel; the third component is the error flag.\<close>
definition fw_write :: "'k kfs \<Rightarrow> file_w \<Rightarrow> bytes \<Rightarrow> u64 \<Rightarrow> 'k \<Rightarrow> file_w \<times> 'k \<times> bool" where
  "fw_write K f d off k =
     (case k_writeat K (the (w_fd f)) d off k of (r, k1) \<Rightarrow>
        if r < 0 then (f, k1, True)
        else
          (let f1 = (if w_size f < off + u64len d then f\<lparr>w_size := off + u64len d\<rparr> else f);
               f2 = (if k_debug K then f1\<lparr>w_writes := w_writes f1 + 1\<rparr> else f1)
           in (f2, k1, False)))"

text \<open>The loop of \<open>fw_process\<close>; \<open>first\<close> is the flag \<open>PHI_FFIRST\<close>. \<open>None\<close> is a store outside
  the buffer.\<close>
function fw_loop ::
    "'k kfs \<Rightarrow> bool \<Rightarrow> file_w \<Rightarrow> bytes \<Rightarrow> u64 \<Rightarrow> 'k \<Rightarrow> (file_w \<times> 'k \<times> phi_r) option" where
  "fw_loop K first f inp off k =
     (case fbuf_write (w_wbuf f) (w_buf_cap f) inp off of
        None \<Rightarrow> None
      | Some r \<Rightarrow>
          (let off1 = off + (u64len inp - u64len (r_in r));
               f1 = f\<lparr>w_wbuf := r_buf r,
                      w_cached_writes := w_cached_writes f +
                        (if length inp \<noteq> length (r_in r) then 1 else 0)\<rparr>
           in if sint (r_off r) < 0 then
                (if first then
                   (let b = w_wbuf f1
                    in if b_len b \<noteq> 0 then
                         (case fw_write K f1 (take (unat (b_len b)) (b_ptr b)) (b_off b) k of
                            (f2, k2, err) \<Rightarrow>
                              if err then Some (f2, k2, PHI_ERR)
                              else Some (f2\<lparr>w_fin := True\<rparr>, k2, PHI_DONE))
                       else Some (f1\<lparr>w_fin := True\<rparr>, k, PHI_DONE))
                 else Some (f1\<lparr>w_off_cur := off1\<rparr>, k, PHI_MORE))
              else
                (case fw_write K f1 (r_out r) (r_off r) k of
                   (f2, k2, err) \<Rightarrow>
                     if err then Some (f2, k2, PHI_ERR)
                     else fw_loop K first
                            (f2\<lparr>w_wbuf := (w_wbuf f2)\<lparr>b_len := 0, b_off := 0\<rparr>\<rparr>) (r_in r) off1 k2)))"
  by pat_completeness auto
termination
proof (relation "measure (\<lambda>(K, first, f, inp, off, k).
          2 * length inp + (if b_len (w_wbuf f) = 0 then 0 else 1))", simp)
qed (auto dest!: fbuf_write_progress split: if_splits)

declare fw_loop.simps [simp del]

text \<open>\<open>fw_process\<close>: where to write, then the loop.\<close>
definition fw_process ::
    "'k kfs \<Rightarrow> file_w \<Rightarrow> phi_track \<Rightarrow> 'k \<Rightarrow> (file_w \<times> phi_track \<times> 'k \<times> phi_r) option" where
  "fw_process K f t k =
     (let seek = out_seek (t_output t);
          off = (if seek \<noteq> -1 then seek else w_off_cur f);
          t1 = t\<lparr>t_output := (t_output t)\<lparr>out_seek := -1\<rparr>\<rparr>
      in case fw_loop K (has_flag t PHI_FFIRST) f (t_data_in t) off k of
           None \<Rightarrow> None
         | Some (f1, k1, r) \<Rightarrow> Some (f1, t1, k1, r))"

text \<open>\<open>fw_close\<close>: truncate, close, then remove an unfinished file or move a finished one to
  its final name. Only the kernel state changes; the object is freed.\<close>
definition fw_close :: "'k kfs \<Rightarrow> file_w \<Rightarrow> phi_track \<Rightarrow> 'k \<Rightarrow> 'k" where
  "fw_close K f t k =
     (case w_fd f of
        None \<Rightarrow> k
      | Some fd \<Rightarrow>
          (case k_close K fd (k_trunc K fd (w_size f) k) of (r, k1) \<Rightarrow>
             if r \<noteq> 0 then k1
             else if \<not> w_fin f then snd (k_remove K (w_name f) k1)
             else
               (let mt = of_mtime (c_ofile (t_conf t));
                    k2 = (if fst mt \<noteq> 0
                          then k_set_mtime K (w_name f) (fst mt - k_1970_seconds K, snd mt) k1
                          else k1)
                in case w_filename_tmp f of
                     None \<Rightarrow> k2
                   | Some tmp \<Rightarrow> snd (k_rename K tmp (w_name f) k2))))"

section \<open>Buffered writing is direct writing\<close>

definition fw_inv :: "file_w \<Rightarrow> bool" where
  "fw_inv f \<longleftrightarrow> wbuf_inv (w_buf_cap f) (w_wbuf f) \<and> unat (w_size f) < 2 ^ 63"

text \<open>The file as it will be once the pending bytes are written: content and size.\<close>
definition fw_view :: "('k \<Rightarrow> nat \<Rightarrow> u8) \<Rightarrow> file_w \<Rightarrow> 'k \<Rightarrow> fimg" where
  "fw_view cont f k = buf_view (w_wbuf f) (cont k, unat (w_size f))"

lemma fw_view_simps [simp]:
  "fw_view cont (f\<lparr>w_fin := x\<rparr>) k = fw_view cont f k"
  "fw_view cont (f\<lparr>w_off_cur := y\<rparr>) k = fw_view cont f k"
  "fw_inv (f\<lparr>w_fin := x\<rparr>) = fw_inv f"
  "fw_inv (f\<lparr>w_off_cur := y\<rparr>) = fw_inv f"
  by (simp_all add: fw_view_def fw_inv_def)

lemma fw_write_frame [frame_simps]:
  assumes "fw_write K f d off k = (f', k', err)"
  shows "w_fd f' = w_fd f" "w_wbuf f' = w_wbuf f" "w_buf_cap f' = w_buf_cap f"
    "w_off_cur f' = w_off_cur f" "w_fin f' = w_fin f"
  using assms by (auto simp: fw_write_def Let_def split: prod.splits if_splits)

lemma fw_write_ok:
  assumes law: "writeat_law K (the (w_fd f)) cont"
    and w: "fw_write K f d off k = (f', k', False)"
    and d: "d \<noteq> []" and b: "unat off < 2 ^ 62" "length d < 2 ^ 62" and s: "unat (w_size f) < 2 ^ 63"
  shows "(cont k', unat (w_size f')) = apply_write (unat off) d (cont k, unat (w_size f))"
    and "unat (w_size f') < 2 ^ 63"
proof -
  obtain r where r: "k_writeat K (the (w_fd f)) d off k = (r, k')" "0 \<le> r"
    using w by (auto simp: fw_write_def Let_def not_less split: prod.splits if_splits)
  have sz: "w_size f' = (if w_size f < off + u64len d then off + u64len d else w_size f)"
    using w by (auto simp: fw_write_def Let_def split: prod.splits if_splits)
  have uo: "unat (off + u64len d) = unat off + length d"
    using b by (intro unat_add_u64len) simp
  have cont: "cont k' = (\<lambda>i. if unat off \<le> i \<and> i < unat off + length d
                             then d ! (i - unat off) else cont k i)"
    using law [unfolded writeat_law_def, rule_format, of d off k] r by simp
  show "(cont k', unat (w_size f')) = apply_write (unat off) d (cont k, unat (w_size f))"
    using d by (simp add: apply_write_def cont sz uo word_less_nat_alt max_def fun_eq_iff)
  show "unat (w_size f') < 2 ^ 63"
    using b s by (simp add: sz uo)
qed

text \<open>
  One run of the loop, whatever the kernel answers: it returns; the buffer is never
  overrun; unless a write failed, the view of the file is the old one with the chunk written
  at \<open>off\<close>, and in the last call everything is in the file.
\<close>

definition fw_result ::
    "('k \<Rightarrow> nat \<Rightarrow> u8) \<Rightarrow> bool \<Rightarrow> file_w \<Rightarrow> bytes \<Rightarrow> u64 \<Rightarrow> 'k \<Rightarrow> file_w \<times> 'k \<times> phi_r \<Rightarrow> bool" where
  "fw_result cont first f inp off k res \<longleftrightarrow>
     (case res of (f', k', r) \<Rightarrow>
        w_fd f' = w_fd f \<and> w_buf_cap f' = w_buf_cap f
        \<and> (r = PHI_ERR
           \<or> fw_inv f' \<and> fw_view cont f' k' = apply_write (unat off) inp (fw_view cont f k)
             \<and> (if first then r = PHI_DONE \<and> w_fin f' \<and> (cont k', unat (w_size f')) = fw_view cont f' k'
                else r = PHI_MORE \<and> w_fin f' = w_fin f \<and> unat (w_off_cur f') = unat off + length inp)))"

lemma fw_finish:
  assumes law: "writeat_law K (the (w_fd f)) cont" and inv: "fw_inv f"
    and ne: "b_len (w_wbuf f) \<noteq> 0"
    and w: "fw_write K f (take (unat (b_len (w_wbuf f))) (b_ptr (w_wbuf f))) (b_off (w_wbuf f)) k
            = (f', k', False)"
  shows "fw_inv f' \<and> (cont k', unat (w_size f')) = fw_view cont f k
         \<and> fw_view cont f' k' = fw_view cont f k"
proof -
  let ?d = "take (unat (b_len (w_wbuf f))) (b_ptr (w_wbuf f))"
  have b: "wbuf_inv (w_buf_cap f) (w_wbuf f)" "unat (w_size f) < 2 ^ 63"
    using inv by (auto simp: fw_inv_def)
  have len: "length ?d = unat (b_len (w_wbuf f))"
    using b(1) by (simp add: wbuf_inv_def)
  have "?d \<noteq> []" using ne len by (metis length_greater_0_conv word_neq_0_unat)
  note ok = fw_write_ok [OF law w this]
  have img: "(cont k', unat (w_size f')) = fw_view cont f k"
    using ok b len by (simp add: fw_view_def buf_view_def pending_def wbuf_inv_def)
  moreover have "fw_inv f'"
    using ok b len fw_write_frame [OF w] by (simp add: fw_inv_def wbuf_inv_def)
  moreover have "buf_view (w_wbuf f) (buf_view (w_wbuf f) F) = buf_view (w_wbuf f) F" for F
    by (simp add: buf_view_def)
  then have "fw_view cont f' k' = fw_view cont f k"
    using img fw_write_frame [OF w] by (simp add: fw_view_def)
  ultimately show ?thesis by blast
qed

lemma fw_loop_absorbed:
  assumes law: "writeat_law K (the (w_fd f)) cont" and inv: "fw_inv f"
    and bound: "unat off + length inp < 2 ^ 62"
    and r: "fbuf_write (w_wbuf f) (w_buf_cap f) inp off = Some r"
    and neg: "sint (r_off r) < 0" and abs: "fbuf_absorbed (w_buf_cap f) (w_wbuf f) inp off r"
  shows "\<exists>res. fw_loop K first f inp off k = Some res \<and> fw_result cont first f inp off k res"
proof -
  define f1 where "f1 = f\<lparr>w_wbuf := r_buf r,
     w_cached_writes := w_cached_writes f + (if length inp \<noteq> length (r_in r) then 1 else 0)\<rparr>"
  have rin: "r_in r = []" using abs by (simp add: fbuf_absorbed_def)
  have inv1: "fw_inv f1" and fd1: "w_fd f1 = w_fd f" and buf1: "w_wbuf f1 = r_buf r"
    using abs inv by (auto simp: f1_def fbuf_absorbed_def fw_inv_def)
  have view1: "fw_view cont f1 k = apply_write (unat off) inp (fw_view cont f k)"
    using abs by (simp add: f1_def fw_view_def fbuf_absorbed_def)
  have step: "fw_loop K first f inp off k =
     (if first then
        (if b_len (r_buf r) \<noteq> 0 then
           (case fw_write K f1 (take (unat (b_len (r_buf r))) (b_ptr (r_buf r))) (b_off (r_buf r)) k of
              (f2, k2, err) \<Rightarrow> if err then Some (f2, k2, PHI_ERR)
                              else Some (f2\<lparr>w_fin := True\<rparr>, k2, PHI_DONE))
         else Some (f1\<lparr>w_fin := True\<rparr>, k, PHI_DONE))
      else Some (f1\<lparr>w_off_cur := off + u64len inp\<rparr>, k, PHI_MORE))"
    using r neg rin by (subst fw_loop.simps) (simp add: Let_def f1_def)
  show ?thesis
  proof (cases first)
    case False
    have "unat (off + u64len inp) = unat off + length inp"
      using bound by (intro unat_add_u64len) simp
    with False step inv1 view1 show ?thesis
      by (simp add: fw_result_def fw_view_def fw_inv_def f1_def)
  next
    case first: True
    show ?thesis
    proof (cases "b_len (r_buf r) = 0")
      case True
      with first step inv1 view1 show ?thesis
        by (simp add: fw_result_def fw_view_def fw_inv_def f1_def buf_view_def pending_def)
    next
      case False
      obtain f2 k2 err where
        w: "fw_write K f1 (take (unat (b_len (r_buf r))) (b_ptr (r_buf r))) (b_off (r_buf r)) k = (f2, k2, err)"
        by (metis prod_cases3)
      note fr = fw_write_frame [OF w]
      show ?thesis
      proof (cases err)
        case True
        with first step w False fr show ?thesis by (simp add: fw_result_def f1_def)
      next
        case ok: False
        have "fw_inv f2 \<and> (cont k2, unat (w_size f2)) = fw_view cont f1 k
              \<and> fw_view cont f2 k2 = fw_view cont f1 k"
          using fw_finish [of K f1 cont k f2 k2] law inv1 False w ok by (simp add: fd1 buf1)
        with first step w False ok fr view1 show ?thesis
          by (simp add: fw_result_def f1_def)
      qed
    qed
  qed
qed

lemma fw_loop_correct:
  assumes law: "writeat_law K (the (w_fd f)) cont" and inv: "fw_inv f"
    and bound: "unat off + length inp < 2 ^ 62"
  shows "\<exists>res. fw_loop K first f inp off k = Some res \<and> fw_result cont first f inp off k res"
  using assms
proof (induction K first f inp off k rule: fw_loop.induct)
  case (1 K first f inp off k)
  note inv = \<open>fw_inv f\<close> and bound = \<open>unat off + length inp < 2 ^ 62\<close>
    and law = \<open>writeat_law K (the (w_fd f)) cont\<close>
  have winv: "wbuf_inv (w_buf_cap f) (w_wbuf f)" using inv by (simp add: fw_inv_def)
  obtain r where r: "fbuf_write (w_wbuf f) (w_buf_cap f) inp off = Some r"
    and cases: "sint (r_off r) < 0 \<and> fbuf_absorbed (w_buf_cap f) (w_wbuf f) inp off r
       \<or> \<not> sint (r_off r) < 0 \<and> fbuf_flushed (w_buf_cap f) (w_wbuf f) inp off r"
    by (rule fbuf_write_correct [OF winv bound])
  show ?case
  proof (cases "sint (r_off r) < 0")
    case True
    with cases have "fbuf_absorbed (w_buf_cap f) (w_wbuf f) inp off r" by simp
    with True show ?thesis using fw_loop_absorbed [OF law inv bound r] by blast
  next
    case pos: False
    define f1 where "f1 = f\<lparr>w_wbuf := r_buf r,
       w_cached_writes := w_cached_writes f + (if length inp \<noteq> length (r_in r) then 1 else 0)\<rparr>"
    obtain f2 k2 err where w: "fw_write K f1 (r_out r) (r_off r) k = (f2, k2, err)"
      by (metis prod_cases3)
    define f3 where "f3 = f2\<lparr>w_wbuf := (w_wbuf f2)\<lparr>b_len := 0, b_off := 0\<rparr>\<rparr>"
    define off1 where "off1 = off + (u64len inp - u64len (r_in r))"
    note fr = fw_write_frame [OF w]
    have step: "fw_loop K first f inp off k =
       (if err then Some (f2, k2, PHI_ERR) else fw_loop K first f3 (r_in r) off1 k2)"
      using r pos w by (subst fw_loop.simps) (simp add: Let_def f1_def f3_def off1_def)
    show ?thesis
    proof (cases err)
      case True
      with step fr show ?thesis by (simp add: fw_result_def f1_def)
    next
      case ok: False
      obtain n where n: "n \<le> length inp" "r_in r = drop n inp" "wbuf_inv (w_buf_cap f) (r_buf r)"
          "unat (r_off r) < 2 ^ 62" "length (r_out r) < 2 ^ 62" and out: "r_out r \<noteq> []"
        and img: "\<And>F. apply_write (unat (r_off r)) (r_out r) F
               = apply_write (unat off) (take n inp) (buf_view (w_wbuf f) F)"
        using cases pos unfolding fbuf_flushed_def by blast
      have "unat (u64len inp - u64len (r_in r)) = n"
        using n(1,2) bound by (intro unat_u64len_diff) simp_all
      then have uoff1: "unat off1 = unat off + n"
        using n(1) bound by (simp add: off1_def unat_add_small)
      have f1_simps: "w_fd f1 = w_fd f" "w_size f1 = w_size f" "w_buf_cap f1 = w_buf_cap f"
        "w_fin f1 = w_fin f"
        by (simp_all add: f1_def)
      have "unat (w_size f1) < 2 ^ 63" using inv by (simp add: f1_simps fw_inv_def)
      from fw_write_ok [of K f1 cont, OF _ _ out n(4,5) this] law w ok
      have c2: "(cont k2, unat (w_size f2)) = apply_write (unat (r_off r)) (r_out r) (cont k, unat (w_size f))"
        and s2: "unat (w_size f2) < 2 ^ 63"
        by (auto simp: f1_simps)
      have inv3: "fw_inv f3"
        using n(3) s2 fr by (simp add: fw_inv_def f3_def f1_def wbuf_inv_def)
      have view3: "fw_view cont f3 k2 = apply_write (unat off) (take n inp) (fw_view cont f k)"
        using c2 img [of "(cont k, unat (w_size f))"]
        by (simp add: fw_view_def f3_def buf_view_def pending_def)
      have "\<exists>res. fw_loop K first f3 (r_in r) off1 k2 = Some res
                 \<and> fw_result cont first f3 (r_in r) off1 k2 res"
        unfolding f3_def
        by (rule "1.IH" [OF r off1_def f1_def pos w [symmetric] refl])
          (use ok law inv3 fr f1_simps uoff1 n(1,2) bound in \<open>simp_all add: f3_def\<close>)
      then obtain res where res: "fw_loop K first f3 (r_in r) off1 k2 = Some res"
        and fin: "fw_result cont first f3 (r_in r) off1 k2 res" by blast
      have "fw_result cont first f inp off k res"
        using fin view3 n(1,2) uoff1 fr
          apply_write_append [of "unat off" "take n inp" "drop n inp" "fw_view cont f k"]
        by (auto simp: fw_result_def f3_def f1_simps split: prod.splits)
      with res step ok show ?thesis by auto
    qed
  qed
qed

section \<open>Sequences of calls\<close>

text \<open>
  The conveyor calls the writer once per chunk; a chunk comes with the offset the previous
  filter asked for (\<open>output.seek\<close>, all ones when it did not). The call with the last chunk has
  the flag \<open>PHI_FFIRST\<close>.
\<close>

type_synonym chunk = "u64 \<times> bytes"

definition with_chunk :: "phi_track \<Rightarrow> bool \<Rightarrow> chunk \<Rightarrow> phi_track" where
  "with_chunk t final c =
     t\<lparr>t_data_in := snd c, t_output := (t_output t)\<lparr>out_seek := fst c\<rparr>,
       t_chain_flags := (if final then PHI_FFIRST else 0)\<rparr>"

fun fw_run :: "'k kfs \<Rightarrow> file_w \<Rightarrow> phi_track \<Rightarrow> 'k \<Rightarrow> chunk list \<Rightarrow> (file_w \<times> 'k \<times> phi_r) option" where
  "fw_run K f t k [] = Some (f, k, PHI_MORE)"
| "fw_run K f t k (c # cs) =
     (case fw_process K f (with_chunk t (cs = []) c) k of
        None \<Rightarrow> None
      | Some (f1, t1, k1, r) \<Rightarrow>
          if r = PHI_MORE then fw_run K f1 t1 k1 cs else Some (f1, k1, r))"

text \<open>The specification: every chunk is written where it belongs, at once.\<close>

definition chunk_off :: "nat \<Rightarrow> chunk \<Rightarrow> nat" where
  "chunk_off off c = (if fst c \<noteq> -1 then unat (fst c) else off)"

fun direct_writes :: "nat \<Rightarrow> chunk list \<Rightarrow> fimg \<Rightarrow> fimg" where
  "direct_writes off [] F = F"
| "direct_writes off (c # cs) F =
     direct_writes (chunk_off off c + length (snd c)) cs (apply_write (chunk_off off c) (snd c) F)"

text \<open>Offsets stay below \<open>2 ^ 62\<close>, far above any file size; above it the signed return
  value of \<open>fbuf_write\<close> would be taken for "no output".\<close>
fun chunks_ok :: "nat \<Rightarrow> chunk list \<Rightarrow> bool" where
  "chunks_ok off [] \<longleftrightarrow> True"
| "chunks_ok off (c # cs) \<longleftrightarrow>
     chunk_off off c + length (snd c) < 2 ^ 62 \<and> chunks_ok (chunk_off off c + length (snd c)) cs"

lemma with_chunk_sel:
  "has_flag (with_chunk t b c) PHI_FFIRST = b"
  "t_data_in (with_chunk t b c) = snd c"
  "out_seek (t_output (with_chunk t b c)) = fst c"
  by (simp_all add: has_flag_def with_chunk_def phi_f_defs)

lemma fw_process_chunk:
  assumes "writeat_law K (the (w_fd f)) cont" and "fw_inv f"
    and "chunk_off (unat (w_off_cur f)) c + length (snd c) < 2 ^ 62"
  obtains f' t' k' r off where "fw_process K f (with_chunk t l c) k = Some (f', t', k', r)"
    and "unat off = chunk_off (unat (w_off_cur f)) c"
    and "fw_result cont l f (snd c) off k (f', k', r)"
proof -
  define off where "off = (if fst c \<noteq> -1 then fst c else w_off_cur f)"
  have off: "unat off = chunk_off (unat (w_off_cur f)) c"
    by (simp add: off_def chunk_off_def)
  obtain f' k' r where
      loop: "fw_loop K l f (snd c) off k = Some (f', k', r)"
      and res: "fw_result cont l f (snd c) off k (f', k', r)"
    using fw_loop_correct [OF assms(1,2), of off "snd c" l k] assms(3)
    unfolding off by auto
  have "fw_process K f (with_chunk t l c) k
      = Some (f', (with_chunk t l c)\<lparr>t_output := (t_output (with_chunk t l c))\<lparr>out_seek := -1\<rparr>\<rparr>, k', r)"
    using loop by (simp add: fw_process_def Let_def with_chunk_sel off_def split: if_splits)
  from that [OF this off res] show thesis .
qed


text \<open>A writer with a 4-byte buffer, three chunks (the last one seeks back to offset 1).\<close>

definition fw_example :: file_w where
  "fw_example =
     \<lparr>w_fd = Some 1, w_off_cur = 0, w_size = 0,
      w_wbuf = \<lparr>b_len = 0, b_ptr = [0, 0, 0, 0], b_off = 0\<rparr>, w_buf_cap = 4,
      w_name = ''out'', w_filename_tmp = None, w_fin = False, w_writes = 0, w_cached_writes = 0\<rparr>"

lemma fw_example_inv: "fw_inv fw_example"
  by (simp add: fw_inv_def fw_example_def wbuf_inv_def)


section \<open>Closing an unfinished file\<close>



end
