(* ===== verification/File_Read.thy ===== *)
theory File_Read
  imports Sys_File Fcache
begin

text \<open>
  \<open>src/src/core/file-read.h\<close>: the filter that reads the input file through the read cache of
  \<open>Fcache\<close>. The main results: every chunk it outputs is the file's bytes at the requested
  offset, and reading without seeks delivers the whole file and then finishes.

  \<open>al\<close> stands for \<open>ffint_align_floor2 (_, ALIGN)\<close> of ffbase. Left out: the timing statistics.
\<close>

record file_r =
  fr_fd :: "nat option"
  fr_off_cur :: u64
  fr_buf_cap :: u64
  fr_fcache :: fcache
  fr_eof :: bool
  fr_io_bytes :: u64

section \<open>Operations\<close>

text \<open>\<open>fr_close\<close>: the cache and the object are freed, the descriptor is closed.\<close>
definition fr_close :: "'k kfs \<Rightarrow> file_r \<Rightarrow> 'k \<Rightarrow> 'k" where
  "fr_close K f k = (case fr_fd f of None \<Rightarrow> k | Some fd \<Rightarrow> snd (k_close K fd k))"

text \<open>\<open>fr_open\<close>; \<open>alloc\<close> and \<open>mem\<close> are the allocator's answers (see \<open>fcache_init\<close>). The result is
  the filter object (\<open>None\<close>: \<open>PHI_OPEN_ERR\<close>), the track and the kernel.\<close>
definition fr_open ::
    "'k kfs \<Rightarrow> (nat \<Rightarrow> bool) \<Rightarrow> (nat \<Rightarrow> bytes) \<Rightarrow> phi_track \<Rightarrow> 'k \<Rightarrow> file_r option \<times> phi_track \<times> 'k" where
  "fr_open K alloc mem t k =
     (let ifile = c_ifile (t_conf t);
          name = (case if_name ifile of None \<Rightarrow> [] | Some n \<Rightarrow> n);
          cap = (if if_buf_size ifile \<noteq> 0 then ucast (if_buf_size ifile) else 65536 :: u64)
      in case fcache_init alloc mem 2 (unat cap) of
           None \<Rightarrow> (None, t, k)
         | Some fc \<Rightarrow>
             (case k_open K name FFFILE_READONLY k of
                (None, k1) \<Rightarrow>
                  (None, t\<lparr>t_error := (if k_err_notexist K (k_errno K k1) then PHI_E_NOSRC
                                        else PHI_E_SYS OR k_errno K k1)\<rparr>, k1)
              | (Some fd, k1) \<Rightarrow>
                  (let f = \<lparr>fr_fd = Some fd, fr_off_cur = 0, fr_buf_cap = cap, fr_fcache = fc,
                            fr_eof = False, fr_io_bytes = 0\<rparr>
                   in case k_info K fd k1 of
                        None \<Rightarrow> (None, t, fr_close K f k1)
                      | Some (sz, mtime) \<Rightarrow>
                          (let mt = (fst mtime + k_1970_seconds K, snd mtime);
                               t1 = t\<lparr>t_input := (t_input t)\<lparr>in_size := sz, in_mtime := mt\<rparr>\<rparr>;
                               t2 = (if if_preserve_date ifile
                                     then t1\<lparr>t_conf := (t_conf t1)\<lparr>c_ofile :=
                                            (c_ofile (t_conf t1))\<lparr>of_mtime := mt\<rparr>\<rparr>\<rparr>
                                     else t1)
                           in (Some f, t2, k1)))))"

text \<open>Filling the buffer at position \<open>i\<close>: \<open>None\<close> is a store outside the buffer, \<open>Some None\<close> a
  read error.\<close>
definition fr_fill ::
    "'k kfs \<Rightarrow> (u64 \<Rightarrow> u64) \<Rightarrow> file_r \<Rightarrow> fcache \<Rightarrow> nat \<Rightarrow> u64 \<Rightarrow> 'k \<Rightarrow> fcache option option" where
  "fr_fill K al f c i off k =
     (case k_readat K (the (fr_fd f)) (fr_buf_cap f) (al off) k of
        None \<Rightarrow> Some None
      | Some d \<Rightarrow>
          (case mem_copy (b_ptr (bufs c ! i)) 0 d of
             None \<Rightarrow> None
           | Some p \<Rightarrow>
               Some (Some (c\<lparr>bufs := (bufs c)[i := \<lparr>b_len = u64len d, b_ptr = p, b_off = al off\<rparr>]\<rparr>))))"

text \<open>The tail of \<open>fr_process\<close> (label \<open>done\<close>): output what the buffer holds from \<open>off\<close> on.\<close>
definition fr_done :: "file_r \<Rightarrow> phi_track \<Rightarrow> fcache_buf \<Rightarrow> u64 \<Rightarrow> file_r \<times> phi_track \<times> phi_r" where
  "fr_done f t b off =
     (let d = take (unat (b_len b)) (b_ptr b);
          out = drop (min (length d) (unat (off - b_off b))) d;
          f1 = f\<lparr>fr_off_cur := b_off b + b_len b\<rparr>;
          t1 = t\<lparr>t_data_out := out\<rparr>
      in if fr_eof f \<and> out = [] then (f1, t1, PHI_DONE)
         else (f1\<lparr>fr_eof := (out = [])\<rparr>, t1, PHI_DATA))"

definition fr_process ::
    "'k kfs \<Rightarrow> (u64 \<Rightarrow> u64) \<Rightarrow> file_r \<Rightarrow> phi_track \<Rightarrow> 'k \<Rightarrow> (file_r \<times> phi_track \<times> phi_r) option" where
  "fr_process K al f t k =
     (let seek = in_seek (t_input t);
          off = (if seek \<noteq> -1 then seek else fr_off_cur f);
          f0 = f\<lparr>fr_off_cur := off\<rparr>;
          t0 = t\<lparr>t_input := (t_input t)\<lparr>in_seek := -1\<rparr>\<rparr>
      in case fcache_find (fr_fcache f0) off of
           (c1, Some i) \<Rightarrow> Some (fr_done (f0\<lparr>fr_fcache := c1\<rparr>) t0 (bufs c1 ! i) off)
         | (c1, None) \<Rightarrow>
             (case fcache_nextbuf c1 of (c2, i) \<Rightarrow>
                (case fr_fill K al f0 c2 i off k of
                   None \<Rightarrow> None
                 | Some None \<Rightarrow> Some (f0\<lparr>fr_fcache := c2\<rparr>, t0, PHI_ERR)
                 | Some (Some c3) \<Rightarrow>
                     (let f1 = f0\<lparr>fr_fcache := c3,
                                  fr_io_bytes := fr_io_bytes f +
                                    (if k_debug K then b_len (bufs c3 ! i) else 0)\<rparr>
                      in Some (fr_done f1 t0 (bufs c3 ! i) off)))))"

section \<open>Every chunk is a slice of the file\<close>

text \<open>What the code relies on of \<open>ffint_align_floor2\<close>: it rounds down by less than the alignment.\<close>
definition align_law :: "(u64 \<Rightarrow> u64) \<Rightarrow> bool" where
  "align_law al \<longleftrightarrow> (\<forall>x. al x \<le> x \<and> unat x < unat (al x) + 4096)"

definition fr_inv :: "bytes \<Rightarrow> file_r \<Rightarrow> bool" where
  "fr_inv file f \<longleftrightarrow>
     fcache_inv file (unat (fr_buf_cap f)) (fr_fcache f)
     \<and> unat (fr_buf_cap f) < 2 ^ 62 \<and> length file < 2 ^ 62"

lemma buf_matches_out:
  assumes "buf_matches file b" and "unat (b_off b) \<le> unat off"
  shows "drop (min (length (take (unat (b_len b)) (b_ptr b))) (unat off - unat (b_off b)))
           (take (unat (b_len b)) (b_ptr b))
       = take (unat (b_off b) + unat (b_len b) - unat off) (drop (unat off) file)"
proof (cases "b_len b = 0")
  case True
  with assms(2) show ?thesis by simp
next
  case False
  let ?d = "take (unat (b_len b)) (b_ptr b)" and ?o = "unat off - unat (b_off b)"
  have d: "?d = take (unat (b_len b)) (drop (unat (b_off b)) file)"
    using assms(1) False by (simp add: buf_matches_def)
  have "drop (min (length ?d) ?o) ?d = drop ?o ?d" by (simp add: min_def)
  also have "\<dots> = take (unat (b_len b) - ?o) (drop (unat off) file)"
    using assms(2) unfolding d by (simp add: drop_take)
  finally show ?thesis using assms(2) by (simp add: add.commute)
qed

lemma fr_done_out:
  "t_data_out (fst (snd (fr_done f t b off))) =
     drop (min (length (take (unat (b_len b)) (b_ptr b))) (unat (off - b_off b)))
       (take (unat (b_len b)) (b_ptr b))"
  by (simp add: fr_done_def Let_def)

text \<open>What the reader does with the buffer it picked.\<close>
lemma fr_done_slice:
  assumes m: "buf_matches file b" and le: "b_off b \<le> off"
    and bound: "unat (b_off b) < 2 ^ 62" "unat (b_len b) < 2 ^ 62"
    and res: "fr_done f t b off = (f', t', r)"
  shows "t_data_out t' = take (unat (b_off b) + unat (b_len b) - unat off) (drop (unat off) file)"
    and "unat (fr_off_cur f') = unat (b_off b) + unat (b_len b)"
    and "r = (if fr_eof f \<and> t_data_out t' = [] then PHI_DONE else PHI_DATA)"
    and "r = PHI_DATA \<longrightarrow> fr_eof f' = (t_data_out t' = [])"
    and "fr_fcache f' = fr_fcache f" "fr_fd f' = fr_fd f" "fr_buf_cap f' = fr_buf_cap f"
    and "t_input t' = t_input t"
proof -
  have "unat (off - b_off b) = unat off - unat (b_off b)" using le by (rule unat_diff_le)
  moreover have "unat (b_off b) \<le> unat off" using le by (simp add: word_le_nat_alt)
  ultimately have out: "t_data_out t' = take (unat (b_off b) + unat (b_len b) - unat off) (drop (unat off) file)"
    using fr_done_out [of f t b off] res buf_matches_out [OF m, of off] by simp
  then show "t_data_out t' = take (unat (b_off b) + unat (b_len b) - unat off) (drop (unat off) file)" .
  have "unat (b_off b + b_len b) = unat (b_off b) + unat (b_len b)"
    using bound by (intro unat_add_small) simp
  then show "unat (fr_off_cur f') = unat (b_off b) + unat (b_len b)"
    using res by (auto simp: fr_done_def Let_def split: if_splits)
  show "r = (if fr_eof f \<and> t_data_out t' = [] then PHI_DONE else PHI_DATA)"
    "r = PHI_DATA \<longrightarrow> fr_eof f' = (t_data_out t' = [])"
    "fr_fcache f' = fr_fcache f" "fr_fd f' = fr_fd f" "fr_buf_cap f' = fr_buf_cap f"
    "t_input t' = t_input t"
    using res by (auto simp: fr_done_def Let_def split: if_splits)
qed

lemma fr_fill_ok:
  assumes law: "readat_law K (the (fr_fd f)) k file" and al: "align_law al"
    and inv: "fcache_inv file (unat (fr_buf_cap f)) c" and cap: "unat (fr_buf_cap f) < 2 ^ 62"
    and flen: "length file < 2 ^ 62" and i: "i < length (bufs c)"
  shows "fr_fill K al f c i off k = Some None
    \<or> (\<exists>b. fr_fill K al f c i off k = Some (Some (c\<lparr>bufs := (bufs c)[i := b]\<rparr>))
          \<and> fcache_inv file (unat (fr_buf_cap f)) (c\<lparr>bufs := (bufs c)[i := b]\<rparr>)
          \<and> buf_matches file b \<and> b_off b = al off
          \<and> unat (b_len b) = min (unat (fr_buf_cap f)) (length file - unat (al off)))"
proof (cases "k_readat K (the (fr_fd f)) (fr_buf_cap f) (al off) k")
  case None
  then show ?thesis by (simp add: fr_fill_def)
next
  case (Some d)
  have d: "d = take (unat (fr_buf_cap f)) (drop (unat (al off)) file)"
    using law Some unfolding readat_law_def by blast
  have len: "length d = min (unat (fr_buf_cap f)) (length file - unat (al off))"
    by (simp add: d)
  have ul: "unat (u64len d) = length d" using cap len by (intro unat_u64len) simp
  have ptr: "length (b_ptr (bufs c ! i)) = unat (fr_buf_cap f)"
    using inv i by (simp add: fcache_inv_def)
  define b where "b = \<lparr>b_len = u64len d, b_ptr = d @ drop (length d) (b_ptr (bufs c ! i)), b_off = al off\<rparr>"
  have fill: "fr_fill K al f c i off k = Some (Some (c\<lparr>bufs := (bufs c)[i := b]\<rparr>))"
    using Some ptr len by (simp add: fr_fill_def mem_copy_def b_def)
  have m: "buf_matches file b"
  proof -
    have "u64len d \<noteq> 0 \<longrightarrow> unat (al off) + length d \<le> length file"
      using len by (cases "unat (al off) < length file") auto
    moreover have "take (length d) (drop (unat (al off)) file) = d" by (simp add: d min_def)
    ultimately show ?thesis unfolding buf_matches_def b_def by (simp add: ul)
  qed
  have "length (b_ptr b) = unat (fr_buf_cap f)" using ptr len by (simp add: b_def)
  with inv m i have "fcache_inv file (unat (fr_buf_cap f)) (c\<lparr>bufs := (bufs c)[i := b]\<rparr>)"
    by (auto simp: fcache_inv_def dest!: set_update_subset_insert [THEN subsetD])
  with fill m len ul show ?thesis by (auto simp: b_def)
qed

text \<open>One call of the reader at offset \<open>off\<close>.\<close>
definition fr_step :: "bytes \<Rightarrow> file_r \<Rightarrow> u64 \<Rightarrow> file_r \<times> phi_track \<times> phi_r \<Rightarrow> bool" where
  "fr_step file f off res \<longleftrightarrow>
     (case res of (f', t', r) \<Rightarrow>
        fr_inv file f' \<and> fr_fd f' = fr_fd f \<and> fr_buf_cap f' = fr_buf_cap f
        \<and> in_seek (t_input t') = -1
        \<and> (r = PHI_ERR
           \<or> r = (if fr_eof f \<and> t_data_out t' = [] then PHI_DONE else PHI_DATA)
             \<and> (r = PHI_DATA \<longrightarrow> fr_eof f' = (t_data_out t' = []))
             \<and> (\<exists>n. t_data_out t' = take n (drop (unat off) file))
             \<and> (unat off < length file \<longrightarrow> t_data_out t' \<noteq> [])
             \<and> (unat off \<le> length file \<longrightarrow>
                  unat (fr_off_cur f') = unat off + length (t_data_out t'))))"

lemma slice_step:
  fixes p B L :: nat
  assumes "B \<le> p" and "p < B + L \<or> B + L = length file \<or> length file < p"
    and "B + L \<le> length file \<or> L = 0"
  shows "p < length file \<longrightarrow> take (B + L - p) (drop p file) \<noteq> []"
    and "p \<le> length file \<longrightarrow> B + L = p + length (take (B + L - p) (drop p file))"
  using assms by auto

lemma fr_done_step:
  assumes inv: "fr_inv file f" and m: "buf_matches file b" and le: "b_off b \<le> off"
    and bound: "unat (b_off b) < 2 ^ 62"
    and reach: "unat off < unat (b_off b) + unat (b_len b)
       \<or> unat (b_off b) + unat (b_len b) = length file \<or> length file < unat off"
    and seek: "in_seek (t_input t) = -1"
  shows "fr_step file f off (fr_done f t b off)"
proof -
  obtain f' t' r where res: "fr_done f t b off = (f', t', r)" by (metis prod_cases3)
  have end_le: "unat (b_off b) + unat (b_len b) \<le> length file \<or> unat (b_len b) = 0"
    using m by (auto simp: buf_matches_def)
  then have bl: "unat (b_len b) < 2 ^ 62" using inv by (auto simp: fr_inv_def)
  note d = fr_done_slice [OF m le bound bl res]
  note sl = slice_step [OF le [unfolded word_le_nat_alt] reach end_le]
  show ?thesis
    using inv seek d sl by (auto simp: fr_step_def res fr_inv_def)
qed

lemma fr_process_step:
  assumes law: "readat_law K (the (fr_fd f)) k file" and al: "align_law al"
    and inv: "fr_inv file f" and cap: "4096 \<le> unat (fr_buf_cap f)"
    and off: "off = (if in_seek (t_input t) \<noteq> -1 then in_seek (t_input t) else fr_off_cur f)"
    and bound: "unat off < 2 ^ 62"
  shows "\<exists>res. fr_process K al f t k = Some res \<and> fr_step file f off res"
proof -
  define f0 where "f0 = f\<lparr>fr_off_cur := off\<rparr>"
  define t0 where "t0 = t\<lparr>t_input := (t_input t)\<lparr>in_seek := -1\<rparr>\<rparr>"
  have eqs: "fr_fd f0 = fr_fd f" "fr_buf_cap f0 = fr_buf_cap f" "fr_eof f0 = fr_eof f"
    "fr_fcache f0 = fr_fcache f" "in_seek (t_input t0) = -1"
    by (simp_all add: f0_def t0_def)
  have step_f: "fr_step file g off res \<Longrightarrow> fr_step file f off res"
    if "fr_fd g = fr_fd f" "fr_buf_cap g = fr_buf_cap f" "fr_eof g = fr_eof f" for g res
    using that by (auto simp: fr_step_def)
  have cinv: "fcache_inv file (unat (fr_buf_cap f)) (fr_fcache f)"
    and fin: "length file < 2 ^ 62" "unat (fr_buf_cap f) < 2 ^ 62"
    using inv by (auto simp: fr_inv_def)
  obtain c1 found where find: "fcache_find (fr_fcache f) off = (c1, found)" by fastforce
  have c1inv: "fcache_inv file (unat (fr_buf_cap f)) c1" and c1bufs: "bufs c1 = bufs (fr_fcache f)"
    using fcache_find_inv [OF cinv, of off] fcache_find_bufs [of "fr_fcache f" off] find by auto
  show ?thesis
  proof (cases found)
    case (Some i)
    let ?b = "bufs c1 ! i"
    have hit: "buf_covers off ?b" "buf_matches file ?b"
      using fcache_find_hit [OF cinv, of off i] find Some c1bufs by auto
    then have ne: "b_len ?b \<noteq> 0" by (auto simp: buf_covers_def)
    then have end_le: "unat (b_off ?b) + unat (b_len ?b) \<le> length file"
      using hit(2) by (simp add: buf_matches_def)
    have cov: "unat (b_off ?b) \<le> unat off \<and> unat off < unat (b_off ?b) + unat (b_len ?b)"
      using buf_covers_unat [OF hit(1)] end_le fin by simp
    have "fr_step file (f0\<lparr>fr_fcache := c1\<rparr>) off (fr_done (f0\<lparr>fr_fcache := c1\<rparr>) t0 ?b off)"
      using c1inv fin cov end_le hit(2) eqs
      by (intro fr_done_step) (auto simp: fr_inv_def word_le_nat_alt)
    then have "fr_step file f off (fr_done (f0\<lparr>fr_fcache := c1\<rparr>) t0 ?b off)"
      by (rule step_f [rotated 3]) (simp_all add: eqs)
    moreover have "fr_process K al f t k = Some (fr_done (f0\<lparr>fr_fcache := c1\<rparr>) t0 ?b off)"
      using find Some by (simp add: fr_process_def Let_def off [symmetric] f0_def t0_def)
    ultimately show ?thesis by blast
  next
    case None
    obtain c2 i where nb: "fcache_nextbuf c1 = (c2, i)" by fastforce
    have c2: "fcache_inv file (unat (fr_buf_cap f0)) c2" "i < length (bufs c2)"
      using fcache_nextbuf_inv [OF c1inv] fcache_nextbuf_bufs [of c1] nb eqs by auto
    have proc: "fr_process K al f t k =
        (case fr_fill K al f0 c2 i off k of
           None \<Rightarrow> None
         | Some None \<Rightarrow> Some (f0\<lparr>fr_fcache := c2\<rparr>, t0, PHI_ERR)
         | Some (Some c3) \<Rightarrow>
             Some (fr_done (f0\<lparr>fr_fcache := c3, fr_io_bytes := fr_io_bytes f +
                (if k_debug K then b_len (bufs c3 ! i) else 0)\<rparr>) t0 (bufs c3 ! i) off))"
      using find None nb
      by (simp add: fr_process_def Let_def off [symmetric] f0_def t0_def cong: option.case_cong)
    have fill_law: "readat_law K (the (fr_fd f0)) k file" "unat (fr_buf_cap f0) < 2 ^ 62"
      using law fin eqs by auto
    from fr_fill_ok [OF fill_law(1) al c2(1) fill_law(2) fin(1) c2(2), of off]
    show ?thesis
    proof (elim disjE exE conjE)
      assume "fr_fill K al f0 c2 i off k = Some None"
      then show ?thesis using proc c2(1) fin eqs by (simp add: fr_step_def fr_inv_def)
    next
      fix b
      assume b: "fr_fill K al f0 c2 i off k = Some (Some (c2\<lparr>bufs := (bufs c2)[i := b]\<rparr>))"
        "fcache_inv file (unat (fr_buf_cap f0)) (c2\<lparr>bufs := (bufs c2)[i := b]\<rparr>)"
        "buf_matches file b" "b_off b = al off"
        and bl: "unat (b_len b) = min (unat (fr_buf_cap f0)) (length file - unat (al off))"
      define f1 where "f1 = f0\<lparr>fr_fcache := c2\<lparr>bufs := (bufs c2)[i := b]\<rparr>,
          fr_io_bytes := fr_io_bytes f + (if k_debug K then b_len b else 0)\<rparr>"
      have ale: "al off \<le> off" "unat off < unat (al off) + 4096"
        using al by (auto simp: align_law_def)
      have ale': "unat (al off) \<le> unat off" using ale(1) by (simp add: word_le_nat_alt)
      have "fr_step file f1 off (fr_done f1 t0 b off)"
      proof (rule fr_done_step)
        show "fr_inv file f1" using b(2) fin eqs by (simp add: fr_inv_def f1_def)
        show "unat (b_off b) < 2 ^ 62" using ale' bound b(4) by simp
        show "unat off < unat (b_off b) + unat (b_len b)
           \<or> unat (b_off b) + unat (b_len b) = length file \<or> length file < unat off"
          using ale' ale(2) bl cap eqs b(4) by (auto simp: min_def)
      qed (use b ale eqs in auto)
      then have "fr_step file f off (fr_done f1 t0 b off)"
        by (rule step_f [rotated 3]) (simp_all add: f1_def eqs)
      moreover have "fr_process K al f t k = Some (fr_done f1 t0 b off)"
        using proc b(1) c2(2) by (simp add: f1_def)
      ultimately show ?thesis by blast
    qed
  qed
qed

section \<open>Reading the whole file\<close>

text \<open>
  The conveyor calls the reader again and again until it is done; \<open>fr_read_all\<close> collects what
  it outputs. Fuel bounds the number of calls; \<open>fr_reads_whole_file\<close> shows how much is enough.
\<close>

fun fr_read_all ::
    "nat \<Rightarrow> 'k kfs \<Rightarrow> (u64 \<Rightarrow> u64) \<Rightarrow> file_r \<Rightarrow> phi_track \<Rightarrow> 'k \<Rightarrow> (bytes \<times> phi_r) option" where
  "fr_read_all 0 K al f t k = None"
| "fr_read_all (Suc n) K al f t k =
     (case fr_process K al f t k of
        None \<Rightarrow> None
      | Some (f1, t1, r) \<Rightarrow>
          if r = PHI_DATA
          then map_option (\<lambda>(d, r'). (t_data_out t1 @ d, r')) (fr_read_all n K al f1 t1 k)
          else Some ([], r))"

lemma take_drop_append:
  assumes "d = take n (drop p xs)" shows "d @ drop (p + length d) xs = drop p xs"
  using assms append_take_drop_id [of n "drop p xs"]
  by (cases "n \<le> length (drop p xs)") (auto simp: add.commute min_def)

lemma fr_read_all_from:
  assumes "readat_law K (the (fr_fd f)) k file" and "align_law al" and "fr_inv file f"
    and "4096 \<le> unat (fr_buf_cap f)"
    and "unat off \<le> length file"
    and "off = (if in_seek (t_input t) \<noteq> -1 then in_seek (t_input t) else fr_off_cur f)"
    and "length file - unat off + (if fr_eof f \<and> unat off = length file then 1 else 2) \<le> n"
  shows "\<exists>d r. fr_read_all n K al f t k = Some (d, r)
       \<and> (r = PHI_ERR \<or> r = PHI_DONE \<and> d = drop (unat off) file)"
  using assms
proof (induction n arbitrary: f t off)
  case 0
  then show ?case by (simp split: if_splits)
next
  case (Suc n)
  have "unat off < 2 ^ 62" using Suc.prems(3,5) by (simp add: fr_inv_def)
  from fr_process_step [OF Suc.prems(1-4,6) this] obtain f1 t1 r where
    p: "fr_process K al f t k = Some (f1, t1, r)" and st: "fr_step file f off (f1, t1, r)"
    by auto
  show ?case
  proof (cases "r = PHI_DATA")
    case False
    with st have "r = PHI_ERR \<or> r = PHI_DONE \<and> t_data_out t1 = [] \<and> length file \<le> unat off"
      by (auto simp: fr_step_def not_less split: if_splits)
    with p False Suc.prems(5) show ?thesis by auto
  next
    case True
    let ?d = "t_data_out t1"
    obtain m where d: "?d = take m (drop (unat off) file)"
      and ne: "unat off < length file \<longrightarrow> ?d \<noteq> []"
      and off1: "unat (fr_off_cur f1) = unat off + length ?d" and eof1: "fr_eof f1 = (?d = [])"
      and fr: "fr_inv file f1" "fr_fd f1 = fr_fd f" "fr_buf_cap f1 = fr_buf_cap f"
        "in_seek (t_input t1) = -1"
      and noteof: "\<not> (fr_eof f \<and> ?d = [])"
      using st True Suc.prems(5) by (auto simp: fr_step_def split: if_splits)
    have le: "unat (fr_off_cur f1) \<le> length file"
      using d off1 Suc.prems(5) by simp
    have "length file - unat (fr_off_cur f1) + (if fr_eof f1 \<and> unat (fr_off_cur f1) = length file then 1 else 2) \<le> n"
      using Suc.prems(7) off1 eof1 noteof le ne by (cases "?d") (auto split: if_splits)
    with Suc.prems(1,2,4) fr le
    have "\<exists>d r. fr_read_all n K al f1 t1 k = Some (d, r)
       \<and> (r = PHI_ERR \<or> r = PHI_DONE \<and> d = drop (unat (fr_off_cur f1)) file)"
      by (intro Suc.IH) auto
    with p True off1 take_drop_append [OF d] show ?thesis by auto
  qed
qed


text \<open>Rounding down to a multiple of 4096, as documented for \<open>ffint_align_floor2\<close>.\<close>
definition al4096 :: "u64 \<Rightarrow> u64" where
  "al4096 x = x - x mod 4096"

lemma unat_al4096: "unat (al4096 x) = unat x - unat x mod 4096"
  by (simp add: al4096_def unat_diff_le word_le_nat_alt unat_mod)

lemma al4096_law: "align_law al4096"
  by (auto simp: align_law_def word_le_nat_alt unat_al4096)

definition fr_example :: file_r where
  "fr_example =
     \<lparr>fr_fd = Some 1, fr_off_cur = 1, fr_buf_cap = 4096,
      fr_fcache = \<lparr>bufs = replicate 2 \<lparr>b_len = 0, b_ptr = replicate 4096 0, b_off = -1\<rparr>,
                   idx = 0, hits = 0, misses = 0\<rparr>,
      fr_eof = False, fr_io_bytes = 0\<rparr>"

lemma fr_example_inv: "fr_inv [1, 2, 3] fr_example"
  by (simp add: fr_inv_def fr_example_def fcache_inv_def buf_matches_def)


section \<open>A buffer below the alignment\<close>

text \<open>
  The state of a reader whose buffer is smaller than the alignment and that stands at the end
  of its first buffer: nothing cached covers the offset, and reading from the aligned offset
  only brings back bytes before it.
\<close>

definition fr_stuck :: "u64 \<Rightarrow> file_r \<Rightarrow> bool" where
  "fr_stuck cap f \<longleftrightarrow>
     fr_buf_cap f = cap \<and> bufs (fr_fcache f) \<noteq> [] \<and> length (bufs (fr_fcache f)) < 2 ^ 32
     \<and> unat (idx (fr_fcache f)) < length (bufs (fr_fcache f))
     \<and> (\<forall>b \<in> set (bufs (fr_fcache f)).
          length (b_ptr b) = unat cap \<and> (b_len b = 0 \<or> b_off b = 0 \<and> b_len b = cap))"

lemma fr_stuck_simps [simp]:
  "fr_stuck cap (f\<lparr>fr_off_cur := x\<rparr>) = fr_stuck cap f"
  "fr_stuck cap (f\<lparr>fr_eof := e\<rparr>) = fr_stuck cap f"
  by (simp_all add: fr_stuck_def)

lemma fr_stuck_process:
  assumes st: "fr_stuck cap f" and rd: "k_readat K (the (fr_fd f)) cap 0 k = Some d"
    and len: "length d = unat cap" and al: "al off = 0"
    and off: "off = (if in_seek (t_input t) \<noteq> -1 then in_seek (t_input t) else fr_off_cur f)"
    and miss: "off = cap \<or> (\<forall>b \<in> set (bufs (fr_fcache f)). b_len b = 0)"
  obtains f' t' r where "fr_process K al f t k = Some (f', t', r)"
    and "fr_stuck cap f'" "fr_off_cur f' = cap" "fr_fd f' = fr_fd f" "in_seek (t_input t') = -1"
    and "t_data_out t' = drop (unat off) d"
    and "r = (if fr_eof f \<and> t_data_out t' = [] then PHI_DONE else PHI_DATA)"
    and "r = PHI_DATA \<longrightarrow> fr_eof f' = (t_data_out t' = [])"
proof -
  let ?c = "fr_fcache f"
  have ucap: "u64len d = cap" using len by simp
  have "\<forall>b \<in> set (bufs ?c). \<not> buf_covers off b"
    using st miss by (auto simp: fr_stuck_def buf_covers_def)
  then have find: "fcache_find ?c off = (?c\<lparr>misses := misses ?c + 1\<rparr>, None)"
    by (simp add: fcache_find_def find_buf_None [THEN iffD2])
  define i where "i = unat (idx ?c)"
  define c2 where "c2 = fst (fcache_nextbuf (?c\<lparr>misses := misses ?c + 1\<rparr>))"
  have nb: "fcache_nextbuf (?c\<lparr>misses := misses ?c + 1\<rparr>) = (c2, i)"
    by (simp add: c2_def i_def fcache_nextbuf_def)
  have i: "i < length (bufs ?c)" using st by (simp add: fr_stuck_def i_def)
  have c2: "bufs c2 = bufs ?c" "unat (idx c2) < length (bufs ?c)"
  proof -
    have "(unat (idx ?c) + 1) mod length (bufs ?c) < length (bufs ?c)" "length (bufs ?c) < 2 ^ 32"
      using st by (simp_all add: fr_stuck_def)
    then show "bufs c2 = bufs ?c" "unat (idx c2) < length (bufs ?c)"
      by (simp_all add: c2_def fcache_nextbuf_def unat_of_nat take_bit_nat_eq_self)
  qed
  define b where "b = \<lparr>b_len = cap, b_ptr = d, b_off = 0 :: u64\<rparr>"
  define c3 where "c3 = c2\<lparr>bufs := (bufs c2)[i := b]\<rparr>"
  define f0 where "f0 = f\<lparr>fr_off_cur := off\<rparr>"
  define t0 where "t0 = t\<lparr>t_input := (t_input t)\<lparr>in_seek := -1\<rparr>\<rparr>"
  have pl: "length (b_ptr (bufs ?c ! i)) = unat cap" using st i by (simp add: fr_stuck_def)
  have fill: "fr_fill K al f0 c2 i off k = Some (Some c3)"
    using rd al st pl len ucap
    by (simp add: fr_fill_def f0_def fr_stuck_def c2 mem_copy_def c3_def b_def)
  define f1 where "f1 = f0\<lparr>fr_fcache := c3, fr_io_bytes := fr_io_bytes f +
                                    (if k_debug K then cap else 0)\<rparr>"
  have bl: "b_len b = cap" by (simp add: b_def)
  have ci: "bufs c3 ! i = b" using i c2 by (simp add: c3_def)
  have proc: "fr_process K al f t k = Some (fr_done f1 t0 b off)"
    using find nb fill ci bl
    by (simp add: fr_process_def Let_def off [symmetric] f0_def t0_def f1_def)
  have stuck1: "fr_stuck cap f1"
    using st c2 i len
    by (auto simp: fr_stuck_def f1_def f0_def c3_def b_def dest!: set_update_subset_insert [THEN subsetD])
  have dn: "fr_done f1 t0 b off =
     (if fr_eof f \<and> drop (unat off) d = []
      then (f1\<lparr>fr_off_cur := cap\<rparr>, t0\<lparr>t_data_out := drop (unat off) d\<rparr>, PHI_DONE)
      else (f1\<lparr>fr_off_cur := cap, fr_eof := (drop (unat off) d = [])\<rparr>,
            t0\<lparr>t_data_out := drop (unat off) d\<rparr>, PHI_DATA))"
    using len by (simp add: fr_done_def b_def Let_def f1_def f0_def min_def)
  show thesis
  proof (cases "fr_eof f \<and> drop (unat off) d = []")
    case True
    with proc dn have "fr_process K al f t k =
        Some (f1\<lparr>fr_off_cur := cap\<rparr>, t0\<lparr>t_data_out := drop (unat off) d\<rparr>, PHI_DONE)" by simp
    moreover have "fr_stuck cap (f1\<lparr>fr_off_cur := cap\<rparr>)" using stuck1 by simp
    ultimately show thesis using that True by (simp add: f1_def f0_def t0_def)
  next
    case False
    with proc dn have "fr_process K al f t k =
        Some (f1\<lparr>fr_off_cur := cap, fr_eof := (drop (unat off) d = [])\<rparr>,
              t0\<lparr>t_data_out := drop (unat off) d\<rparr>, PHI_DATA)" by auto
    moreover have "fr_stuck cap (f1\<lparr>fr_off_cur := cap, fr_eof := (drop (unat off) d = [])\<rparr>)"
      using stuck1 by simp
    ultimately show thesis using that False by (auto simp: f1_def f0_def t0_def)
  qed
qed

text \<open>
  A read buffer smaller than the alignment cuts the input short. When the
  configured buffer (\<open>-rbuffer\<close> below 4 kB) is smaller than 4096 bytes and the file is longer
  than the buffer, the reader outputs the first buffer of the file and then reports the end of
  the file.
\<close>

theorem fr_small_buffer_truncates:
  assumes "fr_stuck cap f" and "\<forall>b \<in> set (bufs (fr_fcache f)). b_len b = 0"
    and "k_readat K (the (fr_fd f)) cap 0 k = Some (take (unat cap) file)"
    and "0 < unat cap" and "unat cap < length file"
    and "al 0 = 0" and "al cap = 0"
    and "fr_off_cur f = 0" and "in_seek (t_input t) = -1" and "\<not> fr_eof f"
  shows "fr_read_all 3 K al f t k = Some (take (unat cap) file, PHI_DONE)"
proof -
  let ?d = "take (unat cap) file"
  have len: "length ?d = unat cap" and ne: "?d \<noteq> []" using assms(4,5) by auto
  obtain f1 t1 where 1: "fr_process K al f t k = Some (f1, t1, PHI_DATA)"
    "fr_stuck cap f1" "fr_off_cur f1 = cap" "fr_fd f1 = fr_fd f" "in_seek (t_input t1) = -1"
    "t_data_out t1 = ?d" "\<not> fr_eof f1"
    by (rule fr_stuck_process [where off = 0 and al = al and t = t, OF assms(1,3) len]) (use assms ne in auto)
  obtain f2 t2 where 2: "fr_process K al f1 t1 k = Some (f2, t2, PHI_DATA)"
    "fr_stuck cap f2" "fr_off_cur f2 = cap" "fr_fd f2 = fr_fd f1" "in_seek (t_input t2) = -1"
    "t_data_out t2 = []" "fr_eof f2"
    by (rule fr_stuck_process [where off = cap and al = al and t = t1 and K = K and k = k, OF 1(2) _ len]) (use assms 1 len in auto)
  obtain f3 t3 where 3: "fr_process K al f2 t2 k = Some (f3, t3, PHI_DONE)"
    by (rule fr_stuck_process [where off = cap and al = al and t = t2 and K = K and k = k, OF 2(2) _ len]) (use assms 1 2 len in auto)
  show ?thesis using 1 2 3 by (simp add: numeral_3_eq_3)
qed

theorem fr_small_buffer_truncates_witness:
  "fr_stuck 2 (fr_example\<lparr>fr_off_cur := 0, fr_buf_cap := 2,
      fr_fcache := \<lparr>bufs = [\<lparr>b_len = 0, b_ptr = [0, 0], b_off = -1\<rparr>], idx = 0, hits = 0, misses = 0\<rparr>\<rparr>)
   \<and> fr_read_all 3 (mem_kfs [1, 2, 3]) al4096
        (fr_example\<lparr>fr_off_cur := 0, fr_buf_cap := 2,
           fr_fcache := \<lparr>bufs = [\<lparr>b_len = 0, b_ptr = [0, 0], b_off = -1\<rparr>], idx = 0, hits = 0, misses = 0\<rparr>\<rparr>)
        (phi_track_zero\<lparr>t_input := (t_input phi_track_zero)\<lparr>in_seek := -1\<rparr>\<rparr>) (\<lambda>_. 0)
      = Some (take (unat (2 :: u64)) [1, 2, 3], PHI_DONE)"
proof -
  let ?f = "fr_example\<lparr>fr_off_cur := 0, fr_buf_cap := 2,
      fr_fcache := \<lparr>bufs = [\<lparr>b_len = 0, b_ptr = [0, 0], b_off = -1\<rparr>], idx = 0, hits = 0, misses = 0\<rparr>\<rparr>"
  have st: "fr_stuck 2 ?f" by (simp add: fr_stuck_def)
  have "al4096 0 = 0" "al4096 2 = 0" by (simp_all add: al4096_def)
  then show ?thesis
    using st by (intro conjI fr_small_buffer_truncates) (simp_all add: fr_example_def mem_kfs_def)
qed

end
