(* ===== verification/Util.thy ===== *)
theory Util
  imports Track_Types
begin

text \<open>
  \<open>src/util/util.h\<close>: the shared helpers. Scanning a text for variables, the binary search over
  fixed-size keys with the name tables built on it, splitting and cleaning of file names, and
  conversion between samples and time.

  Strings are lists of characters. The string functions of the base library are the record
  \<open>ffbase\<close>; what the code relies on is \<open>ffbase_law\<close>. \<open>memcmp\<close> is part of the language library.
\<close>

section \<open>String functions of the base library\<close>

record ffbase =
  fs_findchar :: "string \<Rightarrow> char \<Rightarrow> nat option"            \<comment> \<open>\<open>ffstr_findchar\<close>\<close>
  fs_skip_word :: "string \<Rightarrow> nat option"                  \<comment> \<open>\<open>ffs_skip_ranges\<close> with \<open>0-9A-Z_a-z\<close>\<close>
  fs_skipchar :: "string \<Rightarrow> char \<Rightarrow> string"                \<comment> \<open>\<open>ffstr_skipchar\<close>\<close>
  fs_rskipchar :: "string \<Rightarrow> char \<Rightarrow> string"               \<comment> \<open>\<open>ffstr_rskipchar\<close>\<close>
  fs_rsplitby :: "string \<Rightarrow> char \<Rightarrow> string \<times> string"       \<comment> \<open>\<open>ffstr_rsplitby\<close>\<close>
  fs_splitpath :: "string \<Rightarrow> string \<times> string"            \<comment> \<open>\<open>ffpath_splitpath_str\<close>\<close>
  fs_splitname :: "string \<Rightarrow> string \<times> string"            \<comment> \<open>\<open>ffpath_splitname_str\<close>\<close>

text \<open>The position of the first element with a property.\<close>
fun first_pos :: "('a \<Rightarrow> bool) \<Rightarrow> 'a list \<Rightarrow> nat option" where
  "first_pos P [] = None"
| "first_pos P (x # xs) = (if P x then Some 0 else map_option Suc (first_pos P xs))"

definition word_char :: "char \<Rightarrow> bool" where
  "word_char c \<longleftrightarrow> (let n = of_char c :: nat in 0x30 \<le> n \<and> n \<le> 0x39 \<or> 0x41 \<le> n \<and> n \<le> 0x5a \<or> n = 0x5f \<or> 0x61 \<le> n \<and> n \<le> 0x7a)"

definition ffbase_law :: "ffbase \<Rightarrow> bool" where
  "ffbase_law B \<longleftrightarrow>
     (\<forall>s c. fs_findchar B s c = first_pos (\<lambda>x. x = c) s)
     \<and> (\<forall>s. fs_skip_word B s = first_pos (\<lambda>x. \<not> word_char x) s)
     \<and> (\<forall>s c. fs_skipchar B s c = dropWhile (\<lambda>x. x = c) s)
     \<and> (\<forall>s c. fs_rskipchar B s c = rev (dropWhile (\<lambda>x. x = c) (rev s)))"

section \<open>Variables in a text\<close>

datatype var_kind = VarText | VarName

text \<open>\<open>ffstr_var_next\<close>: the kind, the piece and the rest; \<open>None\<close>: a read past an empty input.\<close>
definition ffstr_var_next :: "ffbase \<Rightarrow> string \<Rightarrow> char \<Rightarrow> (var_kind \<times> string \<times> string) option" where
  "ffstr_var_next B inp c =
     (case inp of
        [] \<Rightarrow> None
      | x # rest \<Rightarrow>
          if x \<noteq> c then
            (let pos = (case fs_findchar B inp c of None \<Rightarrow> length inp | Some p \<Rightarrow> p)
             in Some (VarText, take pos inp, drop pos inp))
          else
            (let i = (case fs_skip_word B rest of None \<Rightarrow> length rest | Some p \<Rightarrow> p)
             in Some (VarName, take (i + 1) inp, drop i rest)))"

section \<open>Search in a sorted table\<close>

fun memcmp :: "string \<Rightarrow> string \<Rightarrow> int" where
  "memcmp (a # as) (b # bs) =
     (if (of_char a :: nat) < of_char b then -1 else if (of_char b :: nat) < of_char a then 1 else memcmp as bs)"
| "memcmp _ _ = 0"

abbreviation NUL :: char where "NUL \<equiv> CHR 0x00"

text \<open>The comparison of one round: \<open>search\<close> against the key at \<open>ptr\<close>.\<close>
definition key_cmp :: "nat \<Rightarrow> string \<Rightarrow> string \<Rightarrow> int" where
  "key_cmp elsize search ptr =
     (let r = memcmp search (take (length search) ptr)
      in if r = 0 \<and> length search \<noteq> elsize \<and> ptr ! length search \<noteq> NUL then -1 else r)"

text \<open>The loop; \<open>start\<close> never passes \<open>n\<close>.\<close>
function findsorted_loop :: "string list \<Rightarrow> nat \<Rightarrow> string \<Rightarrow> nat \<Rightarrow> nat \<Rightarrow> nat option" where
  "findsorted_loop ar elsize search start n =
     (if n \<le> start then None
      else
        (let i = start + (n - start) div 2; r = key_cmp elsize search (ar ! i)
         in if r = 0 then Some i
            else if r < 0 then findsorted_loop ar elsize search start i
            else findsorted_loop ar elsize search (i + 1) n))"
  by auto
termination by (relation "measure (\<lambda>(ar, elsize, search, start, n). n - start)") auto

definition ffcharr_findsorted_padding :: "string list \<Rightarrow> nat \<Rightarrow> string \<Rightarrow> nat option" where
  "ffcharr_findsorted_padding ar elsize search =
     (if elsize < length search then None else findsorted_loop ar elsize search 0 (length ar))"

text \<open>\<open>struct map_sz_vptr\<close>: the 16 bytes of the key and the value.\<close>
type_synonym 'v map_sz_vptr = "string \<times> 'v"

definition key_pad :: "nat \<Rightarrow> string \<Rightarrow> string" where
  "key_pad n k = k @ replicate (n - length k) NUL"

definition key_str :: "string \<Rightarrow> string" where
  "key_str k = takeWhile (\<lambda>c. c \<noteq> NUL) k"

text \<open>The table ends at an empty key.\<close>
fun map_sz_vptr_find :: "'v map_sz_vptr list \<Rightarrow> string \<Rightarrow> 'v option" where
  "map_sz_vptr_find [] name = None"
| "map_sz_vptr_find ((k, v) # m) name =
     (if k ! 0 = NUL then None
      else if key_str k = name then Some v else map_sz_vptr_find m name)"

definition map_sz_vptr_findz2 :: "'v map_sz_vptr list \<Rightarrow> string \<Rightarrow> 'v option" where
  "map_sz_vptr_findz2 m name =
     map_option (\<lambda>i. snd (m ! i)) (ffcharr_findsorted_padding (map fst m) 16 name)"

definition map_sz_vptr_findstr :: "'v map_sz_vptr list \<Rightarrow> string \<Rightarrow> 'v option" where
  "map_sz_vptr_findstr m name =
     map_option (\<lambda>i. snd (m ! i)) (ffcharr_findsorted_padding (map fst m) 16 name)"

section \<open>File names\<close>

definition ffbit_test_array32 :: "u32 list \<Rightarrow> nat \<Rightarrow> bool" where
  "ffbit_test_array32 ar i \<longleftrightarrow> bit (ar ! (i div 32)) (i mod 32)"

text \<open>Path, name and extension.\<close>
definition ffpath_split3_str :: "ffbase \<Rightarrow> string \<Rightarrow> string \<times> string \<times> string" where
  "ffpath_split3_str B fullname = (let (path, nm) = fs_splitpath B fullname in (path, fs_splitname B nm))"

definition ffpath_split3_output :: "ffbase \<Rightarrow> string \<Rightarrow> string \<times> string \<times> string" where
  "ffpath_split3_output B fullname = (let (path, nm) = fs_splitpath B fullname in (path, fs_rsplitby B nm CHR ''.''))"

text \<open>What \<open>ffpath_makefn\<close> stores at \<open>dst\<close>; the result is its length.\<close>
definition ffpath_makefn :: "ffbase \<Rightarrow> nat \<Rightarrow> string \<Rightarrow> char \<Rightarrow> u32 list \<Rightarrow> string" where
  "ffpath_makefn B dstcap src replace_char char_bitmask =
     (let s = fs_rskipchar B (fs_skipchar B src CHR '' '') CHR '' ''
      in map (\<lambda>c. if \<not> ffbit_test_array32 char_bitmask (of_char c) then replace_char else c) (take dstcap s))"

section \<open>Samples and formats\<close>

definition samples_to_msec :: "u64 \<Rightarrow> u32 \<Rightarrow> u64" where
  "samples_to_msec samples rate = samples * 1000 div ucast rate"

definition msec_to_samples :: "u64 \<Rightarrow> u32 \<Rightarrow> u64" where
  "msec_to_samples time_ms rate = time_ms * ucast rate div 1000"

definition phi_af_update :: "phi_af \<Rightarrow> phi_af \<Rightarrow> phi_af" where
  "phi_af_update dst src =
     (let d1 = (if af_format src \<noteq> 0 then dst\<lparr>af_format := af_format src\<rparr> else dst);
          d2 = (if af_rate src \<noteq> 0 then d1\<lparr>af_rate := af_rate src\<rparr> else d1)
      in if af_channels src \<noteq> 0 then d2\<lparr>af_channels := af_channels src\<rparr> else d2)"

section \<open>The search agrees with a linear lookup\<close>

text \<open>The order of C strings.\<close>
fun str_less :: "string \<Rightarrow> string \<Rightarrow> bool" where
  "str_less _ [] \<longleftrightarrow> False"
| "str_less [] (b # bs) \<longleftrightarrow> True"
| "str_less (a # as) (b # bs) \<longleftrightarrow> (of_char a :: nat) < of_char b \<or> a = b \<and> str_less as bs"

lemma str_less_trans: "str_less a b \<Longrightarrow> str_less b c \<Longrightarrow> str_less a c"
proof (induction a c arbitrary: b rule: str_less.induct)
  case (2 c cs)
  then show ?case by (cases b) auto
next
  case (3 a as c cs)
  then show ?case by (cases b) auto
qed simp

lemma str_less_irrefl [simp]: "\<not> str_less a a"
  by (induction a) auto

lemma key_pad_Cons: "key_pad (Suc n) (k # ks) = k # key_pad n ks"
  by (simp add: key_pad_def)

lemma key_str_pad: "NUL \<notin> set k \<Longrightarrow> key_str (key_pad n k) = k"
  by (subst key_str_def, subst key_pad_def, subst takeWhile_append2) (auto simp: takeWhile_replicate)

text \<open>One round compares as C strings do.\<close>
lemma key_cmp_pad:
  assumes "NUL \<notin> set s" and "NUL \<notin> set k" and "length s \<le> n" and "length k \<le> n"
  shows "(key_cmp n s (key_pad n k) = 0 \<longleftrightarrow> s = k) \<and> (key_cmp n s (key_pad n k) < 0 \<longleftrightarrow> str_less s k)"
  using assms
proof (induction s arbitrary: k n)
  case Nil
  then show ?case by (cases k; cases n) (auto simp: key_cmp_def key_pad_def)
next
  case (Cons a s)
  then obtain m where n: "n = Suc m" by (cases n) auto
  show ?case
  proof (cases k)
    case Nil
    have "(0 :: nat) < of_char a"
    proof (rule ccontr)
      assume "\<not> (0 :: nat) < of_char a"
      then have "(of_char a :: nat) = of_char NUL" by simp
      then have "a = NUL" by (simp only: of_char_eq_iff)
      then show False using Cons.prems(1) by simp
    qed
    then show ?thesis using Nil n by (auto simp: key_cmp_def key_pad_def)
  next
    case k: (Cons b ks)
    have "of_char a = (of_char b :: nat) \<longleftrightarrow> a = b" by (rule of_char_eq_iff)
    moreover have "key_cmp n (a # s) (key_pad n k) = (if (of_char a :: nat) < of_char b then -1
        else if (of_char b :: nat) < of_char a then 1 else key_cmp m s (key_pad m ks))"
      using n k by (simp add: key_cmp_def key_pad_Cons Let_def)
    ultimately show ?thesis using Cons.IH [of ks m] Cons.prems n k by (auto simp: not_less)
  qed
qed

text \<open>Tables whose keys are sorted C strings.\<close>
definition keys_ok :: "nat \<Rightarrow> string list \<Rightarrow> bool" where
  "keys_ok n ks \<longleftrightarrow> sorted_wrt str_less ks \<and> (\<forall>k \<in> set ks. NUL \<notin> set k \<and> length k \<le> n)"

lemma keys_ok_less: "keys_ok n ks \<Longrightarrow> i < j \<Longrightarrow> j < length ks \<Longrightarrow> str_less (ks ! i) (ks ! j)"
  by (simp add: keys_ok_def sorted_wrt_nth_less)

lemma findsorted_loop_correct:
  assumes "keys_ok elsize ks" and "NUL \<notin> set s" and "length s \<le> elsize" and "ar = map (key_pad elsize) ks"
    and "n \<le> length ks"
    and "\<And>j. j < start \<Longrightarrow> j < length ks \<Longrightarrow> ks ! j \<noteq> s" and "\<And>j. n \<le> j \<Longrightarrow> j < length ks \<Longrightarrow> ks ! j \<noteq> s"
  shows "case findsorted_loop ar elsize s start n of
      None \<Rightarrow> s \<notin> set ks | Some i \<Rightarrow> i < length ks \<and> ks ! i = s"
  using assms
proof (induction ar elsize s start n rule: findsorted_loop.induct)
  case (1 ar elsize s start n)
  show ?case
  proof (cases "n \<le> start")
    case True
    then have "\<forall>j < length ks. ks ! j \<noteq> s" using "1.prems"(6,7) by (metis le_trans not_le)
    then show ?thesis using True by (auto simp: in_set_conv_nth)
  next
    case False
    define i where "i = start + (n - start) div 2"
    have i: "i < length ks" "start \<le> i" "i < n" using False "1.prems"(5) by (auto simp: i_def)
    have k: "NUL \<notin> set (ks ! i)" "length (ks ! i) \<le> elsize" using i "1.prems"(1) by (auto simp: keys_ok_def)
    note c = key_cmp_pad [OF "1.prems"(2) k(1) "1.prems"(3) k(2)]
    have ar: "ar ! i = key_pad elsize (ks ! i)" using i "1.prems"(4) by simp
    consider (eq) "s = ks ! i" | (lt) "s \<noteq> ks ! i" "str_less s (ks ! i)" | (gt) "s \<noteq> ks ! i" "\<not> str_less s (ks ! i)" by blast
    then show ?thesis
    proof cases
      case eq
      then show ?thesis using False c ar i by (simp add: i_def [symmetric] Let_def)
    next
      case lt
      have "ks ! j \<noteq> s" if "i \<le> j" "j < length ks" for j
      proof (cases "i = j")
        case False
        then have "str_less (ks ! i) (ks ! j)" using keys_ok_less [OF "1.prems"(1)] that by simp
        then show ?thesis using lt(2) str_less_trans str_less_irrefl by blast
      qed (use lt in auto)
      then show ?thesis
        using "1.IH"(1) [OF False i_def refl] lt c ar "1.prems" i False
        by (simp add: i_def [symmetric] Let_def)
    next
      case gt
      have "ks ! j \<noteq> s" if "j < i + 1" for j
      proof (cases "i = j")
        case False
        then have "str_less (ks ! j) (ks ! i)" using keys_ok_less [OF "1.prems"(1)] that i by simp
        then show ?thesis using gt(2) by blast
      qed (use gt in auto)
      then show ?thesis
        using "1.IH"(2) [OF False i_def refl] gt c ar "1.prems" i False
        by (simp add: i_def [symmetric] Let_def)
    qed
  qed
qed

lemma findsorted_correct:
  assumes "keys_ok elsize ks" and "NUL \<notin> set s"
  shows "case ffcharr_findsorted_padding (map (key_pad elsize) ks) elsize s of
      None \<Rightarrow> s \<notin> set ks | Some i \<Rightarrow> i < length ks \<and> ks ! i = s"
proof (cases "elsize < length s")
  case True
  then have "s \<notin> set ks" using assms(1) by (auto simp: keys_ok_def)
  then show ?thesis using True by (simp add: ffcharr_findsorted_padding_def)
next
  case False
  then show ?thesis using findsorted_loop_correct [OF assms _ refl, of "length ks" 0]
    by (simp add: ffcharr_findsorted_padding_def)
qed

lemma keys_ok_distinct: "keys_ok n ks \<Longrightarrow> distinct ks"
  unfolding distinct_conv_nth keys_ok_def by (metis linorder_neqE_nat sorted_wrt_nth_less str_less_irrefl)

lemma map_sz_vptr_findz2_map_of:
  assumes "keys_ok 16 (map fst tbl)" and "NUL \<notin> set name"
  shows "map_sz_vptr_findz2 (map (\<lambda>(k, v). (key_pad 16 k, v)) tbl) name = map_of tbl name"
proof -
  have f: "map fst (map (\<lambda>(k, v). (key_pad 16 k, v)) tbl) = map (key_pad 16) (map fst tbl)"
    by (simp add: case_prod_beta comp_def)
  show ?thesis
  proof (cases "ffcharr_findsorted_padding (map (key_pad 16) (map fst tbl)) 16 name")
    case None
    then have "name \<notin> fst ` set tbl" using findsorted_correct [OF assms] by simp
    then have "map_of tbl name = None" by (simp add: map_of_eq_None_iff)
    then show ?thesis using None f by (simp add: map_sz_vptr_findz2_def del: map_map)
  next
    case (Some i)
    then have i: "i < length tbl" "fst (tbl ! i) = name" using findsorted_correct [OF assms] by auto
    have "map_of tbl (fst (tbl ! i)) = Some (snd (tbl ! i))"
      using keys_ok_distinct [OF assms(1)] i by (metis map_of_is_SomeI nth_mem prod.collapse)
    then show ?thesis using Some f i by (simp add: map_sz_vptr_findz2_def case_prod_beta del: map_map)
  qed
qed

end
