(* ===== verification/Kq.thy ===== *)
theory Kq
  imports Prelude
begin

text \<open>
  \<open>src/util/kq.h\<close> and \<open>src/util/kq-timer.h\<close>: the kernel event loop of a worker, its table of
  reusable event slots and the kernel timer.

  The kernel queue, the heap and the post event belong to the system library; whether their
  constructors succeed is an argument of \<open>zzkq_create\<close>, and the handles they return are
  numbers. Releasing a handle is recorded in \<open>k_log\<close>, so that a handle that is released twice
  is visible. A pointer to an event is its index: the slots of \<open>kevs[]\<close> come first, then
  \<open>post_kev\<close>, then the events embedded in other objects of the worker (its timer, the bridge
  to the task queue). As the objects are aligned, bit 0 of the pointer the kernel carries is
  free for \<open>side\<close>; that pointer is \<open>2 * index + side\<close> here.
\<close>

section \<open>State\<close>

record 'f zzkevent =
  kev_rhandler :: "'f option"
  kev_whandler :: "'f option"
  kev_ractive :: bool
  kev_wactive :: bool
  kev_side :: bool
  kev_obj :: "nat option"
  kev_prev :: "nat option"

definition kev_zero :: "'f zzkevent" where
  "kev_zero = \<lparr>kev_rhandler = None, kev_whandler = None, kev_ractive = False, kev_wactive = False,
     kev_side = False, kev_obj = None, kev_prev = None\<rparr>"

record zzkq_conf =
  max_objects :: u32
  events_wait :: u32
  polling_mode :: bool

datatype kq_act = KqClose "nat option" | PostDetach "nat option" | MemFree "nat option" | KqPost

record 'f zzkq =
  k_conf :: zzkq_conf
  k_kq :: "nat option"
  k_kqpost :: "nat option"
  k_events :: "nat option"
  k_kevs_ptr :: "nat option"
  k_kevs :: "'f zzkevent list"
  k_post_kev :: "'f zzkevent"
  k_embedded :: "'f zzkevent list"
  k_stop :: bool
  k_unused_lifo :: "nat option"
  k_allocated :: u32
  k_locked :: u32
  k_log :: "kq_act list"

section \<open>Construction\<close>

definition zzkq_init :: "'f zzkq \<Rightarrow> 'f zzkq" where
  "zzkq_init k = k\<lparr>k_kq := None, k_kqpost := None\<rparr>"

text \<open>What the system hands out: \<open>None\<close> is a failed call.\<close>
record kq_sys =
  sys_kq :: "nat option"
  sys_post :: "nat option"
  sys_kevs :: "nat option"
  sys_events :: "nat option"

definition zzkq_create_err :: "'f zzkq \<Rightarrow> 'f zzkq \<times> int" where
  "zzkq_create_err k =
     (k\<lparr>k_log := k_log k @ [MemFree (k_kevs_ptr k), MemFree (k_events k), KqClose (k_kq k)]\<rparr>, -1)"

definition zzkq_create :: "kq_sys \<Rightarrow> zzkq_conf \<Rightarrow> 'f zzkq \<Rightarrow> 'f zzkq \<times> int" where
  "zzkq_create sys conf k0 =
     (let k1 = k0\<lparr>k_kq := sys_kq sys\<rparr> in
      if k_kq k1 = None then (k1, -1)
      else let k2 = k1\<lparr>k_kqpost := sys_post sys\<rparr> in
      if k_kqpost k2 = None then zzkq_create_err k2
      else let k3 = k2\<lparr>k_kevs_ptr := sys_kevs sys,
                       k_kevs := (if sys_kevs sys = None then []
                                  else replicate (unat (max_objects conf)) kev_zero)\<rparr> in
      if k_kevs_ptr k3 = None then zzkq_create_err k3
      else let k4 = k3\<lparr>k_events := sys_events sys\<rparr> in
      if k_events k4 = None then zzkq_create_err k4
      else (k4\<lparr>k_conf := conf\<rparr>, 0))"

definition zzkq_destroy :: "'f zzkq \<Rightarrow> 'f zzkq" where
  "zzkq_destroy k =
     (let k1 = k\<lparr>k_log := k_log k @ [PostDetach (k_kqpost k)], k_kqpost := None\<rparr>;
          k2 = k1\<lparr>k_log := k_log k1 @ [KqClose (k_kq k1)], k_kq := None\<rparr>;
          k3 = k2\<lparr>k_log := k_log k2 @ [MemFree (k_events k2)], k_events := None\<rparr>
      in k3\<lparr>k_log := k_log k3 @ [MemFree (k_kevs_ptr k3)], k_kevs_ptr := None, k_kevs := []\<rparr>)"

section \<open>Event slots\<close>

definition zzkq_kev_alloc :: "'f zzkq \<Rightarrow> 'f zzkq \<times> nat option" where
  "zzkq_kev_alloc k =
     (case k_unused_lifo k of
        Some i \<Rightarrow>
          (k\<lparr>k_unused_lifo := kev_prev (k_kevs k ! i),
             k_kevs := (k_kevs k)[i := (k_kevs k ! i)\<lparr>kev_prev := None\<rparr>],
             k_locked := k_locked k + 1\<rparr>, Some i)
      | None \<Rightarrow>
          if k_allocated k = max_objects (k_conf k) then (k, None)
          else (k\<lparr>k_allocated := k_allocated k + 1, k_locked := k_locked k + 1\<rparr>,
                Some (unat (k_allocated k))))"

text \<open>\<open>None\<close>: the assertion on \<open>kevs_locked\<close> fails.\<close>
definition zzkq_kev_free :: "'f zzkq \<Rightarrow> nat \<Rightarrow> 'f zzkq option" where
  "zzkq_kev_free k i =
     (let kev = (k_kevs k ! i)\<lparr>kev_rhandler := None, kev_whandler := None, kev_ractive := False,
                  kev_wactive := False, kev_obj := None, kev_side := \<not> kev_side (k_kevs k ! i),
                  kev_prev := k_unused_lifo k\<rparr>;
          k1 = k\<lparr>k_kevs := (k_kevs k)[i := kev], k_unused_lifo := Some i\<rparr>
      in if k_locked k1 = 0 then None else Some (k1\<lparr>k_locked := k_locked k1 - 1\<rparr>))"

definition zzkq_stop :: "'f zzkq \<Rightarrow> 'f zzkq" where
  "zzkq_stop k = (if k_stop k then k else k\<lparr>k_stop := True, k_log := k_log k @ [KqPost]\<rparr>)"

section \<open>Delivery of events\<close>

definition kev_at :: "'f zzkq \<Rightarrow> nat \<Rightarrow> 'f zzkevent" where
  "kev_at k i = (k_kevs k @ k_post_kev k # k_embedded k) ! i"

definition kev_data_attach :: "'f zzkq \<Rightarrow> nat \<Rightarrow> nat" where
  "kev_data_attach k i = 2 * i + of_bool (kev_side (kev_at k i))"

definition kev_data_retrieve :: "'f zzkq \<Rightarrow> nat \<Rightarrow> nat option" where
  "kev_data_retrieve k d =
     (let i = d div 2 in if odd d \<noteq> kev_side (kev_at k i) then None else Some i)"

text \<open>\<open>zzkq_attach\<close>: \<open>att\<close> is \<open>ffkq_attach\<close> on the kernel queue.\<close>
definition zzkq_attach :: "(nat option \<Rightarrow> nat \<Rightarrow> nat \<Rightarrow> u32 \<Rightarrow> int) \<Rightarrow> 'f zzkq \<Rightarrow> nat \<Rightarrow> nat \<Rightarrow> u32 \<Rightarrow> int" where
  "zzkq_attach att k fd i flags = att (k_kq k) fd (kev_data_attach k i) flags"

text \<open>\<open>ffkq_event\<close>: the pointer given when the descriptor was attached and the direction bits.\<close>
record kq_event =
  ev_data :: nat
  ev_read :: bool
  ev_write :: bool

text \<open>
  A handler runs with the object pointer of its event and may change the queue and the rest of
  the program \<open>'w\<close>. The second test reads the event again, after the read handler has run.
  A null handler is a fault: \<open>None\<close>.
\<close>
type_synonym ('f, 'w) kev_call = "'f \<Rightarrow> nat option \<Rightarrow> 'f zzkq \<times> 'w \<Rightarrow> 'f zzkq \<times> 'w"

definition zzkq_kev_call ::
    "('f, 'w) kev_call \<Rightarrow> nat \<Rightarrow> kq_event \<Rightarrow> 'f zzkq \<times> 'w \<Rightarrow> ('f zzkq \<times> 'w) option" where
  "zzkq_kev_call call i ev s0 =
     Option.bind
       (let kev = kev_at (fst s0) i in
        if ev_read ev \<and> kev_ractive kev
        then map_option (\<lambda>f. call f (kev_obj kev) s0) (kev_rhandler kev) else Some s0)
       (\<lambda>s1. let kev = kev_at (fst s1) i in
          if ev_write ev \<and> kev_wactive kev
          then map_option (\<lambda>f. call f (kev_obj kev) s1) (kev_whandler kev) else Some s1)"

fun zzkq_events ::
    "('f, 'w) kev_call \<Rightarrow> kq_event list \<Rightarrow> 'f zzkq \<times> 'w \<Rightarrow> ('f zzkq \<times> 'w) option" where
  "zzkq_events call [] s = Some s"
| "zzkq_events call (ev # evs) s =
     (case kev_data_retrieve (fst s) (ev_data ev) of
        None \<Rightarrow> zzkq_events call evs s
      | Some i \<Rightarrow> Option.bind (zzkq_kev_call call i ev s) (zzkq_events call evs))"

datatype kq_wait_res = WEvents "kq_event list" | WErr bool  \<comment> \<open>\<open>WErr True\<close>: \<open>EINTR\<close>\<close>

datatype kq_run_res = KLeft int | KFault | KFuel

text \<open>
  \<open>zzkq_run\<close>: \<open>wait\<close> is \<open>ffkq_wait\<close> with the capacity and the timeout the loop passes;
  \<open>fuel\<close> bounds the number of rounds.
\<close>
fun zzkq_run ::
    "nat \<Rightarrow> (u32 \<Rightarrow> int \<Rightarrow> 'f zzkq \<times> 'w \<Rightarrow> kq_wait_res \<times> 'w) \<Rightarrow> ('f, 'w) kev_call
     \<Rightarrow> 'f zzkq \<times> 'w \<Rightarrow> kq_run_res \<times> ('f zzkq \<times> 'w)" where
  "zzkq_run 0 wait call s = (KFuel, s)"
| "zzkq_run (Suc n) wait call (k, w) =
     (if k_stop k then (KLeft 0, (k, w))
      else case wait (events_wait (k_conf k)) (if polling_mode (k_conf k) then 0 else -1) (k, w) of
        (WErr eintr, w1) \<Rightarrow>
          if \<not> eintr then (KLeft (-1), (k, w1)) else zzkq_run n wait call (k, w1)
      | (WEvents evs, w1) \<Rightarrow>
          (case zzkq_events call evs (k, w1) of
             None \<Rightarrow> (KFault, (k, w1))
           | Some s1 \<Rightarrow> zzkq_run n wait call s1))"

section \<open>The kernel timer\<close>

record 'f zzkq_timer =
  kt_timer :: "nat option"
  kt_kev :: "'f zzkevent"

definition zzkq_timer_init :: "'f zzkq_timer \<Rightarrow> 'f zzkq_timer" where
  "zzkq_timer_init kt = kt\<lparr>kt_timer := None\<rparr>"

definition zzkq_timer_destroy :: "'f zzkq_timer \<Rightarrow> 'f zzkq_timer" where
  "zzkq_timer_destroy kt = kt\<lparr>kt_timer := None\<rparr>"

definition zzkq_timer_create :: "nat option \<Rightarrow> 'f zzkq_timer \<Rightarrow> 'f zzkq_timer \<times> int" where
  "zzkq_timer_create h kt =
     (let kt1 = kt\<lparr>kt_timer := h\<rparr> in if kt_timer kt1 = None then (kt1, -1) else (kt1, 0))"

text \<open>\<open>start\<close> and \<open>stop\<close>: the return values of \<open>fftimer_start\<close> and \<open>fftimer_stop\<close>.\<close>
definition zzkq_timer_start ::
    "(nat option \<Rightarrow> u32 \<Rightarrow> int) \<Rightarrow> 'f zzkq_timer \<Rightarrow> u32 \<Rightarrow> 'f \<Rightarrow> nat option \<Rightarrow> 'f zzkq_timer \<times> int" where
  "zzkq_timer_start start kt interval_msec func param =
     (let kev = (kt_kev kt)\<lparr>kev_rhandler := Some func, kev_obj := param, kev_ractive := True\<rparr>;
          kt1 = kt\<lparr>kt_kev := kev\<rparr>
      in if start (kt_timer kt1) interval_msec \<noteq> 0 then (kt1, -1) else (kt1, 0))"

definition zzkq_timer_stop :: "(nat option \<Rightarrow> int) \<Rightarrow> 'f zzkq_timer \<Rightarrow> 'f zzkq_timer \<times> int" where
  "zzkq_timer_stop stop kt =
     (if stop (kt_timer kt) \<noteq> 0 then (kt, -1)
      else (kt\<lparr>kt_kev := (kt_kev kt)\<lparr>kev_ractive := False\<rparr>\<rparr>, 0))"

definition zzkq_timer_active :: "'f zzkq_timer \<Rightarrow> bool" where
  "zzkq_timer_active kt = kev_ractive (kt_kev kt)"

section \<open>The slot table is a stack allocator\<close>

fun lifo :: "'f zzkevent list \<Rightarrow> nat option \<Rightarrow> nat list \<Rightarrow> bool" where
  "lifo kevs p [] \<longleftrightarrow> p = None"
| "lifo kevs p (i # is) \<longleftrightarrow> p = Some i \<and> lifo kevs (kev_prev (kevs ! i)) is"

fun lifo_walk :: "nat \<Rightarrow> 'f zzkevent list \<Rightarrow> nat option \<Rightarrow> nat list" where
  "lifo_walk n kevs None = []"
| "lifo_walk 0 kevs (Some i) = []"
| "lifo_walk (Suc n) kevs (Some i) = i # lifo_walk n kevs (kev_prev (kevs ! i))"

lemma lifo_walk_eq: "lifo kevs p free \<Longrightarrow> length free \<le> n \<Longrightarrow> lifo_walk n kevs p = free"
proof (induction free arbitrary: p n)
  case (Cons i free)
  then show ?case by (cases n) auto
qed simp

lemma lifo_frame:
  "lifo kevs p free \<Longrightarrow> i \<notin> set free \<Longrightarrow> lifo (kevs[i := kev]) p free"
  by (induction free arbitrary: p) auto

text \<open>The released slots, most recently released first, and the slots in use.\<close>
definition slots_free :: "'f zzkq \<Rightarrow> nat list" where
  "slots_free k = lifo_walk (length (k_kevs k)) (k_kevs k) (k_unused_lifo k)"

definition slots_used :: "'f zzkq \<Rightarrow> nat set" where
  "slots_used k = {..<unat (k_allocated k)} - set (slots_free k)"

definition slots_wf :: "'f zzkq \<Rightarrow> nat list \<Rightarrow> bool" where
  "slots_wf k free \<longleftrightarrow>
     lifo (k_kevs k) (k_unused_lifo k) free \<and> distinct free
     \<and> set free \<subseteq> {..<unat (k_allocated k)}
     \<and> unat (k_allocated k) \<le> unat (max_objects (k_conf k))
     \<and> length (k_kevs k) = unat (max_objects (k_conf k))
     \<and> unat (k_locked k) + length free = unat (k_allocated k)"

definition kq_inv :: "'f zzkq \<Rightarrow> bool" where
  "kq_inv k \<longleftrightarrow> slots_wf k (slots_free k)"

lemma slots_wf_length: "slots_wf k free \<Longrightarrow> length free \<le> unat (k_allocated k)"
  by (simp add: slots_wf_def)

lemma slots_wf_free: "slots_wf k free \<Longrightarrow> slots_free k = free"
  unfolding slots_free_def by (rule lifo_walk_eq) (auto simp: slots_wf_def)

lemma slots_wf_inv: "slots_wf k free \<Longrightarrow> kq_inv k"
  by (simp add: kq_inv_def slots_wf_free)

lemma unat_u32_inc:
  "unat (a :: u32) \<le> unat (b :: u32) \<Longrightarrow> a \<noteq> b \<Longrightarrow> unat (a + 1) = unat a + 1"
proof -
  assume "unat a \<le> unat b" and "a \<noteq> b"
  then have "unat a < unat b" by (metis le_neq_implies_less word_unat_eq_iff)
  then have "unat a + unat (1 :: u32) < 2 ^ LENGTH(32)" using unsigned_less [of b, where ?'a = nat] by simp
  then show ?thesis by (subst unat_add_small) simp_all
qed

lemma unat_u32_locked:
  "unat (a :: u32) < unat (b :: u32) \<Longrightarrow> unat (a + 1) = unat a + 1"
  using unat_u32_inc [of a b] by auto

lemma alloc_reuse_wf:
  assumes "slots_wf k (i # free)"
  shows "slots_wf (k\<lparr>k_unused_lifo := kev_prev (k_kevs k ! i),
             k_kevs := (k_kevs k)[i := (k_kevs k ! i)\<lparr>kev_prev := None\<rparr>],
             k_locked := k_locked k + 1\<rparr>) free"
proof -
  have "unat (k_locked k + 1) = unat (k_locked k) + 1"
    using assms by (intro unat_u32_locked [of _ "k_allocated k"]) (simp add: slots_wf_def)
  then show ?thesis using assms by (auto simp: slots_wf_def intro: lifo_frame)
qed

lemma alloc_grow_wf:
  assumes "slots_wf k []" and "k_allocated k \<noteq> max_objects (k_conf k)"
  shows "slots_wf (k\<lparr>k_allocated := k_allocated k + 1, k_locked := k_locked k + 1\<rparr>) []"
proof -
  have a: "unat (k_allocated k + 1) = unat (k_allocated k) + 1"
    using assms by (intro unat_u32_inc [of _ "max_objects (k_conf k)"]) (auto simp: slots_wf_def)
  have "k_locked k = k_allocated k" using assms by (simp add: slots_wf_def word_unat_eq_iff)
  moreover have "unat (k_allocated k) < unat (max_objects (k_conf k))"
    using assms by (metis le_neq_implies_less slots_wf_def word_unat_eq_iff)
  ultimately show ?thesis using assms a by (simp add: slots_wf_def)
qed

lemma free_wf:
  assumes "slots_wf k free" and "i < unat (k_allocated k)" and "i \<notin> set free"
  shows "\<exists>k'. zzkq_kev_free k i = Some k' \<and> slots_wf k' (i # free)
           \<and> k_conf k' = k_conf k \<and> k_allocated k' = k_allocated k"
proof -
  have "card (insert i (set free)) \<le> card {..<unat (k_allocated k)}"
    using assms by (intro card_mono) (auto simp: slots_wf_def)
  then have "length free < unat (k_allocated k)"
    using assms by (simp add: slots_wf_def distinct_card)
  then have l: "0 < unat (k_locked k)" using assms(1) by (simp add: slots_wf_def)
  then have "unat (k_locked k - 1) = unat (k_locked k) - 1"
    by (subst unat_diff_le) (simp_all add: word_le_nat_alt)
  moreover from l have "k_locked k \<noteq> 0" by (simp add: word_neq_0_unat)
  ultimately show ?thesis using assms l
    by (auto simp: zzkq_kev_free_def slots_wf_def intro!: lifo_frame)
qed

datatype kq_op = KAlloc | KFree nat

fun kq_exec :: "kq_op \<Rightarrow> 'f zzkq \<Rightarrow> 'f zzkq" where
  "kq_exec KAlloc k = fst (zzkq_kev_alloc k)"
| "kq_exec (KFree i) k = (case zzkq_kev_free k i of Some k' \<Rightarrow> k' | None \<Rightarrow> k)"

fun kq_ok :: "kq_op \<Rightarrow> 'f zzkq \<Rightarrow> bool" where
  "kq_ok KAlloc k \<longleftrightarrow> True"
| "kq_ok (KFree i) k \<longleftrightarrow> i \<in> slots_used k"

text \<open>
  The specification: a stack of released slots, the number of slots ever handed out and the
  capacity.
\<close>
type_synonym slot_stack = "nat list \<times> nat \<times> nat"

fun stack_step :: "kq_op \<Rightarrow> slot_stack \<Rightarrow> slot_stack" where
  "stack_step KAlloc (i # is, n, m) = (is, n, m)"
| "stack_step KAlloc ([], n, m) = ([], if n = m then n else n + 1, m)"
| "stack_step (KFree i) (is, n, m) = (i # is, n, m)"

definition kq_abs :: "'f zzkq \<Rightarrow> slot_stack" where
  "kq_abs k = (slots_free k, unat (k_allocated k), unat (max_objects (k_conf k)))"

lemma kq_alloc_sim:
  assumes "kq_inv k"
  shows "kq_inv (fst (zzkq_kev_alloc k)) \<and> kq_abs (fst (zzkq_kev_alloc k)) = stack_step KAlloc (kq_abs k)"
proof (cases "slots_free k")
  case Nil
  then have wf: "slots_wf k []" using assms by (simp add: kq_inv_def)
  then have "k_unused_lifo k = None" by (simp add: slots_wf_def)
  moreover have "unat (k_allocated k) \<le> unat (max_objects (k_conf k))"
    using wf by (simp add: slots_wf_def)
  ultimately show ?thesis
    using Nil assms slots_wf_inv [OF alloc_grow_wf [OF wf]] slots_wf_free [OF alloc_grow_wf [OF wf]]
      unat_u32_inc [of "k_allocated k" "max_objects (k_conf k)"]
    by (auto simp: zzkq_kev_alloc_def kq_abs_def word_unat_eq_iff)
next
  case (Cons i free)
  then have wf: "slots_wf k (i # free)" using assms by (simp add: kq_inv_def)
  then have "k_unused_lifo k = Some i" by (simp add: slots_wf_def)
  then show ?thesis
    using Cons alloc_reuse_wf [OF wf] slots_wf_free [OF alloc_reuse_wf [OF wf]]
    by (auto simp: zzkq_kev_alloc_def kq_abs_def intro: slots_wf_inv)
qed

lemma kq_free_sim:
  assumes "kq_inv k" and "i \<in> slots_used k"
  shows "kq_inv (kq_exec (KFree i) k) \<and> kq_abs (kq_exec (KFree i) k) = stack_step (KFree i) (kq_abs k)"
proof -
  from assms obtain k' where "zzkq_kev_free k i = Some k'" and "slots_wf k' (i # slots_free k)"
    and "k_conf k' = k_conf k" and "k_allocated k' = k_allocated k"
    using free_wf [of k "slots_free k" i] by (auto simp: kq_inv_def slots_used_def)
  then show ?thesis by (auto simp: kq_abs_def slots_wf_free intro: slots_wf_inv)
qed

interpretation kq: simulation kq_inv kq_ok kq_exec kq_abs stack_step
proof
  fix k :: "'f zzkq" and op
  assume inv: "kq_inv k" and ok: "kq_ok op k"
  show "kq_inv (kq_exec op k)"
    using inv ok kq_alloc_sim [OF inv] kq_free_sim [OF inv] by (cases op) auto
  show "kq_abs (kq_exec op k) = stack_step op (kq_abs k)"
    using inv ok kq_alloc_sim [OF inv] kq_free_sim [OF inv] by (cases op) auto
qed

lemma kq_create_inv:
  assumes "zzkq_create sys conf k0 = (k, 0)"
    and "k_unused_lifo k0 = None" and "k_allocated k0 = 0" and "k_locked k0 = 0"
  shows "kq_inv k \<and> kq_abs k = ([], 0, unat (max_objects conf))"
proof -
  have "slots_wf k []" and "k_conf k = conf" and "k_allocated k = 0"
    using assms
    by (auto simp: zzkq_create_def zzkq_create_err_def Let_def slots_wf_def split: if_splits)
  then show ?thesis by (auto simp: kq_abs_def slots_wf_free intro: slots_wf_inv)
qed

text \<open>
  Property C6: the event slots of a kernel queue behave as a stack allocator. Starting from the
  queue that \<open>zzkq_create\<close> sets up over zeroed memory, any sequence of \<open>zzkq_kev_alloc\<close> and
  \<open>zzkq_kev_free\<close> (on slots in use) leaves exactly the released slots of the specification on
  the intrusive \<open>prev_kev\<close> chain, in its order, with the same number of slots ever handed out;
  the counters do not wrap and \<open>kevs_locked\<close> is the number of slots in use.
\<close>

theorem kq_slots_refine_stack:
  assumes "zzkq_create sys conf k0 = (k, 0)"
    and "k_unused_lifo k0 = None" and "k_allocated k0 = 0" and "k_locked k0 = 0"
    and "ops_ok kq_ok kq_exec ops k"
  shows "kq_abs (fold kq_exec ops k) = fold stack_step ops ([], 0, unat (max_objects conf))
    \<and> unat (k_locked (fold kq_exec ops k)) = card (slots_used (fold kq_exec ops k))"
proof
  note init = kq_create_inv [OF assms(1-4)]
  from kq.run_sim [of k ops] init assms(5)
  show "kq_abs (fold kq_exec ops k) = fold stack_step ops ([], 0, unat (max_objects conf))" by simp
  have "slots_wf (fold kq_exec ops k) (slots_free (fold kq_exec ops k))"
    using kq.run_inv [of k ops] init assms(5) by (simp add: kq_inv_def)
  then show "unat (k_locked (fold kq_exec ops k)) = card (slots_used (fold kq_exec ops k))"
    unfolding slots_wf_def slots_used_def
    by (subst card_Diff_subset) (auto simp: distinct_card)
qed

definition kq_example :: "nat zzkq" where
  "kq_example = \<lparr>k_conf = \<lparr>max_objects = 0, events_wait = 0, polling_mode = False\<rparr>, k_kq = None,
     k_kqpost = None, k_events = None, k_kevs_ptr = None, k_kevs = [], k_post_kev = kev_zero,
     k_embedded = [], k_stop = False, k_unused_lifo = None, k_allocated = 0, k_locked = 0, k_log = []\<rparr>"

abbreviation "kq_example_conf \<equiv> \<lparr>max_objects = 2, events_wait = 64, polling_mode = False\<rparr>"

abbreviation "kq_example_run \<equiv>
  fst (zzkq_create \<lparr>sys_kq = Some 3, sys_post = Some 4, sys_kevs = Some 5, sys_events = Some 6\<rparr>
    kq_example_conf kq_example)"

lemma kq_example_create:
  "zzkq_create \<lparr>sys_kq = Some 3, sys_post = Some 4, sys_kevs = Some 5, sys_events = Some 6\<rparr>
     kq_example_conf kq_example = (kq_example_run, 0)"
  by (simp add: zzkq_create_def kq_example_def)

lemma kq_example_inv: "kq_inv kq_example_run"
  using kq_create_inv [OF kq_example_create] by (simp add: kq_example_def)

lemma kq_example_free: "slots_used (fold kq_exec [KAlloc, KAlloc] kq_example_run) = {0, 1}"
proof -
  have "k_unused_lifo (fold kq_exec [KAlloc, KAlloc] kq_example_run) = None"
    and "k_allocated (fold kq_exec [KAlloc, KAlloc] kq_example_run) = 2"
    by (simp_all add: zzkq_create_def kq_example_def zzkq_kev_alloc_def)
  then show ?thesis by (auto simp: slots_used_def slots_free_def simp del: fold.simps)
qed

theorem kq_slots_refine_stack_witness:
  "kq_abs (fold kq_exec [KAlloc, KAlloc, KFree 0] kq_example_run) = ([0], 2, 2)"
proof -
  have "ops_ok kq_ok kq_exec [KAlloc, KAlloc, KFree 0] kq_example_run"
    using kq_example_free by simp
  then show ?thesis
    using kq_slots_refine_stack [OF kq_example_create, of "[KAlloc, KAlloc, KFree 0]"]
    by (simp add: kq_example_def del: kq_exec.simps)
qed

text \<open>
  \<open>zzkq_kev_alloc\<close> never hands out a slot that is in use, marks exactly the
  returned slot as used, and fails only when all \<open>max_objects\<close> slots are in use, changing
  nothing then.
\<close>

theorem kq_alloc_fresh:
  assumes "kq_inv k" and "zzkq_kev_alloc k = (k', r)"
  shows "case r of
           Some i \<Rightarrow> i < unat (max_objects (k_conf k)) \<and> i \<notin> slots_used k
             \<and> slots_used k' = insert i (slots_used k)
         | None \<Rightarrow> k' = k \<and> slots_used k = {..<unat (max_objects (k_conf k))}"
proof (cases "slots_free k")
  case Nil
  then have wf: "slots_wf k []" using assms by (simp add: kq_inv_def)
  then have n: "k_unused_lifo k = None" "unat (k_allocated k) \<le> unat (max_objects (k_conf k))"
    by (simp_all add: slots_wf_def)
  show ?thesis
  proof (cases "k_allocated k = max_objects (k_conf k)")
    case True
    then show ?thesis using assms(2) n Nil by (auto simp: zzkq_kev_alloc_def slots_used_def)
  next
    case False
    moreover from False n have "unat (k_allocated k) \<noteq> unat (max_objects (k_conf k))"
      by (simp add: word_unat_eq_iff)
    ultimately show ?thesis
      using assms(2) n Nil slots_wf_free [OF alloc_grow_wf [OF wf]] unat_u32_inc [OF n(2)]
      by (auto simp: zzkq_kev_alloc_def slots_used_def)
  qed
next
  case (Cons i free)
  then have wf: "slots_wf k (i # free)" using assms by (simp add: kq_inv_def)
  then have "k_unused_lifo k = Some i" "i < unat (k_allocated k)" "i \<notin> set free"
    "unat (k_allocated k) \<le> unat (max_objects (k_conf k))"
    by (auto simp: slots_wf_def)
  then show ?thesis
    using assms(2) Cons slots_wf_free [OF alloc_reuse_wf [OF wf]]
    by (auto simp: zzkq_kev_alloc_def slots_used_def split: option.split)
qed

theorem kq_alloc_fresh_witness:
  "slots_used (fst (zzkq_kev_alloc kq_example_run)) = {0}"
proof -
  have "zzkq_kev_alloc kq_example_run = (fst (zzkq_kev_alloc kq_example_run), Some 0)"
    by (simp add: zzkq_create_def kq_example_def zzkq_kev_alloc_def)
  from kq_alloc_fresh [OF kq_example_inv this] show ?thesis
    by (simp add: slots_used_def zzkq_create_def kq_example_def slots_free_def)
qed

section \<open>Stale events\<close>

lemma kev_side_update:
  "kev_side kev = kev_side (kevs ! j) \<Longrightarrow> kev_side (kevs[j := kev] ! i) = kev_side (kevs ! i)"
  by (cases "j < length kevs"; cases "j = i") (simp_all add: list_update_beyond not_less)

lemma kev_side_exec:
  assumes "kq_inv k" and "kq_ok op k" and "op \<noteq> KFree i" and "i < length (k_kevs k)"
  shows "kev_side (kev_at (kq_exec op k) i) = kev_side (kev_at k i)
    \<and> length (k_kevs (kq_exec op k)) = length (k_kevs k)"
proof (cases op)
  case KAlloc
  then show ?thesis using assms
    by (simp add: zzkq_kev_alloc_def kev_at_def nth_append kev_side_update split: option.splits)
next
  case (KFree j)
  then show ?thesis using assms
    by (auto simp: zzkq_kev_free_def kev_at_def nth_append nth_list_update Let_def split: option.splits)
qed

lemma kev_side_run:
  assumes "kq_inv k" and "ops_ok kq_ok kq_exec ops k" and "KFree i \<notin> set ops" and "i < length (k_kevs k)"
  shows "kev_side (kev_at (fold kq_exec ops k) i) = kev_side (kev_at k i)"
  using assms
proof (induction ops arbitrary: k)
  case (Cons op ops)
  moreover have "kq_inv (kq_exec op k)" using Cons.prems by (intro kq.exec_inv) simp_all
  moreover have "op \<noteq> KFree i" using Cons.prems by auto
  ultimately show ?case using kev_side_exec [of k op i] by simp
qed simp

lemma kq_used_lt: "kq_inv k \<Longrightarrow> i \<in> slots_used k \<Longrightarrow> i < length (k_kevs k)"
  by (auto simp: kq_inv_def slots_wf_def slots_used_def)

lemma kq_free_side:
  assumes "zzkq_kev_free k i = Some k'" and "i < length (k_kevs k)"
  shows "kev_side (kev_at k' i) = (\<not> kev_side (kev_at k i)) \<and> length (k_kevs k') = length (k_kevs k)"
  using assms by (auto simp: zzkq_kev_free_def Let_def kev_at_def nth_append split: if_splits)

lemma kq_free_exec: "zzkq_kev_free k i = Some k' \<Longrightarrow> kq_exec (KFree i) k = k'"
  by simp

text \<open>
  Property C7: an event that the kernel still reports for the previous owner of a slot is
  dropped. After the slot is released, and whatever slots are handed out or released
  afterwards (this slot handed out again included, but not released again), the pointer the
  kernel carries no longer retrieves an event.
\<close>

theorem kq_stale_event_dropped:
  assumes "kq_inv k" and "i \<in> slots_used k" and "zzkq_kev_free k i = Some k1"
    and "ops_ok kq_ok kq_exec ops k1" and "KFree i \<notin> set ops"
  shows "kev_data_retrieve (fold kq_exec ops k1) (kev_data_attach k i) = None"
proof -
  have lt: "i < length (k_kevs k)" using assms kq_used_lt by blast
  have inv: "kq_inv k1" using kq_free_sim [OF assms(1,2)] assms(3) by simp
  have "kev_side (kev_at (fold kq_exec ops k1) i) \<noteq> kev_side (kev_at k i)"
    using kq_free_side [OF assms(3) lt] kev_side_run [OF inv assms(4,5)] lt by simp
  then show ?thesis by (auto simp: kev_data_retrieve_def kev_data_attach_def)
qed

theorem kq_stale_event_dropped_witness:
  "kev_data_retrieve (fold kq_exec [KAlloc] (kq_exec (KFree 0) (fold kq_exec [KAlloc, KAlloc] kq_example_run)))
     (kev_data_attach (fold kq_exec [KAlloc, KAlloc] kq_example_run) 0) = None"
proof -
  let ?k = "fold kq_exec [KAlloc, KAlloc] kq_example_run"
  have inv: "kq_inv ?k" using kq_example_inv kq.run_inv [of kq_example_run "[KAlloc, KAlloc]"] by simp
  have u: "0 \<in> slots_used ?k" using kq_example_free by simp
  obtain k1 where f: "zzkq_kev_free ?k 0 = Some k1"
    using free_wf [of ?k "slots_free ?k" 0] inv u by (auto simp: kq_inv_def slots_used_def)
  from kq_stale_event_dropped [OF inv u f, of "[KAlloc]"] f show ?thesis
    by (simp del: fold.simps(2))
qed

text \<open>
  One bit distinguishes two owners only. When the slot is released, handed out
  again and released a second time, the pointer of the first owner retrieves the event again,
  so a report that is still pending for the first owner reaches the third one.
\<close>

theorem kq_stale_event_after_two_frees:
  assumes "kq_inv k" and "i \<in> slots_used k" and "zzkq_kev_free k i = Some k1"
    and "zzkq_kev_alloc k1 = (k2, Some i)" and "zzkq_kev_free k2 i = Some k3"
  shows "kev_data_retrieve k3 (kev_data_attach k i) = Some i"
proof -
  have lt: "i < length (k_kevs k)" using assms kq_used_lt by blast
  have inv: "kq_inv k1" using kq_free_sim [OF assms(1,2)] assms(3) by simp
  have "kev_side (kev_at k2 i) = kev_side (kev_at k1 i)" "length (k_kevs k2) = length (k_kevs k1)"
    using kev_side_exec [OF inv, of KAlloc i] kq_free_side [OF assms(3) lt] lt assms(4) by simp_all
  then have "kev_side (kev_at k3 i) = kev_side (kev_at k i)"
    using kq_free_side [OF assms(3) lt] kq_free_side [OF assms(5)] lt by simp
  then show ?thesis by (simp add: kev_data_retrieve_def kev_data_attach_def)
qed

theorem kq_stale_event_after_two_frees_witness:
  "\<exists>k3 :: nat zzkq. kev_data_retrieve k3 (kev_data_attach (fst (zzkq_kev_alloc kq_example_run)) 0) = Some 0"
proof -
  let ?k = "fst (zzkq_kev_alloc kq_example_run)"
  have inv: "kq_inv ?k" using kq_example_inv kq_alloc_sim by blast
  have u: "0 \<in> slots_used ?k"
    by (simp add: zzkq_create_def kq_example_def zzkq_kev_alloc_def slots_used_def slots_free_def
        numeral_2_eq_2)
  have "\<exists>k1 k2 k3. zzkq_kev_free ?k 0 = Some k1 \<and> zzkq_kev_alloc k1 = (k2, Some 0)
          \<and> zzkq_kev_free k2 0 = Some k3"
    by (simp add: zzkq_create_def kq_example_def zzkq_kev_alloc_def zzkq_kev_free_def Let_def)
  then show ?thesis using kq_stale_event_after_two_frees [OF inv u] by blast
qed

section \<open>Failed construction\<close>

text \<open>
  When \<open>zzkq_create\<close> fails after the kernel queue was opened, its error branch
  closes the queue but keeps the handle, and the \<open>zzkq_destroy\<close> that \<open>wrk_destroy\<close> runs on the
  same object closes the same handle a second time.
\<close>

theorem zzkq_create_failure_double_close:
  assumes "sys_kq sys = Some h" and "zzkq_create sys conf k0 = (k, -1)" and "k_log k0 = []"
  shows "1 < count_list (k_log (zzkq_destroy k)) (KqClose (Some h))"
  using assms
  by (auto simp: zzkq_create_def zzkq_create_err_def zzkq_destroy_def Let_def split: if_splits)

theorem zzkq_create_failure_double_close_witness:
  "1 < count_list (k_log (zzkq_destroy (fst (zzkq_create
     \<lparr>sys_kq = Some 3, sys_post = None, sys_kevs = None, sys_events = None\<rparr>
     kq_example_conf kq_example)))) (KqClose (Some 3))"
  by (rule zzkq_create_failure_double_close
      [of "\<lparr>sys_kq = Some 3, sys_post = None, sys_kevs = None, sys_events = None\<rparr>" _ kq_example_conf kq_example])
    (simp_all add: zzkq_create_def zzkq_create_err_def kq_example_def)

section \<open>The loop\<close>

text \<open>One round: wait and run the handlers; \<open>None\<close> is a round after which the loop fails.\<close>
definition zzkq_round ::
    "(u32 \<Rightarrow> int \<Rightarrow> 'f zzkq \<times> 'w \<Rightarrow> kq_wait_res \<times> 'w) \<Rightarrow> ('f, 'w) kev_call
     \<Rightarrow> 'f zzkq \<times> 'w \<Rightarrow> ('f zzkq \<times> 'w) option" where
  "zzkq_round wait call s =
     (case wait (events_wait (k_conf (fst s))) (if polling_mode (k_conf (fst s)) then 0 else -1) s of
        (WErr eintr, w1) \<Rightarrow> if eintr then Some (fst s, w1) else None
      | (WEvents evs, w1) \<Rightarrow> zzkq_events call evs (fst s, w1))"

text \<open>\<open>n\<close> rounds that all start with \<open>stop\<close> unset.\<close>
fun zzkq_rounds ::
    "nat \<Rightarrow> (u32 \<Rightarrow> int \<Rightarrow> 'f zzkq \<times> 'w \<Rightarrow> kq_wait_res \<times> 'w) \<Rightarrow> ('f, 'w) kev_call
     \<Rightarrow> 'f zzkq \<times> 'w \<Rightarrow> ('f zzkq \<times> 'w) option" where
  "zzkq_rounds 0 wait call s = Some s"
| "zzkq_rounds (Suc n) wait call s =
     (if k_stop (fst s) then None else Option.bind (zzkq_round wait call s) (zzkq_rounds n wait call))"

text \<open>
  The event loop ends as soon as \<open>stop\<close> is set. If after \<open>n\<close> rounds (each a
  batch of events handled in order, or an interrupted wait) some handler or another thread has
  called \<open>zzkq_stop\<close>, then \<open>zzkq_run\<close> returns 0 in exactly that state, without waiting again.
\<close>

theorem zzkq_run_ends_on_stop:
  assumes "zzkq_rounds n wait call s = Some (zzkq_stop k, w)"
  shows "zzkq_run (Suc n) wait call s = (KLeft 0, (zzkq_stop k, w))"
  using assms
proof (induction n arbitrary: s)
  case 0
  then show ?case by (simp add: zzkq_stop_def)
next
  case (Suc n)
  obtain k0 w0 where s: "s = (k0, w0)" by (cases s)
  with Suc.prems have run: "\<not> k_stop k0" by (simp split: if_splits)
  show ?case
  proof (cases "zzkq_round wait call s")
    case None
    with Suc.prems s run show ?thesis by simp
  next
    case (Some s1)
    then have "zzkq_run (Suc n) wait call s1 = (KLeft 0, (zzkq_stop k, w))"
      using Suc s run by simp
    with Some s run show ?thesis
      by (auto simp del: zzkq_run.simps(2) simp add: zzkq_round_def zzkq_run.simps(2) [of "Suc n"]
          split: prod.splits kq_wait_res.splits if_splits)
  qed
qed

theorem zzkq_run_ends_on_stop_witness:
  "zzkq_run 2 (\<lambda>_ _ (k, w). (WEvents [\<lparr>ev_data = 0, ev_read = True, ev_write = False\<rparr>], w))
     (\<lambda>f ob (k, w). (zzkq_stop k, w + f))
     (kq_example\<lparr>k_post_kev := kev_zero\<lparr>kev_rhandler := Some 7, kev_ractive := True\<rparr>\<rparr>, 0)
   = (KLeft 0, (zzkq_stop (kq_example\<lparr>k_post_kev := kev_zero\<lparr>kev_rhandler := Some 7, kev_ractive := True\<rparr>\<rparr>), 7))"
proof -
  let ?k = "kq_example\<lparr>k_post_kev := kev_zero\<lparr>kev_rhandler := Some 7, kev_ractive := True\<rparr>\<rparr>"
  have "zzkq_rounds (Suc 0)
     (\<lambda>_ _ (k, w). (WEvents [\<lparr>ev_data = 0, ev_read = True, ev_write = False\<rparr>], w))
     (\<lambda>f ob (k, w). (zzkq_stop k, w + f)) (?k, 0) = Some (zzkq_stop ?k, 7)"
    by (simp add: zzkq_round_def kq_example_def zzkq_kev_call_def kev_at_def kev_zero_def
        kev_data_retrieve_def zzkq_stop_def)
  from zzkq_run_ends_on_stop [OF this] show ?thesis
    by (simp only: numeral_2_eq_2)
qed

end
