(* ===== verification/Taskqueue.thy ===== *)
theory Taskqueue
  imports Prelude
begin

text \<open>
  \<open>src/src/util/taskqueue.h\<close> (the FIFO of tasks of a worker) and \<open>src/src/util/kq-tq.h\<close> (its
  bridge to the kernel queue that wakes the worker). A task is identified by its address.

  The doubly linked list \<open>fflist\<close> of ffbase is a parameter: \<open>'l\<close> is the list object, and
  \<open>l_linked\<close> is the test \<open>sib.next != NULL\<close> of the task's link. What the queue relies on is
  \<open>fflist_law\<close>: with an abstraction function to HOL lists, adding appends, removing deletes.
\<close>

section \<open>The list interface\<close>

record 'l fflist =
  l_init :: 'l
  l_add :: "nat \<Rightarrow> 'l \<Rightarrow> 'l"
  l_rm :: "nat \<Rightarrow> 'l \<Rightarrow> 'l"
  l_first :: "'l \<Rightarrow> nat option"          \<comment> \<open>None: the sentinel\<close>
  l_linked :: "nat \<Rightarrow> 'l \<Rightarrow> bool"

definition fflist_law :: "'l fflist \<Rightarrow> ('l \<Rightarrow> nat list) \<Rightarrow> bool" where
  "fflist_law L items \<longleftrightarrow>
     items (l_init L) = []
     \<and> (\<forall>x l. x \<notin> set (items l) \<longrightarrow> items (l_add L x l) = items l @ [x])
     \<and> (\<forall>x l. x \<in> set (items l) \<longrightarrow> items (l_rm L x l) = remove1 x (items l))
     \<and> (\<forall>l. l_first L l = (case items l of [] \<Rightarrow> None | x # _ \<Rightarrow> Some x))
     \<and> (\<forall>x l. l_linked L x l \<longleftrightarrow> x \<in> set (items l))"

section \<open>The task queue\<close>

record ('l, 'fn) fftaskqueue =
  tq_tasks :: 'l
  tq_handler :: "nat \<Rightarrow> 'fn"             \<comment> \<open>\<open>handler\<close> and \<open>param\<close> of each task\<close>

definition fftask_set :: "('l, 'fn) fftaskqueue \<Rightarrow> nat \<Rightarrow> 'fn \<Rightarrow> ('l, 'fn) fftaskqueue" where
  "fftask_set tq t fn = tq\<lparr>tq_handler := (tq_handler tq)(t := fn)\<rparr>"

definition fftaskqueue_init :: "'l fflist \<Rightarrow> ('l, 'fn) fftaskqueue \<Rightarrow> ('l, 'fn) fftaskqueue" where
  "fftaskqueue_init L tq = tq\<lparr>tq_tasks := l_init L\<rparr>"

text \<open>\<open>fftaskqueue_post\<close>: 1 when the queue was empty and the task has been added.\<close>
definition fftaskqueue_post ::
    "'l fflist \<Rightarrow> ('l, 'fn) fftaskqueue \<Rightarrow> nat \<Rightarrow> ('l, 'fn) fftaskqueue \<times> bool" where
  "fftaskqueue_post L tq t =
     (if l_linked L t (tq_tasks tq) then (tq, False)
      else (tq\<lparr>tq_tasks := l_add L t (tq_tasks tq)\<rparr>, l_first L (tq_tasks tq) = None))"

definition fftaskqueue_post4 ::
    "'l fflist \<Rightarrow> ('l, 'fn) fftaskqueue \<Rightarrow> nat \<Rightarrow> 'fn \<Rightarrow> ('l, 'fn) fftaskqueue" where
  "fftaskqueue_post4 L tq t fn = fst (fftaskqueue_post L (fftask_set tq t fn) t)"

definition fftaskqueue_del ::
    "'l fflist \<Rightarrow> ('l, 'fn) fftaskqueue \<Rightarrow> nat \<Rightarrow> ('l, 'fn) fftaskqueue" where
  "fftaskqueue_del L tq t =
     (if \<not> l_linked L t (tq_tasks tq) then tq
      else tq\<lparr>tq_tasks := l_rm L t (tq_tasks tq)\<rparr>)"

text \<open>
  \<open>fftaskqueue_run\<close>: a handler may change the world \<open>'w\<close> and the queue (it may post tasks, its
  own included). The loop need not end, so it runs on fuel; the result is the queue, the world
  and the number of tasks executed.
\<close>
fun fftaskqueue_run ::
    "nat \<Rightarrow> 'l fflist \<Rightarrow> ('fn \<Rightarrow> ('l, 'fn) fftaskqueue \<times> 'w \<Rightarrow> ('l, 'fn) fftaskqueue \<times> 'w)
     \<Rightarrow> ('l, 'fn) fftaskqueue \<Rightarrow> 'w \<Rightarrow> (('l, 'fn) fftaskqueue \<times> 'w \<times> nat) option" where
  "fftaskqueue_run 0 L call tq w = None"
| "fftaskqueue_run (Suc fuel) L call tq w =
     (case l_first L (tq_tasks tq) of
        None \<Rightarrow> Some (tq, w, 0)
      | Some t \<Rightarrow>
          (let tq1 = tq\<lparr>tq_tasks := l_rm L t (tq_tasks tq)\<rparr>
           in case call (tq_handler tq1 t) (tq1, w) of (tq2, w2) \<Rightarrow>
                map_option (\<lambda>(tq3, w3, n). (tq3, w3, Suc n)) (fftaskqueue_run fuel L call tq2 w2)))"

section \<open>The queue is a FIFO without duplicates\<close>

definition tq_inv :: "('l \<Rightarrow> nat list) \<Rightarrow> ('l, 'fn) fftaskqueue \<Rightarrow> bool" where
  "tq_inv items tq \<longleftrightarrow> distinct (items (tq_tasks tq))"

lemmas tq_defs =
  fftask_set_def fftaskqueue_init_def fftaskqueue_post_def fftaskqueue_del_def
  fftaskqueue_post4_def tq_inv_def

lemma fflist_first_None: "fflist_law L items \<Longrightarrow> l_first L l = None \<longleftrightarrow> items l = []"
  by (auto simp: fflist_law_def split: list.splits)

lemma fflist_first_Some:
  "fflist_law L items \<Longrightarrow> l_first L l = Some x \<longleftrightarrow> (\<exists>xs. items l = x # xs)"
  by (auto simp: fflist_law_def split: list.splits)

text \<open>Posting and deleting as operations on the list of queued tasks.\<close>

datatype tq_op = Post nat | Del nat

fun tq_exec :: "'l fflist \<Rightarrow> tq_op \<Rightarrow> ('l, 'fn) fftaskqueue \<Rightarrow> ('l, 'fn) fftaskqueue" where
  "tq_exec L (Post t) tq = fst (fftaskqueue_post L tq t)"
| "tq_exec L (Del t) tq = fftaskqueue_del L tq t"

fun tq_spec :: "tq_op \<Rightarrow> nat list \<Rightarrow> nat list" where
  "tq_spec (Post t) xs = (if t \<in> set xs then xs else xs @ [t])"
| "tq_spec (Del t) xs = filter (\<lambda>x. x \<noteq> t) xs"

lemma filter_neq_remove1: "distinct xs \<Longrightarrow> filter (\<lambda>x. x \<noteq> t) xs = remove1 t xs"
  by (simp add: distinct_remove1_removeAll removeAll_filter_not_eq eq_commute)

lemma tq_simulation:
  assumes "fflist_law L items"
  shows "simulation (tq_inv items) (\<lambda>_ _. True) (tq_exec L)
           (\<lambda>tq :: ('l, 'fn) fftaskqueue. items (tq_tasks tq)) tq_spec"
proof unfold_locales
  fix s :: "('l, 'fn) fftaskqueue" and op
  assume inv: "tq_inv items s"
  show "items (tq_tasks (tq_exec L op s)) = tq_spec op (items (tq_tasks s))"
  proof (cases op)
    case (Post t)
    with assms show ?thesis by (auto simp: fflist_law_def tq_defs)
  next
    case (Del t)
    with assms inv show ?thesis
      by (auto simp: fflist_law_def tq_defs filter_neq_remove1 remove1_idem)
  qed
  then show "tq_inv items (tq_exec L op s)"
    using inv by (cases op) (auto simp: tq_inv_def)
qed

text \<open>
  Property C4: the queue behaves as a duplicate-free FIFO. After any sequence of posts and
  deletions the queued tasks are those of the list specification: posting a queued task
  changes nothing, a new one goes to the end, deleting removes exactly that task.
\<close>

theorem taskqueue_refines_fifo:
  assumes "fflist_law L items" and "distinct (items (tq_tasks tq))"
  shows "items (tq_tasks (fold (tq_exec L) ops tq)) = fold tq_spec ops (items (tq_tasks tq))"
proof -
  have "ops_ok (\<lambda>_ _. True) (tq_exec L) ops tq" by (induction ops arbitrary: tq) auto
  with simulation.run_sim [OF tq_simulation [OF assms(1)]] assms(2) show ?thesis
    by (simp add: tq_inv_def)
qed

text \<open>
  A run executes every queued task once, in the order of posting, and empties
  the queue, when the handlers only change the world: with fuel for one step more than there
  are tasks it returns, the world is changed by the handlers in that order and the count is
  the number of tasks.
\<close>

theorem taskqueue_run_fifo:
  assumes law: "fflist_law L items" and dist: "distinct (items (tq_tasks tq))"
    and call: "\<And>fn q w. call fn (q, w) = (q, eff fn w)"
  shows "\<exists>tq'. fftaskqueue_run (Suc (length (items (tq_tasks tq)))) L call tq w =
           Some (tq', fold (\<lambda>t. eff (tq_handler tq t)) (items (tq_tasks tq)) w,
                 length (items (tq_tasks tq)))
       \<and> items (tq_tasks tq') = []"
  using dist
proof (induction "items (tq_tasks tq)" arbitrary: tq w)
  case Nil
  have "l_first L (tq_tasks tq) = None"
    using fflist_first_None [OF law] Nil by simp
  with Nil.hyps [symmetric] show ?case by simp
next
  case (Cons t ts)
  define tq1 where "tq1 = tq\<lparr>tq_tasks := l_rm L t (tq_tasks tq)\<rparr>"
  have first: "l_first L (tq_tasks tq) = Some t"
    using fflist_first_Some [OF law] Cons.hyps(2) by metis
  have items1: "items (tq_tasks tq1) = ts"
    using law Cons.hyps(2) [symmetric] by (simp add: fflist_law_def tq1_def)
  have "distinct (items (tq_tasks tq1))" using Cons.prems Cons.hyps(2) [symmetric] items1 by simp
  from Cons.hyps(1) [OF items1 [symmetric] this, of "eff (tq_handler tq t) w"] obtain tq' where
    run: "fftaskqueue_run (Suc (length ts)) L call tq1 (eff (tq_handler tq t) w) =
       Some (tq', fold (\<lambda>t. eff (tq_handler tq1 t)) ts (eff (tq_handler tq t) w), length ts)"
    and e: "items (tq_tasks tq') = []"
    unfolding items1 by blast
  have h: "tq_handler tq1 = tq_handler tq" by (simp add: tq1_def)
  show ?case
    unfolding Cons.hyps(2) [symmetric]
    using run e first call [of "tq_handler tq t" tq1 w]
    by (simp add: tq1_def [symmetric] h Let_def del: fftaskqueue_run.simps(2))
       (simp add: tq1_def [symmetric] h Let_def)
qed

text \<open>A list object that is the list of its items.\<close>
definition list_fflist :: "nat list fflist" where
  "list_fflist = \<lparr>l_init = [], l_add = (\<lambda>x l. l @ [x]), l_rm = remove1,
     l_first = (\<lambda>l. case l of [] \<Rightarrow> None | x # _ \<Rightarrow> Some x), l_linked = (\<lambda>x l. x \<in> set l)\<rparr>"

lemma list_fflist_law: "fflist_law list_fflist (\<lambda>l. l)"
  by (simp add: fflist_law_def list_fflist_def)

theorem taskqueue_refines_fifo_witness:
  "distinct [1 :: nat, 2]
   \<and> tq_tasks (fold (tq_exec list_fflist) [Post 3, Post 1, Del 2]
        \<lparr>tq_tasks = [1, 2], tq_handler = \<lambda>t. t\<rparr>) = [1, 3]"
  using taskqueue_refines_fifo [OF list_fflist_law, of "\<lparr>tq_tasks = [1, 2], tq_handler = \<lambda>t. t\<rparr>"
      "[Post 3, Post 1, Del 2]"]
  by simp

theorem taskqueue_run_fifo_witness:
  "distinct [7 :: nat, 5]
   \<and> (\<exists>tq'. fftaskqueue_run (Suc 2) list_fflist (\<lambda>fn (q, w). (q, w @ [fn]))
          \<lparr>tq_tasks = [7, 5], tq_handler = \<lambda>t. t + 1\<rparr> [] = Some (tq', [8, 6], 2)
        \<and> tq_tasks tq' = [])"
  using taskqueue_run_fifo [OF list_fflist_law, of "\<lparr>tq_tasks = [7, 5], tq_handler = \<lambda>t. t + 1\<rparr>"
      "\<lambda>fn (q, w). (q, w @ [fn])" "\<lambda>fn w. w @ [fn]" "[]"]
  by (simp del: fftaskqueue_run.simps add: numeral_2_eq_2)

section \<open>The bridge to the kernel queue\<close>

text \<open>
  \<open>struct zzkq_tq\<close>: the event of the bridge is registered (\<open>rtask.active\<close>, a valid \<open>kqpost\<close>) and
  \<open>sig\<close> says that the kernel holds an undelivered post.
\<close>
record zzkq_tq =
  kt_kqpost :: bool
  kt_active :: bool
  kt_sig :: bool

text \<open>\<open>ok\<close>: whether \<open>ffkq_post_attach\<close> succeeds.\<close>
definition zzkq_tq_attach :: "bool \<Rightarrow> zzkq_tq \<Rightarrow> zzkq_tq \<times> int" where
  "zzkq_tq_attach ok kt =
     (let kt1 = kt\<lparr>kt_active := True, kt_kqpost := ok\<rparr>
      in if \<not> ok then (kt1, -1) else (kt1, 0))"

definition zzkq_tq_detach :: "zzkq_tq \<Rightarrow> zzkq_tq" where
  "zzkq_tq_detach kt = kt\<lparr>kt_kqpost := False\<rparr>"

definition zzkq_tq_process ::
    "nat \<Rightarrow> 'l fflist \<Rightarrow> ('fn \<Rightarrow> ('l, 'fn) fftaskqueue \<times> 'w \<Rightarrow> ('l, 'fn) fftaskqueue \<times> 'w)
     \<Rightarrow> zzkq_tq \<Rightarrow> ('l, 'fn) fftaskqueue \<Rightarrow> 'w
     \<Rightarrow> (zzkq_tq \<times> ('l, 'fn) fftaskqueue \<times> 'w) option" where
  "zzkq_tq_process fuel L call kt tq w =
     (let kt1 = kt\<lparr>kt_sig := False\<rparr>
      in map_option (\<lambda>(tq1, w1, n). (kt1, tq1, w1)) (fftaskqueue_run fuel L call tq w))"

text \<open>\<open>zzkq_tq_post\<close>; \<open>post\<close> is the return value of \<open>ffkq_post\<close>.\<close>
definition zzkq_tq_post ::
    "int \<Rightarrow> 'l fflist \<Rightarrow> zzkq_tq \<Rightarrow> ('l, 'fn) fftaskqueue \<Rightarrow> nat
     \<Rightarrow> zzkq_tq \<times> ('l, 'fn) fftaskqueue \<times> int" where
  "zzkq_tq_post post L kt tq t =
     (case fftaskqueue_post L tq t of (tq1, first) \<Rightarrow>
        if first then (kt\<lparr>kt_sig := True\<rparr>, tq1, post) else (kt, tq1, 0))"

text \<open>
  Posters on other threads and the worker interleave between the locked sections: a poster
  first adds its task (\<open>add\<close>) and signals afterwards (\<open>signal\<close>); the worker consumes the
  signal (\<open>consume\<close>), takes tasks one by one (\<open>exec\<close>) and leaves the loop when the list is
  empty (\<open>finish\<close>). The state: the queue, the pending signal, the number of posters between
  their two steps, and whether the worker is in its loop.
\<close>

type_synonym ('l, 'fn) wake_state = "('l, 'fn) fftaskqueue \<times> bool \<times> nat \<times> bool"

inductive wake_step ::
    "'l fflist \<Rightarrow> ('l, 'fn) wake_state \<Rightarrow> ('l, 'fn) wake_state \<Rightarrow> bool" for L where
  add: "fftaskqueue_post L tq t = (tq', first) \<Longrightarrow>
     wake_step L (tq, sig, n, run) (tq', sig, (if first then Suc n else n), run)"
| signal: "wake_step L (tq, sig, Suc n, run) (tq, True, n, run)"
| consume: "wake_step L (tq, True, n, False) (tq, False, n, True)"
| exec: "l_first L (tq_tasks tq) = Some t \<Longrightarrow>
     wake_step L (tq, sig, n, True) (tq\<lparr>tq_tasks := l_rm L t (tq_tasks tq)\<rparr>, sig, n, True)"
| del: "wake_step L (tq, sig, n, run) (fftaskqueue_del L tq t, sig, n, run)"
| finish: "l_first L (tq_tasks tq) = None \<Longrightarrow> wake_step L (tq, sig, n, True) (tq, sig, n, False)"

inductive wake_reachable :: "'l fflist \<Rightarrow> ('l, 'fn) wake_state \<Rightarrow> bool" for L where
  start: "wake_reachable L (fftaskqueue_init L tq, False, 0, False)"
| step: "wake_reachable L s \<Longrightarrow> wake_step L s s' \<Longrightarrow> wake_reachable L s'"

definition wake_inv :: "('l \<Rightarrow> nat list) \<Rightarrow> ('l, 'fn) wake_state \<Rightarrow> bool" where
  "wake_inv items = (\<lambda>(tq, sig, n, run). items (tq_tasks tq) \<noteq> [] \<longrightarrow> sig \<or> 0 < n \<or> run)"

lemma wake_step_inv:
  assumes "fflist_law L items"
  shows "wake_step L s s' \<Longrightarrow> wake_inv items s \<Longrightarrow> wake_inv items s'"
proof (induction rule: wake_step.induct)
  case (add tq t tq' first sig n run)
  then show ?case
    using assms fflist_first_None [OF assms, of "tq_tasks tq"]
    by (auto simp: wake_inv_def fftaskqueue_post_def fflist_law_def split: if_splits)
next
  case (del tq sig n run t)
  have "items (tq_tasks tq) \<noteq> []" if "items (tq_tasks (fftaskqueue_del L tq t)) \<noteq> []"
    using that assms by (auto simp: fftaskqueue_del_def fflist_law_def split: if_splits)
  with del show ?case by (auto simp: wake_inv_def)
next
  case (finish tq sig n)
  then show ?case using fflist_first_None [OF assms, of "tq_tasks tq"] by (simp add: wake_inv_def)
qed (auto simp: wake_inv_def)

lemma wake_reachable_inv:
  assumes law: "fflist_law L items"
  shows "wake_reachable L s \<Longrightarrow> wake_inv items s"
proof (induction rule: wake_reachable.induct)
  case (start tq)
  then show ?case using law by (simp add: wake_inv_def fftaskqueue_init_def fflist_law_def)
next
  case (step s s')
  then show ?case using wake_step_inv [OF law] by blast
qed



end
