(* ===== verification/Worker.thy ===== *)
theory Worker
  imports Kq Taskqueue
begin

text \<open>
  \<open>src/core/worker.h\<close>: the worker threads of the core, the assignment of tracks to them, and
  the timers of a worker. A worker owns one kernel queue (theory Kq), one task queue bridged to
  it (theory Taskqueue) and one timer queue.

  The timer queue \<open>fftimerqueue\<close> of ffsys is a parameter: its operations are the record
  \<open>timerq\<close>, whose contract is \<open>timerq_law\<close>. What the system returns when a worker is created is
  the record \<open>wrk_sys\<close>.
\<close>

section \<open>Parameters\<close>

record 'q timerq =
  tmq_init :: 'q
  tmq_add :: "nat \<Rightarrow> u32 \<Rightarrow> int \<Rightarrow> 'q \<Rightarrow> 'q"
  tmq_remove :: "nat \<Rightarrow> 'q \<Rightarrow> 'q"
  tmq_len :: "'q \<Rightarrow> nat"

definition timerq_law :: "'q timerq \<Rightarrow> ('q \<Rightarrow> nat set) \<Rightarrow> bool" where
  "timerq_law T items \<longleftrightarrow>
     items (tmq_init T) = {}
     \<and> (\<forall>t now iv q. items (tmq_add T t now iv q) = insert t (items q))
     \<and> (\<forall>t q. items (tmq_remove T t q) = items q - {t})
     \<and> (\<forall>q. tmq_len T q = card (items q) \<and> finite (items q))"

record wrk_sys =
  ws_kq :: kq_sys
  ws_tq_attach :: bool
  ws_timer :: "nat option"
  ws_thread :: "nat option"
  ws_now_msec :: u32
  ws_timer_start :: "nat option \<Rightarrow> u32 \<Rightarrow> int"
  ws_timer_stop :: "nat option \<Rightarrow> int"

record wrk_conf =
  wc_workers :: u32
  wc_max_tasks :: u32
  wc_timer_interval_msec :: u32
  wc_run_detach :: bool

section \<open>State\<close>

record ('f, 'l, 'q) worker =
  w_initialized :: bool
  w_th :: "nat option"
  w_tid :: nat
  w_kq :: "'f zzkq"
  w_njobs :: u64
  w_tq :: "('l, 'f \<times> nat option) fftaskqueue"
  w_kq_tq :: zzkq_tq
  w_timerq :: 'q
  w_kq_timer :: "'f zzkq_timer"
  w_now_msec :: u32

text \<open>The address of \<open>w->tmr_stop\<close>; the handlers of the worker's own kernel timer.\<close>
definition tmr_stop :: nat where
  "tmr_stop = 0"

section \<open>Tasks\<close>

definition wrk_task ::
    "int \<Rightarrow> 'l fflist \<Rightarrow> ('f, 'l, 'q) worker \<Rightarrow> nat \<Rightarrow> 'f option \<Rightarrow> nat option \<Rightarrow> ('f, 'l, 'q) worker" where
  "wrk_task post L w t func param =
     (case func of
        None \<Rightarrow> w\<lparr>w_tq := fftaskqueue_del L (w_tq w) t\<rparr>
      | Some f \<Rightarrow>
          (let tq1 = fftask_set (w_tq w) t (f, param)
           in case zzkq_tq_post post L (w_kq_tq w) tq1 t of (kt, tq2, _) \<Rightarrow>
                w\<lparr>w_kq_tq := kt, w_tq := tq2\<rparr>))"

section \<open>Timers\<close>

definition timer_suspend :: "wrk_sys \<Rightarrow> ('f, 'l, 'q) worker \<Rightarrow> ('f, 'l, 'q) worker" where
  "timer_suspend sys w = w\<lparr>w_kq_timer := fst (zzkq_timer_stop (ws_timer_stop sys) (w_kq_timer w))\<rparr>"

text \<open>
  \<open>process\<close> is \<open>fftimerqueue_process\<close>: it runs the handlers of the expired timers on the worker
  and returns their number.
\<close>
definition on_timer ::
    "wrk_sys \<Rightarrow> 'q timerq \<Rightarrow> (u32 \<Rightarrow> ('f, 'l, 'q) worker \<Rightarrow> ('f, 'l, 'q) worker \<times> u32)
     \<Rightarrow> ('f, 'l, 'q) worker \<Rightarrow> ('f, 'l, 'q) worker" where
  "on_timer sys T process w =
     (let w1 = w\<lparr>w_now_msec := ws_now_msec sys\<rparr>
      in case process (w_now_msec w1) w1 of (w2, n) \<Rightarrow>
           if n \<noteq> 0 \<and> tmq_len T (w_timerq w2) = 0
           then w2\<lparr>w_timerq := tmq_add T tmr_stop (w_now_msec w2) (-10000) (w_timerq w2)\<rparr>
           else w2)"

definition wrk_timer ::
    "wrk_sys \<Rightarrow> wrk_conf \<Rightarrow> 'q timerq \<Rightarrow> 'f \<Rightarrow> ('f, 'l, 'q) worker \<Rightarrow> nat \<Rightarrow> int \<Rightarrow> ('f, 'l, 'q) worker" where
  "wrk_timer sys conf T on_tmr w t interval_msec =
     (if interval_msec = 0 then
        (let w1 = w\<lparr>w_timerq := tmq_remove T t (w_timerq w)\<rparr>
         in if tmq_len T (w_timerq w1) = 0
            then w1\<lparr>w_timerq := tmq_add T tmr_stop (w_now_msec w1) (-10000) (w_timerq w1)\<rparr>
            else w1)
      else
        (let w1 = w\<lparr>w_timerq := tmq_remove T tmr_stop (w_timerq w)\<rparr>;
             st = (if \<not> zzkq_timer_active (w_kq_timer w1)
                   then zzkq_timer_start (ws_timer_start sys) (w_kq_timer w1)
                          (wc_timer_interval_msec conf) on_tmr (Some 0)
                   else (w_kq_timer w1, 0));
             w2 = w1\<lparr>w_kq_timer := fst st\<rparr>
         in if snd st \<noteq> 0 then w2
            else w2\<lparr>w_timerq := tmq_add T t (w_now_msec w2) interval_msec (w_timerq w2)\<rparr>))"

section \<open>Threads\<close>

definition wrk_run ::
    "nat \<Rightarrow> nat \<Rightarrow> (u32 \<Rightarrow> int \<Rightarrow> 'f zzkq \<times> 'w \<Rightarrow> kq_wait_res \<times> 'w) \<Rightarrow> ('f, 'w) kev_call
     \<Rightarrow> ('f, 'l, 'q) worker \<Rightarrow> 'w \<Rightarrow> kq_run_res \<times> ('f, 'l, 'q) worker \<times> 'w" where
  "wrk_run fuel tid wait call w e =
     (case zzkq_run fuel wait call (w_kq w, e) of (r, (k, e1)) \<Rightarrow>
        (r, w\<lparr>w_tid := tid, w_kq := k\<rparr>, e1))"

definition wrk_start :: "wrk_sys \<Rightarrow> ('f, 'l, 'q) worker \<Rightarrow> ('f, 'l, 'q) worker \<times> int" where
  "wrk_start sys w =
     (let w1 = w\<lparr>w_th := ws_thread sys\<rparr> in if w_th w1 = None then (w1, -1) else (w1, 0))"

definition wrk_create ::
    "wrk_sys \<Rightarrow> wrk_conf \<Rightarrow> 'l fflist \<Rightarrow> 'q timerq
     \<Rightarrow> (u32 \<Rightarrow> ('f, 'l, 'q) worker \<Rightarrow> ('f, 'l, 'q) worker \<times> u32)
     \<Rightarrow> ('f, 'l, 'q) worker \<Rightarrow> ('f, 'l, 'q) worker \<times> int" where
  "wrk_create sys conf L T process w0 =
     (let w1 = w0\<lparr>w_th := None, w_kq := zzkq_init (w_kq w0), w_timerq := tmq_init T,
                  w_kq_timer := zzkq_timer_init (w_kq_timer w0)\<rparr>;
          kc = \<lparr>max_objects = wc_max_tasks conf, events_wait = 64, polling_mode = False\<rparr>;
          c = zzkq_create (ws_kq sys) kc (w_kq w1);
          w2 = w1\<lparr>w_kq := fst c\<rparr>
      in if snd c \<noteq> 0 then (w2, -1)
         else let w3 = w2\<lparr>w_tq := fftaskqueue_init L (w_tq w2)\<rparr>;
                  a = zzkq_tq_attach (ws_tq_attach sys) (w_kq_tq w3);
                  w4 = w3\<lparr>w_kq_tq := fst a\<rparr>
         in if snd a \<noteq> 0 then (w4, -1)
         else let tc = zzkq_timer_create (ws_timer sys) (w_kq_timer w4);
                  w5 = w4\<lparr>w_kq_timer := fst tc\<rparr>
         in if snd tc \<noteq> 0 then (w5, -1)
         else (on_timer sys T process (w5\<lparr>w_initialized := True\<rparr>), 0))"

definition wrk_destroy :: "('f, 'l, 'q) worker \<Rightarrow> ('f, 'l, 'q) worker" where
  "wrk_destroy w =
     (let w1 = (if w_th w \<noteq> None then w\<lparr>w_kq := zzkq_stop (w_kq w), w_th := None\<rparr> else w)
      in w1\<lparr>w_kq_tq := zzkq_tq_detach (w_kq_tq w1), w_kq_timer := zzkq_timer_destroy (w_kq_timer w1),
           w_kq := zzkq_destroy (w_kq w1)\<rparr>)"

text \<open>\<open>nproc\<close>: the number of processors on line.\<close>
definition wrk_n :: "u32 \<Rightarrow> u32 \<Rightarrow> u32" where
  "wrk_n nproc n = min (if n = 0 then 1 else if n = -1 then nproc else n) 100"

section \<open>The pool\<close>

text \<open>
  \<open>struct wrk_ctx\<close>: the vector holds \<open>cap\<close> zeroed workers, the first \<open>len\<close> of which are active;
  \<open>None\<close> is a fault (a null worker or a failed assertion).
\<close>
record ('f, 'l, 'q) wrk_ctx =
  wx_workers :: "('f, 'l, 'q) worker list"
  wx_len :: nat

definition wx_active :: "('f, 'l, 'q) wrk_ctx \<Rightarrow> ('f, 'l, 'q) worker list" where
  "wx_active wx = take (wx_len wx) (wx_workers wx)"

definition wrkx_init ::
    "u32 \<Rightarrow> wrk_sys \<Rightarrow> wrk_conf \<Rightarrow> 'l fflist \<Rightarrow> 'q timerq
     \<Rightarrow> (u32 \<Rightarrow> ('f, 'l, 'q) worker \<Rightarrow> ('f, 'l, 'q) worker \<times> u32)
     \<Rightarrow> ('f, 'l, 'q) worker \<Rightarrow> (wrk_conf \<times> ('f, 'l, 'q) wrk_ctx \<times> int) option" where
  "wrkx_init nproc sys conf L T process zero =
     (let conf1 = conf\<lparr>wc_workers := wrk_n nproc (wc_workers conf)\<rparr>;
          conf2 = (if wc_max_tasks conf1 = 0 then conf1\<lparr>wc_max_tasks := 100\<rparr> else conf1);
          pool = replicate (unat (wc_workers conf2)) zero
      in if pool = [] then None
         else case wrk_create sys conf2 L T process (pool ! 0) of (w, r) \<Rightarrow>
           Some (conf2, \<lparr>wx_workers = pool[0 := w], wx_len = 1\<rparr>, if r \<noteq> 0 then -1 else 0))"

definition wrkx_stop :: "('f, 'l, 'q) wrk_ctx \<Rightarrow> ('f, 'l, 'q) wrk_ctx" where
  "wrkx_stop wx =
     wx\<lparr>wx_workers := map (\<lambda>w. w\<lparr>w_kq := zzkq_stop (w_kq w)\<rparr>) (wx_active wx)
                      @ drop (wx_len wx) (wx_workers wx)\<rparr>"

definition wrkx_destroy :: "('f, 'l, 'q) wrk_ctx \<Rightarrow> ('f, 'l, 'q) worker list \<times> ('f, 'l, 'q) wrk_ctx" where
  "wrkx_destroy wx = (map wrk_destroy (wx_active wx), \<lparr>wx_workers = [], wx_len = 0\<rparr>)"

definition wrkx_available :: "('f, 'l, 'q) wrk_ctx \<Rightarrow> bool" where
  "wrkx_available wx \<longleftrightarrow>
     wx_len wx < length (wx_workers wx) \<or> list_ex (\<lambda>w. w_njobs w = 0) (wx_active wx)"

text \<open>The search of \<open>wrkx_assign\<close>: the first worker with the fewest jobs, stopping at an idle one.\<close>
fun find_min :: "nat \<Rightarrow> u32 \<Rightarrow> nat option \<Rightarrow> ('f, 'l, 'q) worker list \<Rightarrow> nat option \<times> u32" where
  "find_min i jobs_min w [] = (w, jobs_min)"
| "find_min i jobs_min w (it # its) =
     (let nj = (ucast (w_njobs it) :: u32) in
      if nj < jobs_min
      then (if nj = 0 then (Some i, 0) else find_min (Suc i) nj (Some i) its)
      else find_min (Suc i) jobs_min w its)"

definition wrkx_grow ::
    "wrk_sys \<Rightarrow> wrk_conf \<Rightarrow> 'l fflist \<Rightarrow> 'q timerq
     \<Rightarrow> (u32 \<Rightarrow> ('f, 'l, 'q) worker \<Rightarrow> ('f, 'l, 'q) worker \<times> u32)
     \<Rightarrow> ('f, 'l, 'q) wrk_ctx \<Rightarrow> ('f, 'l, 'q) wrk_ctx \<times> nat" where
  "wrkx_grow sys conf L T process wx =
     (let i = wx_len wx;
          c = wrk_create sys conf L T process (wx_workers wx ! i);
          s = (if snd c \<noteq> 0 then c else wrk_start sys (fst c))
      in if snd s \<noteq> 0
         then (wx\<lparr>wx_workers := (wx_workers wx)[i := wrk_destroy (fst s)]\<rparr>, 0)
         else (wx\<lparr>wx_workers := (wx_workers wx)[i := fst s], wx_len := Suc i\<rparr>, i))"

text \<open>The worker \<open>wrkx_assign\<close> chooses, before it counts the job.\<close>
definition wrkx_pick ::
    "wrk_sys \<Rightarrow> wrk_conf \<Rightarrow> 'l fflist \<Rightarrow> 'q timerq
     \<Rightarrow> (u32 \<Rightarrow> ('f, 'l, 'q) worker \<Rightarrow> ('f, 'l, 'q) worker \<times> u32)
     \<Rightarrow> ('f, 'l, 'q) wrk_ctx \<Rightarrow> u32 \<Rightarrow> ('f, 'l, 'q) wrk_ctx \<times> nat option" where
  "wrkx_pick sys conf L T process wx flags =
     (if flags = 0 then (wx, Some 0)
      else case find_min 0 (-1) None (wx_active wx) of (w, jobs_min) \<Rightarrow>
        if jobs_min \<noteq> 0 \<and> wx_len wx < length (wx_workers wx)
        then (case wrkx_grow sys conf L T process wx of (wx1, i) \<Rightarrow> (wx1, Some i))
        else (wx, w))"

definition wrkx_assign ::
    "wrk_sys \<Rightarrow> wrk_conf \<Rightarrow> 'l fflist \<Rightarrow> 'q timerq
     \<Rightarrow> (u32 \<Rightarrow> ('f, 'l, 'q) worker \<Rightarrow> ('f, 'l, 'q) worker \<times> u32)
     \<Rightarrow> ('f, 'l, 'q) wrk_ctx \<Rightarrow> u32 \<Rightarrow> (('f, 'l, 'q) wrk_ctx \<times> nat) option" where
  "wrkx_assign sys conf L T process wx flags =
     (case wrkx_pick sys conf L T process wx flags of
        (wx1, None) \<Rightarrow> None
      | (wx1, Some wid) \<Rightarrow>
          Some (wx1\<lparr>wx_workers := (wx_workers wx1)[wid := (wx_workers wx1 ! wid)
                     \<lparr>w_njobs := w_njobs (wx_workers wx1 ! wid) + 1\<rparr>]\<rparr>, wid))"

definition wrkx_release :: "('f, 'l, 'q) wrk_ctx \<Rightarrow> nat \<Rightarrow> ('f, 'l, 'q) wrk_ctx option" where
  "wrkx_release wx wid =
     (let w = wx_workers wx ! wid;
          nj = w_njobs w - 1;
          wx1 = wx\<lparr>wx_workers := (wx_workers wx)[wid := w\<lparr>w_njobs := nj\<rparr>]\<rparr>
      in if sint (ucast nj :: u32) < 0 then None else Some wx1)"

section \<open>Timers and the kernel timer\<close>

text \<open>What the timer queue holds besides the node that suspends the kernel timer.\<close>
definition tm_inv :: "'q timerq \<Rightarrow> ('q \<Rightarrow> nat set) \<Rightarrow> ('f, 'l, 'q) worker \<Rightarrow> bool" where
  "tm_inv T items w \<longleftrightarrow>
     (items (w_timerq w) - {tmr_stop} \<noteq> {} \<longrightarrow> zzkq_timer_active (w_kq_timer w))
     \<and> (tmr_stop \<in> items (w_timerq w) \<longrightarrow> items (w_timerq w) = {tmr_stop})"

text \<open>
  What happens inside \<open>fftimerqueue_process\<close>: an expired one-shot timer leaves the queue (its
  handler's calls are the following steps), the suspending node leaves it and runs
  \<open>timer_suspend\<close>, and handlers call \<open>wrk_timer\<close>.
\<close>
inductive tm_step ::
    "wrk_conf \<Rightarrow> 'q timerq \<Rightarrow> ('q \<Rightarrow> nat set) \<Rightarrow> 'f \<Rightarrow> ('f, 'l, 'q) worker \<Rightarrow> ('f, 'l, 'q) worker \<Rightarrow> bool"
  for conf T items h where
  call: "t \<noteq> tmr_stop \<Longrightarrow> (\<And>x iv. ws_timer_start sys x iv = 0) \<Longrightarrow>
     tm_step conf T items h w (wrk_timer sys conf T h w t iv)"
| expire: "t \<in> items (w_timerq w) \<Longrightarrow> t \<noteq> tmr_stop \<Longrightarrow>
     tm_step conf T items h w (w\<lparr>w_timerq := tmq_remove T t (w_timerq w)\<rparr>)"
| suspend: "tmr_stop \<in> items (w_timerq w) \<Longrightarrow>
     tm_step conf T items h w
       (timer_suspend sys (w\<lparr>w_timerq := tmq_remove T tmr_stop (w_timerq w)\<rparr>))"

text \<open>The contract of \<open>fftimerqueue_process\<close>: such steps only, and none on an empty queue.\<close>
definition process_law ::
    "wrk_conf \<Rightarrow> 'q timerq \<Rightarrow> ('q \<Rightarrow> nat set) \<Rightarrow> 'f
     \<Rightarrow> (u32 \<Rightarrow> ('f, 'l, 'q) worker \<Rightarrow> ('f, 'l, 'q) worker \<times> u32) \<Rightarrow> bool" where
  "process_law conf T items h process \<longleftrightarrow>
     (\<forall>now w. (tm_step conf T items h)\<^sup>*\<^sup>* w (fst (process now w)))
     \<and> (\<forall>now w. items (w_timerq w) = {} \<longrightarrow> process now w = (w, 0))"

lemma timerq_lawD:
  assumes "timerq_law T items"
  shows "items (tmq_init T) = {}" "items (tmq_add T t now iv q) = insert t (items q)"
    "items (tmq_remove T t q) = items q - {t}" "tmq_len T q = 0 \<longleftrightarrow> items q = {}"
  using assms by (auto simp: timerq_law_def)

lemma zzkq_timer_start_active:
  "zzkq_timer_active (fst (zzkq_timer_start st kt iv h p))"
  by (simp add: zzkq_timer_start_def zzkq_timer_active_def Let_def)

lemma wrk_timer_inv:
  assumes law: "timerq_law T items" and inv: "tm_inv T items w" and t: "t \<noteq> tmr_stop"
  shows "tm_inv T items (wrk_timer sys conf T h w t iv)"
proof (cases "iv = 0")
  case True
  then show ?thesis using inv t timerq_lawD [OF law]
    by (auto simp: wrk_timer_def tm_inv_def Let_def)
next
  case False
  then show ?thesis using inv t timerq_lawD [OF law]
    by (auto simp: wrk_timer_def tm_inv_def zzkq_timer_start_active Let_def split: if_splits)
qed

lemma timer_suspend_inv:
  assumes law: "timerq_law T items" and inv: "tm_inv T items w" and s: "tmr_stop \<in> items (w_timerq w)"
  shows "tm_inv T items (timer_suspend sys (w\<lparr>w_timerq := tmq_remove T tmr_stop (w_timerq w)\<rparr>))"
  using inv s timerq_lawD(3) [OF law]
  by (auto simp: timer_suspend_def tm_inv_def)

lemma tm_step_inv:
  assumes law: "timerq_law T items"
  shows "tm_step conf T items h w w' \<Longrightarrow> tm_inv T items w \<Longrightarrow> tm_inv T items w'"
proof (induction rule: tm_step.induct)
  case (expire t w)
  then show ?case using timerq_lawD(3) [OF law] by (auto simp: tm_inv_def)
qed (auto intro: wrk_timer_inv [OF law] timer_suspend_inv [OF law])

lemma tm_steps_inv:
  assumes law: "timerq_law T items"
  shows "(tm_step conf T items h)\<^sup>*\<^sup>* w w' \<Longrightarrow> tm_inv T items w \<Longrightarrow> tm_inv T items w'"
  by (induction rule: rtranclp_induct) (auto intro: tm_step_inv [OF law])

lemma on_timer_inv:
  assumes law: "timerq_law T items" and pl: "process_law conf T items h process"
    and inv: "tm_inv T items w"
  shows "tm_inv T items (on_timer sys T process w)"
proof -
  let ?w1 = "w\<lparr>w_now_msec := ws_now_msec sys\<rparr>"
  let ?w2 = "fst (process (ws_now_msec sys) ?w1)"
  have "tm_inv T items ?w1" using inv by (simp add: tm_inv_def)
  moreover have "(tm_step conf T items h)\<^sup>*\<^sup>* ?w1 ?w2" using pl by (simp add: process_law_def)
  ultimately have 2: "tm_inv T items ?w2" by (rule tm_steps_inv [OF law, rotated])
  have "tm_inv T items (?w2\<lparr>w_timerq := tmq_add T tmr_stop now iv (w_timerq ?w2)\<rparr>)"
    if "tmq_len T (w_timerq ?w2) = 0" for now iv
    using that 2 timerq_lawD [OF law] by (auto simp: tm_inv_def)
  with 2 show ?thesis by (auto simp: on_timer_def Let_def split: prod.split)
qed

datatype tm_op = TTimer wrk_sys nat int | TTick wrk_sys

fun tm_exec ::
    "wrk_conf \<Rightarrow> 'q timerq \<Rightarrow> 'f \<Rightarrow> (u32 \<Rightarrow> ('f, 'l, 'q) worker \<Rightarrow> ('f, 'l, 'q) worker \<times> u32)
     \<Rightarrow> tm_op \<Rightarrow> ('f, 'l, 'q) worker \<Rightarrow> ('f, 'l, 'q) worker" where
  "tm_exec conf T h process (TTimer sys t iv) w = wrk_timer sys conf T h w t iv"
| "tm_exec conf T h process (TTick sys) w = on_timer sys T process w"

fun tm_ok :: "tm_op \<Rightarrow> ('f, 'l, 'q) worker \<Rightarrow> bool" where
  "tm_ok (TTimer sys t iv) w \<longleftrightarrow> t \<noteq> tmr_stop"
| "tm_ok (TTick sys) w \<longleftrightarrow> True"

interpretation tm: op_invariant
  "\<lambda>w. timerq_law T items \<and> process_law conf T items h process \<and> tm_inv T items w"
  tm_ok "tm_exec conf T h process"
proof (unfold_locales, goal_cases)
  case (1 w op)
  then show ?case by (cases op) (auto intro: wrk_timer_inv on_timer_inv)
qed


text \<open>A timer queue: the pending nodes.\<close>
definition list_timerq :: "nat list timerq" where
  "list_timerq = \<lparr>tmq_init = [], tmq_add = (\<lambda>t _ _ q. List.insert t q),
     tmq_remove = (\<lambda>t q. filter (\<lambda>x. x \<noteq> t) q), tmq_len = (\<lambda>q. card (set q))\<rparr>"

lemma list_timerq_law: "timerq_law list_timerq set"
  by (auto simp: timerq_law_def list_timerq_def)

text \<open>A process function that expires the first pending node.\<close>
definition process_first ::
    "wrk_sys \<Rightarrow> u32 \<Rightarrow> ('f, 'l, nat list) worker \<Rightarrow> ('f, 'l, nat list) worker \<times> u32" where
  "process_first sys now w =
     (case w_timerq w of [] \<Rightarrow> (w, 0)
      | t # _ \<Rightarrow>
          (let w1 = w\<lparr>w_timerq := filter (\<lambda>x. x \<noteq> t) (w_timerq w)\<rparr>
           in (if t = tmr_stop then timer_suspend sys w1 else w1, 1)))"

lemma process_first_law: "process_law conf list_timerq set h (process_first sys)"
proof -
  have "tm_step conf list_timerq set h w (fst (process_first sys now w))"
    if "w_timerq w = t # q" for now t q and w :: "('a, 'b, nat list) worker"
  proof -
    have m: "t \<in> set (w_timerq w)" using that by simp
    show ?thesis
      using tm_step.expire [of t set w conf list_timerq h] m
        tm_step.suspend [of set w conf list_timerq h sys]
      by (auto simp: process_first_def that list_timerq_def Let_def)
  qed
  then show ?thesis
    by (auto simp: process_law_def process_first_def split: list.split)
qed

definition worker_zero :: "(nat, nat list, nat list) worker" where
  "worker_zero = \<lparr>w_initialized = False, w_th = None, w_tid = 0, w_kq = kq_example, w_njobs = 0,
     w_tq = \<lparr>tq_tasks = [], tq_handler = \<lambda>_. (0, None)\<rparr>,
     w_kq_tq = \<lparr>kt_kqpost = False, kt_active = False, kt_sig = False\<rparr>, w_timerq = [],
     w_kq_timer = \<lparr>kt_timer = None, kt_kev = kev_zero\<rparr>, w_now_msec = 0\<rparr>"

definition sys_good :: wrk_sys where
  "sys_good = \<lparr>ws_kq = \<lparr>sys_kq = Some 3, sys_post = Some 4, sys_kevs = Some 5, sys_events = Some 6\<rparr>,
     ws_tq_attach = True, ws_timer = Some 7, ws_thread = Some 8, ws_now_msec = 1000,
     ws_timer_start = (\<lambda>_ _. 0), ws_timer_stop = (\<lambda>_. 0)\<rparr>"

abbreviation "conf_good \<equiv>
  \<lparr>wc_workers = 2, wc_max_tasks = 10, wc_timer_interval_msec = 100, wc_run_detach = False\<rparr>"


text \<open>
  A failed start of the kernel timer is not recovered from. \<open>zzkq_timer_start\<close> sets
  the active mark before the system call, so after a failure \<open>wrk_timer\<close> drops the requested
  timer, and every later request takes the kernel timer for running: its outcome does not
  depend on \<open>fftimer_start\<close> at all, and the timer is queued without anything to expire it.
\<close>

theorem wrk_timer_start_failure_sticks:
  assumes "timerq_law T items" and "iv \<noteq> 0" and "iv2 \<noteq> 0"
    and "\<not> zzkq_timer_active (w_kq_timer w)"
    and "ws_timer_start sys (kt_timer (w_kq_timer w)) (wc_timer_interval_msec conf) \<noteq> 0"
    and "w1 = wrk_timer sys conf T h w t iv"
  shows "items (w_timerq w1) = items (w_timerq w) - {tmr_stop}
    \<and> wrk_timer (sys2\<lparr>ws_timer_start := st\<rparr>) conf T h w1 t2 iv2
         = wrk_timer sys2 conf T h w1 t2 iv2
    \<and> t2 \<in> items (w_timerq (wrk_timer sys2 conf T h w1 t2 iv2))"
  using assms timerq_lawD [OF assms(1)]
  by (simp_all add: wrk_timer_def zzkq_timer_start_def zzkq_timer_active_def Let_def)

theorem wrk_timer_start_failure_sticks_witness:
  "2 \<in> set (w_timerq (wrk_timer sys_good conf_good list_timerq 9
      (wrk_timer (sys_good\<lparr>ws_timer_start := \<lambda>_ _. -1\<rparr>) conf_good list_timerq 9 worker_zero 1 100) 2 100))"
  by (rule wrk_timer_start_failure_sticks
      [where w = worker_zero and iv = 100 and t = 1 and sys = "sys_good\<lparr>ws_timer_start := \<lambda>_ _. -1\<rparr>",
       OF list_timerq_law _ _ _ _ refl, THEN conjunct2, THEN conjunct2])
    (simp_all add: zzkq_timer_active_def worker_zero_def kev_zero_def)

section \<open>Assignment of jobs\<close>

definition wx_jobs :: "('f, 'l, 'q) wrk_ctx \<Rightarrow> nat \<Rightarrow> u64" where
  "wx_jobs wx j = w_njobs (wx_workers wx ! j)"

text \<open>There is a main worker, and workers that are not active have no job.\<close>
definition wx_inv :: "('f, 'l, 'q) wrk_ctx \<Rightarrow> bool" where
  "wx_inv wx \<longleftrightarrow> 0 < wx_len wx \<and> wx_len wx \<le> length (wx_workers wx)
     \<and> (\<forall>j. wx_len wx \<le> j \<longrightarrow> j < length (wx_workers wx) \<longrightarrow> wx_jobs wx j = 0)"

lemma find_min_spec:
  assumes "find_min i jm w ws = (r, m)"
  shows "m \<le> jm \<and> (\<forall>x \<in> set ws. m \<le> ucast (w_njobs x))
    \<and> (m = jm \<and> r = w \<or> m < jm \<and> (\<exists>k < length ws. r = Some (i + k) \<and> m = ucast (w_njobs (ws ! k))))"
  using assms
proof (induction i jm w ws rule: find_min.induct)
  case (2 i jm w it its)
  let ?nj = "ucast (w_njobs it) :: u32"
  consider (zero) "?nj < jm" "?nj = 0" | (less) "?nj < jm" "?nj \<noteq> 0" | (ge) "\<not> ?nj < jm" by blast
  then show ?case
  proof cases
    case zero
    with 2 show ?thesis by (auto simp: Let_def intro!: exI [of _ 0])
  next
    case less
    then have r: "find_min (Suc i) ?nj (Some i) its = (r, m)" using 2(3) by (simp add: Let_def)
    note IH = 2(1) [OF refl less r]
    then consider "m = ?nj" "r = Some i"
      | k where "m < ?nj" "k < length its" "r = Some (Suc i + k)" "m = ucast (w_njobs (its ! k))" by blast
    then show ?thesis
    proof cases
      case 1
      with IH less show ?thesis by (auto intro!: exI [of _ 0])
    next
      case (2 k)
      with IH less show ?thesis by (auto intro!: exI [of _ "Suc k"])
    qed
  next
    case ge
    then have r: "find_min (Suc i) jm w its = (r, m)" using 2(3) by (simp add: Let_def)
    note IH = 2(2) [OF refl ge r]
    then consider "m = jm" "r = w"
      | k where "m < jm" "k < length its" "r = Some (Suc i + k)" "m = ucast (w_njobs (its ! k))" by blast
    then show ?thesis
    proof cases
      case 1
      with IH ge show ?thesis by auto
    next
      case (2 k)
      with IH ge show ?thesis by (auto intro!: exI [of _ "Suc k"])
    qed
  qed
qed auto

lemma on_timer_empty:
  assumes "process_law conf T items h process" and "items (w_timerq w) = {}"
  shows "on_timer sys T process w = w\<lparr>w_now_msec := ws_now_msec sys\<rparr>"
  using assms by (auto simp: on_timer_def process_law_def)

lemma wrk_create_njobs:
  assumes "timerq_law T items" and "process_law conf T items h process"
  shows "w_njobs (fst (wrk_create sys conf L T process w)) = w_njobs w"
  using timerq_lawD(1) [OF assms(1)]
  by (auto simp: wrk_create_def Let_def on_timer_empty [OF assms(2)])

lemma wrk_start_njobs: "w_njobs (fst (wrk_start sys w)) = w_njobs w"
  by (simp add: wrk_start_def Let_def)

lemma wrk_destroy_njobs: "w_njobs (wrk_destroy w) = w_njobs w"
  by (simp add: wrk_destroy_def Let_def)

lemma wrkx_grow_spec:
  assumes "timerq_law T items" and "process_law conf T items h process"
    and "wx_inv wx" and "wx_len wx < length (wx_workers wx)"
    and "wrkx_grow sys conf L T process wx = (wx', i)"
  shows "length (wx_workers wx') = length (wx_workers wx) \<and> wx_jobs wx' j = wx_jobs wx j
    \<and> (i = wx_len wx \<and> wx_len wx' = Suc (wx_len wx) \<or> i = 0 \<and> wx_len wx' = wx_len wx)"
  using assms(3-5)
  by (cases "j = wx_len wx")
    (auto simp: wrkx_grow_def Let_def wx_jobs_def wrk_create_njobs [OF assms(1,2)]
        wrk_start_njobs wrk_destroy_njobs split: if_splits)

lemma sint_u32_nonneg: "unat (x :: u32) < 2 ^ 31 \<Longrightarrow> \<not> sint x < 0"
proof -
  assume a: "unat x < 2 ^ 31"
  have "uint x = int (unat x)" by simp
  also have "\<dots> < int (2 ^ 31)" using a by (simp only: of_nat_less_iff)
  finally have "uint x < 2 ^ 31" by simp
  then have "sint x = uint x"
    by (simp add: sint_uint signed_take_bit_int_eq_self_iff order_trans [OF _ uint_ge_0])
  then show ?thesis by simp
qed

lemma ucast_u32_small: "unat (x :: u64) < 2 ^ 32 \<Longrightarrow> unat (ucast x :: u32) = unat x"
  by (simp add: unsigned_ucast_eq take_bit_nat_eq_self)

lemma wx_active_nth:
  "wx_inv wx \<Longrightarrow> j < wx_len wx \<Longrightarrow> w_njobs (wx_active wx ! j) = wx_jobs wx j \<and> wx_active wx ! j \<in> set (wx_active wx)"
  by (auto simp: wx_active_def wx_jobs_def wx_inv_def in_set_conv_nth intro!: exI [of _ j])

lemma wx_active_length: "wx_inv wx \<Longrightarrow> length (wx_active wx) = wx_len wx"
  by (simp add: wx_active_def wx_inv_def)

lemma find_min_active:
  assumes inv: "wx_inv wx" and small: "\<And>j. j < wx_len wx \<Longrightarrow> unat (wx_jobs wx j) < 2 ^ 32 - 1"
    and r: "find_min 0 (-1) None (wx_active wx) = (w, m)"
  shows "\<exists>k < wx_len wx. w = Some k \<and> unat m = unat (wx_jobs wx k)
           \<and> (\<forall>j < wx_len wx. wx_jobs wx k \<le> wx_jobs wx j)"
proof -
  note S = find_min_spec [OF r] and len = wx_active_length [OF inv]
  have uc: "unat (ucast (wx_jobs wx j) :: u32) = unat (wx_jobs wx j)" if "j < wx_len wx" for j
    using small [OF that] by (intro ucast_u32_small) simp
  have le: "unat m \<le> unat (wx_jobs wx j)" if "j < wx_len wx" for j
    using S wx_active_nth [OF inv that] uc [OF that] unfolding word_le_nat_alt by metis
  have "m \<noteq> -1"
  proof
    assume "m = -1"
    then have "unat m = 2 ^ 32 - 1" by (simp add: unsigned_minus_1_eq_mask mask_eq_exp_minus_1)
    with le [of 0] small [of 0] inv show False by (simp add: wx_inv_def)
  qed
  with S len obtain k where k: "k < wx_len wx" "w = Some k" "m = ucast (w_njobs (wx_active wx ! k))"
    by auto
  then have "unat m = unat (wx_jobs wx k)" using uc [OF k(1)] wx_active_nth [OF inv k(1)] by simp
  with k le show ?thesis by (auto simp: word_le_nat_alt)
qed

lemma wrkx_pick_spec:
  assumes law: "timerq_law T items" "process_law conf T items h process" and inv: "wx_inv wx"
    and small: "\<And>j. j < wx_len wx \<Longrightarrow> unat (wx_jobs wx j) < 2 ^ 32 - 1"
  obtains wx1 wid where "wrkx_pick sys conf L T process wx flags = (wx1, Some wid)"
    "length (wx_workers wx1) = length (wx_workers wx)" "wx_jobs wx1 = wx_jobs wx" "wx_inv wx1"
    "wid < wx_len wx1" "wx_len wx \<le> wx_len wx1"
    "flags \<noteq> 0 \<Longrightarrow> (\<forall>j < wx_len wx. wx_jobs wx wid \<le> wx_jobs wx j)
       \<or> wid = 0 \<and> wx_len wx1 = wx_len wx \<and> wx_len wx < length (wx_workers wx)"
proof -
  obtain w m where f: "find_min 0 (-1) None (wx_active wx) = (w, m)" by fastforce
  from find_min_active [OF inv small f] obtain k where k: "k < wx_len wx" "w = Some k"
    "\<forall>j < wx_len wx. wx_jobs wx k \<le> wx_jobs wx j" by auto
  consider (main) "flags = 0" | (grow) "flags \<noteq> 0" "m \<noteq> 0" "wx_len wx < length (wx_workers wx)"
    | (found) "flags \<noteq> 0" "\<not> (m \<noteq> 0 \<and> wx_len wx < length (wx_workers wx))" by blast
  then show thesis
  proof cases
    case main
    then show thesis using inv by (intro that [of wx 0]) (simp_all add: wrkx_pick_def wx_inv_def)
  next
    case found
    then show thesis using inv f k by (intro that [of wx k]) (auto simp: wrkx_pick_def)
  next
    case grow
    obtain wx1 i where g: "wrkx_grow sys conf L T process wx = (wx1, i)" by fastforce
    note G = wrkx_grow_spec [OF law inv grow(3) g]
    then have jobs: "wx_jobs wx1 = wx_jobs wx" by (simp add: fun_eq_iff)
    have "wx_jobs wx (wx_len wx) = 0" using inv grow(3) by (simp add: wx_inv_def)
    then show thesis using inv f grow g G jobs
      by (intro that [of wx1 i]) (auto simp: wrkx_pick_def wx_inv_def)
  qed
qed

text \<open>
  \<open>wrkx_assign\<close> balances the load. It always returns an active worker and counts
  one more job on that worker and on no other. The main worker is chosen when parallel
  execution is not requested; otherwise the chosen worker has the fewest jobs among all active
  workers, a worker activated from the pool included, except that the main worker takes the job
  when a worker of the pool could not be started.
\<close>

theorem wrkx_assign_least_busy:
  assumes "timerq_law T items" and "process_law conf T items h process" and "wx_inv wx"
    and "\<And>j. j < wx_len wx \<Longrightarrow> unat (wx_jobs wx j) < 2 ^ 32 - 1"
  shows "\<exists>wx' wid. wrkx_assign sys conf L T process wx flags = Some (wx', wid)
    \<and> wid < wx_len wx' \<and> wx_jobs wx' wid = wx_jobs wx wid + 1
    \<and> (\<forall>j. j \<noteq> wid \<longrightarrow> wx_jobs wx' j = wx_jobs wx j)
    \<and> (flags = 0 \<longrightarrow> wid = 0)
    \<and> (flags \<noteq> 0 \<longrightarrow> (\<forall>j < wx_len wx. wx_jobs wx wid \<le> wx_jobs wx j)
         \<or> wid = 0 \<and> wx_len wx' = wx_len wx \<and> wx_len wx < length (wx_workers wx))"
proof -
  from wrkx_pick_spec [OF assms, of sys L flags] obtain wx1 wid where
    P: "wrkx_pick sys conf L T process wx flags = (wx1, Some wid)"
      "wx_jobs wx1 = wx_jobs wx" "wx_inv wx1" "wid < wx_len wx1"
      "flags \<noteq> 0 \<Longrightarrow> (\<forall>j < wx_len wx. wx_jobs wx wid \<le> wx_jobs wx j)
         \<or> wid = 0 \<and> wx_len wx1 = wx_len wx \<and> wx_len wx < length (wx_workers wx)" by metis
  have lt: "wid < length (wx_workers wx1)" using P by (simp add: wx_inv_def)
  have z: "flags = 0 \<Longrightarrow> wid = 0" using P(1) by (simp add: wrkx_pick_def)
  have J: "w_njobs (wx_workers wx1 ! j) = wx_jobs wx j" for j using P(2) by (simp add: wx_jobs_def fun_eq_iff)
  show ?thesis using P lt z J by (auto simp: wrkx_assign_def wx_jobs_def)
qed

definition wx_example :: "(nat, nat list, nat list) wrk_ctx" where
  "wx_example = \<lparr>wx_workers = [worker_zero\<lparr>w_njobs := 2\<rparr>, worker_zero\<lparr>w_njobs := 1\<rparr>], wx_len = 2\<rparr>"

lemma wx_example_inv: "wx_inv wx_example"
  by (simp add: wx_inv_def wx_example_def)

lemma wx_example_jobs: "j < wx_len wx_example \<Longrightarrow> wx_jobs wx_example j = (if j = 0 then 2 else 1)"
  by (auto simp: wx_example_def wx_jobs_def less_2_cases_iff)

theorem wrkx_assign_least_busy_witness:
  "\<exists>wx' wid. wrkx_assign sys_good conf_good list_fflist list_timerq (process_first sys_good) wx_example 1
     = Some (wx', wid) \<and> wid = 1 \<and> wx_jobs wx' 1 = 2"
proof -
  have "\<And>j. j < wx_len wx_example \<Longrightarrow> unat (wx_jobs wx_example j) < 2 ^ 32 - 1"
    by (simp add: wx_example_jobs)
  from wrkx_assign_least_busy [where sys = sys_good and L = list_fflist and flags = 1 and conf = conf_good,
      OF list_timerq_law process_first_law [where sys = sys_good] wx_example_inv this]
  obtain wx' wid where a: "wrkx_assign sys_good conf_good list_fflist list_timerq (process_first sys_good) wx_example 1
     = Some (wx', wid)" and j: "wx_jobs wx' wid = wx_jobs wx_example wid + 1"
    and m: "(\<forall>j < 2. wx_jobs wx_example wid \<le> wx_jobs wx_example j)
      \<or> wid = 0 \<and> wx_len wx' = 2 \<and> (2 :: nat) < 2"
    by (auto simp: wx_example_def)
  have "wid = 1" "wx_jobs wx_example 1 = 1"
    using a by (auto simp: wrkx_assign_def wrkx_pick_def wx_active_def wx_jobs_def wx_example_def
        worker_zero_def)
  with a j show ?thesis by auto
qed

section \<open>Every job is counted once\<close>

text \<open>
  A history of the pool: the jobs that are held are recorded beside the pool, each with the
  worker it was assigned to; a job that is held is released on its worker.
\<close>
datatype wx_op = WAssign wrk_sys u32 | WRelease nat

fun wx_exec ::
    "wrk_conf \<Rightarrow> 'l fflist \<Rightarrow> 'q timerq \<Rightarrow> (u32 \<Rightarrow> ('f, 'l, 'q) worker \<Rightarrow> ('f, 'l, 'q) worker \<times> u32)
     \<Rightarrow> wx_op \<Rightarrow> (('f, 'l, 'q) wrk_ctx \<times> nat list) option \<Rightarrow> (('f, 'l, 'q) wrk_ctx \<times> nat list) option" where
  "wx_exec conf L T process op None = None"
| "wx_exec conf L T process (WAssign sys flags) (Some (wx, held)) =
     map_option (\<lambda>(wx', wid). (wx', wid # held)) (wrkx_assign sys conf L T process wx flags)"
| "wx_exec conf L T process (WRelease wid) (Some (wx, held)) =
     map_option (\<lambda>wx'. (wx', remove1 wid held)) (wrkx_release wx wid)"

fun wx_ok :: "wx_op \<Rightarrow> (('f, 'l, 'q) wrk_ctx \<times> nat list) option \<Rightarrow> bool" where
  "wx_ok (WAssign sys flags) s \<longleftrightarrow> (\<forall>wx held. s = Some (wx, held) \<longrightarrow> length held < 2 ^ 31 - 1)"
| "wx_ok (WRelease wid) s \<longleftrightarrow> (\<forall>wx held. s = Some (wx, held) \<longrightarrow> wid \<in> set held)"

definition wx_held :: "('f, 'l, 'q) wrk_ctx \<Rightarrow> nat list \<Rightarrow> bool" where
  "wx_held wx held \<longleftrightarrow> wx_inv wx \<and> length held < 2 ^ 31 \<and> set held \<subseteq> {..<wx_len wx}
     \<and> (\<forall>j < length (wx_workers wx). unat (wx_jobs wx j) = count_list held j)"

lemma count_list_remove1: "count_list (remove1 y xs) x = count_list xs x - (if x = y then 1 else 0)"
  by (induction xs) (auto simp: count_list_0_iff)

lemma wx_held_small: "wx_held wx held \<Longrightarrow> j < wx_len wx \<Longrightarrow> unat (wx_jobs wx j) < 2 ^ 31"
  using count_le_length [of held j] by (auto simp: wx_held_def wx_inv_def)

lemma wx_assign_held:
  assumes law: "timerq_law T items" "process_law conf T items h process"
    and held: "wx_held wx held" and n: "length held < 2 ^ 31 - 1"
  shows "\<exists>wx' wid. wrkx_assign sys conf L T process wx flags = Some (wx', wid) \<and> wx_held wx' (wid # held)"
proof -
  have inv: "wx_inv wx" using held by (simp add: wx_held_def)
  have "\<And>j. j < wx_len wx \<Longrightarrow> unat (wx_jobs wx j) < 2 ^ 32 - 1"
    using wx_held_small [OF held] by fastforce
  from wrkx_pick_spec [OF law inv this, of sys L flags] obtain wx1 wid where
    P: "wrkx_pick sys conf L T process wx flags = (wx1, Some wid)"
      "length (wx_workers wx1) = length (wx_workers wx)"
      "wx_jobs wx1 = wx_jobs wx" "wx_inv wx1" "wid < wx_len wx1" "wx_len wx \<le> wx_len wx1" by metis
  have lt: "wid < length (wx_workers wx1)" using P by (simp add: wx_inv_def)
  have J: "w_njobs (wx_workers wx1 ! j) = wx_jobs wx j" for j using P(3) by (simp add: wx_jobs_def fun_eq_iff)
  have c: "unat (wx_jobs wx wid) = count_list held wid" using held lt P(2) by (simp add: wx_held_def)
  then have "unat (wx_jobs wx wid) + unat (1 :: u64) < 2 ^ LENGTH(64)"
    using count_le_length [of held wid] n by simp
  then have inc: "unat (wx_jobs wx wid + 1) = count_list held wid + 1"
    using c by (subst unat_add_small) simp_all
  let ?wx' = "wx1\<lparr>wx_workers := (wx_workers wx1)[wid := (wx_workers wx1 ! wid)
                     \<lparr>w_njobs := w_njobs (wx_workers wx1 ! wid) + 1\<rparr>]\<rparr>"
  have "wx_held ?wx' (wid # held)"
    using held P lt J inc n
    by (auto simp: wx_held_def wx_inv_def wx_jobs_def nth_list_update less_le_trans)
  then show ?thesis using P(1) by (simp add: wrkx_assign_def)
qed

lemma wx_release_held:
  assumes held: "wx_held wx held" and wid: "wid \<in> set held"
  shows "\<exists>wx'. wrkx_release wx wid = Some wx' \<and> wx_held wx' (remove1 wid held)"
proof -
  have lt: "wid < length (wx_workers wx)" "wid < wx_len wx"
    using held wid by (auto simp: wx_held_def wx_inv_def)
  then have c: "unat (wx_jobs wx wid) = count_list held wid" using held by (simp add: wx_held_def)
  have pos: "0 < count_list held wid" using wid by (metis count_list_0_iff gr0I)
  have dec: "unat (wx_jobs wx wid - 1) = count_list held wid - 1"
    using c pos by (subst unat_diff_le) (simp_all add: word_le_nat_alt)
  then have small: "unat (wx_jobs wx wid - 1) < 2 ^ 31"
    using wx_held_small [OF held lt(2)] c by simp
  then have "unat (ucast (wx_jobs wx wid - 1) :: u32) < 2 ^ 31"
    by (subst ucast_u32_small) simp_all
  then have "\<not> sint (ucast (wx_jobs wx wid - 1) :: u32) < 0"
    by (rule sint_u32_nonneg)
  moreover have "set (remove1 wid held) \<subseteq> set held" by (rule set_remove1_subset)
  ultimately show ?thesis using held lt dec
    by (auto simp: wrkx_release_def Let_def wx_held_def wx_inv_def wx_jobs_def nth_list_update
        count_list_remove1 length_remove1)
qed

interpretation wx: op_invariant
  "\<lambda>s. timerq_law T items \<and> process_law conf T items h process
     \<and> (\<exists>wx held. s = Some (wx, held) \<and> wx_held wx held)"
  wx_ok "wx_exec conf L T process"
proof (unfold_locales, goal_cases)
  case (1 s op)
  then obtain wx held where s: "s = Some (wx, held)" "wx_held wx held" by blast
  show ?case
  proof (cases op)
    case (WAssign sys flags)
    then show ?thesis using 1 s wx_assign_held [of T items conf h process wx held sys L flags] by auto
  next
    case (WRelease wid)
    then show ?thesis using 1 s wx_release_held [of wx held wid] by auto
  qed
qed

text \<open>
  Property C9: the job counters of the workers are exact. In every history of assignments and
  releases in which only held jobs are released, no call faults and no assertion fails, and the
  counter of each worker is the number of jobs it holds; when all jobs are released every
  counter is zero again.
\<close>

theorem wrkx_jobs_balanced:
  assumes "timerq_law T items" and "process_law conf T items h process" and "wx_inv wx"
    and "\<forall>j < length (wx_workers wx). wx_jobs wx j = 0"
    and "ops_ok wx_ok (wx_exec conf L T process) ops (Some (wx, []))"
  shows "\<exists>wx' held. fold (wx_exec conf L T process) ops (Some (wx, [])) = Some (wx', held)
    \<and> (\<forall>j < length (wx_workers wx'). unat (wx_jobs wx' j) = count_list held j)"
proof -
  have "wx_held wx []" using assms by (simp add: wx_held_def)
  then show ?thesis
    using wx.run_inv [of T items conf h process "Some (wx, [])" L ops] assms
    by (auto simp: wx_held_def)
qed

definition wx_example0 :: "(nat, nat list, nat list) wrk_ctx" where
  "wx_example0 = \<lparr>wx_workers = [worker_zero, worker_zero], wx_len = 2\<rparr>"

theorem wrkx_jobs_balanced_witness:
  "\<exists>wx' held. fold (wx_exec conf_good list_fflist list_timerq (process_first sys_good))
       [WAssign sys_good 1, WAssign sys_good 1, WRelease 0] (Some (wx_example0, [])) = Some (wx', held)
    \<and> (\<forall>j < length (wx_workers wx'). unat (wx_jobs wx' j) = count_list held j)"
proof (rule wrkx_jobs_balanced [OF list_timerq_law process_first_law])
  show "wx_inv wx_example0" by (simp add: wx_inv_def wx_example0_def)
  show "\<forall>j < length (wx_workers wx_example0). wx_jobs wx_example0 j = 0"
    by (simp add: wx_example0_def wx_jobs_def worker_zero_def less_Suc_eq all_conj_distrib)
  have "(0 :: u32) < -1" by (simp add: word_gt_0)
  then show "ops_ok wx_ok (wx_exec conf_good list_fflist list_timerq (process_first sys_good))
       [WAssign sys_good 1, WAssign sys_good 1, WRelease 0] (Some (wx_example0, []))"
    by (simp add: wx_example0_def worker_zero_def wrkx_assign_def wrkx_pick_def wx_active_def)
qed

end
