(* ===== verification/Conveyor.thy ===== *)
theory Conveyor
  imports Track_Types
begin

text \<open>
  \<open>src/core/track.c\<close>: tracks, their chain of filters (the conveyor) and the loop that drives
  data through it.

  The interfaces of the filters are found by name in a table \<open>phi_filters\<close>; their functions
  see the track and the rest of the program, of type \<open>'w\<close>, and return both updated. What a
  filter may do to the conveyor of its track is stated by \<open>filter_law\<close>. The services of
  the core the loop calls are the record \<open>trk_core\<close>. \<open>None\<close> as the result of \<open>process\<close> is a
  number outside \<open>enum PHI_R\<close>.
\<close>

section \<open>Interfaces\<close>

record 'w phi_filter =
  pf_open :: "(phi_track \<times> 'w \<Rightarrow> phi_open \<times> phi_track \<times> 'w) option"
  pf_close :: "(nat \<Rightarrow> phi_track \<times> 'w \<Rightarrow> phi_track \<times> 'w) option"
  pf_process :: "nat \<Rightarrow> phi_track \<times> 'w \<Rightarrow> phi_r option \<times> phi_track \<times> 'w"

type_synonym 'w phi_filters = "string \<Rightarrow> 'w phi_filter"

record 'w trk_core =
  core_time :: "'w \<Rightarrow> fftime"
  time_sub :: "fftime \<Rightarrow> fftime \<Rightarrow> fftime"
  time_add :: "fftime \<Rightarrow> fftime \<Rightarrow> fftime"
  core_task_add :: "nat \<Rightarrow> nat \<Rightarrow> 'w \<Rightarrow> 'w"          \<comment> \<open>worker, track: post \<open>track_run\<close>\<close>
  core_task_del :: "nat \<Rightarrow> nat \<Rightarrow> 'w \<Rightarrow> 'w"
  worker_assign :: "bool \<Rightarrow> 'w \<Rightarrow> nat \<times> 'w"
  worker_release :: "nat \<Rightarrow> 'w \<Rightarrow> 'w"

section \<open>The conveyor\<close>

text \<open>The object of a filter without \<open>open\<close>: \<open>(void*)-1\<close>.\<close>
definition OBJ_NONE :: nat where "OBJ_NONE = 2 ^ 64 - 1"

definition conveyor_init :: "phi_conveyor \<Rightarrow> phi_conveyor" where
  "conveyor_init v = v\<lparr>v_cur := -1\<rparr>"

definition set_pool :: "nat \<Rightarrow> (filter \<Rightarrow> filter) \<Rightarrow> phi_conveyor \<Rightarrow> phi_conveyor" where
  "set_pool i g v = v\<lparr>filters_pool := (filters_pool v)[i := g (filters_pool v ! i)]\<rparr>"

abbreviation upd_conv :: "(phi_conveyor \<Rightarrow> phi_conveyor) \<Rightarrow> phi_track \<Rightarrow> phi_track" where
  "upd_conv g t \<equiv> t\<lparr>t_conveyor := g (t_conveyor t)\<rparr>"

text \<open>The body of the loop of \<open>conveyor_close\<close> for one slot of the pool.\<close>
definition conveyor_close1 :: "'w phi_filters \<Rightarrow> nat \<Rightarrow> phi_track \<times> 'w \<Rightarrow> phi_track \<times> 'w" where
  "conveyor_close1 F i = (\<lambda>(t, w).
     case f_obj (filters_pool (t_conveyor t) ! i) of
       None \<Rightarrow> (t, w)
     | Some ob \<Rightarrow>
         (let s1 = (case pf_close (F (f_iface (filters_pool (t_conveyor t) ! i))) of
                      None \<Rightarrow> (t, w)
                    | Some close \<Rightarrow>
                        close ob (upd_conv (\<lambda>v. v\<lparr>filters := (case filters v of [] \<Rightarrow> [] | _ # r \<Rightarrow> i # r), v_cur := 0\<rparr>) t, w))
          in (upd_conv (set_pool i (\<lambda>f. f\<lparr>f_obj := None\<rparr>)) (fst s1), snd s1)))"

definition conveyor_close :: "'w phi_filters \<Rightarrow> phi_track \<times> 'w \<Rightarrow> phi_track \<times> 'w" where
  "conveyor_close F s = fold (conveyor_close1 F) (rev [0..<MAX_FILTERS]) s"

text \<open>\<open>trk_filter_add\<close>: the index within the chain, or -1.\<close>
definition trk_filter_add :: "phi_conveyor \<Rightarrow> string \<Rightarrow> u32 \<Rightarrow> phi_conveyor \<times> int" where
  "trk_filter_add v iface pos =
     (if i_fpool v = MAX_FILTERS then (v, -1)
      else
        (let i = i_fpool v;
             v1 = set_pool i (\<lambda>f. f\<lparr>f_iface := iface\<rparr>) (v\<lparr>i_fpool := i + 1\<rparr>);
             n = length (filters v) + 1
         in if sint pos < 0 \<or> unat (pos + 1) = n
            then (v1\<lparr>filters := filters v @ [i]\<rparr>, int n - 1)
            else (v1\<lparr>filters := take (unat pos) (filters v) @ i # drop (unat pos) (filters v)\<rparr>,
                  uint pos)))"

text \<open>\<open>prev\<close>: \<open>flags == PHI_TF_PREV\<close>; a null filter is \<open>None\<close>.\<close>
definition track_filter :: "phi_conveyor \<Rightarrow> string option \<Rightarrow> bool \<Rightarrow> phi_conveyor \<times> int" where
  "track_filter v f prev =
     (case f of
        None \<Rightarrow> (v, 0)
      | Some iface \<Rightarrow>
          (let pos = (if v_cur v = -1 then -1 else if prev then v_cur v else v_cur v + 1)
           in case trk_filter_add v iface pos of (v1, r) \<Rightarrow>
                (if prev \<and> word_of_int r = v_cur v1 \<and> r \<ge> 0 then v1\<lparr>v_cur := v_cur v1 + 1\<rparr> else v1, r + 1)))"

text \<open>The call \<open>core->track->filter(t, f, 0)\<close> of a filter; whether it succeeded.\<close>
definition track_add :: "string option \<Rightarrow> phi_track \<Rightarrow> phi_track \<times> bool" where
  "track_add f t = (case track_filter (t_conveyor t) f False of (v, r) \<Rightarrow> (t\<lparr>t_conveyor := v\<rparr>, r \<noteq> 0))"

section \<open>Running one filter\<close>

text \<open>The first test: a filter that returned \<open>PHI_OK\<close> is passed over once on the way back.\<close>
definition filter_unskip :: "nat \<Rightarrow> phi_track \<Rightarrow> phi_track" where
  "filter_unskip i t =
     (if f_backward_skip (filters_pool (t_conveyor t) ! i)
      then upd_conv (set_pool i (\<lambda>f. f\<lparr>f_backward_skip := False\<rparr>)) t else t)"

definition filter_first_flag :: "phi_track \<Rightarrow> phi_track" where
  "filter_first_flag t =
     (let fl = t_chain_flags t AND NOT PHI_FFIRST
      in t\<lparr>t_chain_flags := (if v_cur (t_conveyor t) = 0 then fl OR PHI_FFIRST else fl)\<rparr>)"

text \<open>The object of the filter: opened now when the filter has none yet.\<close>
definition filter_open ::
    "'w phi_filters \<Rightarrow> filter \<Rightarrow> phi_track \<times> 'w \<Rightarrow> phi_open \<times> phi_track \<times> 'w" where
  "filter_open F f s =
     (case f_obj f of
        Some ob \<Rightarrow> (OpenObj ob, s)
      | None \<Rightarrow>
          (case pf_open (F (f_iface f)) of None \<Rightarrow> (OpenObj OBJ_NONE, s) | Some opn \<Rightarrow> opn s))"

definition trk_filter_run ::
    "'w phi_filters \<Rightarrow> nat \<Rightarrow> phi_track \<times> 'w \<Rightarrow> phi_r option \<times> phi_track \<times> 'w" where
  "trk_filter_run F i s =
     (let f = filters_pool (t_conveyor (fst s)) ! i; t1 = filter_unskip i (fst s) in
      if f_backward_skip f \<and> v_cur (t_conveyor t1) \<noteq> 0 then (Some PHI_MORE, t1, snd s)
      else
        (case filter_open F f (filter_first_flag t1, snd s) of
           (OpenErr, t3, w3) \<Rightarrow> (Some PHI_ERR, t3, w3)
         | (OpenSkip, t3, w3) \<Rightarrow> (Some PHI_DONE, t3\<lparr>t_data_out := t_data_in t3\<rparr>, w3)
         | (OpenObj ob, t3, w3) \<Rightarrow>
             pf_process (F (f_iface f)) ob
               (upd_conv (set_pool i (\<lambda>f. f\<lparr>f_obj := Some ob\<rparr>)) t3, w3)))"

text \<open>The label \<open>go_fwd\<close>.\<close>
definition go_fwd :: "phi_conveyor \<Rightarrow> phi_conveyor \<times> phi_r" where
  "go_fwd v = (if unat (v_cur v + 1) = length (filters v) then (v, PHI_MORE)
               else (v\<lparr>v_cur := v_cur v + 1\<rparr>, PHI_DATA))"

definition trk_filter_handle_result :: "nat \<Rightarrow> phi_r option \<Rightarrow> phi_conveyor \<Rightarrow> phi_conveyor \<times> phi_r" where
  "trk_filter_handle_result i r v =
     (case r of
        Some PHI_DONE \<Rightarrow>
          (let c = unat (v_cur v);
               v1 = v\<lparr>filters := take c (filters v) @ drop (c + 1) (filters v), v_cur := v_cur v - 1\<rparr>
           in if filters v1 = [] then (v1, PHI_FIN) else go_fwd v1)
      | Some PHI_LASTOUT \<Rightarrow>
          (let v1 = v\<lparr>filters := drop (unat (v_cur v + 1)) (filters v), v_cur := -1\<rparr>
           in if filters v1 = [] then (v1, PHI_FIN) else go_fwd v1)
      | Some PHI_OK \<Rightarrow> go_fwd (set_pool i (\<lambda>f. f\<lparr>f_backward_skip := True\<rparr>) v)
      | Some PHI_DATA \<Rightarrow> go_fwd v
      | Some PHI_MORE \<Rightarrow> if v_cur v = 0 then (v, PHI_ERR) else (v\<lparr>v_cur := v_cur v - 1\<rparr>, PHI_MORE)
      | Some PHI_BACK \<Rightarrow> if v_cur v = 0 then (v, PHI_ERR) else (v\<lparr>v_cur := v_cur v - 1\<rparr>, PHI_BACK)
      | Some PHI_ASYNC \<Rightarrow> (v, PHI_ASYNC)
      | Some PHI_FIN \<Rightarrow> (v, PHI_FIN)
      | Some PHI_ERR \<Rightarrow> (v, PHI_ERR)
      | None \<Rightarrow> (v, PHI_ERR))"

section \<open>The loop\<close>

text \<open>
  How a call of \<open>track_run\<close> ends: the track waits for \<open>wake\<close>, it has finished and waits for
  \<open>stop\<close>, it has been closed and freed; \<open>TrkFault\<close> is an access outside the chain and
  \<open>TrkFuel\<close> a loop that has not ended.
\<close>
datatype 'w trk_end =
    TrkAsync phi_track 'w | TrkFinished phi_track 'w | TrkClosed 'w | TrkFault | TrkFuel

text \<open>
  \<open>track_close\<close>; \<open>adr\<close> is the address of the track. The track leaves the list of tracks when it
  is linked; \<open>unlink\<close> is that list operation.
\<close>
definition track_close ::
    "'w phi_filters \<Rightarrow> 'w trk_core \<Rightarrow> (nat \<Rightarrow> 'w \<Rightarrow> 'w) \<Rightarrow> nat \<Rightarrow> phi_track \<times> 'w \<Rightarrow> 'w" where
  "track_close F C unlink adr s0 =
     (let (t, w) = s0;
          w1 = core_task_del C (t_worker t) adr w;
          w2 = worker_release C (t_worker t) w1;
          w3 = (if t_sib t then unlink adr w2 else w2)
      in snd (conveyor_close F (t\<lparr>t_sib := False\<rparr>, w3)))"

definition stop_poll :: "phi_track \<Rightarrow> phi_track" where
  "stop_poll t =
     (if t_state t = ST_STOP
      then t\<lparr>t_state := ST_STOPPING, t_chain_flags := t_chain_flags t OR PHI_FSTOP\<rparr> else t)"

text \<open>The call of the current filter, with the accounting of \<open>print_time\<close>.\<close>
definition timed_filter_run ::
    "'w phi_filters \<Rightarrow> 'w trk_core \<Rightarrow> nat \<Rightarrow> phi_track \<times> 'w \<Rightarrow> phi_r option \<times> phi_track \<times> 'w" where
  "timed_filter_run F C i s =
     (case trk_filter_run F i s of (r, t, w) \<Rightarrow>
        if c_print_time (t_conf t)
        then (r, upd_conv (set_pool i (\<lambda>f. f\<lparr>f_busytime :=
                time_add C (f_busytime f) (time_sub C (core_time C w) (core_time C (snd s)))\<rparr>)) t, w)
        else (r, t, w))"

text \<open>What the result code does to the data and the flags before the next round.\<close>
definition route_data :: "phi_r \<Rightarrow> phi_track \<Rightarrow> phi_track" where
  "route_data r t =
     (case r of
        PHI_MORE \<Rightarrow> t\<lparr>t_chain_flags := t_chain_flags t AND NOT PHI_FFWD, t_data_in := [], t_data_out := []\<rparr>
      | PHI_BACK \<Rightarrow> t\<lparr>t_chain_flags := t_chain_flags t AND NOT PHI_FFWD, t_data_in := t_data_out t, t_data_out := []\<rparr>
      | PHI_DATA \<Rightarrow> t\<lparr>t_chain_flags := t_chain_flags t OR PHI_FFWD, t_data_in := t_data_out t, t_data_out := []\<rparr>
      | _ \<Rightarrow> t)"

text \<open>The label \<open>fin\<close>.\<close>
definition track_fin ::
    "'w phi_filters \<Rightarrow> 'w trk_core \<Rightarrow> (nat \<Rightarrow> 'w \<Rightarrow> 'w) \<Rightarrow> nat \<Rightarrow> phi_track \<times> 'w \<Rightarrow> 'w trk_end" where
  "track_fin F C unlink adr s0 =
     (let (t, w) = s0 in
      if t_state t = ST_RUNNING
      then (case conveyor_close F
              (t\<lparr>t_state := ST_FINISHED, t_chain_flags := t_chain_flags t OR PHI_FFINISHED\<rparr>, w) of
              (t1, w1) \<Rightarrow> TrkFinished t1 w1)
      else TrkClosed (track_close F C unlink adr (t, w)))"

fun track_loop ::
    "nat \<Rightarrow> 'w phi_filters \<Rightarrow> 'w trk_core \<Rightarrow> (nat \<Rightarrow> 'w \<Rightarrow> 'w) \<Rightarrow> nat \<Rightarrow> phi_track \<times> 'w \<Rightarrow> 'w trk_end" where
  "track_loop 0 F C unlink adr s = TrkFuel"
| "track_loop (Suc n) F C unlink adr (t, w) =
     (let t0 = stop_poll t; c = unat (v_cur (t_conveyor t0)) in
      if length (filters (t_conveyor t0)) \<le> c then TrkFault
      else
        (let i = filters (t_conveyor t0) ! c in
         case timed_filter_run F C i (t0, w) of (r, t1, w1) \<Rightarrow>
           (case trk_filter_handle_result i r (t_conveyor t1) of (v2, r2) \<Rightarrow>
              (let t2 = t1\<lparr>t_conveyor := v2\<rparr> in
               case r2 of
                 PHI_ASYNC \<Rightarrow> TrkAsync t2 w1
               | PHI_FIN \<Rightarrow> track_fin F C unlink adr (t2, w1)
               | PHI_ERR \<Rightarrow>
                   track_fin F C unlink adr
                     (if t_error t2 = 0 then t2\<lparr>t_error := PHI_E_OTHER\<rparr> else t2, w1)
               | _ \<Rightarrow> track_loop n F C unlink adr (route_data r2 t2, w1)))))"

definition track_run ::
    "nat \<Rightarrow> 'w phi_filters \<Rightarrow> 'w trk_core \<Rightarrow> (nat \<Rightarrow> 'w \<Rightarrow> 'w) \<Rightarrow> nat \<Rightarrow> phi_track \<times> 'w \<Rightarrow> 'w trk_end" where
  "track_run fuel F C unlink adr s =
     (if t_state (fst s) = ST_FINISHED then TrkClosed (track_close F C unlink adr s)
      else track_loop fuel F C unlink adr s)"

section \<open>Control from other threads\<close>

definition track_conf :: "phi_track_conf \<Rightarrow> phi_track_conf" where
  "track_conf conf = phi_track_conf_zero"

text \<open>\<open>track_create\<close>; \<open>cur_id\<close> is the shared counter of \<open>tx\<close>.\<close>
definition track_create ::
    "'w trk_core \<Rightarrow> u32 \<Rightarrow> phi_track_conf \<Rightarrow> 'w \<Rightarrow> phi_track \<times> u32 \<times> 'w" where
  "track_create C cur_id conf w =
     (let t = phi_track_zero\<lparr>t_conf := conf\<rparr>;
          t1 = upd_conv conveyor_init t;
          (wid, w1) = worker_assign C (c_cross_worker_assign conf) w;
          t2 = t1\<lparr>t_worker := wid, t_id := unat cur_id, t_start := core_time C w1\<rparr>;
          a = (t_audio t2)\<lparr>a_seek := c_seek_msec (t_conf t2)\<rparr>
      in (t2\<lparr>t_audio := a\<lparr>a_seek_req := (0 < sint (a_seek a))\<rparr>\<rparr>, cur_id + 1, w1))"

definition track_start ::
    "'w trk_core \<Rightarrow> (nat \<Rightarrow> 'w \<Rightarrow> 'w) \<Rightarrow> nat \<Rightarrow> phi_track \<times> 'w \<Rightarrow> phi_track \<times> 'w" where
  "track_start C link adr = (\<lambda>(t, w).
     if filters (t_conveyor t) = [] then (t, w)
     else (upd_conv (\<lambda>v. v\<lparr>v_cur := 0\<rparr>) (t\<lparr>t_sib := True\<rparr>),
           core_task_add C (t_worker t) adr (link adr w)))"

text \<open>\<open>ffint_cmpxchg (&t->state, ST_RUNNING, ST_STOP)\<close> returns the old value.\<close>
definition track_xstop :: "'w trk_core \<Rightarrow> nat \<Rightarrow> phi_track \<times> 'w \<Rightarrow> phi_track \<times> 'w" where
  "track_xstop C adr = (\<lambda>(t, w).
     (let st = t_state t;
          t1 = (if st = ST_RUNNING then t\<lparr>t_state := ST_STOP\<rparr> else t)
      in (t1, if st = ST_RUNNING \<or> st = ST_FINISHED then core_task_add C (t_worker t1) adr w else w)))"

definition track_wake :: "'w trk_core \<Rightarrow> nat \<Rightarrow> phi_track \<times> 'w \<Rightarrow> phi_track \<times> 'w" where
  "track_wake C adr = (\<lambda>(t, w). (t, core_task_add C (t_worker t) adr w))"

text \<open>\<open>track_xstop_all\<close> walks the list of tracks; \<open>m\<close> is where the tracks are.\<close>
definition track_xstop_all ::
    "'w trk_core \<Rightarrow> nat list \<Rightarrow> (nat \<Rightarrow> phi_track) \<times> 'w \<Rightarrow> ((nat \<Rightarrow> phi_track) \<times> 'w) \<times> nat" where
  "track_xstop_all C tracks s =
     (fold (\<lambda>adr (m, w). case track_xstop C adr (m adr, w) of (t, w1) \<Rightarrow> (m(adr := t), w1)) tracks s,
      length tracks)"

definition cur_filter_name :: "phi_track \<Rightarrow> string" where
  "cur_filter_name t =
     (let v = t_conveyor t in
      if v_cur v = -1 then [] else f_iface (filters_pool v ! (filters v ! unat (v_cur v))))"

section \<open>The chain invariant\<close>

text \<open>
  The chain lists distinct slots of the pool that have been handed out; slots that have not
  been handed out hold no object.
\<close>
definition conv_inv :: "phi_conveyor \<Rightarrow> bool" where
  "conv_inv v \<longleftrightarrow> length (filters_pool v) = MAX_FILTERS \<and> i_fpool v \<le> MAX_FILTERS
     \<and> distinct (filters v) \<and> set (filters v) \<subseteq> {..<i_fpool v}
     \<and> (\<forall>i. i_fpool v \<le> i \<longrightarrow> i < MAX_FILTERS \<longrightarrow> f_obj (filters_pool v ! i) = None)"

definition cur_ok :: "phi_conveyor \<Rightarrow> bool" where
  "cur_ok v \<longleftrightarrow> unat (v_cur v) < length (filters v)"

text \<open>The current filter, as an index into the pool.\<close>
definition cur_filter :: "phi_conveyor \<Rightarrow> nat" where
  "cur_filter v = filters v ! unat (v_cur v)"

lemma conv_inv_length: "conv_inv v \<Longrightarrow> length (filters v) \<le> i_fpool v \<and> length (filters v) \<le> 20"
proof -
  assume i: "conv_inv v"
  then have "card (set (filters v)) \<le> card {..<i_fpool v}" by (intro card_mono) (auto simp: conv_inv_def)
  with i show ?thesis by (simp add: conv_inv_def distinct_card MAX_FILTERS_def)
qed

lemma unat_cur_inc:
  "unat (c :: u32) < n \<Longrightarrow> n \<le> 20 \<Longrightarrow> unat (c + 1) = unat c + 1"
  by (rule trans [OF unat_add_small]) simp_all

lemma sint_small_nonneg: "unat (c :: u32) \<le> 20 \<Longrightarrow> \<not> sint c < 0"
proof -
  assume "unat c \<le> 20"
  then have "uint c \<le> 20" using uint_nat [of c] by linarith
  then have "sint c = uint c"
    by (simp add: sint_uint signed_take_bit_int_eq_self_iff order_trans [OF _ uint_ge_0])
  then show ?thesis by simp
qed

lemma set_pool_simps [simp]:
  "filters (set_pool i g v) = filters v" "i_fpool (set_pool i g v) = i_fpool v"
  "v_cur (set_pool i g v) = v_cur v" "length (filters_pool (set_pool i g v)) = length (filters_pool v)"
  by (simp_all add: set_pool_def)

lemma set_pool_obj:
  "(\<And>f. f_obj (g f) = f_obj f) \<Longrightarrow> f_obj (filters_pool (set_pool i g v) ! j) = f_obj (filters_pool v ! j)"
  by (cases "i < length (filters_pool v)"; cases "i = j") (simp_all add: set_pool_def list_update_beyond not_less)

lemma conv_inv_set_pool:
  "conv_inv v \<Longrightarrow> (\<And>f. f_obj (g f) = f_obj f) \<Longrightarrow> conv_inv (set_pool i g v)"
  by (simp add: conv_inv_def set_pool_obj)

lemma conv_inv_set_obj: "conv_inv v \<Longrightarrow> i < i_fpool v \<Longrightarrow> conv_inv (set_pool i g v)"
  by (auto simp: conv_inv_def set_pool_def)

text \<open>Where \<open>trk_filter_add\<close> puts the new filter.\<close>
lemma trk_filter_add_cases:
  assumes inv: "conv_inv v" and pos: "pos = -1 \<or> unat pos \<le> length (filters v)"
    and r: "trk_filter_add v iface pos = (v', r)"
  obtains (full) "v' = v" "r = -1"
    | (added) k where "k \<le> length (filters v)" "r = int k" "pos = -1 \<Longrightarrow> k = length (filters v)"
        "pos \<noteq> -1 \<Longrightarrow> k = unat pos" "conv_inv v'" "v_cur v' = v_cur v"
        "filters v' = take k (filters v) @ i_fpool v # drop k (filters v)"
        "\<And>j. f_obj (filters_pool v' ! j) = f_obj (filters_pool v ! j)"
proof (cases "i_fpool v = MAX_FILTERS")
  case True
  then show thesis using r full by (simp add: trk_filter_add_def)
next
  case False
  let ?v1 = "set_pool (i_fpool v) (\<lambda>f. f\<lparr>f_iface := iface\<rparr>) (v\<lparr>i_fpool := i_fpool v + 1\<rparr>)"
  define k where "k = (if pos = -1 then length (filters v) else unat pos)"
  have k: "k \<le> length (filters v)" using pos by (auto simp: k_def)
  have neg: "sint pos < 0 \<longleftrightarrow> pos = -1"
    using pos conv_inv_length [OF inv] sint_small_nonneg [of pos] by auto
  have inc: "unat (pos + 1) = unat pos + 1" if "pos \<noteq> -1"
    using that pos conv_inv_length [OF inv] unat_cur_inc [of pos "length (filters v) + 1"]
    by (cases "length (filters v) < 20") (auto intro!: trans [OF unat_add_small])
  have v': "v' = ?v1\<lparr>filters := take k (filters v) @ i_fpool v # drop k (filters v)\<rparr> \<and> r = int k"
    using r False neg inc by (auto simp: trk_filter_add_def Let_def k_def split: if_splits)
  have obj: "f_obj (filters_pool v' ! j) = f_obj (filters_pool v ! j)" for j
    using set_pool_obj [of "\<lambda>f. f\<lparr>f_iface := iface\<rparr>" "i_fpool v" "v\<lparr>i_fpool := i_fpool v + 1\<rparr>" j] v'
    by (simp add: set_pool_def)
  have "conv_inv v'"
    using inv False v' obj
    by (auto simp: conv_inv_def set_take_disj_set_drop_if_distinct dest: in_set_takeD in_set_dropD)
  then show thesis using added [of k] k v' obj by (auto simp: k_def)
qed

text \<open>What a filter may do to the conveyor: add filters, any number of times.\<close>
inductive conv_ext :: "phi_conveyor \<Rightarrow> phi_conveyor \<Rightarrow> bool" where
  none: "conv_ext v v"
| add: "conv_ext v v1 \<Longrightarrow> conv_ext v (fst (track_filter v1 f prev))"

text \<open>The facts about a conveyor that adding filters preserves.\<close>
definition conv_keeps :: "phi_conveyor \<Rightarrow> phi_conveyor \<Rightarrow> bool" where
  "conv_keeps v v' \<longleftrightarrow> conv_inv v'
     \<and> (\<forall>j. f_obj (filters_pool v' ! j) = f_obj (filters_pool v ! j))
     \<and> (cur_ok v \<longrightarrow> cur_ok v' \<and> cur_filter v' = cur_filter v)"

lemma track_filter_keeps:
  assumes inv: "conv_inv v" and cur: "v_cur v = -1 \<or> cur_ok v"
  shows "conv_keeps v (fst (track_filter v f prev)) \<and>
    (v_cur v = -1 \<longrightarrow> v_cur (fst (track_filter v f prev)) = -1)"
proof (cases f)
  case None
  then show ?thesis using inv by (simp add: track_filter_def conv_keeps_def)
next
  case (Some iface)
  let ?pos = "if v_cur v = -1 then -1 else if prev then v_cur v else v_cur v + 1"
  have n: "length (filters v) \<le> 20" using conv_inv_length [OF inv] by simp
  have inc: "unat (v_cur v + 1) = unat (v_cur v) + 1" if "cur_ok v"
    using that n by (intro unat_cur_inc) (auto simp: cur_ok_def)
  have ne: "v_cur v + 1 \<noteq> -1" if "cur_ok v"
  proof
    assume a: "v_cur v + 1 = -1"
    have "unat (v_cur v + 1) \<le> 20" using inc [OF that] that n by (simp add: cur_ok_def)
    then show False unfolding a by (simp add: unsigned_minus_1_eq_mask mask_eq_exp_minus_1)
  qed
  have pos: "?pos = -1 \<or> unat ?pos \<le> length (filters v)"
    using cur inc by (auto simp: cur_ok_def)
  obtain v1 r where a: "trk_filter_add v iface ?pos = (v1, r)" by fastforce
  show ?thesis
    using inv pos a
  proof (cases rule: trk_filter_add_cases)
    case full
    then show ?thesis using inv a Some
      by (cases "v_cur v = -1") (simp_all add: track_filter_def conv_keeps_def)
  next
    case (added k)
    show ?thesis
    proof (cases "v_cur v = -1")
      case True
      moreover have "\<not> cur_ok v" if "v_cur v = -1"
        using n that by (simp add: cur_ok_def unsigned_minus_1_eq_mask mask_eq_exp_minus_1)
      moreover have "word_of_int r \<noteq> v_cur v1" using True added n
        by (simp add: word_unat_eq_iff unsigned_minus_1_eq_mask mask_eq_exp_minus_1 unat_of_nat take_bit_nat_eq_self)
      ultimately show ?thesis using added a Some by (simp add: track_filter_def conv_keeps_def)
    next
      case False
      then have ok: "cur_ok v" using cur by simp
      then have lt: "unat (v_cur v) < length (filters v)" by (simp add: cur_ok_def)
      have k: "k = (if prev then unat (v_cur v) else unat (v_cur v) + 1)"
        using added False ne [OF ok] inc [OF ok] by auto
      have w: "word_of_int r = v_cur v \<longleftrightarrow> prev"
        using k added n lt by (auto simp: word_unat_eq_iff unat_of_nat take_bit_nat_eq_self)
      have v': "fst (track_filter v f prev) = (if prev then v1\<lparr>v_cur := v_cur v + 1\<rparr> else v1)"
        using a Some False w added by (auto simp: track_filter_def)
      have "cur_ok (fst (track_filter v f prev)) \<and> cur_filter (fst (track_filter v f prev)) = cur_filter v"
        using v' added k lt inc [OF ok] by (auto simp: cur_ok_def cur_filter_def nth_append)
      moreover have "conv_inv (fst (track_filter v f prev))"
        using v' added by (auto simp: conv_inv_def)
      ultimately show ?thesis using v' added False by (auto simp: conv_keeps_def)
    qed
  qed
qed

lemma conv_ext_keeps:
  "conv_ext v v' \<Longrightarrow> conv_inv v \<Longrightarrow> v_cur v = -1 \<or> cur_ok v \<Longrightarrow>
     conv_keeps v v' \<and> (v_cur v = -1 \<longrightarrow> v_cur v' = -1)"
proof (induction rule: conv_ext.induct)
  case (none v)
  then show ?case by (simp add: conv_keeps_def)
next
  case (add v v1 f prev)
  then show ?case using track_filter_keeps [of v1 f prev] by (auto simp: conv_keeps_def)
qed

lemma map_filter_cong: "(\<And>x. x \<in> set xs \<Longrightarrow> f x = g x) \<Longrightarrow> List.map_filter f xs = List.map_filter g xs"
  by (induction xs) (auto simp: List.map_filter_simps split: option.split)

section \<open>What filters may do\<close>

text \<open>
  Another thread may request the stop of the track while a filter runs; nothing else changes
  the state of the track during the call.
\<close>
definition st_may :: "track_state \<Rightarrow> track_state \<Rightarrow> bool" where
  "st_may s s' \<longleftrightarrow> s' = s \<or> s = ST_RUNNING \<and> s' = ST_STOP"

definition trk_may :: "phi_track \<Rightarrow> phi_track \<Rightarrow> bool" where
  "trk_may t t' \<longleftrightarrow> conv_ext (t_conveyor t) (t_conveyor t') \<and> st_may (t_state t) (t_state t')"

definition filter_law :: "'w phi_filters \<Rightarrow> bool" where
  "filter_law F \<longleftrightarrow>
     (\<forall>n opn s. pf_open (F n) = Some opn \<longrightarrow> trk_may (fst s) (fst (snd (opn s))))
     \<and> (\<forall>n ob s. trk_may (fst s) (fst (snd (pf_process (F n) ob s))))
     \<and> (\<forall>n cl ob s. pf_close (F n) = Some cl \<longrightarrow> trk_may (fst s) (fst (cl ob s)))"

lemma st_may_trans: "st_may a b \<Longrightarrow> st_may b c \<Longrightarrow> st_may a c"
  by (auto simp: st_may_def)

text \<open>The state of a running track between two steps of the loop.\<close>
definition trk_ok :: "nat \<Rightarrow> phi_track \<Rightarrow> bool" where
  "trk_ok i t \<longleftrightarrow> conv_inv (t_conveyor t) \<and> cur_ok (t_conveyor t) \<and> cur_filter (t_conveyor t) = i"

lemma trk_ok_pool_lt: "trk_ok i t \<Longrightarrow> i < i_fpool (t_conveyor t)"
  using nth_mem [of "unat (v_cur (t_conveyor t))" "filters (t_conveyor t)"]
  by (auto simp: trk_ok_def conv_inv_def cur_ok_def cur_filter_def)

lemma trk_ok_set_pool: "trk_ok i t \<Longrightarrow> trk_ok i (upd_conv (set_pool i g) t)"
  using trk_ok_pool_lt [of i t]
  by (auto simp: trk_ok_def cur_ok_def cur_filter_def intro: conv_inv_set_obj)

lemma trk_ok_may: "trk_ok i t \<Longrightarrow> trk_may t t' \<Longrightarrow> trk_ok i t'"
  using conv_ext_keeps [of "t_conveyor t" "t_conveyor t'"]
  by (auto simp: trk_ok_def trk_may_def conv_keeps_def)

lemma filter_law_open: "filter_law F \<Longrightarrow> pf_open (F n) = Some opn \<Longrightarrow> opn s = (r, t', w') \<Longrightarrow> trk_may (fst s) t'"
  unfolding filter_law_def by (metis fst_conv snd_conv)

lemma filter_law_process: "filter_law F \<Longrightarrow> pf_process (F n) ob s = (r, t', w') \<Longrightarrow> trk_may (fst s) t'"
  unfolding filter_law_def by (metis fst_conv snd_conv)

lemma trk_ok_data [simp]:
  "trk_ok i (t\<lparr>t_data_out := d\<rparr>) \<longleftrightarrow> trk_ok i t" "trk_ok i (t\<lparr>t_chain_flags := fl\<rparr>) \<longleftrightarrow> trk_ok i t"
  "trk_ok i (t\<lparr>t_state := st\<rparr>) \<longleftrightarrow> trk_ok i t"
  by (simp_all add: trk_ok_def)

lemma filter_open_ok:
  assumes law: "filter_law F" and ok: "trk_ok i t" and op: "filter_open F f (t, w) = (r, t', w')"
  shows "trk_ok i t' \<and> st_may (t_state t) (t_state t')"
proof -
  have "t' = t \<or> trk_may t t'"
    using op filter_law_open [OF law, of "f_iface f" _ "(t, w)"]
    by (auto simp: filter_open_def split: option.splits)
  then show ?thesis using ok trk_ok_may by (auto simp: trk_may_def st_may_def)
qed

lemma filter_prepare_ok:
  "trk_ok i t \<Longrightarrow> trk_ok i (filter_unskip i t)" "t_state (filter_unskip i t) = t_state t"
  "trk_ok i (filter_first_flag t) \<longleftrightarrow> trk_ok i t" "t_state (filter_first_flag t) = t_state t"
  by (auto simp: filter_unskip_def filter_first_flag_def Let_def trk_ok_set_pool)

lemma trk_filter_run_ok:
  assumes law: "filter_law F" and ok: "trk_ok i t" and r: "trk_filter_run F i (t, w) = (r, t', w')"
  shows "trk_ok i t' \<and> st_may (t_state t) (t_state t')"
proof -
  let ?f = "filters_pool (t_conveyor t) ! i" and ?t1 = "filter_unskip i t"
  have 2: "trk_ok i (filter_first_flag ?t1)" using ok by (simp add: filter_prepare_ok)
  obtain ro t3 w3 where op: "filter_open F ?f (filter_first_flag ?t1, w) = (ro, t3, w3)"
    by (rule prod_cases3)
  have 3: "trk_ok i t3 \<and> st_may (t_state t) (t_state t3)"
    using filter_open_ok [OF law 2 op] by (simp add: filter_prepare_ok)
  have "t' = ?t1 \<or> t' = t3 \<or> t' = t3\<lparr>t_data_out := t_data_in t3\<rparr>
      \<or> (\<exists>ob. pf_process (F (f_iface ?f)) ob
           (upd_conv (set_pool i (\<lambda>f. f\<lparr>f_obj := Some ob\<rparr>)) t3, w3) = (r, t', w'))"
    using r op by (auto simp: trk_filter_run_def Let_def split: phi_open.splits if_splits)
  then show ?thesis
  proof (elim disjE exE)
    fix ob
    assume p: "pf_process (F (f_iface ?f)) ob
           (upd_conv (set_pool i (\<lambda>f. f\<lparr>f_obj := Some ob\<rparr>)) t3, w3) = (r, t', w')"
    have m: "trk_may (upd_conv (set_pool i (\<lambda>f. f\<lparr>f_obj := Some ob\<rparr>)) t3) t'"
      using filter_law_process [OF law p] by simp
    then have "trk_ok i t'" using 3 by (intro trk_ok_may [OF _ m] trk_ok_set_pool) simp
    then show ?thesis using 3 m st_may_trans by (auto simp: trk_may_def)
  qed (use 3 ok in \<open>auto simp: filter_prepare_ok st_may_def\<close>)
qed

section \<open>Results of filters\<close>

lemma go_fwd_ok:
  assumes "conv_inv v" and "filters v \<noteq> []" and "unat (v_cur v + 1) \<le> length (filters v)"
    and "go_fwd v = (v', r)"
  shows "conv_inv v' \<and> cur_ok v' \<and> r \<in> {PHI_MORE, PHI_DATA}"
proof (cases "unat (v_cur v + 1) = length (filters v)")
  case True
  have "unat (v_cur v) = length (filters v) - 1"
  proof -
    have "v_cur v + 1 \<noteq> 0" using True assms(2) by auto
    then have "unat (v_cur v + 1 - 1) = unat (v_cur v + 1) - 1"
      by (intro unat_minus_one) simp
    then show ?thesis using True by simp
  qed
  then show ?thesis using assms True by (auto simp: go_fwd_def cur_ok_def)
next
  case False
  then show ?thesis using assms by (auto simp: go_fwd_def cur_ok_def conv_inv_def)
qed

text \<open>Codes after which the loop goes on with another filter call.\<close>
abbreviation "goes_on r \<equiv> r \<in> {PHI_MORE, PHI_BACK, PHI_DATA}"

lemma conv_inv_sub:
  assumes "conv_inv v" and "filters v' = take a (filters v) @ drop b (filters v)" and "a \<le> b"
    and "filters_pool v' = filters_pool v" and "i_fpool v' = i_fpool v"
  shows "conv_inv v'"
proof -
  have "set (take a (filters v)) \<inter> set (drop b (filters v)) = {}"
    using assms(1,3) by (intro set_take_disj_set_drop_if_distinct) (auto simp: conv_inv_def)
  then show ?thesis using assms
    by (auto simp: conv_inv_def dest: in_set_takeD in_set_dropD)
qed

lemma conv_inv_cur [simp]: "conv_inv (v\<lparr>v_cur := c\<rparr>) \<longleftrightarrow> conv_inv v"
  by (simp add: conv_inv_def)

lemma handle_result_ok:
  assumes inv: "conv_inv v" and cur: "cur_ok v" and i: "cur_filter v = i"
    and r: "trk_filter_handle_result i r0 v = (v', r)"
  shows "conv_inv v' \<and> (goes_on r \<or> r = PHI_ASYNC \<longrightarrow> cur_ok v') \<and> (goes_on r \<or> r \<in> {PHI_ASYNC, PHI_FIN, PHI_ERR})"
proof -
  have lt: "unat (v_cur v) < length (filters v)" using cur by (simp add: cur_ok_def)
  have inc: "unat (v_cur v + 1) = unat (v_cur v) + 1"
    using lt conv_inv_length [OF inv] by (intro unat_cur_inc) auto
  have ne: "filters v \<noteq> []" using lt by auto
  have bk: "cur_ok (v\<lparr>v_cur := v_cur v - 1\<rparr>)" if "v_cur v \<noteq> 0"
    using that lt by (simp add: cur_ok_def unat_minus_one)
  consider (dn) "r0 = Some PHI_DONE" | (lo) "r0 = Some PHI_LASTOUT" | (ok) "r0 = Some PHI_OK"
    | (data) "r0 = Some PHI_DATA"
    | (other) "r0 \<in> {Some PHI_MORE, Some PHI_BACK, Some PHI_ASYNC, Some PHI_FIN, Some PHI_ERR, None}"
    by (cases r0; cases "the r0") auto
  then show ?thesis
  proof cases
    case dn
    let ?v1 = "v\<lparr>filters := take (unat (v_cur v)) (filters v) @ drop (unat (v_cur v) + 1) (filters v),
                v_cur := v_cur v - 1\<rparr>"
    have inv1: "conv_inv ?v1" by (rule conv_inv_sub [OF inv, of _ "unat (v_cur v)" "unat (v_cur v) + 1"]) simp_all
    have "unat (v_cur ?v1 + 1) \<le> length (filters ?v1)" using lt by simp
    then show ?thesis using r dn inv1 go_fwd_ok [OF inv1]
      by (auto simp: trk_filter_handle_result_def Let_def split: if_splits)
  next
    case lo
    let ?v1 = "v\<lparr>filters := drop (unat (v_cur v + 1)) (filters v), v_cur := -1\<rparr>"
    have inv1: "conv_inv ?v1"
      by (rule conv_inv_sub [OF inv, of _ 0 "unat (v_cur v + 1)"]) simp_all
    have "unat (v_cur ?v1 + 1) \<le> length (filters ?v1)" by simp
    then show ?thesis using r lo inv1 go_fwd_ok [OF inv1]
      by (auto simp: trk_filter_handle_result_def Let_def split: if_splits)
  next
    case ok
    let ?v1 = "set_pool i (\<lambda>f. f\<lparr>f_backward_skip := True\<rparr>) v"
    have inv1: "conv_inv ?v1" using inv by (rule conv_inv_set_pool) simp
    show ?thesis using r ok inc lt ne go_fwd_ok [OF inv1]
      by (auto simp: trk_filter_handle_result_def)
  next
    case data
    then show ?thesis using r inc lt ne go_fwd_ok [OF inv] by (auto simp: trk_filter_handle_result_def)
  next
    case other
    then show ?thesis using r inv cur bk
      by (auto simp: trk_filter_handle_result_def split: if_splits)
  qed
qed

section \<open>The loop stays within the chain\<close>

lemma trk_ok_intro: "conv_inv (t_conveyor t) \<Longrightarrow> cur_ok (t_conveyor t) \<Longrightarrow> \<exists>i. trk_ok i t"
  by (simp add: trk_ok_def)

lemma stop_poll_ok: "trk_ok i (stop_poll t) \<longleftrightarrow> trk_ok i t" "t_conveyor (stop_poll t) = t_conveyor t"
  by (simp_all add: stop_poll_def)

lemma timed_filter_run_ok:
  assumes "filter_law F" and "trk_ok i t" and "timed_filter_run F C i (t, w) = (r, t', w')"
  shows "trk_ok i t' \<and> st_may (t_state t) (t_state t')"
proof -
  obtain r1 t1 w1 where s: "trk_filter_run F i (t, w) = (r1, t1, w1)" by (rule prod_cases3)
  from trk_filter_run_ok [OF assms(1,2) s] assms(3) s trk_ok_set_pool [of i t1]
  show ?thesis by (auto simp: timed_filter_run_def split: if_splits)
qed

lemma route_data_conveyor [simp]:
  "t_conveyor (route_data r t) = t_conveyor t" "t_state (route_data r t) = t_state t"
  by (simp_all add: route_data_def split: phi_r.split)

lemma error_same: "t_error t = e \<Longrightarrow> t\<lparr>t_conveyor := v, t_error := e\<rparr> = t\<lparr>t_conveyor := v\<rparr>"
  by (cases t) simp

text \<open>One round of the loop on a well-formed track: it ends, or goes on with a well-formed track.\<close>
lemma track_loop_round:
  assumes law: "filter_law F" and ok: "trk_ok i t"
  obtains r t1 w1 v2 r2 where
    "timed_filter_run F C i (stop_poll t, w) = (r, t1, w1)"
    "trk_filter_handle_result i r (t_conveyor t1) = (v2, r2)"
    "trk_ok i t1" "st_may (t_state (stop_poll t)) (t_state t1)" "conv_inv v2"
    "goes_on r2 \<or> r2 = PHI_ASYNC \<longrightarrow> cur_ok v2"
    "goes_on r2 \<or> r2 \<in> {PHI_ASYNC, PHI_FIN, PHI_ERR}"
    "goes_on r2 \<longrightarrow> track_loop (Suc n) F C unlink adr (t, w)
       = track_loop n F C unlink adr (route_data r2 (t1\<lparr>t_conveyor := v2\<rparr>), w1)"
    "r2 = PHI_ASYNC \<longrightarrow> track_loop (Suc n) F C unlink adr (t, w) = TrkAsync (t1\<lparr>t_conveyor := v2\<rparr>) w1"
    "r2 \<in> {PHI_FIN, PHI_ERR} \<longrightarrow> (\<exists>e. track_loop (Suc n) F C unlink adr (t, w)
       = track_fin F C unlink adr (t1\<lparr>t_conveyor := v2, t_error := e\<rparr>, w1))"
proof -
  let ?t0 = "stop_poll t"
  have ok0: "trk_ok i ?t0" using ok by (simp add: stop_poll_ok)
  obtain r t1 w1 where a: "timed_filter_run F C i (?t0, w) = (r, t1, w1)" by (rule prod_cases3)
  obtain v2 r2 where b: "trk_filter_handle_result i r (t_conveyor t1) = (v2, r2)" by fastforce
  note A = timed_filter_run_ok [OF law ok0 a]
  then have ok1: "conv_inv (t_conveyor t1)" "cur_ok (t_conveyor t1)" "cur_filter (t_conveyor t1) = i"
    by (simp_all add: trk_ok_def)
  note B = handle_result_ok [OF ok1 b]
  have c: "filters (t_conveyor ?t0) ! unat (v_cur (t_conveyor ?t0)) = i"
    and lt: "\<not> length (filters (t_conveyor ?t0)) \<le> unat (v_cur (t_conveyor ?t0))"
    using ok0 by (auto simp: trk_ok_def cur_filter_def cur_ok_def)
  have step: "track_loop (Suc n) F C unlink adr (t, w) =
     (let t2 = t1\<lparr>t_conveyor := v2\<rparr> in
               case r2 of
                 PHI_ASYNC \<Rightarrow> TrkAsync t2 w1
               | PHI_FIN \<Rightarrow> track_fin F C unlink adr (t2, w1)
               | PHI_ERR \<Rightarrow>
                   track_fin F C unlink adr
                     (if t_error t2 = 0 then t2\<lparr>t_error := PHI_E_OTHER\<rparr> else t2, w1)
               | _ \<Rightarrow> track_loop n F C unlink adr (route_data r2 t2, w1))"
    using a b c lt by (simp add: Let_def)
  have "\<exists>e. track_loop (Suc n) F C unlink adr (t, w)
       = track_fin F C unlink adr (t1\<lparr>t_conveyor := v2, t_error := e\<rparr>, w1)" if "r2 \<in> {PHI_FIN, PHI_ERR}"
  proof (cases "r2 = PHI_ERR \<and> t_error t1 = 0")
    case True
    then show ?thesis using step by (auto simp: Let_def intro!: exI [of _ PHI_E_OTHER])
  next
    case False
    then show ?thesis using step that
      by (auto simp: Let_def error_same intro!: exI [of _ "t_error t1"] simp del: track_loop.simps)
  qed
  then show thesis using that [OF a b] A B step by (auto simp: Let_def)
qed

lemma track_fin_cases:
  "track_fin F C unlink adr s \<noteq> TrkFault" "track_fin F C unlink adr s \<noteq> TrkAsync t' w'"
  "track_fin F C unlink adr s \<noteq> TrkFuel"
  by (auto simp: track_fin_def split: prod.split)

text \<open>
  Property C10: the loop of a track never leaves its chain. Whatever filters the chain has and
  however they add filters before or after themselves, finish, drop the filters before them
  or ask for more data: every round calls a filter of the chain, the chain keeps listing distinct
  slots of the pool of at most 20, and a track that goes to sleep is one that can be run again.
\<close>

theorem track_run_within_chain:
  assumes law: "filter_law F" and inv: "conv_inv (t_conveyor t)" and cur: "cur_ok (t_conveyor t)"
  shows "track_run fuel F C unlink adr (t, w) \<noteq> TrkFault
    \<and> (\<forall>t' w'. track_run fuel F C unlink adr (t, w) = TrkAsync t' w' \<longrightarrow>
          conv_inv (t_conveyor t') \<and> cur_ok (t_conveyor t'))"
proof -
  have "track_loop fuel F C unlink adr (t, w) \<noteq> TrkFault \<and>
    (\<forall>t' w'. track_loop fuel F C unlink adr (t, w) = TrkAsync t' w' \<longrightarrow>
       conv_inv (t_conveyor t') \<and> cur_ok (t_conveyor t'))"
    using inv cur
  proof (induction fuel arbitrary: t w)
    case (Suc n)
    then obtain i where "trk_ok i t" using trk_ok_intro by blast
    with law show ?case
    proof (rule track_loop_round [where C = C and w = w and n = n and unlink = unlink and adr = adr])
      fix r t1 w1 v2 r2
      assume "conv_inv v2" and "goes_on r2 \<or> r2 = PHI_ASYNC \<longrightarrow> cur_ok v2"
        and "goes_on r2 \<or> r2 \<in> {PHI_ASYNC, PHI_FIN, PHI_ERR}"
        and "goes_on r2 \<longrightarrow> track_loop (Suc n) F C unlink adr (t, w)
           = track_loop n F C unlink adr (route_data r2 (t1\<lparr>t_conveyor := v2\<rparr>), w1)"
        and "r2 = PHI_ASYNC \<longrightarrow>
           track_loop (Suc n) F C unlink adr (t, w) = TrkAsync (t1\<lparr>t_conveyor := v2\<rparr>) w1"
        and "r2 \<in> {PHI_FIN, PHI_ERR} \<longrightarrow> (\<exists>e. track_loop (Suc n) F C unlink adr (t, w)
           = track_fin F C unlink adr (t1\<lparr>t_conveyor := v2, t_error := e\<rparr>, w1))"
      then consider "track_loop (Suc n) F C unlink adr (t, w) = TrkAsync (t1\<lparr>t_conveyor := v2\<rparr>) w1"
            "conv_inv v2" "cur_ok v2"
        | s where "track_loop (Suc n) F C unlink adr (t, w) = track_fin F C unlink adr s"
        | "track_loop (Suc n) F C unlink adr (t, w)
             = track_loop n F C unlink adr (route_data r2 (t1\<lparr>t_conveyor := v2\<rparr>), w1)"
             "conv_inv v2" "cur_ok v2"
        by blast
      then show ?thesis
      proof cases
        case 3
        then show ?thesis using Suc.IH [of "route_data r2 (t1\<lparr>t_conveyor := v2\<rparr>)" w1] by simp
      qed (auto simp: track_fin_cases)
    qed
  qed simp
  then show ?thesis by (auto simp: track_run_def split: if_splits)
qed

text \<open>
  Two filters without \<open>open\<close> and \<open>close\<close>: a source that yields the chunks it has and then
  finishes, and a sink that collects its input and finishes once it is the first filter.
\<close>
definition src_filter :: "(bytes list \<times> bytes) phi_filter" where
  "src_filter = \<lparr>pf_open = None, pf_close = None,
     pf_process = (\<lambda>ob (t, (cs, out)).
       case cs of [] \<Rightarrow> (Some PHI_DONE, t\<lparr>t_data_out := []\<rparr>, ([], out))
       | c # cs' \<Rightarrow> (Some PHI_DATA, t\<lparr>t_data_out := c\<rparr>, (cs', out)))\<rparr>"

definition sink_filter :: "(bytes list \<times> bytes) phi_filter" where
  "sink_filter = \<lparr>pf_open = None, pf_close = None,
     pf_process = (\<lambda>ob (t, (cs, out)).
       (Some (if has_flag t PHI_FFIRST then PHI_DONE else PHI_MORE), t, (cs, out @ t_data_in t)))\<rparr>"

definition demo_filters :: "(bytes list \<times> bytes) phi_filters" where
  "demo_filters n = (if n = ''src'' then src_filter else sink_filter)"

lemma demo_filters_law: "filter_law demo_filters"
  by (auto simp: filter_law_def demo_filters_def src_filter_def sink_filter_def trk_may_def st_may_def
      conv_ext.none split: list.split)

definition demo_core :: "'w trk_core" where
  "demo_core = \<lparr>core_time = (\<lambda>_. (0, 0)), time_sub = (\<lambda>_ b. b), time_add = (\<lambda>a _. a),
     core_task_add = (\<lambda>_ _ w. w), core_task_del = (\<lambda>_ _ w. w), worker_assign = (\<lambda>_ w. (0, w)),
     worker_release = (\<lambda>_ w. w)\<rparr>"

text \<open>A new track with the two filters added, started.\<close>
definition demo_track :: phi_track where
  "demo_track =
     (let t = fst (track_create (demo_core :: (bytes list \<times> bytes) trk_core) 1 phi_track_conf_zero ([], []));
          t1 = upd_conv (\<lambda>v. fst (track_filter v (Some ''src'') False)) t;
          t2 = upd_conv (\<lambda>v. fst (track_filter v (Some ''sink'') False)) t1
      in fst (track_start (demo_core :: (bytes list \<times> bytes) trk_core) (\<lambda>_ w. w) 1 (t2, ([], []))))"

lemma demo_track_conveyor:
  "filters (t_conveyor demo_track) = [0, 1]" "v_cur (t_conveyor demo_track) = 0"
  "i_fpool (t_conveyor demo_track) = 2" "t_state demo_track = ST_RUNNING"
  "filters_pool (t_conveyor demo_track)
     = filter_zero\<lparr>f_iface := ''src''\<rparr> # filter_zero\<lparr>f_iface := ''sink''\<rparr> # replicate 18 filter_zero"
  "t_conf demo_track = phi_track_conf_zero"
  by (simp_all add: demo_track_def track_create_def demo_core_def phi_track_zero_def conveyor_init_def
      track_filter_def trk_filter_add_def track_start_def set_pool_def MAX_FILTERS_def Let_def
      numeral_eq_Suc)

lemma demo_track_ok: "conv_inv (t_conveyor demo_track)" "cur_ok (t_conveyor demo_track)"
  by (auto simp: conv_inv_def cur_ok_def demo_track_conveyor MAX_FILTERS_def filter_zero_def nth_Cons'
      dest!: less_2_cases)

theorem track_run_within_chain_witness:
  "track_run 10 demo_filters demo_core (\<lambda>_ w. w) 1 (demo_track, ([[1], [2, 3]], [])) \<noteq> TrkFault"
  by (rule track_run_within_chain [OF demo_filters_law demo_track_ok, THEN conjunct1])

section \<open>Closing\<close>

text \<open>
  The filters of a track that hold an object, in the order in which \<open>conveyor_close\<close> finds
  them: the filter added last comes first.
\<close>
definition opened :: "phi_conveyor \<Rightarrow> (string \<times> nat) list" where
  "opened v = List.map_filter
     (\<lambda>i. map_option (Pair (f_iface (filters_pool v ! i))) (f_obj (filters_pool v ! i))) (rev [0..<MAX_FILTERS])"

text \<open>Filters whose \<open>close\<close> leaves the track alone; \<open>cl\<close> is what it does to the rest.\<close>
definition close_effect :: "'w phi_filters \<Rightarrow> (string \<Rightarrow> nat \<Rightarrow> 'w \<Rightarrow> 'w) \<Rightarrow> bool" where
  "close_effect F cl \<longleftrightarrow>
     (\<forall>n ob t w. case pf_close (F n) of None \<Rightarrow> cl n ob w = w | Some c \<Rightarrow> c ob (t, w) = (t, cl n ob w))"

lemma conveyor_close1_effect:
  assumes "close_effect F cl" and "i < length (filters_pool (t_conveyor t))"
    and "f = filters_pool (t_conveyor t) ! i"
  shows "\<exists>t'. conveyor_close1 F i (t, w)
      = (t', case f_obj f of None \<Rightarrow> w | Some ob \<Rightarrow> cl (f_iface f) ob w)
    \<and> filters_pool (t_conveyor t') = (filters_pool (t_conveyor t))[i := f\<lparr>f_obj := None\<rparr>]"
proof (cases "f_obj f")
  case None
  then have "f\<lparr>f_obj := None\<rparr> = f" by (cases f) simp
  then have "(filters_pool (t_conveyor t))[i := f\<lparr>f_obj := None\<rparr>] = filters_pool (t_conveyor t)"
    using assms(3) by (simp add: list_update_id)
  with None assms(3) show ?thesis by (simp add: conveyor_close1_def)
next
  case (Some ob)
  have eff: "case pf_close (F (f_iface f)) of None \<Rightarrow> cl (f_iface f) ob w = w
      | Some c \<Rightarrow> c ob (t', w) = (t', cl (f_iface f) ob w)" for t'
    using assms(1) by (simp add: close_effect_def)
  show ?thesis
  proof (cases "pf_close (F (f_iface f))")
    case None
    then show ?thesis using Some eff assms(3) by (simp add: conveyor_close1_def set_pool_def)
  next
    case (Some c)
    then show ?thesis using \<open>f_obj f = Some ob\<close> eff assms(3) by (simp add: conveyor_close1_def set_pool_def)
  qed
qed

lemma conveyor_close_fold:
  assumes eff: "close_effect F cl"
  shows "distinct is \<Longrightarrow> \<forall>i \<in> set is. i < length (filters_pool (t_conveyor t)) \<Longrightarrow>
    \<exists>t'. fold (conveyor_close1 F) is (t, w)
      = (t', fold (\<lambda>(n, ob). cl n ob) (List.map_filter (\<lambda>i. map_option
           (Pair (f_iface (filters_pool (t_conveyor t) ! i))) (f_obj (filters_pool (t_conveyor t) ! i))) is) w)
    \<and> length (filters_pool (t_conveyor t')) = length (filters_pool (t_conveyor t))
    \<and> (\<forall>j. j < length (filters_pool (t_conveyor t)) \<longrightarrow> f_obj (filters_pool (t_conveyor t') ! j)
          = (if j \<in> set is then None else f_obj (filters_pool (t_conveyor t) ! j)))"
proof (induction "is" arbitrary: t w)
  case Nil
  then show ?case by (simp add: List.map_filter_simps)
next
  case (Cons i "is")
  let ?p = "filters_pool (t_conveyor t)"
  have lt: "i < length ?p" using Cons.prems by simp
  from conveyor_close1_effect [OF eff lt refl, of w] obtain t1 where
    1: "conveyor_close1 F i (t, w) = (t1, case f_obj (?p ! i) of None \<Rightarrow> w | Some ob \<Rightarrow> cl (f_iface (?p ! i)) ob w)"
    and p1: "filters_pool (t_conveyor t1) = ?p[i := (?p ! i)\<lparr>f_obj := None\<rparr>]" by blast
  let ?w1 = "case f_obj (?p ! i) of None \<Rightarrow> w | Some ob \<Rightarrow> cl (f_iface (?p ! i)) ob w"
  have same: "List.map_filter (\<lambda>j. map_option (Pair (f_iface (filters_pool (t_conveyor t1) ! j)))
        (f_obj (filters_pool (t_conveyor t1) ! j))) is
    = List.map_filter (\<lambda>j. map_option (Pair (f_iface (?p ! j))) (f_obj (?p ! j))) is"
    using Cons.prems p1 by (intro map_filter_cong) (auto simp: nth_list_update)
  have len1: "length (filters_pool (t_conveyor t1)) = length ?p" using p1 by simp
  then have "\<forall>j \<in> set is. j < length (filters_pool (t_conveyor t1))" using Cons.prems by simp
  from Cons.IH [OF _ this, of ?w1, unfolded same] Cons.prems obtain t' where
    "fold (conveyor_close1 F) is (t1, ?w1) = (t', fold (\<lambda>(n, ob). cl n ob) (List.map_filter (\<lambda>j. map_option
        (Pair (f_iface (?p ! j))) (f_obj (?p ! j))) is) ?w1)"
    "length (filters_pool (t_conveyor t')) = length ?p"
    "\<forall>j. j < length ?p \<longrightarrow> f_obj (filters_pool (t_conveyor t') ! j)
          = (if j \<in> set is then None else f_obj (filters_pool (t_conveyor t1) ! j))"
    using len1 by auto
  then show ?case using 1 p1 lt Cons.prems
    by (auto simp: List.map_filter_simps nth_list_update split: option.splits)
qed


text \<open>Filters that log what is closed.\<close>
definition log_filters :: "(string \<times> nat) list phi_filters" where
  "log_filters n = \<lparr>pf_open = None, pf_close = Some (\<lambda>ob (t, w). (t, w @ [(n, ob)])),
     pf_process = (\<lambda>ob s. (Some PHI_DONE, s))\<rparr>"

definition demo_opened :: phi_track where
  "demo_opened = upd_conv (set_pool 0 (\<lambda>f. f\<lparr>f_obj := Some 5\<rparr>)) (upd_conv (set_pool 1 (\<lambda>f. f\<lparr>f_obj := Some 6\<rparr>)) demo_track)"


section \<open>Stopping\<close>

lemma track_loop_stopping:
  assumes law: "filter_law F"
  shows "conv_inv (t_conveyor t) \<Longrightarrow> cur_ok (t_conveyor t) \<Longrightarrow> t_state t \<in> {ST_STOP, ST_STOPPING} \<Longrightarrow>
    (\<exists>w'. track_loop n F C unlink adr (t, w) = TrkClosed w') \<or> track_loop n F C unlink adr (t, w) = TrkFuel
    \<or> (\<exists>t' w'. track_loop n F C unlink adr (t, w) = TrkAsync t' w' \<and> t_state t' = ST_STOPPING)"
proof (induction n arbitrary: t w)
  case (Suc n)
  then obtain i where ok: "trk_ok i t" using trk_ok_intro by blast
  have st: "t_state (stop_poll t) = ST_STOPPING" using Suc.prems by (auto simp: stop_poll_def)
  obtain r t1 w1 v2 r2 where R0: "timed_filter_run F C i (stop_poll t, w) = (r, t1, w1)"
    "trk_filter_handle_result i r (t_conveyor t1) = (v2, r2)" "trk_ok i t1"
    and R: "st_may (t_state (stop_poll t)) (t_state t1)" "conv_inv v2"
    "goes_on r2 \<or> r2 = PHI_ASYNC \<longrightarrow> cur_ok v2" "goes_on r2 \<or> r2 \<in> {PHI_ASYNC, PHI_FIN, PHI_ERR}"
    "goes_on r2 \<longrightarrow> track_loop (Suc n) F C unlink adr (t, w)
       = track_loop n F C unlink adr (route_data r2 (t1\<lparr>t_conveyor := v2\<rparr>), w1)"
    "r2 = PHI_ASYNC \<longrightarrow> track_loop (Suc n) F C unlink adr (t, w) = TrkAsync (t1\<lparr>t_conveyor := v2\<rparr>) w1"
    "r2 \<in> {PHI_FIN, PHI_ERR} \<longrightarrow> (\<exists>e. track_loop (Suc n) F C unlink adr (t, w)
       = track_fin F C unlink adr (t1\<lparr>t_conveyor := v2, t_error := e\<rparr>, w1))"
    by (rule track_loop_round [OF law ok, where C = C and w = w and n = n and unlink = unlink and adr = adr])
  have st1: "t_state t1 = ST_STOPPING" using R(1) st by (simp add: st_may_def)
  consider "goes_on r2" | "r2 = PHI_ASYNC" | "r2 \<in> {PHI_FIN, PHI_ERR}" using R(4) by blast
  then show ?case
  proof cases
    case 1
    then show ?thesis using R st1 Suc.IH [of "route_data r2 (t1\<lparr>t_conveyor := v2\<rparr>)" w1] by simp
  next
    case 2
    then show ?thesis using R(6) st1 by auto
  next
    case 3
    then show ?thesis using R(7) st1 by (auto simp: track_fin_def)
  qed
qed simp



section \<open>Data flow\<close>

text \<open>A running track with a source and a sink, the source or the sink being next.\<close>
definition pipe :: "(bytes list \<times> bytes) phi_filters \<Rightarrow> nat list \<Rightarrow> u32 \<Rightarrow> nat \<Rightarrow> nat \<Rightarrow> phi_track \<Rightarrow> bool" where
  "pipe F chain c a b t \<longleftrightarrow>
     (let v = t_conveyor t in
      filters v = chain \<and> v_cur v = c \<and> a \<noteq> b \<and> a < length (filters_pool v) \<and> b < length (filters_pool v)
      \<and> F (f_iface (filters_pool v ! a)) = src_filter \<and> F (f_iface (filters_pool v ! b)) = sink_filter
      \<and> \<not> f_backward_skip (filters_pool v ! a) \<and> \<not> f_backward_skip (filters_pool v ! b)
      \<and> t_state t = ST_RUNNING \<and> \<not> c_print_time (t_conf t))"

lemma pipe_stop_poll: "pipe F chain c a b t \<Longrightarrow> stop_poll t = t"
  by (simp add: pipe_def stop_poll_def Let_def)

lemma trk_filter_run_plain:
  assumes "\<not> f_backward_skip (filters_pool (t_conveyor t) ! i)"
    and "pf_open (F (f_iface (filters_pool (t_conveyor t) ! i))) = None"
  obtains ob where "trk_filter_run F i (t, w) = pf_process (F (f_iface (filters_pool (t_conveyor t) ! i))) ob
     (upd_conv (set_pool i (\<lambda>f. f\<lparr>f_obj := Some ob\<rparr>)) (filter_first_flag t), w)"
  using assms
  by (cases "f_obj (filters_pool (t_conveyor t) ! i)")
    (auto simp: trk_filter_run_def filter_unskip_def filter_open_def filter_first_flag_def Let_def)

lemma filter_first_flag_simps [simp]:
  "t_conveyor (filter_first_flag t) = t_conveyor t" "t_data_in (filter_first_flag t) = t_data_in t"
  "t_conf (filter_first_flag t) = t_conf t" "t_state (filter_first_flag t) = t_state t"
  by (simp_all add: filter_first_flag_def Let_def)

lemma filter_first_flag_set:
  "t_chain_flags (filter_first_flag t) AND PHI_FFIRST \<noteq> 0 \<longleftrightarrow> v_cur (t_conveyor t) = 0"
proof -
  have "(x AND NOT 1) AND 1 = 0" "((x AND NOT 1) OR 1) AND 1 = 1" for x :: u32
    by (simp_all add: and.assoc bit.conj_disj_distrib2)
  then show ?thesis by (simp add: filter_first_flag_def PHI_FFIRST_def Let_def)
qed

lemma pipe_source:
  assumes "pipe F [a, b] 0 a b t"
  obtains t' where "track_loop (Suc n) F C u adr (t, (c # cs, out)) = track_loop n F C u adr (t', (cs, out))"
    "pipe F [a, b] 1 a b t'" "t_data_in t' = c"
proof -
  obtain ob where r: "trk_filter_run F a (t, (c # cs, out)) = pf_process src_filter ob
     (upd_conv (set_pool a (\<lambda>f. f\<lparr>f_obj := Some ob\<rparr>)) (filter_first_flag t), (c # cs, out))"
    using trk_filter_run_plain [of t a F "(c # cs, out)"] assms by (auto simp: pipe_def Let_def src_filter_def)
  show thesis
    by (rule that [of "route_data PHI_DATA (upd_conv (\<lambda>v. (set_pool a (\<lambda>f. f\<lparr>f_obj := Some ob\<rparr>) v)\<lparr>v_cur := 1\<rparr>)
            (filter_first_flag t\<lparr>t_data_out := c\<rparr>))"])
      (use assms r in \<open>auto simp: pipe_def pipe_stop_poll [OF assms] timed_filter_run_def src_filter_def
        trk_filter_handle_result_def go_fwd_def route_data_def set_pool_def nth_list_update Let_def\<close>)
qed

lemma pipe_sink:
  assumes "pipe F [a, b] 1 a b t"
  obtains t' where "track_loop (Suc n) F C u adr (t, (cs, out)) = track_loop n F C u adr (t', (cs, out @ t_data_in t))"
    "pipe F [a, b] 0 a b t'"
proof -
  obtain ob where r: "trk_filter_run F b (t, (cs, out)) = pf_process sink_filter ob
     (upd_conv (set_pool b (\<lambda>f. f\<lparr>f_obj := Some ob\<rparr>)) (filter_first_flag t), (cs, out))"
    using trk_filter_run_plain [of t b F "(cs, out)"] assms by (auto simp: pipe_def Let_def sink_filter_def)
  have nf: "\<not> has_flag (upd_conv (set_pool b (\<lambda>f. f\<lparr>f_obj := Some ob\<rparr>)) (filter_first_flag t)) PHI_FFIRST"
    using filter_first_flag_set [of t] assms by (simp add: has_flag_def pipe_def Let_def)
  show thesis
    by (rule that [of "route_data PHI_MORE (upd_conv (\<lambda>v. (set_pool b (\<lambda>f. f\<lparr>f_obj := Some ob\<rparr>) v)\<lparr>v_cur := 0\<rparr>)
            (filter_first_flag t))"])
      (use assms r nf in \<open>auto simp: pipe_def pipe_stop_poll [OF assms] timed_filter_run_def sink_filter_def
        trk_filter_handle_result_def route_data_def set_pool_def nth_list_update Let_def\<close>)
qed

lemma pipe_source_end:
  assumes "pipe F [a, b] 0 a b t"
  obtains t' where "track_loop (Suc n) F C u adr (t, ([], out)) = track_loop n F C u adr (t', ([], out))"
    "pipe F [b] 0 a b t'" "t_data_in t' = []"
proof -
  obtain ob where r: "trk_filter_run F a (t, ([], out)) = pf_process src_filter ob
     (upd_conv (set_pool a (\<lambda>f. f\<lparr>f_obj := Some ob\<rparr>)) (filter_first_flag t), ([], out))"
    using trk_filter_run_plain [of t a F "([], out)"] assms by (auto simp: pipe_def Let_def src_filter_def)
  show thesis
    by (rule that [of "route_data PHI_DATA (upd_conv (\<lambda>v. (set_pool a (\<lambda>f. f\<lparr>f_obj := Some ob\<rparr>) v)\<lparr>filters := [b], v_cur := 0\<rparr>)
            (filter_first_flag t\<lparr>t_data_out := []\<rparr>))"])
      (use assms r in \<open>auto simp: pipe_def pipe_stop_poll [OF assms] timed_filter_run_def src_filter_def
        trk_filter_handle_result_def go_fwd_def route_data_def set_pool_def nth_list_update Let_def\<close>)
qed

lemma conveyor_close_none:
  assumes "\<And>n. pf_close (F n) = None"
  shows "\<exists>t'. conveyor_close F (t, w) = (t', w)"
proof -
  have "\<exists>t'. fold (conveyor_close1 F) is (t, w) = (t', w)" for "is"
    by (induction "is" arbitrary: t) (auto simp: conveyor_close1_def assms split: option.split)
  then show ?thesis by (simp add: conveyor_close_def)
qed

lemma pipe_sink_end:
  assumes "pipe F [b] 0 a b t" and "\<And>n. pf_close (F n) = None"
  shows "\<exists>t'. track_loop (Suc n) F C u adr (t, (cs, out)) = TrkFinished t' (cs, out @ t_data_in t)"
proof -
  obtain ob where r: "trk_filter_run F b (t, (cs, out)) = pf_process sink_filter ob
     (upd_conv (set_pool b (\<lambda>f. f\<lparr>f_obj := Some ob\<rparr>)) (filter_first_flag t), (cs, out))"
    using trk_filter_run_plain [of t b F "(cs, out)"] assms(1) by (auto simp: pipe_def Let_def sink_filter_def)
  let ?t1 = "upd_conv (set_pool b (\<lambda>f. f\<lparr>f_obj := Some ob\<rparr>)) (filter_first_flag t)"
  have f: "has_flag ?t1 PHI_FFIRST"
    using filter_first_flag_set [of t] assms(1) by (simp add: has_flag_def pipe_def Let_def)
  have "track_loop (Suc n) F C u adr (t, (cs, out))
    = track_fin F C u adr (upd_conv (\<lambda>v. v\<lparr>filters := [], v_cur := -1\<rparr>) ?t1, (cs, out @ t_data_in t))"
    using assms(1) r f by (simp add: pipe_def pipe_stop_poll [OF assms(1)] timed_filter_run_def sink_filter_def
        trk_filter_handle_result_def Let_def)
  moreover have "t_state ?t1 = ST_RUNNING" using assms(1) by (simp add: pipe_def Let_def)
  moreover have "\<exists>t'. track_fin F C u adr (t2, w) = TrkFinished t' w" if "t_state t2 = ST_RUNNING" for t2 w
    using that conveyor_close_none [of F "t2\<lparr>t_state := ST_FINISHED,
        t_chain_flags := t_chain_flags t2 OR PHI_FFINISHED\<rparr>" w, OF assms(2)]
    by (auto simp: track_fin_def)
  ultimately show ?thesis by simp
qed

text \<open>
  Property C13: the conveyor moves all data, in order, and the track ends. With a source that
  yields any list of chunks and a sink behind it, \<open>track_run\<close> finishes within two rounds per
  chunk and two more, and the sink has received exactly the concatenation of the chunks; the
  sink learns that it has become the first filter and that no more data comes.
\<close>

theorem track_run_delivers:
  assumes "pipe F [a, b] 0 a b t" and "\<And>n. pf_close (F n) = None"
  shows "\<exists>t'. track_run (2 * length cs + 2) F C unlink adr (t, (cs, out)) = TrkFinished t' ([], out @ concat cs)"
proof -
  have "\<exists>t'. track_loop (2 * length cs + 2) F C unlink adr (t, (cs, out)) = TrkFinished t' ([], out @ concat cs)"
    using assms(1)
  proof (induction cs arbitrary: t out)
    case Nil
    obtain t1 where 1: "track_loop (Suc 1) F C unlink adr (t, ([], out)) = track_loop 1 F C unlink adr (t1, ([], out))"
      "pipe F [b] 0 a b t1" "t_data_in t1 = []" using pipe_source_end [OF Nil] .
    then show ?case using pipe_sink_end [OF 1(2) assms(2), of 0 C unlink adr "[]" out]
      by (simp add: numeral_2_eq_2)
  next
    case (Cons c cs)
    let ?n = "Suc (2 * length cs + 2)"
    obtain t1 where 1: "track_loop (Suc ?n) F C unlink adr (t, (c # cs, out)) = track_loop ?n F C unlink adr (t1, (cs, out))"
      "pipe F [a, b] 1 a b t1" "t_data_in t1 = c" using pipe_source [OF Cons.prems] .
    obtain t2 where 2: "track_loop ?n F C unlink adr (t1, (cs, out))
        = track_loop (2 * length cs + 2) F C unlink adr (t2, (cs, out @ t_data_in t1))"
      "pipe F [a, b] 0 a b t2" using pipe_sink [OF 1(2)] .
    have "2 * length (c # cs) + 2 = Suc ?n" by simp
    then show ?case using 1(1,3) 2(1) Cons.IH [OF 2(2), of "out @ c"] by (simp only: append_assoc concat.simps)
  qed
  moreover have "t_state t = ST_RUNNING" using assms(1) by (simp add: pipe_def Let_def)
  ultimately show ?thesis by (simp add: track_run_def)
qed

theorem track_run_delivers_witness:
  "\<exists>t'. track_run (2 * length [[1 :: u8], [2, 3]] + 2) demo_filters demo_core (\<lambda>_ w. w) 1
     (demo_track, ([[1], [2, 3]], [])) = TrkFinished t' ([], [1, 2, 3])"
proof -
  have "pipe demo_filters [0, 1] 0 0 1 demo_track"
    by (simp add: pipe_def demo_track_conveyor demo_filters_def filter_zero_def phi_track_conf_zero_def)
  moreover have "pf_close (demo_filters n) = None" for n
    by (simp add: demo_filters_def src_filter_def sink_filter_def)
  ultimately have "\<exists>t'. track_run (2 * length [[1 :: u8], [2, 3]] + 2) demo_filters demo_core (\<lambda>_ w. w) 1
     (demo_track, ([[1], [2, 3]], [])) = TrkFinished t' ([], [] @ concat [[1], [2, 3]])"
    by (rule track_run_delivers)
  then show ?thesis by (simp only: append.simps concat.simps)
qed

end
