(* ===== verification/Core.thy ===== *)
theory Core
  imports Util Worker Conveyor "HOL-Library.Multiset"
begin

text \<open>
  \<open>src/core/core.c\<close>: the name table of the core interfaces, loading of modules, and the functions
  that pass a request to a worker. The tables of the \<open>afilter\<close> and \<open>format\<close> modules
  (\<open>src/afilter/afilter.c\<close>, \<open>src/format/mod-fmt.c\<close>), of the HTTP content types
  (\<open>src/net/http.c\<close>) and of the code pages (\<open>src/exe/cmd.h\<close>) use the same search.

  An interface is represented by the name of its C object. The dynamic loader and the modules are
  the record \<open>mod_sys\<close>; a handle of an open library is a number, and the list of open
  libraries is part of the state, so that a call into a library that was closed is visible:
  it is the value \<open>ModFault\<close>.
\<close>

section \<open>Name tables\<close>

definition tbl :: "(string \<times> 'v) list \<Rightarrow> 'v map_sz_vptr list" where
  "tbl m = map (\<lambda>(k, v). (key_pad 16 k, v)) m"

definition core_ifaces :: "(string \<times> string) list" where
  "core_ifaces =
    [(''auto-input'', ''phi_auto_input''), (''auto-output'', ''phi_auto_output''), (''auto-play'', ''phi_autoplay''),
     (''auto-rec'', ''phi_autorec''), (''dir-read'', ''phi_dir_r''), (''file-read'', ''phi_file_r''),
     (''file-write'', ''phi_file_w''), (''queue'', ''phi_queueif''), (''stdin'', ''phi_stdin''),
     (''stdout'', ''phi_stdout''), (''tee'', ''phi_tee'')]"

definition core_iface :: "string \<Rightarrow> string option" where
  "core_iface name = map_sz_vptr_findz2 (tbl core_ifaces) name"

definition af_ifaces :: "(string \<times> string) list" where
  "af_ifaces =
    [(''auto-conv'', ''phi_autoconv''), (''conv'', ''phi_aconv''), (''gain'', ''phi_gain''), (''peaks'', ''phi_peaks''),
     (''rtpeak'', ''phi_rtpeak''), (''silence-gen'', ''phi_sil_gen''), (''until'', ''phi_until''), ([], [])]"

definition af_iface :: "string \<Rightarrow> string option" where
  "af_iface name = map_sz_vptr_find (tbl af_ifaces) name"

definition fmt_inputs :: "(string \<times> string) list" where
  "fmt_inputs =
    [(''aac'', ''phi_aac_adts_read''), (''ape'', ''phi_ape_read''), (''avi'', ''phi_avi_read''), (''caf'', ''phi_caf_read''),
     (''cue'', ''phi_cue_read''), (''flac'', ''phi_flac_read''), (''m3u'', ''phi_m3u_read''), (''m3u8'', ''phi_m3u_read''),
     (''m4a'', ''phi_mp4_read''), (''mka'', ''phi_mkv_read''), (''mkv'', ''phi_mkv_read''), (''mp3'', ''phi_mp3_read''),
     (''mp4'', ''phi_mp4_read''), (''mpc'', ''phi_mpc_read''), (''ogg'', ''phi_ogg_read''), (''opus'', ''phi_ogg_read''),
     (''pls'', ''phi_pls_read''), (''wav'', ''phi_wav_read''), (''wv'', ''phi_wv_read'')]"

definition fmt_mod_iface_input :: "string \<Rightarrow> string option" where
  "fmt_mod_iface_input name = map_sz_vptr_findz2 (tbl fmt_inputs) name"

definition fmt_ifaces :: "(string \<times> string) list" where
  "fmt_ifaces =
    [(''aac'', ''phi_aac_adts_read''), (''ape'', ''phi_ape_read''), (''auto-write'', ''phi_auto_write''), (''avi'', ''phi_avi_read''),
     (''caf'', ''phi_caf_read''), (''cue'', ''phi_cue_read''), (''cue-hook'', ''phi_cue_hook''), (''detect'', ''phi_format_detector''),
     (''flac'', ''phi_flac_read''), (''flacogg'', ''phi_flacogg_read''), (''m3u'', ''phi_m3u_read''), (''m3u-write'', ''phi_m3u_write''),
     (''meta'', ''phi_metaif''), (''mkv'', ''phi_mkv_read''), (''mp3'', ''phi_mp3_read''), (''mp4'', ''phi_mp4_read''),
     (''mpc'', ''phi_mpc_read''), (''ogg'', ''phi_ogg_read''), (''opusmeta'', ''phi_opusmeta_read''), (''pls'', ''phi_pls_read''),
     (''tag'', ''phi_tag''), (''vorbismeta'', ''phi_vorbismeta_read''), (''wav'', ''phi_wav_read''), (''wav-write'', ''phi_wav_write''),
     (''wv'', ''phi_wv_read'')]"

definition fmt_mod_iface :: "string \<Rightarrow> string option" where
  "fmt_mod_iface name = map_sz_vptr_findz2 (tbl fmt_ifaces) name"

definition fmt_outputs :: "(string \<times> string) list" where
  "fmt_outputs =
    [(''aac'', ''phi_aac_adts_write''), (''flac'', ''phi_flac_write''), (''m4a'', ''phi_mp4_write''), (''mp3'', ''phi_mp3_write''),
     (''mp4'', ''phi_mp4_write''), (''ogg'', ''phi_ogg_write''), (''opus'', ''phi_ogg_write''), (''wav'', ''phi_wav_write'')]"

text \<open>
  \<open>phi_autow_process\<close>: the writer for the extension of the output file.
\<close>
definition phi_autow_process :: "ffbase \<Rightarrow> phi_track \<Rightarrow> phi_track \<times> phi_r" where
  "phi_autow_process B t =
     (let ext = snd (snd (ffpath_split3_output B (case of_name (c_ofile (t_conf t)) of None \<Rightarrow> [] | Some n \<Rightarrow> n)))
      in if ext = [] then (t, PHI_ERR)
         else case map_sz_vptr_findstr (tbl fmt_outputs) ext of
           None \<Rightarrow> (t, PHI_ERR)
         | Some f \<Rightarrow>
             (case track_add (Some f) t of (t1, ok) \<Rightarrow>
                if \<not> ok then (t1, PHI_ERR) else (t1\<lparr>t_data_out := t_data_in t1\<rparr>, PHI_DONE)))"

text \<open>The data type for the content type of an HTTP response (\<open>phi_hc_resp\<close>).\<close>
definition ct_ext :: "(string \<times> string) list" where
  "ct_ext = [(''application/ogg'', ''ogg''), (''audio/aac'', ''aac''), (''audio/aacp'', ''aac''), (''audio/mpeg'', ''mp3''),
     (''audio/ogg'', ''ogg'')]"

text \<open>\<open>ffu_coding\<close>: the position in the table of code pages; \<open>None\<close>: -1.\<close>
definition codestr :: "string list" where
  "codestr = [''win866'', ''win1251'', ''win1252'']"

definition ffu_coding :: "(string list \<Rightarrow> nat \<Rightarrow> string \<Rightarrow> nat option) \<Rightarrow> string \<Rightarrow> nat option" where
  "ffu_coding findsorted s = findsorted (map (key_pad 8) codestr) 8 s"

section \<open>Modules\<close>

definition PHI_VERSION_CORE :: u32 where "PHI_VERSION_CORE = 20015"

record phi_mod =
  pm_ver_core :: u32
  pm_iface :: "string \<Rightarrow> string option"
  pm_close :: bool

text \<open>\<open>mod\<close> points into the library it was loaded from.\<close>
record core_mod =
  m_name :: string
  m_dl :: "nat option"
  m_mod :: "(nat \<times> phi_mod) option"

record core_ctx =
  cc_mods :: "core_mod list"
  cc_libs :: "nat list"

record mod_sys =
  ms_split :: "string \<Rightarrow> string \<times> string"     \<comment> \<open>\<open>ffstr_splitby\<close> at the first dot\<close>
  ms_loading :: "string \<Rightarrow> string option"     \<comment> \<open>\<open>core->conf.mod_loading\<close>\<close>
  ms_dlopen :: "string \<Rightarrow> nat option"         \<comment> \<open>\<open>ffdl_open\<close>\<close>
  ms_addr :: "nat \<Rightarrow> bool"                   \<comment> \<open>\<open>ffdl_addr\<close> finds \<open>phi_mod_init\<close>\<close>
  ms_init :: "nat \<Rightarrow> phi_mod option"         \<comment> \<open>\<open>phi_mod_init\<close>\<close>

fun mod_find :: "core_mod list \<Rightarrow> string \<Rightarrow> nat option" where
  "mod_find [] name = None"
| "mod_find (m # ms) name = (if m_name m = name then Some 0 else map_option Suc (mod_find ms name))"

definition mod_create :: "string \<Rightarrow> core_ctx \<Rightarrow> core_ctx \<times> nat" where
  "mod_create name C =
     (C\<lparr>cc_mods := cc_mods C @ [\<lparr>m_name = name, m_dl = None, m_mod = None\<rparr>]\<rparr>, length (cc_mods C))"

text \<open>The handle that is returned, the module object and the open libraries.\<close>
definition mod_load :: "mod_sys \<Rightarrow> core_mod \<Rightarrow> string \<Rightarrow> nat list \<Rightarrow> nat option \<times> core_mod \<times> nat list" where
  "mod_load S m fname libs =
     (case ms_loading S fname of
        None \<Rightarrow> (None, m, libs)
      | Some fn \<Rightarrow>
          (case ms_dlopen S fn of
             None \<Rightarrow> (None, m, libs)
           | Some dl \<Rightarrow>
               (let libs1 = dl # libs in
                if \<not> ms_addr S dl then (Some dl, m, remove1 dl libs1)
                else
                  (let m1 = m\<lparr>m_mod := map_option (Pair dl) (ms_init S dl)\<rparr> in
                   case m_mod m1 of
                     None \<Rightarrow> (Some dl, m1, remove1 dl libs1)
                   | Some (_, pm) \<Rightarrow>
                       if pm_ver_core pm \<noteq> PHI_VERSION_CORE then (Some dl, m1, remove1 dl libs1)
                       else (Some dl, m1, libs1)))))"

datatype mod_res = ModFault | ModRes core_ctx "string option"

text \<open>The call \<open>m->mod->iface(...)\<close>.\<close>
definition mod_call :: "core_ctx \<Rightarrow> nat \<Rightarrow> string \<Rightarrow> mod_res" where
  "mod_call C i iface =
     (if iface = [] then ModRes C None
      else case m_mod (cc_mods C ! i) of
        None \<Rightarrow> ModFault
      | Some (lib, pm) \<Rightarrow> if lib \<in> set (cc_libs C) then ModRes C (pm_iface pm iface) else ModFault)"

definition core_mod_get :: "mod_sys \<Rightarrow> core_ctx \<Rightarrow> string \<Rightarrow> mod_res" where
  "core_mod_get S C name =
     (case ms_split S name of (fname, iface) \<Rightarrow>
        if fname = [] then ModRes C None
        else if fname = ''core'' then ModRes C (core_iface iface)
        else
          (case (case mod_find (cc_mods C) fname of Some i \<Rightarrow> (C, i) | None \<Rightarrow> mod_create fname C) of (C1, i) \<Rightarrow>
             if m_dl (cc_mods C1 ! i) \<noteq> None then mod_call C1 i iface
             else
               (case mod_load S (cc_mods C1 ! i) fname (cc_libs C1) of (dl, m, libs) \<Rightarrow>
                  (let C2 = \<lparr>cc_mods = (cc_mods C1)[i := m\<lparr>m_dl := dl\<rparr>], cc_libs = libs\<rparr> in
                   if dl = None then ModRes C2 None else mod_call C2 i iface))))"

text \<open>\<open>mod_destroy\<close>; \<open>None\<close>: a call into a closed library, or its handle closed again.\<close>
definition mod_destroy :: "core_mod \<Rightarrow> nat list \<Rightarrow> nat list option" where
  "mod_destroy m libs =
     (if (\<exists>lib pm. m_mod m = Some (lib, pm) \<and> pm_close pm \<and> lib \<notin> set libs) then None
      else case m_dl m of
        None \<Rightarrow> Some libs
      | Some dl \<Rightarrow> if dl \<in> set libs then Some (remove1 dl libs) else None)"

fun mods_destroy :: "core_mod list \<Rightarrow> nat list \<Rightarrow> nat list option" where
  "mods_destroy [] libs = Some libs"
| "mods_destroy (m # ms) libs = Option.bind (mod_destroy m libs) (mods_destroy ms)"

section \<open>Requests to a worker\<close>

text \<open>\<open>None\<close>: the assertion on the worker number fails.\<close>
definition on_worker ::
    "('f, 'l, 'q) wrk_ctx \<Rightarrow> nat \<Rightarrow> (('f, 'l, 'q) worker \<Rightarrow> ('f, 'l, 'q) worker) \<Rightarrow> ('f, 'l, 'q) wrk_ctx option" where
  "on_worker wx wid f =
     (if wid < wx_len wx then Some (wx\<lparr>wx_workers := (wx_workers wx)[wid := f (wx_workers wx ! wid)]\<rparr>) else None)"

definition core_timer ::
    "wrk_sys \<Rightarrow> wrk_conf \<Rightarrow> 'q timerq \<Rightarrow> 'f \<Rightarrow> ('f, 'l, 'q) wrk_ctx \<Rightarrow> nat \<Rightarrow> nat \<Rightarrow> int \<Rightarrow> ('f, 'l, 'q) wrk_ctx option" where
  "core_timer sys conf T func wx wid t iv = on_worker wx wid (\<lambda>w. wrk_timer sys conf T func w t iv)"

definition core_task ::
    "int \<Rightarrow> 'l fflist \<Rightarrow> ('f, 'l, 'q) wrk_ctx \<Rightarrow> nat \<Rightarrow> nat \<Rightarrow> 'f option \<Rightarrow> nat option \<Rightarrow> ('f, 'l, 'q) wrk_ctx option" where
  "core_task post L wx wid t func param = on_worker wx wid (\<lambda>w. wrk_task post L w t func param)"

definition core_kev_alloc :: "('f, 'l, 'q) wrk_ctx \<Rightarrow> nat \<Rightarrow> (('f, 'l, 'q) wrk_ctx \<times> nat option) option" where
  "core_kev_alloc wx wid =
     map_option (\<lambda>wx1. (wx1, snd (zzkq_kev_alloc (w_kq (wx_workers wx ! wid)))))
       (on_worker wx wid (\<lambda>w. w\<lparr>w_kq := fst (zzkq_kev_alloc (w_kq w))\<rparr>))"

definition core_kev_free :: "('f, 'l, 'q) wrk_ctx \<Rightarrow> nat \<Rightarrow> nat \<Rightarrow> ('f, 'l, 'q) wrk_ctx option" where
  "core_kev_free wx wid kev =
     (if wid < wx_len wx then
        (case zzkq_kev_free (w_kq (wx_workers wx ! wid)) kev of
           None \<Rightarrow> None
         | Some k \<Rightarrow> on_worker wx wid (\<lambda>w. w\<lparr>w_kq := k\<rparr>))
      else None)"

text \<open>\<open>rd\<close> and \<open>rdwr\<close> are the direction flags of the kernel queue library.\<close>
definition core_kq_attach ::
    "u32 \<Rightarrow> u32 \<Rightarrow> (nat option \<Rightarrow> nat \<Rightarrow> nat \<Rightarrow> u32 \<Rightarrow> int) \<Rightarrow> ('f, 'l, 'q) wrk_ctx \<Rightarrow> nat \<Rightarrow> nat \<Rightarrow> nat \<Rightarrow> u32 \<Rightarrow> int option" where
  "core_kq_attach rd rdwr att wx wid kev fd flags =
     (if wid < wx_len wx then
        (let f = (if flags = 1 then rd else rdwr)
         in Some (if zzkq_attach att (w_kq (wx_workers wx ! wid)) fd kev f \<noteq> 0 then -1 else 0))
      else None)"

definition core_worker_release :: "('f, 'l, 'q) wrk_ctx \<Rightarrow> nat \<Rightarrow> ('f, 'l, 'q) wrk_ctx option" where
  "core_worker_release wx wid = (if wid < wx_len wx then wrkx_release wx wid else None)"

section \<open>The tables are complete\<close>

lemma str_less_char [simp]:
  "str_less (a # as) (b # bs) \<longleftrightarrow> (of_char a :: nat) < of_char b \<or> a = b \<and> str_less as bs"
  by simp

lemma tables_ok:
  "keys_ok 16 (map fst core_ifaces)" "keys_ok 16 (map fst fmt_ifaces)" "keys_ok 16 (map fst fmt_inputs)"
  "keys_ok 16 (map fst fmt_outputs)" "keys_ok 16 (map fst ct_ext)"
  unfolding keys_ok_def core_ifaces_def fmt_ifaces_def fmt_inputs_def fmt_outputs_def ct_ext_def
  by simp_all

lemma map_sz_vptr_find_map_of:
  assumes "\<forall>k \<in> fst ` set m. k \<noteq> [] \<and> NUL \<notin> set k"
  shows "map_sz_vptr_find (tbl (m @ [([], v)])) name = map_of m name"
  using assms
proof (induction m)
  case Nil
  then show ?case by (simp add: tbl_def key_pad_def)
next
  case (Cons kv m)
  then obtain c k w where kv: "kv = (c # k, w)" "c \<noteq> NUL" by (cases kv; cases "fst kv") auto
  then have "key_str (key_pad 16 (c # k)) = c # k" using Cons.prems by (intro key_str_pad) auto
  moreover have "key_pad 16 (c # k) ! 0 = c" by (simp add: key_pad_def)
  ultimately show ?case using Cons kv by (simp add: tbl_def)
qed

text \<open>
  Property C18: every name table is found completely. The binary search over padded keys of 16 bytes
  returns, for every name, exactly what a lookup in the list of pairs returns; this needs every
  table to be in the order of C strings, which the tables of the core, of the format module and of
  the HTTP content types are. The linear search of the audio filters agrees as well.
\<close>

theorem iface_tables_complete:
  assumes "NUL \<notin> set name"
  shows "core_iface name = map_of core_ifaces name \<and> fmt_mod_iface name = map_of fmt_ifaces name
    \<and> fmt_mod_iface_input name = map_of fmt_inputs name
    \<and> map_sz_vptr_findstr (tbl fmt_outputs) name = map_of fmt_outputs name
    \<and> map_sz_vptr_findstr (tbl ct_ext) name = map_of ct_ext name
    \<and> af_iface name = map_of (butlast af_ifaces) name"
proof -
  have "af_iface name = map_of (butlast af_ifaces) name"
    using map_sz_vptr_find_map_of [of "butlast af_ifaces" "[]" name] by (simp add: af_iface_def af_ifaces_def)
  then show ?thesis
    using tables_ok [THEN map_sz_vptr_findz2_map_of [OF _ assms]]
    by (simp add: core_iface_def fmt_mod_iface_def fmt_mod_iface_input_def map_sz_vptr_findstr_def
        map_sz_vptr_findz2_def tbl_def)
qed

theorem iface_tables_complete_witness:
  "core_iface ''tee'' = Some ''phi_tee'' \<and> fmt_mod_iface_input ''m3u8'' = Some ''phi_m3u_read'' \<and> core_iface ''teeth'' = None"
  using iface_tables_complete [of "''tee''"] iface_tables_complete [of "''m3u8''"] iface_tables_complete [of "''teeth''"]
  by (simp add: core_ifaces_def fmt_inputs_def)

text \<open>The table of code pages is not sorted: a search as in \<open>util.h\<close> does not find its first key.\<close>
lemma codepage_table_unsorted:
  "\<not> keys_ok 8 codestr" "ffu_coding ffcharr_findsorted_padding ''win866'' = None" "''win866'' \<in> set codestr"
  by (simp_all add: codestr_def keys_ok_def ffu_coding_def ffcharr_findsorted_padding_def key_cmp_def key_pad_def Let_def)

section \<open>Loading of modules\<close>

text \<open>Every library that can be opened is a module of this version.\<close>
definition good_libs :: "mod_sys \<Rightarrow> bool" where
  "good_libs S \<longleftrightarrow> (\<forall>fn dl. ms_dlopen S fn = Some dl \<longrightarrow>
     ms_addr S dl \<and> (\<exists>pm. ms_init S dl = Some pm \<and> pm_ver_core pm = PHI_VERSION_CORE))"

definition mod_ok :: "core_mod \<Rightarrow> bool" where
  "mod_ok m \<longleftrightarrow> (case m_dl m of None \<Rightarrow> m_mod m = None | Some dl \<Rightarrow> \<exists>pm. m_mod m = Some (dl, pm))"

definition mods_inv :: "core_ctx \<Rightarrow> bool" where
  "mods_inv C \<longleftrightarrow> distinct (map m_name (cc_mods C)) \<and> (\<forall>m \<in> set (cc_mods C). mod_ok m)
     \<and> mset (cc_libs C) = mset (List.map_filter m_dl (cc_mods C))"

lemma mod_find_Some: "mod_find ms name = Some i \<Longrightarrow> i < length ms \<and> m_name (ms ! i) = name"
  by (induction ms arbitrary: i) (auto split: if_splits)

lemma mod_find_None: "mod_find ms name = None \<longleftrightarrow> name \<notin> m_name ` set ms"
  by (induction ms) auto

lemma mod_find_update: "i < length ms \<Longrightarrow> m_name m = m_name (ms ! i) \<Longrightarrow> mod_find (ms[i := m]) name = mod_find ms name"
  by (induction ms arbitrary: i) (auto split: nat.split)

lemma mod_find_append: "mod_find (ms @ [m]) name =
   (case mod_find ms name of Some i \<Rightarrow> Some i | None \<Rightarrow> if m_name m = name then Some (length ms) else None)"
  by (induction ms) (auto split: option.splits)

lemma map_filter_append: "List.map_filter f (xs @ ys) = List.map_filter f xs @ List.map_filter f ys"
  by (simp add: List.map_filter_def)

lemma map_filter_update_None:
  assumes "i < length ms" and "m_dl (ms ! i) = None"
  shows "mset (List.map_filter m_dl (ms[i := m])) = (case m_dl m of None \<Rightarrow> {#} | Some d \<Rightarrow> {#d#}) + mset (List.map_filter m_dl ms)"
proof -
  have u: "ms[i := m] = take i ms @ m # drop (Suc i) ms" using assms(1) by (rule upd_conv_take_nth_drop)
  have d: "ms = take i ms @ ms ! i # drop (Suc i) ms" using assms(1) by (rule id_take_nth_drop)
  have "List.map_filter m_dl ms = List.map_filter m_dl (take i ms) @ List.map_filter m_dl (drop (Suc i) ms)"
    using assms(2) by (subst d) (simp add: map_filter_append List.map_filter_simps del: append_take_drop_id)
  then show ?thesis by (simp add: u map_filter_append List.map_filter_simps split: option.split)
qed

lemma map_filter_in: "m \<in> set ms \<Longrightarrow> m_dl m = Some d \<Longrightarrow> d \<in> set (List.map_filter m_dl ms)"
  by (force simp: List.map_filter_def)

text \<open>Registering a module and loading it keeps the invariant; the result can be called.\<close>
lemma mod_create_inv:
  assumes "mods_inv C" and "mod_find (cc_mods C) name = None" and "mod_create name C = (C1, i)"
  shows "mods_inv C1 \<and> i < length (cc_mods C1) \<and> m_name (cc_mods C1 ! i) = name \<and> mod_find (cc_mods C1) name = Some i"
  using assms assms(2) [unfolded mod_find_None]
  by (auto simp: mods_inv_def mod_create_def mod_find_append map_filter_append List.map_filter_simps mod_ok_def)

lemma mod_load_inv:
  assumes "good_libs S" and "mods_inv C" and "i < length (cc_mods C)" and "m_dl (cc_mods C ! i) = None"
    and "mod_load S (cc_mods C ! i) fname (cc_libs C) = (dl, m, libs)"
    and "C2 = \<lparr>cc_mods = (cc_mods C)[i := m\<lparr>m_dl := dl\<rparr>], cc_libs = libs\<rparr>"
  shows "mods_inv C2 \<and> m_name m = m_name (cc_mods C ! i) \<and> (dl = None \<longrightarrow> C2 = C)"
proof (cases dl)
  case None
  then have "m = cc_mods C ! i" "libs = cc_libs C"
    using assms(5) by (auto simp: mod_load_def Let_def split: option.splits if_splits)
  moreover have "(cc_mods C ! i)\<lparr>m_dl := None\<rparr> = cc_mods C ! i" using assms(4) by (cases "cc_mods C ! i") simp
  ultimately have "C2 = C" using assms(6) None by (cases C) simp
  then show ?thesis using assms(2) None \<open>m = cc_mods C ! i\<close> by simp
next
  case (Some d)
  then obtain pm where m: "m = (cc_mods C ! i)\<lparr>m_mod := Some (d, pm)\<rparr>" and l: "libs = d # cc_libs C"
    using assms(1,5) by (fastforce simp: mod_load_def Let_def good_libs_def split: option.splits if_splits)
  have "map m_name ((cc_mods C)[i := m\<lparr>m_dl := dl\<rparr>]) = map m_name (cc_mods C)"
    using m assms(3) by (simp add: map_update list_update_same_conv)
  moreover have "\<forall>x \<in> set ((cc_mods C)[i := m\<lparr>m_dl := dl\<rparr>]). mod_ok x"
    using assms(2) m Some set_update_subset_insert [of "cc_mods C" i "m\<lparr>m_dl := dl\<rparr>"]
    by (auto simp: mods_inv_def mod_ok_def)
  moreover have "mset (List.map_filter m_dl ((cc_mods C)[i := m\<lparr>m_dl := dl\<rparr>])) = mset (d # cc_libs C)"
    using map_filter_update_None [OF assms(3,4), of "m\<lparr>m_dl := dl\<rparr>"] Some assms(2) by (simp add: mods_inv_def)
  ultimately show ?thesis using assms(2,6) l m Some by (simp add: mods_inv_def)
qed

lemma mod_call_ok:
  assumes "mods_inv C" and "i < length (cc_mods C)" and "m_dl (cc_mods C ! i) \<noteq> None"
  shows "\<exists>r. mod_call C i iface = ModRes C r"
proof -
  obtain d pm where d: "m_dl (cc_mods C ! i) = Some d" "m_mod (cc_mods C ! i) = Some (d, pm)"
    using assms by (fastforce simp: mods_inv_def mod_ok_def split: option.splits)
  have "d \<in> set (List.map_filter m_dl (cc_mods C))" using map_filter_in d(1) assms(2) nth_mem by metis
  then have "d \<in> set (cc_libs C)" using assms(1) by (metis mods_inv_def set_mset_mset)
  then show ?thesis using d by (simp add: mod_call_def)
qed

lemma core_mod_get_load:
  assumes "ms_split S name = (fname, iface)" and "\<not> (fname = [] \<or> fname = ''core'')"
    and "(case mod_find (cc_mods C) fname of Some i \<Rightarrow> (C, i) | None \<Rightarrow> mod_create fname C) = (C1, i)"
    and "m_dl (cc_mods C1 ! i) = None" and "mod_load S (cc_mods C1 ! i) fname (cc_libs C1) = (dl, m, libs)"
    and "C2 = \<lparr>cc_mods = (cc_mods C1)[i := m\<lparr>m_dl := dl\<rparr>], cc_libs = libs\<rparr>"
  shows "core_mod_get S C name = (if dl = None then ModRes C2 None else mod_call C2 i iface)"
  using assms by (simp add: core_mod_get_def Let_def)

text \<open>A request keeps the invariant, does not fault, and repeating it changes nothing.\<close>
lemma core_mod_get_step:
  assumes "good_libs S" and "mods_inv C"
  shows "\<exists>C' r. core_mod_get S C name = ModRes C' r \<and> mods_inv C' \<and> core_mod_get S C' name = ModRes C' r"
proof -
  obtain fname iface where sp: "ms_split S name = (fname, iface)" by fastforce
  show ?thesis
  proof (cases "fname = [] \<or> fname = ''core''")
    case True
    then show ?thesis using assms(2) sp by (auto simp: core_mod_get_def)
  next
    case nm: False
    obtain C1 i where c1: "(case mod_find (cc_mods C) fname of Some i \<Rightarrow> (C, i) | None \<Rightarrow> mod_create fname C) = (C1, i)"
      by fastforce
    have i: "mods_inv C1 \<and> i < length (cc_mods C1) \<and> m_name (cc_mods C1 ! i) = fname \<and> mod_find (cc_mods C1) fname = Some i"
      using c1 assms(2) mod_create_inv [OF assms(2)] mod_find_Some by (fastforce split: option.splits)
    show ?thesis
    proof (cases "m_dl (cc_mods C1 ! i) = None")
      case False
      then obtain r where "mod_call C1 i iface = ModRes C1 r" using mod_call_ok i by blast
      then show ?thesis using nm c1 i sp False by (auto simp: core_mod_get_def)
    next
      case True
      obtain dl m libs where l: "mod_load S (cc_mods C1 ! i) fname (cc_libs C1) = (dl, m, libs)" by (metis prod_cases3)
      define C2 where "C2 = \<lparr>cc_mods = (cc_mods C1)[i := m\<lparr>m_dl := dl\<rparr>], cc_libs = libs\<rparr>"
      have inv: "mods_inv C2" "m_name m = fname" "dl = None \<longrightarrow> C2 = C1"
        using mod_load_inv [OF assms(1) _ _ True l C2_def] i by auto
      have i2: "i < length (cc_mods C2)" "mod_find (cc_mods C2) fname = Some i" "m_dl (cc_mods C2 ! i) = dl"
        using i inv(2) by (simp_all add: C2_def mod_find_update)
      have g: "core_mod_get S C name = (if dl = None then ModRes C2 None else mod_call C2 i iface)"
        by (rule core_mod_get_load [OF sp nm c1 True l C2_def])
      show ?thesis
      proof (cases "dl = None")
        case d: True
        then have "core_mod_get S C2 name = ModRes C2 None"
          using core_mod_get_load [OF sp nm _ True l C2_def, of C1] i inv(3) by simp
        then show ?thesis using g d inv(1) by simp
      next
        case False
        then obtain r where "mod_call C2 i iface = ModRes C2 r" using mod_call_ok inv(1) i2 by metis
        moreover from this have "core_mod_get S C2 name = ModRes C2 r"
          using nm sp i2 False by (simp add: core_mod_get_def)
        ultimately show ?thesis using g False inv(1) by simp
      qed
    qed
  qed
qed

text \<open>The libraries of the modules are closed once each.\<close>
lemma mods_destroy_all:
  "mset libs = mset (List.map_filter m_dl ms) \<Longrightarrow> \<forall>m \<in> set ms. mod_ok m \<Longrightarrow> mods_destroy ms libs = Some []"
proof (induction ms arbitrary: libs)
  case (Cons m ms)
  show ?case
  proof (cases "m_dl m")
    case None
    then show ?thesis using Cons by (simp add: mod_destroy_def mod_ok_def List.map_filter_simps)
  next
    case (Some d)
    then have l: "mset libs = add_mset d (mset (List.map_filter m_dl ms))" using Cons.prems by (simp add: List.map_filter_simps)
    then have "d \<in> set libs" by (metis set_mset_mset union_single_eq_member)
    moreover from this l have "mset (remove1 d libs) = mset (List.map_filter m_dl ms)" by simp
    ultimately show ?thesis using Cons Some by (auto simp: mod_destroy_def mod_ok_def)
  qed
qed (simp add: List.map_filter_simps)

definition core_request :: "mod_sys \<Rightarrow> string \<Rightarrow> core_ctx option \<Rightarrow> core_ctx option" where
  "core_request S name c =
     Option.bind c (\<lambda>C. case core_mod_get S C name of ModFault \<Rightarrow> None | ModRes C' _ \<Rightarrow> Some C')"

definition core_ctx_zero :: core_ctx where
  "core_ctx_zero = \<lparr>cc_mods = [], cc_libs = []\<rparr>"

interpretation mods: op_invariant
  "\<lambda>c. good_libs S \<longrightarrow> (\<exists>C. c = Some C \<and> mods_inv C)" "\<lambda>_ _. True" "core_request S" for S
proof (unfold_locales, intro impI)
  fix c name
  assume "good_libs S" and "good_libs S \<longrightarrow> (\<exists>C. c = Some C \<and> mods_inv C)"
  then obtain C where "c = Some C" "mods_inv C" by blast
  with core_mod_get_step [OF \<open>good_libs S\<close>, of C name]
  show "\<exists>C. core_request S name c = Some C \<and> mods_inv C" by (auto simp: core_request_def)
qed

text \<open>
  Property C19: modules are loaded once. Whatever interfaces are requested and in whatever order, with
  libraries that are modules of this version no request calls into a closed library; every
  module name is registered once and the open libraries are exactly those of the registered
  modules. Requesting an interface again returns the same answer and changes nothing, and when the
  core is destroyed every library is closed exactly once.
\<close>

theorem core_modules_loaded_once:
  assumes "good_libs S"
  shows "\<exists>C. fold (core_request S) names (Some core_ctx_zero) = Some C
    \<and> distinct (map m_name (cc_mods C)) \<and> mset (cc_libs C) = mset (List.map_filter m_dl (cc_mods C))
    \<and> mods_destroy (cc_mods C) (cc_libs C) = Some []
    \<and> (\<forall>name. \<exists>C' r. core_mod_get S C name = ModRes C' r \<and> core_mod_get S C' name = ModRes C' r)"
proof -
  have "\<exists>C. Some core_ctx_zero = Some C \<and> mods_inv C" by (simp add: core_ctx_zero_def mods_inv_def List.map_filter_simps)
  moreover have "ops_ok (\<lambda>_ _. True) (core_request S) names (Some core_ctx_zero)"
    by (rule ops_ok_triv)
  ultimately obtain C where C: "fold (core_request S) names (Some core_ctx_zero) = Some C" "mods_inv C"
    using mods.run_inv [of S "Some core_ctx_zero" names] assms by blast
  then show ?thesis
    using mods_destroy_all [of "cc_libs C" "cc_mods C"] core_mod_get_step [OF assms C(2)]
    by (fastforce simp: mods_inv_def)
qed

definition split_dot :: "string \<Rightarrow> string \<times> string" where
  "split_dot s = (takeWhile (\<lambda>c. c \<noteq> CHR ''.'') s, drop 1 (dropWhile (\<lambda>c. c \<noteq> CHR ''.'') s))"

definition demo_mod_sys :: "u32 \<Rightarrow> mod_sys" where
  "demo_mod_sys ver = \<lparr>ms_split = split_dot, ms_loading = Some, ms_dlopen = (\<lambda>s. Some (length s)), ms_addr = (\<lambda>_. True),
     ms_init = (\<lambda>_. Some \<lparr>pm_ver_core = ver, pm_iface = Some, pm_close = True\<rparr>)\<rparr>"

theorem core_modules_loaded_once_witness:
  "\<exists>C. fold (core_request (demo_mod_sys PHI_VERSION_CORE)) [''afilter.gain'', ''format.meta'', ''afilter.conv''] (Some core_ctx_zero) = Some C
    \<and> mods_destroy (cc_mods C) (cc_libs C) = Some []"
  using core_modules_loaded_once [of "demo_mod_sys PHI_VERSION_CORE" "[''afilter.gain'', ''format.meta'', ''afilter.conv'']"]
  by (auto simp: good_libs_def demo_mod_sys_def)

text \<open>
  A library that is refused is used nevertheless. When \<open>phi_mod_init\<close> is missing, fails, or
  reports another version, \<open>mod_load\<close> closes the library but returns its handle, so that the
  request goes on and calls the module in the closed library.
\<close>

theorem refused_module_is_called:
  assumes "ms_split S name = (fname, iface)" and "fname \<noteq> []" and "fname \<noteq> ''core''" and "iface \<noteq> []"
    and "ms_loading S fname = Some fn" and "ms_dlopen S fn = Some dl" and "dl \<notin> set (cc_libs C)"
    and "mod_find (cc_mods C) fname = None"
    and "ms_addr S dl \<longrightarrow> (case ms_init S dl of None \<Rightarrow> True | Some pm \<Rightarrow> pm_ver_core pm \<noteq> PHI_VERSION_CORE)"
  shows "core_mod_get S C name = ModFault"
  using assms by (auto simp: core_mod_get_def mod_create_def mod_load_def mod_call_def Let_def split: option.splits)

theorem refused_module_is_called_witness:
  "core_mod_get (demo_mod_sys 20014) core_ctx_zero ''afilter.gain'' = ModFault"
  by (rule refused_module_is_called [where fname = "''afilter''" and iface = "''gain''" and fn = "''afilter''" and dl = 7])
    (simp_all add: demo_mod_sys_def split_dot_def core_ctx_zero_def PHI_VERSION_CORE_def)

end
