(* ===== verification/Detector.thy ===== *)
theory Detector
  imports Core
begin

text \<open>
  \<open>src/format/detector.h\<close>: the format of a file from its first bytes, and the filter that adds the
  reader for it; \<open>src/core/auto.c\<close>: the filters that add the input, output, playback and recording
  filters; \<open>src/format/meta.h\<close>: the meta data of a track.

  A read outside of the data that was given is the value \<open>None\<close>. The search for an interface by
  name, \<open>core->mod\<close>, is the parameter \<open>cmod\<close>. The meta data is the list of the names and
  values in turn, as in the vector of the code.
\<close>

section \<open>Recognizing a format\<close>

datatype file_format =
    FILE_UNK | FILE_AVI | FILE_CAF | FILE_FLAC | FILE_M3U | FILE_MKV | FILE_MP3 | FILE_MP4
  | FILE_OGG | FILE_PLS | FILE_WAV | FILE_WV | FILE_ID3

text \<open>The value of the enumeration.\<close>
fun file_format_num :: "file_format \<Rightarrow> nat" where
  "file_format_num FILE_UNK = 0" | "file_format_num FILE_AVI = 1" | "file_format_num FILE_CAF = 2"
| "file_format_num FILE_FLAC = 3" | "file_format_num FILE_M3U = 4" | "file_format_num FILE_MKV = 5"
| "file_format_num FILE_MP3 = 6" | "file_format_num FILE_MP4 = 7" | "file_format_num FILE_OGG = 8"
| "file_format_num FILE_PLS = 9" | "file_format_num FILE_WAV = 10" | "file_format_num FILE_WV = 11"
| "file_format_num FILE_ID3 = 12"

definition file_ext :: "string list" where
  "file_ext = [''avi'', ''caf'', ''flac'', ''m3u'', ''mkv'', ''mp3'', ''mp4'', ''ogg'', ''pls'', ''wav'', ''wv'', '''']"

text \<open>\<open>None\<close>: a read in front of the table.\<close>
definition file_ext_str :: "nat \<Rightarrow> string option" where
  "file_ext_str i =
     (let i = (if i = file_format_num FILE_ID3 then file_format_num FILE_MP3 else i) in
      if i \<ge> length file_ext then Some '''' else if i = 0 then None else Some (file_ext ! (i - 1)))"

text \<open>\<open>ffmem_cmp (&d[off], s, n) == 0\<close> and \<open>d[i]\<close>, checked.\<close>
definition bytes_eq :: "bytes \<Rightarrow> nat \<Rightarrow> bytes \<Rightarrow> bool option" where
  "bytes_eq d off s = (if off + length s \<le> length d then Some (take (length s) (drop off d) = s) else None)"

definition byte_at :: "bytes \<Rightarrow> nat \<Rightarrow> u8 option" where
  "byte_at d i = (if i < length d then Some (d ! i) else None)"

text \<open>\<open>a && b\<close>: the second operand is read only if the first holds.\<close>
definition and_also :: "bool option \<Rightarrow> bool option \<Rightarrow> bool option" where
  "and_also a b = (case a of None \<Rightarrow> None | Some False \<Rightarrow> Some False | Some True \<Rightarrow> b)"

definition str_bytes :: "string \<Rightarrow> bytes" where
  "str_bytes s = map of_char s"

text \<open>One test: at least \<open>n\<close> bytes and a condition, or the tests behind it.\<close>
definition on_format :: "bytes \<Rightarrow> nat \<Rightarrow> bool option \<Rightarrow> file_format \<Rightarrow> file_format option \<Rightarrow> file_format option" where
  "on_format d n cnd fmt rest =
     (if n \<le> length d then (case cnd of None \<Rightarrow> None | Some True \<Rightarrow> Some fmt | Some False \<Rightarrow> rest) else rest)"

definition is_nl :: "u8 \<Rightarrow> bool" where
  "is_nl b \<longleftrightarrow> b = 0x0d \<or> b = 0x0a"

definition be32 :: "bytes \<Rightarrow> nat" where
  "be32 b = unat (b ! 0) * 2 ^ 24 + unat (b ! 1) * 2 ^ 16 + unat (b ! 2) * 2 ^ 8 + unat (b ! 3)"

definition file_format_detect :: "bytes \<Rightarrow> file_format option" where
  "file_format_detect d =
     on_format d 12 (and_also (bytes_eq d 0 (str_bytes ''RIFF'')) (bytes_eq d 8 (str_bytes ''WAVE''))) FILE_WAV
    (on_format d 12 (and_also (bytes_eq d 0 (str_bytes ''RIFF'')) (bytes_eq d 8 (str_bytes ''AVI ''))) FILE_AVI
    (on_format d 11 (and_also (bytes_eq d 0 (str_bytes ''[playlist]'')) (map_option is_nl (byte_at d 10))) FILE_PLS
    (on_format d 10 (and_also (bytes_eq d 0 (str_bytes ''wvpk'')) (map_option (\<lambda>b. b = 4) (byte_at d 9))) FILE_WV
    (on_format d 8 (and_also (bytes_eq d 4 (str_bytes ''ftyp''))
                      (if 4 \<le> length d then Some (be32 d \<le> 255) else None)) FILE_MP4
    (on_format d 8 (bytes_eq d 0 (str_bytes ''caff'' @ [0, 1, 0, 0])) FILE_CAF
    (on_format d 8 (and_also (bytes_eq d 0 (str_bytes ''#EXTM3U'')) (map_option is_nl (byte_at d 7))) FILE_M3U
    (on_format d 5 (and_also (bytes_eq d 0 (str_bytes ''OggS'')) (map_option (\<lambda>b. b = 0) (byte_at d 4))) FILE_OGG
    (on_format d 5 (and_also (bytes_eq d 0 (str_bytes ''fLaC'')) (map_option (\<lambda>b. b AND 0x7f < 9) (byte_at d 4))) FILE_FLAC
    (on_format d 5 (and_also (bytes_eq d 0 (str_bytes ''ID3''))
                      (and_also (map_option (\<lambda>b. b \<le> 9) (byte_at d 3)) (map_option (\<lambda>b. b \<le> 9) (byte_at d 4)))) FILE_ID3
    (on_format d 4 (bytes_eq d 0 [0x1a, 0x45, 0xdf, 0xa3]) FILE_MKV
    (on_format d 2 (and_also (map_option (\<lambda>b. b = 0xff) (byte_at d 0))
                      (map_option (\<lambda>b. b AND 0xe0 = 0xe0 \<and> b AND 0x18 = 0x18 \<and> b AND 0x06 = 2) (byte_at d 1))) FILE_MP3
    (Some FILE_UNK))))))))))))"

text \<open>The end of \<open>fdetcr_open\<close>: the position of a track of a cue sheet, then the reader.\<close>
definition fdetcr_add :: "(string \<Rightarrow> string option) \<Rightarrow> string option \<Rightarrow> phi_track \<Rightarrow> phi_track \<times> phi_open" where
  "fdetcr_add cmod f t =
     (let cue = (c_seek_cdframes (t_conf t) \<noteq> 0 \<or> c_until_cdframes (t_conf t) \<noteq> 0);
          seek = a_seek (t_audio t) + c_seek_cdframes (t_conf t) * 1000 div 75;
          (t1, ok) = (if cue then track_add (cmod ''format.cue-hook'')
                            (t\<lparr>t_audio := (t_audio t)\<lparr>a_seek := seek, a_seek_req := (seek > 0)\<rparr>\<rparr>)
                      else (t, True))
      in if \<not> ok then (t1, OpenErr)
         else case track_add f t1 of (t2, ok2) \<Rightarrow> (t2, if ok2 then OpenSkip else OpenErr))"

text \<open>\<open>fdetcr_open\<close>. \<open>ieq\<close> is the comparison of strings without regard to case.\<close>
definition fdetcr_open ::
    "ffbase \<Rightarrow> (string \<Rightarrow> string \<Rightarrow> bool) \<Rightarrow> (string \<Rightarrow> string option) \<Rightarrow> phi_track \<Rightarrow> (phi_track \<times> phi_open) option" where
  "fdetcr_open B ieq cmod t =
     (let fn = (case if_name (c_ifile (t_conf t)) of None \<Rightarrow> [] | Some n \<Rightarrow> n);
          ext0 = (case t_data_type t of Some ty \<Rightarrow> ty | None \<Rightarrow> snd (snd (ffpath_split3_str B fn)))
      in case file_format_detect (t_data_in t) of
           None \<Rightarrow> None
         | Some r0 \<Rightarrow>
             (let r = (if r0 = FILE_ID3 then if ieq ext0 ''flac'' then FILE_FLAC else FILE_MP3 else r0);
                  ext = (if r = FILE_UNK then ext0 else file_ext ! (file_format_num r - 1));
                  f = (if ext \<noteq> [] then fmt_mod_iface_input ext else None)
              in if f = None then Some (t\<lparr>t_error := PHI_E_UNKIFMT\<rparr>, OpenErr)
                 else Some (fdetcr_add cmod f t)))"

section \<open>Automatic filters\<close>

text \<open>The lists of modules are those of a Linux system.\<close>
definition rec_mods :: "string list" where "rec_mods = [''pulse.rec'', ''alsa.rec'', ''jack.rec'']"

definition play_mods :: "string list" where "play_mods = [''pulse.play'', ''alsa.play'']"

text \<open>The loop over the modules: the first one that exists is added.\<close>
fun add_first :: "(string \<Rightarrow> string option) \<Rightarrow> string list \<Rightarrow> phi_track \<Rightarrow> phi_track \<times> phi_open" where
  "add_first cmod [] t = (t, OpenErr)"
| "add_first cmod (m # ms) t =
     (case cmod m of
        None \<Rightarrow> add_first cmod ms t
      | Some f \<Rightarrow> (case track_add (Some f) t of (t1, ok) \<Rightarrow> (t1, if ok then OpenSkip else OpenErr)))"

definition phi_autorec_open :: "(string \<Rightarrow> string option) \<Rightarrow> phi_track \<Rightarrow> phi_track \<times> phi_open" where
  "phi_autorec_open cmod t = add_first cmod rec_mods t"

definition phi_autoplay_open :: "(string \<Rightarrow> string option) \<Rightarrow> phi_track \<Rightarrow> phi_track \<times> phi_open" where
  "phi_autoplay_open cmod t = add_first cmod play_mods t"

text \<open>\<open>match\<close> is \<open>ffsz_matchz\<close>, \<open>isdir\<close> whether the path is a directory.\<close>
definition phi_autoinput_open ::
    "(string \<Rightarrow> string \<Rightarrow> bool) \<Rightarrow> (string \<Rightarrow> bool) \<Rightarrow> (string \<Rightarrow> string option) \<Rightarrow> phi_track \<Rightarrow> phi_track \<times> phi_open" where
  "phi_autoinput_open match isdir cmod t =
     (let name = (case if_name (c_ifile (t_conf t)) of None \<Rightarrow> [] | Some n \<Rightarrow> n);
          fname = (if name = ''@stdin'' then ''core.stdin''
                   else if match name ''http://'' \<or> match name ''https://'' then ''http.client''
                   else if isdir name then ''core.dir-read'' else ''core.file-read'')
      in case track_add (cmod fname) t of (t1, ok) \<Rightarrow> (t1, if ok then OpenSkip else OpenErr))"

definition phi_auto_out_open :: "ffbase \<Rightarrow> (string \<Rightarrow> string option) \<Rightarrow> phi_track \<Rightarrow> phi_track \<times> phi_open" where
  "phi_auto_out_open B cmod t =
     (let fn = fst (fs_splitname B (case of_name (c_ofile (t_conf t)) of None \<Rightarrow> [] | Some n \<Rightarrow> n));
          fname = (if fn = ''@stdout'' then ''core.stdout'' else ''core.file-write'')
      in case track_add (cmod fname) t of (t1, ok) \<Rightarrow> (t1, if ok then OpenSkip else OpenErr))"

section \<open>Meta data\<close>

definition PHI_META_UNIQUE :: u32 where "PHI_META_UNIQUE = 1"
definition PHI_META_PRIVATE :: u32 where "PHI_META_PRIVATE = 2"
definition PHI_META_REPLACE :: u32 where "PHI_META_REPLACE = 1"

text \<open>The loop of \<open>meta_set\<close> with \<open>PHI_META_REPLACE\<close>; \<open>None\<close>: no pair has the name.\<close>
fun meta_replace :: "string list \<Rightarrow> string \<Rightarrow> string \<Rightarrow> string list option" where
  "meta_replace (k # v # m) name val =
     (if name = k then Some (name # val # m) else map_option (\<lambda>m1. k # v # m1) (meta_replace m name val))"
| "meta_replace _ name val = None"

definition meta_set :: "string list \<Rightarrow> string \<Rightarrow> string \<Rightarrow> u32 \<Rightarrow> string list" where
  "meta_set m name val flags =
     (if name = [] then m
      else case (if flags AND PHI_META_REPLACE \<noteq> 0 then meta_replace m name val else None) of
        Some m1 \<Rightarrow> m1
      | None \<Rightarrow> m @ [name, val])"

fun meta_copy :: "string list \<Rightarrow> string list \<Rightarrow> string list" where
  "meta_copy dst (k # v # src) = meta_copy (meta_set dst k v 0) src"
| "meta_copy dst _ = dst"

text \<open>
  The string functions of the base library that are used here: \<open>mt_match\<close> is \<open>ffstr_matchz\<close>, \<open>mt_ieq\<close>
  is \<open>ffstr_ieqz\<close>.
\<close>
record meta_strs =
  mt_match :: "string \<Rightarrow> string \<Rightarrow> bool"
  mt_ieq :: "string \<Rightarrow> string \<Rightarrow> bool"

text \<open>The scan for an earlier pair with the same name: \<open>ks\<close> are the names before the pair.\<close>
definition meta_dup :: "meta_strs \<Rightarrow> string list \<Rightarrow> nat \<Rightarrow> bool" where
  "meta_dup S m i = (\<exists>j < i. mt_ieq S (m ! (2 * i)) (m ! (2 * j)))"

datatype meta_item = MetaEnd | MetaItem nat string string | MetaFault

text \<open>\<open>meta_list\<close>: the new index with the name and the value.\<close>
function meta_list :: "meta_strs \<Rightarrow> string list \<Rightarrow> nat \<Rightarrow> u32 \<Rightarrow> meta_item" where
  "meta_list S m i flags =
     (if i * 2 = length m then MetaEnd
      else if length m \<le> i * 2 + 1 then MetaFault
      else
        (let k = m ! (i * 2); v = m ! (i * 2 + 1) in
         if flags AND PHI_META_PRIVATE = 0 \<and> mt_match S k ''_phi_'' then meta_list S m (i + 1) flags
         else if flags AND PHI_META_UNIQUE \<noteq> 0 \<and> meta_dup S m i then meta_list S m (i + 1) flags
         else MetaItem (i + 1) k v))"
  by pat_completeness auto
termination by (relation "measure (\<lambda>(S, m, i, flags). length m - 2 * i)") auto

declare meta_list.simps [simp del]

lemma meta_list_Item:
  "meta_list S m i flags = MetaItem i1 n v \<Longrightarrow> i < i1 \<and> 2 * i1 \<le> length m"
proof (induction S m i flags rule: meta_list.induct)
  case (1 S m i flags)
  show ?case using 1(3) 1(1,2) [OF _ _ refl refl] by (auto simp: meta_list.simps [of S m i] Let_def split: if_splits)
qed

text \<open>The loop of \<open>meta_find\<close>; the outer \<open>None\<close> is a read outside of the vector, the inner one -1.\<close>
function meta_find_from :: "meta_strs \<Rightarrow> string list \<Rightarrow> nat \<Rightarrow> string \<Rightarrow> u32 \<Rightarrow> string option option" where
  "meta_find_from S m i name flags =
     (case meta_list S m i flags of
        MetaEnd \<Rightarrow> Some None
      | MetaFault \<Rightarrow> None
      | MetaItem i1 n v \<Rightarrow> if n = name then Some (Some v) else meta_find_from S m i1 name flags)"
  by pat_completeness auto
termination
  by (relation "measure (\<lambda>(S, m, i, name, flags). length m - 2 * i)") (auto dest: meta_list_Item)

declare meta_find_from.simps [simp del]

definition meta_find :: "meta_strs \<Rightarrow> string list \<Rightarrow> string \<Rightarrow> u32 \<Rightarrow> string option option" where
  "meta_find S m name flags = meta_find_from S m 0 name flags"

section \<open>The detector\<close>

lemma on_format_total: "(n \<le> length d \<Longrightarrow> cnd \<noteq> None) \<Longrightarrow> rest \<noteq> None \<Longrightarrow> on_format d n cnd fmt rest \<noteq> None"
  by (auto simp: on_format_def split: option.splits bool.splits)

lemma and_also_total: "a \<noteq> None \<Longrightarrow> b \<noteq> None \<Longrightarrow> and_also a b \<noteq> None"
  by (auto simp: and_also_def split: bool.splits)

lemma bytes_eq_total: "off + length s \<le> length d \<Longrightarrow> bytes_eq d off s \<noteq> None"
  by (simp add: bytes_eq_def)

lemma byte_at_total: "i < length d \<Longrightarrow> map_option f (byte_at d i) \<noteq> None"
  by (simp add: byte_at_def)

text \<open>No test reads past the data, whatever its length.\<close>
lemma file_format_detect_total: "\<exists>r. file_format_detect d = Some r"
proof -
  have "file_format_detect d \<noteq> None"
    unfolding file_format_detect_def
    by (intro on_format_total and_also_total bytes_eq_total byte_at_total) (auto simp: str_bytes_def)
  then show ?thesis by blast
qed

lemma fmt_inputs_map_of: "NUL \<notin> set name \<Longrightarrow> fmt_mod_iface_input name = map_of fmt_inputs name"
  using tables_ok [THEN map_sz_vptr_findz2_map_of, of name]
  by (simp add: fmt_mod_iface_input_def map_sz_vptr_findz2_def tbl_def)

text \<open>Every format that is recognized has a reader.\<close>
lemma file_ext_reader:
  assumes "r \<noteq> FILE_UNK" and "r \<noteq> FILE_ID3"
  shows "file_ext ! (file_format_num r - 1) \<noteq> []" and "fmt_mod_iface_input (file_ext ! (file_format_num r - 1)) \<noteq> None"
  using assms by (cases r; simp add: file_ext_def fmt_inputs_map_of fmt_inputs_def)+

lemma track_add_error: "track_add f t = (t1, ok) \<Longrightarrow> t_error t1 = t_error t"
  by (auto simp: track_add_def split: prod.splits)

lemma fdetcr_add_error: "fdetcr_add cmod f t = (t1, r) \<Longrightarrow> t_error t1 = t_error t"
  by (auto simp: fdetcr_add_def Let_def dest!: track_add_error split: prod.splits if_splits)

text \<open>
  Property C26: the format detector never reads past the data it is given, whatever its length, and a file
  whose header is recognized is never rejected as an unknown format: the table of readers has
  an entry for the extension of every format, for an ID3 header also when it precedes FLAC data.
\<close>

theorem detector_total:
  "\<exists>t' r. fdetcr_open B ieq cmod t = Some (t', r)
     \<and> (file_format_detect (t_data_in t) \<noteq> Some FILE_UNK \<longrightarrow> t_error t' = t_error t)"
proof -
  obtain r0 where r0: "file_format_detect (t_data_in t) = Some r0" using file_format_detect_total by blast
  define ext0 where "ext0 = (case t_data_type t of Some ty \<Rightarrow> ty
    | None \<Rightarrow> snd (snd (ffpath_split3_str B (case if_name (c_ifile (t_conf t)) of None \<Rightarrow> [] | Some n \<Rightarrow> n))))"
  define r where "r = (if r0 = FILE_ID3 then if ieq ext0 ''flac'' then FILE_FLAC else FILE_MP3 else r0)"
  define ext where "ext = (if r = FILE_UNK then ext0 else file_ext ! (file_format_num r - 1))"
  define f where "f = (if ext \<noteq> [] then fmt_mod_iface_input ext else None)"
  have eq: "fdetcr_open B ieq cmod t = (if f = None then Some (t\<lparr>t_error := PHI_E_UNKIFMT\<rparr>, OpenErr) else Some (fdetcr_add cmod f t))"
    unfolding fdetcr_open_def Let_def r0 option.case f_def ext_def r_def ext0_def by (rule refl)
  show ?thesis
  proof (cases "r0 = FILE_UNK")
    case True
    then show ?thesis using eq r0 by (cases "fdetcr_add cmod f t") simp
  next
    case False
    then have "r \<noteq> FILE_UNK" "r \<noteq> FILE_ID3" by (auto simp: r_def)
    then have "f \<noteq> None" using file_ext_reader [of r] by (simp add: f_def ext_def)
    then show ?thesis using eq fdetcr_add_error by (cases "fdetcr_add cmod f t") auto
  qed
qed

text \<open>The string functions of the base library, in an instance that splits nothing.\<close>
definition demo_base :: ffbase where
  "demo_base = \<lparr>fs_findchar = (\<lambda>s c. first_pos (\<lambda>x. x = c) s), fs_skip_word = first_pos (\<lambda>x. \<not> word_char x),
     fs_skipchar = (\<lambda>s c. dropWhile (\<lambda>x. x = c) s), fs_rskipchar = (\<lambda>s c. rev (dropWhile (\<lambda>x. x = c) (rev s))),
     fs_rsplitby = (\<lambda>s c. (s, [])), fs_splitpath = (\<lambda>s. ([], s)), fs_splitname = (\<lambda>s. (s, []))\<rparr>"

theorem detector_total_witness:
  "\<exists>t' r. fdetcr_open demo_base (=) (\<lambda>_. None) (phi_track_zero\<lparr>t_data_in := str_bytes ''OggS'' @ [0, 2]\<rparr>) = Some (t', r) \<and> t_error t' = 0"
proof -
  let ?t = "phi_track_zero\<lparr>t_data_in := str_bytes ''OggS'' @ [0, 2]\<rparr>"
  have "file_format_detect (t_data_in ?t) \<noteq> Some FILE_UNK" "t_error ?t = 0"
    by (simp_all add: file_format_detect_def on_format_def and_also_def bytes_eq_def byte_at_def str_bytes_def phi_track_zero_def)
  then show ?thesis using detector_total [of demo_base "(=)" "\<lambda>_. None" ?t] by simp
qed

section \<open>Finding what was set\<close>

text \<open>A store of values by name: the contract of the readers and writers of meta data.\<close>

locale kv_store =
  fixes inv :: "'m \<Rightarrow> bool" and ok :: "'k \<Rightarrow> bool"
    and get :: "'m \<Rightarrow> 'k \<Rightarrow> 'v option" and put :: "'k \<Rightarrow> 'v \<Rightarrow> 'm \<Rightarrow> 'm"
  assumes put_inv: "inv m \<Longrightarrow> ok k \<Longrightarrow> inv (put k v m)"
    and get_put: "inv m \<Longrightarrow> ok k \<Longrightarrow> get (put k v m) k' = (if k' = k then Some v else get m k')"
begin

lemma get_puts:
  assumes "inv m" and "\<forall>kv \<in> set kvs. ok (fst kv)"
  shows "inv (fold (\<lambda>(k, v). put k v) kvs m)
    \<and> get (fold (\<lambda>(k, v). put k v) kvs m) k' = (case map_of (rev kvs) k' of None \<Rightarrow> get m k' | Some v \<Rightarrow> Some v)"
  using assms
proof (induction kvs rule: rev_induct)
  case (snoc kv kvs)
  then show ?case by (cases kv) (auto intro: put_inv simp: get_put)
qed simp

end

fun meta_pairs :: "string list \<Rightarrow> (string \<times> string) list" where
  "meta_pairs (k # v # m) = (k, v) # meta_pairs m"
| "meta_pairs _ = []"

lemma meta_pairs_length: "length (meta_pairs m) = length m div 2"
  by (induction m rule: meta_pairs.induct) simp_all

lemma meta_pairs_nth: "2 * i + 1 < length m \<Longrightarrow> meta_pairs m ! i = (m ! (2 * i), m ! (2 * i + 1))"
proof (induction m arbitrary: i rule: meta_pairs.induct)
  case (1 k v m)
  then show ?case by (cases i) simp_all
qed simp_all

lemma meta_pairs_append: "even (length m) \<Longrightarrow> meta_pairs (m @ m') = meta_pairs m @ meta_pairs m'"
  by (induction m rule: meta_pairs.induct) auto

text \<open>The pairs that a search with these flags sees.\<close>
definition meta_visible :: "meta_strs \<Rightarrow> u32 \<Rightarrow> string \<Rightarrow> bool" where
  "meta_visible S flags k \<longleftrightarrow> flags AND PHI_META_PRIVATE \<noteq> 0 \<or> \<not> mt_match S k ''_phi_''"

lemma map_of_visible: "map_of (filter (\<lambda>(k, v). P k) ps) n = (if P n then map_of ps n else None)"
  by (induction ps) auto

lemma meta_find_from_pairs:
  assumes "even (length m)" and "2 * i \<le> length m" and "flags AND PHI_META_UNIQUE = 0"
  shows "meta_find_from S m i name flags
    = Some (map_of (filter (\<lambda>(k, v). meta_visible S flags k) (drop i (meta_pairs m))) name)"
  using assms(2)
proof (induction "length m - 2 * i" arbitrary: i rule: less_induct)
  case less
  show ?case
  proof (cases "2 * i = length m")
    case True
    then have "meta_list S m i flags = MetaEnd" by (simp add: meta_list.simps [of S m i])
    then show ?thesis using True meta_pairs_length [of m] by (simp add: meta_find_from.simps [of S m i])
  next
    case False
    then have i: "2 * i + 1 < length m" using less.prems assms(1) by presburger
    let ?k = "m ! (2 * i)" and ?v = "m ! (2 * i + 1)"
    have d: "drop i (meta_pairs m) = (?k, ?v) # drop (Suc i) (meta_pairs m)"
      using i meta_pairs_length [of m] meta_pairs_nth [OF i] Cons_nth_drop_Suc [of i "meta_pairs m"] by simp
    have IH: "meta_find_from S m (Suc i) name flags
      = Some (map_of (filter (\<lambda>(k, v). meta_visible S flags k) (drop (Suc i) (meta_pairs m))) name)"
      using less.hyps [of "Suc i"] i by simp
    show ?thesis
    proof (cases "meta_visible S flags ?k")
      case True
      then have "meta_list S m i flags = MetaItem (Suc i) ?k ?v"
        using i assms(3) by (auto simp: meta_list.simps [of S m i] Let_def meta_visible_def mult.commute)
      then show ?thesis using True d IH by (simp add: meta_find_from.simps [of S m i])
    next
      case False
      then have "meta_list S m i flags = meta_list S m (Suc i) flags"
        using i by (simp add: meta_list.simps [of S m i] Let_def meta_visible_def mult.commute)
      then have "meta_find_from S m i name flags = meta_find_from S m (Suc i) name flags"
        by (simp add: meta_find_from.simps [of S m i] meta_find_from.simps [of S m "Suc i"])
      then show ?thesis using False d IH by simp
    qed
  qed
qed

lemma meta_find_map_of:
  assumes "even (length m)" and "flags AND PHI_META_UNIQUE = 0"
  shows "meta_find S m name flags = Some (if meta_visible S flags name then map_of (meta_pairs m) name else None)"
  using meta_find_from_pairs [OF assms(1) _ assms(2), of 0 S name]
  by (simp add: meta_find_def map_of_visible [where P = "meta_visible S flags"])

lemma meta_replace_map_of:
  "case meta_replace m name val of
     None \<Rightarrow> map_of (meta_pairs m) name = None
   | Some m1 \<Rightarrow> length m1 = length m \<and> map_of (meta_pairs m1) = (map_of (meta_pairs m))(name \<mapsto> val)"
  by (induction m name val rule: meta_replace.induct) (auto simp: fun_upd_twist split: option.splits)

text \<open>What a call of \<open>meta_set\<close> does to the finite map of the pairs.\<close>
lemma meta_set_map_of:
  assumes "even (length m)" and "name \<noteq> []"
  shows "even (length (meta_set m name val flags))"
    and "map_of (meta_pairs (meta_set m name val flags)) =
      (if flags AND PHI_META_REPLACE \<noteq> 0 \<or> map_of (meta_pairs m) name = None
       then (map_of (meta_pairs m))(name \<mapsto> val) else map_of (meta_pairs m))"
  using assms meta_replace_map_of [of m name val] meta_pairs_append [OF assms(1), of "[name, val]"]
  by (auto simp: meta_set_def map_add_def fun_eq_iff split: option.splits)

interpretation meta: kv_store "\<lambda>m. even (length m)" "\<lambda>k. k \<noteq> []"
    "\<lambda>m k. the (meta_find S m k PHI_META_PRIVATE)" "\<lambda>k v m. meta_set m k v PHI_META_REPLACE" for S
  by unfold_locales
    (auto simp: meta_set_map_of meta_find_map_of meta_visible_def PHI_META_PRIVATE_def PHI_META_UNIQUE_def PHI_META_REPLACE_def)

text \<open>
  Meta data is found as it was set. After any sequence of replacing \<open>meta_set\<close> calls,
  \<open>meta_find\<close> returns for every name the value of the last call for it, and what it returned before for every
  other name; a call that does not replace never changes the value found for a name that is
  already there. The vector always holds whole pairs, so no search leaves it.
\<close>

theorem meta_find_after_set:
  assumes "even (length m)" and "\<forall>kv \<in> set kvs. fst kv \<noteq> []" and "n \<noteq> []"
    and "m' = fold (\<lambda>(k, v) m. meta_set m k v PHI_META_REPLACE) kvs m"
  shows "meta_find S m' name PHI_META_PRIVATE
      = Some (case map_of (rev kvs) name of None \<Rightarrow> the (meta_find S m name PHI_META_PRIVATE) | Some v \<Rightarrow> Some v)
    \<and> meta_find S (meta_set m' n v 0) name PHI_META_PRIVATE
      = Some (case the (meta_find S m' name PHI_META_PRIVATE) of None \<Rightarrow> if name = n then Some v else None | Some w \<Rightarrow> Some w)"
proof -
  have m': "even (length m')" "the (meta_find S m' name PHI_META_PRIVATE)
      = (case map_of (rev kvs) name of None \<Rightarrow> the (meta_find S m name PHI_META_PRIVATE) | Some v \<Rightarrow> Some v)"
    using meta.get_puts [of m kvs S name] assms(1,2,4) by (simp_all add: case_prod_beta')
  have priv: "PHI_META_PRIVATE AND PHI_META_UNIQUE = 0" "(0::u32) AND PHI_META_REPLACE = 0"
    by (simp_all add: PHI_META_PRIVATE_def PHI_META_UNIQUE_def)
  show ?thesis
    using m' meta_find_map_of [OF m'(1) priv(1), of S name] meta_find_map_of [OF _ priv(1), of "meta_set m' n v 0" S name]
      meta_set_map_of [OF m'(1) assms(3), of v 0] priv
    by (auto simp: meta_visible_def PHI_META_PRIVATE_def split: option.splits)
qed

theorem meta_find_after_set_witness:
  "meta_find \<lparr>mt_match = (\<lambda>_ _. False), mt_ieq = (=)\<rparr>
     (fold (\<lambda>(k, v) m. meta_set m k v PHI_META_REPLACE) [(''title'', ''x''), (''title'', ''y'')] [''artist'', ''a'']) ''title'' PHI_META_PRIVATE
     = Some (Some ''y'')"
  using conjunct1 [OF meta_find_after_set [of "[''artist'', ''a'']" "[(''title'', ''x''), (''title'', ''y'')]" "''t''" _
      "\<lparr>mt_match = (\<lambda>_ _. False), mt_ieq = (=)\<rparr>" "''title''", OF _ _ _ refl]]
  by simp

end
