(* ===== verification/File_Open.thy ===== *)
theory File_Open
  imports File_Write Detector
begin

text \<open>
  The rest of \<open>src/core/file-write.h\<close>: the name of the output file from its template (\<open>fw_name_var\<close>,
  \<open>fw_name\<close>) and the opening of the file (\<open>fw_open\<close>).

  The variables of a template are \<open>@name\<close>. The number of the file (\<open>static uint counter\<close>), the
  local time and the decimal formats of the base library are in the record \<open>name_env\<close>; \<open>ne_find\<close> is
  its search in a table of fixed-size strings.
\<close>

record name_env =
  ne_find :: "string list \<Rightarrow> nat \<Rightarrow> string \<Rightarrow> nat option"     \<comment> \<open>\<open>ffcharr_findsorted\<close>\<close>
  ne_date :: string                                         \<comment> \<open>year, month, day: \<open>%04u%02u%02u\<close>\<close>
  ne_time :: string                                         \<comment> \<open>hour, minute, second: \<open>%02u%02u%02u\<close>\<close>
  ne_dec :: "u32 \<Rightarrow> string"                                   \<comment> \<open>\<open>%u\<close>\<close>
  ne_meta :: meta_strs
  ne_slash :: char                                          \<comment> \<open>\<open>FFPATH_SLASH\<close>\<close>

definition ffpath_charmask_filename :: "u32 list" where
  "ffpath_charmask_filename = [0, 0x2bff7bfb, 0xefffffff, 0x6fffffff, 0xffffffff, 0xffffffff, 0xffffffff, 0xffffffff]"

definition fw_vars :: "string list" where
  "fw_vars = [''counter'', ''filename'', ''filepath'', ''nowdate'', ''nowtime'']"

text \<open>\<open>fw_name_var\<close>: the text of a variable and the new counter; \<open>None\<close>: a read outside of the meta data.\<close>
definition fw_name_var :: "ffbase \<Rightarrow> name_env \<Rightarrow> string \<Rightarrow> phi_track \<Rightarrow> u32 \<Rightarrow> (string \<times> u32) option" where
  "fw_name_var B E var t ctr =
     (case ne_find E (map (key_pad 9) fw_vars) 9 (tl var) of
        None \<Rightarrow>
          (case meta_find (ne_meta E) (t_meta t) (tl var) 0 of
             None \<Rightarrow> None
           | Some v \<Rightarrow>
               Some (ffpath_makefn B (2 ^ 64 - 1) (case v of None \<Rightarrow> var | Some x \<Rightarrow> x) CHR ''_'' ffpath_charmask_filename, ctr))
      | Some r \<Rightarrow>
          (case ffpath_split3_str B (case if_name (c_ifile (t_conf t)) of None \<Rightarrow> [] | Some n \<Rightarrow> n) of (fdir, fname, _) \<Rightarrow>
             if r = 2 then Some (fdir, ctr)
             else if r = 1 then Some (fname, ctr)
             else if r = 3 then Some (ne_date E, ctr)
             else if r = 4 then Some (ne_time E, ctr)
             else Some (ne_dec E (ctr + 1), ctr + 1)))"

text \<open>The loop of \<open>fw_name\<close>; each step takes at least one character of the template, so its length is fuel enough.\<close>
fun fw_expand :: "nat \<Rightarrow> ffbase \<Rightarrow> name_env \<Rightarrow> phi_track \<Rightarrow> u32 \<Rightarrow> string \<Rightarrow> (string \<times> u32) option" where
  "fw_expand n B E t ctr [] = Some ([], ctr)"
| "fw_expand 0 B E t ctr fn = None"
| "fw_expand (Suc n) B E t ctr fn =
     (case ffstr_var_next B fn CHR ''@'' of
        None \<Rightarrow> None
      | Some (k, val, rest) \<Rightarrow>
          (case (if k = VarName then fw_name_var B E val t ctr else Some (val, ctr)) of
             None \<Rightarrow> None
           | Some (s, ctr1) \<Rightarrow> map_option (\<lambda>(s2, ctr2). (s @ s2, ctr2)) (fw_expand n B E t ctr1 rest)))"

text \<open>The template: \<open>PATH/.EXT\<close> stands for \<open>PATH/@filename.EXT\<close>; \<open>None\<close>: no variables to expand.\<close>
definition fw_template :: "ffbase \<Rightarrow> name_env \<Rightarrow> string \<Rightarrow> string option" where
  "fw_template B E name =
     (case ffpath_split3_output B name of (fdir, fname, ext) \<Rightarrow>
        if fname = [] then Some (fdir @ (if fdir \<noteq> [] then [ne_slash E] else []) @ ''@filename.'' @ ext)
        else if fs_findchar B name CHR ''@'' = None then None
        else Some name)"

definition fw_name :: "ffbase \<Rightarrow> name_env \<Rightarrow> string \<Rightarrow> phi_track \<Rightarrow> u32 \<Rightarrow> (string \<times> u32) option" where
  "fw_name B E name t ctr =
     (case fw_template B E name of None \<Rightarrow> Some (name, ctr) | Some fn \<Rightarrow> fw_expand (length fn) B E t ctr fn)"

text \<open>
  \<open>fw_open\<close>: the kernel, the track, the counter and the file, or \<open>None\<close> for \<open>PHI_OPEN_ERR\<close>; then \<open>fw_close\<close>
  frees an object without a descriptor. The buffer of \<open>buf_cap\<close> bytes is allocated.
\<close>
definition fw_open ::
    "'k kfs \<Rightarrow> ffbase \<Rightarrow> name_env \<Rightarrow> phi_track \<Rightarrow> u32 \<Rightarrow> 'k \<Rightarrow> ('k \<times> phi_track \<times> u32 \<times> file_w option) option" where
  "fw_open K B E t ctr k =
     (let oc = c_ofile (t_conf t) in
      case fw_name B E (case of_name oc of None \<Rightarrow> [] | Some n \<Rightarrow> n) t ctr of
        None \<Rightarrow> None
      | Some (name, ctr1) \<Rightarrow>
          (let cap = (if of_buf_size oc \<noteq> 0 then ucast (of_buf_size oc) else 64 * 1024);
               f = \<lparr>w_fd = None, w_off_cur = 0, w_size = 0, w_wbuf = \<lparr>b_len = 0, b_ptr = replicate (unat cap) 0, b_off = 0\<rparr>,
                    w_buf_cap = cap, w_name = name, w_filename_tmp = None, w_fin = False, w_writes = 0, w_cached_writes = 0\<rparr>
           in if of_name_tmp oc \<and> \<not> of_overwrite oc \<and> k_exists K name k
              then Some (fw_close K f t k, t, ctr1, None)
              else
                (let f1 = (if of_name_tmp oc then f\<lparr>w_filename_tmp := Some (name @ ''.tmp'')\<rparr> else f);
                     fn = (if of_name_tmp oc then name @ ''.tmp'' else name)
                 in case k_open K fn (if of_overwrite oc then FFFILE_WRITEONLY_CREATE else FFFILE_WRITEONLY_CREATENEW) k of
                      (None, k1) \<Rightarrow>
                        (let t1 = t\<lparr>t_error := (if k_err_exist K (k_errno K k1) then PHI_E_DSTEXIST else PHI_E_SYS OR k_errno K k1)\<rparr>
                         in Some (fw_close K f1 t1 k1, t1, ctr1, None))
                    | (Some fd, k1) \<Rightarrow> Some (k1, t, ctr1, Some (f1\<lparr>w_fd := Some fd\<rparr>)))))"

section \<open>Meta data does not change the directory\<close>

abbreviation SLASH :: char where "SLASH \<equiv> CHR 0x2f"

text \<open>
  The documented behaviour of the library: a name that is split off a path has no slash, a number or a date is
  printed without one, and the search in a table finds only an equal key.
\<close>
definition name_law :: "ffbase \<Rightarrow> name_env \<Rightarrow> bool" where
  "name_law B E \<longleftrightarrow>
     (\<forall>s. SLASH \<notin> set (snd (fs_splitpath B s))) \<and> (\<forall>s. set (fst (fs_splitname B s)) \<subseteq> set s)
     \<and> SLASH \<notin> set (ne_date E) \<and> SLASH \<notin> set (ne_time E) \<and> (\<forall>x. SLASH \<notin> set (ne_dec E x))
     \<and> (\<forall>ks n s i. ne_find E (map (key_pad n) ks) n s = Some i \<longrightarrow> i < length ks \<and> ks ! i = s)"

lemma first_pos_take: "first_pos P xs = Some p \<Longrightarrow> p < length xs \<and> (\<forall>x \<in> set (take p xs). \<not> P x)"
  by (induction xs arbitrary: p) (auto split: if_splits)

lemma first_pos_None: "first_pos P xs = None \<Longrightarrow> \<forall>x \<in> set xs. \<not> P x"
  by (induction xs) (auto split: if_splits)

lemma ffstr_var_next_splits:
  assumes "ffbase_law B" and "fn \<noteq> []"
  shows "\<exists>k val rest. ffstr_var_next B fn CHR ''@'' = Some (k, val, rest) \<and> fn = val @ rest \<and> val \<noteq> []
    \<and> (k = VarName \<longrightarrow> (\<exists>w. val = CHR ''@'' # w \<and> (\<forall>x \<in> set w. word_char x)))"
proof -
  obtain x r where fn: "fn = x # r" using assms(2) by (cases fn) simp_all
  have law: "fs_findchar B fn CHR ''@'' = first_pos (\<lambda>y. y = CHR ''@'') fn" "fs_skip_word B r = first_pos (\<lambda>y. \<not> word_char y) r"
    using assms(1) by (simp_all add: ffbase_law_def)
  show ?thesis
  proof (cases "x = CHR ''@''")
    case False
    define pos where "pos = (case fs_findchar B fn CHR ''@'' of None \<Rightarrow> length fn | Some p \<Rightarrow> p)"
    have "0 < pos"
      using False law(1) unfolding fn pos_def by (cases "first_pos (\<lambda>y. y = CHR ''@'') r") simp_all
    then have "take pos fn \<noteq> []" using assms(2) by simp
    moreover have "ffstr_var_next B fn CHR ''@'' = Some (VarText, take pos fn, drop pos fn)"
      using False unfolding ffstr_var_next_def pos_def fn Let_def by simp
    ultimately show ?thesis by (intro exI [of _ VarText] exI [of _ "take pos fn"] exI [of _ "drop pos fn"]) simp
  next
    case True
    define i where "i = (case fs_skip_word B r of None \<Rightarrow> length r | Some p \<Rightarrow> p)"
    have "\<forall>y \<in> set (take i r). word_char y"
    proof (cases "first_pos (\<lambda>y. \<not> word_char y) r")
      case None
      then show ?thesis using law(2) first_pos_None [OF None] by (simp add: i_def)
    next
      case (Some p)
      then show ?thesis using law(2) first_pos_take [OF Some] by (simp add: i_def)
    qed
    moreover have "ffstr_var_next B fn CHR ''@'' = Some (VarName, CHR ''@'' # take i r, drop i r)"
      using True unfolding ffstr_var_next_def i_def fn Let_def by simp
    moreover have "fn = (CHR ''@'' # take i r) @ drop i r" using fn True by simp
    ultimately show ?thesis by blast
  qed
qed

lemma makefn_no_slash: "SLASH \<notin> set (ffpath_makefn B n s CHR ''_'' ffpath_charmask_filename)"
proof -
  have "\<not> ffbit_test_array32 ffpath_charmask_filename 47"
    by (simp add: ffbit_test_array32_def ffpath_charmask_filename_def)
  then have b: "\<not> ffbit_test_array32 ffpath_charmask_filename (of_char SLASH)" by simp
  define g where "g = (\<lambda>c. if \<not> ffbit_test_array32 ffpath_charmask_filename (of_char c) then CHR ''_'' else c)"
  have g: "g c \<noteq> SLASH" for c using b by (cases "c = SLASH") (simp_all add: g_def)
  have "ffpath_makefn B n s CHR ''_'' ffpath_charmask_filename = map g (take n (fs_rskipchar B (fs_skipchar B s CHR '' '') CHR '' ''))"
    by (simp add: ffpath_makefn_def g_def)
  then show ?thesis by (simp add: image_iff g [THEN not_sym])
qed

lemma fw_name_var_no_slash:
  assumes "name_law B E" and "even (length (t_meta t))" and "tl var \<noteq> ''filepath''"
  shows "\<exists>s c. fw_name_var B E var t ctr = Some (s, c) \<and> SLASH \<notin> set s"
proof (cases "ne_find E (map (key_pad 9) fw_vars) 9 (tl var)")
  case None
  have "\<exists>v. meta_find (ne_meta E) (t_meta t) (tl var) 0 = Some v" using meta_find_map_of [OF assms(2), of 0] by simp
  then obtain v where "meta_find (ne_meta E) (t_meta t) (tl var) 0 = Some v" ..
  then show ?thesis using None makefn_no_slash by (simp add: fw_name_var_def)
next
  case (Some r)
  have laws: "\<And>s. SLASH \<notin> set (snd (fs_splitpath B s))" "\<And>s. set (fst (fs_splitname B s)) \<subseteq> set s"
    "SLASH \<notin> set (ne_date E)" "SLASH \<notin> set (ne_time E)" "\<And>x. SLASH \<notin> set (ne_dec E x)"
    using assms(1) by (simp_all add: name_law_def)
  have "fw_vars ! r = tl var" using assms(1) Some by (auto simp: name_law_def)
  then have r2: "r \<noteq> 2" using assms(3) by (auto simp: fw_vars_def)
  obtain fdir nm where p: "fs_splitpath B (case if_name (c_ifile (t_conf t)) of None \<Rightarrow> [] | Some n \<Rightarrow> n) = (fdir, nm)" by force
  have "SLASH \<notin> set nm" using laws(1) p by (metis snd_conv)
  then have "SLASH \<notin> set (fst (fs_splitname B nm))" using laws(2) by blast
  then show ?thesis
    using Some p r2 laws(3-5) by (cases "fs_splitname B nm") (simp add: fw_name_var_def ffpath_split3_str_def)
qed

lemma fw_expand_slashes:
  assumes "ffbase_law B" and "name_law B E" and "even (length (t_meta t))"
    and "length fn \<le> n" and "\<And>i. take 9 (drop i fn) \<noteq> ''@filepath''"
  shows "\<exists>s c. fw_expand n B E t ctr fn = Some (s, c) \<and> count_list s SLASH = count_list fn SLASH"
  using assms(4,5)
proof (induction n arbitrary: fn ctr)
  case (Suc n)
  show ?case
  proof (cases "fn = []")
    case False
    obtain k val rest where v: "ffstr_var_next B fn CHR ''@'' = Some (k, val, rest)" "fn = val @ rest" "val \<noteq> []"
      "k = VarName \<longrightarrow> (\<exists>w. val = CHR ''@'' # w \<and> (\<forall>x \<in> set w. word_char x))"
      using ffstr_var_next_splits [OF assms(1) False] by blast
    have rest: "take 9 (drop i rest) \<noteq> ''@filepath''" for i using Suc.prems(2) [of "length val + i"] v(2) by simp
    have "\<exists>s c. (if k = VarName then fw_name_var B E val t ctr else Some (val, ctr)) = Some (s, c) \<and> count_list s SLASH = count_list val SLASH"
    proof (cases "k = VarName")
      case True
      then obtain w where w: "val = CHR ''@'' # w" "\<forall>x \<in> set w. word_char x" using v(4) by blast
      then have "SLASH \<notin> set val" by (auto simp: word_char_def Let_def)
      moreover have "tl val \<noteq> ''filepath''" using Suc.prems(2) [of 0] v(2) w by (auto simp: eval_nat_numeral)
      ultimately show ?thesis
        using fw_name_var_no_slash [OF assms(2,3), of val ctr] True by (auto simp: count_list_0_iff)
    qed simp
    then obtain s c where s: "(if k = VarName then fw_name_var B E val t ctr else Some (val, ctr)) = Some (s, c)"
      "count_list s SLASH = count_list val SLASH" by blast
    have "length rest \<le> n" using Suc.prems(1) v(2,3) by (cases val) simp_all
    from Suc.IH [OF this rest, of c] obtain s2 c2 where "fw_expand n B E t c rest = Some (s2, c2)" "count_list s2 SLASH = count_list rest SLASH"
      by blast
    moreover have "fw_expand (Suc n) B E t ctr fn = map_option (\<lambda>(s2, c2). (s @ s2, c2)) (fw_expand n B E t c rest)"
      using v(1) s(1) False by (cases fn) simp_all
    ultimately show ?thesis using v(2) s(2) by simp
  qed simp
qed simp


text \<open>The split at the last slash and at the last dot, and a table search that finds no key.\<close>
definition slash_base :: ffbase where
  "slash_base = demo_base\<lparr>fs_splitpath := (\<lambda>s. (take (length s - length (takeWhile (\<lambda>c. c \<noteq> SLASH) (rev s)) - 1) s,
     rev (takeWhile (\<lambda>c. c \<noteq> SLASH) (rev s))))\<rparr>"

definition demo_env :: name_env where
  "demo_env = \<lparr>ne_find = (\<lambda>_ _ _. None), ne_date = ''20240101'', ne_time = ''000000'', ne_dec = (\<lambda>_. ''1''),
     ne_meta = \<lparr>mt_match = (\<lambda>_ _. False), mt_ieq = (=)\<rparr>, ne_slash = SLASH\<rparr>"

lemma slash_laws: "ffbase_law slash_base" "name_law slash_base demo_env"
  by (auto simp: ffbase_law_def name_law_def slash_base_def demo_base_def demo_env_def dest: set_takeWhileD)


end
