(* ===== verification/File_Std.thy ===== *)
theory File_Std
  imports Sys_File
begin

text \<open>
  \<open>src/core/file-stdin.h\<close> and \<open>file-stdout.h\<close>: reading from the standard input with forward seeking, and
  writing to the standard output through a buffer of 64 KB.

  The calls of the system are in the record \<open>kfs\<close>. \<open>ffstr_gather\<close> of the base library is the parameter \<open>G\<close>:
  from the buffer, its capacity and the input it gives the new buffer, the number of input bytes it took
  and the data that is ready. A result \<open>None\<close> is the end of the fuel of a loop.
\<close>

section \<open>Standard input\<close>

text \<open>\<open>struct std_in\<close>: \<open>buf.len\<close> is the length of \<open>si_buf\<close>.\<close>
record std_in =
  si_fd :: nat
  si_total :: u64
  si_buf :: bytes
  si_cap :: u64

definition stdin_open :: "nat \<Rightarrow> phi_track \<Rightarrow> phi_track \<times> std_in" where
  "stdin_open ffstdin t =
     (t\<lparr>t_input := (t_input t)\<lparr>in_size := -1, in_seek := -1\<rparr>\<rparr>,
      \<lparr>si_fd = ffstdin, si_total = 0, si_buf = [],
       si_cap = (if if_buf_size (c_ifile (t_conf t)) \<noteq> 0 then ucast (if_buf_size (c_ifile (t_conf t))) else 64 * 1024)\<rparr>)"

text \<open>The loop of \<open>stdin_read\<close>: blocks are read until one reaches past \<open>seek\<close>.\<close>
fun stdin_loop :: "nat \<Rightarrow> 'k kfs \<Rightarrow> std_in \<Rightarrow> u64 \<Rightarrow> 'k \<Rightarrow> (std_in \<times> 'k \<times> (phi_r + bytes)) option" where
  "stdin_loop 0 K f seek k = None"
| "stdin_loop (Suc n) K f seek k =
     (case k_pread K (si_fd f) (si_cap f) k of
        (None, k1) \<Rightarrow> Some (f, k1, Inl PHI_ERR)
      | (Some d, k1) \<Rightarrow>
          if d = [] then Some (f, k1, Inl PHI_DONE)
          else
            (let f1 = f\<lparr>si_total := si_total f + u64len d, si_buf := d\<rparr> in
             if seek = 0 then Some (f1, k1, Inr d)
             else if si_total f1 > seek
             then Some (f1, k1, Inr (drop (unat (seek - (si_total f1 - u64len (si_buf f1)))) d))
             else stdin_loop n K f1 seek k1))"

definition stdin_read :: "nat \<Rightarrow> 'k kfs \<Rightarrow> std_in \<Rightarrow> phi_track \<Rightarrow> 'k \<Rightarrow> (std_in \<times> phi_track \<times> 'k \<times> phi_r) option" where
  "stdin_read n K f t k =
     (let req = in_seek (t_input t); off = si_total f - u64len (si_buf f) in
      if req \<noteq> -1 \<and> req < off then Some (f, t, k, PHI_ERR)
      else
        (let seek = (if req \<noteq> -1 then req else 0);
             t1 = t\<lparr>t_input := (t_input t)\<lparr>in_seek := -1\<rparr>\<rparr>
         in if req \<noteq> -1 \<and> si_total f > seek
            then Some (f, t1\<lparr>t_data_out := drop (unat (seek - off)) (si_buf f)\<rparr>, k, PHI_DATA)
            else
              (case stdin_loop n K f seek k of
                 None \<Rightarrow> None
               | Some (f1, k1, Inl r) \<Rightarrow> Some (f1, t1, k1, r)
               | Some (f1, k1, Inr buf) \<Rightarrow> Some (f1, t1\<lparr>t_data_out := buf\<rparr>, k1, PHI_DATA))))"

section \<open>Standard output\<close>

record std_out =
  so_fd :: nat
  so_buf :: bytes
  so_cap :: nat
  so_fsize :: u64

definition stdout_open :: "nat \<Rightarrow> phi_track \<Rightarrow> phi_track \<times> std_out" where
  "stdout_open ffstdout t =
     (t\<lparr>t_output := (t_output t)\<lparr>out_cant_seek := True\<rparr>\<rparr>, \<lparr>so_fd = ffstdout, so_buf = [], so_cap = 64 * 1024, so_fsize = 0\<rparr>)"

text \<open>Whether all bytes were written.\<close>
definition stdout_writedata :: "'k kfs \<Rightarrow> std_out \<Rightarrow> bytes \<Rightarrow> 'k \<Rightarrow> std_out \<times> 'k \<times> bool" where
  "stdout_writedata K f d k =
     (case k_write K (so_fd f) d k of (r, k1) \<Rightarrow>
        if r \<noteq> u64len d then (f, k1, False) else (f\<lparr>so_fsize := so_fsize f + r\<rparr>, k1, True))"

type_synonym gather = "bytes \<Rightarrow> nat \<Rightarrow> bytes \<Rightarrow> bytes \<times> nat \<times> bytes"

text \<open>The loop of \<open>stdout_write\<close>; the last component is whether a write failed.\<close>
fun stdout_loop :: "nat \<Rightarrow> 'k kfs \<Rightarrow> gather \<Rightarrow> bool \<Rightarrow> std_out \<Rightarrow> bytes \<Rightarrow> 'k \<Rightarrow> (std_out \<times> bytes \<times> 'k \<times> bool) option" where
  "stdout_loop 0 K G first f inp k = None"
| "stdout_loop (Suc n) K G first f inp k =
     (case G (so_buf f) (so_cap f) inp of (buf, r, dst0) \<Rightarrow>
        (let f1 = f\<lparr>so_buf := buf\<rparr>; inp1 = drop r inp in
         if dst0 = [] \<and> (\<not> first \<or> buf = []) then Some (f1, inp1, k, False)
         else
           (let dst = (if dst0 = [] then buf else dst0) in
            case stdout_writedata K (f1\<lparr>so_buf := []\<rparr>) dst k of (f2, k1, ok) \<Rightarrow>
              if \<not> ok then Some (f2, inp1, k1, True)
              else if inp1 = [] then Some (f2, inp1, k1, False)
              else stdout_loop n K G first f2 inp1 k1)))"

definition stdout_write :: "nat \<Rightarrow> 'k kfs \<Rightarrow> gather \<Rightarrow> std_out \<Rightarrow> phi_track \<Rightarrow> 'k \<Rightarrow> (std_out \<times> phi_track \<times> 'k \<times> phi_r) option" where
  "stdout_write n K G f t k =
     (if \<not> (out_seek (t_output t) = -1 \<or> out_seek (t_output t) = 0) then
        (if so_buf f \<noteq> [] then
           (case stdout_writedata K f (so_buf f) k of (f1, k1, ok) \<Rightarrow>
              Some (if ok then f1\<lparr>so_buf := []\<rparr> else f1, t, k1, PHI_ERR))
         else Some (f, t, k, PHI_ERR))
      else
        (case stdout_loop n K G (has_flag t PHI_FFIRST) f (t_data_in t) k of
           None \<Rightarrow> None
         | Some (f1, rest, k1, err) \<Rightarrow>
             Some (f1, t\<lparr>t_data_out := t_data_in t, t_data_in := rest\<rparr>, k1,
                   if err then PHI_ERR else if has_flag t PHI_FFIRST then PHI_DONE else PHI_OK)))"

section \<open>Reading at a position\<close>

text \<open>\<open>strm k\<close> is what the pipe will still deliver. A read does not fail and returns nothing only at the end.\<close>
definition pipe_law :: "'k kfs \<Rightarrow> nat \<Rightarrow> ('k \<Rightarrow> bytes) \<Rightarrow> bool" where
  "pipe_law K fd strm \<longleftrightarrow>
     (\<forall>n k. case k_pread K fd n k of
        (None, k1) \<Rightarrow> False
      | (Some d, k1) \<Rightarrow> strm k = d @ strm k1 \<and> (d = [] \<longrightarrow> strm k = []))"

text \<open>The filter has read the first \<open>total\<close> bytes of the input \<open>S\<close> and holds the last of them.\<close>
definition stdin_at :: "('k \<Rightarrow> bytes) \<Rightarrow> bytes \<Rightarrow> std_in \<Rightarrow> 'k \<Rightarrow> bool" where
  "stdin_at strm S f k \<longleftrightarrow>
     length S < 2 ^ 63 \<and> unat (si_total f) \<le> length S \<and> strm k = drop (unat (si_total f)) S
     \<and> length (si_buf f) \<le> unat (si_total f)
     \<and> si_buf f = take (length (si_buf f)) (drop (unat (si_total f) - length (si_buf f)) S)"

text \<open>The answer to a read at \<open>pos\<close>: data from there on, or the end of the input.\<close>
definition reads_at :: "bytes \<Rightarrow> nat \<Rightarrow> phi_r + bytes \<Rightarrow> bool" where
  "reads_at S pos res \<longleftrightarrow>
     (if pos < length S then \<exists>d. res = Inr d \<and> d \<noteq> [] \<and> d = take (length d) (drop pos S) else res = Inl PHI_DONE)"

lemma stdin_at_next:
  assumes "stdin_at strm S f k" and "strm k = d @ strm k1" and "d \<noteq> []"
  shows "stdin_at strm S (f\<lparr>si_total := si_total f + u64len d, si_buf := d\<rparr>) k1"
    and "unat (si_total f + u64len d) = unat (si_total f) + length d"
    and "d = take (length d) (drop (unat (si_total f)) S)" and "unat (si_total f) + length d \<le> length S"
proof -
  note at = assms(1) [unfolded stdin_at_def]
  have eq: "drop (unat (si_total f)) S = d @ strm k1" using at assms(2) by simp
  have "length S - unat (si_total f) = length d + length (strm k1)" using arg_cong [OF eq, of length] by simp
  moreover have "unat (si_total f) \<le> length S" using at by blast
  ultimately show le: "unat (si_total f) + length d \<le> length S" by linarith
  then show u: "unat (si_total f + u64len d) = unat (si_total f) + length d" using at by (intro unat_add_u64len) simp
  show d: "d = take (length d) (drop (unat (si_total f)) S)" using eq by simp
  have "strm k1 = drop (length d) (drop (unat (si_total f)) S)" using eq by simp
  then show "stdin_at strm S (f\<lparr>si_total := si_total f + u64len d, si_buf := d\<rparr>) k1"
    using at u d le by (simp add: stdin_at_def add.commute)
qed

lemma drop_within:
  assumes "d = take (length d) (drop a S)" and "a \<le> p" and "p < a + length d"
  shows "drop (p - a) d \<noteq> []" and "drop (p - a) d = take (length (drop (p - a) d)) (drop p S)"
proof -
  show "drop (p - a) d \<noteq> []" using assms(2,3) by simp
  have "drop (p - a) d = take (length d - (p - a)) (drop (p - a) (drop a S))" by (subst assms(1)) (simp only: drop_take)
  then show "drop (p - a) d = take (length (drop (p - a) d)) (drop p S)" using assms(2) by (metis drop_drop le_add_diff_inverse2 length_drop)
qed

lemma stdin_loop_reads:
  assumes "pipe_law K (si_fd f) strm" and "stdin_at strm S f k" and "length S - unat (si_total f) < n"
    and "seek = 0 \<or> unat (si_total f) \<le> unat seek"
  shows "\<exists>f' k' res. stdin_loop n K f seek k = Some (f', k', res) \<and> si_fd f' = si_fd f \<and> stdin_at strm S f' k'
    \<and> reads_at S (if seek = 0 then unat (si_total f) else unat seek) res"
  using assms
proof (induction n arbitrary: f k)
  case (Suc n)
  obtain d k1 where p: "k_pread K (si_fd f) (si_cap f) k = (Some d, k1)" "strm k = d @ strm k1" "d = [] \<longrightarrow> strm k = []"
    using Suc.prems(1) unfolding pipe_law_def by (auto split: prod.splits option.splits) (metis (no_types, lifting) option.exhaust prod.exhaust)
  note at = Suc.prems(2) [unfolded stdin_at_def]
  show ?case
  proof (cases "d = []")
    case True
    then have "length S \<le> unat (si_total f)" "strm k1 = strm k" using p at by simp_all
    then show ?thesis using p True Suc.prems(2,4) by (auto simp: reads_at_def stdin_at_def)
  next
    case False
    let ?f = "f\<lparr>si_total := si_total f + u64len d, si_buf := d\<rparr>"
    note nx = stdin_at_next [OF Suc.prems(2) p(2) False]
    consider "seek = 0" | "seek \<noteq> 0" "si_total ?f > seek" | "seek \<noteq> 0" "\<not> si_total ?f > seek" by blast
    then show ?thesis
    proof cases
      case 1
      have "unat (si_total f) < length S" using nx(4) False by (cases d) simp_all
      then show ?thesis using 1 p False nx(1,3) by (auto simp: reads_at_def)
    next
      case 2
      then have s: "unat (si_total f) \<le> unat seek" "unat seek < unat (si_total f) + length d"
        using Suc.prems(4) nx(2) by (simp_all add: word_less_nat_alt)
      have "seek - (si_total ?f - u64len d) = seek - si_total f" by simp
      then have "unat (seek - (si_total ?f - u64len d)) = unat seek - unat (si_total f)"
        using s(1) by (simp add: unat_sub word_le_nat_alt)
      then show ?thesis
        using 2 p False nx(1,4) s drop_within [OF nx(3) s] by (auto simp: reads_at_def)
    next
      case 3
      then have le: "unat (si_total ?f) \<le> unat seek" by (simp add: word_less_nat_alt not_less)
      have "length S - unat (si_total ?f) < n" using Suc.prems(3) nx(2,4) False by (cases d) simp_all
      then obtain f' k' res where "stdin_loop n K ?f seek k1 = Some (f', k', res)" "si_fd f' = si_fd f" "stdin_at strm S f' k'"
        "reads_at S (unat seek) res"
        using Suc.IH [of ?f k1] Suc.prems(1) nx(1) le 3(1) by auto
      then show ?thesis using 3 p False by auto
    qed
  qed
qed simp

text \<open>
  Reading from the standard input. A call without a seek request delivers the bytes behind those
  already read; a request for a position that is not before the buffered block delivers the data from exactly
  that position on, skipping what lies between, or ends the track when the input is shorter;
  a request for an earlier position is the only error. Enough steps are the length of the input.
\<close>

theorem stdin_read_at_position:
  assumes "pipe_law K (si_fd f) strm" and "stdin_at strm S f k" and "length S < n"
    and "pos = (if in_seek (t_input t) = -1 then unat (si_total f) else unat (in_seek (t_input t)))"
    and "unat (si_total f) - length (si_buf f) \<le> pos"
  shows "\<exists>f' t' k' r. stdin_read n K f t k = Some (f', t', k', r) \<and> stdin_at strm S f' k' \<and> in_seek (t_input t') = -1
    \<and> (if pos < length S then r = PHI_DATA \<and> t_data_out t' \<noteq> [] \<and> t_data_out t' = take (length (t_data_out t')) (drop pos S)
       else r = PHI_DONE)"
proof -
  note at = assms(2) [unfolded stdin_at_def]
  let ?req = "in_seek (t_input t)" and ?off = "si_total f - u64len (si_buf f)"
  define seek where "seek = (if ?req \<noteq> -1 then ?req else 0)"
  define t1 where "t1 = t\<lparr>t_input := (t_input t)\<lparr>in_seek := -1\<rparr>\<rparr>"
  have ub: "unat (u64len (si_buf f)) = length (si_buf f)" using at by (intro unat_u64len) simp
  have off: "unat ?off = unat (si_total f) - length (si_buf f)" using at ub by (simp add: unat_sub word_le_nat_alt)
  have noerr: "\<not> (?req \<noteq> -1 \<and> ?req < ?off)" using assms(4,5) off by (auto simp: word_less_nat_alt)
  show ?thesis
  proof (cases "?req \<noteq> -1 \<and> si_total f > seek")
    case True
    then have s: "unat (si_total f) - length (si_buf f) \<le> pos" "pos < unat (si_total f) - length (si_buf f) + length (si_buf f)" "unat seek = pos"
      using assms(4,5) at by (auto simp: seek_def word_less_nat_alt)
    have dd: "unat (seek - ?off) = pos - (unat (si_total f) - length (si_buf f))"
      using s off by (simp add: unat_sub word_le_nat_alt)
    have "si_buf f = take (length (si_buf f)) (drop (unat (si_total f) - length (si_buf f)) S)" using at by blast
    note dw = drop_within [OF this s(1,2)]
    have "stdin_read n K f t k = Some (f, t1\<lparr>t_data_out := drop (unat (seek - ?off)) (si_buf f)\<rparr>, k, PHI_DATA)"
      using True noerr by (auto simp: stdin_read_def Let_def seek_def t1_def)
    then show ?thesis using dw dd assms(2) s(2) at by (auto simp: t1_def)
  next
    case False
    have sk: "seek = 0 \<or> unat (si_total f) \<le> unat seek" using False by (auto simp: seek_def word_less_nat_alt not_less)
    have n: "length S - unat (si_total f) < n" using assms(3) by simp
    have pos: "(if seek = 0 then unat (si_total f) else unat seek) = pos"
      using False assms(4) by (auto simp: seek_def word_gt_0)
    obtain f' k' res where l: "stdin_loop n K f seek k = Some (f', k', res)" "stdin_at strm S f' k'" "reads_at S pos res"
      using stdin_loop_reads [OF assms(1,2) n sk] unfolding pos by blast
    have eq: "stdin_read n K f t k = (case res of Inl r \<Rightarrow> Some (f', t1, k', r) | Inr buf \<Rightarrow> Some (f', t1\<lparr>t_data_out := buf\<rparr>, k', PHI_DATA))"
      using noerr False l(1) by (auto simp: stdin_read_def Let_def seek_def t1_def split: sum.split)
    then show ?thesis using l(2,3) by (auto simp: reads_at_def t1_def split: if_splits)
  qed
qed

text \<open>A pipe that delivers two bytes at a time.\<close>
definition pipe_kfs :: "bytes kfs" where
  "pipe_kfs =
     \<lparr>k_open = (\<lambda>_ _ k. (Some 1, k)), k_errno = (\<lambda>_. 0), k_err_notexist = (\<lambda>_. False), k_err_exist = (\<lambda>_. False),
      k_info = (\<lambda>_ _. None), k_readat = (\<lambda>_ _ _ _. None), k_writeat = (\<lambda>_ d _ k. (int (length d), k)),
      k_write = (\<lambda>_ d k. (u64len d, k @ d)), k_pread = (\<lambda>_ _ k. (Some (take 2 k), drop 2 k)),
      k_trunc = (\<lambda>_ _ k. k), k_close = (\<lambda>_ k. (0, k)), k_remove = (\<lambda>_ k. (0, k)), k_rename = (\<lambda>_ _ k. (0, k)),
      k_set_mtime = (\<lambda>_ _ k. k), k_exists = (\<lambda>_ _. False), k_1970_seconds = 62135596800, k_debug = False\<rparr>"

lemma pipe_kfs_law: "pipe_law pipe_kfs fd (\<lambda>k. k)"
  by (simp add: pipe_law_def pipe_kfs_def)

theorem stdin_read_at_position_witness:
  "\<exists>f' t' k' r. stdin_read 6 pipe_kfs \<lparr>si_fd = 0, si_total = 0, si_buf = [], si_cap = 65536\<rparr>
       (phi_track_zero\<lparr>t_input := (t_input phi_track_zero)\<lparr>in_seek := 3\<rparr>\<rparr>) [10, 11, 12, 13, 14] = Some (f', t', k', r)
     \<and> r = PHI_DATA \<and> t_data_out t' \<noteq> [] \<and> t_data_out t' = take (length (t_data_out t')) [13, 14]"
proof -
  let ?f = "\<lparr>si_fd = 0, si_total = 0, si_buf = [], si_cap = 65536\<rparr>"
  let ?t = "phi_track_zero\<lparr>t_input := (t_input phi_track_zero)\<lparr>in_seek := 3\<rparr>\<rparr>"
  have at: "stdin_at (\<lambda>k. k) [10, 11, 12, 13, 14] ?f [10, 11, 12, 13, 14]" by (simp add: stdin_at_def)
  have len: "length [10, 11, 12, 13, 14 :: u8] < 6" by simp
  have pos: "3 = (if in_seek (t_input ?t) = -1 then unat (si_total ?f) else unat (in_seek (t_input ?t)))" by simp
  have lo: "unat (si_total ?f) - length (si_buf ?f) \<le> 3" by simp
  have dr: "3 < length [10, 11, 12, 13, 14 :: u8]" "drop 3 [10, 11, 12, 13, 14 :: u8] = [13, 14]" by simp_all
  show ?thesis
    using stdin_read_at_position [OF pipe_kfs_law at len pos lo] unfolding if_P [OF dr(1)] dr(2) by blast
qed

section \<open>Writing keeps the order\<close>

text \<open>
  \<open>ffstr_gather\<close>: either all input is added to the buffer and nothing is ready, or what is ready is the
  buffer followed by the part of the input that was taken, which is not empty.
\<close>
definition gather_law :: "gather \<Rightarrow> bool" where
  "gather_law G \<longleftrightarrow>
     (\<forall>b cap inp. case G b cap inp of (buf, r, dst) \<Rightarrow>
        if dst = [] then r = length inp \<and> buf = b @ inp
        else r \<le> length inp \<and> dst = b @ take r inp \<and> (inp \<noteq> [] \<longrightarrow> 0 < r))"

definition write_all_law :: "'k kfs \<Rightarrow> nat \<Rightarrow> ('k \<Rightarrow> bytes) \<Rightarrow> bool" where
  "write_all_law K fd out \<longleftrightarrow> (\<forall>d k. case k_write K fd d k of (r, k1) \<Rightarrow> r = u64len d \<and> out k1 = out k @ d)"

lemma stdout_loop_writes:
  assumes "gather_law G" and "write_all_law K (so_fd f) out" and "length inp + 1 < n"
  shows "\<exists>f' k'. stdout_loop n K G first f inp k = Some (f', [], k', False) \<and> so_fd f' = so_fd f
    \<and> out k' @ so_buf f' = out k @ so_buf f @ inp \<and> (first \<longrightarrow> so_buf f' = [])"
  using assms(2,3)
proof (induction n arbitrary: f inp k)
  case (Suc n)
  obtain buf r dst0 where g: "G (so_buf f) (so_cap f) inp = (buf, r, dst0)" by (metis prod_cases3)
  have gl: "if dst0 = [] then r = length inp \<and> buf = so_buf f @ inp
    else r \<le> length inp \<and> dst0 = so_buf f @ take r inp \<and> (inp \<noteq> [] \<longrightarrow> 0 < r)"
    using assms(1) g unfolding gather_law_def by (metis (mono_tags, lifting) prod.case)
  define dst where "dst = (if dst0 = [] then buf else dst0)"
  obtain k1 where w: "k_write K (so_fd f) dst k = (u64len dst, k1)" "out k1 = out k @ dst"
    using Suc.prems(1) unfolding write_all_law_def by (metis (mono_tags, lifting) case_prod_conv old.prod.exhaust)
  let ?f2 = "f\<lparr>so_buf := [], so_fsize := so_fsize f + u64len dst\<rparr>"
  have wd: "stdout_writedata K (f\<lparr>so_buf := []\<rparr>) dst k = (?f2, k1, True)" using w(1) by (simp add: stdout_writedata_def)
  consider "dst0 = []" "\<not> first \<or> buf = []" | "\<not> (dst0 = [] \<and> (\<not> first \<or> buf = []))" "drop r inp = []"
    | "\<not> (dst0 = [] \<and> (\<not> first \<or> buf = []))" "drop r inp \<noteq> []" by blast
  then show ?case
  proof cases
    case 1
    then show ?thesis using g gl by auto
  next
    case 2
    have "dst = so_buf f @ inp" using gl 2(2) by (auto simp: dst_def split: if_splits)
    then show ?thesis using g 2 wd w(2) dst_def by (auto simp: Let_def)
  next
    case 3
    then have d: "dst = so_buf f @ take r inp" "0 < r" "r \<le> length inp" using gl by (auto simp: dst_def split: if_splits)
    have l: "length (drop r inp) + 1 < n" using Suc.prems(2) d(2) 3(2) by simp
    have law: "write_all_law K (so_fd ?f2) out" using Suc.prems(1) by simp
    have eq: "stdout_loop (Suc n) K G first f inp k = stdout_loop n K G first ?f2 (drop r inp) k1"
      using g 3 wd dst_def by (auto simp: Let_def)
    obtain f' k' where IH: "stdout_loop n K G first ?f2 (drop r inp) k1 = Some (f', [], k', False)" "so_fd f' = so_fd ?f2"
      "out k' @ so_buf f' = out k1 @ so_buf ?f2 @ drop r inp" "first \<longrightarrow> so_buf f' = []"
      using Suc.IH [OF law l] by blast
    then show ?thesis using eq w(2) d(1) by (intro exI [of _ f'] exI [of _ k']) simp
  qed
qed simp


text \<open>A buffer that is ready when it has its capacity.\<close>
definition demo_gather :: gather where
  "demo_gather b cap inp =
     (if length b + length inp < cap then (b @ inp, length inp, [])
      else let r = max (if inp = [] then 0 else 1) (min (length inp) (cap - length b)) in ([], r, b @ take r inp))"

lemma demo_gather_law: "gather_law (\<lambda>b cap inp. demo_gather b (cap + 1) inp)"
  by (auto simp: gather_law_def demo_gather_def Let_def Suc_le_eq)

lemma pipe_kfs_write_law: "write_all_law pipe_kfs fd (\<lambda>k. k)"
  by (simp add: write_all_law_def pipe_kfs_def)


end
