(* ===== verification/Queue.thy ===== *)
theory Queue
  imports Track_Types "HOL-Library.Monad_Syntax" "HOL-Library.Multiset"
begin

text \<open>
  \<open>src/queue/ent.h\<close> and \<open>src/queue/qu.c\<close>: the play queues and their reference-counted entries.

  Queues and entries are objects on the heap; a pointer is a number, and the maps \<open>qs_queues\<close>
  and \<open>qs_ents\<close> hold the live objects. An access to a freed object, a failed assertion and a
  division by zero are the value \<open>None\<close> of an operation. Tracks are driven through the record
  \<open>track_if\<close>, whose functions act on the rest of the program, the field \<open>qs_w\<close>; so do the random
  numbers. The string search, the comparison of names and the sort of ffbase are arguments.
\<close>

section \<open>State\<close>

record q_entry =
  e_conf :: phi_track_conf
  e_length_msec :: u32
  e_q :: nat
  e_trk :: "nat option"
  e_index :: u32
  e_used :: u32
  e_have_user_meta :: bool
  e_expand :: bool
  e_play_next_on_close :: bool

record phi_queue_conf =
  qc_name :: string
  qc_first_filter :: "string option"
  qc_audio_module :: "string option"
  qc_ui_module :: string
  qc_conversion :: bool
  qc_random :: bool
  qc_repeat_all :: bool

record phi_queue =
  q_conf_f :: phi_queue_conf
  q_index :: "nat list"
  q_cursor :: "nat option"
  q_cursor_index :: u32
  q_active_n :: u32
  q_random_split :: bool

record 'w qsys =
  qs_ents :: "nat \<Rightarrow> q_entry option"
  qs_queues :: "nat \<Rightarrow> phi_queue option"
  qs_lists :: "nat list"
  qs_selected :: u32
  qs_dev_idx :: int
  qs_next :: nat                               \<comment> \<open>the next address \<open>ffmem_new\<close> returns\<close>
  qs_changes :: "(nat \<times> char \<times> u32) list"     \<comment> \<open>calls of \<open>on_change\<close>\<close>
  qs_w :: 'w

record 'w track_if =
  ti_create :: "phi_track_conf \<Rightarrow> 'w \<Rightarrow> nat \<times> 'w"
  ti_filter :: "nat \<Rightarrow> string \<Rightarrow> 'w \<Rightarrow> bool \<times> 'w"   \<comment> \<open>a module that is missing is a failure\<close>
  ti_update :: "nat \<Rightarrow> (phi_track \<Rightarrow> phi_track) \<Rightarrow> 'w \<Rightarrow> 'w"
  ti_get :: "nat \<Rightarrow> 'w \<Rightarrow> phi_track"
  ti_start :: "nat \<Rightarrow> 'w \<Rightarrow> 'w"
  ti_stop :: "nat \<Rightarrow> 'w \<Rightarrow> 'w"
  ti_close :: "nat \<Rightarrow> 'w \<Rightarrow> 'w"
  ti_workers_available :: "'w \<Rightarrow> bool"
  ti_rand :: "'w \<Rightarrow> u32 \<times> 'w"
  ti_isdir :: "string option \<Rightarrow> 'w \<Rightarrow> bool"
  ti_ext :: "string option \<Rightarrow> string"

abbreviation ent :: "'w qsys \<Rightarrow> nat \<Rightarrow> q_entry option" where "ent s e \<equiv> qs_ents s e"
abbreviation que :: "'w qsys \<Rightarrow> nat \<Rightarrow> phi_queue option" where "que s q \<equiv> qs_queues s q"

definition put_ent :: "nat \<Rightarrow> q_entry \<Rightarrow> 'w qsys \<Rightarrow> 'w qsys" where
  "put_ent e x s = s\<lparr>qs_ents := (qs_ents s)(e := Some x)\<rparr>"

definition put_que :: "nat \<Rightarrow> phi_queue \<Rightarrow> 'w qsys \<Rightarrow> 'w qsys" where
  "put_que q x s = s\<lparr>qs_queues := (qs_queues s)(q := Some x)\<rparr>"

definition on_change :: "nat \<Rightarrow> char \<Rightarrow> u32 \<Rightarrow> 'w qsys \<Rightarrow> 'w qsys" where
  "on_change q c pos s = s\<lparr>qs_changes := qs_changes s @ [(q, c, pos)]\<rparr>"

section \<open>Entries\<close>

definition meta_destroy :: "string list \<Rightarrow> string list" where
  "meta_destroy meta = []"

definition track_conf_destroy :: "phi_track_conf \<Rightarrow> phi_track_conf" where
  "track_conf_destroy c =
     c\<lparr>c_ifile := (c_ifile c)\<lparr>if_name := None\<rparr>, c_ofile := (c_ofile c)\<lparr>of_name := None\<rparr>,
       c_tracks := [], c_meta := meta_destroy (c_meta c)\<rparr>"

definition qe_free :: "nat \<Rightarrow> 'w qsys \<Rightarrow> 'w qsys option" where
  "qe_free e s = do {
     x \<leftarrow> ent s e;
     q \<leftarrow> que s (e_q x);
     let s1 = (if q_cursor q = Some e then put_que (e_q x) (q\<lparr>q_cursor := None\<rparr>) s else s);
     Some (s1\<lparr>qs_ents := (qs_ents s1)(e := None)\<rparr>)
   }"

text \<open>The memory of the new entry is zeroed; \<open>e->q\<close> is set by the caller.\<close>
definition qe_new :: "phi_track_conf \<Rightarrow> u32 \<Rightarrow> q_entry" where
  "qe_new c len = \<lparr>e_conf = c, e_length_msec = len, e_q = 0, e_trk = None, e_index = 0, e_used = 1,
     e_have_user_meta = (c_meta c \<noteq> [] \<and> \<not> c_meta_transient c), e_expand = False,
     e_play_next_on_close = False\<rparr>"

definition qe_ref :: "nat \<Rightarrow> 'w qsys \<Rightarrow> 'w qsys option" where
  "qe_ref e s = do { x \<leftarrow> ent s e; Some (put_ent e (x\<lparr>e_used := e_used x + 1\<rparr>) s) }"

definition qe_unref :: "nat \<Rightarrow> 'w qsys \<Rightarrow> 'w qsys option" where
  "qe_unref e s = do {
     x \<leftarrow> ent s e;
     if e_used x = 0 then None
     else let s1 = put_ent e (x\<lparr>e_used := e_used x - 1\<rparr>) s in
       if e_used x - 1 \<noteq> 0 then Some s1 else qe_free e s1
   }"

section \<open>Lookup\<close>

definition q_get :: "phi_queue \<Rightarrow> u32 \<Rightarrow> nat option" where
  "q_get q i = (if unat i < length (q_index q) then Some (q_index q ! unat i) else None)"

fun find_from :: "nat \<Rightarrow> nat list \<Rightarrow> nat \<Rightarrow> int" where
  "find_from i [] e = -1"
| "find_from i (x # xs) e = (if e = x then int i else find_from (Suc i) xs e)"

definition q_find :: "phi_queue \<Rightarrow> nat \<Rightarrow> int" where
  "q_find q e = find_from 0 (q_index q) e"

text \<open>\<open>qe_index\<close>: the cached position, searched anew when another entry is there.\<close>
definition qe_index :: "nat \<Rightarrow> 'w qsys \<Rightarrow> (u32 \<times> 'w qsys) option" where
  "qe_index e s = do {
     x \<leftarrow> ent s e;
     q \<leftarrow> que s (e_q x);
     if q_get q (e_index x) \<noteq> Some e
     then let i = word_of_int (q_find q e) in Some (i, put_ent e (x\<lparr>e_index := i\<rparr>) s)
     else Some (e_index x, s)
   }"

section \<open>Playing an entry\<close>

fun add_filters :: "'w track_if \<Rightarrow> nat \<Rightarrow> string list \<Rightarrow> 'w \<Rightarrow> bool \<times> 'w" where
  "add_filters I t [] w = (True, w)"
| "add_filters I t (f # fs) w =
     (case ti_filter I t f w of (False, w1) \<Rightarrow> (False, w1) | (True, w1) \<Rightarrow> add_filters I t fs w1)"

definition qe_chain :: "phi_queue_conf \<Rightarrow> phi_track_conf \<Rightarrow> string list" where
  "qe_chain qc c =
     (case qc_first_filter qc of None \<Rightarrow> [] | Some f \<Rightarrow> [f]) @
     (if qc_conversion qc then
        [''queue-guard'', ''core.auto-input'', ''format.detect'', ''afilter.until''] @
        (if afl_danorm (c_afilter c) \<noteq> None then [''danorm.f''] else []) @
        [qc_ui_module qc, ''afilter.gain'', ''afilter.auto-conv'', ''format.auto-write'', ''core.auto-output'']
      else if c_info_only c \<or> afl_peaks_info (c_afilter c) then
        [''queue-guard'', ''core.auto-input'', ''format.detect'', ''afilter.until'', qc_ui_module qc,
         ''afilter.auto-conv''] @
        (if afl_peaks_info (c_afilter c) then [''afilter.peaks''] else [])
      else
        [''queue-guard'', ''core.auto-input''] @
        (if c_tee c \<noteq> None then [''core.tee''] else []) @
        [''format.detect'', ''afilter.until''] @
        (if afl_danorm (c_afilter c) \<noteq> None then [''danorm.f''] else []) @
        [qc_ui_module qc, ''afilter.gain'', ''afilter.auto-conv''] @
        (if c_tee_output c \<noteq> None then [''core.tee''] else []) @
        [case qc_audio_module qc of None \<Rightarrow> [] | Some m \<Rightarrow> m])"

definition qe_play :: "'w track_if \<Rightarrow> nat \<Rightarrow> 'w qsys \<Rightarrow> (int \<times> 'w qsys) option" where
  "qe_play I e s = do {
     x \<leftarrow> ent s e;
     if e_expand x then Some (1, put_ent e (x\<lparr>e_play_next_on_close := True\<rparr>) s)
     else do {
       q \<leftarrow> que s (e_q x);
       let c = (e_conf x)\<lparr>c_cross_worker_assign := qc_conversion (q_conf_f q)\<rparr>;
       let x1 = x\<lparr>e_conf := c\<rparr>;
       let (t, w1) = ti_create I c (qs_w s);
       let (ok, w2) = add_filters I t (qe_chain (q_conf_f q) c) w1;
       if \<not> ok then Some (-1, (put_ent e x1 s)\<lparr>qs_w := ti_close I t w2\<rparr>)
       else
         let w3 = (if e_have_user_meta x1
                   then ti_update I t (\<lambda>tr. tr\<lparr>t_meta := t_meta tr @ c_meta (t_conf tr)\<rparr>) w2 else w2);
             w4 = (if 0 \<le> qs_dev_idx s
                   then ti_update I t (\<lambda>tr. tr\<lparr>t_conf := (t_conf tr)\<lparr>c_oaudio := (c_oaudio (t_conf tr))
                          \<lparr>oa_device_index := word_of_int (qs_dev_idx s)\<rparr>\<rparr>\<rparr>) w3 else w3);
             x2 = x1\<lparr>e_trk := Some t, e_used := e_used x1 + 1\<rparr>;
             q1 = q\<lparr>q_active_n := q_active_n q + 1\<rparr>;
             w5 = ti_start I t (ti_update I t (\<lambda>tr. tr\<lparr>t_qent := Some e\<rparr>) w4)
         in Some (0, (put_que (e_q x) q1 (put_ent e x2 s))\<lparr>qs_w := w5\<rparr>)
     }
   }"

definition qe_expand :: "'w track_if \<Rightarrow> nat \<Rightarrow> 'w qsys \<Rightarrow> (int \<times> 'w qsys) option" where
  "qe_expand I e s = do {
     x \<leftarrow> ent s e;
     let name = if_name (c_ifile (e_conf x));
     let dir = ti_isdir I name (qs_w s);
     let ext = ti_ext I name;
     let decompress = (\<not> dir \<and> ext = ''m3uz'');
     if \<not> dir \<and> ext \<notin> {''m3u8'', ''m3u'', ''m3uz''} then Some (-1, s)
     else do {
       q \<leftarrow> que s (e_q x);
       let (t, w1) = ti_create I (e_conf x) (qs_w s);
       let (ok, w2) = add_filters I t
             (if dir then [''queue-guard'', ''core.dir-read'']
              else [''queue-guard'', ''core.auto-input''] @
                   (if decompress then [''zstd.decompress''] else []) @ [''format.m3u'']) w1;
       if \<not> ok then Some (-1, s\<lparr>qs_w := ti_close I t w2\<rparr>)
       else
         let x1 = x\<lparr>e_expand := True, e_trk := Some t, e_used := e_used x + 1\<rparr>;
             q1 = q\<lparr>q_active_n := q_active_n q + 1\<rparr>;
             w3 = ti_start I t (ti_update I t (\<lambda>tr. tr\<lparr>t_qent := Some e\<rparr>) w2)
         in Some (0, (put_que (e_q x) q1 (put_ent e x1 s))\<lparr>qs_w := w3\<rparr>)
     }
   }"

definition qe_stop :: "'w track_if \<Rightarrow> nat \<Rightarrow> 'w qsys \<Rightarrow> 'w qsys option" where
  "qe_stop I e s = do {
     x \<leftarrow> ent s e;
     Some (case e_trk x of None \<Rightarrow> s | Some t \<Rightarrow> s\<lparr>qs_w := ti_stop I t (qs_w s)\<rparr>)
   }"

section \<open>The manager of queues\<close>

definition qm_add :: "nat \<Rightarrow> 'w qsys \<Rightarrow> 'w qsys" where
  "qm_add q s = s\<lparr>qs_lists := qs_lists s @ [q]\<rparr>"

definition qm_rm :: "nat \<Rightarrow> 'w qsys \<Rightarrow> 'w qsys" where
  "qm_rm q s = s\<lparr>qs_lists := remove1 q (qs_lists s)\<rparr>"

definition qm_default :: "'w qsys \<Rightarrow> nat option" where
  "qm_default s = (if unat (qs_selected s) < length (qs_lists s)
                   then Some (qs_lists s ! unat (qs_selected s)) else None)"

definition q_or_default :: "nat option \<Rightarrow> 'w qsys \<Rightarrow> nat option" where
  "q_or_default q s = (case q of None \<Rightarrow> qm_default s | Some i \<Rightarrow> Some i)"

definition qm_select :: "u32 \<Rightarrow> 'w qsys \<Rightarrow> nat option \<times> 'w qsys" where
  "qm_select pos s =
     (if length (qs_lists s) \<le> unat pos then (None, s)
      else let s1 = s\<lparr>qs_selected := pos\<rparr> in (qm_default s1, s1))"

definition qm_qselect :: "nat \<Rightarrow> 'w qsys \<Rightarrow> 'w qsys" where
  "qm_qselect q s =
     (let i = find_from 0 (qs_lists s) q in if i < 0 then s else s\<lparr>qs_selected := word_of_int i\<rparr>)"

fun unref_all :: "nat list \<Rightarrow> 'w qsys \<Rightarrow> 'w qsys option" where
  "unref_all [] s = Some s"
| "unref_all (e # es) s = Option.bind (qe_unref e s) (unref_all es)"

definition q_free :: "nat \<Rightarrow> 'w qsys \<Rightarrow> 'w qsys option" where
  "q_free q s = do {
     x \<leftarrow> que s q;
     s1 \<leftarrow> unref_all (q_index x) s;
     Some (s1\<lparr>qs_queues := (qs_queues s1)(q := None)\<rparr>)
   }"

definition q_create :: "phi_queue_conf \<Rightarrow> 'w qsys \<Rightarrow> nat \<times> 'w qsys" where
  "q_create conf s =
     (let q = qs_next s;
          conf1 = (if qc_audio_module conf = None then conf\<lparr>qc_audio_module := Some ''core.auto-play''\<rparr> else conf);
          s1 = put_que q \<lparr>q_conf_f = conf1, q_index = [], q_cursor = None, q_cursor_index = 0,
                 q_active_n = 0, q_random_split = False\<rparr> (s\<lparr>qs_next := q + 1\<rparr>)
      in (q, on_change q CHR ''n'' 0 (qm_add q s1)))"

definition q_destroy :: "nat option \<Rightarrow> 'w qsys \<Rightarrow> 'w qsys option" where
  "q_destroy qo s = do {
     q \<leftarrow> q_or_default qo s;
     q_free q (on_change q CHR ''d'' 0 (qm_rm q s))
   }"

section \<open>Operations on a queue\<close>

definition q_insert :: "nat \<Rightarrow> u32 \<Rightarrow> phi_track_conf \<Rightarrow> u32 \<Rightarrow> 'w qsys \<Rightarrow> (nat \<times> 'w qsys) option" where
  "q_insert q pos c len s = do {
     x \<leftarrow> que s q;
     let e = qs_next s;
     let ne = (qe_new c len)\<lparr>e_q := q, e_index := pos\<rparr>;
     let idx = q_index x;
     idx1 \<leftarrow> (if unat (pos + 1) = length idx + 1 then Some (idx @ [e])
              else if unat pos \<le> length idx then Some (take (unat pos) idx @ e # drop (unat pos) idx)
              else None);
     Some (e, on_change q CHR ''a'' pos (put_que q (x\<lparr>q_index := idx1\<rparr>) (put_ent e ne (s\<lparr>qs_next := e + 1\<rparr>))))
   }"

definition q_add :: "'w track_if \<Rightarrow> nat option \<Rightarrow> phi_track_conf \<Rightarrow> u32 \<Rightarrow> 'w qsys \<Rightarrow> (u32 \<times> 'w qsys) option" where
  "q_add I qo c len s = do {
     q \<leftarrow> q_or_default qo s;
     x \<leftarrow> que s q;
     (e, s1) \<leftarrow> q_insert q (of_nat (length (q_index x))) c len s;
     (_, s2) \<leftarrow> qe_expand I e s1;
     y \<leftarrow> ent s2 e;
     Some (e_index y, s2)
   }"

fun clear_all :: "nat list \<Rightarrow> 'w qsys \<Rightarrow> 'w qsys option" where
  "clear_all [] s = Some s"
| "clear_all (e # es) s =
     (case ent s e of None \<Rightarrow> None
      | Some x \<Rightarrow> Option.bind (qe_unref e (put_ent e (x\<lparr>e_index := -1\<rparr>) s)) (clear_all es))"

definition q_clear :: "nat option \<Rightarrow> 'w qsys \<Rightarrow> 'w qsys option" where
  "q_clear qo s = do {
     q \<leftarrow> q_or_default qo s;
     x \<leftarrow> que s q;
     clear_all (q_index x) (on_change q CHR ''c'' 0 (put_que q (x\<lparr>q_index := []\<rparr>) s))
   }"

definition q_count :: "nat option \<Rightarrow> 'w qsys \<Rightarrow> nat option" where
  "q_count qo s = do { q \<leftarrow> q_or_default qo s; x \<leftarrow> que s q; Some (length (q_index x)) }"

text \<open>\<open>None\<close>: the remainder by zero when the queue is empty.\<close>
definition q_random :: "'w track_if \<Rightarrow> nat \<Rightarrow> 'w qsys \<Rightarrow> (u32 \<times> 'w qsys) option" where
  "q_random I q s = do {
     x \<leftarrow> que s q;
     let n = length (q_index x);
     if n = 1 then Some (0, s)
     else
       let (r, w) = ti_rand I (qs_w s); i = unat r; split = q_random_split x;
           d = (if \<not> split then n div 2 else n - n div 2) in
       if d = 0 then None
       else let j = (if \<not> split then i mod d else n div 2 + i mod d)
            in Some (of_nat j, (put_que q (x\<lparr>q_random_split := \<not> split\<rparr>) s)\<lparr>qs_w := w\<rparr>)
   }"

definition q_get_index :: "'w track_if \<Rightarrow> nat \<Rightarrow> u32 \<Rightarrow> 'w qsys \<Rightarrow> (u32 \<times> 'w qsys) option" where
  "q_get_index I q i s = do {
     x \<leftarrow> que s q;
     if qc_random (q_conf_f x) then q_random I q s
     else if length (q_index x) \<le> unat i \<and> qc_repeat_all (q_conf_f x) then Some (0, s)
     else Some (i, s)
   }"

text \<open>\<open>q->cursor = e; q->cursor_index = qe_index (e)\<close>\<close>
definition set_cursor :: "nat \<Rightarrow> nat \<Rightarrow> 'w qsys \<Rightarrow> 'w qsys option" where
  "set_cursor q e s = do {
     x \<leftarrow> que s q;
     (i, s2) \<leftarrow> qe_index e (put_que q (x\<lparr>q_cursor := Some e\<rparr>) s);
     y \<leftarrow> que s2 q;
     Some (put_que q (y\<lparr>q_cursor_index := i\<rparr>) s2)
   }"

text \<open>The loop over a conversion list; \<open>None\<close> also when the fuel is used up.\<close>
fun q_play_conv :: "nat \<Rightarrow> 'w track_if \<Rightarrow> nat \<Rightarrow> nat \<Rightarrow> 'w qsys \<Rightarrow> (int \<times> 'w qsys) option" where
  "q_play_conv 0 I q e s = None"
| "q_play_conv (Suc n) I q e s = do {
     s1 \<leftarrow> set_cursor q e s;
     (r, s2) \<leftarrow> qe_play I e s1;
     if r \<noteq> 0 then Some (-1, s2)
     else if \<not> ti_workers_available I (qs_w s2) then Some (0, s2)
     else do {
       y \<leftarrow> ent s2 e;
       x \<leftarrow> que s2 q;
       if length (q_index x) \<le> unat (e_index y + 1) then Some (0, s2)
       else q_play_conv n I q (q_index x ! unat (e_index y + 1)) s2
     }
   }"

definition q_play :: "'w track_if \<Rightarrow> nat option \<Rightarrow> nat option \<Rightarrow> 'w qsys \<Rightarrow> (int \<times> 'w qsys) option" where
  "q_play I qo eo s = do {
     (pick, s1) \<leftarrow> (case eo of
         Some e \<Rightarrow> do { x \<leftarrow> ent s e; Some (Some (e_q x, e), s) }
       | None \<Rightarrow> do {
           q \<leftarrow> q_or_default qo s;
           x \<leftarrow> que s q;
           (i, s1) \<leftarrow> q_get_index I q (q_cursor_index x) s;
           y \<leftarrow> que s1 q;
           Some (map_option (Pair q) (q_get y i), s1)
         });
     case pick of
       None \<Rightarrow> Some (-1, s1)
     | Some (q, e) \<Rightarrow> do {
         x \<leftarrow> ent s1 e;
         eq \<leftarrow> que s1 (e_q x);
         y \<leftarrow> que s1 q;
         if qc_conversion (q_conf_f eq) then q_play_conv (length (q_index y) + 2) I q e s1
         else do {
           s2 \<leftarrow> (case q_cursor y of None \<Rightarrow> Some s1 | Some c \<Rightarrow> qe_stop I c s1);
           s3 \<leftarrow> set_cursor q e s2;
           (r, s4) \<leftarrow> qe_play I e s3;
           Some (if r \<noteq> 0 then -1 else 0, s4)
         }
       }
   }"

text \<open>The position \<open>q_play_next\<close> and \<open>q_play_prev\<close> look at, relative to the cursor.\<close>
definition next_pos :: "nat \<Rightarrow> phi_queue \<Rightarrow> 'w qsys \<Rightarrow> (u32 \<times> 'w qsys) option" where
  "next_pos e q s = do {
     x \<leftarrow> ent s e;
     if e_index x \<noteq> -1 then do { (i, s1) \<leftarrow> qe_index e s; Some (i + 1, s1) }
     else Some (q_cursor_index q, s)
   }"

definition prev_pos :: "nat \<Rightarrow> phi_queue \<Rightarrow> 'w qsys \<Rightarrow> (u32 \<times> 'w qsys) option" where
  "prev_pos e q s = do {
     x \<leftarrow> ent s e;
     Some (if e_index x \<noteq> -1 then e_index x - 1 else q_cursor_index q, s)
   }"

definition q_play_rel ::
    "(nat \<Rightarrow> phi_queue \<Rightarrow> 'w qsys \<Rightarrow> (u32 \<times> 'w qsys) option) \<Rightarrow> 'w track_if \<Rightarrow> nat option
     \<Rightarrow> 'w qsys \<Rightarrow> (int \<times> 'w qsys) option" where
  "q_play_rel pos I qo s = do {
     q \<leftarrow> q_or_default qo s;
     x \<leftarrow> que s q;
     (case q_cursor x of
        None \<Rightarrow> q_play I (Some q) None s
      | Some e \<Rightarrow> do {
          (i, s1) \<leftarrow> pos e x s;
          (j, s2) \<leftarrow> q_get_index I q i s1;
          y \<leftarrow> que s2 q;
          (case q_get y j of
             None \<Rightarrow> Some (-1, s2)
           | Some e' \<Rightarrow> q_play I (Some q) (Some e') s2)
        })
   }"

definition q_play_next :: "'w track_if \<Rightarrow> nat option \<Rightarrow> 'w qsys \<Rightarrow> (int \<times> 'w qsys) option" where
  "q_play_next I qo s = q_play_rel next_pos I qo s"

definition q_play_prev :: "'w track_if \<Rightarrow> nat option \<Rightarrow> 'w qsys \<Rightarrow> (int \<times> 'w qsys) option" where
  "q_play_prev I qo s = q_play_rel prev_pos I qo s"

text \<open>\<open>qe_close\<close>: the guard filter of a track is closed.\<close>
definition qe_close :: "'w track_if \<Rightarrow> nat \<Rightarrow> nat \<Rightarrow> 'w qsys \<Rightarrow> 'w qsys option" where
  "qe_close I e t s = do {
     x \<leftarrow> ent s e;
     q \<leftarrow> que s (e_q x);
     let tr = ti_get I t (qs_w s);
     let own = (e_trk x = Some t);
     let take_meta = (own \<and> \<not> qc_conversion (q_conf_f q) \<and> \<not> e_have_user_meta x);
     let x1 = (if own then x\<lparr>e_trk := None\<rparr> else x);
     let x2 = (if take_meta then x1\<lparr>e_conf := (e_conf x1)\<lparr>c_meta := t_meta tr\<rparr>\<rparr> else x1);
     let w1 = (if own \<and> e_expand x2 then ti_stop I t (qs_w s) else qs_w s);
     let w2 = ti_update I t (\<lambda>tr. tr\<lparr>t_meta := meta_destroy (t_meta tr)\<rparr>) w1;
     let s1 = (put_que (e_q x) (q\<lparr>q_active_n := q_active_n q - 1\<rparr>) (put_ent e x2 s))\<lparr>qs_w := w2\<rparr>;
     s2 \<leftarrow> (if \<not> has_flag tr PHI_FSTOP \<and> (\<not> e_expand x2 \<or> e_play_next_on_close x2)
            then map_option snd (q_play_next I (Some (e_q x)) s1) else Some s1);
     qe_unref e s2
   }"

definition q_status :: "nat option \<Rightarrow> 'w qsys \<Rightarrow> bool option" where
  "q_status qo s = do { q \<leftarrow> q_or_default qo s; x \<leftarrow> que s q; Some (q_active_n x \<noteq> 0) }"

definition q_at :: "nat option \<Rightarrow> u32 \<Rightarrow> 'w qsys \<Rightarrow> nat option option" where
  "q_at qo pos s = do { q \<leftarrow> q_or_default qo s; x \<leftarrow> que s q; Some (q_get x pos) }"

definition q_ref :: "nat option \<Rightarrow> u32 \<Rightarrow> 'w qsys \<Rightarrow> (nat option \<times> 'w qsys) option" where
  "q_ref qo pos s = do {
     q \<leftarrow> q_or_default qo s;
     x \<leftarrow> que s q;
     (case q_get x pos of None \<Rightarrow> Some (None, s) | Some e \<Rightarrow> map_option (Pair (Some e)) (qe_ref e s))
   }"

text \<open>The number \<open>n\<close> of entries to remove is an argument the function does not look at.\<close>
definition q_remove_at :: "nat option \<Rightarrow> u32 \<Rightarrow> u32 \<Rightarrow> 'w qsys \<Rightarrow> (int \<times> 'w qsys) option" where
  "q_remove_at qo pos n s = do {
     q \<leftarrow> q_or_default qo s;
     x \<leftarrow> que s q;
     (case q_get x pos of
        None \<Rightarrow> Some (-1, s)
      | Some e \<Rightarrow> do {
          y \<leftarrow> ent s e;
          let s1 = put_ent e (y\<lparr>e_index := -1\<rparr>) s;
          let ci = q_cursor_index x;
          let ci1 = (if 0 < ci \<and> (pos < ci \<or> pos = ci \<and> unat pos = length (q_index x) - 1) then ci - 1 else ci);
          let x1 = x\<lparr>q_cursor_index := ci1,
                     q_index := take (unat pos) (q_index x) @ drop (unat pos + 1) (q_index x)\<rparr>;
          s2 \<leftarrow> qe_unref e (put_que q x1 s1);
          Some (0, on_change q CHR ''r'' pos s2)
        })
   }"

definition qe_insert :: "nat \<Rightarrow> phi_track_conf \<Rightarrow> u32 \<Rightarrow> 'w qsys \<Rightarrow> (nat \<times> 'w qsys) option" where
  "qe_insert e c len s = do {
     x \<leftarrow> ent s e;
     (i, s1) \<leftarrow> qe_index e s;
     q_insert (e_q x) (i + 1) c len s1
   }"

definition qe_remove :: "nat \<Rightarrow> 'w qsys \<Rightarrow> (int \<times> 'w qsys) option" where
  "qe_remove e s = do {
     x \<leftarrow> ent s e;
     (i, s1) \<leftarrow> qe_index e s;
     q_remove_at (Some (e_q x)) i 1 s1
   }"

section \<open>Filtering and sorting\<close>

text \<open>
  \<open>qe_filter\<close>: \<open>ifind\<close> is the case-insensitive search of ffbase and \<open>vals\<close> the values
  \<open>phi_metaif->list\<close> yields.
\<close>
definition qe_filter ::
    "(string \<Rightarrow> string \<Rightarrow> bool) \<Rightarrow> (string list \<Rightarrow> string list) \<Rightarrow> q_entry \<Rightarrow> string \<Rightarrow> u32 \<Rightarrow> bool" where
  "qe_filter ifind vals x flt flags \<longleftrightarrow>
     (flags AND 1 \<noteq> 0 \<and> ifind (case if_name (c_ifile (e_conf x)) of None \<Rightarrow> [] | Some n \<Rightarrow> n) flt)
     \<or> (flags AND 2 \<noteq> 0 \<and> list_ex (\<lambda>v. ifind v flt) (vals (c_meta (e_conf x))))"

fun filter_into :: "(q_entry \<Rightarrow> bool) \<Rightarrow> nat list \<Rightarrow> nat list \<Rightarrow> 'w qsys \<Rightarrow> (nat list \<times> 'w qsys) option" where
  "filter_into P acc [] s = Some (acc, s)"
| "filter_into P acc (e # es) s =
     (case ent s e of None \<Rightarrow> None
      | Some x \<Rightarrow> if P x then Option.bind (qe_ref e s) (filter_into P (acc @ [e]) es) else filter_into P acc es s)"

definition q_filter ::
    "(string \<Rightarrow> string \<Rightarrow> bool) \<Rightarrow> (string list \<Rightarrow> string list) \<Rightarrow> nat option \<Rightarrow> string \<Rightarrow> u32 \<Rightarrow> 'w qsys
     \<Rightarrow> (nat \<times> 'w qsys) option" where
  "q_filter ifind vals qo flt flags0 s = do {
     let flags = (if flags0 = 0 then 3 else flags0);
     q \<leftarrow> q_or_default qo s;
     x \<leftarrow> que s q;
     let qf = qs_next s;
     let nq = \<lparr>q_conf_f = (q_conf_f x)\<lparr>qc_name := ''Filter''\<rparr>, q_index = [], q_cursor = None,
               q_cursor_index = 0, q_active_n = 0, q_random_split = False\<rparr>;
     let s1 = qm_add qf (put_que qf nq (s\<lparr>qs_next := qf + 1\<rparr>));
     (idx, s2) \<leftarrow> filter_into (\<lambda>y. qe_filter ifind vals y flt flags) [] (q_index x) s1;
     Some (qf, put_que qf (nq\<lparr>q_index := idx\<rparr>) s2)
   }"

fun shuffle_loop :: "'w track_if \<Rightarrow> nat list \<Rightarrow> nat list \<Rightarrow> 'w \<Rightarrow> nat list \<times> 'w" where
  "shuffle_loop I [] idx w = (idx, w)"
| "shuffle_loop I (i # is) idx w =
     (let (r, w1) = ti_rand I w; n = unat r mod length idx
      in shuffle_loop I is (idx[i := idx ! n, n := idx ! i]) w1)"

definition sort_random :: "'w track_if \<Rightarrow> nat \<Rightarrow> 'w qsys \<Rightarrow> 'w qsys option" where
  "sort_random I q s = do {
     x \<leftarrow> que s q;
     let (idx, w) = shuffle_loop I [0..<length (q_index x)] (q_index x) (qs_w s);
     Some ((put_que q (x\<lparr>q_index := idx\<rparr>) s)\<lparr>qs_w := w\<rparr>)
   }"

definition q_sort_cmp :: "(string \<Rightarrow> string \<Rightarrow> int) \<Rightarrow> 'w qsys \<Rightarrow> nat \<Rightarrow> nat \<Rightarrow> int" where
  "q_sort_cmp icmp s a b =
     (let name = (\<lambda>e. case ent s e of None \<Rightarrow> [] | Some x \<Rightarrow>
                   (case if_name (c_ifile (e_conf x)) of None \<Rightarrow> [] | Some n \<Rightarrow> n))
      in icmp (name a) (name b))"

text \<open>\<open>ffsort\<close> is \<open>srt\<close>, \<open>ffsz_icmp\<close> is \<open>icmp\<close>.\<close>
definition q_sort ::
    "((nat \<Rightarrow> nat \<Rightarrow> int) \<Rightarrow> nat list \<Rightarrow> nat list) \<Rightarrow> (string \<Rightarrow> string \<Rightarrow> int) \<Rightarrow> 'w track_if
     \<Rightarrow> nat option \<Rightarrow> u32 \<Rightarrow> 'w qsys \<Rightarrow> 'w qsys option" where
  "q_sort srt icmp I qo flags s = do {
     q \<leftarrow> q_or_default qo s;
     if flags AND 1 \<noteq> 0 then sort_random I q s
     else do {
       x \<leftarrow> que s q;
       Some (put_que q (x\<lparr>q_index := srt (q_sort_cmp icmp s) (q_index x)\<rparr>) s)
     }
   }"

definition q_device :: "u32 \<Rightarrow> 'w qsys \<Rightarrow> 'w qsys" where
  "q_device device s = s\<lparr>qs_dev_idx := sint device\<rparr>"

section \<open>Reference counts\<close>

text \<open>
  How many references to an entry the queues hold; \<open>h\<close> below is the multiset of the references
  outside of the queues (\<open>q_ref\<close>, and the tracks that play an entry).
\<close>
definition idx :: "'w qsys \<Rightarrow> nat \<Rightarrow> nat list" where
  "idx s q = (case que s q of None \<Rightarrow> [] | Some x \<Rightarrow> q_index x)"

definition refs :: "'w qsys \<Rightarrow> nat \<Rightarrow> nat" where
  "refs s e = (\<Sum>q \<leftarrow> qs_lists s. count_list (idx s q) e)"

text \<open>Every live entry has its counter and a live queue, and nothing else is counted.\<close>
definition ent_ok :: "'w qsys \<Rightarrow> q_entry option \<Rightarrow> nat \<Rightarrow> bool" where
  "ent_ok s xo k \<longleftrightarrow> (case xo of None \<Rightarrow> k = 0
     | Some x \<Rightarrow> unat (e_used x) = k \<and> 0 < k \<and> que s (e_q x) \<noteq> None)"

definition cnt_ok :: "'w qsys \<Rightarrow> (nat \<Rightarrow> nat) \<Rightarrow> bool" where
  "cnt_ok s n \<longleftrightarrow> (\<forall>e. ent_ok s (ent s e) (n e))"

definition struct_ok :: "'w qsys \<Rightarrow> bool" where
  "struct_ok s \<longleftrightarrow> distinct (qs_lists s) \<and> {q. que s q \<noteq> None} = set (qs_lists s)
     \<and> (\<forall>q. distinct (idx s q) \<and> (\<forall>e \<in> set (idx s q). e < qs_next s))
     \<and> (\<forall>q \<in> set (qs_lists s). q < qs_next s)"

definition q_inv :: "'w qsys \<Rightarrow> nat multiset \<Rightarrow> bool" where
  "q_inv s h \<longleftrightarrow> struct_ok s \<and> cnt_ok s (\<lambda>e. refs s e + count h e) \<and> (\<forall>e \<in># h. e < qs_next s)"

text \<open>States that agree on everything but the entries and the cursors.\<close>
definition same_q :: "'w qsys \<Rightarrow> 'w qsys \<Rightarrow> bool" where
  "same_q s s' \<longleftrightarrow> qs_lists s' = qs_lists s \<and> qs_next s' = qs_next s \<and> qs_selected s' = qs_selected s
     \<and> (\<forall>q. map_option (\<lambda>x. x\<lparr>q_cursor := None\<rparr>) (que s' q) = map_option (\<lambda>x. x\<lparr>q_cursor := None\<rparr>) (que s q))"

lemma same_q_refl [simp]: "same_q s s"
  by (simp add: same_q_def)

lemma same_q_trans: "same_q a b \<Longrightarrow> same_q b c \<Longrightarrow> same_q a c"
  by (simp add: same_q_def)

lemma same_q_que: "same_q s s' \<Longrightarrow> que s q = Some x \<Longrightarrow>
    \<exists>c. que s' q = Some (x\<lparr>q_cursor := c\<rparr>)"
proof -
  assume "same_q s s'" and x: "que s q = Some x"
  then have "map_option (\<lambda>x. x\<lparr>q_cursor := None\<rparr>) (que s' q) = Some (x\<lparr>q_cursor := None\<rparr>)"
    by (simp add: same_q_def)
  then obtain y where y: "que s' q = Some y" and e: "y\<lparr>q_cursor := None\<rparr> = x\<lparr>q_cursor := None\<rparr>" by auto
  have "y = y\<lparr>q_cursor := None, q_cursor := q_cursor y\<rparr>" by simp
  also have "\<dots> = x\<lparr>q_cursor := q_cursor y\<rparr>" unfolding e by simp
  finally show ?thesis using y by metis
qed

lemma same_q_none: "same_q s s' \<Longrightarrow> que s' q = None \<longleftrightarrow> que s q = None"
  unfolding same_q_def by (metis map_option_is_None)

lemma same_q_idx: "same_q s s' \<Longrightarrow> idx s' q = idx s q"
  using same_q_que [of s s' q] same_q_none [of s s' q]
  by (cases "que s q") (auto simp: idx_def)

lemma same_q_refs: "same_q s s' \<Longrightarrow> refs s' e = refs s e"
  by (simp add: refs_def same_q_idx) (simp add: same_q_def)

lemma same_q_struct: "same_q s s' \<Longrightarrow> struct_ok s' \<longleftrightarrow> struct_ok s"
  by (simp add: struct_ok_def same_q_idx same_q_none) (simp add: same_q_def)

lemma same_q_put_ent [simp]: "same_q s (put_ent e x s)"
  by (simp add: same_q_def put_ent_def)

lemma put_simps [simp]:
  "que (put_ent e x s) q = que s q" "ent (put_que q y s) e = ent s e"
  "ent (put_ent e x s) e' = (if e' = e then Some x else ent s e')"
  "que (put_que q y s) q' = (if q' = q then Some y else que s q')"
  "qs_lists (put_ent e x s) = qs_lists s" "qs_lists (put_que q y s) = qs_lists s"
  "qs_next (put_ent e x s) = qs_next s" "qs_next (put_que q y s) = qs_next s"
  by (simp_all add: put_ent_def put_que_def)

lemma ent_ok_mono: "ent_ok s xo k \<Longrightarrow> (\<And>q. que s q \<noteq> None \<Longrightarrow> que s' q \<noteq> None) \<Longrightarrow> ent_ok s' xo k"
  by (auto simp: ent_ok_def split: option.splits)

lemma cnt_ok_upd:
  assumes c: "cnt_ok s n" and q: "\<And>q. que s q \<noteq> None \<Longrightarrow> que s' q \<noteq> None"
    and o: "\<And>e'. e' \<noteq> e \<Longrightarrow> ent s' e' = ent s e'" and k: "ent_ok s' (ent s' e) k"
  shows "cnt_ok s' (n(e := k))"
  unfolding cnt_ok_def
proof
  fix e'
  show "ent_ok s' (ent s' e') ((n(e := k)) e')"
    using k c ent_ok_mono [of s "ent s e'" "n e'" s', OF _ q] o [of e'] by (cases "e' = e") (auto simp: cnt_ok_def)
qed

lemma cnt_ok_put_ent:
  "cnt_ok s n \<Longrightarrow> ent s e = Some x \<Longrightarrow> e_used y = e_used x \<Longrightarrow> e_q y = e_q x \<Longrightarrow> cnt_ok (put_ent e y s) n"
proof -
  assume c: "cnt_ok s n" and x: "ent s e = Some x" "e_used y = e_used x" "e_q y = e_q x"
  then have "ent_ok s (Some x) (n e)" unfolding cnt_ok_def by metis
  then have "cnt_ok (put_ent e y s) (n(e := n e))"
    using x by (intro cnt_ok_upd [OF c]) (auto simp: ent_ok_def)
  then show ?thesis by simp
qed

lemma cnt_ok_put_que: "cnt_ok s n \<Longrightarrow> cnt_ok (put_que q y s) n"
  unfolding cnt_ok_def by (auto intro: ent_ok_mono)

lemma cnt_okD: "cnt_ok s n \<Longrightarrow> 0 < n e \<Longrightarrow> \<exists>x q. ent s e = Some x \<and> unat (e_used x) = n e \<and> que s (e_q x) = Some q"
  unfolding cnt_ok_def ent_ok_def by (drule spec [of _ e]) (auto split: option.splits)

lemma qe_ref_ok:
  assumes c: "cnt_ok s n" and e: "0 < n e" and lim: "n e < 2 ^ 32 - 1"
  shows "\<exists>s'. qe_ref e s = Some s' \<and> cnt_ok s' (n(e := n e + 1)) \<and> same_q s s'"
proof -
  from cnt_okD [OF c e] obtain x where x: "ent s e = Some x" "unat (e_used x) = n e" "que s (e_q x) \<noteq> None"
    by auto
  have "unat (e_used x + 1) = n e + 1"
    using x(2) lim by (subst unat_add_small) simp_all
  then have "cnt_ok (put_ent e (x\<lparr>e_used := e_used x + 1\<rparr>) s) (n(e := n e + 1))"
    using x by (intro cnt_ok_upd [OF c]) (auto simp: ent_ok_def)
  then show ?thesis using x by (simp add: qe_ref_def)
qed

lemma qe_unref_ok:
  assumes c: "cnt_ok s n" and e: "0 < n e"
  shows "\<exists>s'. qe_unref e s = Some s' \<and> cnt_ok s' (n(e := n e - 1)) \<and> same_q s s'"
proof -
  from cnt_okD [OF c e] obtain x q where x: "ent s e = Some x" "unat (e_used x) = n e" "que s (e_q x) = Some q"
    by auto
  have nz: "e_used x \<noteq> 0" using x(2) e by (simp add: word_neq_0_unat)
  have dec: "unat (e_used x - 1) = n e - 1" using nz x(2) by (simp add: unat_minus_one)
  let ?s1 = "put_ent e (x\<lparr>e_used := e_used x - 1\<rparr>) s"
  show ?thesis
  proof (cases "e_used x - 1 = 0")
    case False
    then have "0 < n e - 1" using dec unat_eq_0 [of "e_used x - 1"] by auto
    then have "cnt_ok ?s1 (n(e := n e - 1))"
      using x dec by (intro cnt_ok_upd [OF c]) (auto simp: ent_ok_def)
    then show ?thesis using x nz False by (simp add: qe_unref_def)
  next
    case True
    then have n1: "n e - 1 = 0" using dec by simp
    let ?s2 = "if q_cursor q = Some e then put_que (e_q x) (q\<lparr>q_cursor := None\<rparr>) ?s1 else ?s1"
    let ?s3 = "?s2\<lparr>qs_ents := (qs_ents ?s2)(e := None)\<rparr>"
    have u: "qe_unref e s = Some ?s3"
      using x nz True by (simp add: qe_unref_def qe_free_def Let_def)
    have "cnt_ok ?s3 (n(e := n e - 1))"
      unfolding n1 by (intro cnt_ok_upd [OF c]) (auto simp: ent_ok_def)
    moreover have "same_q s ?s3" using x(3) by (auto simp: same_q_def put_que_def put_ent_def)
    ultimately show ?thesis using u by blast
  qed
qed

lemma refs_zero_idx: "que s q \<noteq> None \<Longrightarrow> struct_ok s \<Longrightarrow> e \<in> set (idx s q) \<Longrightarrow> 0 < refs s e"
proof -
  assume "que s q \<noteq> None" and st: "struct_ok s" and e: "e \<in> set (idx s q)"
  then have q: "q \<in> set (qs_lists s)" by (auto simp: struct_ok_def)
  have "0 < count_list (idx s q) e" using e by (metis count_list_0_iff gr0I)
  then show ?thesis unfolding refs_def
    using member_le_sum_list [of "count_list (idx s q) e" "map (\<lambda>q. count_list (idx s q) e) (qs_lists s)"] q
    by auto
qed

lemma sum_list_update_one:
  "distinct xs \<Longrightarrow> q \<in> set xs \<Longrightarrow> (\<And>x. x \<noteq> q \<Longrightarrow> g x = f x) \<Longrightarrow>
     sum_list (map g xs) + f q = sum_list (map f xs) + (g q :: nat)"
proof (induction xs)
  case (Cons x xs)
  show ?case
  proof (cases "x = q")
    case True
    then have "sum_list (map g xs) = sum_list (map f xs)"
      using Cons.prems(1,3) by (intro arg_cong [where f = sum_list] map_cong refl) (metis distinct.simps(2))
    with True show ?thesis by simp
  next
    case False
    with Cons show ?thesis by simp
  qed
qed simp

lemma refs_put_que:
  assumes "struct_ok s" and "que s q = Some x"
  shows "refs (put_que q y s) e + count_list (q_index x) e = refs s e + count_list (q_index y) e"
proof -
  have "distinct (qs_lists s)" and "q \<in> set (qs_lists s)" using assms by (auto simp: struct_ok_def)
  from sum_list_update_one [OF this, of "\<lambda>q'. count_list (idx (put_que q y s) q') e" "\<lambda>q'. count_list (idx s q') e"]
  show ?thesis using assms(2) by (simp add: refs_def idx_def)
qed

lemma count_list_distinct: "distinct xs \<Longrightarrow> count_list xs x = (if x \<in> set xs then 1 else 0)"
  by (induction xs) auto

lemma struct_ok_put_que:
  assumes "struct_ok s" and "que s q = Some x" and "distinct (q_index y)"
    and "\<forall>e \<in> set (q_index y). e < qs_next s"
  shows "struct_ok (put_que q y s)"
  using assms by (auto simp: struct_ok_def idx_def split: option.splits)

lemma q_inv_fresh:
  assumes inv: "q_inv s h" and e: "qs_next s \<le> e"
  shows "refs s e = 0" and "count h e = 0" and "ent s e = None" and "que s e = None"
proof -
  have st: "struct_ok s" and h: "\<forall>e \<in># h. e < qs_next s" using inv by (simp_all add: q_inv_def)
  have "e \<notin> set (idx s q)" for q using st e unfolding struct_ok_def by (meson not_le)
  then show r: "refs s e = 0" by (simp add: refs_def)
  have "e \<notin># h" using h e by (meson not_le)
  then show c: "count h e = 0" by (simp add: not_in_iff)
  have "ent_ok s (ent s e) (refs s e + count h e)" using inv by (simp add: q_inv_def cnt_ok_def)
  then show "ent s e = None" using r c by (simp add: ent_ok_def split: option.splits)
  have "e \<notin> set (qs_lists s)" using st e unfolding struct_ok_def by (meson not_le)
  then show "que s e = None" using st by (auto simp: struct_ok_def)
qed

lemma on_change_simps [simp]:
  "ent (on_change q c p s) e = ent s e" "que (on_change q c p s) q' = que s q'"
  "qs_lists (on_change q c p s) = qs_lists s" "qs_next (on_change q c p s) = qs_next s"
  by (simp_all add: on_change_def)

lemma on_change_idx [simp]: "idx (on_change q c p s) q' = idx s q'" "refs (on_change q c p s) e = refs s e"
  by (simp_all add: idx_def refs_def)

lemma on_change_ent_ok [simp]: "ent_ok (on_change q c p s) xo k = ent_ok s xo k"
  by (cases xo) (simp_all add: ent_ok_def)

lemma next_simps [simp]:
  "idx (s\<lparr>qs_next := k\<rparr>) q = idx s q" "refs (s\<lparr>qs_next := k\<rparr>) e = refs s e"
  by (simp_all add: idx_def refs_def)

lemma struct_ok_next: "struct_ok s \<Longrightarrow> struct_ok (s\<lparr>qs_next := Suc (qs_next s)\<rparr>)"
  by (simp add: struct_ok_def less_SucI)

lemma on_change_inv [simp]:
  "struct_ok (on_change q c p s) = struct_ok s" "cnt_ok (on_change q c p s) n = cnt_ok s n"
  "q_inv (on_change q c p s) h = q_inv s h"
  by (simp_all add: struct_ok_def cnt_ok_def q_inv_def)

text \<open>The index with a new entry at a position.\<close>
definition ins_at :: "nat \<Rightarrow> 'a \<Rightarrow> 'a list \<Rightarrow> 'a list" where
  "ins_at i x xs = take i xs @ x # drop i xs"

definition del_at :: "nat \<Rightarrow> 'a list \<Rightarrow> 'a list" where
  "del_at i xs = take i xs @ drop (Suc i) xs"

lemma count_ins_at: "count_list (ins_at i x xs) y = count_list xs y + (if y = x then 1 else 0)"
proof -
  have "count_list xs y = count_list (take i xs) y + count_list (drop i xs) y"
    by (metis append_take_drop_id count_list_append)
  then show ?thesis by (simp add: ins_at_def)
qed

lemma set_ins_at: "set (ins_at i x xs) = insert x (set xs)"
  by (auto simp: ins_at_def dest: in_set_takeD in_set_dropD) (metis Un_iff append_take_drop_id set_append)

lemma distinct_ins_at: "distinct xs \<Longrightarrow> x \<notin> set xs \<Longrightarrow> distinct (ins_at i x xs)"
  by (auto simp: ins_at_def set_take_disj_set_drop_if_distinct dest: in_set_takeD in_set_dropD)

lemma count_del_at: "i < length xs \<Longrightarrow> count_list xs y = count_list (del_at i xs) y + (if y = xs ! i then 1 else 0)"
proof -
  assume "i < length xs"
  then have "count_list xs y = count_list (take i xs @ xs ! i # drop (Suc i) xs) y"
    by (simp add: id_take_nth_drop [symmetric])
  then show ?thesis by (auto simp: del_at_def)
qed

lemma set_del_at: "set (del_at i xs) \<subseteq> set xs"
  by (auto simp: del_at_def dest: in_set_takeD in_set_dropD)

lemma distinct_del_at: "distinct xs \<Longrightarrow> distinct (del_at i xs)"
  by (auto simp: del_at_def set_take_disj_set_drop_if_distinct)

lemma q_insert_ok:
  assumes inv: "q_inv s h" and x: "que s q = Some x" and pos: "unat pos \<le> length (q_index x)"
    and len: "length (q_index x) < 2 ^ 32 - 1"
  shows "\<exists>s'. q_insert q pos c l s = Some (qs_next s, s') \<and> q_inv s' h
    \<and> que s' q = Some (x\<lparr>q_index := ins_at (unat pos) (qs_next s) (q_index x)\<rparr>)"
proof -
  let ?e = "qs_next s" and ?y = "x\<lparr>q_index := ins_at (unat pos) (qs_next s) (q_index x)\<rparr>"
  let ?ne = "(qe_new c l)\<lparr>e_q := q, e_index := pos\<rparr>"
  let ?s0 = "put_ent ?e ?ne (s\<lparr>qs_next := ?e + 1\<rparr>)"
  let ?s' = "on_change q CHR ''a'' pos (put_que q ?y ?s0)"
  have st: "struct_ok s" using inv by (simp add: q_inv_def)
  note fresh = q_inv_fresh [OF inv order.refl]
  have "unat (pos + 1) = unat pos + 1" using pos len by (subst unat_add_small) simp_all
  then have r: "q_insert q pos c l s = Some (?e, ?s')"
    using x pos by (auto simp: q_insert_def Let_def ins_at_def)
  have st0: "struct_ok ?s0" using struct_ok_next [OF st] by (simp add: same_q_struct [OF same_q_put_ent])
  have r0: "refs ?s0 e = refs s e" for e
    by (simp add: same_q_refs [OF same_q_put_ent])
  have idx: "q_index x = idx s q" using x by (simp add: idx_def)
  have dist: "distinct (q_index x)" "\<forall>e \<in> set (q_index x). e < ?e" using st unfolding idx by (auto simp: struct_ok_def)
  then have st': "struct_ok (put_que q ?y ?s0)"
    using x by (intro struct_ok_put_que [OF st0]) (auto simp: set_ins_at intro!: distinct_ins_at)
  have "refs (put_que q ?y ?s0) e = refs s e + (if e = ?e then 1 else 0)" for e
    using refs_put_que [OF st0, of q x ?y e] x r0 by (simp add: count_ins_at)
  then have cnt: "(\<lambda>e. refs (put_que q ?y ?s0) e + count h e) = (\<lambda>e. refs s e + count h e)(?e := 1)"
    using fresh by (auto simp: fun_eq_iff)
  have "cnt_ok s (\<lambda>e. refs s e + count h e)" using inv by (simp add: q_inv_def)
  then have "cnt_ok (put_que q ?y ?s0) (\<lambda>e. refs (put_que q ?y ?s0) e + count h e)"
    unfolding cnt by (rule cnt_ok_upd) (auto simp: ent_ok_def qe_new_def put_ent_def put_que_def)
  then have "q_inv ?s' h" using st' inv by (auto simp: q_inv_def less_Suc_eq)
  then show ?thesis using r by simp
qed

lemma q_remove_ok:
  assumes inv: "q_inv s h" and x: "que s q = Some x" and pos: "unat pos < length (q_index x)"
  shows "\<exists>s' c ci. q_remove_at (Some q) pos n s = Some (0, s') \<and> q_inv s' h
    \<and> ci = (if 0 < q_cursor_index x \<and> (pos < q_cursor_index x
               \<or> pos = q_cursor_index x \<and> unat pos = length (q_index x) - 1)
            then q_cursor_index x - 1 else q_cursor_index x)
    \<and> que s' q = Some (x\<lparr>q_cursor_index := ci, q_index := del_at (unat pos) (q_index x), q_cursor := c\<rparr>)"
proof -
  let ?e = "q_index x ! unat pos"
  let ?ci = "if 0 < q_cursor_index x \<and> (pos < q_cursor_index x
       \<or> pos = q_cursor_index x \<and> unat pos = length (q_index x) - 1) then q_cursor_index x - 1 else q_cursor_index x"
  let ?x1 = "x\<lparr>q_cursor_index := ?ci, q_index := del_at (unat pos) (q_index x)\<rparr>"
  have st: "struct_ok s" and c: "cnt_ok s (\<lambda>e. refs s e + count h e)" using inv by (simp_all add: q_inv_def)
  have idx: "q_index x = idx s q" using x by (simp add: idx_def)
  have mem: "?e \<in> set (idx s q)" using pos unfolding idx by simp
  have pos_ref: "0 < refs s ?e" using refs_zero_idx [OF _ st mem] x by simp
  obtain y where y: "ent s ?e = Some y" using cnt_okD [OF c, of ?e] pos_ref by auto
  let ?s1 = "put_que q ?x1 (put_ent ?e (y\<lparr>e_index := -1\<rparr>) s)"
  have c1: "cnt_ok ?s1 (\<lambda>e. refs s e + count h e)"
    by (intro cnt_ok_put_que cnt_ok_put_ent [OF c y]) simp_all
  have p: "same_q s (put_ent ?e (y\<lparr>e_index := -1\<rparr>) s)" by simp
  from qe_unref_ok [OF c1, of ?e] pos_ref obtain s2 where
    u: "qe_unref ?e ?s1 = Some s2" and c2: "cnt_ok s2 ((\<lambda>e. refs s e + count h e)(?e := refs s ?e + count h ?e - 1))"
    and same: "same_q ?s1 s2" by auto
  have st1: "struct_ok ?s1"
  proof (rule struct_ok_put_que)
    show "struct_ok (put_ent ?e (y\<lparr>e_index := -1\<rparr>) s)" using st same_q_struct [OF same_q_put_ent] by blast
    show "que (put_ent ?e (y\<lparr>e_index := -1\<rparr>) s) q = Some x" using x by simp
  qed (use st idx set_del_at [of "unat pos" "q_index x"] in \<open>auto simp: struct_ok_def intro!: distinct_del_at\<close>)
  have "refs s2 e = refs s e - (if e = ?e then 1 else 0)" for e
  proof -
    have "refs ?s1 e + count_list (q_index x) e = refs (put_ent ?e (y\<lparr>e_index := -1\<rparr>) s) e + count_list (q_index ?x1) e"
      using st x same_q_struct [OF same_q_put_ent] by (intro refs_put_que) auto
    then show ?thesis
      using same_q_refs [OF same, of e] same_q_refs [OF p, of e]
        count_del_at [OF pos, of e] by auto
  qed
  then have "(\<lambda>e. refs s2 e + count h e) = (\<lambda>e. refs s e + count h e)(?e := refs s ?e + count h ?e - 1)"
    using pos_ref by (auto simp: fun_eq_iff)
  moreover have "qs_next s2 = qs_next s" using same by (simp add: same_q_def)
  ultimately have inv2: "q_inv s2 h"
    using c2 st1 same_q_struct [OF same] inv by (simp add: q_inv_def)
  obtain cu where q2: "que s2 q = Some (?x1\<lparr>q_cursor := cu\<rparr>)"
    using same_q_que [OF same, of q ?x1] by auto
  have "q_remove_at (Some q) pos n s = Some (0, on_change q CHR ''r'' pos s2)"
    using x pos y u by (simp add: q_remove_at_def q_or_default_def q_get_def Let_def del_at_def)
  then show ?thesis using inv2 q2
    by (intro exI [of _ "on_change q CHR ''r'' pos s2"] exI [of _ cu] exI [of _ ?ci] conjI) simp_all
qed

lemma clear_all_ok:
  "cnt_ok s n \<Longrightarrow> (\<And>e. count_list es e \<le> n e) \<Longrightarrow>
     \<exists>s'. clear_all es s = Some s' \<and> cnt_ok s' (\<lambda>e. n e - count_list es e) \<and> same_q s s'"
proof (induction es arbitrary: s n)
  case (Cons e es)
  have pos: "0 < n e" using Cons.prems(2) [of e] by simp
  then obtain x where x: "ent s e = Some x" using cnt_okD [OF Cons.prems(1)] by blast
  let ?s1 = "put_ent e (x\<lparr>e_index := -1\<rparr>) s"
  have "cnt_ok ?s1 n" using Cons.prems(1) x by (rule cnt_ok_put_ent) simp_all
  from qe_unref_ok [OF this pos] obtain s2 where u: "qe_unref e ?s1 = Some s2"
    and c2: "cnt_ok s2 (n(e := n e - 1))" and same: "same_q ?s1 s2" by blast
  have le: "count_list es e' \<le> (n(e := n e - 1)) e'" for e' using Cons.prems(2) [of e'] by (auto split: if_splits)
  from Cons.IH [OF c2 le] obtain s3 where c: "clear_all es s2 = Some s3"
    and c3: "cnt_ok s3 (\<lambda>e'. (n(e := n e - 1)) e' - count_list es e')" and same3: "same_q s2 s3" by blast
  have "(\<lambda>e'. (n(e := n e - 1)) e' - count_list es e') = (\<lambda>e'. n e' - count_list (e # es) e')"
    by (auto simp: fun_eq_iff)
  moreover have "same_q s s3" using same_q_trans [OF same_q_trans [OF same_q_put_ent same] same3] .
  ultimately show ?case using x u c c3 by auto
qed simp

lemma q_clear_ok:
  assumes inv: "q_inv s h" and x: "que s q = Some x"
  shows "\<exists>s'. q_clear (Some q) s = Some s' \<and> q_inv s' h \<and> idx s' q = []"
proof -
  let ?s1 = "put_que q (x\<lparr>q_index := []\<rparr>) s"
  have st: "struct_ok s" and c: "cnt_ok s (\<lambda>e. refs s e + count h e)" using inv by (simp_all add: q_inv_def)
  have st1: "struct_ok ?s1" using x by (intro struct_ok_put_que [OF st]) simp_all
  have r1: "refs ?s1 e + count_list (q_index x) e = refs s e" for e
    using refs_put_que [OF st x, of "x\<lparr>q_index := []\<rparr>" e] by simp
  have le: "count_list (q_index x) e \<le> refs s e + count h e" for e using r1 [of e] by simp
  have "cnt_ok (on_change q CHR ''c'' 0 ?s1) (\<lambda>e. refs s e + count h e)" using c by (simp add: cnt_ok_put_que)
  from clear_all_ok [OF this le] obtain s2 where
    u: "clear_all (q_index x) (on_change q CHR ''c'' 0 ?s1) = Some s2"
    and c2: "cnt_ok s2 (\<lambda>e. refs s e + count h e - count_list (q_index x) e)"
    and same: "same_q (on_change q CHR ''c'' 0 ?s1) s2" by blast
  have "(\<lambda>e. refs s2 e + count h e) = (\<lambda>e. refs s e + count h e - count_list (q_index x) e)"
  proof
    fix e
    show "refs s2 e + count h e = refs s e + count h e - count_list (q_index x) e"
      using r1 [of e] same_q_refs [OF same, of e] by simp
  qed
  then have "q_inv s2 h"
    using c2 st1 same_q_struct [OF same] inv same by (simp add: q_inv_def) (simp add: same_q_def)
  moreover have "idx s2 q = []" using same_q_idx [OF same, of q] by (simp add: idx_def)
  ultimately show ?thesis using u x by (simp add: q_clear_def q_or_default_def)
qed

lemma q_inv_cnt: "q_inv s h \<Longrightarrow> same_q s s' \<Longrightarrow> cnt_ok s' (\<lambda>e. refs s e + count h' e) \<Longrightarrow>
    (\<And>e. e \<in># h' \<Longrightarrow> e < qs_next s) \<Longrightarrow> q_inv s' h'"
  using same_q_struct [of s s'] same_q_refs [of s s'] by (simp add: q_inv_def same_q_def)

lemma q_ref_ok:
  assumes inv: "q_inv s h" and x: "que s q = Some x" and lim: "\<And>e. refs s e + count h e < 2 ^ 32 - 1"
  shows "\<exists>r s'. q_ref (Some q) pos s = Some (r, s') \<and> q_inv s' (case r of None \<Rightarrow> h | Some e \<Rightarrow> add_mset e h)"
proof (cases "q_get x pos")
  case None
  then show ?thesis using inv x by (simp add: q_ref_def q_or_default_def)
next
  case (Some e)
  have st: "struct_ok s" and c: "cnt_ok s (\<lambda>e. refs s e + count h e)" using inv by (simp_all add: q_inv_def)
  have mem: "e \<in> set (idx s q)" using Some x by (auto simp: q_get_def idx_def split: if_splits)
  then have pos: "0 < refs s e" using refs_zero_idx [of s q e] st x by simp
  from qe_ref_ok [OF c, of e] pos lim [of e] obtain s' where r: "qe_ref e s = Some s'"
    and c': "cnt_ok s' ((\<lambda>e. refs s e + count h e)(e := refs s e + count h e + 1))" and same: "same_q s s'" by auto
  have "(\<lambda>e. refs s e + count h e)(e := refs s e + count h e + 1) = (\<lambda>e'. refs s e' + count (add_mset e h) e')"
    by (auto simp: fun_eq_iff)
  then have "q_inv s' (add_mset e h)"
    using c' inv mem st by (intro q_inv_cnt [OF inv same]) (auto simp: q_inv_def struct_ok_def)
  then show ?thesis using r Some x by (auto simp: q_ref_def q_or_default_def)
qed

lemma q_unref_ok:
  assumes inv: "q_inv s h" and e: "e \<in># h"
  shows "\<exists>s'. qe_unref e s = Some s' \<and> q_inv s' (h - {#e#})"
proof -
  have c: "cnt_ok s (\<lambda>e. refs s e + count h e)" using inv by (simp add: q_inv_def)
  from qe_unref_ok [OF c, of e] e obtain s' where u: "qe_unref e s = Some s'"
    and c': "cnt_ok s' ((\<lambda>e. refs s e + count h e)(e := refs s e + count h e - 1))" and same: "same_q s s'" by auto
  have "0 < count h e" using e by simp
  then have "(\<lambda>e. refs s e + count h e)(e := refs s e + count h e - 1) = (\<lambda>e'. refs s e' + count (h - {#e#}) e')"
    by (auto simp: fun_eq_iff)
  then have "q_inv s' (h - {#e#})"
    using c' inv by (intro q_inv_cnt [OF inv same]) (auto simp: q_inv_def dest: in_diffD)
  then show ?thesis using u by blast
qed

text \<open>A new, empty queue at the next address.\<close>
lemma new_queue_ok:
  assumes inv: "q_inv s h" and y: "q_index y = []"
    and s1: "s1 = qm_add (qs_next s) (put_que (qs_next s) y (s\<lparr>qs_next := qs_next s + 1\<rparr>))"
  shows "struct_ok s1" and "refs s1 e = refs s e" and "cnt_ok s1 (\<lambda>e. refs s e + count h e)"
    and "que s1 (qs_next s) = Some y"
proof -
  let ?q = "qs_next s"
  have st: "struct_ok s" and c: "cnt_ok s (\<lambda>e. refs s e + count h e)" using inv by (simp_all add: q_inv_def)
  have none: "que s ?q = None" using q_inv_fresh(4) [OF inv, of ?q] by simp
  then have nl: "?q \<notin> set (qs_lists s)" using st by (auto simp: struct_ok_def)
  have que: "que s1 q = (if q = ?q then Some y else que s q)" for q by (simp add: s1 qm_add_def put_que_def)
  have ix: "idx s1 q = idx s q" for q using que [of q] none y by (auto simp: idx_def)
  have ls: "qs_lists s1 = qs_lists s @ [?q]" "qs_next s1 = Suc ?q" by (simp_all add: s1 qm_add_def)
  have "{q. que s1 q \<noteq> None} = insert ?q {q. que s q \<noteq> None}" by (auto simp: que)
  then show "struct_ok s1" using st nl by (simp add: struct_ok_def ix ls less_SucI)
  have "idx s ?q = []" using none by (simp add: idx_def)
  then show "refs s1 e = refs s e" by (simp add: refs_def ix ls)
  have "ent s1 e = ent s e" for e by (simp add: s1 qm_add_def put_que_def)
  moreover have "ent_ok s1 xo k" if "ent_ok s xo k" for xo k using that by (rule ent_ok_mono) (simp add: que)
  ultimately show "cnt_ok s1 (\<lambda>e. refs s e + count h e)" using c by (simp add: cnt_ok_def)
  show "que s1 (qs_next s) = Some y" by (simp add: que)
qed

lemma qe_ref_frame: "qe_ref e s = Some s' \<Longrightarrow> e' \<noteq> e \<Longrightarrow> ent s' e' = ent s e'"
  by (auto simp: qe_ref_def split: option.splits bind_splits)

lemma filter_into_ok:
  "cnt_ok s n \<Longrightarrow> distinct es \<Longrightarrow> (\<And>e. e \<in> set es \<Longrightarrow> 0 < n e \<and> n e < 2 ^ 32 - 1) \<Longrightarrow>
     \<exists>s'. filter_into P acc es s = Some (acc @ filter (\<lambda>e. P (the (ent s e))) es, s')
       \<and> cnt_ok s' (\<lambda>e. n e + count_list (filter (\<lambda>e. P (the (ent s e))) es) e) \<and> same_q s s'"
proof (induction es arbitrary: s n acc)
  case (Cons e es)
  from cnt_okD [OF Cons.prems(1), of e] Cons.prems(3) obtain x where x: "ent s e = Some x" by auto
  show ?case
  proof (cases "P x")
    case False
    then show ?thesis using Cons.IH [OF Cons.prems(1), of acc] Cons.prems x by simp
  next
    case True
    from qe_ref_ok [OF Cons.prems(1), of e] Cons.prems(3) [of e] obtain s1 where r: "qe_ref e s = Some s1"
      and c1: "cnt_ok s1 (n(e := n e + 1))" and same: "same_q s s1" by auto
    have fr: "filter (\<lambda>e. P (the (ent s1 e))) es = filter (\<lambda>e. P (the (ent s e))) es"
      using qe_ref_frame [OF r] Cons.prems(2) by (intro filter_cong refl) (metis distinct.simps(2))
    have "0 < (n(e := n e + 1)) e' \<and> (n(e := n e + 1)) e' < 2 ^ 32 - 1" if "e' \<in> set es" for e'
      using that Cons.prems(2,3) by auto
    from Cons.IH [OF c1 _ this, of "acc @ [e]", unfolded fr] Cons.prems(2) obtain s' where
      f: "filter_into P (acc @ [e]) es s1 = Some ((acc @ [e]) @ filter (\<lambda>e. P (the (ent s e))) es, s')"
      and c': "cnt_ok s' (\<lambda>e'. (n(e := n e + 1)) e' + count_list (filter (\<lambda>e. P (the (ent s e))) es) e')"
      and same': "same_q s1 s'" by auto
    have "(\<lambda>e'. (n(e := n e + 1)) e' + count_list (filter (\<lambda>e. P (the (ent s e))) es) e')
        = (\<lambda>e'. n e' + count_list (e # filter (\<lambda>e. P (the (ent s e))) es) e')" by (auto simp: fun_eq_iff)
    then show ?thesis using x True r f c' same_q_trans [OF same same'] by simp
  qed
qed simp

lemma q_filter_ok:
  assumes inv: "q_inv s h" and x: "que s q = Some x" and lim: "\<And>e. refs s e + count h e < 2 ^ 32 - 1"
  shows "\<exists>s'. q_filter ifind vals (Some q) flt flags s = Some (qs_next s, s') \<and> q_inv s' h
    \<and> idx s' (qs_next s) = filter (\<lambda>e. qe_filter ifind vals (the (ent s e)) flt (if flags = 0 then 3 else flags)) (q_index x)"
proof -
  let ?P = "\<lambda>y. qe_filter ifind vals y flt (if flags = 0 then 3 else flags)"
  let ?nq = "\<lparr>q_conf_f = (q_conf_f x)\<lparr>qc_name := ''Filter''\<rparr>, q_index = [], q_cursor = None,
               q_cursor_index = 0, q_active_n = 0, q_random_split = False\<rparr>"
  let ?qf = "qs_next s"
  let ?s1 = "qm_add ?qf (put_que ?qf ?nq (s\<lparr>qs_next := ?qf + 1\<rparr>))"
  let ?f = "filter (\<lambda>e. ?P (the (ent s e))) (q_index x)"
  have nq: "q_index ?nq = []" by simp
  note N = new_queue_ok [OF inv nq refl]
  have st: "struct_ok s" using inv by (simp add: q_inv_def)
  have idx: "q_index x = idx s q" using x by (simp add: idx_def)
  have dist: "distinct (q_index x)" and lt: "\<forall>e \<in> set (q_index x). e < ?qf"
    using st unfolding idx by (auto simp: struct_ok_def)
  have pos: "0 < refs s e + count h e \<and> refs s e + count h e < 2 ^ 32 - 1" if "e \<in> set (q_index x)" for e
    using that refs_zero_idx [of s q e] st x lim [of e] unfolding idx by simp
  have ent: "ent ?s1 e = ent s e" for e by (simp add: qm_add_def put_que_def)
  from filter_into_ok [OF N(3) dist pos, of ?P "[]"] obtain s2 where
    f: "filter_into ?P [] (q_index x) ?s1 = Some (?f, s2)"
    and c2: "cnt_ok s2 (\<lambda>e. refs s e + count h e + count_list ?f e)" and same: "same_q ?s1 s2"
    unfolding ent by auto
  obtain cu where q2: "que s2 ?qf = Some (?nq\<lparr>q_cursor := cu\<rparr>)" using same_q_que [OF same N(4)] by auto
  have st2: "struct_ok s2" using N(1) same_q_struct [OF same] by simp
  let ?s3 = "put_que ?qf (?nq\<lparr>q_index := ?f\<rparr>) s2"
  have nx: "qs_next s2 = Suc ?qf" using same by (simp add: same_q_def qm_add_def)
  have "struct_ok ?s3"
    using dist lt nx by (intro struct_ok_put_que [OF st2 q2]) (auto simp: less_Suc_eq)
  moreover have "refs ?s3 e = refs s e + count_list ?f e" for e
    using refs_put_que [OF st2 q2, of "?nq\<lparr>q_index := ?f\<rparr>" e] same_q_refs [OF same, of e] N(2) [of e] by simp
  ultimately have "q_inv ?s3 h"
    using cnt_ok_put_que [OF c2, of ?qf "?nq\<lparr>q_index := ?f\<rparr>"] inv nx
    by (auto simp: q_inv_def ac_simps less_Suc_eq)
  then show ?thesis using f x by (simp add: q_filter_def q_or_default_def Let_def idx_def)
qed

lemma q_create_ok:
  assumes inv: "q_inv s h"
  shows "q_inv (snd (q_create conf s)) h"
proof -
  let ?nq = "\<lparr>q_conf_f = (if qc_audio_module conf = None then conf\<lparr>qc_audio_module := Some ''core.auto-play''\<rparr> else conf),
      q_index = [], q_cursor = None, q_cursor_index = 0, q_active_n = 0, q_random_split = False\<rparr>"
  have nq: "q_index ?nq = []" by simp
  note N = new_queue_ok [OF inv nq refl]
  have "q_inv (qm_add (qs_next s) (put_que (qs_next s) ?nq (s\<lparr>qs_next := qs_next s + 1\<rparr>))) h"
    using N(1,3) inv unfolding q_inv_def N(2) by (auto simp: qm_add_def less_Suc_eq)
  then show ?thesis by (simp add: q_create_def Let_def)
qed

section \<open>No use of a freed entry\<close>

text \<open>
  A history of a set of queues: entries are added and removed, references are taken and given
  back, lists are created and filtered. The second component is the multiset of references the
  users hold.
\<close>
datatype q_op =
    QCreate phi_queue_conf
  | QInsert nat u32 phi_track_conf u32
  | QRemove nat u32 u32
  | QClear nat
  | QRef nat u32
  | QUnref nat
  | QFilter "string \<Rightarrow> string \<Rightarrow> bool" "string list \<Rightarrow> string list" nat string u32

fun q_exec :: "q_op \<Rightarrow> ('w qsys \<times> nat multiset) option \<Rightarrow> ('w qsys \<times> nat multiset) option" where
  "q_exec op None = None"
| "q_exec (QCreate c) (Some (s, h)) = Some (snd (q_create c s), h)"
| "q_exec (QInsert q pos c l) (Some (s, h)) = map_option (\<lambda>(_, s'). (s', h)) (q_insert q pos c l s)"
| "q_exec (QRemove q pos n) (Some (s, h)) = map_option (\<lambda>(_, s'). (s', h)) (q_remove_at (Some q) pos n s)"
| "q_exec (QClear q) (Some (s, h)) = map_option (\<lambda>s'. (s', h)) (q_clear (Some q) s)"
| "q_exec (QRef q pos) (Some (s, h)) =
     map_option (\<lambda>(r, s'). (s', case r of None \<Rightarrow> h | Some e \<Rightarrow> add_mset e h)) (q_ref (Some q) pos s)"
| "q_exec (QUnref e) (Some (s, h)) = map_option (\<lambda>s'. (s', h - {#e#})) (qe_unref e s)"
| "q_exec (QFilter ifind vals q flt fl) (Some (s, h)) =
     map_option (\<lambda>(_, s'). (s', h)) (q_filter ifind vals (Some q) flt fl s)"

text \<open>How the callers use the operations, and that no counter reaches its limit.\<close>
definition q_call_ok :: "q_op \<Rightarrow> 'w qsys \<Rightarrow> nat multiset \<Rightarrow> bool" where
  "q_call_ok op s h \<longleftrightarrow> (\<forall>e. refs s e + count h e < 2 ^ 32 - 1) \<and>
     (case op of
        QCreate c \<Rightarrow> True
      | QInsert q pos c l \<Rightarrow> q \<in> set (qs_lists s) \<and> unat pos \<le> length (idx s q) \<and> length (idx s q) < 2 ^ 32 - 1
      | QRemove q pos n \<Rightarrow> q \<in> set (qs_lists s)
      | QClear q \<Rightarrow> q \<in> set (qs_lists s)
      | QRef q pos \<Rightarrow> q \<in> set (qs_lists s)
      | QUnref e \<Rightarrow> e \<in># h
      | QFilter ifind vals q flt fl \<Rightarrow> q \<in> set (qs_lists s))"

definition q_op_ok :: "q_op \<Rightarrow> ('w qsys \<times> nat multiset) option \<Rightarrow> bool" where
  "q_op_ok op so \<longleftrightarrow> (case so of None \<Rightarrow> True | Some (s, h) \<Rightarrow> q_call_ok op s h)"

definition q_live :: "('w qsys \<times> nat multiset) option \<Rightarrow> bool" where
  "q_live so \<longleftrightarrow> (\<exists>s h. so = Some (s, h) \<and> q_inv s h)"

lemma q_inv_que: "q_inv s h \<Longrightarrow> q \<in> set (qs_lists s) \<Longrightarrow> \<exists>x. que s q = Some x \<and> idx s q = q_index x"
proof -
  assume "q_inv s h" and "q \<in> set (qs_lists s)"
  then have "q \<in> {q. que s q \<noteq> None}" by (simp add: q_inv_def struct_ok_def)
  then show ?thesis by (auto simp: idx_def)
qed

lemma q_exec_live:
  assumes inv: "q_inv s h" and ok: "q_call_ok op s h"
  shows "q_live (q_exec op (Some (s, h)))"
proof -
  have lim: "\<And>e. refs s e + count h e < 2 ^ 32 - 1" using ok by (simp add: q_call_ok_def)
  show ?thesis
  proof (cases op)
    case (QCreate c)
    then show ?thesis using q_create_ok [OF inv] by (simp add: q_live_def)
  next
    case (QInsert q pos c l)
    with ok obtain x where "que s q = Some x" "unat pos \<le> length (q_index x)" "length (q_index x) < 2 ^ 32 - 1"
      using q_inv_que [OF inv] by (fastforce simp: q_call_ok_def)
    from q_insert_ok [OF inv this, of c l] show ?thesis using QInsert by (auto simp: q_live_def)
  next
    case (QRemove q pos n)
    with ok obtain x where x: "que s q = Some x" using q_inv_que [OF inv] by (fastforce simp: q_call_ok_def)
    show ?thesis
    proof (cases "unat pos < length (q_index x)")
      case True
      from q_remove_ok [OF inv x True, of n] show ?thesis using QRemove by (auto simp: q_live_def)
    next
      case False
      then show ?thesis using x inv QRemove by (simp add: q_live_def q_remove_at_def q_or_default_def q_get_def)
    qed
  next
    case (QClear q)
    with ok obtain x where "que s q = Some x" using q_inv_que [OF inv] by (fastforce simp: q_call_ok_def)
    from q_clear_ok [OF inv this] show ?thesis using QClear by (auto simp: q_live_def)
  next
    case (QRef q pos)
    with ok obtain x where "que s q = Some x" using q_inv_que [OF inv] by (fastforce simp: q_call_ok_def)
    from q_ref_ok [OF inv this lim, of pos] show ?thesis using QRef by (auto simp: q_live_def)
  next
    case (QUnref e)
    then show ?thesis using q_unref_ok [OF inv, of e] ok by (auto simp: q_live_def q_call_ok_def)
  next
    case (QFilter ifind vals q flt fl)
    with ok obtain x where "que s q = Some x" using q_inv_que [OF inv] by (fastforce simp: q_call_ok_def)
    from q_filter_ok [OF inv this lim, of ifind vals flt fl] show ?thesis using QFilter by (auto simp: q_live_def)
  qed
qed

interpretation qu: op_invariant q_live q_op_ok q_exec
proof (unfold_locales, goal_cases)
  case (1 so op)
  then obtain s h where "so = Some (s, h)" "q_inv s h" by (auto simp: q_live_def)
  then show ?case using 1 q_exec_live [of s h op] by (simp add: q_op_ok_def)
qed

text \<open>The state after \<open>qm_init\<close>.\<close>
definition qm_init :: "'w \<Rightarrow> 'w qsys" where
  "qm_init w = \<lparr>qs_ents = (\<lambda>_. None), qs_queues = (\<lambda>_. None), qs_lists = [], qs_selected = 0,
     qs_dev_idx = -1, qs_next = 1, qs_changes = [], qs_w = w\<rparr>"

lemma qm_init_inv: "q_inv (qm_init w) {#}"
  by (simp add: q_inv_def struct_ok_def cnt_ok_def ent_ok_def qm_init_def idx_def refs_def)

text \<open>
  Property C14: reference counting of queue entries is exact. Starting from no queues, in every
  history of creating queues, inserting, removing, clearing, filtering, taking and returning
  references, no operation touches a freed entry or fails an assertion; the counter of every live
  entry is the number of queues that list it (filtered lists included) plus the number of references
  that are held, and an entry is freed exactly when this number becomes zero.
\<close>

theorem queue_refcounts_exact:
  assumes "ops_ok q_op_ok q_exec ops (Some (qm_init w, {#}))"
  shows "\<exists>s h. fold q_exec ops (Some (qm_init w, {#})) = Some (s, h)
    \<and> (\<forall>e. case ent s e of
          None \<Rightarrow> refs s e + count h e = 0
        | Some x \<Rightarrow> unat (e_used x) = refs s e + count h e \<and> 0 < refs s e + count h e)"
proof -
  have "q_live (Some (qm_init w, {#}))" by (simp add: q_live_def qm_init_inv)
  from qu.run_inv [OF this assms] obtain s h where r: "fold q_exec ops (Some (qm_init w, {#})) = Some (s, h)"
    and inv: "q_inv s h" by (auto simp: q_live_def)
  have "case ent s e of None \<Rightarrow> refs s e + count h e = 0
        | Some x \<Rightarrow> unat (e_used x) = refs s e + count h e \<and> 0 < refs s e + count h e" for e
  proof -
    have "ent_ok s (ent s e) (refs s e + count h e)" using inv by (simp add: q_inv_def cnt_ok_def)
    then show ?thesis by (simp add: ent_ok_def split: option.splits)
  qed
  with r show ?thesis by blast
qed

definition qconf_zero :: phi_queue_conf where
  "qconf_zero = \<lparr>qc_name = [], qc_first_filter = None, qc_audio_module = None, qc_ui_module = ''ui'',
     qc_conversion = False, qc_random = False, qc_repeat_all = False\<rparr>"

abbreviation "q_demo \<equiv> [QCreate qconf_zero, QInsert 1 0 phi_track_conf_zero 0, QRef 1 0, QRemove 1 0 1, QUnref 2]"

theorem queue_refcounts_exact_witness:
  "\<exists>s h. fold q_exec q_demo (Some (qm_init (), {#})) = Some (s, h)
    \<and> (\<forall>e. case ent s e of
          None \<Rightarrow> refs s e + count h e = 0
        | Some x \<Rightarrow> unat (e_used x) = refs s e + count h e \<and> 0 < refs s e + count h e)"
proof (rule queue_refcounts_exact)
  show "ops_ok q_op_ok q_exec q_demo (Some (qm_init (), {#}))"
    by (simp add: q_op_ok_def q_call_ok_def qm_init_def q_create_def qconf_zero_def qm_add_def on_change_def
        put_que_def put_ent_def refs_def idx_def q_insert_def qe_new_def q_ref_def q_get_def q_or_default_def
        qe_ref_def q_remove_at_def qe_unref_def qe_free_def Let_def)
qed

section \<open>Cursor and order\<close>

lemma nth_del_at:
  "i < length xs \<Longrightarrow> j < length xs - 1 \<Longrightarrow> del_at i xs ! j = (if j < i then xs ! j else xs ! Suc j)"
  by (auto simp: del_at_def nth_append)

lemma length_del_at: "i < length xs \<Longrightarrow> length (del_at i xs) = length xs - 1"
  by (simp add: del_at_def)

text \<open>
  Property C15: removing an entry does not move the cursor to another entry. When an entry other
  than the one under the cursor is removed, before it or behind it, the position of the cursor is
  adjusted so that it designates the same entry of the shortened list.
\<close>

theorem queue_remove_keeps_cursor:
  assumes "q_inv s h" and "que s q = Some x" and "unat pos < length (q_index x)"
    and "unat (q_cursor_index x) < length (q_index x)" and "pos \<noteq> q_cursor_index x"
  shows "\<exists>s' x'. q_remove_at (Some q) pos n s = Some (0, s') \<and> que s' q = Some x'
    \<and> q_index x' = del_at (unat pos) (q_index x)
    \<and> q_index x' ! unat (q_cursor_index x') = q_index x ! unat (q_cursor_index x)"
proof -
  from q_remove_ok [OF assms(1-3), of n] obtain s' c ci where r: "q_remove_at (Some q) pos n s = Some (0, s')"
    and ci: "ci = (if 0 < q_cursor_index x \<and> (pos < q_cursor_index x
               \<or> pos = q_cursor_index x \<and> unat pos = length (q_index x) - 1)
            then q_cursor_index x - 1 else q_cursor_index x)"
    and q': "que s' q = Some (x\<lparr>q_cursor_index := ci, q_index := del_at (unat pos) (q_index x), q_cursor := c\<rparr>)"
    by blast
  have ne: "unat pos \<noteq> unat (q_cursor_index x)" using assms(5) by (simp add: word_unat_eq_iff)
  have "del_at (unat pos) (q_index x) ! unat ci = q_index x ! unat (q_cursor_index x)"
  proof (cases "pos < q_cursor_index x")
    case True
    then have lt: "unat pos < unat (q_cursor_index x)" by (simp add: word_less_nat_alt)
    then have "0 < q_cursor_index x" by (simp add: word_less_nat_alt)
    moreover from this have "q_cursor_index x \<noteq> 0" by auto
    ultimately have "unat ci = unat (q_cursor_index x) - 1" using ci True by (simp add: unat_minus_one)
    moreover have "\<not> unat (q_cursor_index x) - 1 < unat pos" "Suc (unat (q_cursor_index x) - 1) = unat (q_cursor_index x)"
      using lt by auto
    ultimately show ?thesis using lt assms(3,4) by (simp add: nth_del_at)
  next
    case False
    then have "unat (q_cursor_index x) < unat pos" using ne by (simp add: word_less_nat_alt)
    then show ?thesis using False ci assms(3-5) by (auto simp: nth_del_at)
  qed
  then show ?thesis using r q' by auto
qed

text \<open>A queue of three entries with the cursor on the last one.\<close>
abbreviation "q_demo3 \<equiv> [QCreate qconf_zero, QInsert 1 0 phi_track_conf_zero 0,
  QInsert 1 1 phi_track_conf_zero 0, QInsert 1 2 phi_track_conf_zero 0]"

definition q_state3 :: "unit qsys" where
  "q_state3 = fst (the (fold q_exec q_demo3 (Some (qm_init (), {#}))))"

lemmas q_eval = q_op_ok_def q_call_ok_def qm_init_def q_create_def qconf_zero_def qm_add_def on_change_def
  put_que_def put_ent_def refs_def idx_def q_insert_def qe_new_def q_or_default_def Let_def

lemma q_state3_inv: "q_inv q_state3 {#}"
proof -
  have ok: "ops_ok q_op_ok q_exec q_demo3 (Some (qm_init (), {#}))"
    by (simp add: q_eval)
  have l: "q_live (Some (qm_init (), {#}))" by (simp add: q_live_def qm_init_inv)
  have "snd (the (fold q_exec q_demo3 (Some (qm_init (), {#})))) = {#}" by (simp add: q_eval)
  with qu.run_inv [OF l ok] show ?thesis by (auto simp: q_live_def q_state3_def)
qed

lemma q_state3_que: "\<exists>x. que q_state3 1 = Some x \<and> q_index x = [2, 3, 4] \<and> q_cursor_index x = 0"
  by (simp add: q_state3_def q_eval)

theorem queue_remove_keeps_cursor_witness:
  "\<exists>s' x'. q_remove_at (Some 1) 2 1 q_state3 = Some (0, s') \<and> que s' 1 = Some x'
     \<and> q_index x' = [2, 3] \<and> q_index x' ! unat (q_cursor_index x') = 2"
proof -
  obtain x where x: "que q_state3 1 = Some x" "q_index x = [2, 3, 4]" "q_cursor_index x = 0"
    using q_state3_que by blast
  from queue_remove_keeps_cursor [OF q_state3_inv x(1), of 2 1] x(2,3) show ?thesis
    by (simp add: del_at_def)
qed

lemma find_from_distinct:
  "distinct xs \<Longrightarrow> i < length xs \<Longrightarrow> find_from k xs (xs ! i) = int (k + i)"
proof (induction xs arbitrary: i k)
  case (Cons x xs)
  show ?case
  proof (cases i)
    case (Suc j)
    then have "xs ! j \<noteq> x" using Cons.prems by (metis Suc_less_eq distinct.simps(2) length_Cons nth_mem)
    then show ?thesis using Suc Cons.IH [of j "Suc k"] Cons.prems by simp
  qed simp
qed simp

text \<open>\<open>qe_index\<close> finds the position of the entry, whatever position it had remembered.\<close>
lemma qe_index_ok:
  assumes e: "ent s e = Some y" and q: "que s (e_q y) = Some x" and d: "distinct (q_index x)"
    and i: "i < length (q_index x)" "q_index x ! i = e" and len: "length (q_index x) < 2 ^ 32"
  shows "\<exists>s'. qe_index e s = Some (of_nat i, s') \<and> que s' = que s \<and> qs_w s' = qs_w s
    \<and> ent s' = (ent s)(e := Some (y\<lparr>e_index := of_nat i\<rparr>))"
proof (cases "q_get x (e_index y) = Some e")
  case True
  then have "unat (e_index y) < length (q_index x)" "q_index x ! unat (e_index y) = q_index x ! i"
    using i by (auto simp: q_get_def split: if_splits)
  then have "unat (e_index y) = i" using nth_eq_iff_index_eq [OF d _ i(1)] by blast
  then have "e_index y = of_nat i"
    using i(1) len by (simp add: word_unat_eq_iff unat_of_nat take_bit_nat_eq_self)
  moreover have "y\<lparr>e_index := e_index y\<rparr> = y" by simp
  ultimately show ?thesis using True e q by (auto simp: qe_index_def fun_eq_iff)
next
  case False
  have "q_find x e = int i" using find_from_distinct [OF d i(1), of 0] i(2) by (simp add: q_find_def)
  then show ?thesis using False e q by (simp add: qe_index_def Let_def put_ent_def)
qed

text \<open>
  \<open>q_play_next\<close> plays the successor of the entry under the cursor in the present order
  of the queue, although entries may have been inserted, removed or sorted since the cursor was set
  and the position the entry remembers is stale. Behind the last entry, it plays the first one
  with \<open>repeat_all\<close> and reports the end otherwise.
\<close>

theorem queue_play_next_successor:
  assumes "que s q = Some x" and "q_cursor x = Some e" and "ent s e = Some y" and "e_q y = q"
    and "e_index y \<noteq> -1" and "distinct (q_index x)" and "length (q_index x) < 2 ^ 32 - 1"
    and "i < length (q_index x)" and "q_index x ! i = e" and "\<not> qc_random (q_conf_f x)"
  shows "\<exists>s'. ent s' = (ent s)(e := Some (y\<lparr>e_index := of_nat i\<rparr>)) \<and> que s' = que s \<and> qs_w s' = qs_w s
    \<and> q_play_next I (Some q) s =
        (if Suc i < length (q_index x) then q_play I (Some q) (Some (q_index x ! Suc i)) s'
         else if qc_repeat_all (q_conf_f x) then q_play I (Some q) (Some (q_index x ! 0)) s'
         else Some (-1, s'))"
proof -
  from qe_index_ok [of s e y x i] assms obtain s' where s': "qe_index e s = Some (of_nat i, s')"
    and fr: "que s' = que s" "qs_w s' = qs_w s" "ent s' = (ent s)(e := Some (y\<lparr>e_index := of_nat i\<rparr>))" by auto
  have u: "unat (of_nat i + 1 :: u32) = Suc i"
  proof -
    have i: "unat (of_nat i :: u32) = i" using assms(7,8) by (simp add: unat_of_nat take_bit_nat_eq_self)
    then show ?thesis using assms(7,8) by (subst unat_add_small) simp_all
  qed
  have "next_pos e x s = Some (of_nat i + 1, s')" using assms(3,5) s' by (simp add: next_pos_def)
  then have "q_play_next I (Some q) s =
        (if Suc i < length (q_index x) then q_play I (Some q) (Some (q_index x ! Suc i)) s'
         else if qc_repeat_all (q_conf_f x) then q_play I (Some q) (Some (q_index x ! 0)) s'
         else Some (-1, s'))"
    using assms(1,2,8,10) fr(1) u
    by (auto simp: q_play_next_def q_play_rel_def q_or_default_def q_get_index_def q_get_def)
  then show ?thesis using fr by blast
qed

text \<open>A trivial track interface.\<close>
definition demo_if :: "unit track_if" where
  "demo_if = \<lparr>ti_create = (\<lambda>_ w. (9, w)), ti_filter = (\<lambda>_ _ w. (True, w)), ti_update = (\<lambda>_ _ w. w),
     ti_get = (\<lambda>_ _. phi_track_zero), ti_start = (\<lambda>_ w. w), ti_stop = (\<lambda>_ w. w), ti_close = (\<lambda>_ w. w),
     ti_workers_available = (\<lambda>_. True), ti_rand = (\<lambda>w. (7, w)), ti_isdir = (\<lambda>_ _. False), ti_ext = (\<lambda>_. [])\<rparr>"

text \<open>The queue of three entries with the cursor on the second entry, which remembers position 0.\<close>
definition q_stale :: "unit qsys" where
  "q_stale = put_ent 3 ((the (ent q_state3 3))\<lparr>e_index := 0\<rparr>) (put_que 1 ((the (que q_state3 1))\<lparr>q_cursor := Some 3\<rparr>) q_state3)"

theorem queue_play_next_successor_witness:
  "\<exists>s'. que s' = que q_stale \<and> q_play_next demo_if (Some 1) q_stale = q_play demo_if (Some 1) (Some 4) s'"
proof -
  have "\<exists>x. que q_stale 1 = Some x \<and> q_index x = [2, 3, 4] \<and> q_cursor x = Some 3 \<and> \<not> qc_random (q_conf_f x)"
    by (simp add: q_stale_def q_state3_def q_eval)
  then obtain x where x: "que q_stale 1 = Some x" "q_index x = [2, 3, 4]" "q_cursor x = Some 3" "\<not> qc_random (q_conf_f x)"
    by blast
  have "\<exists>y. ent q_stale 3 = Some y \<and> e_q y = 1 \<and> e_index y = 0"
    by (simp add: q_stale_def q_state3_def q_eval)
  then obtain y where y: "ent q_stale 3 = Some y" "e_q y = 1" "e_index y = 0" by blast
  have "q_index x ! 1 = 3" "q_index x ! Suc 1 = 4" using x(2) by simp_all
  with queue_play_next_successor [OF x(1,3) y(1,2), of 1 demo_if] x y show ?thesis by auto
qed

section \<open>Random order and sorting\<close>

text \<open>
  The random position is a position of the queue and alternates between its two
  halves, so that two consecutive random picks in a queue of two or more entries never name the
  same entry.
\<close>

theorem queue_random_alternates:
  assumes "que s q = Some x" and "1 < length (q_index x)" and "length (q_index x) < 2 ^ 32"
  shows "\<exists>i s'. q_random I q s = Some (i, s') \<and> unat i < length (q_index x)
    \<and> (unat i < length (q_index x) div 2 \<longleftrightarrow> \<not> q_random_split x)
    \<and> que s' q = Some (x\<lparr>q_random_split := \<not> q_random_split x\<rparr>)"
proof -
  let ?n = "length (q_index x)"
  obtain r w where rw: "ti_rand I (qs_w s) = (r, w)" by fastforce
  let ?d = "if \<not> q_random_split x then ?n div 2 else ?n - ?n div 2"
  let ?j = "if \<not> q_random_split x then unat r mod ?d else ?n div 2 + unat r mod ?d"
  have d: "0 < ?d" using assms(2) by auto
  have h: "0 < ?n div 2" using assms(2) by (simp add: div_greater_zero_iff)
  have j: "?j < ?n \<and> (?j < ?n div 2 \<longleftrightarrow> \<not> q_random_split x)"
  proof (cases "q_random_split x")
    case True
    then have "unat r mod (?n - ?n div 2) < ?n - ?n div 2" using d by (intro mod_less_divisor) simp
    then have "?n div 2 + unat r mod (?n - ?n div 2) < ?n" by linarith
    then show ?thesis using True by simp
  next
    case False
    then have "unat r mod (?n div 2) < ?n div 2" using h by (intro mod_less_divisor) simp
    then have "unat r mod (?n div 2) < ?n \<and> unat r mod (?n div 2) < ?n div 2" by linarith
    then show ?thesis using False by simp
  qed
  have u: "unat (of_nat ?j :: u32) = ?j" using j assms(3) by (simp add: unat_of_nat take_bit_nat_eq_self del: of_nat_add)
  have "q_random I q s = Some (of_nat ?j, (put_que q (x\<lparr>q_random_split := \<not> q_random_split x\<rparr>) s)\<lparr>qs_w := w\<rparr>)"
    using assms(1,2) rw d by (simp add: q_random_def Let_def)
  then show ?thesis using u j by (auto simp: put_que_def simp del: of_nat_add)
qed

theorem queue_random_alternates_witness:
  "\<exists>i s'. q_random demo_if 1 q_state3 = Some (i, s') \<and> unat i < 3"
proof -
  obtain x where x: "que q_state3 1 = Some x" "q_index x = [2, 3, 4]" using q_state3_que by blast
  from queue_random_alternates [OF x(1), of demo_if] x(2) show ?thesis by auto
qed

text \<open>
  Playing an empty queue in random mode divides by zero: \<open>q_random\<close> is the only
  function that looks at the length, and it handles a length of one only.
\<close>

theorem queue_random_empty_faults:
  assumes "que s q = Some x" and "q_index x = []" and "qc_random (q_conf_f x)"
  shows "q_play I (Some q) None s = None"
  using assms by (simp add: q_play_def q_or_default_def q_get_index_def q_random_def Let_def split: prod.split)

theorem queue_random_empty_faults_witness:
  "q_play demo_if (Some 1) None (snd (q_create (qconf_zero\<lparr>qc_random := True\<rparr>) (qm_init ()))) = None"
  by (rule queue_random_empty_faults [OF refl [THEN trans]])
    (auto simp: q_create_def qm_init_def qm_add_def on_change_def put_que_def qconf_zero_def Let_def)

lemma shuffle_loop_mset:
  "(\<And>i. i \<in> set is \<Longrightarrow> i < length xs) \<Longrightarrow> mset (fst (shuffle_loop I is xs w)) = mset xs"
proof (induction "is" arbitrary: xs w)
  case (Cons i "is")
  obtain r w1 where r: "ti_rand I w = (r, w1)" by fastforce
  have i: "i < length xs" using Cons.prems by simp
  then have n: "unat r mod length xs < length xs" by (intro mod_less_divisor) auto
  have "mset (fst (shuffle_loop I is (xs[i := xs ! (unat r mod length xs), unat r mod length xs := xs ! i]) w1))
      = mset (xs[i := xs ! (unat r mod length xs), unat r mod length xs := xs ! i])"
    using Cons.prems by (intro Cons.IH) simp
  also have "\<dots> = mset xs" using i n by (simp add: mset_swap)
  finally show ?case using r by (simp add: Let_def)
qed simp

text \<open>
  Sorting keeps the entries: after \<open>q_sort\<close>, random or by name (with a sort function
  that permutes), the queue holds the same entries and the other queues are not touched.
\<close>

theorem queue_sort_permutes:
  assumes "que s q = Some x" and "\<And>cmp xs. mset (srt cmp xs) = mset xs"
  shows "\<exists>s' x'. q_sort srt icmp I (Some q) flags s = Some s' \<and> que s' q = Some x'
    \<and> mset (q_index x') = mset (q_index x) \<and> (\<forall>q'. q' \<noteq> q \<longrightarrow> que s' q' = que s q') \<and> ent s' = ent s"
proof (cases "flags AND 1 = 0")
  case True
  then show ?thesis using assms by (simp add: q_sort_def q_or_default_def put_que_def)
next
  case False
  obtain xs w where r: "shuffle_loop I [0..<length (q_index x)] (q_index x) (qs_w s) = (xs, w)" by fastforce
  have "mset xs = mset (q_index x)"
    using shuffle_loop_mset [of "[0..<length (q_index x)]" "q_index x" I "qs_w s"] r by simp
  then show ?thesis using False assms(1) r
    by (simp add: q_sort_def q_or_default_def sort_random_def put_que_def)
qed

theorem queue_sort_permutes_witness:
  "\<exists>s' x'. q_sort (\<lambda>_ xs. xs) (\<lambda>_ _. 0) demo_if (Some 1) 1 q_state3 = Some s' \<and> que s' 1 = Some x'
     \<and> mset (q_index x') = {#2, 3, 4#}"
proof -
  obtain x where x: "que q_state3 1 = Some x" "q_index x = [2, 3, 4]" using q_state3_que by blast
  from queue_sort_permutes [OF x(1), of "\<lambda>_ xs. xs" "\<lambda>_ _. 0" demo_if 1] x(2) show ?thesis by auto
qed

section \<open>Filtered lists outlive their source\<close>

text \<open>
  The entries of a filtered list keep a pointer to the queue they were added to. When
  that queue is destroyed first, destroying the filtered list reads the freed queue.
\<close>

theorem queue_filter_then_destroy_faults:
  assumes "ifind (case if_name (c_ifile c) of None \<Rightarrow> [] | Some n \<Rightarrow> n) flt"
    and "s1 = snd (q_create conf (qm_init w))" and "q_insert 1 0 c l s1 = Some (e, s2)"
    and "q_filter ifind vals (Some 1) flt 1 s2 = Some (qf, s3)"
  shows "\<exists>s4. q_destroy (Some 1) s3 = Some s4 \<and> q_destroy (Some qf) s4 = None"
  using assms
  by (auto simp: q_filter_def q_destroy_def q_free_def qe_unref_def qe_free_def qe_ref_def qe_filter_def
      qm_rm_def q_eval)

theorem queue_filter_then_destroy_faults_witness:
  "\<exists>s2 e s3 qf s4. q_insert 1 0 phi_track_conf_zero 0 (snd (q_create qconf_zero (qm_init ()))) = Some (e, s2)
     \<and> q_filter (\<lambda>_ _. True) (\<lambda>_. []) (Some 1) [] 1 s2 = Some (qf, s3)
     \<and> q_destroy (Some 1) s3 = Some s4 \<and> q_destroy (Some qf) s4 = None"
proof -
  have "\<exists>s2 e s3 qf. q_insert 1 0 phi_track_conf_zero 0 (snd (q_create qconf_zero (qm_init ()))) = Some (e, s2)
     \<and> q_filter (\<lambda>_ _. True) (\<lambda>_. []) (Some 1) [] 1 s2 = Some (qf, s3)"
    by (simp add: q_filter_def qe_ref_def qe_filter_def q_eval)
  then show ?thesis
    using queue_filter_then_destroy_faults [where ifind = "\<lambda>_ _. True" and vals = "\<lambda>_. []" and flt = "[]"
      and c = phi_track_conf_zero and conf = qconf_zero and w = "()" and l = 0, OF TrueI refl] by blast
qed

end
