(* ===== verification/Queue_Edit.thy ===== *)
theory Queue_Edit
  imports Queue
begin

text \<open>
  The part of the queue's interface that the readers of play lists and directories use:
  \<open>queue->insert\<close> behind an entry and \<open>queue->remove\<close> (\<open>qe_insert\<close> and \<open>qe_remove\<close> of
  \<open>src/queue/ent.h\<close>), as a locale with its laws, and what follows for a reader that puts a list
  of new entries in the place of the entry it was started for. The interpretation at the end
  discharges the laws for the model of the queue.
\<close>

section \<open>A list edited at its members\<close>

text \<open>
  The step that all readers share: the new entry goes behind the last one, and with the first new entry
  the entry \<open>e\<close> of the list itself is removed.
\<close>
definition put_one ::
    "(nat \<Rightarrow> 'c \<Rightarrow> 's \<Rightarrow> (nat \<times> 's) option) \<Rightarrow> (nat \<Rightarrow> 's \<Rightarrow> 's option) \<Rightarrow> nat
     \<Rightarrow> nat \<times> bool \<Rightarrow> 'c \<Rightarrow> 's \<Rightarrow> ((nat \<times> bool) \<times> 's) option" where
  "put_one ins rem e st c s =
     (case ins (fst st) c s of
        None \<Rightarrow> None
      | Some (n, s1) \<Rightarrow>
          (case (if snd st then Some s1 else rem e s1) of None \<Rightarrow> None | Some s2 \<Rightarrow> Some ((n, True), s2)))"

locale list_edit =
  fixes inv :: "'s \<Rightarrow> bool" and items :: "'s \<Rightarrow> nat list" and val :: "'s \<Rightarrow> nat \<Rightarrow> 'c option"
    and ins :: "nat \<Rightarrow> 'c \<Rightarrow> 's \<Rightarrow> (nat \<times> 's) option" and rem :: "nat \<Rightarrow> 's \<Rightarrow> 's option" and room :: nat
  assumes items_distinct: "inv s \<Longrightarrow> distinct (items s)"
    and ins_behind: "inv s \<Longrightarrow> items s = pre @ h # post \<Longrightarrow> length (items s) < room \<Longrightarrow>
      \<exists>n s'. ins h c s = Some (n, s') \<and> inv s' \<and> n \<notin> set (items s) \<and> items s' = pre @ h # n # post
        \<and> val s' n = Some c \<and> (\<forall>x \<in> set (items s). val s' x = val s x)"
    and rem_one: "inv s \<Longrightarrow> items s = pre @ h # post \<Longrightarrow> length (items s) \<le> room \<Longrightarrow>
      \<exists>s'. rem h s = Some s' \<and> inv s' \<and> items s' = pre @ post \<and> (\<forall>x \<in> set (pre @ post). val s' x = val s x)"
begin

text \<open>The entries \<open>cs\<close> have taken the place of \<open>e\<close> between \<open>pre\<close> and \<open>post\<close>, which are as in \<open>s0\<close>.\<close>
definition placed :: "'s \<Rightarrow> nat list \<Rightarrow> nat list \<Rightarrow> nat \<Rightarrow> 'c list \<Rightarrow> nat \<times> bool \<Rightarrow> 's \<Rightarrow> bool" where
  "placed s0 pre post e cs st s \<longleftrightarrow>
     (\<forall>x \<in> set (pre @ post). val s x = val s0 x)
     \<and> (if cs = [] then st = (e, False) \<and> items s = pre @ e # post
        else \<exists>ns. ns \<noteq> [] \<and> st = (last ns, True) \<and> items s = pre @ ns @ post \<and> map (val s) ns = map Some cs)"

lemma placed_length: "placed s0 pre post e cs st s \<Longrightarrow> length (items s) \<le> length pre + length post + length cs + 1"
  unfolding placed_def by (auto split: if_splits dest: map_eq_imp_length_eq)

lemma put_one_placed:
  assumes inv: "inv s" and p: "placed s0 pre post e cs st s" and len: "length (items s) < room"
  shows "\<exists>st' s'. put_one ins rem e st c s = Some (st', s') \<and> inv s' \<and> placed s0 pre post e (cs @ [c]) st' s'"
proof (cases "cs = []")
  case True
  then have st: "st = (e, False)" and it: "items s = pre @ e # post" and fr: "\<forall>x \<in> set (pre @ post). val s x = val s0 x"
    using p by (simp_all add: placed_def)
  from ins_behind [OF inv it len, of c] obtain n s1 where i: "ins e c s = Some (n, s1)" "inv s1" "n \<notin> set (items s)"
    "items s1 = pre @ e # n # post" "val s1 n = Some c" "\<forall>x \<in> set (items s). val s1 x = val s x" by blast
  have "length (items s1) \<le> room" using len it i(4) by simp
  from rem_one [OF i(2,4) this] obtain s2 where r: "rem e s1 = Some s2" "inv s2" "items s2 = pre @ n # post"
    "\<forall>x \<in> set (pre @ n # post). val s2 x = val s1 x" by blast
  have "placed s0 pre post e [c] (n, True) s2"
    using r(3,4) i(5,6) fr it by (auto simp: placed_def intro!: exI [of _ "[n]"])
  then show ?thesis using i(1) r(1,2) st True by (simp add: put_one_def)
next
  case False
  then obtain ns where ns: "ns \<noteq> []" "st = (last ns, True)" "items s = pre @ ns @ post" "map (val s) ns = map Some cs"
    and fr: "\<forall>x \<in> set (pre @ post). val s x = val s0 x" using p by (auto simp: placed_def)
  have it: "items s = (pre @ butlast ns) @ last ns # post" using ns(1,3) by simp
  from ins_behind [OF inv it len, of c] obtain n s1 where i: "ins (last ns) c s = Some (n, s1)" "inv s1"
    "items s1 = (pre @ butlast ns) @ last ns # n # post" "val s1 n = Some c" "\<forall>x \<in> set (items s). val s1 x = val s x" by blast
  have "map (val s1) ns = map (val s) ns" using i(5) ns(3) by (intro map_cong) auto
  moreover have "items s1 = pre @ (ns @ [n]) @ post"
    using i(3) append_butlast_last_id [OF ns(1)] by (simp only: append.assoc append_Cons append_Nil) (metis append_Cons append_Nil append_assoc)
  ultimately have "placed s0 pre post e (cs @ [c]) (n, True) s1"
    using i(4,5) fr ns(3,4) unfolding placed_def by (auto intro!: exI [of _ "ns @ [n]"])
  then show ?thesis using i(1,2) ns(2) by (simp add: put_one_def)
qed

end

section \<open>The queue\<close>

text \<open>The values of an entry that \<open>queue->insert\<close> is given.\<close>
definition ent_val :: "'w qsys \<Rightarrow> nat \<Rightarrow> (phi_track_conf \<times> u32) option" where
  "ent_val s e = map_option (\<lambda>x. (e_conf x, e_length_msec x)) (ent s e)"

definition queue_insert :: "nat \<Rightarrow> phi_track_conf \<times> u32 \<Rightarrow> 'w qsys \<Rightarrow> (nat \<times> 'w qsys) option" where
  "queue_insert e c s = qe_insert e (fst c) (snd c) s"

definition queue_remove :: "nat \<Rightarrow> 'w qsys \<Rightarrow> 'w qsys option" where
  "queue_remove e s = map_option snd (qe_remove e s)"

text \<open>A queue that owns its entries (not the result of a filter).\<close>
definition own_queue :: "nat \<Rightarrow> nat multiset \<Rightarrow> 'w qsys \<Rightarrow> bool" where
  "own_queue q h s \<longleftrightarrow> q_inv s h \<and> que s q \<noteq> None \<and> (\<forall>e \<in> set (idx s q). \<exists>y. ent s e = Some y \<and> e_q y = q)"

lemma own_queue_distinct: "own_queue q h s \<Longrightarrow> distinct (idx s q)"
  by (simp add: own_queue_def q_inv_def struct_ok_def)

lemma own_queue_index:
  assumes own: "own_queue q h s" and it: "idx s q = pre @ e # post" and len: "length (idx s q) < 2 ^ 32"
  shows "\<exists>s'. qe_index e s = Some (of_nat (length pre), s') \<and> own_queue q h s' \<and> que s' = que s \<and> ent_val s' = ent_val s"
proof -
  have inv: "q_inv s h" using own by (simp add: own_queue_def)
  obtain x where x: "que s q = Some x" "q_index x = pre @ e # post" using own it by (auto simp: own_queue_def idx_def)
  obtain y where y: "ent s e = Some y" "e_q y = q" using own it by (auto simp: own_queue_def)
  have d: "distinct (q_index x)" using own_queue_distinct [OF own] x by (simp add: idx_def)
  obtain s' where r: "qe_index e s = Some (of_nat (length pre), s')" "que s' = que s"
    "ent s' = (ent s)(e := Some (y\<lparr>e_index := of_nat (length pre)\<rparr>))"
    using qe_index_ok [OF y(1), of x "length pre"] y x d len it by auto
  have s': "s' = s \<or> s' = put_ent e (y\<lparr>e_index := of_nat (length pre)\<rparr>) s"
    using r(1) y x(1) by (auto simp: qe_index_def Let_def split: if_splits)
  have "q_inv s' h"
  proof -
    have "cnt_ok s' (\<lambda>e. refs s e + count h e)"
      using s' inv cnt_ok_put_ent [OF _ y(1), of "\<lambda>e. refs s e + count h e" "y\<lparr>e_index := of_nat (length pre)\<rparr>"]
      by (auto simp: q_inv_def)
    moreover have "same_q s s'" using s' by auto
    ultimately show ?thesis using inv by (intro q_inv_cnt [OF inv]) (auto simp: q_inv_def)
  qed
  moreover have "ent_val s' = ent_val s" using r(3) y(1) by (auto simp: ent_val_def fun_eq_iff)
  moreover have "idx s' q = idx s q" using r(2) by (simp add: idx_def)
  ultimately have "own_queue q h s'" using own r(2,3) y by (auto simp: own_queue_def)
  then show ?thesis using r(1,2) \<open>ent_val s' = ent_val s\<close> by blast
qed

lemma q_insert_ents: "q_insert q pos c l s = Some (n, s') \<Longrightarrow>
    n = qs_next s \<and> ent s' = (ent s)(n := Some ((qe_new c l)\<lparr>e_q := q, e_index := pos\<rparr>))"
  by (auto simp: q_insert_def Let_def put_ent_def put_que_def split: bind_splits if_splits)

lemma qe_unref_ents: "qe_unref e s = Some s' \<Longrightarrow> x \<noteq> e \<Longrightarrow> ent s' x = ent s x"
  by (auto simp: qe_unref_def qe_free_def Let_def put_que_def split: bind_splits if_splits)

lemma q_remove_ents: "q_remove_at (Some q) pos n s = Some (r, s') \<Longrightarrow> que s q = Some x \<Longrightarrow> unat pos < length (q_index x) \<Longrightarrow>
    y \<noteq> q_index x ! unat pos \<Longrightarrow> ent s' y = ent s y"
  by (auto simp: q_remove_at_def q_or_default_def q_get_def Let_def split: bind_splits dest: qe_unref_ents)

lemma q_remove_own:
  assumes own: "own_queue q h s" and it: "idx s q = pre @ e # post" and len: "length (idx s q) < 2 ^ 32"
  shows "\<exists>s'. queue_remove e s = Some s' \<and> own_queue q h s' \<and> idx s' q = pre @ post
    \<and> (\<forall>x \<in> set (pre @ post). ent_val s' x = ent_val s x)"
proof -
  obtain y where y: "ent s e = Some y" "e_q y = q" using own it by (auto simp: own_queue_def)
  from own_queue_index [OF assms] obtain s1 where r: "qe_index e s = Some (of_nat (length pre), s1)"
    and own1: "own_queue q h s1" and q1: "que s1 = que s" and v1: "ent_val s1 = ent_val s" by blast
  obtain x where x: "que s1 q = Some x" "q_index x = pre @ e # post" using own it q1 by (auto simp: own_queue_def idx_def)
  have n: "unat (of_nat (length pre) :: u32) = length pre" using len it by (simp add: unat_of_nat take_bit_nat_eq_self)
  have d: "distinct (pre @ e # post)" using own_queue_distinct [OF own] it by simp
  from q_remove_ok [of s1 h q x "of_nat (length pre)" 1] obtain s' c ci where
    rm: "q_remove_at (Some q) (of_nat (length pre)) 1 s1 = Some (0, s')" and inv: "q_inv s' h"
    and q': "que s' q = Some (x\<lparr>q_cursor_index := ci, q_index := del_at (length pre) (q_index x), q_cursor := c\<rparr>)"
    using own1 x n by (auto simp: own_queue_def)
  have it': "idx s' q = pre @ post" using q' x(2) by (simp add: idx_def del_at_def)
  have fr: "ent s' z = ent s1 z" if "z \<in> set (pre @ post)" for z
    using that x(2) n d
    by (intro q_remove_ents [OF rm x(1)]) (auto simp: nth_append)
  have "own_queue q h s'"
    unfolding own_queue_def it'
  proof (intro conjI ballI)
    fix z assume z: "z \<in> set (pre @ post)"
    then have "z \<in> set (idx s1 q)" using x by (auto simp: idx_def)
    then show "\<exists>y. ent s' z = Some y \<and> e_q y = q" using own1 fr [OF z] by (auto simp: own_queue_def)
  qed (use inv q' in auto)
  moreover have "\<forall>z \<in> set (pre @ post). ent_val s' z = ent_val s z"
    unfolding v1 [symmetric] by (auto simp: ent_val_def fr)
  moreover have "qe_remove e s = Some (0, s')" using y r rm by (simp add: qe_remove_def)
  ultimately show ?thesis using it' by (auto simp: queue_remove_def)
qed

lemma q_insert_own:
  assumes own: "own_queue q h s" and it: "idx s q = pre @ e # post" and len: "length (idx s q) < 2 ^ 32 - 1"
  shows "\<exists>n s'. queue_insert e c s = Some (n, s') \<and> own_queue q h s' \<and> n \<notin> set (idx s q) \<and> idx s' q = pre @ e # n # post
    \<and> ent_val s' n = Some c \<and> (\<forall>x \<in> set (idx s q). ent_val s' x = ent_val s x)"
proof -
  have len': "length (idx s q) < 2 ^ 32" using len by simp
  obtain y where y: "ent s e = Some y" "e_q y = q" using own it by (auto simp: own_queue_def)
  from own_queue_index [OF own it len'] obtain s1 where r: "qe_index e s = Some (of_nat (length pre), s1)"
    and own1: "own_queue q h s1" and q1: "que s1 = que s" and v1: "ent_val s1 = ent_val s" by blast
  have i1: "idx s1 q = idx s q" using q1 by (simp add: idx_def)
  obtain x where x: "que s1 q = Some x" "q_index x = pre @ e # post" using own it q1 by (auto simp: own_queue_def idx_def)
  have pl: "length pre + 1 < 2 ^ 32" using len it by simp
  then have "(of_nat (length pre) :: u32) + 1 = of_nat (length pre + 1)" by simp
  then have n: "unat ((of_nat (length pre) :: u32) + 1) = length pre + 1"
    using pl by (simp only: unat_of_nat len_of_numeral_defs) (simp add: take_bit_nat_eq_self unat_of_nat)
  let ?n = "qs_next s1"
  from q_insert_ok [of s1 h q x "of_nat (length pre) + 1" "fst c" "snd c"] obtain s' where
    i: "q_insert q (of_nat (length pre) + 1) (fst c) (snd c) s1 = Some (?n, s')" and inv: "q_inv s' h"
    and q': "que s' q = Some (x\<lparr>q_index := ins_at (length pre + 1) ?n (q_index x)\<rparr>)"
    using own1 x n len it by (auto simp: own_queue_def)
  have it': "idx s' q = pre @ e # ?n # post" using q' x(2) by (simp add: idx_def ins_at_def)
  have en: "ent s' = (ent s1)(?n := Some ((qe_new (fst c) (snd c))\<lparr>e_q := q, e_index := of_nat (length pre) + 1\<rparr>))"
    using q_insert_ents [OF i] by blast
  have "\<forall>z \<in> set (idx s1 q). z < ?n" using own1 by (auto simp: own_queue_def q_inv_def struct_ok_def)
  then have new: "?n \<notin> set (idx s q)" using i1 by auto
  have "own_queue q h s'"
    unfolding own_queue_def
  proof (intro conjI ballI)
    fix z assume "z \<in> set (idx s' q)"
    then have "z = ?n \<or> z \<in> set (idx s1 q)" using it' i1 it by auto
    then show "\<exists>y. ent s' z = Some y \<and> e_q y = q" using own1 en by (auto simp: own_queue_def)
  qed (use inv q' in auto)
  moreover have "ent_val s' ?n = Some c" by (simp add: ent_val_def en qe_new_def)
  moreover have "\<forall>z \<in> set (idx s q). ent_val s' z = ent_val s z"
    unfolding v1 [symmetric] using new by (auto simp: ent_val_def en)
  moreover have "queue_insert e c s = Some (?n, s')" using y r i by (simp add: queue_insert_def qe_insert_def)
  ultimately show ?thesis using it' new by blast
qed

interpretation queue_edit: list_edit "own_queue q h" "\<lambda>s. idx s q" ent_val queue_insert queue_remove "2 ^ 32 - 1" for q h
proof (unfold_locales, goal_cases)
  case (1 s)
  then show ?case by (rule own_queue_distinct)
next
  case (2 s pre e post c)
  then show ?case by (rule q_insert_own)
next
  case (3 s pre e post)
  then show ?case by (intro q_remove_own) auto
qed

text \<open>A queue with three entries of its own.\<close>
lemma q_state3_own: "own_queue 1 {#} q_state3" "idx q_state3 1 = [2] @ 3 # [4]"
proof -
  have "ent q_state3 e \<noteq> None \<and> e_q (the (ent q_state3 e)) = 1" if "e \<in> {2, 3, 4}" for e
    using that by (auto simp: q_state3_def q_eval)
  then have "\<exists>y. ent q_state3 e = Some y \<and> e_q y = 1" if "e \<in> {2, 3, 4}" for e using that by fastforce
  then show "own_queue 1 {#} q_state3" "idx q_state3 1 = [2] @ 3 # [4]"
    using q_state3_inv q_state3_que by (auto simp: own_queue_def idx_def)
qed

end
