(* ===== verification/Playlist.thy ===== *)
theory Playlist
  imports Queue_Edit Detector
begin

text \<open>
  The readers and the writer of play lists: \<open>src/list/entry.h\<close>, \<open>src/list/m3u-read.h\<close>,
  \<open>src/list/pls-read.c\<close>, \<open>src/list/m3u-write.h\<close>, and \<open>q_save\<close> of \<open>src/queue/qu.c\<close>.

  The parsers of avpack are parameters: a parser maps its state and the remaining data to the next
  token, its new state and the data left. The path functions of ffbase are the record
  \<open>path_fns\<close>. The vectors of a list entry keep whether they own the memory they point
  to, since they are given pointers into the input; freeing memory that the vector does not own is \<open>None\<close>.
\<close>

section \<open>entry.h\<close>

text \<open>A \<open>ffvec\<close> of characters: the text, its capacity, and whether the text is in memory of the vector.\<close>
record pvec =
  pv_str :: string
  pv_cap :: nat
  pv_heap :: bool

definition pv_zero :: pvec where
  "pv_zero = \<lparr>pv_str = [], pv_cap = 0, pv_heap = False\<rparr>"

text \<open>\<open>ffstr_set2\<close>: the pointer and the length are replaced, the capacity is kept.\<close>
definition pv_set :: "pvec \<Rightarrow> string \<Rightarrow> pvec" where
  "pv_set v s = v\<lparr>pv_str := s, pv_heap := False\<rparr>"

text \<open>\<open>ffvec_free\<close>: the memory is released when there is a capacity.\<close>
definition pv_free :: "pvec \<Rightarrow> pvec option" where
  "pv_free v = (if pv_cap v \<noteq> 0 \<and> \<not> pv_heap v then None else Some pv_zero)"

definition ffvec_copyself :: "pvec \<Rightarrow> pvec" where
  "ffvec_copyself v = (if pv_cap v = 0 \<and> pv_str v \<noteq> [] then v\<lparr>pv_cap := length (pv_str v), pv_heap := True\<rparr> else v)"

record pls_entry =
  pe_url :: pvec
  pe_artist :: pvec
  pe_title :: pvec
  pe_duration :: int

definition pls_entry_zero :: pls_entry where
  "pls_entry_zero = \<lparr>pe_url = pv_zero, pe_artist = pv_zero, pe_title = pv_zero, pe_duration = 0\<rparr>"

definition pls_entry_free :: "pls_entry \<Rightarrow> pls_entry option" where
  "pls_entry_free x = do {
     u \<leftarrow> pv_free (pe_url x);
     a \<leftarrow> pv_free (pe_artist x);
     ti \<leftarrow> pv_free (pe_title x);
     Some \<lparr>pe_url = u, pe_artist = a, pe_title = ti, pe_duration = -1\<rparr>
   }"

text \<open>
  \<open>ffpath_abs\<close>; \<open>ffstr_matchfmt\<close> with the format \<open>"%S://"\<close> (its result and the string found);
  \<open>ffpath_splitpath_str\<close> (the position of the last slash, negative without one, and the path before it).
\<close>
record path_fns =
  pa_abs :: "string \<Rightarrow> bool"
  pa_match_scheme :: "string \<Rightarrow> int \<times> string"
  pa_splitpath :: "string \<Rightarrow> int \<times> string"

definition ffuri_scheme :: "path_fns \<Rightarrow> string \<Rightarrow> nat" where
  "ffuri_scheme P name = (case pa_match_scheme P name of (r, scheme) \<Rightarrow> if r \<le> 0 then 0 else length scheme)"

definition plist_fullname :: "path_fns \<Rightarrow> phi_track \<Rightarrow> string \<Rightarrow> string" where
  "plist_fullname P t name =
     (let fn = (case if_name (c_ifile (t_conf t)) of None \<Rightarrow> [] | Some n \<Rightarrow> n);
          path = (if \<not> pa_abs P name \<and> ffuri_scheme P name = 0
                  then (case pa_splitpath P fn of (r, p) \<Rightarrow> if 0 \<le> r then take (length p + 1) fn else [])
                  else [])
      in path @ name)"

section \<open>A new entry\<close>

text \<open>The configuration of a new entry: that of the list, with its own name and copies of what is owned.\<close>
definition list_conf :: "phi_track \<Rightarrow> string \<Rightarrow> phi_track_conf" where
  "list_conf t url =
     (let c = phi_track_conf_assign (t_conf t)
      in c\<lparr>c_ifile := (c_ifile c)\<lparr>if_name := Some url\<rparr>,
           c_ofile := (c_ofile c)\<lparr>of_name := of_name (c_ofile (t_conf t))\<rparr>,
           c_meta := meta_copy (c_meta c) (c_meta (t_conf t)), c_tracks := []\<rparr>)"

text \<open>\<open>duration * 1000\<close> as \<open>uint\<close>; -1 is an unknown duration.\<close>
definition dur_msec :: "int \<Rightarrow> u32" where
  "dur_msec d = (if d \<noteq> -1 then word_of_int (d * 1000) else 0)"

section \<open>m3u-read.h\<close>

datatype m3u_tok =
    M3UREAD_MORE | M3UREAD_ARTIST string | M3UREAD_TITLE string | M3UREAD_DURATION int
  | M3UREAD_URL string | M3UREAD_WARN | M3uOther

type_synonym ('p, 'tok) parser = "'p \<Rightarrow> bytes \<Rightarrow> 'tok \<times> 'p \<times> bytes"

record 'p m3u =
  m_rd :: 'p
  m_ent :: pls_entry
  m_cur :: "nat option"
  m_removed :: bool

definition m3u_open :: "'p \<Rightarrow> phi_track \<Rightarrow> 'p m3u" where
  "m3u_open p0 t = \<lparr>m_rd = p0, m_ent = pls_entry_zero, m_cur = t_qent t, m_removed = False\<rparr>"

definition m3u_close :: "'p m3u \<Rightarrow> phi_track \<Rightarrow> 'w qsys \<Rightarrow> 'w qsys option" where
  "m3u_close m t s = do {
     s1 \<leftarrow> (if m_removed m then Some s else Option.bind (t_qent t) (\<lambda>e. queue_remove e s));
     _ \<leftarrow> pls_entry_free (m_ent m);
     Some s1
   }"

text \<open>The new entry; the meta data of the list goes before that of the line.\<close>
definition m3u_conf :: "path_fns \<Rightarrow> phi_track \<Rightarrow> pls_entry \<Rightarrow> phi_track_conf \<times> u32" where
  "m3u_conf P t x =
     (let c = list_conf t (plist_fullname P t (pv_str (pe_url x)));
          artist = pv_str (pe_artist x); title = pv_str (pe_title x);
          m1 = (if artist \<noteq> [] then meta_set (c_meta c) ''artist'' artist 0 else c_meta c);
          m2 = (if title \<noteq> [] then meta_set m1 ''title'' title 0 else m1)
      in (if c_meta c = [] then c\<lparr>c_meta := m2, c_meta_transient := True\<rparr> else c, dur_msec (pe_duration x)))"

definition m3u_add :: "path_fns \<Rightarrow> 'p m3u \<Rightarrow> phi_track \<Rightarrow> 'w qsys \<Rightarrow> ('p m3u \<times> 'w qsys) option" where
  "m3u_add P m t s = do {
     e \<leftarrow> t_qent t;
     cur \<leftarrow> m_cur m;
     (st, s1) \<leftarrow> put_one queue_insert queue_remove e (cur, m_removed m) (m3u_conf P t (m_ent m)) s;
     ent1 \<leftarrow> pls_entry_free (m_ent m);
     Some (m\<lparr>m_cur := Some (fst st), m_removed := snd st, m_ent := ent1\<rparr>, s1)
   }"

text \<open>The loop of \<open>m3u_process\<close>; \<open>first\<close> is \<open>PHI_FFIRST\<close>.\<close>
fun m3u_loop ::
    "nat \<Rightarrow> ('p, m3u_tok) parser \<Rightarrow> path_fns \<Rightarrow> bool \<Rightarrow> bool \<Rightarrow> 'p m3u \<Rightarrow> phi_track \<Rightarrow> bytes \<Rightarrow> 'w qsys
     \<Rightarrow> ('p m3u \<times> 'w qsys \<times> phi_r) option" where
  "m3u_loop 0 R P first fin m t data s = None"
| "m3u_loop (Suc n) R P first fin m t data s =
     (case R (m_rd m) data of (tok, p, rest) \<Rightarrow>
        (let m1 = m\<lparr>m_rd := p\<rparr>; x = m_ent m in
         case tok of
           M3UREAD_MORE \<Rightarrow>
             if \<not> first then
               Some (m1\<lparr>m_ent := x\<lparr>pe_artist := ffvec_copyself (pe_artist x), pe_title := ffvec_copyself (pe_title x)\<rparr>\<rparr>,
                     s, PHI_MORE)
             else if \<not> fin then m3u_loop n R P first True m1 t [10] s
             else Some (m1, s, PHI_FIN)
         | M3UREAD_ARTIST v \<Rightarrow> m3u_loop n R P first fin (m1\<lparr>m_ent := x\<lparr>pe_artist := pv_set (pe_artist x) v\<rparr>\<rparr>) t rest s
         | M3UREAD_TITLE v \<Rightarrow> m3u_loop n R P first fin (m1\<lparr>m_ent := x\<lparr>pe_title := pv_set (pe_title x) v\<rparr>\<rparr>) t rest s
         | M3UREAD_DURATION d \<Rightarrow> m3u_loop n R P first fin (m1\<lparr>m_ent := x\<lparr>pe_duration := d\<rparr>\<rparr>) t rest s
         | M3UREAD_URL v \<Rightarrow>
             (case m3u_add P (m1\<lparr>m_ent := x\<lparr>pe_url := pv_set (pe_url x) v\<rparr>\<rparr>) t s of
                None \<Rightarrow> None
              | Some (m2, s1) \<Rightarrow> m3u_loop n R P first fin m2 t rest s1)
         | M3UREAD_WARN \<Rightarrow> m3u_loop n R P first fin m1 t rest s
         | M3uOther \<Rightarrow> Some (m1, s, PHI_ERR)))"

definition m3u_process ::
    "nat \<Rightarrow> ('p, m3u_tok) parser \<Rightarrow> path_fns \<Rightarrow> 'p m3u \<Rightarrow> phi_track \<Rightarrow> 'w qsys \<Rightarrow> ('p m3u \<times> 'w qsys \<times> phi_r) option" where
  "m3u_process n R P m t s = m3u_loop n R P (has_flag t PHI_FFIRST) False m t (t_data_in t) s"

section \<open>pls-read.c\<close>

text \<open>The items of a \<open>.pls\<close> file carry the number of the entry they belong to.\<close>
datatype pls_tok =
    PLSREAD_MORE | PLSREAD_URL u32 string | PLSREAD_TITLE u32 string | PLSREAD_DURATION u32 int | PLSREAD_WARN | PlsOther

fun pls_tok_idx :: "pls_tok \<Rightarrow> u32" where
  "pls_tok_idx (PLSREAD_URL i v) = i"
| "pls_tok_idx (PLSREAD_TITLE i v) = i"
| "pls_tok_idx (PLSREAD_DURATION i d) = i"
| "pls_tok_idx _ = -1"

record 'p pls_r =
  p_rd :: 'p
  p_ent :: pls_entry
  p_cur :: "nat option"
  p_removed :: bool

definition pls_open :: "'p \<Rightarrow> phi_track \<Rightarrow> 'p pls_r" where
  "pls_open p0 t = \<lparr>p_rd = p0, p_ent = pls_entry_zero, p_cur = t_qent t, p_removed = False\<rparr>"

definition pls_close :: "'p pls_r \<Rightarrow> pls_entry option" where
  "pls_close p = pls_entry_free (p_ent p)"

definition pls_conf :: "path_fns \<Rightarrow> phi_track \<Rightarrow> pls_entry \<Rightarrow> phi_track_conf \<times> u32" where
  "pls_conf P t x =
     (let c = list_conf t (plist_fullname P t (pv_str (pe_url x))); title = pv_str (pe_title x)
      in (if c_meta c = [] \<and> title \<noteq> []
          then c\<lparr>c_meta := meta_set (c_meta c) ''title'' title 0, c_meta_transient := True\<rparr> else c,
          dur_msec (pe_duration x)))"

definition pls_add :: "path_fns \<Rightarrow> 'p pls_r \<Rightarrow> phi_track \<Rightarrow> 'w qsys \<Rightarrow> ('p pls_r \<times> 'w qsys) option" where
  "pls_add P p t s = do {
     e \<leftarrow> t_qent t;
     cur \<leftarrow> p_cur p;
     (st, s1) \<leftarrow> put_one queue_insert queue_remove e (cur, p_removed p) (pls_conf P t (p_ent p)) s;
     ent1 \<leftarrow> pls_entry_free (p_ent p);
     Some (p\<lparr>p_cur := Some (fst st), p_removed := snd st, p_ent := ent1\<rparr>, s1)
   }"

text \<open>The branch for \<open>commit\<close>.\<close>
definition pls_commit :: "path_fns \<Rightarrow> 'p pls_r \<Rightarrow> phi_track \<Rightarrow> 'w qsys \<Rightarrow> ('p pls_r \<times> 'w qsys) option" where
  "pls_commit P p t s = (if pv_str (pe_url (p_ent p)) \<noteq> [] then pls_add P p t s else Some (p, s))"

text \<open>The second switch of \<open>pls_process\<close>.\<close>
fun pls_item :: "pls_tok \<Rightarrow> pls_entry \<Rightarrow> pls_entry" where
  "pls_item (PLSREAD_URL i v) x = x\<lparr>pe_url := pv_set (pe_url x) v\<rparr>"
| "pls_item (PLSREAD_TITLE i v) x = x\<lparr>pe_title := pv_set (pe_title x) v\<rparr>"
| "pls_item (PLSREAD_DURATION i d) x = x\<lparr>pe_duration := d\<rparr>"
| "pls_item _ x = x"

text \<open>The loop of \<open>pls_process\<close>; \<open>trk\<close> is \<open>trk_idx\<close>.\<close>
fun pls_loop ::
    "nat \<Rightarrow> ('p, pls_tok) parser \<Rightarrow> path_fns \<Rightarrow> bool \<Rightarrow> bool \<Rightarrow> u32 \<Rightarrow> 'p pls_r \<Rightarrow> phi_track \<Rightarrow> bytes \<Rightarrow> 'w qsys
     \<Rightarrow> ('p pls_r \<times> 'w qsys \<times> phi_r) option" where
  "pls_loop 0 R P first fin trk m t data s = None"
| "pls_loop (Suc n) R P first fin trk m t data s =
     (case R (p_rd m) data of (tok, p, rest) \<Rightarrow>
        (let m1 = m\<lparr>p_rd := p\<rparr>; x = p_ent m in
         case tok of
           PLSREAD_MORE \<Rightarrow>
             if \<not> first then
               Some (m1\<lparr>p_ent := x\<lparr>pe_url := ffvec_copyself (pe_url x), pe_title := ffvec_copyself (pe_title x)\<rparr>\<rparr>,
                     s, PHI_MORE)
             else if \<not> fin then pls_loop n R P first True trk m1 t [10] s
             else map_option (\<lambda>(m2, s2). (m2, s2, PHI_FIN)) (pls_commit P m1 t s)
         | PLSREAD_WARN \<Rightarrow> pls_loop n R P first fin trk m1 t rest s
         | PlsOther \<Rightarrow> Some (m1, s, PHI_ERR)
         | _ \<Rightarrow>
             (let commit = (trk \<noteq> -1 \<and> pls_tok_idx tok \<noteq> trk) in
              case (if commit then pls_commit P m1 t s else Some (m1, s)) of
                None \<Rightarrow> None
              | Some (m2, s2) \<Rightarrow>
                  if commit \<and> fin then Some (m2, s2, PHI_FIN)
                  else pls_loop n R P first fin (pls_tok_idx tok) (m2\<lparr>p_ent := pls_item tok (p_ent m2)\<rparr>) t rest s2)))"

definition pls_process ::
    "nat \<Rightarrow> ('p, pls_tok) parser \<Rightarrow> path_fns \<Rightarrow> 'p pls_r \<Rightarrow> phi_track \<Rightarrow> 'w qsys \<Rightarrow> ('p pls_r \<times> 'w qsys \<times> phi_r) option" where
  "pls_process n R P m t s = pls_loop n R P (has_flag t PHI_FFIRST) False (-1) m t (t_data_in t) s"

section \<open>m3u-write.h and q\_save\<close>

record m3uwrite_entry =
  we_url :: string
  we_duration :: int
  we_artist :: string
  we_title :: string

text \<open>\<open>(int)length_msec / 1000\<close>, the quotient of C.\<close>
definition msec_to_sec :: "u32 \<Rightarrow> int" where
  "msec_to_sec len = (if sint len < 0 then - (- sint len div 1000) else sint len div 1000)"

text \<open>The fields for one entry; \<open>None\<close> only when the meta data is not a list of pairs.\<close>
definition m3uw_entry :: "meta_strs \<Rightarrow> phi_track_conf \<times> u32 \<Rightarrow> m3uwrite_entry option" where
  "m3uw_entry S v = do {
     a \<leftarrow> meta_find S (c_meta (fst v)) ''artist'' 0;
     ti \<leftarrow> meta_find S (c_meta (fst v)) ''title'' 0;
     Some \<lparr>we_url = (case if_name (c_ifile (fst v)) of None \<Rightarrow> [] | Some n \<Rightarrow> n),
           we_duration = (if snd v \<noteq> 0 then msec_to_sec (snd v) else -1),
           we_artist = (case a of None \<Rightarrow> [] | Some y \<Rightarrow> y), we_title = (case ti of None \<Rightarrow> [] | Some y \<Rightarrow> y)\<rparr>
   }"

text \<open>The filter has no instance without a queue; the writer of avpack is its initial state, \<open>m3uwrite_process\<close>
  and \<open>m3uwrite_fin\<close>.\<close>
record 'a m3uw =
  mw_m3 :: 'a
  mw_q :: nat
  mw_pos :: u32

definition m3uw_open :: "'a \<Rightarrow> nat option \<Rightarrow> 'a m3uw option" where
  "m3uw_open w0 udata = map_option (\<lambda>q. \<lparr>mw_m3 = w0, mw_q = q, mw_pos = 0\<rparr>) udata"

fun m3uw_loop :: "nat \<Rightarrow> meta_strs \<Rightarrow> ('a \<Rightarrow> m3uwrite_entry \<Rightarrow> 'a) \<Rightarrow> 'a m3uw \<Rightarrow> 'w qsys \<Rightarrow> 'a m3uw option" where
  "m3uw_loop 0 S wr m s = None"
| "m3uw_loop (Suc n) S wr m s =
     (case q_at (Some (mw_q m)) (mw_pos m) s of
        None \<Rightarrow> None
      | Some eo \<Rightarrow>
          (let m1 = m\<lparr>mw_pos := mw_pos m + 1\<rparr> in
           case eo of
             None \<Rightarrow> Some m1
           | Some e \<Rightarrow>
               (case Option.bind (ent_val s e) (m3uw_entry S) of
                  None \<Rightarrow> None
                | Some x \<Rightarrow> m3uw_loop n S wr (m1\<lparr>mw_m3 := wr (mw_m3 m) x\<rparr>) s)))"

definition m3uw_process ::
    "nat \<Rightarrow> meta_strs \<Rightarrow> ('a \<Rightarrow> m3uwrite_entry \<Rightarrow> 'a) \<Rightarrow> ('a \<Rightarrow> bytes) \<Rightarrow> 'a m3uw \<Rightarrow> phi_track \<Rightarrow> 'w qsys
     \<Rightarrow> ('a m3uw \<times> phi_track \<times> phi_r) option" where
  "m3uw_process n S wr wfin m t s =
     map_option (\<lambda>m1. (m1, t\<lparr>t_data_out := wfin (mw_m3 m1)\<rparr>, PHI_LASTOUT)) (m3uw_loop n S wr m s)"

definition q_save_conf :: "string \<Rightarrow> phi_track_conf" where
  "q_save_conf filename =
     phi_track_conf_zero\<lparr>c_ofile := \<lparr>of_name = Some filename, of_mtime = (0, 0), of_buf_size = 1024 * 1024,
       of_overwrite = True, of_name_tmp = True\<rparr>\<rparr>"

text \<open>The track that saves the queue: its filters, and the queue as \<open>udata\<close>.\<close>
definition q_save :: "'w track_if \<Rightarrow> nat option \<Rightarrow> string \<Rightarrow> 'w qsys \<Rightarrow> (int \<times> (nat \<times> nat) option \<times> 'w qsys) option" where
  "q_save I qo filename s = do {
     q \<leftarrow> q_or_default qo s;
     let compress = (ti_ext I (Some filename) = ''m3uz'');
     let (t, w1) = ti_create I (q_save_conf filename) (qs_w s);
     let (ok, w2) = add_filters I t ([''qsave-guard'', ''format.m3u-write''] @
             (if compress then [''zstd.compress''] else []) @ [''core.file-write'']) w1;
     if \<not> ok then Some (-1, None, s\<lparr>qs_w := ti_close I t w2\<rparr>)
     else Some (0, Some (t, q), s\<lparr>qs_w := ti_start I t w2\<rparr>)
   }"

text \<open>\<open>qsave-guard\<close> is closed: \<open>on_complete\<close> is the callback of the caller.\<close>
definition q_save_close :: "'w track_if \<Rightarrow> (nat \<Rightarrow> 'w \<Rightarrow> 'w) option \<Rightarrow> nat \<Rightarrow> 'w qsys \<Rightarrow> 'w qsys" where
  "q_save_close I on_complete t s =
     (let w1 = ti_update I t (\<lambda>tr. tr\<lparr>t_conf := (t_conf tr)\<lparr>c_ofile := (c_ofile (t_conf tr))\<lparr>of_name := None\<rparr>\<rparr>\<rparr>) (qs_w s);
          w2 = ti_stop I t w1
      in s\<lparr>qs_w := (case on_complete of None \<Rightarrow> w2 | Some f \<Rightarrow> f t w2)\<rparr>)"

section \<open>Reading replaces the list by its lines\<close>

text \<open>
  A parser as a source of tokens: \<open>ts p d\<close> are the tokens of the data \<open>d\<close> in state \<open>p\<close> up to the request
  for more data, and the state in which it is made.
\<close>
definition parser_law :: "('p, 'tok) parser \<Rightarrow> 'tok \<Rightarrow> ('p \<Rightarrow> bytes \<Rightarrow> 'tok list \<times> 'p) \<Rightarrow> bool" where
  "parser_law R mtok ts \<longleftrightarrow>
     (\<forall>p d. case R p d of (tok, p1, rest) \<Rightarrow>
        ts p d = (if tok = mtok then ([], p1) else (tok # fst (ts p1 rest), snd (ts p1 rest))))"

type_synonym m3u_line = "string \<times> string \<times> string \<times> int"

text \<open>The lines that the tokens describe: URL, artist, title, duration; and what is pending for the next one.\<close>
fun m3u_lines :: "m3u_tok list \<Rightarrow> string \<times> string \<times> int \<Rightarrow> m3u_line list \<times> (string \<times> string \<times> int)" where
  "m3u_lines [] st = ([], st)"
| "m3u_lines (M3UREAD_ARTIST v # ts) (a, ti, d) = m3u_lines ts (v, ti, d)"
| "m3u_lines (M3UREAD_TITLE v # ts) (a, ti, d) = m3u_lines ts (a, v, d)"
| "m3u_lines (M3UREAD_DURATION v # ts) (a, ti, d) = m3u_lines ts (a, ti, v)"
| "m3u_lines (M3UREAD_URL v # ts) (a, ti, d) = (case m3u_lines ts ([], [], -1) of (ls, st) \<Rightarrow> ((v, a, ti, d) # ls, st))"
| "m3u_lines (_ # ts) st = m3u_lines ts st"

text \<open>At most one artist and one title before each URL; the flags say which of them are pending.\<close>
fun m3u_once :: "m3u_tok list \<Rightarrow> bool \<times> bool \<Rightarrow> (bool \<times> bool) option" where
  "m3u_once [] ab = Some ab"
| "m3u_once (M3UREAD_ARTIST v # ts) (a, b) = (if a then None else m3u_once ts (True, b))"
| "m3u_once (M3UREAD_TITLE v # ts) (a, b) = (if b then None else m3u_once ts (a, True))"
| "m3u_once (M3UREAD_URL v # ts) ab = m3u_once ts (False, False)"
| "m3u_once (_ # ts) ab = m3u_once ts ab"

definition m3u_line_conf :: "path_fns \<Rightarrow> phi_track \<Rightarrow> m3u_line \<Rightarrow> phi_track_conf \<times> u32" where
  "m3u_line_conf P t = (\<lambda>(url, a, ti, d). m3u_conf P t
     \<lparr>pe_url = pv_set pv_zero url, pe_artist = pv_set pv_zero a, pe_title = pv_set pv_zero ti, pe_duration = d\<rparr>)"

text \<open>A pending text may be set when it has no capacity; a copied one is owned.\<close>
definition pv_pend :: "bool \<Rightarrow> pvec \<Rightarrow> bool" where
  "pv_pend b v \<longleftrightarrow> (pv_cap v \<noteq> 0 \<longrightarrow> pv_heap v) \<and> (pv_cap v \<noteq> 0 \<or> pv_str v \<noteq> [] \<longrightarrow> b)"

definition m3u_at ::
    "nat \<Rightarrow> nat multiset \<Rightarrow> 'w qsys \<Rightarrow> nat list \<Rightarrow> nat list \<Rightarrow> nat \<Rightarrow> bool \<times> bool \<Rightarrow> string \<times> string \<times> int
     \<Rightarrow> (phi_track_conf \<times> u32) list \<Rightarrow> 'p m3u \<Rightarrow> 'w qsys \<Rightarrow> bool" where
  "m3u_at q h s0 pre post e ab st cs m s \<longleftrightarrow>
     own_queue q h s \<and> m_cur m \<noteq> None
     \<and> queue_edit.placed q s0 pre post e cs (the (m_cur m), m_removed m) s
     \<and> st = (pv_str (pe_artist (m_ent m)), pv_str (pe_title (m_ent m)), pe_duration (m_ent m))
     \<and> pv_cap (pe_url (m_ent m)) = 0 \<and> pv_pend (fst ab) (pe_artist (m_ent m)) \<and> pv_pend (snd ab) (pe_title (m_ent m))"

lemma pls_entry_free_ok: "pv_cap (pe_url x) = 0 \<Longrightarrow> pv_pend a (pe_artist x) \<Longrightarrow> pv_pend b (pe_title x) \<Longrightarrow>
    pls_entry_free x = Some \<lparr>pe_url = pv_zero, pe_artist = pv_zero, pe_title = pv_zero, pe_duration = -1\<rparr>"
  by (auto simp: pls_entry_free_def pv_free_def pv_pend_def)

lemma m3u_conf_strs:
  "m3u_conf P t x = m3u_line_conf P t (pv_str (pe_url x), pv_str (pe_artist x), pv_str (pe_title x), pe_duration x)"
  by (simp add: m3u_line_conf_def m3u_conf_def pv_set_def Let_def)

lemma m3u_add_ok:
  assumes at: "m3u_at q h s0 pre post e ab (a, ti, d) cs m s" and qe: "t_qent t = Some e"
    and len: "length pre + length post + length cs + 1 < 2 ^ 32 - 1" and m1: "m1 = m\<lparr>m_rd := p, m_ent := (m_ent m)\<lparr>pe_url := pv_set (pe_url (m_ent m)) v\<rparr>\<rparr>"
  shows "\<exists>m2 s2. m3u_add P m1 t s = Some (m2, s2) \<and> m_rd m2 = p
    \<and> m3u_at q h s0 pre post e (False, False) ([], [], -1) (cs @ [m3u_line_conf P t (v, a, ti, d)]) m2 s2"
proof -
  note at' = at [unfolded m3u_at_def]
  obtain cur where cur: "m_cur m = Some cur" using at' by auto
  have pl: "queue_edit.placed q s0 pre post e cs (cur, m_removed m) s" using at' cur by simp
  have "length (idx s q) < 2 ^ 32 - 1" using queue_edit.placed_length [OF pl] len by simp
  from queue_edit.put_one_placed [OF _ pl this, of h "m3u_conf P t (m_ent m1)"] at' obtain st s2 where
    r: "put_one queue_insert queue_remove e (cur, m_removed m) (m3u_conf P t (m_ent m1)) s = Some (st, s2)"
    "own_queue q h s2" "queue_edit.placed q s0 pre post e (cs @ [m3u_conf P t (m_ent m1)]) st s2" by blast
  have c: "m3u_conf P t (m_ent m1) = m3u_line_conf P t (v, a, ti, d)"
    using at' by (simp add: m3u_conf_strs m1 pv_set_def)
  have f: "pls_entry_free (m_ent m1) = Some \<lparr>pe_url = pv_zero, pe_artist = pv_zero, pe_title = pv_zero, pe_duration = -1\<rparr>"
    using at' unfolding m1 by (intro pls_entry_free_ok [where a = "fst ab" and b = "snd ab"]) (simp_all add: pv_set_def)
  show ?thesis
    using r f c cur qe by (simp add: m3u_add_def m1 m3u_at_def pv_zero_def pv_pend_def)
qed

lemma m3u_at_set:
  assumes "m3u_at q h s0 pre post e (x, y) (a, ti, d) cs m s"
  shows "\<not> x \<Longrightarrow> m3u_at q h s0 pre post e (True, y) (v, ti, d) cs (m\<lparr>m_rd := p, m_ent := (m_ent m)\<lparr>pe_artist := pv_set (pe_artist (m_ent m)) v\<rparr>\<rparr>) s"
    and "\<not> y \<Longrightarrow> m3u_at q h s0 pre post e (x, True) (a, v, d) cs (m\<lparr>m_rd := p, m_ent := (m_ent m)\<lparr>pe_title := pv_set (pe_title (m_ent m)) v\<rparr>\<rparr>) s"
    and "m3u_at q h s0 pre post e (x, y) (a, ti, k) cs (m\<lparr>m_rd := p, m_ent := (m_ent m)\<lparr>pe_duration := k\<rparr>\<rparr>) s"
    and "m3u_at q h s0 pre post e (x, y) (a, ti, d) cs (m\<lparr>m_rd := p\<rparr>) s"
  using assms by (auto simp: m3u_at_def pv_set_def pv_pend_def)

text \<open>The tokens up to the request for more data: the loop is then at that request.\<close>
lemma m3u_loop_toks:
  assumes law: "parser_law R M3UREAD_MORE ts" and qe: "t_qent t = Some e"
  shows "fst (ts (m_rd m) data) = toks \<Longrightarrow> m3u_once toks ab = Some ab' \<Longrightarrow> M3uOther \<notin> set toks \<Longrightarrow>
    m3u_at q h s0 pre post e ab st cs m s \<Longrightarrow> length pre + length post + length cs + length toks + 1 < 2 ^ 32 - 1 \<Longrightarrow>
    \<exists>m1 s1 rest r1. R (m_rd m1) rest = (M3UREAD_MORE, snd (ts (m_rd m) data), r1)
      \<and> m3u_loop (length toks + k) R P first fin m t data s = m3u_loop k R P first fin m1 t rest s1
      \<and> m3u_at q h s0 pre post e ab' (snd (m3u_lines toks st)) (cs @ map (m3u_line_conf P t) (fst (m3u_lines toks st))) m1 s1"
proof (induction toks arbitrary: m data ab st cs s)
  case Nil
  obtain tok p rest where r: "R (m_rd m) data = (tok, p, rest)" by (cases "R (m_rd m) data") auto
  have "tok = M3UREAD_MORE" "snd (ts (m_rd m) data) = p"
    using law Nil.prems(1) r unfolding parser_law_def by (metis (mono_tags, lifting) case_prod_conv fst_conv list.distinct(1) snd_conv)+
  then show ?case using r Nil.prems(2,4) by (intro exI [of _ m] exI [of _ s] exI [of _ data] exI [of _ rest]) simp
next
  case (Cons tok toks)
  obtain tok' p rest where r: "R (m_rd m) data = (tok', p, rest)" by (cases "R (m_rd m) data") auto
  have ts: "ts (m_rd m) data = (if tok' = M3UREAD_MORE then ([], p) else (tok' # fst (ts p rest), snd (ts p rest)))"
    using law r unfolding parser_law_def by (metis (mono_tags, lifting) case_prod_conv)
  then have t: "tok' = tok" "tok \<noteq> M3UREAD_MORE" "fst (ts p rest) = toks" "snd (ts (m_rd m) data) = snd (ts p rest)"
    using Cons.prems(1) by (auto split: if_splits)
  obtain x y where ab: "ab = (x, y)" by (cases ab)
  obtain a ti d where st: "st = (a, ti, d)" by (cases st)
  note at = Cons.prems(4) [unfolded ab st]
  have lenc: "length pre + length post + length cs + length toks + 1 < 2 ^ 32 - 1"
    "length pre + length post + length (cs @ [c]) + length toks + 1 < 2 ^ 32 - 1" for c using Cons.prems(5) by simp_all
  have go: ?case if step: "m3u_loop (Suc (length toks + k)) R P first fin m t data s = m3u_loop (length toks + k) R P first fin m2 t rest s2"
    and rd: "m_rd m2 = p" and at2: "m3u_at q h s0 pre post e ab2 st2 cs2 m2 s2" and on: "m3u_once toks ab2 = Some ab'"
    and ln: "length pre + length post + length cs2 + length toks + 1 < 2 ^ 32 - 1"
    and li: "snd (m3u_lines (tok # toks) st) = snd (m3u_lines toks st2)"
      "cs @ map (m3u_line_conf P t) (fst (m3u_lines (tok # toks) st)) = cs2 @ map (m3u_line_conf P t) (fst (m3u_lines toks st2))"
    for m2 s2 ab2 st2 cs2
    using Cons.IH [of m2 rest ab2 st2 cs2 s2] t(3,4) step rd at2 on ln Cons.prems(3) unfolding li by auto
  show ?case
  proof (cases tok)
    case (M3UREAD_ARTIST v)
    then have "\<not> x" using Cons.prems(2) ab by (auto split: if_splits)
    from m3u_at_set(1) [OF at this, where v = v and p = p] show ?thesis
      using go M3UREAD_ARTIST r t(1) Cons.prems(2) ab st lenc(1) \<open>\<not> x\<close> by (auto simp: Let_def)
  next
    case (M3UREAD_TITLE v)
    then have "\<not> y" using Cons.prems(2) ab by (auto split: if_splits)
    from m3u_at_set(2) [OF at this, where v = v and p = p] show ?thesis
      using go M3UREAD_TITLE r t(1) Cons.prems(2) ab st lenc(1) \<open>\<not> y\<close> by (auto simp: Let_def)
  next
    case (M3UREAD_DURATION v)
    from m3u_at_set(3) [OF at, where k = v and p = p] show ?thesis
      using go M3UREAD_DURATION r t(1) Cons.prems(2) ab st lenc(1) by (auto simp: Let_def)
  next
    case (M3UREAD_URL v)
    let ?m1 = "m\<lparr>m_rd := p, m_ent := (m_ent m)\<lparr>pe_url := pv_set (pe_url (m_ent m)) v\<rparr>\<rparr>"
    from m3u_add_ok [OF at qe _ refl, where p = p and v = v and P = P] Cons.prems(5) obtain m2 s2 where
      a: "m3u_add P ?m1 t s = Some (m2, s2)" "m_rd m2 = p"
      "m3u_at q h s0 pre post e (False, False) ([], [], -1) (cs @ [m3u_line_conf P t (v, a, ti, d)]) m2 s2" by auto
    show ?thesis
      by (rule go [OF _ a(2,3) _ lenc(2)])
        (use M3UREAD_URL r t(1) a(1) Cons.prems(2) ab st in \<open>auto simp: Let_def split: prod.splits\<close>)
  next
    case M3UREAD_WARN
    from m3u_at_set(4) [OF at, where p = p] show ?thesis
      using go M3UREAD_WARN r t(1) Cons.prems(2) ab st lenc(1) by (auto simp: Let_def)
  qed (use t Cons.prems(3) in auto)
qed

text \<open>The reader is given the data in parts, the last one with \<open>PHI_FFIRST\<close>.\<close>
definition with_part :: "phi_track \<Rightarrow> bool \<Rightarrow> bytes \<Rightarrow> phi_track" where
  "with_part t fin d =
     t\<lparr>t_data_in := d, t_chain_flags := (if fin then t_chain_flags t OR PHI_FFIRST else t_chain_flags t AND NOT PHI_FFIRST)\<rparr>"

fun m3u_run ::
    "nat \<Rightarrow> ('p, m3u_tok) parser \<Rightarrow> path_fns \<Rightarrow> 'p m3u \<Rightarrow> phi_track \<Rightarrow> bytes list \<Rightarrow> 'w qsys
     \<Rightarrow> ('p m3u \<times> 'w qsys \<times> phi_r) option" where
  "m3u_run n R P m t [] s = Some (m, s, PHI_MORE)"
| "m3u_run n R P m t (d # ds) s =
     (case m3u_process n R P m (with_part t (ds = []) d) s of
        None \<Rightarrow> None
      | Some (m1, s1, r) \<Rightarrow> if r = PHI_MORE then m3u_run n R P m1 t ds s1 else Some (m1, s1, r))"

fun run_toks :: "('p \<Rightarrow> bytes \<Rightarrow> 'tok list \<times> 'p) \<Rightarrow> 'p \<Rightarrow> bytes list \<Rightarrow> 'tok list" where
  "run_toks ts p [] = []"
| "run_toks ts p (d # ds) =
     fst (ts p d) @ (if ds = [] then fst (ts (snd (ts p d)) [10]) else run_toks ts (snd (ts p d)) ds)"

lemma with_part_sel [simp]:
  "t_qent (with_part t l d) = t_qent t" "t_conf (with_part t l d) = t_conf t" "t_data_in (with_part t l d) = d"
  "has_flag (with_part t l d) PHI_FFIRST = l"
proof -
  have "bit (t_chain_flags (with_part t l d)) 0 = l" by (simp add: with_part_def PHI_FFIRST_def bit_or_iff bit_and_iff bit_not_iff bit_1_iff)
  then show "has_flag (with_part t l d) PHI_FFIRST = l"
    by (simp add: has_flag_def PHI_FFIRST_def and_one_eq odd_iff_mod_2_eq_one [symmetric] bit_0)
qed (simp_all add: with_part_def)

lemma m3u_line_conf_part [simp]: "m3u_line_conf P (with_part t l d) = m3u_line_conf P t"
  by (simp add: m3u_line_conf_def m3u_conf_def list_conf_def plist_fullname_def)

lemma m3u_once_append: "m3u_once (xs @ ys) ab = Option.bind (m3u_once xs ab) (m3u_once ys)"
  by (induction xs ab rule: m3u_once.induct) auto

lemma m3u_lines_append:
  "m3u_lines (xs @ ys) st = (fst (m3u_lines xs st) @ fst (m3u_lines ys (snd (m3u_lines xs st))), snd (m3u_lines ys (snd (m3u_lines xs st))))"
  by (induction xs st rule: m3u_lines.induct) (auto split: prod.splits)

lemma m3u_lines_length: "length (fst (m3u_lines ts st)) \<le> length ts"
  by (induction ts st rule: m3u_lines.induct) (auto split: prod.splits)

lemma m3u_at_copy:
  "m3u_at q h s0 pre post e ab st cs m s \<Longrightarrow>
   m3u_at q h s0 pre post e ab st cs (m\<lparr>m_rd := p, m_ent := (m_ent m)\<lparr>pe_artist := ffvec_copyself (pe_artist (m_ent m)),
     pe_title := ffvec_copyself (pe_title (m_ent m))\<rparr>\<rparr>) s"
  by (auto simp: m3u_at_def pv_pend_def ffvec_copyself_def)

lemma m3u_process_part:
  assumes law: "parser_law R M3UREAD_MORE ts" and qe: "t_qent t = Some e"
    and on: "m3u_once (fst (ts (m_rd m) d)) ab = Some ab'" and ok: "M3uOther \<notin> set (fst (ts (m_rd m) d))"
    and at: "m3u_at q h s0 pre post e ab st cs m s"
    and len: "length pre + length post + length cs + length (fst (ts (m_rd m) d)) + 1 < 2 ^ 32 - 1"
    and n: "length (fst (ts (m_rd m) d)) < n"
  shows "\<exists>m1 s1. m3u_process n R P m (with_part t False d) s = Some (m1, s1, PHI_MORE) \<and> m_rd m1 = snd (ts (m_rd m) d)
    \<and> m3u_at q h s0 pre post e ab' (snd (m3u_lines (fst (ts (m_rd m) d)) st))
        (cs @ map (m3u_line_conf P t) (fst (m3u_lines (fst (ts (m_rd m) d)) st))) m1 s1"
proof -
  let ?t = "with_part t False d"
  obtain k where k: "n = length (fst (ts (m_rd m) d)) + Suc k" using less_imp_Suc_add [OF n] by auto
  from m3u_loop_toks [OF law _ refl on ok at len, where P = P and k = "Suc k" and t = ?t and first = False and fin = False] qe
  obtain m1 s1 rest r1 where r: "R (m_rd m1) rest = (M3UREAD_MORE, snd (ts (m_rd m) d), r1)"
    "m3u_loop n R P False False m ?t d s = m3u_loop (Suc k) R P False False m1 ?t rest s1"
    and at1: "m3u_at q h s0 pre post e ab' (snd (m3u_lines (fst (ts (m_rd m) d)) st))
        (cs @ map (m3u_line_conf P t) (fst (m3u_lines (fst (ts (m_rd m) d)) st))) m1 s1" unfolding k by auto
  from m3u_at_copy [OF at1] show ?thesis using r by (simp add: m3u_process_def Let_def)
qed

lemma m3u_process_last:
  assumes law: "parser_law R M3UREAD_MORE ts" and qe: "t_qent t = Some e"
    and tk: "toks = fst (ts (m_rd m) d) @ fst (ts (snd (ts (m_rd m) d)) [10])"
    and on: "m3u_once toks ab = Some ab'" and ok: "M3uOther \<notin> set toks" and at: "m3u_at q h s0 pre post e ab st cs m s"
    and len: "length pre + length post + length cs + length toks + 1 < 2 ^ 32 - 1" and n: "length toks + 2 \<le> n"
  shows "\<exists>m1 s1. m3u_process n R P m (with_part t True d) s = Some (m1, s1, PHI_FIN)
    \<and> m3u_at q h s0 pre post e ab' (snd (m3u_lines toks st)) (cs @ map (m3u_line_conf P t) (fst (m3u_lines toks st))) m1 s1"
proof -
  let ?t = "with_part t True d" and ?a = "fst (ts (m_rd m) d)" and ?p = "snd (ts (m_rd m) d)"
  let ?b = "fst (ts ?p [10])"
  obtain k where k: "n = length ?a + Suc (length ?b + Suc k)" using n unfolding tk by (metis add_Suc_right le_Suc_ex length_append add.assoc numeral_2_eq_2 add_Suc add_0)
  obtain ab1 where on1: "m3u_once ?a ab = Some ab1" "m3u_once ?b ab1 = Some ab'"
    using on by (auto simp: tk m3u_once_append bind_eq_Some_conv)
  have l1: "length pre + length post + length cs + length ?a + 1 < 2 ^ 32 - 1" using len by (simp add: tk)
  have ok1: "M3uOther \<notin> set ?a" "M3uOther \<notin> set ?b" using ok by (auto simp: tk)
  from m3u_loop_toks [OF law _ refl on1(1) ok1(1) at l1, where P = P and k = "Suc (length ?b + Suc k)" and t = ?t and first = True and fin = False] qe
  obtain m1 s1 rest r1 where r: "R (m_rd m1) rest = (M3UREAD_MORE, ?p, r1)"
    "m3u_loop n R P True False m ?t d s = m3u_loop (Suc (length ?b + Suc k)) R P True False m1 ?t rest s1"
    and at1: "m3u_at q h s0 pre post e ab1 (snd (m3u_lines ?a st)) (cs @ map (m3u_line_conf P t) (fst (m3u_lines ?a st))) m1 s1"
    unfolding k by auto
  let ?m2 = "m1\<lparr>m_rd := ?p\<rparr>"
  have at2: "m3u_at q h s0 pre post e ab1 (snd (m3u_lines ?a st)) (cs @ map (m3u_line_conf P t) (fst (m3u_lines ?a st))) ?m2 s1"
    using at1 by (simp add: m3u_at_def)
  have l2: "length pre + length post + length (cs @ map (m3u_line_conf P t) (fst (m3u_lines ?a st))) + length ?b + 1 < 2 ^ 32 - 1"
    using len m3u_lines_length [of ?a st] by (simp add: tk)
  from m3u_loop_toks [OF law _ _ on1(2) ok1(2) at2 l2, where P = P and k = "Suc k" and t = ?t and data = "[10]" and first = True and fin = True] qe
  obtain m3 s3 rest3 r3 where r3: "R (m_rd m3) rest3 = (M3UREAD_MORE, snd (ts ?p [10]), r3)"
    "m3u_loop (length ?b + Suc k) R P True True ?m2 ?t [10] s1 = m3u_loop (Suc k) R P True True m3 ?t rest3 s3"
    and at3: "m3u_at q h s0 pre post e ab' (snd (m3u_lines toks st)) (cs @ map (m3u_line_conf P t) (fst (m3u_lines toks st))) m3 s3"
    by (auto simp: tk m3u_lines_append)
  have "m3u_process n R P m ?t s = Some (m3\<lparr>m_rd := snd (ts ?p [10])\<rparr>, s3, PHI_FIN)"
    using r(1) r3(1) by (simp add: m3u_process_def r(2) r3(2) Let_def del: add_Suc_right) 
  moreover have "m3u_at q h s0 pre post e ab' (snd (m3u_lines toks st)) (cs @ map (m3u_line_conf P t) (fst (m3u_lines toks st)))
    (m3\<lparr>m_rd := snd (ts ?p [10])\<rparr>) s3" using at3 by (simp add: m3u_at_def)
  ultimately show ?thesis by blast
qed

lemma m3u_run_at:
  assumes law: "parser_law R M3UREAD_MORE ts" and qe: "t_qent t = Some e"
  shows "ds \<noteq> [] \<Longrightarrow> toks = run_toks ts (m_rd m) ds \<Longrightarrow> m3u_once toks ab = Some ab' \<Longrightarrow> M3uOther \<notin> set toks \<Longrightarrow>
    m3u_at q h s0 pre post e ab st cs m s \<Longrightarrow> length pre + length post + length cs + length toks + 1 < 2 ^ 32 - 1 \<Longrightarrow>
    length toks + 2 \<le> n \<Longrightarrow>
    \<exists>m1 s1. m3u_run n R P m t ds s = Some (m1, s1, PHI_FIN)
      \<and> m3u_at q h s0 pre post e ab' (snd (m3u_lines toks st)) (cs @ map (m3u_line_conf P t) (fst (m3u_lines toks st))) m1 s1"
proof (induction ds arbitrary: toks m ab st cs s)
  case (Cons d ds)
  let ?a = "fst (ts (m_rd m) d)"
  show ?case
  proof (cases "ds = []")
    case True
    from m3u_process_last [OF law qe _ Cons.prems(3-7), where d = d and P = P] Cons.prems(2) True show ?thesis by auto
  next
    case False
    let ?b = "run_toks ts (snd (ts (m_rd m) d)) ds"
    have tk: "toks = ?a @ ?b" using Cons.prems(2) False by simp
    obtain ab1 where on: "m3u_once ?a ab = Some ab1" "m3u_once ?b ab1 = Some ab'"
      using Cons.prems(3) by (auto simp: tk m3u_once_append bind_eq_Some_conv)
    have p: "M3uOther \<notin> set ?a" "M3uOther \<notin> set ?b" "length pre + length post + length cs + length ?a + 1 < 2 ^ 32 - 1"
      "length ?a < n" "length ?b + 2 \<le> n" using Cons.prems(4,6,7) by (auto simp: tk)
    from m3u_process_part [OF law qe on(1) p(1) Cons.prems(5) p(3,4), where P = P] obtain m1 s1 where
      r: "m3u_process n R P m (with_part t False d) s = Some (m1, s1, PHI_MORE)" "m_rd m1 = snd (ts (m_rd m) d)"
      and at: "m3u_at q h s0 pre post e ab1 (snd (m3u_lines ?a st)) (cs @ map (m3u_line_conf P t) (fst (m3u_lines ?a st))) m1 s1"
      by blast
    have b: "?b = run_toks ts (m_rd m1) ds" using r(2) by simp
    have l: "length pre + length post + length (cs @ map (m3u_line_conf P t) (fst (m3u_lines ?a st))) + length ?b + 1 < 2 ^ 32 - 1"
      using Cons.prems(6) m3u_lines_length [of ?a st] by (simp add: tk)
    from Cons.IH [OF False b on(2) p(2) at l p(5)] show ?thesis
      using r(1) False by (simp add: tk m3u_lines_append)
  qed
qed simp

lemma m3u_run_replaces:
  assumes "parser_law R M3UREAD_MORE ts" and "own_queue q h s" and "idx s q = pre @ e # post" and "t_qent t = Some e"
    and "ds \<noteq> []" and "toks = run_toks ts p0 ds" and "m3u_once toks (False, False) \<noteq> None" and "M3uOther \<notin> set toks"
    and "length (idx s q) + length toks < 2 ^ 32 - 1" and "length toks + 2 \<le> n"
  shows "\<exists>m1 s1 s2 ns. m3u_run n R P (m3u_open p0 t) t ds s = Some (m1, s1, PHI_FIN) \<and> m3u_close m1 t s1 = Some s2
    \<and> own_queue q h s2 \<and> idx s2 q = pre @ ns @ post
    \<and> map (ent_val s2) ns = map (\<lambda>l. Some (m3u_line_conf P t l)) (fst (m3u_lines toks ([], [], 0)))
    \<and> (\<forall>x \<in> set (pre @ post). ent_val s2 x = ent_val s x)"
proof -
  let ?m = "m3u_open p0 t" and ?cs = "map (m3u_line_conf P t) (fst (m3u_lines toks ([], [], 0)))"
  obtain ab' where on: "m3u_once toks (False, False) = Some ab'" using assms(7) by auto
  have at: "m3u_at q h s pre post e (False, False) ([], [], 0) [] ?m s"
    using assms(2-4) by (simp add: m3u_at_def m3u_open_def pls_entry_zero_def pv_zero_def pv_pend_def queue_edit.placed_def)
  have l: "length pre + length post + length ([] :: (phi_track_conf \<times> u32) list) + length toks + 1 < 2 ^ 32 - 1"
    using assms(9) by (simp add: assms(3))
  have tk: "toks = run_toks ts (m_rd ?m) ds" using assms(6) by (simp add: m3u_open_def)
  from m3u_run_at [OF assms(1,4,5) tk on assms(8) at l assms(10), where P = P] obtain m1 s1 where
    r: "m3u_run n R P ?m t ds s = Some (m1, s1, PHI_FIN)"
    and at1: "m3u_at q h s pre post e ab' (snd (m3u_lines toks ([], [], 0))) ?cs m1 s1" by auto
  note a1 = at1 [unfolded m3u_at_def]
  have f: "pls_entry_free (m_ent m1) \<noteq> None" using pls_entry_free_ok a1 by blast
  show ?thesis
  proof (cases "?cs = []")
    case True
    then have it: "idx s1 q = pre @ e # post" "\<not> m_removed m1" and fr: "\<forall>x \<in> set (pre @ post). ent_val s1 x = ent_val s x"
      using a1 by (simp_all add: queue_edit.placed_def)
    have "length (idx s1 q) \<le> 2 ^ 32 - 1" using l it(1) by simp
    from queue_edit.rem_one [OF _ it(1) this, of h] a1 obtain s2 where "queue_remove e s1 = Some s2" "own_queue q h s2"
      "idx s2 q = pre @ post" "\<forall>x \<in> set (pre @ post). ent_val s2 x = ent_val s1 x" by blast
    then have "m3u_close m1 t s1 = Some s2 \<and> own_queue q h s2 \<and> idx s2 q = pre @ [] @ post
        \<and> map (ent_val s2) [] = map (\<lambda>l. Some (m3u_line_conf P t l)) (fst (m3u_lines toks ([], [], 0)))
        \<and> (\<forall>x \<in> set (pre @ post). ent_val s2 x = ent_val s x)"
      using it f fr assms(4) True by (auto simp: m3u_close_def)
    then show ?thesis using r by blast
  next
    case False
    then obtain ns where "m_removed m1" "idx s1 q = pre @ ns @ post" "map (ent_val s1) ns = map Some ?cs"
      "\<forall>x \<in> set (pre @ post). ent_val s1 x = ent_val s x" using a1 by (auto simp: queue_edit.placed_def)
    then have "m3u_close m1 t s1 = Some s1 \<and> own_queue q h s1 \<and> idx s1 q = pre @ ns @ post
        \<and> map (ent_val s1) ns = map (\<lambda>l. Some (m3u_line_conf P t l)) (fst (m3u_lines toks ([], [], 0)))
        \<and> (\<forall>x \<in> set (pre @ post). ent_val s1 x = ent_val s x)"
      using f a1 by (auto simp: m3u_close_def comp_def)
    then show ?thesis using r by blast
  qed
qed

text \<open>
  Property C28: an \<open>.m3u\<close> file in the queue is replaced by the entries it lists. For data given in any
  parts, the reader ends, releases only memory it owns, and after it is closed the entry of the list is gone
  and in its place are the new entries in the order of the file, with the URLs, meta data and durations
  of its lines; all other entries of the queue stay in order with their values. (Between two URLs there is
  one artist and one title at most.)
\<close>

theorem m3u_read_replaces_list:
  assumes "parser_law R M3UREAD_MORE ts" and "own_queue q h s" and "idx s q = pre @ e # post" and "t_qent t = Some e"
    and "ds \<noteq> []" and "toks = run_toks ts p0 ds" and "m3u_once toks (False, False) \<noteq> None" and "M3uOther \<notin> set toks"
    and "length (idx s q) + length toks < 2 ^ 32 - 1" and "length toks + 2 \<le> n"
  shows "\<exists>m1 s1 s2 ns. m3u_run n R P (m3u_open p0 t) t ds s = Some (m1, s1, PHI_FIN) \<and> m3u_close m1 t s1 = Some s2
    \<and> own_queue q h s2 \<and> idx s2 q = pre @ ns @ post
    \<and> map (ent_val s2) ns = map (\<lambda>l. Some (m3u_line_conf P t l)) (fst (m3u_lines toks ([], [], 0)))
    \<and> (\<forall>x \<in> set (pre @ post). ent_val s2 x = ent_val s x)"
  using m3u_run_replaces [OF assms] .

text \<open>A parser for which each byte is the URL of a line, and line feeds are skipped.\<close>
definition demo_rd :: "(unit, m3u_tok) parser" where
  "demo_rd p d = (case d of [] \<Rightarrow> (M3UREAD_MORE, (), [])
     | b # r \<Rightarrow> (if b = 10 then M3UREAD_WARN else M3UREAD_URL [char_of (unat b)], (), r))"

definition demo_toks :: "unit \<Rightarrow> bytes \<Rightarrow> m3u_tok list \<times> unit" where
  "demo_toks p d = (map (\<lambda>b. if b = 10 then M3UREAD_WARN else M3UREAD_URL [char_of (unat b)]) d, ())"

lemma demo_rd_law: "parser_law demo_rd M3UREAD_MORE demo_toks"
  by (auto simp: parser_law_def demo_rd_def demo_toks_def split: list.splits)

definition demo_paths :: path_fns where
  "demo_paths = \<lparr>pa_abs = (\<lambda>s. take 1 s = ''/''), pa_match_scheme = (\<lambda>s. (0, [])), pa_splitpath = (\<lambda>s. (-1, []))\<rparr>"

theorem m3u_read_replaces_list_witness:
  "\<exists>m1 s1 s2 ns. m3u_run 9 demo_rd demo_paths (m3u_open () (phi_track_zero\<lparr>t_qent := Some 3\<rparr>)) (phi_track_zero\<lparr>t_qent := Some 3\<rparr>)
       [[65], [66]] q_state3 = Some (m1, s1, PHI_FIN)
     \<and> m3u_close m1 (phi_track_zero\<lparr>t_qent := Some 3\<rparr>) s1 = Some s2 \<and> idx s2 1 = [2] @ ns @ [4] \<and> length ns = 2"
proof -
  have tk: "run_toks demo_toks () [[65], [66]] = [M3UREAD_URL ''A'', M3UREAD_URL ''B'', M3UREAD_WARN]"
    by (simp add: demo_toks_def char_of_def bit_Suc_0_iff)
  have ln: "length (idx q_state3 1) + length [M3UREAD_URL ''A'', M3UREAD_URL ''B'', M3UREAD_WARN] < 2 ^ 32 - 1"
    unfolding q_state3_own(2) by simp
  have q: "t_qent (phi_track_zero\<lparr>t_qent := Some 3\<rparr>) = Some 3" by simp
  from m3u_read_replaces_list [OF demo_rd_law q_state3_own q _ tk [symmetric] _ _ ln, of 9 demo_paths]
  show ?thesis by (fastforce dest: map_eq_imp_length_eq)
qed

section \<open>A part that ends inside an entry of a pls file\<close>

text \<open>
  When a part of a \<open>.pls\<close> file ends behind the URL of an entry, the URL is copied. If the next part begins
  with the URL of another entry, \<open>trk_idx\<close> is unset, so the pending entry is not added; its vector keeps its
  capacity and gets a pointer into the input, which \<open>pls_entry_free\<close> then releases.
\<close>
lemma pls_split_entry_faults:
  assumes "pv_cap (pe_url (p_ent m)) \<noteq> 0" and "has_flag t PHI_FFIRST" and "v \<noteq> []"
    and "R (p_rd m) (t_data_in t) = (PLSREAD_URL i v, p, rest)" and "R p rest = (PLSREAD_MORE, p1, r1)"
    and "R p1 [10] = (PLSREAD_MORE, p2, r2)"
  shows "pls_process (Suc (Suc (Suc n))) R P m t s = None"
proof -
  have "pls_add P m2 t s = None" if "p_ent m2 = (p_ent m)\<lparr>pe_url := pv_set (pe_url (p_ent m)) v\<rparr>" for m2 :: "'a pls_r"
    using assms(1) that by (auto simp: pls_add_def pls_entry_free_def pv_free_def pv_set_def split: bind_splits)
  then show ?thesis using assms(2-6) by (simp add: pls_process_def pls_commit_def pv_set_def)
qed

text \<open>An entry that begins in the text flushed at the end of the file is lost: the loop ends when it commits the one before.\<close>
lemma pls_last_line_lost:
  assumes "R (p_rd m) [10] = (PLSREAD_URL i v, p, rest)" and "trk \<noteq> -1" and "i \<noteq> trk"
  shows "pls_loop (Suc n) R P True True trk m t [10] s
    = map_option (\<lambda>(m2, s2). (m2, s2, PHI_FIN)) (pls_commit P (m\<lparr>p_rd := p\<rparr>) t s)"
  using assms by (simp add: Let_def split: option.split)

text \<open>The same for a pending artist of a \<open>.m3u\<close> file that was copied at the end of a part, when the next part names another one.\<close>
lemma m3u_split_artist_faults:
  assumes "pv_cap (pe_artist (m_ent m)) \<noteq> 0" and "R (m_rd m) data = (M3UREAD_ARTIST a, p, rest)" and "R p rest = (M3UREAD_URL v, p1, r1)"
  shows "m3u_loop (Suc (Suc n)) R P first fin m t data s = None"
proof -
  have "m3u_add P m2 t s = None" if "pv_cap (pe_artist (m_ent m2)) \<noteq> 0" "\<not> pv_heap (pe_artist (m_ent m2))" for m2 :: "'a m3u"
    using that by (auto simp: m3u_add_def pls_entry_free_def pv_free_def split: bind_splits)
  then show ?thesis using assms by (simp add: Let_def pv_set_def)
qed

section \<open>Saving and loading a queue\<close>

lemma m3uw_loop_entries:
  assumes own: "own_queue q h s" and len: "length (idx s q) < 2 ^ 32 - 1"
  shows "drop (unat (mw_pos m)) (idx s q) = es \<Longrightarrow> unat (mw_pos m) \<le> length (idx s q) \<Longrightarrow> mw_q m = q \<Longrightarrow>
    map (\<lambda>e. Option.bind (ent_val s e) (m3uw_entry S)) es = map Some xs \<Longrightarrow> length es < n \<Longrightarrow>
    \<exists>m1. m3uw_loop n S wr m s = Some m1 \<and> mw_m3 m1 = fold (\<lambda>x w. wr w x) xs (mw_m3 m)"
proof (induction n arbitrary: m es xs)
  case (Suc n)
  obtain x where x: "que s q = Some x" "q_index x = idx s q" using own by (auto simp: own_queue_def idx_def)
  have at: "q_at (Some (mw_q m)) (mw_pos m) s = Some (case es of [] \<Rightarrow> None | e # _ \<Rightarrow> Some e)"
    using Suc.prems(1-3) x by (auto simp: q_at_def q_or_default_def q_get_def hd_drop_conv_nth split: list.splits)
      (metis hd_drop_conv_nth list.sel(1))
  show ?case
  proof (cases es)
    case Nil
    then show ?thesis using at Suc.prems(4) by (simp add: Let_def)
  next
    case (Cons e es')
    then obtain y xs' where xs: "xs = y # xs'" "Option.bind (ent_val s e) (m3uw_entry S) = Some y"
      "map (\<lambda>e. Option.bind (ent_val s e) (m3uw_entry S)) es' = map Some xs'" using Suc.prems(4) by (cases xs) auto
    let ?m = "m\<lparr>mw_pos := mw_pos m + 1, mw_m3 := wr (mw_m3 m) y\<rparr>"
    have lt: "unat (mw_pos m) < length (idx s q)" using Suc.prems(1) Cons by (metis drop_eq_Nil list.distinct(1) not_le)
    then have "unat (mw_pos m + 1) = unat (mw_pos m) + 1" using len by (subst unat_add_small) simp_all
    moreover have "drop (Suc (unat (mw_pos m))) (idx s q) = es'" using Suc.prems(1) Cons by (metis drop_Suc list.sel(3) tl_drop)
    ultimately show ?thesis
      using Suc.IH [of ?m es' xs'] xs Suc.prems(3,5) Cons at lt by (simp add: Let_def)
  qed
qed simp

text \<open>The tokens of the line that is written for an entry.\<close>
definition line_toks :: "m3uwrite_entry \<Rightarrow> m3u_tok list" where
  "line_toks x = (if we_artist x \<noteq> [] then [M3UREAD_ARTIST (we_artist x)] else [])
     @ (if we_title x \<noteq> [] then [M3UREAD_TITLE (we_title x)] else []) @ [M3UREAD_DURATION (we_duration x), M3UREAD_URL (we_url x)]"

lemma line_toks_lines:
  "fst (m3u_lines (concat (map line_toks xs)) ([], [], d)) = map (\<lambda>x. (we_url x, we_artist x, we_title x, we_duration x)) xs"
  by (induction xs arbitrary: d) (simp_all add: line_toks_def m3u_lines_append case_prod_beta)

lemma line_toks_once: "m3u_once (concat (map line_toks xs)) (False, False) = Some (False, False)"
  by (induction xs) (simp_all add: line_toks_def m3u_once_append)

lemma line_toks_other: "M3uOther \<notin> set (concat (map line_toks xs))"
  by (auto simp: line_toks_def split: if_splits)

lemma dur_again:
  assumes "d = -1 \<or> 0 < d \<and> d < 2147483"
  shows "(if dur_msec d \<noteq> 0 then msec_to_sec (dur_msec d) else -1) = d"
proof (cases "d = -1")
  case False
  then have d: "0 < d" "d * 1000 < 2 ^ 31" using assms by auto
  then have s: "sint (word_of_int (d * 1000) :: u32) = d * 1000"
    by (simp only: sint_sbintrunc') (simp add: signed_take_bit_int_eq_self)
  then have "(word_of_int (d * 1000) :: u32) \<noteq> 0" using d(1) by (metis mult_eq_0_iff less_irrefl sint_0 zero_neq_numeral)
  with s show ?thesis using False d by (simp add: dur_msec_def msec_to_sec_def)
qed (simp add: dur_msec_def)

lemma m3uw_entry_again:
  assumes "c_meta (t_conf t) = []" and "\<not> mt_match S ''artist'' ''_phi_''" and "\<not> mt_match S ''title'' ''_phi_''"
    and "pa_abs P (we_url x)" and "we_duration x = -1 \<or> 0 < we_duration x \<and> we_duration x < 2147483"
  shows "m3uw_entry S (m3u_line_conf P t (we_url x, we_artist x, we_title x, we_duration x)) = Some x"
proof -
  let ?v = "m3u_line_conf P t (we_url x, we_artist x, we_title x, we_duration x)"
  let ?m = "(if we_artist x \<noteq> [] then [''artist'', we_artist x] else []) @ (if we_title x \<noteq> [] then [''title'', we_title x] else [])"
  have m: "c_meta (fst ?v) = ?m" and u: "if_name (c_ifile (fst ?v)) = Some (we_url x)" and d: "snd ?v = dur_msec (we_duration x)"
    using assms(1,4)
    by (auto simp: m3u_line_conf_def m3u_conf_def list_conf_def phi_track_conf_assign_def pv_set_def pv_zero_def meta_set_def
        plist_fullname_def Let_def)
  have "meta_find S ?m ''artist'' 0 = Some (if we_artist x \<noteq> [] then Some (we_artist x) else None)"
    "meta_find S ?m ''title'' 0 = Some (if we_title x \<noteq> [] then Some (we_title x) else None)"
    using assms(2,3) by (subst meta_find_map_of; simp add: meta_visible_def)+
  then show ?thesis using dur_again [OF assms(5)] by (auto simp: m3uw_entry_def m u d split: option.splits)
qed


text \<open>A writer and a parser for lists of entries without name and duration.\<close>
definition mini_rd :: "(unit, m3u_tok) parser" where
  "mini_rd p d = (case filter (\<lambda>b. b \<noteq> 10) d of [] \<Rightarrow> (M3UREAD_MORE, (), [])
     | b # r \<Rightarrow> (if b = 1 then M3UREAD_DURATION (-1) else M3UREAD_URL [], (), r))"

definition mini_toks :: "unit \<Rightarrow> bytes \<Rightarrow> m3u_tok list \<times> unit" where
  "mini_toks p d = (map (\<lambda>b. if b = 1 then M3UREAD_DURATION (-1) else M3UREAD_URL []) (filter (\<lambda>b. b \<noteq> 10) d), ())"

lemma mini_rd_law: "parser_law mini_rd M3UREAD_MORE mini_toks"
proof -
  have "filter (\<lambda>b. b \<noteq> 10) r = r" if "filter (\<lambda>b. b \<noteq> 10) d = b # r" for d r :: bytes and b
  proof -
    have "b \<in> set (filter (\<lambda>b. b \<noteq> 10) d)" using that by simp
    then have b: "b \<noteq> 10" by simp
    have "filter (\<lambda>b. b \<noteq> 10) (b # r) = b # r" unfolding that [symmetric] by simp
    then show ?thesis using b by simp
  qed
  then show ?thesis by (auto simp: parser_law_def mini_rd_def mini_toks_def split: list.splits)
qed

definition mini_strs :: meta_strs where
  "mini_strs = \<lparr>mt_match = (\<lambda>s p. take (length p) s = p), mt_ieq = (=)\<rparr>"


end
