(* ===== verification/Cue.thy ===== *)
theory Cue
  imports Playlist
begin

text \<open>
  The reader of cue sheets, \<open>src/list/cue-read.c\<close>: the start and end of tracks from the index marks
  (\<open>ffcue_index\<close>), the meta data of the sheet and of its tracks, the new queue entries, and the filter that maps
  positions of a track to those of its file (\<open>cue-hook\<close>). The parser of avpack, the check and conversion of
  UTF-8, and the sort and search of ffbase are parameters. An access outside of the vectors of meta data is \<open>None\<close>.
\<close>

section \<open>Tracks from index marks\<close>

definition PHI_CUE_GAP_PREV :: u32 where "PHI_CUE_GAP_PREV = 0"
definition PHI_CUE_GAP_PREV1 :: u32 where "PHI_CUE_GAP_PREV1 = 1"
definition PHI_CUE_GAP_CURR :: u32 where "PHI_CUE_GAP_CURR = 2"
definition PHI_CUE_GAP_SKIP :: u32 where "PHI_CUE_GAP_SKIP = 3"

lemmas gap_defs = PHI_CUE_GAP_PREV_def PHI_CUE_GAP_PREV1_def PHI_CUE_GAP_CURR_def PHI_CUE_GAP_SKIP_def

record ffcuetrk =
  ct_from :: u32
  ct_to :: u32

record ffcue =
  fc_options :: u32
  fc_from :: u32
  fc_trk :: ffcuetrk
  fc_first :: bool
  fc_next :: bool

text \<open>The token types \<open>ffcue_index\<close> tells apart; \<open>CueFinal\<close> is 0xa11.\<close>
datatype cue_ev = CueFile | CueTrkNum | CueIndex00 u32 | CueIndex u32 | CueFinal | CueNone

definition ffcue_index :: "ffcue \<Rightarrow> cue_ev \<Rightarrow> ffcue \<times> ffcuetrk option" where
  "ffcue_index c ev =
     (case ev of
        CueFile \<Rightarrow> (c\<lparr>fc_from := -1, fc_first := True\<rparr>, None)
      | CueTrkNum \<Rightarrow> (c\<lparr>fc_trk := \<lparr>ct_from = -1, ct_to = -1\<rparr>, fc_next := False\<rparr>, None)
      | CueIndex00 v \<Rightarrow>
          (if fc_first c then
             (if fc_options c = PHI_CUE_GAP_PREV1 \<or> fc_options c = PHI_CUE_GAP_CURR then c\<lparr>fc_from := v\<rparr> else c)
           else if fc_options c = PHI_CUE_GAP_SKIP then c\<lparr>fc_trk := (fc_trk c)\<lparr>ct_to := v\<rparr>\<rparr>
           else if fc_options c = PHI_CUE_GAP_CURR then c\<lparr>fc_trk := \<lparr>ct_from = fc_from c, ct_to = v\<rparr>, fc_from := v\<rparr>
           else c, None)
      | CueIndex v \<Rightarrow>
          (if fc_first c then (c\<lparr>fc_first := False, fc_from := (if fc_from c = -1 then v else fc_from c)\<rparr>, None)
           else if fc_next c then (c, None)
           else
             (let c1 = (if ct_from (fc_trk c) = -1 then c\<lparr>fc_trk := (fc_trk c)\<lparr>ct_from := fc_from c\<rparr>, fc_from := v\<rparr> else c);
                  c2 = (if ct_to (fc_trk c1) = -1 then c1\<lparr>fc_trk := (fc_trk c1)\<lparr>ct_to := v\<rparr>\<rparr> else c1)
              in (c2\<lparr>fc_next := True\<rparr>, Some (fc_trk c2))))
      | CueFinal \<Rightarrow> (let trk = \<lparr>ct_from = fc_from c, ct_to = 0\<rparr> in (c\<lparr>fc_trk := trk\<rparr>, Some trk))
      | CueNone \<Rightarrow> (c, None))"

section \<open>The reader\<close>

text \<open>A token with the text \<open>out\<close>; an index mark has its position in frames.\<close>
datatype cue_tok =
    CUEREAD_MORE | CUEREAD_WARN | CUEREAD_TITLE string | CUEREAD_TRK_NUM string | CUEREAD_TRK_TITLE string
  | CUEREAD_TRK_PERFORMER string | CUEREAD_PERFORMER string | CUEREAD_REM_VAL string | CUEREAD_REM_NAME string
  | CUEREAD_FILE string | CUEREAD_TRK_INDEX00 string u32 | CUEREAD_TRK_INDEX string u32 | CueOther string

record 'p cue =
  cu_rd :: 'p
  cu_cu :: ffcue
  cu_url :: string
  cu_cur :: "nat option"
  cu_gmetas :: "string list"
  cu_metas :: "string list"
  cu_nmeta :: nat
  cu_curtrk :: u32
  cu_have_gmeta :: bool
  cu_utf8 :: bool
  cu_removed :: bool

text \<open>
  \<open>ffutf8_valid\<close>, \<open>ffutf8_from_cp\<close> with the configured code page, \<open>ffarrint32_sort\<close> and
  \<open>ffarrint32_binfind\<close>.
\<close>
record cue_base =
  cb_valid :: "string \<Rightarrow> bool"
  cb_from_cp :: "string \<Rightarrow> string"
  cb_sort :: "u32 list \<Rightarrow> u32 list"
  cb_find :: "u32 list \<Rightarrow> u32 \<Rightarrow> nat option"

definition cue_open :: "cue_base \<Rightarrow> 'p \<Rightarrow> phi_track \<Rightarrow> 'p cue \<times> phi_track" where
  "cue_open B p0 t =
     (\<lparr>cu_rd = p0, cu_cu = \<lparr>fc_options = ucast (c_cue_gaps (t_conf t)), fc_from = 0, fc_trk = \<lparr>ct_from = 0, ct_to = 0\<rparr>,
         fc_first = False, fc_next = False\<rparr>, cu_url = [], cu_cur = t_qent t, cu_gmetas = [], cu_metas = [], cu_nmeta = 0,
         cu_curtrk = 0, cu_have_gmeta = False, cu_utf8 = True, cu_removed = False\<rparr>,
      t\<lparr>t_conf := (t_conf t)\<lparr>c_tracks := cb_sort B (c_tracks (t_conf t))\<rparr>\<rparr>)"

text \<open>\<open>cue_meta_find\<close> from index \<open>i\<close>: whether the name is among the first \<open>n\<close> items.\<close>
function cue_meta_find :: "string list \<Rightarrow> nat \<Rightarrow> string \<Rightarrow> nat \<Rightarrow> bool option" where
  "cue_meta_find a n x i =
     (if i = n then Some False else if length a \<le> i then None
      else if a ! i = x then Some True else cue_meta_find a n x (i + 2))"
  by pat_completeness auto
termination by (relation "measure (\<lambda>(a, n, x, i). length a - i)") auto

declare cue_meta_find.simps [simp del]

text \<open>The loops of \<open>add\<close> that set the meta data of the sheet and of the track.\<close>
function set_gmetas :: "'p cue \<Rightarrow> nat \<Rightarrow> string list \<Rightarrow> string list option" where
  "set_gmetas c i m =
     (if i = length (cu_gmetas c) then Some m else if length (cu_gmetas c) \<le> i + 1 then None
      else (case cue_meta_find (cu_metas c) (cu_nmeta c) (cu_gmetas c ! i) 0 of
              None \<Rightarrow> None
            | Some True \<Rightarrow> set_gmetas c (i + 2) m
            | Some False \<Rightarrow> set_gmetas c (i + 2) (meta_set m (cu_gmetas c ! i) (cu_gmetas c ! (i + 1)) 0)))"
  by pat_completeness auto
termination by (relation "measure (\<lambda>(c, i, m). length (cu_gmetas c) - i)") auto

function set_metas :: "string list \<Rightarrow> nat \<Rightarrow> nat \<Rightarrow> string list \<Rightarrow> string list option" where
  "set_metas a n i m =
     (if i = n then Some m else if length a \<le> i + 1 then None
      else set_metas a n (i + 2) (meta_set m (a ! i) (a ! (i + 1)) 0))"
  by pat_completeness auto
termination by (relation "measure (\<lambda>(a, n, i, m). length a - i)") auto

declare set_gmetas.simps [simp del] set_metas.simps [simp del]

text \<open>The configuration and the length of the entry for a track.\<close>
definition cue_conf :: "'p cue \<Rightarrow> ffcuetrk \<Rightarrow> phi_track \<Rightarrow> (phi_track_conf \<times> u32) option" where
  "cue_conf c k t = do {
     let c0 = (list_conf t (cu_url c))\<lparr>c_seek_cdframes := ucast (ct_from k), c_until_cdframes := ucast (ct_to k)\<rparr>;
     m1 \<leftarrow> set_gmetas c 0 (c_meta c0);
     m2 \<leftarrow> set_metas (cu_metas c) (cu_nmeta c) 0 m1;
     Some (c0\<lparr>c_meta := m2\<rparr>, if ct_to k \<noteq> 0 then (ct_to k - ct_from k) * 1000 div 75 else 0)
   }"

definition cue_add :: "'p cue \<Rightarrow> ffcuetrk \<Rightarrow> phi_track \<Rightarrow> 'w qsys \<Rightarrow> ('p cue \<times> 'w qsys) option" where
  "cue_add c k t s = do {
     e \<leftarrow> t_qent t;
     cur \<leftarrow> cu_cur c;
     v \<leftarrow> cue_conf c k t;
     (st, s1) \<leftarrow> put_one queue_insert queue_remove e (cur, cu_removed c) v s;
     Some (c\<lparr>cu_cur := Some (fst st), cu_removed := snd st\<rparr>, s1)
   }"

text \<open>The label \<open>next\<close>: the items of the track are removed from \<open>metas\<close>.\<close>
definition cue_next :: "'p cue \<Rightarrow> 'p cue" where
  "cue_next c = (let ms = drop (cu_nmeta c) (cu_metas c) in c\<lparr>cu_metas := ms, cu_nmeta := length ms\<rparr>)"

text \<open>The label \<open>add\<close>: the new state and whether the reader is done.\<close>
definition cue_track :: "cue_base \<Rightarrow> 'p cue \<Rightarrow> ffcuetrk \<Rightarrow> bool \<Rightarrow> phi_track \<Rightarrow> 'w qsys \<Rightarrow> ('p cue \<times> 'w qsys \<times> bool) option" where
  "cue_track B c k fin t s =
     (let c1 = c\<lparr>cu_curtrk := cu_curtrk c + 1\<rparr>; tracks = c_tracks (t_conf t);
          pos = cb_find B tracks (cu_curtrk c1);
          is_done = (fin \<or> tracks \<noteq> [] \<and> pos = Some (length tracks - 1))
      in if tracks \<noteq> [] \<and> pos = None then Some (cue_next c1, s, fin)
         else if ct_to k \<noteq> 0 \<and> ct_to k \<le> ct_from k then Some (c1, s, is_done)
         else map_option (\<lambda>(c2, s2). (cue_next c2, s2, is_done)) (cue_add c1 k t s))"

definition cue_text :: "cue_base \<Rightarrow> 'p cue \<Rightarrow> string \<Rightarrow> string \<times> 'p cue" where
  "cue_text B c v = (if cu_utf8 c \<and> cb_valid B v then (v, c) else (cb_from_cp B v, c\<lparr>cu_utf8 := False\<rparr>))"

text \<open>The switch over the token types; the text is converted first.\<close>
definition cue_push :: "string list \<Rightarrow> 'p cue \<Rightarrow> 'p cue" where
  "cue_push xs c = c\<lparr>cu_metas := cu_metas c @ xs\<rparr>"

definition cue_switch :: "path_fns \<Rightarrow> cue_base \<Rightarrow> 'p cue \<Rightarrow> phi_track \<Rightarrow> cue_tok \<Rightarrow> 'p cue \<times> cue_ev" where
  "cue_switch P B c t tok =
     (case tok of
        CUEREAD_TITLE x \<Rightarrow> (case cue_text B c x of (v, c1) \<Rightarrow> (cue_push [''album'', v] c1, CueNone))
      | CUEREAD_TRK_NUM x \<Rightarrow>
          (case cue_text B c x of (v, c1) \<Rightarrow> (cue_push [''tracknumber'', v] (c1\<lparr>cu_nmeta := length (cu_metas c1)\<rparr>), CueTrkNum))
      | CUEREAD_TRK_TITLE x \<Rightarrow> (case cue_text B c x of (v, c1) \<Rightarrow> (cue_push [''title'', v] c1, CueNone))
      | CUEREAD_TRK_PERFORMER x \<Rightarrow> (case cue_text B c x of (v, c1) \<Rightarrow> (cue_push [''artist'', v] c1, CueNone))
      | CUEREAD_PERFORMER x \<Rightarrow> (case cue_text B c x of (v, c1) \<Rightarrow> (cue_push [''artist'', v] c1, CueNone))
      | CUEREAD_REM_VAL x \<Rightarrow> (case cue_text B c x of (v, c1) \<Rightarrow> (cue_push [v] c1, CueNone))
      | CUEREAD_REM_NAME x \<Rightarrow> (case cue_text B c x of (v, c1) \<Rightarrow> (cue_push [v] c1, CueNone))
      | CUEREAD_FILE x \<Rightarrow>
          (case cue_text B c x of (v, c1) \<Rightarrow>
             (let c2 = (if cu_have_gmeta c1 then c1 else c1\<lparr>cu_have_gmeta := True, cu_gmetas := cu_metas c1, cu_metas := []\<rparr>)
              in (c2\<lparr>cu_url := plist_fullname P t v\<rparr>, CueFile)))
      | CUEREAD_TRK_INDEX00 x k \<Rightarrow> (snd (cue_text B c x), CueIndex00 k)
      | CUEREAD_TRK_INDEX x k \<Rightarrow> (snd (cue_text B c x), CueIndex k)
      | CueOther x \<Rightarrow> (snd (cue_text B c x), CueNone)
      | _ \<Rightarrow> (c, CueNone))"

text \<open>The loop of \<open>cue_process\<close>.\<close>
fun cue_loop ::
    "nat \<Rightarrow> ('p, cue_tok) parser \<Rightarrow> path_fns \<Rightarrow> cue_base \<Rightarrow> bool \<Rightarrow> bool \<Rightarrow> 'p cue \<Rightarrow> phi_track \<Rightarrow> bytes \<Rightarrow> 'w qsys
     \<Rightarrow> ('p cue \<times> 'w qsys \<times> phi_r) option" where
  "cue_loop 0 R P B first fin c t data s = None"
| "cue_loop (Suc n) R P B first fin c t data s =
     (case R (cu_rd c) data of (tok, p, rest) \<Rightarrow>
        (let c1 = c\<lparr>cu_rd := p\<rparr> in
         if tok = CUEREAD_MORE then
           (if \<not> first then Some (c1, s, PHI_MORE)
            else if \<not> fin then cue_loop n R P B first True c1 t [10] s
            else
              (case ffcue_index (cu_cu c1) CueFinal of
                 (cu, None) \<Rightarrow> Some (c1\<lparr>cu_cu := cu\<rparr>, s, PHI_FIN)
               | (cu, Some k) \<Rightarrow>
                   map_option (\<lambda>(c2, s2, d). (c2, s2, PHI_FIN))
                     (cue_track B (c1\<lparr>cu_cu := cu, cu_nmeta := length (cu_metas c1)\<rparr>) k True t s)))
         else if tok = CUEREAD_WARN then cue_loop n R P B first fin c1 t rest s
         else
           (case cue_switch P B c1 t tok of (c2, ev) \<Rightarrow>
              (case ffcue_index (cu_cu c2) ev of
                 (cu, None) \<Rightarrow> cue_loop n R P B first fin (c2\<lparr>cu_cu := cu\<rparr>) t rest s
               | (cu, Some k) \<Rightarrow>
                   (case cue_track B (c2\<lparr>cu_cu := cu\<rparr>) k False t s of
                      None \<Rightarrow> None
                    | Some (c3, s3, is_done) \<Rightarrow>
                        if is_done then Some (c3, s3, PHI_FIN) else cue_loop n R P B first fin c3 t rest s3)))))"

definition cue_process ::
    "nat \<Rightarrow> ('p, cue_tok) parser \<Rightarrow> path_fns \<Rightarrow> cue_base \<Rightarrow> 'p cue \<Rightarrow> phi_track \<Rightarrow> 'w qsys \<Rightarrow> ('p cue \<times> 'w qsys \<times> phi_r) option" where
  "cue_process n R P B c t s = cue_loop n R P B (has_flag t PHI_FFIRST) False c t (t_data_in t) s"

section \<open>cue-hook\<close>

record cuehook =
  ch_abs_seek :: u64
  ch_abs_seek_ms :: u64

definition cdframes_to_samples :: "u64 \<Rightarrow> u64 \<Rightarrow> u64" where
  "cdframes_to_samples v rate = v * rate div 75"

definition cdframes_to_msec :: "u64 \<Rightarrow> u64" where
  "cdframes_to_msec v = v div 75 * 1000"

definition cuehook_open :: "phi_track \<Rightarrow> (cuehook option \<times> phi_track)" where
  "cuehook_open t =
     (let seek = c_seek_cdframes (t_conf t); until = c_until_cdframes (t_conf t) in
      if seek = 0 \<and> until = 0 then (None, t)
      else
        (let ch = \<lparr>ch_abs_seek = cdframes_to_samples seek (ucast (af_rate (a_format (t_audio t)))), ch_abs_seek_ms = cdframes_to_msec seek\<rparr>;
             t1 = t\<lparr>t_audio := (t_audio t)\<lparr>a_total := a_total (t_audio t) - ch_abs_seek ch\<rparr>\<rparr>;
             t2 = (if until \<noteq> 0 then t1\<lparr>t_conf := (t_conf t1)\<lparr>c_until_msec := c_until_msec (t_conf t1) + cdframes_to_msec (until - seek)\<rparr>\<rparr> else t1)
         in (Some ch, t2)))"

definition cuehook_process :: "cuehook \<Rightarrow> phi_track \<Rightarrow> phi_track \<times> phi_r" where
  "cuehook_process ch t =
     (if has_flag t PHI_FFWD then
        (let d = a_pos (t_audio t) - ch_abs_seek ch;
             t1 = t\<lparr>t_audio := (t_audio t)\<lparr>a_pos := (if sint d < 0 then 0 else d)\<rparr>, t_data_out := t_data_in t\<rparr>
         in (t1, if has_flag t PHI_FFIRST then PHI_DONE else PHI_DATA))
      else
        (if a_seek (t_audio t) \<noteq> -1
         then (t\<lparr>t_audio := (t_audio t)\<lparr>a_seek := a_seek (t_audio t) + ch_abs_seek_ms ch\<rparr>\<rparr>, PHI_MORE) else (t, PHI_MORE)))"

section \<open>The gap options\<close>

text \<open>The tracks of one file: each has an optional \<open>INDEX 00\<close> and an \<open>INDEX 01\<close>.\<close>
type_synonym cue_marks = "u32 option \<times> u32"

definition track_events :: "cue_marks \<Rightarrow> cue_ev list" where
  "track_events tr = CueTrkNum # (case fst tr of None \<Rightarrow> [] | Some p \<Rightarrow> [CueIndex00 p]) @ [CueIndex (snd tr)]"

definition sheet_events :: "cue_marks list \<Rightarrow> cue_ev list" where
  "sheet_events trs = CueFile # concat (map track_events trs) @ [CueFinal]"

fun cue_run :: "ffcue \<Rightarrow> cue_ev list \<Rightarrow> ffcuetrk list" where
  "cue_run c [] = []"
| "cue_run c (e # es) = (case ffcue_index c e of (c1, r) \<Rightarrow> (case r of None \<Rightarrow> cue_run c1 es | Some k \<Rightarrow> k # cue_run c1 es))"

text \<open>Where a track starts, and where the track before it ends, as \<open>enum PHI_CUE_GAP\<close> documents the options.\<close>
definition gap_start :: "u32 \<Rightarrow> bool \<Rightarrow> cue_marks \<Rightarrow> u32" where
  "gap_start opt first tr =
     (case fst tr of None \<Rightarrow> snd tr
      | Some p \<Rightarrow> if opt = PHI_CUE_GAP_CURR \<or> opt = PHI_CUE_GAP_PREV1 \<and> first then p else snd tr)"

definition gap_end :: "u32 \<Rightarrow> cue_marks \<Rightarrow> u32" where
  "gap_end opt tr =
     (case fst tr of None \<Rightarrow> snd tr | Some p \<Rightarrow> if opt = PHI_CUE_GAP_CURR \<or> opt = PHI_CUE_GAP_SKIP then p else snd tr)"

fun gap_tracks :: "u32 \<Rightarrow> u32 \<Rightarrow> cue_marks list \<Rightarrow> ffcuetrk list" where
  "gap_tracks opt start [] = [\<lparr>ct_from = start, ct_to = 0\<rparr>]"
| "gap_tracks opt start (tr # trs) = \<lparr>ct_from = start, ct_to = gap_end opt tr\<rparr> # gap_tracks opt (gap_start opt False tr) trs"

definition marks_ok :: "cue_marks \<Rightarrow> bool" where
  "marks_ok tr \<longleftrightarrow> fst tr \<noteq> Some (-1) \<and> snd tr \<noteq> -1"

lemma cue_run_track:
  assumes "\<not> fc_first c" and "fc_from c \<noteq> -1" and "marks_ok tr"
  shows "\<exists>c1. cue_run c (track_events tr @ es) = \<lparr>ct_from = fc_from c, ct_to = gap_end (fc_options c) tr\<rparr> # cue_run c1 es
    \<and> \<not> fc_first c1 \<and> fc_options c1 = fc_options c \<and> fc_from c1 = gap_start (fc_options c) False tr \<and> fc_from c1 \<noteq> -1"
proof -
  obtain p i where tr: "tr = (p, i)" by (cases tr)
  show ?thesis
  proof (cases p)
    case None
    then show ?thesis using assms
      by (simp add: tr track_events_def ffcue_index_def gap_start_def gap_end_def marks_ok_def)
        (intro exI conjI, rule refl, simp_all)
  next
    case (Some v)
    then show ?thesis using assms
      by (cases "fc_options c = PHI_CUE_GAP_SKIP"; cases "fc_options c = PHI_CUE_GAP_CURR")
        (simp_all add: tr track_events_def ffcue_index_def gap_start_def gap_end_def marks_ok_def gap_defs,
         (intro exI conjI, rule refl, simp_all)+)
  qed
qed

lemma cue_run_tracks:
  "\<not> fc_first c \<Longrightarrow> fc_from c \<noteq> -1 \<Longrightarrow> \<forall>tr \<in> set trs. marks_ok tr \<Longrightarrow>
     cue_run c (concat (map track_events trs) @ [CueFinal]) = gap_tracks (fc_options c) (fc_from c) trs"
proof (induction trs arbitrary: c)
  case Nil
  then show ?case by (simp add: ffcue_index_def Let_def)
next
  case (Cons tr trs)
  from cue_run_track [of c tr "concat (map track_events trs) @ [CueFinal]"] Cons.prems obtain c1 where
    "cue_run c (track_events tr @ concat (map track_events trs) @ [CueFinal])
      = \<lparr>ct_from = fc_from c, ct_to = gap_end (fc_options c) tr\<rparr> # cue_run c1 (concat (map track_events trs) @ [CueFinal])"
    "\<not> fc_first c1" "fc_options c1 = fc_options c" "fc_from c1 = gap_start (fc_options c) False tr" "fc_from c1 \<noteq> -1" by auto
  then show ?case using Cons.IH [of c1] Cons.prems(3) by simp
qed

text \<open>
  The tracks of a cue sheet with one file start and end as the gap option says. From whatever
  state, \<open>ffcue_index\<close> reports each track once, in order: the first starts at its \<open>INDEX 01\<close> (with \<open>PREV1\<close> and
  \<open>CURR\<close> at its \<open>INDEX 00\<close>), each later one at its \<open>INDEX 01\<close> (with \<open>CURR\<close> at \<open>INDEX 00\<close>), and each ends at the
  \<open>INDEX 01\<close> of the next one (with \<open>CURR\<close> and \<open>SKIP\<close> at its \<open>INDEX 00\<close>); the last one has no end.
\<close>

theorem cue_tracks_by_gap_option:
  assumes "\<forall>tr \<in> set (tr # trs). marks_ok tr"
  shows "cue_run c (sheet_events (tr # trs)) = gap_tracks (fc_options c) (gap_start (fc_options c) True tr) trs"
proof -
  obtain p i where tr: "tr = (p, i)" by (cases tr)
  have "\<exists>c1. cue_run c (CueFile # track_events tr @ es) = cue_run c1 es \<and> \<not> fc_first c1 \<and> fc_options c1 = fc_options c
    \<and> fc_from c1 = gap_start (fc_options c) True tr \<and> fc_from c1 \<noteq> -1" for es
    using assms by (cases p; cases "fc_options c = PHI_CUE_GAP_PREV1"; cases "fc_options c = PHI_CUE_GAP_CURR")
      (simp_all add: tr track_events_def ffcue_index_def gap_start_def marks_ok_def, (intro exI conjI, rule refl, simp_all)+)
  then obtain c1 where c1: "cue_run c (CueFile # track_events tr @ concat (map track_events trs) @ [CueFinal])
      = cue_run c1 (concat (map track_events trs) @ [CueFinal])" "\<not> fc_first c1" "fc_options c1 = fc_options c"
    "fc_from c1 = gap_start (fc_options c) True tr" "fc_from c1 \<noteq> -1" by blast
  show ?thesis using cue_run_tracks [OF c1(2,5), of trs] assms c1(1,3,4) by (simp add: sheet_events_def)
qed

theorem cue_tracks_by_gap_option_witness:
  "cue_run \<lparr>fc_options = PHI_CUE_GAP_SKIP, fc_from = 0, fc_trk = \<lparr>ct_from = 0, ct_to = 0\<rparr>, fc_first = False, fc_next = False\<rparr>
     (sheet_events [(None, 0), (Some 900, 1000), (None, 2000)])
   = [\<lparr>ct_from = 0, ct_to = 900\<rparr>, \<lparr>ct_from = 1000, ct_to = 2000\<rparr>, \<lparr>ct_from = 2000, ct_to = 0\<rparr>]"
  by (subst cue_tracks_by_gap_option) (simp_all add: marks_ok_def gap_start_def gap_end_def gap_defs)

text \<open>
  In the first track of a file, an index mark behind \<open>INDEX 01\<close> is taken for the start of the next track,
  because \<open>next\<close> is set for later tracks only.
\<close>
lemma cue_first_track_second_index:
  assumes "marks_ok (None, i)"
  shows "cue_run c [CueFile, CueTrkNum, CueIndex i, CueIndex j, CueTrkNum, CueIndex k, CueFinal]
    = [\<lparr>ct_from = i, ct_to = j\<rparr>, \<lparr>ct_from = j, ct_to = k\<rparr>, \<lparr>ct_from = k, ct_to = 0\<rparr>]"
  using assms by (simp add: ffcue_index_def marks_ok_def Let_def)

text \<open>In a sheet with two files, the last track of the first file is never reported.\<close>
lemma cue_two_files_lose_track:
  assumes "marks_ok (None, i)" and "marks_ok (None, j)"
  shows "cue_run c [CueFile, CueTrkNum, CueIndex i, CueFile, CueTrkNum, CueIndex j, CueFinal] = [\<lparr>ct_from = j, ct_to = 0\<rparr>]"
  using assms by (simp add: ffcue_index_def marks_ok_def Let_def)

text \<open>
  The hook shortens the limit of a track to whole seconds, and moves a seek request by whole seconds only:
  up to 74 frames are cut from the end.
\<close>
lemma cuehook_until_whole_seconds:
  assumes "c_until_cdframes (t_conf t) = c_seek_cdframes (t_conf t) + 149" and "c_until_cdframes (t_conf t) \<noteq> 0"
  shows "c_until_msec (t_conf (snd (cuehook_open t))) = c_until_msec (t_conf t) + 1000"
  using assms by (simp add: cuehook_open_def cdframes_to_msec_def Let_def)

end
