(* ===== verification/Fntree.thy ===== *)
theory Fntree
  imports Prelude
begin

text \<open>
  \<open>src/util/fntree.h\<close>: a tree of file names. A block holds the path of a directory and its entries, one
  behind the other at growing byte offsets; an entry may point to the block of a subdirectory.

  The store maps the address of an allocated block to the block; a read of an address that is
  not allocated, a second \<open>free\<close> and a store outside of a block are faults, the value \<open>None\<close>. The
  layout is that of a 64-bit system: a block header of 16 bytes and a name at offset 11 of its
  entry. \<open>A\<close> stands for \<open>ffint_align_ceil2\<close>, \<open>al\<close> and \<open>re\<close> for the allocator.
  The fields of type \<open>ffuint\<close> are natural numbers with the reduction written out.
\<close>

section \<open>Blocks and entries\<close>

definition uint32 :: "nat \<Rightarrow> nat" where "uint32 n = n mod 2 ^ 32"

record fntree_entry =
  e_children :: "nat option"
  e_name :: string
  e_data_len :: nat

record fntree_block =
  b_cap :: nat
  b_size :: nat
  b_path_len :: nat
  b_entries :: nat
  b_path :: string
  b_ents :: "nat \<rightharpoonup> fntree_entry"

type_synonym fn_store = "nat \<rightharpoonup> fntree_block"
type_synonym ent_ptr = "nat \<times> nat"
type_synonym align = "nat \<Rightarrow> nat \<Rightarrow> nat"

text \<open>The documented behaviour of the alignment macro and of the allocator.\<close>
definition align_law :: "align \<Rightarrow> bool" where
  "align_law A \<longleftrightarrow> (\<forall>n. A n 8 = (n + 7) div 8 * 8) \<and> (\<forall>n. A n 512 = (n + 511) div 512 * 512)"

definition realloc_law :: "(fn_store \<Rightarrow> nat \<Rightarrow> nat \<Rightarrow> nat option) \<Rightarrow> bool" where
  "realloc_law re \<longleftrightarrow> (\<forall>M a cap a'. re M a cap = Some a' \<longrightarrow> a' = a \<or> M a' = None)"

definition ent :: "fn_store \<Rightarrow> ent_ptr \<Rightarrow> fntree_entry option" where
  "ent M p = (case M (fst p) of None \<Rightarrow> None | Some b \<Rightarrow> b_ents b (snd p))"

definition fntree_data :: "ent_ptr \<Rightarrow> fntree_entry \<Rightarrow> ent_ptr" where
  "fntree_data p e = (fst p, snd p + 11 + length (e_name e))"

definition fntr_ent_size :: "align \<Rightarrow> nat \<Rightarrow> nat \<Rightarrow> nat" where
  "fntr_ent_size A name_len data_len = A (11 + 1 + name_len + data_len) 8"

definition fntr_ent_first :: "align \<Rightarrow> fntree_block \<Rightarrow> nat" where
  "fntr_ent_first A b = 16 + A (b_path_len b + 1) 8"

definition fntr_ent_next :: "align \<Rightarrow> nat \<Rightarrow> fntree_entry \<Rightarrow> nat" where
  "fntr_ent_next A off e = off + A (11 + 1 + length (e_name e) + e_data_len e) 8"

definition fntr_ent_end :: "fntree_block \<Rightarrow> nat" where
  "fntr_ent_end b = b_size b"

text \<open>The new store and the pointer that is returned.\<close>
definition fntree_create :: "align \<Rightarrow> (fn_store \<Rightarrow> nat \<Rightarrow> nat option) \<Rightarrow> fn_store \<Rightarrow> string \<Rightarrow> (fn_store \<times> nat option) option" where
  "fntree_create A al M path =
     (let cap = uint32 (A (uint32 (max (length path + 1) 512)) 512) in
      case al M cap of
        None \<Rightarrow> Some (M, None)
      | Some a \<Rightarrow>
          if cap < 16 + length path + 1 then None
          else Some (M(a \<mapsto> \<lparr>b_cap = cap, b_size = uint32 (A (16 + uint32 (length path) + 1) 8),
                 b_path_len = uint32 (length path), b_entries = 0, b_path = path, b_ents = Map.empty\<rparr>), Some a))"

definition fntree_path :: "fntree_block \<Rightarrow> string" where
  "fntree_path b = take (b_path_len b) (b_path b)"

text \<open>The room for a new entry: the block may move. \<open>None\<close>: no memory.\<close>
definition fntr_grow ::
    "(fn_store \<Rightarrow> nat \<Rightarrow> nat \<Rightarrow> nat option) \<Rightarrow> fn_store \<Rightarrow> nat \<Rightarrow> fntree_block \<Rightarrow> nat \<Rightarrow> (fn_store \<times> nat \<times> fntree_block) option" where
  "fntr_grow re M a b newsize =
     (if b_cap b < newsize then
        (let cap = uint32 (b_cap b * 2); b1 = b\<lparr>b_cap := cap\<rparr> in
         map_option (\<lambda>a1. (M(a := None, a1 \<mapsto> b1), a1, b1)) (re M a cap))
      else Some (M, a, b))"

text \<open>The store, \<open>*pb\<close> and the pointer that is returned.\<close>
definition fntree_add ::
    "align \<Rightarrow> (fn_store \<Rightarrow> nat \<Rightarrow> nat \<Rightarrow> nat option) \<Rightarrow> fn_store \<Rightarrow> nat \<Rightarrow> string \<Rightarrow> nat \<Rightarrow> (fn_store \<times> nat \<times> ent_ptr option) option" where
  "fntree_add A re M a name data_len =
     (if length name > 0xffff \<or> data_len > 255 then Some (M, a, None)
      else case M a of
        None \<Rightarrow> None
      | Some b \<Rightarrow>
          (let newsize = uint32 (b_size b + fntr_ent_size A (length name) data_len) in
           case fntr_grow re M a b newsize of
             None \<Rightarrow> Some (M, a, None)
           | Some (M1, a1, b1) \<Rightarrow>
               (let e = fntr_ent_end b1 in
                if b_cap b1 < e + 11 + length name then None
                else Some (M1(a1 \<mapsto> b1\<lparr>b_ents := (b_ents b1)(e \<mapsto> \<lparr>e_children = None, e_name = name, e_data_len = data_len\<rparr>),
                         b_entries := uint32 (b_entries b1 + 1), b_size := newsize\<rparr>), a1, Some (a1, e)))))"

text \<open>\<open>fntree_attach\<close>: the store and the old pointer.\<close>
definition fntree_attach :: "fn_store \<Rightarrow> ent_ptr \<Rightarrow> nat option \<Rightarrow> (fn_store \<times> nat option) option" where
  "fntree_attach M p b =
     (case M (fst p) of
        None \<Rightarrow> None
      | Some k \<Rightarrow>
          (case b_ents k (snd p) of
             None \<Rightarrow> None
           | Some e \<Rightarrow> Some (M(fst p \<mapsto> k\<lparr>b_ents := (b_ents k)(snd p \<mapsto> e\<lparr>e_children := b\<rparr>)\<rparr>), e_children e)))"

definition fntree_entries :: "fntree_block \<Rightarrow> nat" where
  "fntree_entries b = b_entries b"

definition fntree_name :: "fntree_entry \<Rightarrow> string" where
  "fntree_name e = e_name e"

section \<open>Cursors\<close>

text \<open>\<open>curblock\<close>: null, a block or the mark \<open>(void*)-1\<close>.\<close>
datatype cur_block = CbNull | CbAt nat | CbMark

text \<open>The two stacks \<open>block_stk\<close> and \<open>ent_stk\<close> as one list, the top first; its length is \<open>depth\<close>.\<close>
record fntree_cursor =
  c_cur :: "ent_ptr option"
  c_curblock :: cur_block
  c_stk :: "(nat \<times> ent_ptr) list"

definition cursor_zero :: fntree_cursor where
  "cursor_zero = \<lparr>c_cur = None, c_curblock = CbNull, c_stk = []\<rparr>"

definition fntree_cur_depth :: "fntree_cursor \<Rightarrow> nat" where
  "fntree_cur_depth c = length (c_stk c)"

definition fntree_cur_next :: "align \<Rightarrow> fn_store \<Rightarrow> fntree_cursor \<Rightarrow> nat \<Rightarrow> (fntree_cursor \<times> ent_ptr option) option" where
  "fntree_cur_next A M c b =
     (case M b of
        None \<Rightarrow> None
      | Some k \<Rightarrow>
          (case (case c_cur c of
                   None \<Rightarrow> Some (b, fntr_ent_first A k)
                 | Some p \<Rightarrow> map_option (\<lambda>e. (fst p, fntr_ent_next A (snd p) e)) (ent M p)) of
             None \<Rightarrow> None
           | Some p \<Rightarrow> if p = (b, fntr_ent_end k) then Some (c, None) else Some (c\<lparr>c_cur := Some p\<rparr>, Some p)))"

definition FNTR_DEPTH :: nat where "FNTR_DEPTH = 64"

text \<open>The subdirectory pointer of the entry is read by the caller; it is passed as \<open>ch\<close>.\<close>
definition fntr_cur_push :: "fntree_cursor \<Rightarrow> nat \<Rightarrow> ent_ptr \<Rightarrow> nat \<Rightarrow> fntree_cursor \<times> nat option" where
  "fntr_cur_push c b p ch =
     (if fntree_cur_depth c = FNTR_DEPTH then (c, None)
      else (\<lparr>c_cur = None, c_curblock = CbAt ch, c_stk = (b, p) # c_stk c\<rparr>, Some ch))"

fun fntr_cur_pop :: "fntree_cursor \<Rightarrow> fntree_cursor \<times> nat option" where
  "fntr_cur_pop c =
     (case c_stk c of
        [] \<Rightarrow> (c, None)
      | (b, p) # stk \<Rightarrow> (\<lparr>c_cur = Some p, c_curblock = CbAt b, c_stk = stk\<rparr>, Some b))"

text \<open>The loop of \<open>fntree_cur_next_r\<close>: the next entry, in this block or in one above.\<close>
function fntr_climb :: "align \<Rightarrow> fn_store \<Rightarrow> fntree_cursor \<Rightarrow> nat \<Rightarrow> (fntree_cursor \<times> (nat \<times> ent_ptr) option) option" where
  "fntr_climb A M c b =
     (case fntree_cur_next A M c b of
        None \<Rightarrow> None
      | Some (c1, Some p) \<Rightarrow> Some (c1, Some (b, p))
      | Some (c1, None) \<Rightarrow>
          (case fntr_cur_pop c1 of
             (c2, None) \<Rightarrow> Some (c2, None)
           | (c2, Some b1) \<Rightarrow> fntr_climb A M c2 b1))"
  by pat_completeness auto
termination
  by (relation "measure (\<lambda>(A, M, c, b). length (c_stk c))")
    (auto simp: fntree_cur_next_def split: option.splits if_splits list.splits)

declare fntr_climb.simps [simp del]

text \<open>\<open>curblock\<close> of a cursor that starts at \<open>root\<close>; \<open>None\<close>: the mark is not a block.\<close>
definition start_block :: "fntree_cursor \<Rightarrow> nat \<Rightarrow> (fntree_cursor \<times> nat) option" where
  "start_block c root =
     (case c_curblock c of
        CbNull \<Rightarrow> Some (c\<lparr>c_curblock := CbAt root\<rparr>, root)
      | CbAt b \<Rightarrow> Some (c, b)
      | CbMark \<Rightarrow> None)"

text \<open>The block of the entry (\<open>*root\<close> on return) and the entry.\<close>
definition fntree_cur_next_r :: "align \<Rightarrow> fn_store \<Rightarrow> fntree_cursor \<Rightarrow> nat \<Rightarrow> (fntree_cursor \<times> (nat \<times> ent_ptr) option) option" where
  "fntree_cur_next_r A M c root =
     (case start_block c root of
        None \<Rightarrow> None
      | Some (c1, b) \<Rightarrow>
          (case c_cur c of
             None \<Rightarrow> fntr_climb A M c1 b
           | Some p \<Rightarrow>
               (case ent M p of
                  None \<Rightarrow> None
                | Some e \<Rightarrow>
                    (case e_children e of
                       None \<Rightarrow> fntr_climb A M c1 b
                     | Some ch \<Rightarrow>
                         (case fntr_cur_push c1 b p ch of
                            (c2, None) \<Rightarrow> Some (c2, None)
                          | (c2, Some b1) \<Rightarrow> fntr_climb A M c2 b1)))))"

text \<open>
  \<open>fntree_cur_next_r_ctx\<close>: the inner loop scans a block again for the first subdirectory; both loops
  take fuel. The push is not checked by the code: at the full depth the next step reads
  through a null pointer.
\<close>
fun fntr_subdir :: "nat \<Rightarrow> align \<Rightarrow> fn_store \<Rightarrow> fntree_cursor \<Rightarrow> nat \<Rightarrow> (fntree_cursor \<times> nat option option) option" where
  "fntr_subdir 0 A M c b = None"
| "fntr_subdir (Suc n) A M c b =
     (case fntree_cur_next A M c b of
        None \<Rightarrow> None
      | Some (c1, None) \<Rightarrow>
          (case fntr_cur_pop c1 of
             (c2, None) \<Rightarrow> Some (c2, None)
           | (c2, Some b1) \<Rightarrow> fntr_subdir n A M c2 b1)
      | Some (c1, Some p) \<Rightarrow>
          (case ent M p of
             None \<Rightarrow> None
           | Some e \<Rightarrow>
               (case e_children e of
                  None \<Rightarrow> fntr_subdir n A M c1 b
                | Some ch \<Rightarrow> (case fntr_cur_push c1 b p ch of (c2, b1) \<Rightarrow> Some (c2, Some b1)))))"

fun fntr_ctx :: "nat \<Rightarrow> align \<Rightarrow> fn_store \<Rightarrow> fntree_cursor \<Rightarrow> nat \<Rightarrow> (fntree_cursor \<times> (nat \<times> ent_ptr) option) option" where
  "fntr_ctx 0 A M c b = None"
| "fntr_ctx (Suc n) A M c b =
     (case fntree_cur_next A M c b of
        None \<Rightarrow> None
      | Some (c1, Some p) \<Rightarrow> Some (c1, Some (b, p))
      | Some (c1, None) \<Rightarrow>
          (case fntr_subdir n A M (c1\<lparr>c_cur := None\<rparr>) b of
             None \<Rightarrow> None
           | Some (c2, None) \<Rightarrow> Some (c2, None)
           | Some (c2, Some None) \<Rightarrow> None
           | Some (c2, Some (Some b1)) \<Rightarrow> fntr_ctx n A M c2 b1))"

definition fntree_cur_next_r_ctx ::
    "nat \<Rightarrow> align \<Rightarrow> fn_store \<Rightarrow> fntree_cursor \<Rightarrow> nat \<Rightarrow> (fntree_cursor \<times> (nat \<times> ent_ptr) option) option" where
  "fntree_cur_next_r_ctx n A M c root =
     (case start_block c root of None \<Rightarrow> None | Some (c1, b) \<Rightarrow> fntr_ctx n A M c1 b)"

text \<open>The loop of \<open>_fntr_blk_next_r_post\<close>: down to a block without further subdirectories.\<close>
fun fntr_descend :: "nat \<Rightarrow> align \<Rightarrow> fn_store \<Rightarrow> fntree_cursor \<Rightarrow> nat \<Rightarrow> (fntree_cursor \<times> nat option) option" where
  "fntr_descend 0 A M c b = None"
| "fntr_descend (Suc n) A M c b =
     (case fntree_cur_next A M c b of
        None \<Rightarrow> None
      | Some (c1, None) \<Rightarrow>
          (case c_curblock c1 of CbAt b1 \<Rightarrow> Some (c1\<lparr>c_curblock := CbMark\<rparr>, Some b1) | _ \<Rightarrow> None)
      | Some (c1, Some p) \<Rightarrow>
          (case ent M p of
             None \<Rightarrow> None
           | Some e \<Rightarrow>
               (case e_children e of
                  None \<Rightarrow> fntr_descend n A M c1 b
                | Some ch \<Rightarrow>
                    (case fntr_cur_push c1 b p ch of
                       (c2, None) \<Rightarrow> Some (c2, None)
                     | (c2, Some b1) \<Rightarrow> fntr_descend n A M c2 b1))))"

definition fntr_blk_next_r_post ::
    "nat \<Rightarrow> align \<Rightarrow> fn_store \<Rightarrow> fntree_cursor \<Rightarrow> nat option \<Rightarrow> (fntree_cursor \<times> nat option) option" where
  "fntr_blk_next_r_post n A M c root =
     (case c_curblock c of
        CbNull \<Rightarrow>
          (case root of None \<Rightarrow> None | Some b \<Rightarrow> fntr_descend n A M (c\<lparr>c_curblock := CbAt b\<rparr>) b)
      | CbAt b \<Rightarrow> fntr_descend n A M c b
      | CbMark \<Rightarrow>
          (case fntr_cur_pop c of
             (c1, None) \<Rightarrow> Some (c1, None)
           | (c1, Some b) \<Rightarrow> fntr_descend n A M c1 b))"

text \<open>
  The loop of \<open>fntree_free_all\<close>: \<open>m\<close> is the fuel of this loop, \<open>n\<close> that of the loop above. \<open>log\<close> are
  the blocks in the order in which they are freed; freeing a block that is not allocated is a fault.
\<close>
fun fntr_free_loop ::
    "nat \<Rightarrow> nat \<Rightarrow> align \<Rightarrow> fn_store \<Rightarrow> fntree_cursor \<Rightarrow> nat option \<Rightarrow> nat list \<Rightarrow> (fn_store \<times> nat list) option" where
  "fntr_free_loop 0 n A M c b log = None"
| "fntr_free_loop (Suc m) n A M c b log =
     (case fntr_blk_next_r_post n A M c b of
        None \<Rightarrow> None
      | Some (c1, None) \<Rightarrow> Some (M, log)
      | Some (c1, Some b1) \<Rightarrow> if M b1 = None then None else fntr_free_loop m n A (M(b1 := None)) c1 None (log @ [b1]))"

definition fntree_free_all :: "nat \<Rightarrow> nat \<Rightarrow> align \<Rightarrow> fn_store \<Rightarrow> nat option \<Rightarrow> (fn_store \<times> nat list) option" where
  "fntree_free_all m n A M b =
     (if b = None then Some (M, []) else fntr_free_loop m n A M cursor_zero b [])"

text \<open>
  \<open>fntree_from_dirscan\<close>: \<open>ds\<close> are the names the scan delivers. The code does not test whether the
  block was created; adding to a null pointer is a fault.
\<close>
fun fntr_add_all ::
    "nat \<Rightarrow> align \<Rightarrow> (fn_store \<Rightarrow> nat \<Rightarrow> nat \<Rightarrow> nat option) \<Rightarrow> fn_store \<Rightarrow> nat option \<Rightarrow> string list \<Rightarrow> nat \<Rightarrow> (fn_store \<times> nat option) option" where
  "fntr_add_all n A re M b [] data_len = Some (M, b)"
| "fntr_add_all n A re M b (fn # ds) data_len =
     (case b of
        None \<Rightarrow> None
      | Some a \<Rightarrow>
          (case fntree_add A re M a fn data_len of
             None \<Rightarrow> None
           | Some (M1, a1, None) \<Rightarrow> map_option (\<lambda>(M2, _). (M2, None)) (fntree_free_all n n A M1 (Some a1))
           | Some (M1, a1, Some _) \<Rightarrow> fntr_add_all n A re M1 (Some a1) ds data_len))"

definition fntree_from_dirscan ::
    "nat \<Rightarrow> align \<Rightarrow> (fn_store \<Rightarrow> nat \<Rightarrow> nat option) \<Rightarrow> (fn_store \<Rightarrow> nat \<Rightarrow> nat \<Rightarrow> nat option) \<Rightarrow> fn_store \<Rightarrow> string \<Rightarrow> string list \<Rightarrow> nat
     \<Rightarrow> (fn_store \<times> nat option) option" where
  "fntree_from_dirscan n A al re M path ds data_len =
     (case fntree_create A al M path of
        None \<Rightarrow> None
      | Some (M1, b) \<Rightarrow> fntr_add_all n A re M1 b ds data_len)"

section \<open>Comparison of two trees\<close>

datatype fntree_cmp_res = FNTREE_CMP_DONE | FNTREE_CMP_EQ | FNTREE_CMP_LEFT | FNTREE_CMP_RIGHT | FNTREE_CMP_NEQ

record fntree_cmp =
  cmp_l :: fntree_cursor
  cmp_r :: fntree_cursor

definition fntree_cmp_init :: "align \<Rightarrow> fn_store \<Rightarrow> nat \<Rightarrow> nat \<Rightarrow> fntree_cmp option" where
  "fntree_cmp_init A M lb rb =
     (case (fntree_cur_next A M cursor_zero lb, fntree_cur_next A M cursor_zero rb) of
        (Some (l, _), Some (r, _)) \<Rightarrow> Some \<lparr>cmp_l = l\<lparr>c_curblock := CbAt lb\<rparr>, cmp_r = r\<lparr>c_curblock := CbAt rb\<rparr>\<rparr>
      | _ \<Rightarrow> None)"

text \<open>\<open>cmp2\<close> is \<open>ffstr_cmp2\<close>, \<open>f\<close> the function of the caller.\<close>
definition fntree_cmp1 ::
    "(string \<Rightarrow> string \<Rightarrow> int) \<Rightarrow> (fntree_entry \<Rightarrow> fntree_entry \<Rightarrow> fntree_cmp_res) \<Rightarrow> fntree_entry option \<Rightarrow> fntree_entry option \<Rightarrow> fntree_cmp_res" where
  "fntree_cmp1 cmp2 f l r =
     (case (l, r) of
        (None, None) \<Rightarrow> FNTREE_CMP_DONE
      | (None, Some _) \<Rightarrow> FNTREE_CMP_RIGHT
      | (Some _, None) \<Rightarrow> FNTREE_CMP_LEFT
      | (Some le, Some ri) \<Rightarrow>
          (let i = cmp2 (fntree_name le) (fntree_name ri) in
           if i < 0 then FNTREE_CMP_LEFT else if i > 0 then FNTREE_CMP_RIGHT else f le ri))"

text \<open>An entry that is compared is read; \<open>None\<close>: it is not allocated.\<close>
definition ent_opt :: "fn_store \<Rightarrow> ent_ptr option \<Rightarrow> fntree_entry option option" where
  "ent_opt M p = (case p of None \<Rightarrow> Some None | Some q \<Rightarrow> map_option Some (ent M q))"

text \<open>The cursor moves with \<open>c->lc.cur = fntree_cur_next_r(&c->lc, ...)\<close> unless it is at its end.\<close>
definition cmp_move :: "align \<Rightarrow> fn_store \<Rightarrow> bool \<Rightarrow> fntree_cursor \<Rightarrow> fntree_cursor option" where
  "cmp_move A M mv c =
     (if mv \<and> c_cur c \<noteq> None
      then map_option (\<lambda>(c1, e). c1\<lparr>c_cur := map_option snd e\<rparr>) (fntree_cur_next_r A M c 0)
      else Some c)"

definition fntree_cmp_next ::
    "align \<Rightarrow> (string \<Rightarrow> string \<Rightarrow> int) \<Rightarrow> (fntree_entry \<Rightarrow> fntree_entry \<Rightarrow> fntree_cmp_res) \<Rightarrow> fn_store \<Rightarrow> fntree_cmp
     \<Rightarrow> (fntree_cmp \<times> ent_ptr option \<times> ent_ptr option \<times> fntree_cmp_res) option" where
  "fntree_cmp_next A cmp2 f M c =
     (let l = c_cur (cmp_l c); r = c_cur (cmp_r c);
          dl = fntree_cur_depth (cmp_l c); dr = fntree_cur_depth (cmp_r c);
          l1 = (if dl < dr then None else l); r1 = (if dr < dl then None else r)
      in case (ent_opt M l1, ent_opt M r1) of
           (Some le, Some re) \<Rightarrow>
             (let i = fntree_cmp1 cmp2 f le re in
              case (cmp_move A M (i \<noteq> FNTREE_CMP_RIGHT) (cmp_l c), cmp_move A M (i \<noteq> FNTREE_CMP_LEFT) (cmp_r c)) of
                (Some lc, Some rc) \<Rightarrow> Some (\<lparr>cmp_l = lc, cmp_r = rc\<rparr>, l, r, i)
              | _ \<Rightarrow> None)
         | _ \<Rightarrow> None)"

section \<open>Creating a block\<close>

lemma ceil8: "align_law A \<Longrightarrow> A n 8 = (n + 7) div 8 * 8"
  by (simp add: align_law_def)

lemma ceil512: "align_law A \<Longrightarrow> A n 512 = (n + 511) div 512 * 512"
  by (simp add: align_law_def)

lemma ceil8_le_512:
  fixes x k :: nat
  assumes "x \<le> k * 512"
  shows "(x + 7) div 8 * 8 \<le> k * 512"
proof -
  have "(x + 7) div 8 \<le> (k * 512 + 7) div 8" using assms by (intro div_le_mono) simp
  also have "\<dots> = k * 64" by simp
  finally show ?thesis by simp
qed

lemma create_cap:
  assumes "align_law A" and "n < 2 ^ 31"
  shows "uint32 (A (uint32 (max (n + 1) 512)) 512) = (max (n + 1) 512 + 511) div 512 * 512"
proof -
  have "max (n + 1) 512 < 2 ^ 32" "(max (n + 1) 512 + 511) div 512 * 512 < 2 ^ 32" using assms(2) by auto
  then show ?thesis using assms(1) by (simp add: uint32_def ceil512)
qed

lemma create_cap_overflow:
  fixes n :: nat
  shows "(max (n + 1) 512 + 511) div 512 * 512 < 16 + n + 1 \<longleftrightarrow> 496 \<le> n mod 512"
proof (cases "n < 512")
  case True
  then have "max (n + 1) 512 = 512" by simp
  then show ?thesis using True by auto
next
  case False
  have n: "n = 512 * (n div 512) + n mod 512" by simp
  have "(n + 1 + 511) div 512 = n div 512 + 1" by simp
  then have "(max (n + 1) 512 + 511) div 512 * 512 = 512 * (n div 512) + 512" using False by (simp add: max_def)
  then show ?thesis using n by linarith
qed

definition new_block :: "nat \<Rightarrow> string \<Rightarrow> fntree_block" where
  "new_block cap path = \<lparr>b_cap = cap, b_size = (16 + length path + 1 + 7) div 8 * 8, b_path_len = length path,
     b_entries = 0, b_path = path, b_ents = Map.empty\<rparr>"

lemma fntree_create_eq:
  assumes "align_law A" and "length path < 2 ^ 31" and "cap = (max (length path + 1) 512 + 511) div 512 * 512"
    and "al M cap = Some a"
  shows "fntree_create A al M path = (if length path mod 512 < 496 then Some (M(a \<mapsto> new_block cap path), Some a) else None)"
proof -
  have "uint32 (length path) = length path" "uint32 (A (16 + length path + 1) 8) = (16 + length path + 1 + 7) div 8 * 8"
    using assms(1,2) by (simp_all add: uint32_def ceil8)
  then show ?thesis
    using create_cap [OF assms(1,2)] create_cap_overflow [of "length path"] assms(3,4)
    by (simp add: fntree_create_def new_block_def not_less [symmetric])
qed

lemma new_block_facts:
  assumes "align_law A" and "length path mod 512 < 496" and "cap = (max (length path + 1) 512 + 511) div 512 * 512"
  shows "fntr_ent_first A (new_block cap path) = b_size (new_block cap path)" and "b_size (new_block cap path) \<le> cap" and "512 \<le> cap"
proof -
  show "fntr_ent_first A (new_block cap path) = b_size (new_block cap path)"
  proof -
    have "(16 + length path + 1 + 7) div 8 = (8 + length path + 2 * 8) div 8" by (simp add: ac_simps)
    also have "\<dots> = (8 + length path) div 8 + 2" by (subst div_mult_self1) simp_all
    finally show ?thesis using assms(1) by (simp add: fntr_ent_first_def new_block_def ceil8)
  qed
  have "16 + length path + 1 \<le> cap" using assms(2,3) create_cap_overflow [of "length path"] by simp
  then show "b_size (new_block cap path) \<le> cap" using ceil8_le_512 assms(3) by (simp add: new_block_def)
  have "1 \<le> (max (length path + 1) 512 + 511) div 512" by (subst less_eq_div_iff_mult_less_eq) simp_all
  then show "512 \<le> cap" using assms(3) by simp
qed

text \<open>
  Creating a block. The block is created with the given path and no entries exactly when the
  length of the path, modulo 512, is below 496; for the sixteen lengths above, the size of the header was not
  counted in the allocation, and the path (or its terminating zero) is written past the end of the block.
\<close>

theorem fntree_create_bounds:
  assumes "align_law A" and "al M ((max (length path + 1) 512 + 511) div 512 * 512) = Some a" and "length path < 2 ^ 31"
  shows "if length path mod 512 < 496
    then \<exists>b. fntree_create A al M path = Some (M(a \<mapsto> b), Some a) \<and> fntree_path b = path \<and> fntree_entries b = 0
           \<and> fntr_ent_first A b = fntr_ent_end b \<and> fntr_ent_end b \<le> b_cap b
    else fntree_create A al M path = None"
  using fntree_create_eq [where al = al and M = M and a = a, OF assms(1,3) refl assms(2)] new_block_facts [OF assms(1) _ refl, of path]
  by (auto simp: fntree_path_def fntree_entries_def fntr_ent_end_def new_block_def intro!: exI)

definition demo_align :: align where
  "demo_align n k = (n + k - 1) div k * k"

lemma demo_align_law: "align_law demo_align"
  by (simp add: align_law_def demo_align_def add.commute)

theorem fntree_create_bounds_witness:
  "fntree_create demo_align (\<lambda>_ _. Some 7) Map.empty (replicate 500 CHR ''a'') = None"
  using fntree_create_bounds [OF demo_align_law, of "\<lambda>_ _. Some 7" Map.empty "replicate 500 CHR ''a''" 7] by simp

section \<open>Adding entries\<close>

text \<open>The entries of a block from an offset to its end.\<close>
fun ents_from :: "align \<Rightarrow> fntree_block \<Rightarrow> nat \<Rightarrow> fntree_entry list \<Rightarrow> bool" where
  "ents_from A b off [] \<longleftrightarrow> off = b_size b"
| "ents_from A b off (e # es) \<longleftrightarrow> b_ents b off = Some e \<and> off < b_size b \<and> ents_from A b (fntr_ent_next A off e) es"

text \<open>A block with a path and a list of entries; its size is within its capacity.\<close>
definition block_rep :: "align \<Rightarrow> fntree_block \<Rightarrow> string \<Rightarrow> fntree_entry list \<Rightarrow> bool" where
  "block_rep A b path es \<longleftrightarrow>
     b_path b = path \<and> b_path_len b = length path \<and> b_entries b = length es \<and> b_size b \<le> b_cap b \<and> 512 \<le> b_cap b
     \<and> ents_from A b (fntr_ent_first A b) es"

lemma ent_next_gt: "align_law A \<Longrightarrow> off < fntr_ent_next A off e"
  by (simp add: fntr_ent_next_def ceil8)

lemma ents_from_snoc:
  assumes "align_law A" and "ents_from A b off es"
    and "b' = b\<lparr>b_ents := (b_ents b)(b_size b \<mapsto> e), b_size := fntr_ent_next A (b_size b) e, b_cap := cap, b_entries := k\<rparr>"
  shows "ents_from A b' off (es @ [e])"
  using assms(2,3)
proof (induction es arbitrary: off)
  case Nil
  then show ?case using ent_next_gt [OF assms(1)] by simp
next
  case (Cons x es)
  have "b_size b < fntr_ent_next A (b_size b) e" using ent_next_gt [OF assms(1)] by simp
  then show ?case using Cons by auto
qed

text \<open>Adding succeeds when the allocator does and the entry is not larger than the block.\<close>
lemma fntree_add_appends:
  assumes "align_law A" and "realloc_law re" and "M a = Some b" and "block_rep A b path es"
    and "\<And>cap. re M a cap \<noteq> None" and "length name + dlen \<le> 500" and "dlen \<le> 255"
    and "b_size b + 512 < 2 ^ 31" and "length es + 1 < 2 ^ 32"
  shows "\<exists>a' b'. fntree_add A re M a name dlen = Some (M(a := None, a' \<mapsto> b'), a', Some (a', b_size b))
     \<and> block_rep A b' path (es @ [\<lparr>e_children = None, e_name = name, e_data_len = dlen\<rparr>]) \<and> b_size b' \<le> b_size b + 512
     \<and> (a' = a \<or> M a' = None)"
proof -
  let ?e = "\<lparr>e_children = None, e_name = name, e_data_len = dlen\<rparr>"
  let ?new = "fntr_ent_next A (b_size b) ?e"
  note rep = assms(4) [unfolded block_rep_def]
  have esz: "fntr_ent_size A (length name) dlen = (length name + dlen + 19) div 8 * 8"
    using assms(1) by (simp add: fntr_ent_size_def ceil8 ac_simps)
  have nx: "?new = b_size b + fntr_ent_size A (length name) dlen"
    by (simp add: fntr_ent_next_def fntr_ent_size_def)
  have le: "fntr_ent_size A (length name) dlen \<le> 512" "11 + length name \<le> fntr_ent_size A (length name) dlen"
    using assms(6) unfolding esz by presburger+
  have new: "uint32 (b_size b + fntr_ent_size A (length name) dlen) = ?new"
    using assms(8) le(1) nx by (simp add: uint32_def)
  define cap where "cap = (if b_cap b < ?new then b_cap b * 2 else b_cap b)"
  have capw: "b_cap b < ?new \<Longrightarrow> uint32 (b_cap b * 2) = cap" using assms(8) le(1) nx by (simp add: uint32_def cap_def)
  obtain a' where a': "fntr_grow re M a b ?new = Some (if b_cap b < ?new then M(a := None, a' \<mapsto> b\<lparr>b_cap := cap\<rparr>) else M, a', b\<lparr>b_cap := cap\<rparr>)"
    "a' = a \<or> M a' = None" "\<not> b_cap b < ?new \<longrightarrow> a' = a"
  proof (cases "b_cap b < ?new")
    case True
    obtain x where x: "re M a cap = Some x" using assms(5) by auto
    then show ?thesis using that [of x] True assms(2) capw unfolding realloc_law_def by (auto simp: fntr_grow_def Let_def)
  next
    case False
    then show ?thesis using that [of a] by (simp add: fntr_grow_def cap_def)
  qed
  have fit: "?new \<le> cap" "512 \<le> cap" using rep nx le(1) unfolding cap_def by auto
  define b' where "b' = b\<lparr>b_ents := (b_ents b)(b_size b \<mapsto> ?e), b_size := ?new, b_cap := cap, b_entries := length es + 1\<rparr>"
  have "fntree_add A re M a name dlen = Some (M(a := None, a' \<mapsto> b'), a', Some (a', b_size b))"
    using assms(3,6,7,9) new a' fit le nx rep
    by (auto simp: fntree_add_def Let_def fntr_ent_end_def b'_def uint32_def fun_upd_def)
  moreover have "block_rep A b' path (es @ [?e])"
    using rep fit ents_from_snoc [OF assms(1) conjunct2 [OF conjunct2 [OF conjunct2 [OF conjunct2 [OF conjunct2 [OF rep]]]]], of b']
    by (simp add: block_rep_def b'_def fntr_ent_first_def)
  ultimately show ?thesis using a'(2) le(1) nx by (intro exI [of _ a'] exI [of _ b']) (simp add: b'_def)
qed

text \<open>The names that \<open>fntree_cur_next\<close> delivers for a block, one call after the other.\<close>
fun block_scan :: "nat \<Rightarrow> align \<Rightarrow> fn_store \<Rightarrow> fntree_cursor \<Rightarrow> nat \<Rightarrow> string list option" where
  "block_scan 0 A M c b = None"
| "block_scan (Suc n) A M c b =
     (case fntree_cur_next A M c b of
        None \<Rightarrow> None
      | Some (c1, None) \<Rightarrow> Some []
      | Some (c1, Some p) \<Rightarrow>
          (case ent M p of None \<Rightarrow> None | Some e \<Rightarrow> map_option ((#) (fntree_name e)) (block_scan n A M c1 b)))"

text \<open>The offset at which the cursor continues in its block.\<close>
definition next_off :: "align \<Rightarrow> fn_store \<Rightarrow> ent_ptr option \<Rightarrow> nat \<Rightarrow> nat \<Rightarrow> bool" where
  "next_off A M cur b off \<longleftrightarrow>
     (case cur of
        None \<Rightarrow> (\<exists>k. M b = Some k \<and> off = fntr_ent_first A k)
      | Some p \<Rightarrow> fst p = b \<and> (\<exists>e. ent M p = Some e \<and> off = fntr_ent_next A (snd p) e))"

lemma cur_next_at:
  assumes "next_off A M (c_cur c) b off" and "M b = Some k"
  shows "fntree_cur_next A M c b = (if off = b_size k then Some (c, None) else Some (c\<lparr>c_cur := Some (b, off)\<rparr>, Some (b, off)))"
  using assms by (auto simp: fntree_cur_next_def next_off_def fntr_ent_end_def split: option.splits)

lemma next_off_ent: "ent M (b, o1) = Some e \<Longrightarrow> next_off A M (Some (b, o1)) b (fntr_ent_next A o1 e)"
  by (simp add: next_off_def)

lemma block_scan_ents:
  assumes "ents_from A k off es" and "M b = Some k" and "next_off A M (c_cur c) b off" and "length es < n"
  shows "block_scan n A M c b = Some (map e_name es)"
  using assms
proof (induction es arbitrary: off c n)
  case Nil
  then show ?case by (cases n) (simp_all add: cur_next_at)
next
  case (Cons e es)
  have e: "ent M (b, off) = Some e" using Cons.prems by (simp add: ent_def)
  then show ?case
    using Cons.prems Cons.IH [of "fntr_ent_next A off e" "c\<lparr>c_cur := Some (b, off)\<rparr>" "n - 1"]
    by (cases n) (simp_all add: cur_next_at next_off_ent fntree_name_def)
qed

lemma fntr_add_all_appends:
  assumes "align_law A" and "realloc_law re" and "\<And>M a cap. re M a cap \<noteq> None"
    and "M a = Some b" and "block_rep A b path es"
    and "\<forall>d \<in> set ds. length d + dlen \<le> 500" and "dlen \<le> 255"
    and "b_size b + 512 * (length ds + 1) < 2 ^ 31" and "length es + length ds < 2 ^ 32"
  shows "\<exists>M' a' b'. fntr_add_all n A re M (Some a) ds dlen = Some (M', Some a') \<and> M' a' = Some b'
     \<and> block_rep A b' path (es @ map (\<lambda>d. \<lparr>e_children = None, e_name = d, e_data_len = dlen\<rparr>) ds)"
  using assms(4-)
proof (induction ds arbitrary: M a b es)
  case (Cons d ds)
  obtain a' b' where s: "fntree_add A re M a d dlen = Some (M(a := None, a' \<mapsto> b'), a', Some (a', b_size b))"
    "block_rep A b' path (es @ [\<lparr>e_children = None, e_name = d, e_data_len = dlen\<rparr>])" "b_size b' \<le> b_size b + 512"
    using fntree_add_appends [of A re M a b path es d dlen] assms(1-3) Cons.prems by auto
  define M1 where "M1 = M(a := None, a' \<mapsto> b')"
  have "M1 a' = Some b'" by (simp add: M1_def)
  then show ?case
    using Cons.IH [of M1 a' b' "es @ [\<lparr>e_children = None, e_name = d, e_data_len = dlen\<rparr>]"] s [folded M1_def] Cons.prems by simp
qed auto

text \<open>
  Property C25: a directory that is read into a block is read back from it. For a path whose length passes
  the test above and names of at most 500 bytes together with the user data, the block created by
  \<open>fntree_from_dirscan\<close> has the path and the number of entries, and \<open>fntree_cur_next\<close> delivers
  exactly the names of the scan in their order, however often the block was moved while it grew.
\<close>

theorem fntree_dirscan_read_back:
  assumes "align_law A" and "realloc_law re" and "\<And>M a cap. re M a cap \<noteq> None" and "\<And>cap. al M cap = Some a"
    and "length path mod 512 < 496" and "\<forall>d \<in> set ds. length d + dlen \<le> 500" and "dlen \<le> 255"
    and "length path + 512 * (length ds + 2) < 2 ^ 31"
  shows "\<exists>M' a' b. fntree_from_dirscan n A al re M path ds dlen = Some (M', Some a') \<and> M' a' = Some b
     \<and> fntree_path b = path \<and> fntree_entries b = length ds \<and> b_size b \<le> b_cap b
     \<and> block_scan (length ds + 1) A M' cursor_zero a' = Some ds"
proof -
  define cap where "cap = (max (length path + 1) 512 + 511) div 512 * 512"
  let ?b = "new_block cap path"
  note nb = new_block_facts [OF assms(1,5) cap_def]
  have rep: "block_rep A ?b path []"
    using nb by (simp add: block_rep_def) (simp add: new_block_def)
  have "b_size ?b \<le> length path + 24" by (simp add: new_block_def)
  then obtain M' a' b where s: "fntr_add_all n A re (M(a \<mapsto> ?b)) (Some a) ds dlen = Some (M', Some a')" "M' a' = Some b"
    "block_rep A b path (map (\<lambda>d. \<lparr>e_children = None, e_name = d, e_data_len = dlen\<rparr>) ds)"
    using fntr_add_all_appends [OF assms(1,2,3), of "M(a \<mapsto> ?b)" a ?b path "[]" ds dlen n] rep assms(6-8) by auto
  have cr: "fntree_create A al M path = Some (M(a \<mapsto> ?b), Some a)"
    using fntree_create_eq [of A path cap al M a] assms(1,4,5,8) cap_def by simp
  have "block_scan (length ds + 1) A M' cursor_zero a' = Some ds"
    using block_scan_ents [of A b "fntr_ent_first A b" "map (\<lambda>d. \<lparr>e_children = None, e_name = d, e_data_len = dlen\<rparr>) ds"
        M' a' cursor_zero "length ds + 1"] s(2,3)
    by (simp add: block_rep_def cursor_zero_def next_off_def comp_def del: block_scan.simps)
  then show ?thesis using s cr by (intro exI [of _ M'] exI [of _ a'] exI [of _ b])
    (simp add: fntree_from_dirscan_def block_rep_def fntree_path_def fntree_entries_def)
qed

lemma demo_realloc_law: "realloc_law (\<lambda>M a cap. Some a)"
  by (simp add: realloc_law_def)

theorem fntree_dirscan_read_back_witness:
  "\<exists>M' a' b. fntree_from_dirscan 0 demo_align (\<lambda>_ _. Some 7) (\<lambda>M a cap. Some a) Map.empty ''/music'' [''a.ogg'', ''b.mp3''] 0
       = Some (M', Some a') \<and> M' a' = Some b
     \<and> fntree_path b = ''/music'' \<and> fntree_entries b = 2 \<and> b_size b \<le> b_cap b
     \<and> block_scan 3 demo_align M' cursor_zero a' = Some [''a.ogg'', ''b.mp3'']"
proof -
  have "length ''/music'' mod 512 < 496" "\<forall>d \<in> set [''a.ogg'', ''b.mp3'']. length d + 0 \<le> 500"
    "length ''/music'' + 512 * (length [''a.ogg'', ''b.mp3''] + 2) < 2 ^ 31" by simp_all
  from fntree_dirscan_read_back [OF demo_align_law demo_realloc_law _ _ this(1,2) _ this(3), of "\<lambda>_ _. Some 7" Map.empty 7 0]
  show ?thesis by (simp add: numeral_2_eq_2 numeral_3_eq_3 del: block_scan.simps)
qed

section \<open>Walking a tree\<close>

text \<open>
  The entries of a block from some entry on, with their subdirectories: a file, or a directory with the
  address of its block and the entries there, each followed by the rest of the block.
\<close>
datatype ftree = FLeaf | FFile nat ftree | FDir nat nat ftree ftree

fun ftree_at :: "align \<Rightarrow> fn_store \<Rightarrow> nat \<Rightarrow> nat \<Rightarrow> ftree \<Rightarrow> bool" where
  "ftree_at A M b off FLeaf \<longleftrightarrow> (case M b of None \<Rightarrow> False | Some k \<Rightarrow> off = b_size k)"
| "ftree_at A M b off (FFile o1 r) \<longleftrightarrow>
     o1 = off \<and> (case M b of None \<Rightarrow> False | Some k \<Rightarrow> off \<noteq> b_size k)
     \<and> (case ent M (b, off) of
          None \<Rightarrow> False
        | Some e \<Rightarrow> e_children e = None \<and> ftree_at A M b (fntr_ent_next A off e) r)"
| "ftree_at A M b off (FDir o1 ch s r) \<longleftrightarrow>
     o1 = off \<and> (case M b of None \<Rightarrow> False | Some k \<Rightarrow> off \<noteq> b_size k)
     \<and> (case ent M (b, off) of
          None \<Rightarrow> False
        | Some e \<Rightarrow> e_children e = Some ch \<and> ftree_at A M b (fntr_ent_next A off e) r)
     \<and> (case M ch of None \<Rightarrow> False | Some k \<Rightarrow> ftree_at A M ch (fntr_ent_first A k) s)"

text \<open>The block at \<open>b\<close> and everything below it.\<close>
definition tree_at :: "align \<Rightarrow> fn_store \<Rightarrow> nat \<Rightarrow> ftree \<Rightarrow> bool" where
  "tree_at A M b t \<longleftrightarrow> (case M b of None \<Rightarrow> False | Some k \<Rightarrow> ftree_at A M b (fntr_ent_first A k) t)"

fun ft_depth :: "ftree \<Rightarrow> nat" where
  "ft_depth FLeaf = 0"
| "ft_depth (FFile o1 r) = ft_depth r"
| "ft_depth (FDir o1 ch s r) = max (Suc (ft_depth s)) (ft_depth r)"

text \<open>Every directory before its contents: the pairs of a block and an entry of it.\<close>
fun preorder :: "nat \<Rightarrow> ftree \<Rightarrow> (nat \<times> ent_ptr) list" where
  "preorder b FLeaf = []"
| "preorder b (FFile o1 r) = (b, (b, o1)) # preorder b r"
| "preorder b (FDir o1 ch s r) = (b, (b, o1)) # preorder ch s @ preorder b r"

text \<open>The blocks on the stack with the rest of their entries.\<close>
fun stk_at :: "align \<Rightarrow> fn_store \<Rightarrow> (nat \<times> ent_ptr) list \<Rightarrow> ftree list \<Rightarrow> bool" where
  "stk_at A M [] [] \<longleftrightarrow> True"
| "stk_at A M ((b, p) # stk) (r # rs) \<longleftrightarrow>
     (\<exists>off. next_off A M (Some p) b off \<and> ftree_at A M b off r) \<and> length stk + ft_depth r \<le> FNTR_DEPTH \<and> stk_at A M stk rs"
| "stk_at A M _ _ \<longleftrightarrow> False"

fun stk_pre :: "(nat \<times> ent_ptr) list \<Rightarrow> ftree list \<Rightarrow> (nat \<times> ent_ptr) list" where
  "stk_pre ((b, p) # stk) (r # rs) = preorder b r @ stk_pre stk rs"
| "stk_pre _ _ = []"

text \<open>A cursor at an entry, and what is left to deliver after it.\<close>
definition cursor_at :: "align \<Rightarrow> fn_store \<Rightarrow> fntree_cursor \<Rightarrow> (nat \<times> ent_ptr) list \<Rightarrow> bool" where
  "cursor_at A M c P \<longleftrightarrow>
     (\<exists>b off e s r rs. c_cur c = Some (b, off) \<and> c_curblock c = CbAt b \<and> ent M (b, off) = Some e
        \<and> (case e_children e of None \<Rightarrow> True | Some ch \<Rightarrow> tree_at A M ch s \<and> Suc (length (c_stk c) + ft_depth s) \<le> FNTR_DEPTH)
        \<and> ftree_at A M b (fntr_ent_next A off e) r \<and> length (c_stk c) + ft_depth r \<le> FNTR_DEPTH \<and> stk_at A M (c_stk c) rs
        \<and> P = (case e_children e of None \<Rightarrow> [] | Some ch \<Rightarrow> preorder ch s) @ preorder b r @ stk_pre (c_stk c) rs)"

lemma ftree_at_block: "ftree_at A M b off t \<Longrightarrow> \<exists>k. M b = Some k"
  by (cases t) (auto split: option.splits)

lemma cursor_atI:
  assumes "ent M (b, off) = Some e" and "ftree_at A M b (fntr_ent_next A off e) r"
    and "length stk + ft_depth r \<le> FNTR_DEPTH" and "stk_at A M stk rs"
    and "\<And>ch. e_children e = Some ch \<Longrightarrow> tree_at A M ch s \<and> Suc (length stk + ft_depth s) \<le> FNTR_DEPTH"
  shows "cursor_at A M \<lparr>c_cur = Some (b, off), c_curblock = CbAt b, c_stk = stk\<rparr>
    ((case e_children e of None \<Rightarrow> [] | Some ch \<Rightarrow> preorder ch s) @ preorder b r @ stk_pre stk rs)"
  unfolding cursor_at_def using assms
  by (intro exI [of _ b] exI [of _ off] exI [of _ e] exI [of _ s] exI [of _ r] exI [of _ rs]) (auto split: option.split)

text \<open>The result of a step towards the list that is left to deliver.\<close>
fun delivers :: "align \<Rightarrow> fn_store \<Rightarrow> (fntree_cursor \<times> (nat \<times> ent_ptr) option) option \<Rightarrow> (nat \<times> ent_ptr) list \<Rightarrow> bool" where
  "delivers A M res [] \<longleftrightarrow> (\<exists>c'. res = Some (c', None))"
| "delivers A M res (x # P) \<longleftrightarrow> (\<exists>c'. res = Some (c', Some x) \<and> cursor_at A M c' P)"

text \<open>The block has a further entry.\<close>
lemma climb_here:
  assumes "next_off A M (c_cur c) b off" and "ftree_at A M b off r" and "c_curblock c = CbAt b"
    and "length (c_stk c) + ft_depth r \<le> FNTR_DEPTH" and "stk_at A M (c_stk c) rs" and "r \<noteq> FLeaf"
  shows "delivers A M (fntr_climb A M c b) (preorder b r @ stk_pre (c_stk c) rs)"
proof -
  obtain k where k: "M b = Some k" using ftree_at_block [OF assms(2)] by blast
  have ne: "off \<noteq> b_size k" using assms(2,6) k by (cases r) simp_all
  let ?c = "\<lparr>c_cur = Some (b, off), c_curblock = CbAt b, c_stk = c_stk c\<rparr>"
  have cl: "fntr_climb A M c b = Some (?c, Some (b, (b, off)))"
    using cur_next_at [OF assms(1) k] ne assms(3) by (simp add: fntr_climb.simps [of A M c b])
  show ?thesis
  proof (cases r)
    case FLeaf
    then show ?thesis using assms(6) by simp
  next
    case (FFile o1 r')
    then obtain e where e: "ent M (b, off) = Some e" "e_children e = None" "o1 = off" "ftree_at A M b (fntr_ent_next A off e) r'"
      using assms(2) by (auto split: option.splits)
    then show ?thesis using cursor_atI [OF e(1,4) _ assms(5), of FLeaf] assms(4) FFile cl by auto
  next
    case (FDir o1 ch s r')
    then obtain e where e: "ent M (b, off) = Some e" "e_children e = Some ch" "o1 = off" "ftree_at A M b (fntr_ent_next A off e) r'"
      "tree_at A M ch s"
      using assms(2) by (auto simp: tree_at_def split: option.splits)
    then show ?thesis using cursor_atI [OF e(1,4) _ assms(5), of s] assms(4) FDir cl by auto
  qed
qed

lemma climb_delivers:
  assumes "next_off A M (c_cur c) b off" and "ftree_at A M b off r" and "c_curblock c = CbAt b"
    and "length (c_stk c) + ft_depth r \<le> FNTR_DEPTH" and "stk_at A M (c_stk c) rs"
  shows "delivers A M (fntr_climb A M c b) (preorder b r @ stk_pre (c_stk c) rs)"
  using assms
proof (induction "c_stk c" arbitrary: c b off r rs)
  case Nil
  show ?case
  proof (cases "r = FLeaf")
    case True
    obtain k where k: "M b = Some k" using ftree_at_block [OF Nil.prems(2)] by blast
    then show ?thesis
      using True Nil cur_next_at [OF Nil.prems(1) k] by (cases rs) (simp_all add: fntr_climb.simps [of A M c b])
  next
    case False
    then show ?thesis using climb_here [OF Nil.prems] by simp
  qed
next
  case (Cons f stk)
  obtain b1 p where f: "f = (b1, p)" by (cases f)
  note stk = Cons.hyps(2) [symmetric, unfolded f]
  show ?case
  proof (cases "r = FLeaf")
    case True
    obtain k where k: "M b = Some k" using ftree_at_block [OF Cons.prems(2)] by blast
    obtain r1 rs1 where rs: "rs = r1 # rs1" using Cons.prems(5) stk by (cases rs) auto
    obtain o2 where o2: "next_off A M (Some p) b1 o2" "ftree_at A M b1 o2 r1" using Cons.prems(5) stk rs by auto
    let ?c = "\<lparr>c_cur = Some p, c_curblock = CbAt b1, c_stk = stk\<rparr>"
    have "fntr_climb A M c b = fntr_climb A M ?c b1"
      using True cur_next_at [OF Cons.prems(1) k] k Cons.prems(2) stk by (simp add: fntr_climb.simps [of A M c b])
    then show ?thesis using Cons.hyps(1) [of ?c b1 o2 r1 rs1] o2 Cons.prems(5) stk rs True by simp
  next
    case False
    then show ?thesis using climb_here [OF Cons.prems] by simp
  qed
qed

lemma next_r_delivers:
  assumes "cursor_at A M c P"
  shows "delivers A M (fntree_cur_next_r A M c root) P"
proof -
  obtain b off e s r rs where c: "c_cur c = Some (b, off)" "c_curblock c = CbAt b" "ent M (b, off) = Some e"
    and sub: "case e_children e of None \<Rightarrow> True | Some ch \<Rightarrow> tree_at A M ch s \<and> Suc (length (c_stk c) + ft_depth s) \<le> FNTR_DEPTH"
    and r: "ftree_at A M b (fntr_ent_next A off e) r" "length (c_stk c) + ft_depth r \<le> FNTR_DEPTH" "stk_at A M (c_stk c) rs"
    and P: "P = (case e_children e of None \<Rightarrow> [] | Some ch \<Rightarrow> preorder ch s) @ preorder b r @ stk_pre (c_stk c) rs"
    using assms unfolding cursor_at_def by blast
  have nx: "next_off A M (Some (b, off)) b (fntr_ent_next A off e)" by (rule next_off_ent [OF c(3)])
  show ?thesis
  proof (cases "e_children e")
    case None
    then have "fntree_cur_next_r A M c root = fntr_climb A M c b"
      using c by (simp add: fntree_cur_next_r_def start_block_def)
    then show ?thesis using climb_delivers [of A M c b "fntr_ent_next A off e" r rs] c r P nx None by simp
  next
    case (Some ch)
    obtain k where k: "M ch = Some k" "ftree_at A M ch (fntr_ent_first A k) s"
      using sub Some by (auto simp: tree_at_def split: option.splits)
    let ?c = "\<lparr>c_cur = None, c_curblock = CbAt ch, c_stk = (b, (b, off)) # c_stk c\<rparr>"
    have "fntree_cur_next_r A M c root = fntr_climb A M ?c ch"
      using sub Some c by (simp add: fntree_cur_next_r_def start_block_def fntr_cur_push_def fntree_cur_depth_def)
    moreover have "stk_at A M (c_stk ?c) (r # rs)" using r nx by auto
    ultimately show ?thesis
      using climb_delivers [of A M ?c ch "fntr_ent_first A k" s "r # rs"] k sub Some P by (simp add: next_off_def)
  qed
qed

text \<open>The entries that \<open>fntree_cur_next_r\<close> delivers, one call after the other.\<close>
fun tree_walk :: "nat \<Rightarrow> align \<Rightarrow> fn_store \<Rightarrow> fntree_cursor \<Rightarrow> nat \<Rightarrow> (nat \<times> ent_ptr) list option" where
  "tree_walk 0 A M c root = None"
| "tree_walk (Suc n) A M c root =
     (case fntree_cur_next_r A M c root of
        None \<Rightarrow> None
      | Some (c1, None) \<Rightarrow> Some []
      | Some (c1, Some x) \<Rightarrow> map_option ((#) x) (tree_walk n A M c1 root))"

lemma tree_walk_rest: "cursor_at A M c P \<Longrightarrow> tree_walk (Suc (length P)) A M c root = Some P"
proof (induction P arbitrary: c)
  case Nil
  then show ?case using next_r_delivers [OF Nil, of root] by auto
next
  case (Cons x P)
  then show ?case using next_r_delivers [OF Cons.prems, of root] Cons.IH by auto
qed

text \<open>
  Property C23: the recursive walk. For a tree of directories nested at most 64 deep, the calls of
  \<open>fntree_cur_next_r\<close> deliver every entry of every block exactly once, a directory before its contents and
  the entries of a block in their order, and end after the last one.
\<close>

theorem fntree_walk_preorder:
  assumes "tree_at A M root t" and "ft_depth t \<le> FNTR_DEPTH"
  shows "tree_walk (Suc (length (preorder root t))) A M cursor_zero root = Some (preorder root t)"
proof -
  obtain k where k: "M root = Some k" "ftree_at A M root (fntr_ent_first A k) t"
    using assms(1) by (auto simp: tree_at_def split: option.splits)
  let ?c = "cursor_zero\<lparr>c_curblock := CbAt root\<rparr>"
  have eq: "fntree_cur_next_r A M cursor_zero root = fntr_climb A M ?c root"
    by (simp add: fntree_cur_next_r_def start_block_def cursor_zero_def)
  note cl = climb_delivers [of A M ?c root "fntr_ent_first A k" t "[]"]
  show ?thesis
  proof (cases "preorder root t")
    case Nil
    then show ?thesis using cl k assms(2) eq by (auto simp: next_off_def cursor_zero_def)
  next
    case (Cons x P)
    then obtain c' where "fntr_climb A M ?c root = Some (c', Some x)" "cursor_at A M c' P"
      using cl k assms(2) by (auto simp: next_off_def cursor_zero_def)
    then show ?thesis using Cons eq tree_walk_rest by simp
  qed
qed

text \<open>A directory with a file in it: block 1 with the entry \<open>d\<close>, whose block 2 has the entry \<open>f\<close>.\<close>
definition demo_store :: fn_store where
  "demo_store =
     [1 \<mapsto> \<lparr>b_cap = 512, b_size = 40, b_path_len = 1, b_entries = 1, b_path = ''/'',
            b_ents = [24 \<mapsto> \<lparr>e_children = Some 2, e_name = ''d'', e_data_len = 0\<rparr>]\<rparr>,
      2 \<mapsto> \<lparr>b_cap = 512, b_size = 40, b_path_len = 2, b_entries = 1, b_path = ''/d'',
            b_ents = [24 \<mapsto> \<lparr>e_children = None, e_name = ''f'', e_data_len = 0\<rparr>]\<rparr>]"

lemma demo_tree_at: "tree_at demo_align demo_store 1 (FDir 24 2 (FFile 24 FLeaf) FLeaf)"
  by (simp add: tree_at_def demo_store_def fntr_ent_first_def fntr_ent_next_def demo_align_def ent_def)

theorem fntree_walk_preorder_witness:
  "tree_walk 3 demo_align demo_store cursor_zero 1 = Some [(1, (1, 24)), (2, (2, 24))]"
  using fntree_walk_preorder [OF demo_tree_at] by (simp add: FNTR_DEPTH_def numeral_3_eq_3 del: tree_walk.simps)

text \<open>A directory in the 65th level ends the walk, whatever is left to deliver.\<close>
lemma fntree_walk_stops_at_depth:
  assumes "c_cur c = Some p" and "c_curblock c = CbAt b" and "ent M p = Some e" and "e_children e = Some ch"
    and "fntree_cur_depth c = FNTR_DEPTH"
  shows "fntree_cur_next_r A M c root = Some (c, None)"
  using assms by (simp add: fntree_cur_next_r_def start_block_def fntr_cur_push_def)

section \<open>Freeing a tree\<close>

text \<open>The blocks below a block, each after the blocks below it.\<close>
fun sub_blocks :: "ftree \<Rightarrow> nat list" where
  "sub_blocks FLeaf = []"
| "sub_blocks (FFile o1 r) = sub_blocks r"
| "sub_blocks (FDir o1 ch s r) = sub_blocks s @ ch # sub_blocks r"

fun ft_size :: "ftree \<Rightarrow> nat" where
  "ft_size FLeaf = 0"
| "ft_size (FFile o1 r) = Suc (ft_size r)"
| "ft_size (FDir o1 ch s r) = Suc (ft_size s + ft_size r)"

fun stk_blocks :: "(nat \<times> ent_ptr) list \<Rightarrow> ftree list \<Rightarrow> nat list" where
  "stk_blocks ((b, p) # stk) (r # rs) = sub_blocks r @ b # stk_blocks stk rs"
| "stk_blocks _ _ = []"

text \<open>A cursor after a block was delivered, and the blocks that are left; \<open>n\<close> bounds the loops.\<close>
definition post_at :: "nat \<Rightarrow> align \<Rightarrow> fn_store \<Rightarrow> fntree_cursor \<Rightarrow> nat list \<Rightarrow> bool" where
  "post_at n A M c P \<longleftrightarrow>
     c_curblock c = CbMark \<and> (\<exists>rs. stk_at A M (c_stk c) rs \<and> (\<forall>r \<in> set rs. ft_size r < n) \<and> P = stk_blocks (c_stk c) rs)"

lemma ftree_at_free: "ftree_at A M b off t \<Longrightarrow> x \<noteq> b \<Longrightarrow> x \<notin> set (sub_blocks t) \<Longrightarrow> ftree_at A (M(x := None)) b off t"
  by (induction t arbitrary: b off) (auto simp: ent_def split: option.splits)

lemma next_off_free: "next_off A M (Some p) b off \<Longrightarrow> x \<noteq> b \<Longrightarrow> next_off A (M(x := None)) (Some p) b off"
  by (auto simp: next_off_def ent_def)

lemma stk_at_free: "stk_at A M stk rs \<Longrightarrow> x \<notin> set (stk_blocks stk rs) \<Longrightarrow> stk_at A (M(x := None)) stk rs"
proof (induction stk arbitrary: rs)
  case Nil
  then show ?case by (cases rs) simp_all
next
  case (Cons f stk)
  obtain b p where f: "f = (b, p)" by (cases f)
  obtain r rs1 where rs: "rs = r # rs1" using Cons.prems(1) f by (cases rs) simp_all
  obtain off where "next_off A M (Some p) b off" "ftree_at A M b off r" using Cons.prems(1) f rs by auto
  moreover have x: "x \<noteq> b" "x \<notin> set (sub_blocks r)" "x \<notin> set (stk_blocks stk rs1)" using Cons.prems(2) f rs by simp_all
  ultimately have "next_off A (M(x := None)) (Some p) b off" "ftree_at A (M(x := None)) b off r"
    by (auto intro!: next_off_free ftree_at_free)
  moreover have "stk_at A (M(x := None)) stk rs1" using Cons.prems(1) f rs by (intro Cons.IH [OF _ x(3)]) simp
  ultimately show ?case using Cons.prems(1) f rs by (auto simp del: fun_upd_apply)
qed

lemma post_at_free: "post_at n A M c P \<Longrightarrow> x \<notin> set P \<Longrightarrow> post_at n A (M(x := None)) c P"
  using stk_at_free unfolding post_at_def by blast

text \<open>Down to the next block whose subdirectories are done.\<close>
lemma descend_delivers:
  assumes "next_off A M (c_cur c) b off" and "ftree_at A M b off r" and "c_curblock c = CbAt b"
    and "length (c_stk c) + ft_depth r \<le> FNTR_DEPTH" and "stk_at A M (c_stk c) rs"
    and "ft_size r < n" and "n \<le> N" and "\<forall>r \<in> set rs. ft_size r < N"
  shows "\<exists>x P c'. sub_blocks r @ b # stk_blocks (c_stk c) rs = x # P \<and> fntr_descend n A M c b = Some (c', Some x)
    \<and> M x \<noteq> None \<and> post_at N A M c' P"
  using assms
proof (induction r arbitrary: c b off rs n)
  case FLeaf
  obtain k where k: "M b = Some k" using ftree_at_block [OF FLeaf.prems(2)] by blast
  then have "fntr_descend n A M c b = Some (c\<lparr>c_curblock := CbMark\<rparr>, Some b)"
    using FLeaf.prems cur_next_at [OF FLeaf.prems(1) k] by (cases n) simp_all
  then show ?case using FLeaf.prems k by (auto simp: post_at_def)
next
  case (FFile o1 r)
  obtain k where k: "M b = Some k" using ftree_at_block [OF FFile.prems(2)] by blast
  obtain e where e: "ent M (b, off) = Some e" "e_children e = None" "ftree_at A M b (fntr_ent_next A off e) r"
    "off \<noteq> b_size k"
    using FFile.prems(2) k by (auto split: option.splits)
  let ?c = "c\<lparr>c_cur := Some (b, off)\<rparr>"
  have "fntr_descend n A M c b = fntr_descend (n - 1) A M ?c b"
    using FFile.prems(6) cur_next_at [OF FFile.prems(1) k] e by (cases n) simp_all
  then show ?case
    using FFile.IH [of ?c b "fntr_ent_next A off e" rs "n - 1"] FFile.prems e next_off_ent [OF e(1)] by simp
next
  case (FDir o1 ch s r)
  obtain k where k: "M b = Some k" using ftree_at_block [OF FDir.prems(2)] by blast
  obtain e kc where e: "ent M (b, off) = Some e" "e_children e = Some ch" "ftree_at A M b (fntr_ent_next A off e) r"
    "off \<noteq> b_size k" "M ch = Some kc" "ftree_at A M ch (fntr_ent_first A kc) s"
    using FDir.prems(2) k by (auto split: option.splits)
  let ?c = "\<lparr>c_cur = None, c_curblock = CbAt ch, c_stk = (b, (b, off)) # c_stk c\<rparr>"
  have "fntr_descend n A M c b = fntr_descend (n - 1) A M ?c ch"
    using FDir.prems(4,6) cur_next_at [OF FDir.prems(1) k] e by (cases n) (auto simp: fntr_cur_push_def fntree_cur_depth_def)
  moreover have "stk_at A M (c_stk ?c) (r # rs)" using FDir.prems(4,5) e next_off_ent [OF e(1)] by auto
  ultimately show ?case
    using FDir.IH(1) [of ?c ch "fntr_ent_first A kc" "r # rs" "n - 1"] FDir.prems e by (simp add: next_off_def)
qed

lemma free_loop_mono:
  "fntr_free_loop m n A M c b log = Some res \<Longrightarrow> fntr_free_loop (m + d) n A M c b log = Some res"
  by (induction m n A M c b log rule: fntr_free_loop.induct) (auto split: option.splits prod.splits if_splits)

lemma free_loop_frees:
  assumes "post_at n A M c P" and "distinct P"
  shows "fntr_free_loop (Suc (length P)) n A M c b log = Some (M |` (- set P), log @ P)"
  using assms
proof (induction P arbitrary: M c b log)
  case Nil
  then obtain rs where rs: "stk_at A M (c_stk c) rs" "stk_blocks (c_stk c) rs = []" by (auto simp: post_at_def)
  then have "c_stk c = []" by (cases "c_stk c"; cases rs) auto
  then show ?case using Nil by (simp add: post_at_def fntr_blk_next_r_post_def)
next
  case (Cons x P)
  then obtain rs where c: "c_curblock c = CbMark" "stk_at A M (c_stk c) rs" "\<forall>r \<in> set rs. ft_size r < n"
    "stk_blocks (c_stk c) rs = x # P" by (auto simp: post_at_def)
  then obtain b1 p stk r rs1 where st: "c_stk c = (b1, p) # stk" "rs = r # rs1"
    by (cases "(c_stk c, rs)" rule: stk_blocks.cases) auto
  obtain off where off: "next_off A M (Some p) b1 off" "ftree_at A M b1 off r" "length stk + ft_depth r \<le> FNTR_DEPTH" "stk_at A M stk rs1"
    using c(2) st by auto
  let ?c = "\<lparr>c_cur = Some p, c_curblock = CbAt b1, c_stk = stk\<rparr>"
  obtain c' where c': "fntr_descend n A M ?c b1 = Some (c', Some x)" "M x \<noteq> None" "post_at n A M c' P"
    using descend_delivers [of A M ?c b1 off r rs1 n n] off c st by auto
  have "fntr_blk_next_r_post n A M c b = Some (c', Some x)"
    using c' c(1) st by (simp add: fntr_blk_next_r_post_def)
  moreover have "M(x := None) |` (- set P) = M |` (- set (x # P))" by (auto simp: restrict_map_def fun_eq_iff)
  moreover have "fntr_free_loop (Suc (length P)) n A (M(x := None)) c' None (log @ [x]) = Some (M(x := None) |` (- set P), (log @ [x]) @ P)"
    using Cons.prems(2) by (intro Cons.IH post_at_free [OF c'(3)]) simp_all
  ultimately show ?case using c'(2) by (simp only: fntr_free_loop.simps(2) [of "Suc (length P)"] list.size) simp
qed

lemma fntree_free_all_tree:
  assumes "tree_at A M root t" and "ft_depth t \<le> FNTR_DEPTH" and "distinct (sub_blocks t @ [root])"
    and "ft_size t < n" and "length (sub_blocks t) + 1 < m"
  shows "fntree_free_all m n A M (Some root) = Some (M |` (- set (sub_blocks t @ [root])), sub_blocks t @ [root])"
proof -
  obtain k where k: "M root = Some k" "ftree_at A M root (fntr_ent_first A k) t"
    using assms(1) by (auto simp: tree_at_def split: option.splits)
  let ?c = "cursor_zero\<lparr>c_curblock := CbAt root\<rparr>"
  obtain x P c' where d: "sub_blocks t @ [root] = x # P" "fntr_descend n A M ?c root = Some (c', Some x)" "M x \<noteq> None" "post_at n A M c' P"
    using descend_delivers [of A M ?c root "fntr_ent_first A k" t "[]" n n] k assms(2,4) by (auto simp: next_off_def cursor_zero_def)
  have nx: "fntr_blk_next_r_post n A M cursor_zero (Some root) = Some (c', Some x)"
    using d(2) by (simp add: fntr_blk_next_r_post_def cursor_zero_def)
  have len: "length P = length (sub_blocks t)" using arg_cong [OF d(1), of length] by simp
  obtain m' where m: "m = Suc (Suc (length P) + m')" using assms(5) len less_iff_Suc_add by (metis add_Suc_shift add_Suc plus_1_eq_Suc add.commute)
  have "fntr_free_loop (Suc (length P)) n A (M(x := None)) c' None [x] = Some (M(x := None) |` (- set P), [x] @ P)"
    using free_loop_frees [OF post_at_free [OF d(4)]] assms(3) d(1) by simp
  then have "fntr_free_loop (Suc (length P) + m') n A (M(x := None)) c' None [x] = Some (M(x := None) |` (- set P), [x] @ P)"
    by (rule free_loop_mono)
  moreover have "M(x := None) |` (- set P) = M |` (- set (x # P))" by (auto simp: restrict_map_def fun_eq_iff)
  ultimately show ?thesis using nx d(1,3) m by (simp add: fntree_free_all_def)
qed

text \<open>
  Property C24: freeing a tree. For a tree of blocks that are not shared, nested at most 64 deep,
  \<open>fntree_free_all\<close> frees every block exactly once, a block after the blocks below it, touches no block that
  is already freed, and leaves every other block as it was.
\<close>

theorem fntree_free_all_once:
  assumes "tree_at A M root t" and "ft_depth t \<le> FNTR_DEPTH" and "distinct (sub_blocks t @ [root])"
    and "ft_size t < n" and "length (sub_blocks t) + 1 < m"
  shows "fntree_free_all m n A M (Some root) = Some (M |` (- set (sub_blocks t @ [root])), sub_blocks t @ [root])"
  using fntree_free_all_tree [OF assms] .

theorem fntree_free_all_once_witness: "map_option snd (fntree_free_all 4 3 demo_align demo_store (Some 1)) = Some [2, 1]"
  using fntree_free_all_once [OF demo_tree_at, of 3 4] by (simp add: FNTR_DEPTH_def)

end
