(* ===== verification/Dir_Read.thy ===== *)
theory Dir_Read
  imports Queue_Edit Fntree
begin

text \<open>
  \<open>src/core/dir-read.c\<close>: the filter that replaces a directory in the queue by the files below it. The
  walk grows the tree of \<open>Fntree\<close> while it goes: the block of a subdirectory is attached to
  its entry when the entry is delivered, and entered after the files of the directory.
\<close>

section \<open>The environment\<close>

text \<open>
  \<open>ffdirscan_open\<close> (the names of a directory), \<open>fffile_open\<close>, \<open>fffile_info\<close> (whether the file is a directory),
  \<open>ffs_wildcard\<close> and the functions that \<open>Fntree\<close> is over. Releasing descriptors and the wait
  for the kernel are not part of the model.
\<close>
record dir_sys =
  ds_scan :: "string \<Rightarrow> string list option"
  ds_open :: "string \<Rightarrow> bool"
  ds_info :: "string \<Rightarrow> bool option"
  ds_wild :: "string \<Rightarrow> string \<Rightarrow> bool"
  ds_align :: align
  ds_alloc :: "fn_store \<Rightarrow> nat \<Rightarrow> nat option"
  ds_realloc :: "fn_store \<Rightarrow> nat \<Rightarrow> nat \<Rightarrow> nat option"

text \<open>Alignment as documented, and an allocator with enough memory that gives unused addresses.\<close>
definition dir_law :: "dir_sys \<Rightarrow> bool" where
  "dir_law D \<longleftrightarrow> align_law (ds_align D) \<and> realloc_law (ds_realloc D) \<and> (\<forall>M a n. ds_realloc D M a n \<noteq> None)
     \<and> (\<forall>M n. finite (dom M) \<longrightarrow> (\<exists>a. ds_alloc D M n = Some a \<and> M a = None))"

section \<open>The filter\<close>

definition file_matches :: "dir_sys \<Rightarrow> phi_track \<Rightarrow> string \<Rightarrow> bool \<Rightarrow> bool" where
  "file_matches D t fn dir =
     (let inc = if_include (c_ifile (t_conf t)); exc = if_exclude (c_ifile (t_conf t)) in
      (dir \<or> inc = [] \<or> list_ex (\<lambda>w. ds_wild D w fn) inc) \<and> \<not> list_ex (\<lambda>w. ds_wild D w fn) exc)"

text \<open>The configuration of a new entry; the output name and the meta data are not copied.\<close>
definition dir_conf :: "phi_track \<Rightarrow> string \<Rightarrow> phi_track_conf \<times> u32" where
  "dir_conf t fpath =
     (let c = phi_track_conf_assign (t_conf t) in (c\<lparr>c_ifile := (c_ifile c)\<lparr>if_name := Some fpath\<rparr>\<rparr>, 0))"

text \<open>\<open>qcur\<close> and \<open>dir_removed\<close>.\<close>
type_synonym dir_pos = "nat option \<times> bool"

definition dir_put :: "phi_track \<Rightarrow> dir_pos \<Rightarrow> phi_track_conf \<times> u32 \<Rightarrow> 'w qsys \<Rightarrow> (dir_pos \<times> 'w qsys) option" where
  "dir_put t st v s = do {
     e \<leftarrow> t_qent t;
     cur \<leftarrow> fst st;
     ((c1, r1), s1) \<leftarrow> put_one queue_insert queue_remove e (cur, snd st) v s;
     Some ((Some c1, r1), s1)
   }"

text \<open>The loop body for the entry \<open>p\<close> of the block \<open>b\<close>.\<close>
definition dir_step ::
    "nat \<Rightarrow> dir_sys \<Rightarrow> phi_track \<Rightarrow> nat \<times> ent_ptr \<Rightarrow> fn_store \<Rightarrow> dir_pos \<Rightarrow> 'w qsys \<Rightarrow> (fn_store \<times> dir_pos \<times> 'w qsys) option" where
  "dir_step n D t bp M st s = do {
     k \<leftarrow> M (fst bp);
     e \<leftarrow> Fntree.ent M (snd bp);
     let fpath = fntree_path k @ ''/'' @ fntree_name e;
     if \<not> ds_open D fpath then Some (M, st, s)
     else (case ds_info D fpath of
        None \<Rightarrow> Some (M, st, s)
      | Some dir \<Rightarrow>
          if \<not> file_matches D t fpath dir then Some (M, st, s)
          else if dir then
            (case ds_scan D fpath of
               None \<Rightarrow> Some (M, st, s)
             | Some names \<Rightarrow>
                 (case fntree_from_dirscan n (ds_align D) (ds_alloc D) (ds_realloc D) M fpath names 0 of
                    None \<Rightarrow> None
                  | Some (M1, None) \<Rightarrow> Some (M1, st, s)
                  | Some (M1, Some b1) \<Rightarrow> map_option (\<lambda>(M2, _). (M2, st, s)) (fntree_attach M1 (snd bp) (Some b1))))
          else map_option (\<lambda>(st1, s1). (M, st1, s1)) (dir_put t st (dir_conf t fpath) s))
   }"

text \<open>The loop: \<open>m\<close> bounds the entries, \<open>w\<close> the steps of one call of the cursor.\<close>
fun dir_loop ::
    "nat \<Rightarrow> nat \<Rightarrow> nat \<Rightarrow> dir_sys \<Rightarrow> phi_track \<Rightarrow> fntree_cursor \<Rightarrow> nat \<Rightarrow> fn_store \<Rightarrow> dir_pos \<Rightarrow> 'w qsys
     \<Rightarrow> (fn_store \<times> dir_pos \<times> 'w qsys) option" where
  "dir_loop 0 w n D t c blk M st s = None"
| "dir_loop (Suc m) w n D t c blk M st s =
     (case fntree_cur_next_r_ctx w (ds_align D) M c blk of
        None \<Rightarrow> None
      | Some (c1, None) \<Rightarrow> Some (M, st, s)
      | Some (c1, Some bp) \<Rightarrow>
          (case dir_step n D t bp M st s of
             None \<Rightarrow> None
           | Some (M1, st1, s1) \<Rightarrow> dir_loop m w n D t c1 (fst bp) M1 st1 s1))"

text \<open>The result code, the blocks that are still allocated and the queue; \<open>m\<close> bounds the loops, \<open>n\<close> the release of a failed scan.\<close>
definition qu_add_dir_r :: "nat \<Rightarrow> nat \<Rightarrow> dir_sys \<Rightarrow> string \<Rightarrow> phi_track \<Rightarrow> fn_store \<Rightarrow> 'w qsys \<Rightarrow> (int \<times> fn_store \<times> 'w qsys) option" where
  "qu_add_dir_r m n D fn t M s =
     (case ds_scan D fn of
        None \<Rightarrow> Some (-1, M, s)
      | Some names \<Rightarrow>
          (case fntree_from_dirscan n (ds_align D) (ds_alloc D) (ds_realloc D) M fn names 0 of
             None \<Rightarrow> None
           | Some (M1, None) \<Rightarrow> Some (-1, M1, s)
           | Some (M1, Some root) \<Rightarrow>
               (case dir_loop m m n D t cursor_zero root M1 (t_qent t, False) s of
                  None \<Rightarrow> None
                | Some (M2, st, s2) \<Rightarrow> map_option (\<lambda>(M3, _). (0, M3, s2)) (fntree_free_all m m (ds_align D) M2 (Some root)))))"

definition dir_open :: "nat \<Rightarrow> nat \<Rightarrow> dir_sys \<Rightarrow> phi_track \<Rightarrow> fn_store \<Rightarrow> 'w qsys \<Rightarrow> (phi_open \<times> fn_store \<times> 'w qsys) option" where
  "dir_open m n D t M s =
     (case if_name (c_ifile (t_conf t)) of
        None \<Rightarrow> None
      | Some fn \<Rightarrow> map_option (\<lambda>(r, M1, s1). (if r \<noteq> 0 then OpenErr else OpenObj 1, M1, s1)) (qu_add_dir_r m n D fn t M s))"

definition dir_process :: "phi_track \<Rightarrow> phi_track \<times> phi_r" where
  "dir_process t = (t, PHI_FIN)"

section \<open>What a directory holds\<close>

definition join :: "string \<Rightarrow> string \<Rightarrow> string" where
  "join path name = path @ ''/'' @ name"

text \<open>A file that is added, and a directory that is entered.\<close>
definition is_file :: "dir_sys \<Rightarrow> phi_track \<Rightarrow> string \<Rightarrow> bool" where
  "is_file D t f \<longleftrightarrow> ds_open D f \<and> ds_info D f = Some False \<and> file_matches D t f False"

definition is_subdir :: "dir_sys \<Rightarrow> phi_track \<Rightarrow> string \<Rightarrow> bool" where
  "is_subdir D t f \<longleftrightarrow> ds_open D f \<and> ds_info D f = Some True \<and> file_matches D t f True \<and> ds_scan D f \<noteq> None"

text \<open>The files of a directory of at most \<open>d\<close> levels: its own, then those of each subdirectory.\<close>
fun dir_files :: "nat \<Rightarrow> dir_sys \<Rightarrow> phi_track \<Rightarrow> string \<Rightarrow> string list" where
  "dir_files 0 D t path = []"
| "dir_files (Suc d) D t path =
     (case ds_scan D path of
        None \<Rightarrow> []
      | Some names \<Rightarrow>
          filter (is_file D t) (map (join path) names)
          @ concat (map (dir_files d D t) (filter (is_subdir D t) (map (join path) names))))"

text \<open>The names fit into blocks as \<open>Fntree\<close> allocates them.\<close>
definition scan_fits :: "string \<Rightarrow> string list \<Rightarrow> bool" where
  "scan_fits path names \<longleftrightarrow> length path mod 512 < 496 \<and> (\<forall>x \<in> set names. length x \<le> 500) \<and> length path + 512 * (length names + 2) < 2 ^ 31"

fun dir_ok :: "nat \<Rightarrow> dir_sys \<Rightarrow> phi_track \<Rightarrow> string \<Rightarrow> bool" where
  "dir_ok 0 D t path \<longleftrightarrow> False"
| "dir_ok (Suc d) D t path \<longleftrightarrow>
     (case ds_scan D path of
        None \<Rightarrow> False
      | Some names \<Rightarrow> scan_fits path names \<and> list_all (\<lambda>f. is_subdir D t f \<longrightarrow> dir_ok d D t f) (map (join path) names))"

section \<open>Scanning into a new block\<close>

definition new_ent :: "string \<Rightarrow> fntree_entry" where
  "new_ent d = \<lparr>e_children = None, e_name = d, e_data_len = 0\<rparr>"

lemma add_all_new:
  assumes "dir_law D" and "M0 a = None" and "block_rep (ds_align D) b path es"
    and "\<forall>d \<in> set ds. length d \<le> 500" and "b_size b + 512 * (length ds + 1) < 2 ^ 31" and "length es + length ds < 2 ^ 31"
  shows "\<exists>a' b'. fntr_add_all n (ds_align D) (ds_realloc D) (M0(a \<mapsto> b)) (Some a) ds 0 = Some (M0(a' \<mapsto> b'), Some a')
     \<and> M0 a' = None \<and> block_rep (ds_align D) b' path (es @ map new_ent ds)"
  using assms(2-)
proof (induction ds arbitrary: a b es)
  case (Cons d ds)
  let ?A = "ds_align D" and ?re = "ds_realloc D" and ?M = "M0(a \<mapsto> b)"
  have law: "align_law ?A" "realloc_law ?re" "\<And>cap. ?re ?M a cap \<noteq> None" using assms(1) by (simp_all add: dir_law_def)
  obtain a' b' where s: "fntree_add ?A ?re ?M a d 0 = Some (?M(a := None, a' \<mapsto> b'), a', Some (a', b_size b))"
    "block_rep ?A b' path (es @ [new_ent d])" "b_size b' \<le> b_size b + 512" "a' = a \<or> ?M a' = None"
    using fntree_add_appends [OF law(1,2), of ?M a b path es d 0] law(3) Cons.prems by (auto simp: new_ent_def)
  have M: "?M(a := None, a' \<mapsto> b') = M0(a' \<mapsto> b')" and n: "M0 a' = None"
    using Cons.prems(1) s(4) by (auto simp: fun_eq_iff split: if_splits)
  show ?case
    using Cons.IH [of a' b' "es @ [new_ent d]"] s(1-3) M n Cons.prems by (simp del: fun_upd_apply)
qed auto

lemma from_dirscan_new:
  assumes "dir_law D" and "finite (dom M)" and "scan_fits path ds"
  shows "\<exists>a b. fntree_from_dirscan n (ds_align D) (ds_alloc D) (ds_realloc D) M path ds 0 = Some (M(a \<mapsto> b), Some a)
     \<and> M a = None \<and> block_rep (ds_align D) b path (map new_ent ds)"
proof -
  let ?A = "ds_align D"
  define cap where "cap = (max (length path + 1) 512 + 511) div 512 * 512"
  let ?b = "new_block cap path"
  have law: "align_law ?A" using assms(1) by (simp add: dir_law_def)
  have "\<exists>a. ds_alloc D M cap = Some a \<and> M a = None" using assms(1,2) unfolding dir_law_def by blast
  then obtain a where a: "ds_alloc D M cap = Some a" "M a = None" by blast
  have fit: "length path mod 512 < 496" "\<forall>x \<in> set ds. length x \<le> 500" "length path + 512 * (length ds + 2) < 2 ^ 31"
    using assms(3) by (simp_all add: scan_fits_def)
  note nb = new_block_facts [OF law fit(1) cap_def]
  have rep: "block_rep ?A ?b path []" using nb by (simp add: block_rep_def) (simp add: new_block_def)
  have "b_size ?b \<le> length path + 24" by (simp add: new_block_def)
  then have sz: "b_size ?b + 512 * (length ds + 1) < 2 ^ 31" "length ([] :: fntree_entry list) + length ds < 2 ^ 31" using fit(3) by simp_all
  have "fntree_create ?A (ds_alloc D) M path = Some (M(a \<mapsto> ?b), Some a)"
    using fntree_create_eq [OF law _ cap_def, of "ds_alloc D" M a] a(1) fit by simp
  then show ?thesis
    using add_all_new [of D M a ?b path "[]" ds n] assms(1) a(2) rep fit(2) sz by (simp add: fntree_from_dirscan_def)
qed

section \<open>The walk as a relation\<close>

text \<open>
  The walk without fuel. In the first mode the entries of a block are delivered to the loop body, in the second
  the block is scanned again for subdirectories.
\<close>
inductive dir_run ::
    "nat \<Rightarrow> dir_sys \<Rightarrow> phi_track \<Rightarrow> bool \<Rightarrow> fn_store \<Rightarrow> fntree_cursor \<Rightarrow> nat \<Rightarrow> dir_pos \<Rightarrow> 'w qsys
     \<Rightarrow> fn_store \<times> dir_pos \<times> 'w qsys \<Rightarrow> bool" for n D t where
  run_entry: "fntree_cur_next (ds_align D) M c b = Some (c1, Some p) \<Longrightarrow> dir_step n D t (b, p) M st s = Some (M1, st1, s1)
    \<Longrightarrow> dir_run n D t False M1 c1 b st1 s1 r \<Longrightarrow> dir_run n D t False M c b st s r"
| run_rescan: "fntree_cur_next (ds_align D) M c b = Some (c1, None) \<Longrightarrow> dir_run n D t True M (c1\<lparr>c_cur := None\<rparr>) b st s r
    \<Longrightarrow> dir_run n D t False M c b st s r"
| run_skip: "fntree_cur_next (ds_align D) M c b = Some (c1, Some p) \<Longrightarrow> Fntree.ent M p = Some e \<Longrightarrow> e_children e = None
    \<Longrightarrow> dir_run n D t True M c1 b st s r \<Longrightarrow> dir_run n D t True M c b st s r"
| run_push: "fntree_cur_next (ds_align D) M c b = Some (c1, Some p) \<Longrightarrow> Fntree.ent M p = Some e \<Longrightarrow> e_children e = Some ch
    \<Longrightarrow> fntr_cur_push c1 b p ch = (c2, Some b1) \<Longrightarrow> dir_run n D t False M c2 b1 st s r \<Longrightarrow> dir_run n D t True M c b st s r"
| run_pop: "fntree_cur_next (ds_align D) M c b = Some (c1, None) \<Longrightarrow> fntr_cur_pop c1 = (c2, Some b1)
    \<Longrightarrow> dir_run n D t True M c2 b1 st s r \<Longrightarrow> dir_run n D t True M c b st s r"
| run_end: "fntree_cur_next (ds_align D) M c b = Some (c1, None) \<Longrightarrow> fntr_cur_pop c1 = (c2, None)
    \<Longrightarrow> dir_run n D t True M c b st s (M, st, s)"

text \<open>What the loop does with a result of the cursor.\<close>
definition dir_after ::
    "nat \<Rightarrow> nat \<Rightarrow> nat \<Rightarrow> dir_sys \<Rightarrow> phi_track \<Rightarrow> fn_store \<Rightarrow> dir_pos \<Rightarrow> 'w qsys \<Rightarrow> (fntree_cursor \<times> (nat \<times> ent_ptr) option) option
     \<Rightarrow> (fn_store \<times> dir_pos \<times> 'w qsys) option" where
  "dir_after m w n D t M st s res =
     (case res of
        None \<Rightarrow> None
      | Some (c1, None) \<Rightarrow> Some (M, st, s)
      | Some (c1, Some bp) \<Rightarrow>
          (case dir_step n D t bp M st s of
             None \<Rightarrow> None
           | Some (M1, st1, s1) \<Rightarrow> dir_loop m w n D t c1 (fst bp) M1 st1 s1))"

text \<open>The cursor in the second mode, then in the first again.\<close>
definition sub_then :: "nat \<Rightarrow> align \<Rightarrow> fn_store \<Rightarrow> fntree_cursor \<Rightarrow> nat \<Rightarrow> nat \<Rightarrow> (fntree_cursor \<times> (nat \<times> ent_ptr) option) option" where
  "sub_then v A M c b u =
     (case fntr_subdir v A M c b of
        None \<Rightarrow> None
      | Some (c2, None) \<Rightarrow> Some (c2, None)
      | Some (c2, Some None) \<Rightarrow> None
      | Some (c2, Some (Some b1)) \<Rightarrow> fntr_ctx u A M c2 b1)"

lemma cur_next_curblock: "fntree_cur_next A M c b = Some (c1, x) \<Longrightarrow> c_curblock c1 = c_curblock c \<and> c_stk c1 = c_stk c"
  by (auto simp: fntree_cur_next_def split: option.splits if_splits)

lemma dir_loop_after:
  "c_curblock c = CbAt b \<Longrightarrow> dir_loop (Suc m) w n D t c blk M st s = dir_after m w n D t M st s (fntr_ctx w (ds_align D) M c b)"
  by (simp add: fntree_cur_next_r_ctx_def start_block_def dir_after_def)

text \<open>Every run is a run of the loop when the bounds are large enough.\<close>
lemma dir_run_loop:
  assumes "dir_run n D t seek M c b st s r" and "c_curblock c = CbAt b"
  shows "\<exists>N. \<forall>m \<ge> N. \<forall>w \<ge> N. \<forall>v \<ge> N. \<forall>u \<ge> N. dir_after m w n D t M st s
    (if seek then sub_then v (ds_align D) M c b u else fntr_ctx v (ds_align D) M c b) = Some r"
  using assms
proof (induction rule: dir_run.induct)
  case (run_entry M c b c1 p st s M1 st1 s1 r)
  then have cb: "c_curblock c1 = CbAt b" using cur_next_curblock by metis
  with run_entry.IH obtain N where N: "\<forall>m \<ge> N. \<forall>w \<ge> N. \<forall>v \<ge> N. \<forall>u \<ge> N. dir_after m w n D t M1 st1 s1 (fntr_ctx v (ds_align D) M1 c1 b) = Some r"
    by auto
  have "dir_after m w n D t M st s (fntr_ctx v (ds_align D) M c b) = Some r" if big: "Suc N \<le> m" "Suc N \<le> w" "Suc N \<le> v" for m w v
  proof -
    obtain m' v' where s: "m = Suc m'" "v = Suc v'" using big by (cases m; cases v) simp_all
    have "dir_loop m w n D t c1 b M1 st1 s1 = dir_after m' w n D t M1 st1 s1 (fntr_ctx w (ds_align D) M1 c1 b)"
      unfolding s(1) by (rule dir_loop_after [OF cb])
    also have "\<dots> = Some r" using N [rule_format, of m' w w N] big s(1) by simp
    finally have "dir_loop m w n D t c1 b M1 st1 s1 = Some r" .
    then show ?thesis using run_entry.hyps s(2) by (simp add: dir_after_def)
  qed
  then show ?case by (intro exI [of _ "Suc N"]) auto
next
  case (run_rescan M c b c1 st s r)
  then have "c_curblock (c1\<lparr>c_cur := None\<rparr>) = CbAt b" using cur_next_curblock by fastforce
  with run_rescan.IH obtain N where N: "\<forall>m \<ge> N. \<forall>w \<ge> N. \<forall>v \<ge> N. \<forall>u \<ge> N.
      dir_after m w n D t M st s (sub_then v (ds_align D) M (c1\<lparr>c_cur := None\<rparr>) b u) = Some r" by auto
  have "fntr_ctx (Suc v) (ds_align D) M c b = sub_then v (ds_align D) M (c1\<lparr>c_cur := None\<rparr>) b v" for v
    using run_rescan.hyps(1) by (simp add: sub_then_def)
  then have "dir_after m w n D t M st s (fntr_ctx v (ds_align D) M c b) = Some r" if "Suc N \<le> m" "Suc N \<le> w" "Suc N \<le> v" for m w v
    using that N by (cases v) auto
  then show ?case by (intro exI [of _ "Suc N"]) auto
next
  case (run_skip M c b c1 p e st s r)
  then have "c_curblock c1 = CbAt b" using cur_next_curblock by metis
  with run_skip.IH obtain N where N: "\<forall>m \<ge> N. \<forall>w \<ge> N. \<forall>v \<ge> N. \<forall>u \<ge> N.
      dir_after m w n D t M st s (sub_then v (ds_align D) M c1 b u) = Some r" by auto
  have "sub_then (Suc v) (ds_align D) M c b u = sub_then v (ds_align D) M c1 b u" for v u
    using run_skip.hyps by (simp add: sub_then_def)
  then have "dir_after m w n D t M st s (sub_then v (ds_align D) M c b u) = Some r" if "Suc N \<le> m" "Suc N \<le> w" "Suc N \<le> v" "Suc N \<le> u" for m w v u
    using that N by (cases v) auto
  then show ?case by (intro exI [of _ "Suc N"]) auto
next
  case (run_push M c b c1 p e ch c2 b1 st s r)
  then have "c_curblock c2 = CbAt b1" by (auto simp: fntr_cur_push_def split: if_splits)
  with run_push.IH obtain N where N: "\<forall>m \<ge> N. \<forall>w \<ge> N. \<forall>v \<ge> N. \<forall>u \<ge> N.
      dir_after m w n D t M st s (fntr_ctx v (ds_align D) M c2 b1) = Some r" by auto
  have "sub_then (Suc v) (ds_align D) M c b u = fntr_ctx u (ds_align D) M c2 b1" for v u
    using run_push.hyps(1-4) by (simp add: sub_then_def)
  then have "dir_after m w n D t M st s (sub_then v (ds_align D) M c b u) = Some r" if "Suc N \<le> m" "Suc N \<le> w" "Suc N \<le> v" "Suc N \<le> u" for m w v u
    using that N [rule_format, of m w u u] by (cases v) auto
  then show ?case by (intro exI [of _ "Suc N"]) auto
next
  case (run_pop M c b c1 c2 b1 st s r)
  then have "c_curblock c2 = CbAt b1" by (auto split: list.splits prod.splits)
  with run_pop.IH obtain N where N: "\<forall>m \<ge> N. \<forall>w \<ge> N. \<forall>v \<ge> N. \<forall>u \<ge> N.
      dir_after m w n D t M st s (sub_then v (ds_align D) M c2 b1 u) = Some r" by auto
  have "sub_then (Suc v) (ds_align D) M c b u = sub_then v (ds_align D) M c2 b1 u" for v u
    using run_pop.hyps(1,2) by (simp add: sub_then_def del: fntr_cur_pop.simps)
  then have "dir_after m w n D t M st s (sub_then v (ds_align D) M c b u) = Some r" if "Suc N \<le> m" "Suc N \<le> w" "Suc N \<le> v" "Suc N \<le> u" for m w v u
    using that N by (cases v) auto
  then show ?case by (intro exI [of _ "Suc N"]) auto
next
  case (run_end M c b c1 c2 st s)
  then have "sub_then (Suc v) (ds_align D) M c b u = Some (c2, None)" for v u
    by (simp add: sub_then_def del: fntr_cur_pop.simps)
  then have "dir_after m w n D t M st s (sub_then v (ds_align D) M c b u) = Some (M, st, s)" if "1 \<le> v" for m w v u
    using that by (cases v) (simp_all add: dir_after_def)
  then show ?case by (intro exI [of _ 1]) auto
qed

section \<open>Entries of a block\<close>

abbreviation off_at :: "align \<Rightarrow> fntree_block \<Rightarrow> fntree_entry list \<Rightarrow> nat" where
  "off_at A k es \<equiv> foldl (fntr_ent_next A) (fntr_ent_first A k) es"

lemma foldl_next_ge: "align_law A \<Longrightarrow> off \<le> foldl (fntr_ent_next A) off es"
  by (induction es arbitrary: off) (auto intro: order_trans [OF less_imp_le [OF ent_next_gt]])

lemma ents_from_append:
  "ents_from A k off (xs @ ys) \<Longrightarrow> ents_from A k (foldl (fntr_ent_next A) off xs) ys"
  by (induction xs arbitrary: off) auto

lemma ents_from_frame:
  assumes "align_law A" and "o1 < off" and "b_size k1 = b_size k" and "\<And>x. x \<noteq> o1 \<Longrightarrow> b_ents k1 x = b_ents k x"
  shows "ents_from A k1 off es = ents_from A k off es"
  using assms(2)
proof (induction es arbitrary: off)
  case (Cons e es)
  have "o1 < fntr_ent_next A off e" using Cons.prems ent_next_gt [OF assms(1), of off e] by simp
  then show ?case using Cons assms(3,4) by simp
qed (simp add: assms(3))

text \<open>Changing the subdirectory of one entry.\<close>
lemma ents_from_update:
  assumes "align_law A" and "o1 = foldl (fntr_ent_next A) off xs" and "ents_from A k off (xs @ e # ys)"
  shows "ents_from A (k\<lparr>b_ents := (b_ents k)(o1 \<mapsto> e\<lparr>e_children := ch\<rparr>)\<rparr>) off (xs @ e\<lparr>e_children := ch\<rparr> # ys)"
  using assms(2,3)
proof (induction xs arbitrary: off)
  case Nil
  have "fntr_ent_next A off (e\<lparr>e_children := ch\<rparr>) = fntr_ent_next A off e" by (simp add: fntr_ent_next_def)
  moreover have "ents_from A (k\<lparr>b_ents := (b_ents k)(off \<mapsto> e\<lparr>e_children := ch\<rparr>)\<rparr>) (fntr_ent_next A off e) ys
      = ents_from A k (fntr_ent_next A off e) ys"
    by (rule ents_from_frame [OF assms(1) ent_next_gt [OF assms(1), of off e]]) simp_all
  ultimately show ?case using Nil by (simp del: fun_upd_apply add: fun_upd_same)
next
  case (Cons x xs)
  have o1: "o1 = foldl (fntr_ent_next A) (fntr_ent_next A off x) xs" using Cons.prems(1) by simp
  then have "off < o1" using less_le_trans [OF ent_next_gt [OF assms(1)] foldl_next_ge [OF assms(1)]] by simp
  moreover have "ents_from A k (fntr_ent_next A off x) (xs @ e # ys)" "b_ents k off = Some x" "off < b_size k" using Cons.prems(2) by simp_all
  ultimately show ?case using Cons.IH [OF o1] by simp
qed

text \<open>A cursor in the block \<open>b\<close>: the entries it has passed and those that follow.\<close>
definition cur_at :: "align \<Rightarrow> fn_store \<Rightarrow> fntree_cursor \<Rightarrow> nat \<Rightarrow> string \<Rightarrow> fntree_entry list \<Rightarrow> fntree_entry list \<Rightarrow> bool" where
  "cur_at A M c b path xs ys \<longleftrightarrow>
     (\<exists>k. M b = Some k \<and> block_rep A k path (xs @ ys) \<and> next_off A M (c_cur c) b (off_at A k xs))"

lemma cur_at_start: "M b = Some k \<Longrightarrow> block_rep A k path es \<Longrightarrow> c_cur c = None \<Longrightarrow> cur_at A M c b path [] es"
  by (simp add: cur_at_def next_off_def)

lemma cur_at_end: "cur_at A M c b path xs [] \<Longrightarrow> fntree_cur_next A M c b = Some (c, None)"
  using ents_from_append [of A _ _ xs "[]"] by (auto simp: cur_at_def block_rep_def cur_next_at)

lemma cur_at_next:
  assumes "cur_at A M c b path xs (y # ys)"
  obtains k p where "M b = Some k" and "p = (b, off_at A k xs)" and "fntree_cur_next A M c b = Some (c\<lparr>c_cur := Some p\<rparr>, Some p)"
    and "Fntree.ent M p = Some y" and "fntree_path k = path" and "\<And>c'. c_cur c' = Some p \<Longrightarrow> cur_at A M c' b path (xs @ [y]) ys"
    and "block_rep A k path (xs @ y # ys)"
proof -
  obtain k where k: "M b = Some k" "block_rep A k path (xs @ y # ys)" "next_off A M (c_cur c) b (off_at A k xs)"
    using assms by (auto simp: cur_at_def)
  then have e: "ents_from A k (off_at A k xs) (y # ys)" by (auto simp: block_rep_def dest: ents_from_append)
  then have en: "Fntree.ent M (b, off_at A k xs) = Some y" using k(1) by (simp add: ent_def)
  have "cur_at A M c' b path (xs @ [y]) ys" if "c_cur c' = Some (b, off_at A k xs)" for c'
    using that k(1,2) next_off_ent [OF en] by (auto simp: cur_at_def)
  then show ?thesis
    using k e en by (intro that [of k "(b, off_at A k xs)"]) (auto simp: cur_next_at block_rep_def fntree_path_def)
qed

text \<open>Attaching a block to the entry that was delivered last.\<close>
lemma attach_cur_at:
  assumes "align_law A" and "M b = Some k" and "block_rep A k path (xs @ y # ys)" and "p = (b, off_at A k xs)"
    and "c_cur c = Some p" and "M ch = None"
  shows "\<exists>M2. fntree_attach (M(ch \<mapsto> kc)) p (Some ch) = Some (M2, e_children y) \<and> cur_at A M2 c b path (xs @ [y\<lparr>e_children := Some ch\<rparr>]) ys
    \<and> M2 ch = Some kc \<and> dom M2 = insert ch (dom M) \<and> (\<forall>x. x \<noteq> b \<longrightarrow> x \<noteq> ch \<longrightarrow> M2 x = M x)"
proof -
  let ?o = "off_at A k xs" and ?y = "y\<lparr>e_children := Some ch\<rparr>"
  let ?k = "k\<lparr>b_ents := (b_ents k)(?o \<mapsto> ?y)\<rparr>"
  let ?M = "M(ch \<mapsto> kc, b \<mapsto> ?k)"
  have ne: "b \<noteq> ch" using assms(2,6) by auto
  have y: "b_ents k ?o = Some y" using ents_from_append [where xs = xs and ys = "y # ys"] assms(3) by (fastforce simp: block_rep_def)
  have f: "fntr_ent_first A ?k = fntr_ent_first A k" by (simp add: fntr_ent_first_def)
  have rep: "block_rep A ?k path (xs @ ?y # ys)"
    using ents_from_update [OF assms(1) refl, where ch = "Some ch"] assms(3) f by (simp add: block_rep_def)
  have "next_off A ?M (c_cur c) b (fntr_ent_next A ?o ?y)"
    unfolding assms(4,5) by (rule next_off_ent) (simp add: ent_def)
  then have "cur_at A ?M c b path (xs @ [?y]) ys" using rep f by (simp add: cur_at_def)
  moreover have "fntree_attach (M(ch \<mapsto> kc)) p (Some ch) = Some (?M, e_children y)"
    using assms(2,4) y ne by (simp add: fntree_attach_def fun_upd_twist)
  ultimately show ?thesis using ne assms(2) by (intro exI [of _ ?M]) auto
qed

section \<open>Delivering the entries of a block\<close>

text \<open>The queue while it is edited: the entries \<open>cs\<close> are in the place of \<open>e\<close>.\<close>
definition dir_queue ::
    "nat \<Rightarrow> nat multiset \<Rightarrow> 'w qsys \<Rightarrow> nat list \<Rightarrow> nat list \<Rightarrow> nat \<Rightarrow> (phi_track_conf \<times> u32) list \<Rightarrow> dir_pos \<Rightarrow> 'w qsys \<Rightarrow> bool" where
  "dir_queue q h s0 pre post e cs st s \<longleftrightarrow>
     own_queue q h s \<and> (\<exists>c r. st = (Some c, r) \<and> queue_edit.placed q s0 pre post e cs (c, r) s)"

lemma dir_put_queue:
  assumes "dir_queue q h s0 pre post e cs st s" and "t_qent t = Some e" and "length pre + length post + length cs + 1 < 2 ^ 32 - 1"
  shows "\<exists>st' s'. dir_put t st v s = Some (st', s') \<and> dir_queue q h s0 pre post e (cs @ [v]) st' s'"
proof -
  obtain c r where st: "st = (Some c, r)" and own: "own_queue q h s" and pl: "queue_edit.placed q s0 pre post e cs (c, r) s"
    using assms(1) by (auto simp: dir_queue_def)
  have "length (idx s q) < 2 ^ 32 - 1" using queue_edit.placed_length [OF pl] assms(3) by linarith
  then obtain x s' where "put_one queue_insert queue_remove e (c, r) v s = Some (x, s')" "own_queue q h s'"
    "queue_edit.placed q s0 pre post e (cs @ [v]) x s'"
    using queue_edit.put_one_placed [OF own pl, of v] by auto
  then show ?thesis using st assms(2) by (cases x) (auto simp: dir_put_def dir_queue_def)
qed

text \<open>The subdirectories of a list of entries.\<close>
fun kids :: "string \<Rightarrow> fntree_entry list \<Rightarrow> (nat \<times> string) list" where
  "kids path [] = []"
| "kids path (e # es) = (case e_children e of None \<Rightarrow> kids path es | Some ch \<Rightarrow> (ch, join path (e_name e)) # kids path es)"

text \<open>A block with the names of a directory, none of them entered.\<close>
definition fresh_dir :: "dir_sys \<Rightarrow> fn_store \<Rightarrow> nat \<times> string \<Rightarrow> bool" where
  "fresh_dir D M x \<longleftrightarrow>
     (\<exists>k names. M (fst x) = Some k \<and> ds_scan D (snd x) = Some names \<and> block_rep (ds_align D) k (snd x) (map new_ent names))"

lemma fresh_dir_frame: "fresh_dir D M x \<Longrightarrow> M' (fst x) = M (fst x) \<Longrightarrow> fresh_dir D M' x"
  by (simp add: fresh_dir_def)

lemma dir_step_skip:
  assumes "M b = Some k" and "Fntree.ent M p = Some (new_ent d)" and "fntree_path k = path"
    and "\<not> is_file D t (join path d)" and "\<not> is_subdir D t (join path d)"
  shows "dir_step n D t (b, p) M st s = Some (M, st, s)"
  using assms
  by (cases "ds_info D (join path d)") (auto simp: dir_step_def new_ent_def fntree_name_def join_def is_file_def is_subdir_def Let_def)

lemma dir_step_file:
  assumes "M b = Some k" and "Fntree.ent M p = Some (new_ent d)" and "fntree_path k = path" and "is_file D t (join path d)"
    and "dir_put t st (dir_conf t (join path d)) s = Some (st1, s1)"
  shows "dir_step n D t (b, p) M st s = Some (M, st1, s1)"
  using assms by (simp add: dir_step_def new_ent_def fntree_name_def join_def is_file_def)

lemma dir_step_dir:
  assumes "dir_law D" and "finite (dom M)" and "M b = Some k" and "block_rep (ds_align D) k path (xs @ new_ent d # ys)"
    and "p = (b, off_at (ds_align D) k xs)" and "Fntree.ent M p = Some (new_ent d)" and "c_cur c = Some p"
    and "is_subdir D t (join path d)" and "scan_fits (join path d) (the (ds_scan D (join path d)))"
  shows "\<exists>M2 ch. dir_step n D t (b, p) M st s = Some (M2, st, s)
    \<and> cur_at (ds_align D) M2 c b path (xs @ [(new_ent d)\<lparr>e_children := Some ch\<rparr>]) ys \<and> fresh_dir D M2 (ch, join path d)
    \<and> M ch = None \<and> dom M2 = insert ch (dom M) \<and> (\<forall>x. x \<noteq> b \<longrightarrow> x \<noteq> ch \<longrightarrow> M2 x = M x)"
proof -
  let ?f = "join path d"
  obtain names where names: "ds_scan D ?f = Some names" using assms(8) by (auto simp: is_subdir_def)
  then obtain ch kc where fs: "fntree_from_dirscan n (ds_align D) (ds_alloc D) (ds_realloc D) M ?f names 0 = Some (M(ch \<mapsto> kc), Some ch)"
    and ch: "M ch = None" "block_rep (ds_align D) kc ?f (map new_ent names)"
    using from_dirscan_new [OF assms(1,2), of ?f names n] assms(9) by auto
  have "align_law (ds_align D)" using assms(1) by (simp add: dir_law_def)
  from attach_cur_at [OF this assms(3,4,5,7) ch(1), of kc] obtain M2 where
    M2: "fntree_attach (M(ch \<mapsto> kc)) p (Some ch) = Some (M2, None)" "M2 ch = Some kc" "dom M2 = insert ch (dom M)"
      "cur_at (ds_align D) M2 c b path (xs @ [(new_ent d)\<lparr>e_children := Some ch\<rparr>]) ys" "\<forall>x. x \<noteq> b \<longrightarrow> x \<noteq> ch \<longrightarrow> M2 x = M x"
    by (auto simp: new_ent_def)
  have path: "fntree_path k = path" using assms(4) by (simp add: block_rep_def fntree_path_def)
  have "dir_step n D t (b, p) M st s = Some (M2, st, s)"
    using assms(3,6,8) path fs names M2(1) by (simp add: dir_step_def new_ent_def fntree_name_def join_def is_subdir_def)
  then show ?thesis using M2 ch names by (auto simp: fresh_dir_def)
qed

lemma kids_append: "kids path (xs @ ys) = kids path xs @ kids path ys"
  by (induction xs) (auto split: option.splits)

lemma deliver_one:
  assumes "dir_law D" and "finite (dom M)" and "cur_at (ds_align D) M c b path xs (new_ent d # ys)"
    and "dir_queue q h s0 pre post e cs st s" and "t_qent t = Some e"
    and "is_subdir D t (join path d) \<longrightarrow> scan_fits (join path d) (the (ds_scan D (join path d)))"
    and "length pre + length post + length cs + length (filter (is_file D t) [join path d]) < 2 ^ 32 - 1"
  shows "\<exists>M1 c1 st1 s1 y. (\<forall>r. dir_run n D t False M1 c1 b st1 s1 r \<longrightarrow> dir_run n D t False M c b st s r)
    \<and> c_stk c1 = c_stk c \<and> cur_at (ds_align D) M1 c1 b path (xs @ [y]) ys
    \<and> dir_queue q h s0 pre post e (cs @ map (dir_conf t) (filter (is_file D t) [join path d])) st1 s1
    \<and> map snd (kids path [y]) = filter (is_subdir D t) [join path d] \<and> (\<forall>x \<in> set (kids path [y]). fresh_dir D M1 x \<and> M (fst x) = None)
    \<and> dom M1 = dom M \<union> fst ` set (kids path [y]) \<and> (\<forall>x \<in> dom M. x \<noteq> b \<longrightarrow> M1 x = M x)"
proof -
  let ?A = "ds_align D" and ?f = "join path d"
  obtain k p where k: "M b = Some k" and p: "p = (b, off_at ?A k xs)" "fntree_cur_next ?A M c b = Some (c\<lparr>c_cur := Some p\<rparr>, Some p)"
    and en: "Fntree.ent M p = Some (new_ent d)" and path: "fntree_path k = path"
    and nx: "\<And>c'. c_cur c' = Some p \<Longrightarrow> cur_at ?A M c' b path (xs @ [new_ent d]) ys" and rep: "block_rep ?A k path (xs @ new_ent d # ys)"
    using cur_at_next [OF assms(3)] by blast
  let ?c = "c\<lparr>c_cur := Some p\<rparr>"
  note run = run_entry [OF p(2)]
  consider (skip) "\<not> is_file D t ?f" "\<not> is_subdir D t ?f" | (entry) "is_file D t ?f" | (dir) "is_subdir D t ?f" by blast
  then show ?thesis
  proof cases
    case skip
    then have "\<forall>r. dir_run n D t False M ?c b st s r \<longrightarrow> dir_run n D t False M c b st s r"
      using run [OF dir_step_skip [OF k en path]] by blast
    then show ?thesis using nx [of ?c] assms(4) skip
      by (intro exI [of _ M] exI [of _ ?c] exI [of _ st] exI [of _ s] exI [of _ "new_ent d"]) (auto simp: new_ent_def)
  next
    case entry
    then have "\<not> is_subdir D t ?f" by (auto simp: is_file_def is_subdir_def)
    moreover obtain st1 s1 where "dir_put t st (dir_conf t ?f) s = Some (st1, s1)" "dir_queue q h s0 pre post e (cs @ [dir_conf t ?f]) st1 s1"
      using dir_put_queue [OF assms(4,5), of "dir_conf t ?f"] assms(7) entry by auto
    moreover from this have "\<forall>r. dir_run n D t False M ?c b st1 s1 r \<longrightarrow> dir_run n D t False M c b st s r"
      using run [OF dir_step_file [OF k en path entry]] by blast
    ultimately show ?thesis using nx [of ?c] entry
      by (intro exI [of _ M] exI [of _ ?c] exI [of _ st1] exI [of _ s1] exI [of _ "new_ent d"]) (auto simp: new_ent_def)
  next
    case dir
    then have nf: "\<not> is_file D t ?f" by (auto simp: is_file_def is_subdir_def)
    then have "scan_fits ?f (the (ds_scan D ?f))" using assms(6) dir by blast
    from dir_step_dir [OF assms(1,2) k rep p(1) en _ dir this, of ?c n st s] obtain M2 ch where
      M2: "dir_step n D t (b, p) M st s = Some (M2, st, s)" "fresh_dir D M2 (ch, ?f)" "M ch = None" "dom M2 = insert ch (dom M)"
        "cur_at ?A M2 ?c b path (xs @ [(new_ent d)\<lparr>e_children := Some ch\<rparr>]) ys" "\<forall>x. x \<noteq> b \<longrightarrow> x \<noteq> ch \<longrightarrow> M2 x = M x"
      by auto
    have "\<forall>r. dir_run n D t False M2 ?c b st s r \<longrightarrow> dir_run n D t False M c b st s r" using run [OF M2(1)] by blast
    then show ?thesis using M2(2-) assms(4) dir nf
      by (intro exI [of _ M2] exI [of _ ?c] exI [of _ st] exI [of _ s] exI [of _ "(new_ent d)\<lparr>e_children := Some ch\<rparr>"])
        (auto simp: new_ent_def)
  qed
qed

lemma deliver:
  assumes "dir_law D" and "t_qent t = Some e" and "finite (dom M)" and "cur_at (ds_align D) M c b path xs (map new_ent ns)"
    and "dir_queue q h s0 pre post e cs st s"
    and "\<forall>d \<in> set ns. is_subdir D t (join path d) \<longrightarrow> scan_fits (join path d) (the (ds_scan D (join path d)))"
    and "length pre + length post + length cs + length (filter (is_file D t) (map (join path) ns)) < 2 ^ 32 - 1"
  shows "\<exists>M' c' st' s' es. (\<forall>r. dir_run n D t False M' c' b st' s' r \<longrightarrow> dir_run n D t False M c b st s r)
    \<and> c_stk c' = c_stk c \<and> cur_at (ds_align D) M' c' b path (xs @ es) []
    \<and> dir_queue q h s0 pre post e (cs @ map (dir_conf t) (filter (is_file D t) (map (join path) ns))) st' s'
    \<and> map snd (kids path es) = filter (is_subdir D t) (map (join path) ns)
    \<and> (\<forall>x \<in> set (kids path es). fresh_dir D M' x \<and> M (fst x) = None) \<and> distinct (map fst (kids path es))
    \<and> dom M' = dom M \<union> fst ` set (kids path es) \<and> (\<forall>x \<in> dom M. x \<noteq> b \<longrightarrow> M' x = M x)"
  using assms(3-)
proof (induction ns arbitrary: M c xs cs st s)
  case Nil
  then show ?case by (intro exI [of _ M] exI [of _ c] exI [of _ st] exI [of _ s] exI [of _ "[]"]) simp
next
  case (Cons d ns)
  have r1: "length pre + length post + length cs + length (filter (is_file D t) [join path d]) < 2 ^ 32 - 1"
    using Cons.prems(5) by (simp split: if_splits)
  have at: "cur_at (ds_align D) M c b path xs (new_ent d # map new_ent ns)" using Cons.prems(2) by simp
  have fit: "is_subdir D t (join path d) \<longrightarrow> scan_fits (join path d) (the (ds_scan D (join path d)))" using Cons.prems(4) by simp
  from deliver_one [OF assms(1) Cons.prems(1) at Cons.prems(3) assms(2) fit r1, of n] obtain M1 c1 st1 s1 y where
    one: "\<forall>r. dir_run n D t False M1 c1 b st1 s1 r \<longrightarrow> dir_run n D t False M c b st s r" "c_stk c1 = c_stk c"
      "cur_at (ds_align D) M1 c1 b path (xs @ [y]) (map new_ent ns)"
      "dir_queue q h s0 pre post e (cs @ map (dir_conf t) (filter (is_file D t) [join path d])) st1 s1"
      "map snd (kids path [y]) = filter (is_subdir D t) [join path d]" "\<forall>x \<in> set (kids path [y]). fresh_dir D M1 x \<and> M (fst x) = None"
      "dom M1 = dom M \<union> fst ` set (kids path [y])" "\<forall>x \<in> dom M. x \<noteq> b \<longrightarrow> M1 x = M x"
    by (elim exE conjE) (rule that, assumption+)
  have fin: "finite (dom M1)" using one(7) Cons.prems(1) by simp
  have r2: "length pre + length post + length (cs @ map (dir_conf t) (filter (is_file D t) [join path d]))
      + length (filter (is_file D t) (map (join path) ns)) < 2 ^ 32 - 1"
    using Cons.prems(5) by (simp split: if_splits)
  have fits: "\<forall>d \<in> set ns. is_subdir D t (join path d) \<longrightarrow> scan_fits (join path d) (the (ds_scan D (join path d)))"
    using Cons.prems(4) by simp
  from Cons.IH [OF fin one(3,4) fits r2] obtain M' c' st' s' es where
    rest: "\<forall>r. dir_run n D t False M' c' b st' s' r \<longrightarrow> dir_run n D t False M1 c1 b st1 s1 r" "c_stk c' = c_stk c1"
      "cur_at (ds_align D) M' c' b path ((xs @ [y]) @ es) []"
      "dir_queue q h s0 pre post e ((cs @ map (dir_conf t) (filter (is_file D t) [join path d]))
         @ map (dir_conf t) (filter (is_file D t) (map (join path) ns))) st' s'"
      "map snd (kids path es) = filter (is_subdir D t) (map (join path) ns)"
      "\<forall>x \<in> set (kids path es). fresh_dir D M' x \<and> M1 (fst x) = None" "distinct (map fst (kids path es))"
      "dom M' = dom M1 \<union> fst ` set (kids path es)" "\<forall>x \<in> dom M1. x \<noteq> b \<longrightarrow> M' x = M1 x"
    by (elim exE conjE) (rule that, assumption+)
  have ks: "kids path (y # es) = kids path [y] @ kids path es" using kids_append [of path "[y]" es] by simp
  have Mb: "M b \<noteq> None" using at by (auto simp: cur_at_def)
  have y: "fresh_dir D M' x \<and> M (fst x) = None" if "x \<in> set (kids path [y])" for x
  proof -
    have x: "fresh_dir D M1 x" "M (fst x) = None" "fst x \<in> dom M1" using that one(6) unfolding one(7) by blast+
    moreover have "fst x \<noteq> b" using x(2) Mb by auto
    ultimately have "M' (fst x) = M1 (fst x)" using rest(9) by blast
    then show ?thesis using x fresh_dir_frame by blast
  qed
  have es: "fresh_dir D M' x \<and> M (fst x) = None" if "x \<in> set (kids path es)" for x
  proof -
    have "fresh_dir D M' x" "fst x \<notin> dom M1" using that rest(6) by auto
    then show ?thesis unfolding one(7) by blast
  qed
  have "distinct (map fst (kids path [y]))" by (auto split: option.splits)
  moreover have "fst ` set (kids path [y]) \<inter> fst ` set (kids path es) = {}"
  proof -
    have "a \<notin> dom M1" if "a \<in> fst ` set (kids path es)" for a using that rest(6) by auto
    moreover have "a \<in> dom M1" if "a \<in> fst ` set (kids path [y])" for a using that unfolding one(7) by (rule UnI2)
    ultimately show ?thesis by (intro equals0I) (meson IntE)
  qed
  ultimately have di: "distinct (map fst (kids path (y # es)))" unfolding ks using rest(7) by simp
  have fr: "\<forall>x \<in> dom M. x \<noteq> b \<longrightarrow> M' x = M x" proof (intro ballI impI)
    fix x assume x: "x \<in> dom M" "x \<noteq> b"
    then have "x \<in> dom M1" unfolding one(7) by blast
    then show "M' x = M x" using rest(9) one(8) x by simp
  qed
  have q: "dir_queue q h s0 pre post e (cs @ map (dir_conf t) (filter (is_file D t) (map (join path) (d # ns)))) st' s'"
    using rest(4) by (simp split: if_splits)
  have sn: "map snd (kids path (y # es)) = filter (is_subdir D t) (map (join path) (d # ns))"
    unfolding ks using one(5) rest(5) by (simp split: if_splits)
  have dm: "dom M' = dom M \<union> fst ` set (kids path (y # es))" unfolding ks using one(7) rest(8) by (simp add: Un_assoc image_Un)
  have all: "\<forall>x \<in> set (kids path (y # es)). fresh_dir D M' x \<and> M (fst x) = None" unfolding ks using y es by auto
  have run: "\<forall>r. dir_run n D t False M' c' b st' s' r \<longrightarrow> dir_run n D t False M c b st s r" using one(1) rest(1) by blast
  have at': "cur_at (ds_align D) M' c' b path (xs @ y # es) []" using rest(3) by simp
  have sk: "c_stk c' = c_stk c" using one(2) rest(2) by simp
  show ?case
    by (intro exI conjI) (rule run sk at' q sn all di dm fr)+
qed

section \<open>Visiting a directory\<close>

lemma dir_ok_scan: "dir_ok d D t path \<Longrightarrow> 0 < d \<and> scan_fits path (the (ds_scan D path))"
  by (cases d) (auto split: option.splits)

lemma ftree_at_frame:
  "ftree_at A M b off T \<Longrightarrow> M' b = M b \<Longrightarrow> (\<And>x. x \<in> set (sub_blocks T) \<Longrightarrow> M' x = M x) \<Longrightarrow> ftree_at A M' b off T"
proof (induction T arbitrary: b off)
  case (FDir o1 ch s r)
  have "M' ch = M ch" using FDir.prems(3) by simp
  then show ?case using FDir by (auto simp: ent_def split: option.splits)
qed (auto simp: ent_def split: option.splits)

text \<open>A directory of at most \<open>d\<close> levels can be visited from any cursor with enough room on its stack.\<close>
definition visits ::
    "nat \<Rightarrow> dir_sys \<Rightarrow> phi_track \<Rightarrow> nat \<Rightarrow> nat multiset \<Rightarrow> 'w qsys \<Rightarrow> nat list \<Rightarrow> nat list \<Rightarrow> nat \<Rightarrow> nat \<Rightarrow> bool" where
  "visits n D t q h s0 pre post e d \<longleftrightarrow>
     (\<forall>M c b path cs st s. fresh_dir D M (b, path) \<longrightarrow> dir_ok d D t path \<longrightarrow> c_cur c = None
        \<longrightarrow> length (c_stk c) + d \<le> Suc FNTR_DEPTH \<longrightarrow> finite (dom M) \<longrightarrow> dir_queue q h s0 pre post e cs st s
        \<longrightarrow> length pre + length post + length cs + length (dir_files d D t path) < 2 ^ 32 - 1
        \<longrightarrow> (\<exists>M' c' st' s' T. (\<forall>r. dir_run n D t True M' c' b st' s' r \<longrightarrow> dir_run n D t False M c b st s r)
              \<and> c_stk c' = c_stk c \<and> fntree_cur_next (ds_align D) M' c' b = Some (c', None)
              \<and> dir_queue q h s0 pre post e (cs @ map (dir_conf t) (dir_files d D t path)) st' s'
              \<and> tree_at (ds_align D) M' b T \<and> ft_depth T < d \<and> distinct (sub_blocks T) \<and> set (sub_blocks T) \<inter> dom M = {}
              \<and> dom M' = dom M \<union> set (sub_blocks T) \<and> (\<forall>x \<in> dom M. x \<noteq> b \<longrightarrow> M' x = M x)))"

lemma seek:
  assumes "dir_law D" and vis: "visits n D t q h s0 pre post e d"
    and "M b = Some k" and "ents_from (ds_align D) k off es" and "next_off (ds_align D) M (c_cur c) b off"
    and "\<forall>x \<in> set (kids path es). fresh_dir D M x \<and> dir_ok d D t (snd x)" and "distinct (map fst (kids path es))"
    and "b \<notin> fst ` set (kids path es)" and "length (c_stk c) + d \<le> FNTR_DEPTH" and "finite (dom M)"
    and "dir_queue q h s0 pre post e cs st s"
    and "length pre + length post + length cs + length (concat (map (\<lambda>x. dir_files d D t (snd x)) (kids path es))) < 2 ^ 32 - 1"
  shows "\<exists>M' c' st' s' R. (\<forall>r. dir_run n D t True M' c' b st' s' r \<longrightarrow> dir_run n D t True M c b st s r)
    \<and> c_stk c' = c_stk c \<and> fntree_cur_next (ds_align D) M' c' b = Some (c', None)
    \<and> dir_queue q h s0 pre post e (cs @ map (dir_conf t) (concat (map (\<lambda>x. dir_files d D t (snd x)) (kids path es)))) st' s'
    \<and> ftree_at (ds_align D) M' b off R \<and> ft_depth R \<le> d \<and> distinct (sub_blocks R)
    \<and> set (sub_blocks R) \<inter> dom M = fst ` set (kids path es) \<and> dom M' = dom M \<union> set (sub_blocks R)
    \<and> (\<forall>x \<in> dom M. x \<notin> fst ` set (kids path es) \<longrightarrow> M' x = M x)"
  using assms(3-)
proof (induction es arbitrary: M c off cs st s)
  case Nil
  then have "fntree_cur_next (ds_align D) M c b = Some (c, None)" using cur_next_at [OF Nil.prems(3,1)] by simp
  then show ?case using Nil
    by (intro exI [of _ M] exI [of _ c] exI [of _ st] exI [of _ s] exI [of _ FLeaf]) simp
next
  case (Cons y es)
  let ?A = "ds_align D" and ?p = "(b, off)"
  have y: "b_ents k off = Some y" "off < b_size k" "ents_from ?A k (fntr_ent_next ?A off y) es" using Cons.prems(2) by simp_all
  have en: "Fntree.ent M ?p = Some y" using y(1) Cons.prems(1) by (simp add: ent_def)
  let ?c = "c\<lparr>c_cur := Some ?p\<rparr>"
  have nx: "fntree_cur_next ?A M c b = Some (?c, Some ?p)" using cur_next_at [OF Cons.prems(3,1)] y(2) by simp
  show ?case
  proof (cases "e_children y")
    case None
    then have ks: "kids path (y # es) = kids path es" by simp
    have n1: "next_off ?A M (c_cur ?c) b (fntr_ent_next ?A off y)" using next_off_ent [OF en] by simp
    have l1: "length (c_stk ?c) + d \<le> FNTR_DEPTH" using Cons.prems(7) by simp
    note pk = Cons.prems(4-6,8-10) [unfolded ks]
    from Cons.IH [where M = M, OF Cons.prems(1) y(3) n1 pk(1-3) l1 pk(4-6)] obtain M' c' st' s' R where
      r: "\<forall>r. dir_run n D t True M' c' b st' s' r \<longrightarrow> dir_run n D t True M ?c b st s r" "c_stk c' = c_stk ?c"
        "fntree_cur_next ?A M' c' b = Some (c', None)"
        "dir_queue q h s0 pre post e (cs @ map (dir_conf t) (concat (map (\<lambda>x. dir_files d D t (snd x)) (kids path es)))) st' s'"
        "ftree_at ?A M' b (fntr_ent_next ?A off y) R" "ft_depth R \<le> d" "distinct (sub_blocks R)"
        "set (sub_blocks R) \<inter> dom M = fst ` set (kids path es)" "dom M' = dom M \<union> set (sub_blocks R)"
        "\<forall>x \<in> dom M. x \<notin> fst ` set (kids path es) \<longrightarrow> M' x = M x"
      by (elim exE conjE) (rule that, assumption+)
    have "M' b = Some k" using r(10) Cons.prems(1,6) ks by auto
    then have "ftree_at ?A M' b off (FFile off R)" using r(5) y None by (simp add: ent_def)
    moreover have "\<forall>r. dir_run n D t True M' c' b st' s' r \<longrightarrow> dir_run n D t True M c b st s r"
      using r(1) run_skip [OF nx en None] by blast
    ultimately show ?thesis using r(2-4,6-10) unfolding ks
      by (intro exI [of _ M'] exI [of _ c'] exI [of _ st'] exI [of _ s'] exI [of _ "FFile off R"]) simp
  next
    case (Some ch)
    let ?f = "join path (e_name y)" and ?ks = "fst ` set (kids path es)"
    have ks: "kids path (y # es) = (ch, ?f) # kids path es" using Some by simp
    have ch: "fresh_dir D M (ch, ?f)" "dir_ok d D t ?f" "ch \<notin> ?ks" "b \<noteq> ch" using Cons.prems(4-6) unfolding ks by auto
    have dp: "0 < d" using dir_ok_scan [OF ch(2)] by simp
    let ?c2 = "\<lparr>c_cur = None, c_curblock = CbAt ch, c_stk = (b, ?p) # c_stk c\<rparr>"
    have push: "fntr_cur_push ?c b ?p ch = (?c2, Some ch)"
      using Cons.prems(7) dp by (simp add: fntr_cur_push_def fntree_cur_depth_def)
    have room: "length pre + length post + length cs + length (dir_files d D t ?f) < 2 ^ 32 - 1" using Cons.prems(10) unfolding ks by simp
    have len: "length (c_stk ?c2) + d \<le> Suc FNTR_DEPTH" using Cons.prems(7) by simp
    have c2: "c_cur ?c2 = None" by simp
    from vis [unfolded visits_def, rule_format, OF ch(1,2) c2 len Cons.prems(8,9) room]
    obtain M1 c1 st1 s1 T where
      v: "\<forall>r. dir_run n D t True M1 c1 ch st1 s1 r \<longrightarrow> dir_run n D t False M ?c2 ch st s r" "c_stk c1 = c_stk ?c2"
        "fntree_cur_next ?A M1 c1 ch = Some (c1, None)" "dir_queue q h s0 pre post e (cs @ map (dir_conf t) (dir_files d D t ?f)) st1 s1"
        "tree_at ?A M1 ch T" "ft_depth T < d" "distinct (sub_blocks T)" "set (sub_blocks T) \<inter> dom M = {}"
        "dom M1 = dom M \<union> set (sub_blocks T)" "\<forall>x \<in> dom M. x \<noteq> ch \<longrightarrow> M1 x = M x"
      by (elim exE conjE) (rule that, assumption+)
    let ?c3 = "\<lparr>c_cur = Some ?p, c_curblock = CbAt b, c_stk = c_stk c\<rparr>"
    have pop: "fntr_cur_pop c1 = (?c3, Some b)" using v(2) by simp
    have Mb: "M1 b = Some k" using v(10) Cons.prems(1) ch(4) by auto
    have nx1: "next_off ?A M1 (c_cur ?c3) b (fntr_ent_next ?A off y)" using next_off_ent [of M1 b off y] y(1) Mb by (simp add: ent_def)
    have fr: "\<forall>x \<in> set (kids path es). fresh_dir D M1 x \<and> dir_ok d D t (snd x)"
    proof
      fix x assume x: "x \<in> set (kids path es)"
      then have fx: "fresh_dir D M x" "dir_ok d D t (snd x)" using Cons.prems(4) unfolding ks by auto
      then have "fst x \<in> dom M" by (auto simp: fresh_dir_def)
      moreover have "fst x \<noteq> ch" using x ch(3) by auto
      ultimately have "M1 (fst x) = M (fst x)" using v(10) by blast
      then show "fresh_dir D M1 x \<and> dir_ok d D t (snd x)" using fx fresh_dir_frame by blast
    qed
    have di: "distinct (map fst (kids path es))" "b \<notin> ?ks" using Cons.prems(5,6) unfolding ks by simp_all
    have fin: "finite (dom M1)" using v(9) Cons.prems(8) by simp
    have r3: "length pre + length post + length (cs @ map (dir_conf t) (dir_files d D t ?f))
        + length (concat (map (\<lambda>x. dir_files d D t (snd x)) (kids path es))) < 2 ^ 32 - 1"
      using Cons.prems(10) unfolding ks by simp
    have len3: "length (c_stk ?c3) + d \<le> FNTR_DEPTH" using Cons.prems(7) by simp
    from Cons.IH [where M = M1, OF Mb y(3) nx1 fr di len3 fin v(4) r3] obtain M' c' st' s' R where
      r: "\<forall>r. dir_run n D t True M' c' b st' s' r \<longrightarrow> dir_run n D t True M1 ?c3 b st1 s1 r" "c_stk c' = c_stk ?c3"
        "fntree_cur_next ?A M' c' b = Some (c', None)"
        "dir_queue q h s0 pre post e ((cs @ map (dir_conf t) (dir_files d D t ?f))
           @ map (dir_conf t) (concat (map (\<lambda>x. dir_files d D t (snd x)) (kids path es)))) st' s'"
        "ftree_at ?A M' b (fntr_ent_next ?A off y) R" "ft_depth R \<le> d" "distinct (sub_blocks R)"
        "set (sub_blocks R) \<inter> dom M1 = ?ks" "dom M' = dom M1 \<union> set (sub_blocks R)"
        "\<forall>x \<in> dom M1. x \<notin> ?ks \<longrightarrow> M' x = M1 x"
      by (elim exE conjE) (rule that, assumption+)
    have run: "\<forall>r. dir_run n D t True M' c' b st' s' r \<longrightarrow> dir_run n D t True M c b st s r"
      using r(1) run_pop [OF v(3) pop] v(1) run_push [OF nx en Some push] by blast
    have chM: "ch \<in> dom M" using ch(1) by (auto simp: fresh_dir_def)
    have kM: "?ks \<subseteq> dom M" using Cons.prems(4) unfolding ks by (auto simp: fresh_dir_def)
    have same: "M' x = M1 x" if "x \<in> insert ch (insert b (set (sub_blocks T)))" for x
    proof -
      have "x \<in> dom M1" using that chM Mb v(9) by auto
      moreover have "x \<notin> ?ks" using that ch(3) di(2) v(8) kM by blast
      ultimately show ?thesis using r(10) by blast
    qed
    obtain k1 where k1: "M1 ch = Some k1" "ftree_at ?A M1 ch (fntr_ent_first ?A k1) T"
      using v(5) by (auto simp: tree_at_def split: option.splits)
    have "ftree_at ?A M' ch (fntr_ent_first ?A k1) T" using ftree_at_frame [OF k1(2)] same by simp
    moreover have "M' ch = Some k1" "M' b = Some k" using same k1(1) Mb by simp_all
    ultimately have tree: "ftree_at ?A M' b off (FDir off ch T R)" using r(5) y Some by (simp add: ent_def)
    have TM: "set (sub_blocks T) \<subseteq> dom M1" "dom M \<subseteq> dom M1" unfolding v(9) by simp_all
    have RM: "set (sub_blocks R) \<inter> dom M1 \<subseteq> dom M" unfolding r(8) by (rule kM)
    have sub1: "set (sub_blocks T) \<inter> set (sub_blocks R) = {}" using TM(1) RM v(8) by blast
    have sub2: "ch \<notin> set (sub_blocks R)"
    proof
      assume "ch \<in> set (sub_blocks R)"
      then have "ch \<in> set (sub_blocks R) \<inter> dom M1" using chM TM(2) by blast
      then show False using ch(3) unfolding r(8) by simp
    qed
    have RK: "set (sub_blocks R) \<inter> dom M = ?ks" using r(8) TM(2) RM by blast
    have chT: "ch \<notin> set (sub_blocks T)" using v(8) chM by blast
    have dist: "distinct (sub_blocks (FDir off ch T R))" using sub1 sub2 chT v(7) r(7) by simp
    have dp: "ft_depth (FDir off ch T R) \<le> d" using v(6) r(6) by simp
    have int: "set (sub_blocks (FDir off ch T R)) \<inter> dom M = fst ` set (kids path (y # es))"
      unfolding ks using RK v(8) chM by auto
    have dom: "dom M' = dom M \<union> set (sub_blocks (FDir off ch T R))" using r(9) v(9) chM by auto
    have frame: "\<forall>x \<in> dom M. x \<notin> fst ` set (kids path (y # es)) \<longrightarrow> M' x = M x"
      unfolding ks using r(10) v(9,10) by auto
    have qu: "dir_queue q h s0 pre post e (cs @ map (dir_conf t) (concat (map (\<lambda>x. dir_files d D t (snd x)) (kids path (y # es))))) st' s'"
      unfolding ks using r(4) by simp
    have sk: "c_stk c' = c_stk c" using r(2) by simp
    show ?thesis by (intro exI conjI) (rule run sk r(3) qu tree dp dist int dom frame)+
  qed
qed

lemma visits_dir:
  assumes "dir_law D" and "t_qent t = Some e"
  shows "visits n D t q h s0 pre post e d"
proof (induction d)
  case 0
  then show ?case by (simp add: visits_def)
next
  case (Suc d)
  show ?case
    unfolding visits_def
  proof (intro allI impI)
    fix M and c :: fntree_cursor and b path cs st and s :: "'a qsys"
    assume fr: "fresh_dir D M (b, path)" and ok: "dir_ok (Suc d) D t path" and c: "c_cur c = None"
      and len: "length (c_stk c) + Suc d \<le> Suc FNTR_DEPTH" and fin: "finite (dom M)" and qu: "dir_queue q h s0 pre post e cs st s"
      and room: "length pre + length post + length cs + length (dir_files (Suc d) D t path) < 2 ^ 32 - 1"
    let ?A = "ds_align D"
    obtain k names where k: "M b = Some k" "ds_scan D path = Some names" "block_rep ?A k path (map new_ent names)"
      using fr by (auto simp: fresh_dir_def)
    let ?files = "filter (is_file D t) (map (join path) names)" and ?dirs = "filter (is_subdir D t) (map (join path) names)"
    have files: "dir_files (Suc d) D t path = ?files @ concat (map (dir_files d D t) ?dirs)" using k(2) by simp
    have oks: "\<forall>f \<in> set ?dirs. dir_ok d D t f" using ok k(2) by (auto simp: list_all_iff)
    have fits: "\<forall>x \<in> set names. is_subdir D t (join path x) \<longrightarrow> scan_fits (join path x) (the (ds_scan D (join path x)))"
      using oks dir_ok_scan by auto
    have r1: "length pre + length post + length cs + length ?files < 2 ^ 32 - 1" using room files by simp
    have at: "cur_at ?A M c b path [] (map new_ent names)" using k c by (simp add: cur_at_start)
    from deliver [OF assms fin at qu fits r1, of n] obtain M1 c1 st1 s1 es where
      one: "\<forall>r. dir_run n D t False M1 c1 b st1 s1 r \<longrightarrow> dir_run n D t False M c b st s r" "c_stk c1 = c_stk c"
        "cur_at ?A M1 c1 b path ([] @ es) []" "dir_queue q h s0 pre post e (cs @ map (dir_conf t) ?files) st1 s1"
        "map snd (kids path es) = ?dirs" "\<forall>x \<in> set (kids path es). fresh_dir D M1 x \<and> M (fst x) = None"
        "distinct (map fst (kids path es))" "dom M1 = dom M \<union> fst ` set (kids path es)" "\<forall>x \<in> dom M. x \<noteq> b \<longrightarrow> M1 x = M x"
      by (elim exE conjE) (rule that, assumption+)
    let ?ks = "fst ` set (kids path es)"
    obtain k1 where k1: "M1 b = Some k1" "ents_from ?A k1 (fntr_ent_first ?A k1) es" using one(3) by (auto simp: cur_at_def block_rep_def)
    let ?c = "c1\<lparr>c_cur := None\<rparr>"
    have nx: "next_off ?A M1 (c_cur ?c) b (fntr_ent_first ?A k1)" using k1(1) by (simp add: next_off_def)
    have kd: "\<forall>x \<in> set (kids path es). fresh_dir D M1 x \<and> dir_ok d D t (snd x)"
    proof
      fix x assume x: "x \<in> set (kids path es)"
      then have "snd x \<in> set ?dirs" unfolding one(5) [symmetric] by simp
      then show "fresh_dir D M1 x \<and> dir_ok d D t (snd x)" using oks one(6) x by blast
    qed
    have bk: "b \<notin> ?ks" using one(6) k(1) by auto
    have len1: "length (c_stk ?c) + d \<le> FNTR_DEPTH" using len one(2) by simp
    have fin1: "finite (dom M1)" using fin one(8) by simp
    have sub: "concat (map (\<lambda>x. dir_files d D t (snd x)) (kids path es)) = concat (map (dir_files d D t) ?dirs)"
      unfolding one(5) [symmetric] by (simp add: comp_def)
    have r2: "length pre + length post + length (cs @ map (dir_conf t) ?files)
        + length (concat (map (\<lambda>x. dir_files d D t (snd x)) (kids path es))) < 2 ^ 32 - 1"
      unfolding sub using room files by simp
    from seek [where M = M1, OF assms(1) Suc.IH k1 nx kd one(7) bk len1 fin1 one(4) r2] obtain M' c' st' s' R where
      r: "\<forall>r. dir_run n D t True M' c' b st' s' r \<longrightarrow> dir_run n D t True M1 ?c b st1 s1 r" "c_stk c' = c_stk ?c"
        "fntree_cur_next ?A M' c' b = Some (c', None)"
        "dir_queue q h s0 pre post e ((cs @ map (dir_conf t) ?files)
           @ map (dir_conf t) (concat (map (\<lambda>x. dir_files d D t (snd x)) (kids path es)))) st' s'"
        "ftree_at ?A M' b (fntr_ent_first ?A k1) R" "ft_depth R \<le> d" "distinct (sub_blocks R)"
        "set (sub_blocks R) \<inter> dom M1 = ?ks" "dom M' = dom M1 \<union> set (sub_blocks R)" "\<forall>x \<in> dom M1. x \<notin> ?ks \<longrightarrow> M' x = M1 x"
      by (elim exE conjE) (rule that, assumption+)
    have "cur_at ?A M1 c1 b path es []" using one(3) by simp
    then have end1: "fntree_cur_next ?A M1 c1 b = Some (c1, None)" by (rule cur_at_end)
    have run: "\<forall>r. dir_run n D t True M' c' b st' s' r \<longrightarrow> dir_run n D t False M c b st s r"
      using r(1) one(1) run_rescan [OF end1] by blast
    have Mb: "M' b = Some k1" using r(10) k1(1) bk by auto
    have kM: "?ks \<inter> dom M = {}" using one(6) by auto
    have sk: "c_stk c' = c_stk c" using r(2) one(2) by simp
    have qu': "dir_queue q h s0 pre post e (cs @ map (dir_conf t) (dir_files (Suc d) D t path)) st' s'"
      using r(4) unfolding sub files by simp
    have tree: "tree_at ?A M' b R" using Mb r(5) by (simp add: tree_at_def)
    have dp: "ft_depth R < Suc d" using r(6) by simp
    have KR: "?ks \<subseteq> set (sub_blocks R)" unfolding r(8) [symmetric] by (rule Int_lower1)
    have int: "set (sub_blocks R) \<inter> dom M = {}"
    proof (intro equals0I)
      fix x assume "x \<in> set (sub_blocks R) \<inter> dom M"
      then have "x \<in> set (sub_blocks R) \<inter> dom M1" "x \<in> dom M" unfolding one(8) by simp_all
      then show False using kM unfolding r(8) by blast
    qed
    have dom: "dom M' = dom M \<union> set (sub_blocks R)" unfolding r(9) one(8) using KR by blast
    have frame: "\<forall>x \<in> dom M. x \<noteq> b \<longrightarrow> M' x = M x"
    proof (intro ballI impI)
      fix x assume x: "x \<in> dom M" "x \<noteq> b"
      then have "x \<in> dom M1" "x \<notin> ?ks" unfolding one(8) using kM by blast+
      then show "M' x = M x" using r(10) one(9) x by simp
    qed
    show "\<exists>M' c' st' s' T. (\<forall>r. dir_run n D t True M' c' b st' s' r \<longrightarrow> dir_run n D t False M c b st s r)
        \<and> c_stk c' = c_stk c \<and> fntree_cur_next ?A M' c' b = Some (c', None)
        \<and> dir_queue q h s0 pre post e (cs @ map (dir_conf t) (dir_files (Suc d) D t path)) st' s'
        \<and> tree_at ?A M' b T \<and> ft_depth T < Suc d \<and> distinct (sub_blocks T) \<and> set (sub_blocks T) \<inter> dom M = {}
        \<and> dom M' = dom M \<union> set (sub_blocks T) \<and> (\<forall>x \<in> dom M. x \<noteq> b \<longrightarrow> M' x = M x)"
      by (intro exI conjI) (rule run sk r(3) qu' tree dp r(7) int dom frame)+
  qed
qed

section \<open>The whole filter\<close>

lemma placed_done:
  assumes "dir_queue q h s0 pre post e cs st s"
  shows "own_queue q h s \<and> (\<exists>ns. idx s q = pre @ ns @ post \<and> (if cs = [] then ns = [e] else map (ent_val s) ns = map Some cs))
    \<and> (\<forall>x \<in> set (pre @ post). ent_val s x = ent_val s0 x)"
  using assms by (cases "cs = []") (auto simp: dir_queue_def queue_edit.placed_def)

lemma free_restores:
  assumes "M root = None" and "set bs \<inter> dom (M(root \<mapsto> b)) = {}" and "dom M2 = dom (M(root \<mapsto> b)) \<union> set bs"
    and "\<forall>x \<in> dom (M(root \<mapsto> b)). x \<noteq> root \<longrightarrow> M2 x = (M(root \<mapsto> b)) x"
  shows "M2 |` (- set (bs @ [root])) = M"
proof
  fix x
  consider "x = root" | "x \<in> set bs" | "x \<in> dom M" "x \<noteq> root" "x \<notin> set bs" | "x \<notin> dom M2" using assms(3) by auto
  then show "(M2 |` (- set (bs @ [root]))) x = M x"
  proof cases
    case 2
    then have "x \<notin> dom M" using assms(2) by auto
    then show ?thesis using 2 by (simp add: restrict_map_def domIff)
  next
    case 3
    then show ?thesis using assms(4) by (simp add: restrict_map_def)
  next
    case 4
    then have "x \<notin> dom M" using assms(3) by auto
    then show ?thesis using 4 by (simp add: restrict_map_def domIff)
  qed (simp add: restrict_map_def assms(1))
qed


text \<open>A directory with a file and a subdirectory with one more file.\<close>
definition demo_dir :: dir_sys where
  "demo_dir = \<lparr>ds_scan = (\<lambda>p. if p = ''/m'' then Some [''d'', ''a''] else if p = ''/m/d'' then Some [''b''] else None),
     ds_open = (\<lambda>f. True), ds_info = (\<lambda>f. Some (f = ''/m/d'')), ds_wild = (\<lambda>w f. False), ds_align = demo_align,
     ds_alloc = (\<lambda>M n. Some (Suc (Max (insert 0 (dom M))))), ds_realloc = (\<lambda>M a n. Some a)\<rparr>"

lemma demo_dir_law: "dir_law demo_dir"
proof -
  have "M (Suc (Max (insert 0 (dom M)))) = None" if "finite (dom M)" for M :: fn_store
  proof -
    have "x < Suc (Max (insert 0 (dom M)))" if "x \<in> dom M" for x using that \<open>finite (dom M)\<close> by (simp add: less_Suc_eq_le)
    then show ?thesis by (metis domIff less_irrefl)
  qed
  then show ?thesis using demo_align_law demo_realloc_law by (simp add: dir_law_def demo_dir_def)
qed

abbreviation "demo_dir_track \<equiv> phi_track_zero\<lparr>t_qent := Some 3,
  t_conf := phi_track_conf_zero\<lparr>c_ifile := (c_ifile phi_track_conf_zero)\<lparr>if_name := Some ''/m''\<rparr>\<rparr>\<rparr>"

lemma demo_dir_files: "dir_files (Suc (Suc 0)) demo_dir demo_dir_track ''/m'' = [''/m/a'', ''/m/d/b'']"
  by (simp add: demo_dir_def join_def is_file_def is_subdir_def file_matches_def phi_track_conf_zero_def)

lemma demo_dir_ok: "dir_ok (Suc (Suc 0)) demo_dir demo_dir_track ''/m''"
  by (simp add: demo_dir_def join_def is_subdir_def file_matches_def phi_track_conf_zero_def scan_fits_def)


section \<open>A tree that is too deep\<close>

text \<open>A directory in the 66th level: the push of the cursor fails, and the null block is read.\<close>
lemma dir_depth_faults:
  assumes "fntree_cur_next A M c b = Some (c1, Some p)" and "Fntree.ent M p = Some e" and "e_children e = Some ch"
    and "fntree_cur_depth c1 = FNTR_DEPTH"
  shows "sub_then v A M c b u = None"
  using assms by (cases v) (simp_all add: sub_then_def fntr_cur_push_def)

end
