(* ===== verification/Tag_Edit.thy ===== *)
theory Tag_Edit
  imports Sys_File Detector "HOL-Library.Monad_Syntax"
begin

text \<open>
  \<open>src/format/tag.c\<close>: editing the tags of an mp3 file in its place. The new ID3v2 tag is written over the old
  one when it fits, otherwise the file is copied behind the new tag to a temporary file that is renamed
  at the end; the ID3v1 tag is written at the end of the file.

  Parameters are the file calls, the readers and writers of avpack for the two tags, and the string functions
  of ffbase. The reader of a tag is given the whole buffer, so it stands for the results
  of its successive calls.
\<close>

section \<open>The environment\<close>

text \<open>Further file calls: \<open>fffile_open (FFFILE_READWRITE)\<close>, \<open>fffile_read\<close>, \<open>fffile_size\<close>, \<open>fffile_set_mtime\<close>.\<close>
record 'k tag_kfs = "'k kfs" +
  k_open_rw :: "string \<Rightarrow> 'k \<Rightarrow> nat option \<times> 'k"
  k_read :: "nat \<Rightarrow> u64 \<Rightarrow> 'k \<Rightarrow> bytes option \<times> 'k"
  k_size :: "nat \<Rightarrow> 'k \<Rightarrow> u64"
  k_set_fmtime :: "nat \<Rightarrow> fftime \<Rightarrow> 'k \<Rightarrow> 'k"

text \<open>
  The result of a call of \<open>id3v2read_process\<close> or \<open>id3v1read_process\<close>: a tag with its number, name (and the
  bytes behind the name) and value; no tag in the buffer; anything else (end, warning, error).
\<close>
datatype id3_tok = IdTag nat string string string | IdNo | IdOther

record ('w, 'v) id3_lib =
  i_split :: "string \<Rightarrow> (string \<times> string) option"     \<comment> \<open>\<open>ffstr_splitby (kv, '=')\<close>; None if it is negative\<close>
  i_find :: "string list \<Rightarrow> string \<Rightarrow> nat option"        \<comment> \<open>\<open>ffszarr_find\<close>; None is -1\<close>
  i3_toks :: "bytes \<Rightarrow> id3_tok list"
  i3_size :: "bytes \<Rightarrow> u32"                             \<comment> \<open>\<open>id3v2read_size\<close> after the first call\<close>
  i3_new :: 'w                                          \<comment> \<open>\<open>id3v2write_create\<close> with \<open>as_is\<close>\<close>
  i3_add :: "'w \<Rightarrow> nat \<Rightarrow> string \<Rightarrow> 'w"
  i3_addframe :: "'w \<Rightarrow> string \<Rightarrow> string \<Rightarrow> 'w"
  i3_len :: "'w \<Rightarrow> nat"
  i3_finish :: "'w \<Rightarrow> nat \<Rightarrow> (bytes \<times> nat) option"      \<comment> \<open>the buffer and its capacity; None if it is not 0\<close>
  i1_toks :: "bytes \<Rightarrow> id3_tok list"
  i1_new :: 'v
  i1_set :: "'v \<Rightarrow> nat \<Rightarrow> string \<Rightarrow> 'v"
  i1_bytes :: "'v \<Rightarrow> bytes"

section \<open>The editor\<close>

record phi_tag_conf =
  tc_filename :: string
  tc_meta :: "string list"
  tc_clear :: bool
  tc_preserve_date :: bool

record tag_edit =
  te_conf :: phi_tag_conf
  te_fd :: "nat option"
  te_fdw :: "nat option"
  te_buf :: bytes
  te_cap :: nat
  te_mtime :: fftime
  te_fnw :: "string option"
  te_done :: bool

definition ffmmtag_str :: "string list" where
  "ffmmtag_str = ['''', ''album'', ''albumartist'', ''artist'', ''comment'', ''composer'', ''copyright'', ''date'', ''discnumber'',
     ''genre'', ''lyrics'', ''picture'', ''publisher'', ''title'', ''tracknumber'', ''tracktotal'', ''vendor'']"

text \<open>The error code \<open>'e'\<close>.\<close>
definition err_e :: int where "err_e = 101"

text \<open>The loop; \<open>n\<close> bounds its rounds, since a read may return nothing. The flag is true for the code 0.\<close>
fun file_copydata :: "nat \<Rightarrow> 'k tag_kfs \<Rightarrow> nat \<Rightarrow> u64 \<Rightarrow> nat \<Rightarrow> u64 \<Rightarrow> u64 \<Rightarrow> 'k \<Rightarrow> (bool \<times> 'k) option" where
  "file_copydata 0 G src offsrc dst offdst sz k = None"
| "file_copydata (Suc n) G src offsrc dst offdst sz k =
     (if sz = 0 then Some (True, k)
      else (case k_readat G src (min sz (8 * 1024 * 1024)) offsrc k of
         None \<Rightarrow> Some (False, k)
       | Some d \<Rightarrow>
           (case k_writeat G dst d offdst k of
              (r, k1) \<Rightarrow>
                if r < 0 then Some (False, k1)
                else file_copydata n G src (offsrc + u64len d) dst (offdst + word_of_int r) (sz - word_of_int r) k1)))"

text \<open>The number of the tag and the value; \<open>None\<close>: the text has no separator.\<close>
definition user_meta_split :: "('w, 'v) id3_lib \<Rightarrow> string \<Rightarrow> (nat \<times> string) option" where
  "user_meta_split L kv =
     map_option (\<lambda>(k, v). (case i_find L ffmmtag_str k of None \<Rightarrow> 0 | Some tag \<Rightarrow> tag, v)) (i_split L kv)"

fun user_meta_find :: "('w, 'v) id3_lib \<Rightarrow> string list \<Rightarrow> nat \<Rightarrow> string option" where
  "user_meta_find L [] tag = None"
| "user_meta_find L (kv # m) tag =
     (if kv = [] then user_meta_find L m tag
      else (case user_meta_split L kv of
              Some (r, v) \<Rightarrow> if r = tag then Some v else user_meta_find L m tag
            | None \<Rightarrow> user_meta_find L m tag))"

text \<open>
  The loop over the existing tags. A name longer than four bytes is copied over the end of \<open>key\<close>, a shorter
  one is read beyond its end: \<open>ffmax\<close> stands where \<open>ffmin\<close> was meant.
\<close>
fun id3_copy :: "('w, 'v) id3_lib \<Rightarrow> string list \<Rightarrow> id3_tok list \<Rightarrow> 'w \<Rightarrow> bool list \<Rightarrow> ('w \<times> bool list) option" where
  "id3_copy L meta (IdTag tag ik after iv # ts) w added =
     (let w1 =
        (case user_meta_find L meta tag of
           Some v \<Rightarrow> Some (i3_add L w tag v)
         | None \<Rightarrow>
             if tag \<noteq> 0 then Some (i3_add L w tag iv)
             else if length ik > 4 \<or> length (ik @ after) < 4 then None
             else Some (i3_addframe L w (take 4 (ik @ after)) iv))
      in case w1 of
           None \<Rightarrow> None
         | Some w2 \<Rightarrow> if length added \<le> tag then None else id3_copy L meta ts w2 (added[tag := True]))"
| "id3_copy L meta ts w added = Some (w, added)"

text \<open>The loop over the tags of the user. The inner \<open>None\<close> is the error code.\<close>
fun id3_new :: "('w, 'v) id3_lib \<Rightarrow> string list \<Rightarrow> 'w \<Rightarrow> bool list \<Rightarrow> 'w option option" where
  "id3_new L [] w added = Some (Some w)"
| "id3_new L (kv # m) w added =
     (if kv = [] then id3_new L m w added
      else (case user_meta_split L kv of
         None \<Rightarrow> Some None
       | Some (tag, v) \<Rightarrow>
           if length added \<le> tag then None
           else if added ! tag then id3_new L m w added
           else id3_new L m (i3_add L w tag v) added))"

definition id3_padding :: "u32 \<Rightarrow> nat \<Rightarrow> nat" where
  "id3_padding sz len =
     (let p = sint (ucast sz - of_nat len :: u32); p1 = (if p < 0 then sint (1000 - of_nat len :: u32) else p)
      in nat (if p1 < 0 then 0 else p1))"

text \<open>The new tag: from the existing ones and those of the user to the finished buffer.\<close>
definition id3_build :: "('w, 'v) id3_lib \<Rightarrow> phi_tag_conf \<Rightarrow> id3_tok list \<Rightarrow> u32 \<Rightarrow> (bytes \<times> nat) option option" where
  "id3_build L cf ts sz = do {
     (w, added) \<leftarrow> (if tc_clear cf then Some (i3_new L, replicate (length ffmmtag_str) False)
                    else id3_copy L (tc_meta cf) ts (i3_new L) (replicate (length ffmmtag_str) False));
     wo \<leftarrow> id3_new L (tc_meta cf) w added;
     Some (Option.bind wo (\<lambda>w1. i3_finish L w1 (id3_padding sz (i3_len L w1))))
   }"

text \<open>The new tag is stored.\<close>
definition id3_save :: "nat \<Rightarrow> 'k tag_kfs \<Rightarrow> tag_edit \<Rightarrow> nat \<Rightarrow> u32 \<Rightarrow> 'k \<Rightarrow> (int \<times> tag_edit \<times> 'k) option" where
  "id3_save n G t fd sz k =
     (if length (te_buf t) \<le> unat sz then
        (case k_writeat G fd (te_buf t) 0 k of (r, k1) \<Rightarrow> Some (if r < 0 then err_e else 0, t, k1))
      else
        (let fnw = tc_filename (te_conf t) @ ''.phiolatemp'' in
         case k_open G fnw FFFILE_WRITEONLY_CREATENEW k of
           (None, k1) \<Rightarrow> Some (err_e, t\<lparr>te_fnw := Some fnw, te_fdw := None\<rparr>, k1)
         | (Some fdw, k1) \<Rightarrow>
             (let t1 = t\<lparr>te_fnw := Some fnw, te_fdw := Some fdw\<rparr> in
              case k_writeat G fdw (te_buf t) 0 k1 of
                (r, k2) \<Rightarrow>
                  if r < 0 then Some (err_e, t1, k2)
                  else map_option (\<lambda>(ok, k3). (if ok then 0 else err_e, t1, k3))
                    (file_copydata n G fd (ucast sz) fdw (u64len (te_buf t)) (k_size G fd k2 - ucast sz) k2))))"

definition mp3_id3v2 :: "nat \<Rightarrow> 'k tag_kfs \<Rightarrow> ('w, 'v) id3_lib \<Rightarrow> tag_edit \<Rightarrow> nat \<Rightarrow> 'k \<Rightarrow> (int \<times> tag_edit \<times> 'k) option" where
  "mp3_id3v2 n G L t fd k =
     (case k_readat G fd (of_nat (te_cap t)) 0 k of
        None \<Rightarrow> Some (err_e, t, k)
      | Some d \<Rightarrow>
          (let ts = i3_toks L d;
               sz = (if take 1 ts = [IdNo] then 0 else i3_size L d);
               finish = (\<lambda>t1 ts1. case id3_build L (te_conf t) ts1 sz of
                    None \<Rightarrow> None
                  | Some None \<Rightarrow> Some (err_e, t1, k)
                  | Some (Some (buf, cap)) \<Rightarrow> id3_save n G (t1\<lparr>te_buf := buf, te_cap := cap\<rparr>) fd sz k)
           in if take 1 ts \<noteq> [IdNo] \<and> te_cap t < unat sz then
                (if 100 * 1024 * 1024 < sz then Some (err_e, t\<lparr>te_buf := d\<rparr>, k)
                 else (case k_readat G fd (ucast sz) 0 k of
                    None \<Rightarrow> Some (err_e, t\<lparr>te_buf := d, te_cap := unat sz\<rparr>, k)
                  | Some d2 \<Rightarrow> finish (t\<lparr>te_buf := d2, te_cap := unat sz\<rparr>) (i3_toks L d2)))
              else finish (t\<lparr>te_buf := d\<rparr>) ts))"

text \<open>The size of \<open>struct id3v1\<close>.\<close>
definition ID3V1_SIZE :: nat where "ID3V1_SIZE = 128"

fun id3v1_user :: "('w, 'v) id3_lib \<Rightarrow> string list \<Rightarrow> 'v \<Rightarrow> 'v option" where
  "id3v1_user L [] w = Some w"
| "id3v1_user L (kv # m) w =
     (if kv = [] then id3v1_user L m w
      else (case user_meta_split L kv of
         None \<Rightarrow> None
       | Some (tag, v) \<Rightarrow> id3v1_user L m (if tag = 0 then w else i1_set L w tag v)))"

fun id3v1_copy :: "('w, 'v) id3_lib \<Rightarrow> string list \<Rightarrow> id3_tok list \<Rightarrow> 'v \<Rightarrow> 'v" where
  "id3v1_copy L meta (IdTag tag ik after iv # ts) w =
     (if tag = 0 then w
      else id3v1_copy L meta ts (if user_meta_find L meta tag = None then i1_set L w tag iv else w))"
| "id3v1_copy L meta ts w = w"

text \<open>The tail of the file is read into the buffer that holds the new ID3v2 tag.\<close>
definition mp3_id3v1 :: "'k tag_kfs \<Rightarrow> ('w, 'v) id3_lib \<Rightarrow> tag_edit \<Rightarrow> nat \<Rightarrow> nat \<Rightarrow> 'k \<Rightarrow> (int \<times> tag_edit \<times> 'k) option" where
  "mp3_id3v1 G L t fd fdw k =
     (let off = (if sint (k_size G fd k - of_nat ID3V1_SIZE) < 0 then 0 else k_size G fd k - of_nat ID3V1_SIZE);
          finish = (\<lambda>t1.
            (let ts = i1_toks L (te_buf t1) in
             case id3v1_user L (tc_meta (te_conf t)) (i1_new L) of
               None \<Rightarrow> Some (err_e, t1, k)
             | Some w \<Rightarrow>
                 (let w1 = (if tc_clear (te_conf t) then w else id3v1_copy L (tc_meta (te_conf t)) ts w);
                      woff = (if take 1 ts = [IdNo] then k_size G fdw k else k_size G fdw k - of_nat ID3V1_SIZE)
                  in case k_writeat G fdw (i1_bytes L w1) woff k of (r, k1) \<Rightarrow> Some (if r < 0 then err_e else 0, t1, k1))))
      in if off \<noteq> 0 then
           (if te_cap t < ID3V1_SIZE then None
            else (case k_readat G fd (of_nat ID3V1_SIZE) off k of
               None \<Rightarrow> Some (err_e, t, k)
             | Some d \<Rightarrow> finish (t\<lparr>te_buf := d\<rparr>)))
         else finish t)"

definition tag_edit_process :: "nat \<Rightarrow> 'k tag_kfs \<Rightarrow> ('w, 'v) id3_lib \<Rightarrow> tag_edit \<Rightarrow> 'k \<Rightarrow> (int \<times> tag_edit \<times> 'k) option" where
  "tag_edit_process n G L t k =
     (case k_open_rw G (tc_filename (te_conf t)) k of
        (None, k1) \<Rightarrow> Some (err_e, t, k1)
      | (Some fd, k1) \<Rightarrow>
          (let t1 = t\<lparr>te_fd := Some fd, te_fdw := Some fd\<rparr> in
           case k_info G fd k1 of
             None \<Rightarrow> Some (err_e, t1, k1)
           | Some fi \<Rightarrow>
               (let t2 = t1\<lparr>te_mtime := snd fi, te_cap := 1024\<rparr> in
                case k_read G fd 1024 k1 of
                  (None, k2) \<Rightarrow> Some (err_e, t2, k2)
                | (Some d, k2) \<Rightarrow>
                    (let t3 = t2\<lparr>te_buf := d\<rparr> in
                     case file_format_detect d of
                       None \<Rightarrow> None
                     | Some fmt \<Rightarrow>
                         if fmt = FILE_UNK then Some (err_e, t3, k2)
                         else (case file_ext_str (file_format_num fmt) of
                            None \<Rightarrow> None
                          | Some ext \<Rightarrow>
                              if ext = ''mp3'' then
                                (case mp3_id3v2 n G L t3 fd k2 of
                                   None \<Rightarrow> None
                                 | Some (r, t4, k3) \<Rightarrow>
                                     if r \<noteq> 0 then Some (r, t4\<lparr>te_done := False\<rparr>, k3)
                                     else (case te_fdw t4 of
                                        None \<Rightarrow> None
                                      | Some fdw \<Rightarrow> map_option (\<lambda>(r1, t5, k4). (r1, t5\<lparr>te_done := (r1 = 0)\<rparr>, k4)) (mp3_id3v1 G L t4 fd fdw k3)))
                              else Some (-1, t3\<lparr>te_done := False\<rparr>, k2))))))"

text \<open>Closing \<open>FFFILE_NULL\<close> does nothing.\<close>
definition close_opt :: "'k tag_kfs \<Rightarrow> nat option \<Rightarrow> 'k \<Rightarrow> 'k" where
  "close_opt G fd k = (case fd of None \<Rightarrow> k | Some f \<Rightarrow> snd (k_close G f k))"

definition tag_edit_close :: "'k tag_kfs \<Rightarrow> tag_edit \<Rightarrow> 'k \<Rightarrow> 'k" where
  "tag_edit_close G t k =
     (let k1 = (case te_fdw t of Some fdw \<Rightarrow> if te_done t \<and> tc_preserve_date (te_conf t) then k_set_fmtime G fdw (te_mtime t) k else k
                | None \<Rightarrow> k);
          k2 = close_opt G (te_fd t) k1
      in if te_fd t \<noteq> te_fdw t then
           (let k3 = close_opt G (te_fdw t) k2 in
            case te_fnw t of
              Some fnw \<Rightarrow> if te_done t then snd (k_rename G fnw (tc_filename (te_conf t)) k3) else k3
            | None \<Rightarrow> k3)
         else k2)"

definition tag_edit_edit :: "nat \<Rightarrow> 'k tag_kfs \<Rightarrow> ('w, 'v) id3_lib \<Rightarrow> phi_tag_conf \<Rightarrow> 'k \<Rightarrow> (int \<times> 'k) option" where
  "tag_edit_edit n G L cf k =
     map_option (\<lambda>(r, t, k1). (r, tag_edit_close G t k1))
       (tag_edit_process n G L \<lparr>te_conf = cf, te_fd = None, te_fdw = None, te_buf = [], te_cap = 0, te_mtime = (0, 0),
          te_fnw = None, te_done = False\<rparr> k)"

section \<open>The laws of the environment\<close>

text \<open>The content after bytes are stored at an offset; a gap is filled with zeros.\<close>
definition overwrite :: "bytes \<Rightarrow> nat \<Rightarrow> bytes \<Rightarrow> bytes" where
  "overwrite c off d = take off (c @ replicate (off - length c) 0) @ d @ drop (off + length d) c"

text \<open>
  \<open>fs\<close> is the map from names to contents, \<open>fdn\<close> from descriptors to names. Opening and creating give a
  new descriptor, a read returns what the file holds, a write stores all of its bytes or, if it
  fails, some of them, a failed rename changes nothing.
\<close>
definition tag_open_law :: "'k tag_kfs \<Rightarrow> ('k \<Rightarrow> string \<rightharpoonup> bytes) \<Rightarrow> ('k \<Rightarrow> nat \<rightharpoonup> string) \<Rightarrow> bool" where
  "tag_open_law G fs fdn \<longleftrightarrow>
     (\<forall>nm k fd k1. k_open_rw G nm k = (Some fd, k1) \<longrightarrow> fs k1 = fs k \<and> fdn k1 = (fdn k)(fd \<mapsto> nm) \<and> fdn k fd = None)
     \<and> (\<forall>nm k k1. k_open_rw G nm k = (None, k1) \<longrightarrow> fs k1 = fs k)
     \<and> (\<forall>nm k fd k1. k_open G nm FFFILE_WRITEONLY_CREATENEW k = (Some fd, k1) \<longrightarrow>
          fs k nm = None \<and> fs k1 = (fs k)(nm \<mapsto> []) \<and> fdn k1 = (fdn k)(fd \<mapsto> nm) \<and> fdn k fd = None)
     \<and> (\<forall>nm k k1. k_open G nm FFFILE_WRITEONLY_CREATENEW k = (None, k1) \<longrightarrow> fs k1 = fs k \<and> fdn k1 = fdn k)"

definition tag_io_law :: "'k tag_kfs \<Rightarrow> ('k \<Rightarrow> string \<rightharpoonup> bytes) \<Rightarrow> ('k \<Rightarrow> nat \<rightharpoonup> string) \<Rightarrow> bool" where
  "tag_io_law G fs fdn \<longleftrightarrow>
     (\<forall>fd n k r k1. k_read G fd n k = (r, k1) \<longrightarrow> fs k1 = fs k \<and> fdn k1 = fdn k)
     \<and> (\<forall>fd n off k d f c. k_readat G fd n off k = Some d \<longrightarrow> fdn k fd = Some f \<longrightarrow> fs k f = Some c \<longrightarrow>
          d = take (unat n) (drop (unat off) c))
     \<and> (\<forall>fd d off k r k1 f c. k_writeat G fd d off k = (r, k1) \<longrightarrow> fdn k fd = Some f \<longrightarrow> fs k f = Some c \<longrightarrow>
          fdn k1 = fdn k
          \<and> (0 \<le> r \<longrightarrow> r = int (length d) \<and> fs k1 = (fs k)(f \<mapsto> overwrite c (unat off) d))
          \<and> (r < 0 \<longrightarrow> (\<exists>j \<le> length d. fs k1 = (fs k)(f \<mapsto> (if j = 0 then c else overwrite c (unat off) (take j d))))))
     \<and> (\<forall>fd k f c. fdn k fd = Some f \<longrightarrow> fs k f = Some c \<longrightarrow> k_size G fd k = u64len c)"

definition tag_end_law :: "'k tag_kfs \<Rightarrow> ('k \<Rightarrow> string \<rightharpoonup> bytes) \<Rightarrow> bool" where
  "tag_end_law G fs \<longleftrightarrow>
     (\<forall>fd k. fs (snd (k_close G fd k)) = fs k) \<and> (\<forall>fd m k. fs (k_set_fmtime G fd m k) = fs k)
     \<and> (\<forall>a b k. fs (snd (k_rename G a b k)) = (if fst (k_rename G a b k) = 0 then (fs k)(a := None, b := fs k a) else fs k))"

text \<open>
  Tag numbers are in the enumeration, a frame has a name of at most four bytes, the buffer of the writer has room
  for a tag of the first version, and that tag has its fixed size.
\<close>
fun tok_ok :: "nat \<Rightarrow> id3_tok \<Rightarrow> bool" where
  "tok_ok n (IdTag tag ik after v) \<longleftrightarrow> tag < n \<and> length ik \<le> 4 \<and> 4 \<le> length (ik @ after)"
| "tok_ok n _ \<longleftrightarrow> True"

definition id3_law :: "('w, 'v) id3_lib \<Rightarrow> bool" where
  "id3_law L \<longleftrightarrow>
     (\<forall>d. \<forall>x \<in> set (i3_toks L d). tok_ok (length ffmmtag_str) x)
     \<and> (\<forall>nm j. i_find L ffmmtag_str nm = Some j \<longrightarrow> j < length ffmmtag_str)
     \<and> (\<forall>w p b cap. i3_finish L w p = Some (b, cap) \<longrightarrow> ID3V1_SIZE \<le> cap \<and> length b < 2 ^ 32)
     \<and> (\<forall>v. length (i1_bytes L v) = ID3V1_SIZE)"

section \<open>Building a tag\<close>

lemma user_meta_split_bound:
  assumes "id3_law L" and "user_meta_split L kv = Some (tag, v)"
  shows "tag < length ffmmtag_str"
proof -
  have "0 < length ffmmtag_str" by (simp add: ffmmtag_str_def)
  then show ?thesis using assms by (auto simp: user_meta_split_def id3_law_def split: option.splits)
qed

lemma id3_copy_total:
  assumes "\<forall>x \<in> set ts. tok_ok (length added) x"
  shows "\<exists>w' added'. id3_copy L meta ts w added = Some (w', added') \<and> length added' = length added"
  using assms
proof (induction ts arbitrary: w added)
  case (Cons x ts)
  show ?case
  proof (cases x)
    case (IdTag tag ik after iv)
    have h: "tag < length added" "length ik \<le> 4" "4 \<le> length (ik @ after)" using Cons.prems IdTag by simp_all
    have IH: "\<exists>w' added'. id3_copy L meta ts w2 (added[tag := True]) = Some (w', added') \<and> length added' = length added" for w2
      using Cons.IH [of "added[tag := True]" w2] Cons.prems by simp
    show ?thesis using IH h IdTag by (cases "tag = 0"; cases "user_meta_find L meta tag") (simp_all add: Let_def)
  qed simp_all
qed simp

lemma id3_new_total: "id3_law L \<Longrightarrow> length added = length ffmmtag_str \<Longrightarrow> id3_new L meta w added \<noteq> None"
  by (induction L meta w added rule: id3_new.induct) (auto dest: user_meta_split_bound split: option.splits)

lemma id3_build_total:
  assumes "id3_law L"
  shows "id3_build L cf (i3_toks L d) sz \<noteq> None"
proof -
  have "\<forall>x \<in> set (i3_toks L d). tok_ok (length ffmmtag_str) x" using assms by (simp add: id3_law_def)
  then obtain w added where c: "id3_copy L (tc_meta cf) (i3_toks L d) (i3_new L) (replicate (length ffmmtag_str) False) = Some (w, added)"
    "length added = length ffmmtag_str"
    using id3_copy_total [of "i3_toks L d" "replicate (length ffmmtag_str) False" L "tc_meta cf" "i3_new L"] by auto
  have "id3_new L (tc_meta cf) w added \<noteq> None" "id3_new L (tc_meta cf) (i3_new L) (replicate (length ffmmtag_str) False) \<noteq> None"
    using id3_new_total [OF assms] c(2) by simp_all
  then show ?thesis using c(1) by (auto simp: id3_build_def)
qed

lemma id3_build_cap:
  "id3_law L \<Longrightarrow> id3_build L cf ts sz = Some (Some (b, cap)) \<Longrightarrow> ID3V1_SIZE \<le> cap \<and> length b < 2 ^ 32"
  by (auto simp: id3_build_def id3_law_def bind_eq_Some_conv split: bind_splits)

section \<open>Copying\<close>

lemma overwrite_end: "overwrite c (length c) d = c @ d"
  by (simp add: overwrite_def)

lemma overwrite_start: "overwrite c 0 d = d @ drop (length d) c"
  by (simp add: overwrite_def)

text \<open>The rest of the source is appended to the destination, if no call fails; nothing else changes.\<close>
lemma copydata_appends:
  assumes "tag_io_law G fs fdn" and "f \<noteq> g" and "fdn k src = Some f" and "fdn k dst = Some g" and "fs k f = Some old" and "fs k g = Some c"
    and "unat offdst = length c" and "unat offsrc \<le> length old" and "unat sz = length old - unat offsrc" and "unat sz < n"
    and "length old < 2 ^ 63" and "length c + (length old - unat offsrc) < 2 ^ 63"
  shows "\<exists>ok k' c'. file_copydata n G src offsrc dst offdst sz k = Some (ok, k') \<and> fdn k' = fdn k
    \<and> fs k' = (fs k)(g \<mapsto> c') \<and> (ok \<longrightarrow> c' = c @ drop (unat offsrc) old)"
  using assms(3-)
proof (induction n arbitrary: offsrc offdst sz k c)
  case (Suc n)
  show ?case
  proof (cases "sz = 0")
    case True
    then show ?thesis using Suc.prems by (intro exI [of _ True] exI [of _ k] exI [of _ c]) (simp add: fun_upd_idem)
  next
    case False
    let ?m = "min sz (8 * 1024 * 1024)"
    have "0 < unat sz" using False by (simp add: word_neq_0_unat)
    have m: "0 < unat ?m" "unat ?m \<le> unat sz" using \<open>0 < unat sz\<close> by (auto simp: min_def word_le_nat_alt)
    show ?thesis
    proof (cases "k_readat G src ?m offsrc k")
      case None
      then show ?thesis using False Suc.prems by (intro exI [of _ False] exI [of _ k] exI [of _ c]) (simp add: fun_upd_idem)
    next
      case (Some d)
      then have d: "d = take (unat ?m) (drop (unat offsrc) old)" using assms(1) Suc.prems(1,3) unfolding tag_io_law_def by blast
      then have ld: "length d = unat ?m" using m(2) Suc.prems(7) by simp
      obtain r k1 where w: "k_writeat G dst d offdst k = (r, k1)" by (cases "k_writeat G dst d offdst k")
      have wl: "fdn k1 = fdn k \<and> (0 \<le> r \<longrightarrow> r = int (length d) \<and> fs k1 = (fs k)(g \<mapsto> overwrite c (unat offdst) d))
          \<and> (r < 0 \<longrightarrow> (\<exists>j \<le> length d. fs k1 = (fs k)(g \<mapsto> (if j = 0 then c else overwrite c (unat offdst) (take j d)))))"
        using assms(1) w Suc.prems(2,4) unfolding tag_io_law_def by blast
      show ?thesis
      proof (cases "r < 0")
        case True
        then obtain c' where "fs k1 = (fs k)(g \<mapsto> c')" using wl by blast
        then show ?thesis using False Some w True wl by (intro exI [of _ False] exI [of _ k1] exI [of _ c']) simp
      next
        case False2: False
        then have r: "word_of_int r = (u64len d :: u64)" and fs1: "fs k1 = (fs k)(g \<mapsto> c @ d)"
          using wl Suc.prems(5) by (simp_all add: overwrite_end)
        have ud: "unat (u64len d :: u64) = length d" using ld unsigned_less [of ?m] by (intro unat_u64len) simp
        have lt: "length d \<le> length old - unat offsrc" using ld m(2) Suc.prems(7) by simp
        have o1: "unat (offsrc + u64len d) = unat offsrc + length d" using lt Suc.prems(6,9) by (intro unat_add_u64len) simp
        have o2: "unat (offdst + u64len d) = length (c @ d)" using lt Suc.prems(5,10) by (subst unat_add_u64len) simp_all
        have "u64len d \<le> sz" unfolding word_le_nat_alt ud using ld m(2) by simp
        then have sz1: "unat (sz - u64len d) = unat sz - length d" by (simp add: unat_diff_le ud)
        obtain ok k' c' where rec: "file_copydata n G src (offsrc + u64len d) dst (offdst + u64len d) (sz - u64len d) k1 = Some (ok, k')"
          "fdn k' = fdn k1" "fs k' = (fs k1)(g \<mapsto> c')" "ok \<longrightarrow> c' = (c @ d) @ drop (unat (offsrc + u64len d)) old"
        proof -
        have "\<exists>ok k' c'. file_copydata n G src (offsrc + u64len d) dst (offdst + u64len d) (sz - u64len d) k1 = Some (ok, k') \<and> fdn k' = fdn k1
            \<and> fs k' = (fs k1)(g \<mapsto> c') \<and> (ok \<longrightarrow> c' = (c @ d) @ drop (unat (offsrc + u64len d)) old)"
        proof (rule Suc.IH)
          show "fdn k1 src = Some f" "fdn k1 dst = Some g" "fs k1 f = Some old" "fs k1 g = Some (c @ d)"
            using wl Suc.prems(1-3) fs1 assms(2) by simp_all
          show "unat (offdst + u64len d) = length (c @ d)" by (rule o2)
          show "unat (offsrc + u64len d) \<le> length old" "unat (sz - u64len d) = length old - unat (offsrc + u64len d)"
            unfolding o1 sz1 using lt Suc.prems(6,7) by simp_all
          show "unat (sz - u64len d) < n" using sz1 ld m Suc.prems(8) by linarith
          show "length old < 2 ^ 63" by (rule Suc.prems(9))
          show "length (c @ d) + (length old - unat (offsrc + u64len d)) < 2 ^ 63" unfolding o1 using Suc.prems(10) lt by simp
        qed
        then show ?thesis using that by blast
        qed
        have dd: "d @ drop (unat (offsrc + u64len d)) old = drop (unat offsrc) old"
          unfolding o1 d [THEN arg_cong, of length, unfolded ld] using ld d append_take_drop_id [of "unat ?m" "drop (unat offsrc) old"]
          by (simp add: add.commute)
        have "file_copydata (Suc n) G src offsrc dst offdst sz k = Some (ok, k')" using False False2 Some w r rec(1) by simp
        moreover have "fdn k' = fdn k" "fs k' = (fs k)(g \<mapsto> c')" using rec(2,3) wl fs1 by simp_all
        moreover have "ok \<longrightarrow> c' = c @ drop (unat offsrc) old" using rec(4) dd by simp
        ultimately show ?thesis by blast
      qed
    qed
  qed
qed simp

section \<open>The stages of an edit\<close>

text \<open>The size of the old tag as the code finds it.\<close>
definition tag_len :: "('w, 'v) id3_lib \<Rightarrow> bytes \<Rightarrow> nat" where
  "tag_len L old = (if take 1 (i3_toks L (take 1024 old)) = [IdNo] then 0 else unat (i3_size L (take 1024 old)))"

abbreviation tmp_name :: "string \<Rightarrow> string" where
  "tmp_name f \<equiv> f @ ''.phiolatemp''"

text \<open>After the first stage: the file ends with the old content behind the old tag, and so does the temporary file.\<close>
definition saved ::
    "('k \<Rightarrow> string \<rightharpoonup> bytes) \<Rightarrow> ('k \<Rightarrow> nat \<rightharpoonup> string) \<Rightarrow> (string \<rightharpoonup> bytes) \<Rightarrow> string \<Rightarrow> bytes \<Rightarrow> nat \<Rightarrow> nat \<Rightarrow> tag_edit
     \<Rightarrow> int \<Rightarrow> tag_edit \<Rightarrow> 'k \<Rightarrow> bool" where
  "saved fs fdn fs0 f old sz fd t r t' k' \<longleftrightarrow>
     fdn k' fd = Some f \<and> (\<exists>pre. fs k' f = Some (pre @ drop sz old) \<and> length pre < 2 ^ 32)
     \<and> (\<forall>x. x \<noteq> f \<longrightarrow> x \<noteq> tmp_name f \<longrightarrow> fs k' x = fs0 x)
     \<and> te_conf t' = te_conf t \<and> te_fd t' = te_fd t \<and> (r = 0 \<longrightarrow> ID3V1_SIZE \<le> te_cap t')
     \<and> (te_fdw t' = Some fd \<or> te_fdw t' = None \<and> r \<noteq> 0
        \<or> (\<exists>fdw. te_fdw t' = Some fdw \<and> fdw \<noteq> fd \<and> te_fnw t' = Some (tmp_name f) \<and> fdn k' fdw = Some (tmp_name f) \<and> fs k' f = Some old
             \<and> (r = 0 \<longrightarrow> (\<exists>pre. fs k' (tmp_name f) = Some (pre @ drop sz old) \<and> length pre < 2 ^ 32))))"

lemma prefix_old: "sz \<le> length old \<Longrightarrow> sz < 2 ^ 32 \<Longrightarrow> \<exists>pre. old = pre @ drop sz old \<and> length pre < 2 ^ 32"
  by (intro exI [of _ "take sz old"]) simp

lemma overwrite_prefix:
  assumes "length d \<le> sz" and "sz \<le> length old" and "sz < 2 ^ 32"
  shows "\<exists>pre. overwrite old 0 d = pre @ drop sz old \<and> length pre < 2 ^ 32"
proof -
  have "drop (length d) old = take (sz - length d) (drop (length d) old) @ drop sz old"
    using assms(1) append_take_drop_id [of "sz - length d" "drop (length d) old"] by simp
  moreover have "length (take (sz - length d) (drop (length d) old)) = sz - length d" using assms(1,2) by simp
  ultimately show ?thesis using assms(1,3) by (intro exI [of _ "d @ take (sz - length d) (drop (length d) old)"]) (simp add: overwrite_start)
qed

lemma writeat_fs:
  assumes "tag_io_law G fs fdn" and "k_writeat G fd d off k = (r, k1)" and "fdn k fd = Some f" and "fs k f = Some c"
  shows "fdn k1 = fdn k \<and> (\<exists>d'. length d' \<le> length d \<and> (0 \<le> r \<longrightarrow> d' = d)
    \<and> fs k1 = (fs k)(f \<mapsto> (if d' = [] \<and> r < 0 then c else overwrite c (unat off) d')))"
proof -
  have w: "fdn k1 = fdn k \<and> (0 \<le> r \<longrightarrow> r = int (length d) \<and> fs k1 = (fs k)(f \<mapsto> overwrite c (unat off) d))
      \<and> (r < 0 \<longrightarrow> (\<exists>j \<le> length d. fs k1 = (fs k)(f \<mapsto> (if j = 0 then c else overwrite c (unat off) (take j d)))))"
    using assms unfolding tag_io_law_def by blast
  show ?thesis
  proof (cases "r < 0")
    case True
    then obtain j where j: "j \<le> length d" "fs k1 = (fs k)(f \<mapsto> (if j = 0 then c else overwrite c (unat off) (take j d)))" using w by blast
    then show ?thesis using w True by (intro conjI exI [of _ "take j d"]) auto
  next
    case False
    then show ?thesis using w by (intro conjI exI [of _ d]) auto
  qed
qed

lemma id3_save_saved:
  assumes "tag_open_law G fs fdn" and "tag_io_law G fs fdn" and "fdn k fd = Some f" and "fs k f = Some old"
    and "te_conf t = cf" and "tc_filename cf = f" and "te_fdw t = Some fd" and "unat sz \<le> length old" and "length old < 2 ^ 62"
    and "length (te_buf t) < 2 ^ 32" and "ID3V1_SIZE \<le> te_cap t" and "length old < n"
  shows "\<exists>r t' k'. id3_save n G t fd sz k = Some (r, t', k') \<and> saved fs fdn (fs k) f old (unat sz) fd t r t' k'"
proof -
  have sz: "unat sz < 2 ^ 32" using unsigned_less [of sz] by simp
  have ft: "f \<noteq> tmp_name f" by simp
  show ?thesis
  proof (cases "length (te_buf t) \<le> unat sz")
    case True
    obtain r k1 where w: "k_writeat G fd (te_buf t) 0 k = (r, k1)" by (cases "k_writeat G fd (te_buf t) 0 k")
    from writeat_fs [OF assms(2) w assms(3,4)] obtain d' where d': "fdn k1 = fdn k" "length d' \<le> length (te_buf t)"
      "fs k1 = (fs k)(f \<mapsto> (if d' = [] \<and> r < 0 then old else overwrite old 0 d'))"
      by (elim conjE exE) (rule that, assumption, assumption, unfold unat_0)
    define c where "c = (if d' = [] \<and> r < 0 then old else overwrite old 0 d')"
    have "\<exists>pre. c = pre @ drop (unat sz) old \<and> length pre < 2 ^ 32"
    proof (cases "d' = [] \<and> r < 0")
      case True
      then show ?thesis unfolding c_def using prefix_old [OF assms(8) sz] by simp
    next
      case False
      have "length d' \<le> unat sz" using d'(2) True by simp
      then show ?thesis unfolding c_def if_not_P [OF False] by (rule overwrite_prefix [OF _ assms(8) sz])
    qed
    moreover have "fs k1 f = Some c" "\<And>x. x \<noteq> f \<Longrightarrow> fs k1 x = fs k x" using d'(3) by (simp_all add: c_def)
    moreover have "fdn k1 fd = Some f" using d'(1) assms(3) by simp
    ultimately have "saved fs fdn (fs k) f old (unat sz) fd t (if r < 0 then err_e else 0) t k1"
      unfolding saved_def using assms(7,11) by simp
    then show ?thesis using True w by (simp add: id3_save_def)
  next
    case False
    obtain o1 k1 where op: "k_open G (tmp_name f) FFFILE_WRITEONLY_CREATENEW k = (o1, k1)"
      by (cases "k_open G (tmp_name f) FFFILE_WRITEONLY_CREATENEW k")
    note pre = prefix_old [OF assms(8) sz]
    show ?thesis
    proof (cases o1)
      case None
      then have "fs k1 = fs k" "fdn k1 = fdn k" using assms(1) op unfolding tag_open_law_def by blast+
      then have "saved fs fdn (fs k) f old (unat sz) fd t err_e (t\<lparr>te_fnw := Some (tmp_name f), te_fdw := None\<rparr>) k1"
        unfolding saved_def using assms(3,4,11) pre by (simp add: err_e_def)
      then show ?thesis using False op None assms(5,6) by (simp add: id3_save_def)
    next
      case (Some fdw)
      then have c: "fs k (tmp_name f) = None" "fs k1 = (fs k)(tmp_name f \<mapsto> [])" "fdn k1 = (fdn k)(fdw \<mapsto> tmp_name f)" "fdn k fdw = None"
        using assms(1) op unfolding tag_open_law_def by blast+
      have ne: "fdw \<noteq> fd" using c(4) assms(3) by auto
      let ?t = "t\<lparr>te_fnw := Some (tmp_name f), te_fdw := Some fdw\<rparr>"
      obtain r k2 where w: "k_writeat G fdw (te_buf t) 0 k1 = (r, k2)" by (cases "k_writeat G fdw (te_buf t) 0 k1")
      have "fdn k2 = fdn k1 \<and> (\<exists>d'. length d' \<le> length (te_buf t) \<and> (0 \<le> r \<longrightarrow> d' = te_buf t)
          \<and> fs k2 = (fs k1)(tmp_name f \<mapsto> (if d' = [] \<and> r < 0 then [] else overwrite [] (unat (0 :: u64)) d')))"
        by (rule writeat_fs [OF assms(2) w]) (simp_all add: c)
      then obtain d' where d': "fdn k2 = fdn k1" "0 \<le> r \<longrightarrow> d' = te_buf t"
        "fs k2 = (fs k1)(tmp_name f \<mapsto> (if d' = [] \<and> r < 0 then [] else overwrite [] (unat (0 :: u64)) d'))" by blast
      have k2: "fdn k2 fd = Some f" "fdn k2 fdw = Some (tmp_name f)" "fs k2 f = Some old" "\<And>x. x \<noteq> tmp_name f \<Longrightarrow> fs k2 x = fs k x"
        using d' c ne assms(3,4) ft by simp_all
      show ?thesis
      proof (cases "r < 0")
        case True
        have "saved fs fdn (fs k) f old (unat sz) fd t err_e ?t k2"
          unfolding saved_def using k2 ne pre assms(11) by (simp add: err_e_def)
        then show ?thesis using False op Some w True assms(5,6) by (simp add: id3_save_def)
      next
        case r: False
        then have g: "fs k2 (tmp_name f) = Some (te_buf t)" using d' by (simp add: overwrite_start)
        have size: "k_size G fd k2 = u64len old" using assms(2) k2(1,3) unfolding tag_io_law_def by blast
        have ul: "unat (u64len old :: u64) = length old" using assms(9) by (intro unat_u64len) simp
        have "ucast sz \<le> (u64len old :: u64)" unfolding word_le_nat_alt unat_ucast_u32 ul by (rule assms(8))
        then have us: "unat (u64len old - ucast sz :: u64) = length old - unat sz" by (simp add: unat_diff_le ul)
        have ub: "unat (u64len (te_buf t) :: u64) = length (te_buf t)" using assms(10) by (intro unat_u64len) simp
        have nm: "length old < 4611686018427387904" "length (te_buf t) < 4294967296" using assms(9,10) by simp_all
        have "length (te_buf t) + (length old - unat sz) < 9223372036854775808" "length old < 9223372036854775808" using nm by linarith+
        then have ar: "length (te_buf t) + (length old - unat sz) < 2 ^ 63" "length old < 2 ^ 63" by simp_all
        have ln: "length old - unat sz < n" using assms(12) by linarith
        have "\<exists>ok k' c'. file_copydata n G fd (ucast sz) fdw (u64len (te_buf t)) (u64len old - ucast sz) k2 = Some (ok, k')
            \<and> fdn k' = fdn k2 \<and> fs k' = (fs k2)(tmp_name f \<mapsto> c') \<and> (ok \<longrightarrow> c' = te_buf t @ drop (unat (ucast sz :: u64)) old)"
          by (rule copydata_appends [where fs = fs and fdn = fdn, OF assms(2) ft k2(1,2,3) g ub]) (use us ar ln assms(8) in \<open>simp_all only: unat_ucast_u32\<close>)
        then obtain ok k3 c' where cp: "file_copydata n G fd (ucast sz) fdw (u64len (te_buf t)) (u64len old - ucast sz) k2 = Some (ok, k3)"
          "fdn k3 = fdn k2" "fs k3 = (fs k2)(tmp_name f \<mapsto> c')" "ok \<longrightarrow> c' = te_buf t @ drop (unat sz) old"
          unfolding unat_ucast_u32 by blast
        have "saved fs fdn (fs k) f old (unat sz) fd t (if ok then 0 else err_e) ?t k3"
          unfolding saved_def using cp(2-4) k2 ne pre ft assms(10,11) by (simp add: err_e_def)
        then show ?thesis using False op Some w r assms(5,6) cp(1) size by (simp add: id3_save_def)
      qed
    qed
  qed
qed

lemma mp3_id3v2_saved:
  assumes "tag_open_law G fs fdn" and "tag_io_law G fs fdn" and "id3_law L" and "fdn k fd = Some f" and "fs k f = Some old"
    and "tc_filename (te_conf t) = f" and "te_fdw t = Some fd" and "te_cap t = 1024" and "tag_len L old \<le> length old" and "length old < 2 ^ 62"
    and "length old < n"
  shows "\<exists>r t' k'. mp3_id3v2 n G L t fd k = Some (r, t', k') \<and> saved fs fdn (fs k) f old (tag_len L old) fd t r t' k'"
proof -
  define ts where "ts = i3_toks L (take 1024 old)"
  define sz where "sz = (if take 1 ts = [IdNo] then 0 else i3_size L (take 1024 old))"
  have sz: "unat sz = tag_len L old" by (simp add: sz_def ts_def tag_len_def)
  have "unat sz < 2 ^ 32" using unsigned_less [of sz] by simp
  then have pre: "\<exists>pre. old = pre @ drop (tag_len L old) old \<and> length pre < 2 ^ 32" using prefix_old [OF assms(9)] sz by simp
  have same: "saved fs fdn (fs k) f old (tag_len L old) fd t err_e t' k" if "te_conf t' = te_conf t" "te_fd t' = te_fd t" "te_fdw t' = Some fd" for t'
    unfolding saved_def using that assms(4,5) pre by (simp add: err_e_def)
  have fin: "\<exists>r t' k'. (case id3_build L (te_conf t1) (i3_toks L d) sz of None \<Rightarrow> None | Some None \<Rightarrow> Some (err_e, t1, k)
      | Some (Some (buf, cap)) \<Rightarrow> id3_save n G (t1\<lparr>te_buf := buf, te_cap := cap\<rparr>) fd sz k) = Some (r, t', k')
      \<and> saved fs fdn (fs k) f old (tag_len L old) fd t r t' k'"
    if t1: "te_conf t1 = te_conf t" "te_fd t1 = te_fd t" "te_fdw t1 = Some fd" for t1 d
  proof -
    obtain b where b: "id3_build L (te_conf t1) (i3_toks L d) sz = Some b" using id3_build_total [OF assms(3)] by blast
    show ?thesis
    proof (cases b)
      case None
      then show ?thesis using b same [OF t1] by simp
    next
      case (Some bc)
      obtain buf cap where bc: "bc = (buf, cap)" by (cases bc)
      let ?t = "t1\<lparr>te_buf := buf, te_cap := cap\<rparr>"
      have cap: "ID3V1_SIZE \<le> cap" "length buf < 2 ^ 32" using id3_build_cap [OF assms(3)] b Some bc by auto
      obtain r t' k' where s: "id3_save n G ?t fd sz k = Some (r, t', k')" "saved fs fdn (fs k) f old (unat sz) fd ?t r t' k'"
        using id3_save_saved [where fs = fs and fdn = fdn, OF assms(1,2,4,5), of ?t "te_conf t" sz n] t1 assms(6,9-11) cap sz by auto
      have "saved fs fdn (fs k) f old (tag_len L old) fd t r t' k'" using s(2) t1 unfolding sz by (simp add: saved_def)
      then show ?thesis using b Some bc s(1) by simp
    qed
  qed
  show ?thesis
  proof (cases "k_readat G fd 1024 0 k")
    case None
    then show ?thesis using same [of t] assms(7,8) by (simp add: mp3_id3v2_def)
  next
    case (Some d)
    have "d = take (unat (1024 :: u64)) (drop (unat (0 :: u64)) old)" using assms(2,4,5) Some unfolding tag_io_law_def by blast
    then have d: "d = take 1024 old" by simp
    have eq: "mp3_id3v2 n G L t fd k =
      (let finish = (\<lambda>t1 ts1. case id3_build L (te_conf t) ts1 sz of None \<Rightarrow> None | Some None \<Rightarrow> Some (err_e, t1, k)
            | Some (Some (buf, cap)) \<Rightarrow> id3_save n G (t1\<lparr>te_buf := buf, te_cap := cap\<rparr>) fd sz k)
       in if take 1 ts \<noteq> [IdNo] \<and> te_cap t < unat sz then
            (if 100 * 1024 * 1024 < sz then Some (err_e, t\<lparr>te_buf := d\<rparr>, k)
             else (case k_readat G fd (ucast sz) 0 k of
                None \<Rightarrow> Some (err_e, t\<lparr>te_buf := d, te_cap := unat sz\<rparr>, k)
              | Some d2 \<Rightarrow> finish (t\<lparr>te_buf := d2, te_cap := unat sz\<rparr>) (i3_toks L d2)))
          else finish (t\<lparr>te_buf := d\<rparr>) ts)"
      using Some assms(8) unfolding mp3_id3v2_def Let_def sz_def ts_def d by simp
    show ?thesis
    proof (cases "take 1 ts \<noteq> [IdNo] \<and> te_cap t < unat sz")
      case True
      show ?thesis
      proof (cases "k_readat G fd (ucast sz) 0 k")
        case None
        then show ?thesis using eq True same [of "t\<lparr>te_buf := d\<rparr>"] same [of "t\<lparr>te_buf := d, te_cap := unat sz\<rparr>"] assms(7)
          by (cases "100 * 1024 * 1024 < sz") simp_all
      next
        case (Some d2)
        then show ?thesis using eq True same [of "t\<lparr>te_buf := d\<rparr>"] fin [of "t\<lparr>te_buf := d2, te_cap := unat sz\<rparr>" d2] assms(7)
          by (cases "100 * 1024 * 1024 < sz") simp_all
      qed
    next
      case False
      show ?thesis
        unfolding eq Let_def if_not_P [OF False] using fin [of "t\<lparr>te_buf := d\<rparr>" "take 1024 old"] assms(7) by (simp add: ts_def)
    qed
  qed
qed

lemma overwrite_behind: "length p \<le> off \<Longrightarrow> \<exists>tl. overwrite (p @ q) off d = p @ tl"
  by (simp add: overwrite_def)

text \<open>The second stage changes nothing before the last 128 bytes of the file it is given.\<close>
lemma mp3_id3v1_keeps:
  assumes "tag_io_law G fs fdn" and "id3_law L" and "fdn k fdw = Some g" and "fs k g = Some (p @ q)" and "length q = ID3V1_SIZE"
    and "length (p @ q) < 2 ^ 63" and "ID3V1_SIZE \<le> te_cap t"
  shows "\<exists>r t' k' tl. mp3_id3v1 G L t fd fdw k = Some (r, t', k') \<and> fs k' = (fs k)(g \<mapsto> p @ tl)
    \<and> te_conf t' = te_conf t \<and> te_fd t' = te_fd t \<and> te_fdw t' = te_fdw t \<and> te_fnw t' = te_fnw t"
proof -
  have size: "k_size G fdw k = u64len (p @ q)" using assms(1,3,4) unfolding tag_io_law_def by blast
  have ul: "unat (u64len (p @ q) :: u64) = length (p @ q)" using assms(6) by (intro unat_u64len) simp
  have n128: "unat (of_nat ID3V1_SIZE :: u64) = ID3V1_SIZE" by (simp add: ID3V1_SIZE_def)
  have "of_nat ID3V1_SIZE \<le> (u64len (p @ q) :: u64)" unfolding word_le_nat_alt ul n128 using assms(5) by simp
  then have u1: "unat (u64len (p @ q) - of_nat ID3V1_SIZE :: u64) = length p" using assms(5) by (simp only: unat_diff_le ul n128) simp
  let ?fin = "\<lambda>t1. (let ts = i1_toks L (te_buf t1) in
       case id3v1_user L (tc_meta (te_conf t)) (i1_new L) of
         None \<Rightarrow> Some (err_e, t1, k)
       | Some w \<Rightarrow>
           (let w1 = (if tc_clear (te_conf t) then w else id3v1_copy L (tc_meta (te_conf t)) ts w);
                woff = (if take 1 ts = [IdNo] then k_size G fdw k else k_size G fdw k - of_nat ID3V1_SIZE)
            in case k_writeat G fdw (i1_bytes L w1) woff k of (r, k1) \<Rightarrow> Some (if r < 0 then err_e else 0, t1, k1)))"
  have fin: "\<exists>r k' tl. ?fin t1 = Some (r, t1, k') \<and> fs k' = (fs k)(g \<mapsto> p @ tl)" for t1
  proof (cases "id3v1_user L (tc_meta (te_conf t)) (i1_new L)")
    case None
    then show ?thesis using assms(4) by (intro exI [of _ err_e] exI [of _ k] exI [of _ q]) (simp add: fun_upd_idem)
  next
    case (Some w)
    define w1 where "w1 = (if tc_clear (te_conf t) then w else id3v1_copy L (tc_meta (te_conf t)) (i1_toks L (te_buf t1)) w)"
    define woff where "woff = (if take 1 (i1_toks L (te_buf t1)) = [IdNo] then k_size G fdw k else k_size G fdw k - of_nat ID3V1_SIZE)"
    obtain r k1 where w: "k_writeat G fdw (i1_bytes L w1) woff k = (r, k1)" by (cases "k_writeat G fdw (i1_bytes L w1) woff k")
    have off: "length p \<le> unat woff" unfolding woff_def size using ul u1 by simp
    from writeat_fs [OF assms(1) w assms(3,4)] obtain d' where
      d': "fs k1 = (fs k)(g \<mapsto> (if d' = [] \<and> r < 0 then p @ q else overwrite (p @ q) (unat woff) d'))" by blast
    obtain tl where "(if d' = [] \<and> r < 0 then p @ q else overwrite (p @ q) (unat woff) d') = p @ tl"
      using overwrite_behind [OF off, of q d'] by (cases "d' = [] \<and> r < 0") auto
    then have "fs k1 = (fs k)(g \<mapsto> p @ tl)" using d' by simp
    moreover have "?fin t1 = Some (if r < 0 then err_e else 0, t1, k1)" using Some w by (simp add: Let_def w1_def woff_def)
    ultimately show ?thesis by blast
  qed
  define off where "off = (if sint (k_size G fd k - of_nat ID3V1_SIZE) < 0 then 0 else k_size G fd k - of_nat ID3V1_SIZE)"
  have eq: "mp3_id3v1 G L t fd fdw k = (if off \<noteq> 0 then (case k_readat G fd (of_nat ID3V1_SIZE) off k of
      None \<Rightarrow> Some (err_e, t, k) | Some d \<Rightarrow> ?fin (t\<lparr>te_buf := d\<rparr>)) else ?fin t)"
    using assms(7) unfolding mp3_id3v1_def off_def Let_def by simp
  have keep: "\<exists>r t' k' tl. Some (err_e, t, k) = Some (r, t', k') \<and> fs k' = (fs k)(g \<mapsto> p @ tl)
    \<and> te_conf t' = te_conf t \<and> te_fd t' = te_fd t \<and> te_fdw t' = te_fdw t \<and> te_fnw t' = te_fnw t"
    using assms(4) by (intro exI [of _ err_e] exI [of _ t] exI [of _ k] exI [of _ q]) (simp add: fun_upd_idem)
  show ?thesis
  proof (cases "off = 0")
    case True
    then show ?thesis unfolding eq using fin [of t] by auto
  next
    case False
    show ?thesis
    proof (cases "k_readat G fd (of_nat ID3V1_SIZE) off k")
      case None
      then show ?thesis unfolding eq using False keep by simp
    next
      case (Some d)
      obtain r k' tl where "?fin (t\<lparr>te_buf := d\<rparr>) = Some (r, t\<lparr>te_buf := d\<rparr>, k')" "fs k' = (fs k)(g \<mapsto> p @ tl)"
        using fin [of "t\<lparr>te_buf := d\<rparr>"] by blast
      moreover have "mp3_id3v1 G L t fd fdw k = ?fin (t\<lparr>te_buf := d\<rparr>)" unfolding eq using False Some by simp
      ultimately show ?thesis by (intro exI [of _ r] exI [of _ "t\<lparr>te_buf := d\<rparr>"] exI [of _ k'] exI [of _ tl]) simp
    qed
  qed
qed

text \<open>The bytes between the two tags, and a file that still has them.\<close>
definition audio :: "nat \<Rightarrow> bytes \<Rightarrow> bytes" where
  "audio sz old = drop sz (take (length old - ID3V1_SIZE) old)"

definition keeps_audio :: "nat \<Rightarrow> bytes \<Rightarrow> bytes option \<Rightarrow> bool" where
  "keeps_audio sz old c \<longleftrightarrow> (\<exists>pre tl. c = Some (pre @ audio sz old @ tl))"

lemma audio_split:
  assumes "sz + ID3V1_SIZE \<le> length old"
  shows "\<exists>q. drop sz old = audio sz old @ q \<and> length q = ID3V1_SIZE"
proof (intro exI conjI)
  let ?n = "length old - ID3V1_SIZE"
  have "drop sz old = take (?n - sz) (drop sz old) @ drop (?n - sz) (drop sz old)" by (rule append_take_drop_id [symmetric])
  moreover have "sz + (?n - sz) = ?n" using assms by simp
  ultimately show "drop sz old = audio sz old @ drop ?n old" by (simp add: audio_def drop_take add.commute)
qed (use assms in simp)

lemma keeps_audio_drop: "sz + ID3V1_SIZE \<le> length old \<Longrightarrow> c = Some (pre @ drop sz old) \<Longrightarrow> keeps_audio sz old c"
  using audio_split [of sz old] by (auto simp: keeps_audio_def)

lemma keeps_audio_old: "sz + ID3V1_SIZE \<le> length old \<Longrightarrow> keeps_audio sz old (Some old)"
  by (rule keeps_audio_drop [of _ _ _ "take sz old"]) simp_all

text \<open>The end of an edit: what is closed and renamed.\<close>
lemma close_fs:
  assumes "tag_end_law G fs"
  shows "fs (tag_edit_close G t k) = fs k
    \<or> (\<exists>fnw fdw. te_done t \<and> te_fdw t = Some fdw \<and> te_fd t \<noteq> Some fdw \<and> te_fnw t = Some fnw
          \<and> fs (tag_edit_close G t k) = (fs k)(fnw := None, tc_filename (te_conf t) := fs k fnw))
    \<or> te_done t \<and> te_fdw t = None"
proof -
  have law: "\<And>fd k. fs (snd (k_close G fd k)) = fs k" "\<And>fd m k. fs (k_set_fmtime G fd m k) = fs k"
    "\<And>a b k. fs (snd (k_rename G a b k)) = (if fst (k_rename G a b k) = 0 then (fs k)(a := None, b := fs k a) else fs k)"
    using assms unfolding tag_end_law_def by blast+
  have cl: "fs (close_opt G fd k) = fs k" for fd k by (simp add: close_opt_def law split: option.split)
  show ?thesis
    by (cases "te_fdw t"; cases "te_fnw t") (auto simp: tag_edit_close_def Let_def law cl)
qed

text \<open>What every outcome of the edit shares.\<close>
lemma tag_edit_process_keeps:
  assumes "tag_open_law G fs fdn" and "tag_io_law G fs fdn" and "id3_law L" and "te_conf t = cf" and "tc_filename cf = f"
    and "te_fd t = None" and "te_fdw t = None" and "\<not> te_done t" and "fs k f = Some old" and "tag_len L old + ID3V1_SIZE \<le> length old"
    and "length old < 2 ^ 62" and "length old < n"
  shows "\<exists>r t' k'. tag_edit_process n G L t k = Some (r, t', k') \<and> te_conf t' = cf
    \<and> (\<forall>x. x \<noteq> f \<longrightarrow> x \<noteq> tmp_name f \<longrightarrow> fs k' x = fs k x) \<and> keeps_audio (tag_len L old) old (fs k' f) \<and> \<not> (te_done t' \<and> te_fdw t' = None)
    \<and> (te_done t' \<longrightarrow> te_fd t' \<noteq> te_fdw t' \<longrightarrow> te_fnw t' = Some (tmp_name f) \<and> keeps_audio (tag_len L old) old (fs k' (tmp_name f)))"
proof -
  let ?sz = "tag_len L old"
  note ka = keeps_audio_old [OF assms(10)]
  obtain o1 k1 where op: "k_open_rw G f k = (o1, k1)" by (cases "k_open_rw G f k")
  have f1: "fs k1 = fs k" using assms(1) op unfolding tag_open_law_def by (cases o1) blast+
  show ?thesis
  proof (cases o1)
    case None
    then show ?thesis using op f1 assms(4-9) ka by (simp add: tag_edit_process_def)
  next
    case (Some fd)
    then have fd: "fdn k1 fd = Some f" using assms(1) op unfolding tag_open_law_def by fastforce
    let ?t1 = "t\<lparr>te_fd := Some fd, te_fdw := Some fd\<rparr>"
    show ?thesis
    proof (cases "k_info G fd k1")
      case None
      then show ?thesis using op Some f1 assms(4-9) ka by (simp add: tag_edit_process_def)
    next
      case info: (Some fi)
      let ?t2 = "?t1\<lparr>te_mtime := snd fi, te_cap := 1024\<rparr>"
      obtain d0 k2 where rd: "k_read G fd 1024 k1 = (d0, k2)" by (cases "k_read G fd 1024 k1")
      have f2: "fs k2 = fs k" "fdn k2 = fdn k1" using assms(2) rd f1 unfolding tag_io_law_def by auto
      note start = op Some info rd assms(4,5)
      show ?thesis
      proof (cases d0)
        case None
        then show ?thesis using start f2 assms(6-9) ka by (simp add: tag_edit_process_def)
      next
        case d: (Some d)
        let ?t3 = "?t2\<lparr>te_buf := d\<rparr>"
        obtain fmt where fmt: "file_format_detect d = Some fmt" using file_format_detect_total by blast
        have ext: "fmt \<noteq> FILE_UNK \<Longrightarrow> \<exists>ext. file_ext_str (file_format_num fmt) = Some ext"
          by (cases fmt) (simp_all add: file_ext_str_def)
        show ?thesis
        proof (cases "fmt \<noteq> FILE_UNK \<and> file_ext_str (file_format_num fmt) = Some ''mp3''")
          case False
          then show ?thesis using start d fmt f2 assms(8,9) ka ext by (cases "fmt = FILE_UNK") (auto simp: tag_edit_process_def)
        next
          case mp3: True
          obtain r t4 k3 where s: "mp3_id3v2 n G L ?t3 fd k2 = Some (r, t4, k3)" "saved fs fdn (fs k2) f old ?sz fd ?t3 r t4 k3"
            using mp3_id3v2_saved [where fs = fs and fdn = fdn, OF assms(1-3), of k2 fd f old ?t3 n] fd f2 assms(4,5,9-12) by auto
          note sv = s(2) [unfolded saved_def]
          have c4: "te_conf t4 = cf" "te_fd t4 = Some fd" using sv assms(4) by simp_all
          have o3: "\<forall>x. x \<noteq> f \<longrightarrow> x \<noteq> tmp_name f \<longrightarrow> fs k3 x = fs k x" using sv f2 by simp
          have ka3: "keeps_audio ?sz old (fs k3 f)" using sv keeps_audio_drop [OF assms(10)] by blast
          note go = start d fmt mp3 s(1)
          show ?thesis
          proof (cases "r = 0")
            case False
            then show ?thesis using go c4 o3 ka3 by (simp add: tag_edit_process_def)
          next
            case True
            then obtain fdw where fdw: "te_fdw t4 = Some fdw" using sv by auto
            have cap: "ID3V1_SIZE \<le> te_cap t4" using sv True by simp
            obtain g pre where g: "fdn k3 fdw = Some g" "fs k3 g = Some (pre @ drop ?sz old)" "length pre < 2 ^ 32"
              and gf: "g = f \<and> fdw = fd \<or> g = tmp_name f \<and> te_fnw t4 = Some (tmp_name f) \<and> fdw \<noteq> fd"
              using sv True fdw by auto
            obtain q where q: "drop ?sz old = audio ?sz old @ q" "length q = ID3V1_SIZE" using audio_split [OF assms(10)] by blast
            have len: "length ((pre @ audio ?sz old) @ q) < 2 ^ 63"
            proof -
              have "length ((pre @ audio ?sz old) @ q) = length pre + length (drop ?sz old)" unfolding q(1) by simp
              also have "\<dots> < 2 ^ 63" using g(3) assms(11) by simp
              finally show ?thesis .
            qed
            have g2: "fs k3 g = Some ((pre @ audio ?sz old) @ q)" using g(2) q(1) by simp
            obtain r1 t5 k4 tl where v1: "mp3_id3v1 G L t4 fd fdw k3 = Some (r1, t5, k4)" "fs k4 = (fs k3)(g \<mapsto> (pre @ audio ?sz old) @ tl)"
              "te_conf t5 = te_conf t4" "te_fd t5 = te_fd t4" "te_fdw t5 = te_fdw t4" "te_fnw t5 = te_fnw t4"
              using mp3_id3v1_keeps [where fs = fs and fdn = fdn, OF assms(2,3) g(1) g2 q(2) len cap, of fd] by blast
            have kg: "keeps_audio ?sz old (fs k4 g)" using v1(2) by (auto simp: keeps_audio_def)
            have kf: "keeps_audio ?sz old (fs k4 f)" using v1(2) kg ka3 gf by (cases "g = f") auto
            have o4: "\<forall>x. x \<noteq> f \<longrightarrow> x \<noteq> tmp_name f \<longrightarrow> fs k4 x = fs k x" using v1(2) o3 gf by auto
            have "tag_edit_process n G L t k = Some (r1, t5\<lparr>te_done := (r1 = 0)\<rparr>, k4)"
              using go True fdw v1(1) by (simp add: tag_edit_process_def)
            moreover have "te_fd t4 \<noteq> te_fdw t4 \<longrightarrow> te_fnw t4 = Some (tmp_name f) \<and> keeps_audio ?sz old (fs k4 (tmp_name f))"
              using gf kg c4 fdw by auto
            ultimately show ?thesis using c4 v1(3-6) kf o4 fdw
              by (intro exI [of _ r1] exI [of _ "t5\<lparr>te_done := (r1 = 0)\<rparr>"] exI [of _ k4]) simp
          qed
        qed
      qed
    qed
  qed
qed


section \<open>An instance\<close>

text \<open>A kernel that keeps the files and the names behind the descriptors, and does not fail.\<close>
type_synonym mem_files = "(string \<rightharpoonup> bytes) \<times> string list"

definition mem_fdn :: "mem_files \<Rightarrow> nat \<rightharpoonup> string" where
  "mem_fdn k fd = (if fd < length (snd k) then Some (snd k ! fd) else None)"

definition mem_file :: "mem_files \<Rightarrow> nat \<Rightarrow> (string \<times> bytes) option" where
  "mem_file k fd = do { f \<leftarrow> mem_fdn k fd; c \<leftarrow> fst k f; Some (f, c) }"

definition mem_tag_kfs :: "mem_files tag_kfs" where
  "mem_tag_kfs =
     \<lparr>k_open = (\<lambda>nm m k. if fst k nm = None then (Some (length (snd k)), ((fst k)(nm \<mapsto> []), snd k @ [nm])) else (None, k)),
      k_errno = (\<lambda>_. 0), k_err_notexist = (\<lambda>_. False), k_err_exist = (\<lambda>_. False), k_info = (\<lambda>_ _. Some (0, (0, 0))),
      k_readat = (\<lambda>fd n off k. map_option (\<lambda>(f, c). take (unat n) (drop (unat off) c)) (mem_file k fd)),
      k_writeat = (\<lambda>fd d off k. case mem_file k fd of None \<Rightarrow> (-1, k)
         | Some (f, c) \<Rightarrow> (int (length d), ((fst k)(f \<mapsto> overwrite c (unat off) d), snd k))),
      k_write = (\<lambda>_ d k. (u64len d, k)), k_pread = (\<lambda>_ _ k. (Some [], k)), k_trunc = (\<lambda>_ _ k. k), k_close = (\<lambda>_ k. (0, k)),
      k_remove = (\<lambda>_ k. (0, k)), k_rename = (\<lambda>a b k. (0, ((fst k)(a := None, b := fst k a), snd k))), k_set_mtime = (\<lambda>_ _ k. k),
      k_exists = (\<lambda>_ _. False), k_1970_seconds = 62135596800, k_debug = False,
      k_open_rw = (\<lambda>nm k. if fst k nm = None then (None, k) else (Some (length (snd k)), (fst k, snd k @ [nm]))),
      k_read = (\<lambda>fd n k. (map_option (\<lambda>(f, c). take (unat n) c) (mem_file k fd), k)),
      k_size = (\<lambda>fd k. case mem_file k fd of None \<Rightarrow> 0 | Some (f, c) \<Rightarrow> u64len c), k_set_fmtime = (\<lambda>_ _ k. k)\<rparr>"

lemma mem_tag_laws: "tag_open_law mem_tag_kfs fst mem_fdn" "tag_io_law mem_tag_kfs fst mem_fdn" "tag_end_law mem_tag_kfs fst"
proof -
  show "tag_open_law mem_tag_kfs fst mem_fdn"
    by (auto simp: tag_open_law_def mem_tag_kfs_def mem_fdn_def fun_eq_iff nth_append split: if_splits)
  show "tag_io_law mem_tag_kfs fst mem_fdn"
    unfolding tag_io_law_def mem_tag_kfs_def mem_file_def by (auto simp: mem_fdn_def fun_eq_iff bind_eq_Some_conv split: option.splits bind_splits)
  show "tag_end_law mem_tag_kfs fst"
    by (simp add: tag_end_law_def mem_tag_kfs_def)
qed

text \<open>Readers that find a title in an old tag of ten bytes, and writers of tags of 40 and 128 bytes.\<close>
definition demo_id3 :: "(nat list, unit) id3_lib" where
  "demo_id3 = \<lparr>i_split = (\<lambda>kv. Some (takeWhile (\<lambda>c. c \<noteq> CHR ''='') kv, tl (dropWhile (\<lambda>c. c \<noteq> CHR ''='') kv))),
     i_find = (\<lambda>l nm. if nm = ''title'' then Some 13 else None),
     i3_toks = (\<lambda>d. [IdTag 13 ''TIT2'' '''' ''x'']), i3_size = (\<lambda>d. 10), i3_new = [], i3_add = (\<lambda>w i v. w @ [i]),
     i3_addframe = (\<lambda>w i v. w), i3_len = (\<lambda>w. 40), i3_finish = (\<lambda>w p. Some (replicate 40 1, 1024)),
     i1_toks = (\<lambda>d. [IdNo]), i1_new = (), i1_set = (\<lambda>v i s. v), i1_bytes = (\<lambda>v. replicate 128 2)\<rparr>"

lemma demo_id3_law: "id3_law demo_id3"
  by (simp add: id3_law_def demo_id3_def ID3V1_SIZE_def ffmmtag_str_def)

definition demo_mp3 :: bytes where
  "demo_mp3 = str_bytes ''ID3'' @ replicate 197 5"

lemma demo_mp3_audio: "length demo_mp3 = 200" "tag_len demo_id3 demo_mp3 = 10" "audio 10 demo_mp3 = replicate 62 5"
  by (simp_all add: demo_mp3_def str_bytes_def tag_len_def demo_id3_def audio_def ID3V1_SIZE_def drop_Cons')


section \<open>Shortcomings\<close>

text \<open>
  When the size of the rest is not the size of what the file still holds (an old tag that claims to be longer
  than the file makes it negative), reads return nothing and the loop does not end.
\<close>
lemma file_copydata_endless:
  assumes "\<And>m. k_readat G src m offsrc k = Some []" and "k_writeat G dst [] offdst k = (0, k)" and "sz \<noteq> 0"
  shows "file_copydata n G src offsrc dst offdst sz k = None"
  using assms by (induction n) simp_all

text \<open>A value of the user without a known name takes the place of every unknown frame of the file.\<close>
lemma unknown_tag_replaces_frames:
  assumes "kv \<noteq> []" and "i_split L kv = Some (nm, v)" and "i_find L ffmmtag_str nm = None" and "length added > 0"
  shows "id3_copy L [kv] (IdTag 0 ik after iv # ts) w added = id3_copy L [kv] ts (i3_add L w 0 v) (added[0 := True])"
  using assms by (simp add: user_meta_split_def)

text \<open>A name of a frame with more than four bytes is copied over the end of the array.\<close>
lemma frame_name_overflows:
  assumes "user_meta_find L meta 0 = None" and "4 < length ik"
  shows "id3_copy L meta (IdTag 0 ik after iv # ts) w added = None"
  using assms by simp

end
