(* ===== verification/Http.thy ===== *)
theory Http
  imports Conveyor Core Detector
begin

text \<open>
  \<open>src/src/net/http.c\<close>, \<open>net/http-bridge.h\<close>, \<open>net/http-filters.c\<close> and \<open>net/icy.c\<close>: the HTTP source of a
  track. The client of netmill runs on the worker of the track and calls back into the filter:
  \<open>phi_hc_resp\<close> for the response header, \<open>phi_hc_data\<close> for a piece of the body, \<open>on_complete\<close> when
  it gives up. The filter and the client hand one buffer over at a time. The client itself, the URL
  functions, SSL and the ICY parser of avpack are parameters; \<open>nml_http_client_run\<close> is the last call
  of \<open>httpcl_process\<close> and is its third result.
\<close>

section \<open>State\<close>

datatype hst = HS_PROCESSING | HS_WAIT | HS_DATA | HS_ERR

datatype nmlf = NMLF_OPEN | NMLF_BACK | NMLF_ASYNC | NMLF_ERR

text \<open>The fields of \<open>struct nml_http_client_conf\<close> that \<open>conf_prepare\<close> sets.\<close>
record hc_conf =
  hc_log_level :: nat
  hc_host :: string
  hc_path :: string
  hc_ssl_chain :: bool
  hc_server_port :: u32
  hc_headers :: string

record httpcl =
  h_conf :: hc_conf
  h_path :: string
  h_data :: bytes
  h_state :: hst
  h_fstate :: u32
  h_done :: bool
  h_icy :: bool

text \<open>\<open>struct phi_http_data\<close>.\<close>
record phi_http_data =
  d_code :: u32
  d_status :: string
  d_ct :: string
  d_icy_meta_interval :: u32

section \<open>Opening\<close>

text \<open>\<open>struct httpurl_parts\<close>: parts of the URL, the host as an offset and a length.\<close>
record httpurl_parts =
  p_scheme :: string
  p_host :: "nat \<times> nat"
  p_port :: string
  p_path :: string

text \<open>
  What \<open>conf_prepare\<close> calls: \<open>nml_http_client_conf (NULL, ...)\<close> for the defaults, \<open>httpurl_split\<close>,
  \<open>httpurl_escape\<close> into a buffer of the given capacity, and \<open>ssl_prepare\<close>, which creates the shared
  SSL context.
\<close>
record hc_lib =
  hl_defaults :: hc_conf
  hl_split :: "string \<Rightarrow> httpurl_parts"
  hl_escape :: "nat \<Rightarrow> string \<Rightarrow> string"
  hl_ssl_prepare :: bool
  hl_extra :: bool
  hl_debug :: bool

definition NML_LOG_DEBUG :: nat where "NML_LOG_DEBUG = 7"
definition NML_LOG_EXTRA :: nat where "NML_LOG_EXTRA = 8"

definition lower :: "char \<Rightarrow> char" where
  "lower c = (if (of_char c :: nat) \<in> {65..90} then char_of (of_char c + 32 :: nat) else c)"

text \<open>\<open>ffstr_ieqz\<close>.\<close>
definition ieq :: "string \<Rightarrow> string \<Rightarrow> bool" where
  "ieq a b \<longleftrightarrow> map lower a = map lower b"

text \<open>\<open>ssl\<close> is whether the global context exists; the first result is that of the function.\<close>
definition conf_prepare :: "hc_lib \<Rightarrow> string \<Rightarrow> bool \<Rightarrow> httpcl \<Rightarrow> bool \<times> bool \<times> httpcl" where
  "conf_prepare L name ssl h =
     (let c0 = hl_defaults L;
          c1 = (if hl_extra L then c0\<lparr>hc_log_level := NML_LOG_EXTRA\<rparr>
                else if hl_debug L then c0\<lparr>hc_log_level := NML_LOG_DEBUG\<rparr> else c0);
          p = hl_split L name;
          path = hl_escape L (3 * length (p_path p)) (p_path p);
          c2 = c1\<lparr>hc_host := take (snd (p_host p) + length (p_port p)) (drop (fst (p_host p)) name),
                  hc_path := path, hc_ssl_chain := False\<rparr>;
          https = ieq (p_scheme p) ''https://'';
          ssl1 = (ssl \<or> https \<and> hl_ssl_prepare L)
      in if https \<and> \<not> ssl1 then (False, ssl1, h\<lparr>h_conf := c2, h_path := path\<rparr>)
         else
           (let c3 = (if \<not> https then c2
                      else if p_port p = [] then c2\<lparr>hc_ssl_chain := True, hc_server_port := 443\<rparr>
                      else c2\<lparr>hc_ssl_chain := True\<rparr>);
                c4 = c3\<lparr>hc_headers := hc_headers c3 @ ''User-Agent: phiola/2'' @ [CHR 0x0D, CHR 0x0A]
                          @ ''Icy-MetaData: 1'' @ [CHR 0x0D, CHR 0x0A]\<rparr>
            in (True, ssl1, h\<lparr>h_conf := c4, h_path := path\<rparr>)))"

text \<open>\<open>None\<close>: \<open>PHI_OPEN_ERR\<close>.\<close>
definition httpcl_open :: "hc_lib \<Rightarrow> phi_track \<Rightarrow> bool \<Rightarrow> phi_track \<times> bool \<times> httpcl option" where
  "httpcl_open L t ssl =
     (let h = \<lparr>h_conf = hl_defaults L, h_path = [], h_data = [], h_state = HS_PROCESSING, h_fstate = 0,
               h_done = False, h_icy = False\<rparr>
      in case conf_prepare L (case if_name (c_ifile (t_conf t)) of None \<Rightarrow> [] | Some n \<Rightarrow> n) ssl h of
           (ok, ssl1, h1) \<Rightarrow>
             if \<not> ok then (t, ssl1, None)
             else (if in_seek (t_input t) = 0 then t\<lparr>t_input := (t_input t)\<lparr>in_seek := -1\<rparr>\<rparr> else t,
                   ssl1, Some (h1\<lparr>h_state := HS_PROCESSING\<rparr>)))"

section \<open>Callbacks of the client\<close>

definition phi_hc_resp :: "httpcl \<Rightarrow> phi_track \<Rightarrow> phi_http_data \<Rightarrow> httpcl \<times> phi_track \<times> nmlf" where
  "phi_hc_resp h t d =
     (if d_code d \<noteq> 200 then (h, t, NMLF_ERR)
      else (h\<lparr>h_icy := (d_icy_meta_interval d \<noteq> 0)\<rparr>,
            t\<lparr>t_data_type := map_sz_vptr_findstr (tbl ct_ext) (d_ct d),
              t_icy_meta_interval := d_icy_meta_interval d\<rparr>, NMLF_OPEN))"

text \<open>The second result: \<open>core->track->wake (h->trk)\<close> is called.\<close>
definition phi_hc_data :: "httpcl \<Rightarrow> bytes \<Rightarrow> u32 \<Rightarrow> httpcl \<times> bool \<times> nmlf" where
  "phi_hc_data h data flags =
     (if h_fstate h = 0 then
        (let h1 = h\<lparr>h_data := data, h_done := (flags AND 1 \<noteq> 0), h_state := HS_DATA\<rparr>
         in if h_state h = HS_WAIT then (h1\<lparr>h_fstate := 1\<rparr>, True, NMLF_ASYNC)
            else (h1, False, NMLF_ASYNC))
      else if h_fstate h = 1 then (h\<lparr>h_fstate := 0\<rparr>, False, NMLF_BACK)
      else (h, False, NMLF_ERR))"

definition on_complete :: "httpcl \<Rightarrow> httpcl \<times> bool" where
  "on_complete h = (h\<lparr>h_state := HS_ERR\<rparr>, h_state h = HS_WAIT)"

section \<open>The bridge filter\<close>

text \<open>
  The response of the client: \<open>hdr\<close> is \<open>http_hdr_parse\<close>, which gives the bytes used, the name and the value;
  \<open>num\<close> is \<open>ffstr_to_uint32\<close>, which leaves the target alone when the text is not a number.
  The parser needs input to report more than two bytes, so the loop ends with the header.
\<close>
record nml_response =
  r_code :: u32
  r_status :: string
  r_content_type :: string
  r_headers :: string

function (sequential) icy_metaint ::
    "(string \<Rightarrow> int \<times> string \<times> string) \<Rightarrow> (string \<Rightarrow> u32 option) \<Rightarrow> string \<Rightarrow> u32 \<Rightarrow> u32" where
  "icy_metaint hdr num s n =
     (case hdr s of (r, name, val) \<Rightarrow>
        if r \<le> 2 \<or> s = [] then n
        else icy_metaint hdr num (drop (nat r) s)
               (if ieq name ''icy-metaint'' then (case num val of None \<Rightarrow> n | Some k \<Rightarrow> k) else n))"
  by pat_completeness auto
termination by (relation "measure (\<lambda>(hdr, num, s, n). length s)") (auto simp: neq_Nil_conv)

definition phi_output_open ::
    "(string \<Rightarrow> int \<times> string \<times> string) \<Rightarrow> (string \<Rightarrow> u32 option) \<Rightarrow> nml_response \<Rightarrow>
     httpcl \<Rightarrow> phi_track \<Rightarrow> httpcl \<times> phi_track \<times> nmlf" where
  "phi_output_open hdr num c h t =
     phi_hc_resp h t
       \<lparr>d_code = r_code c, d_status = r_status c, d_ct = r_content_type c,
        d_icy_meta_interval = icy_metaint hdr num (r_headers c) 0\<rparr>"

definition phi_output_process :: "bytes \<Rightarrow> bool \<Rightarrow> httpcl \<Rightarrow> httpcl \<times> bool \<times> nmlf" where
  "phi_output_process inp resp_complete h = phi_hc_data h inp (if resp_complete then 1 else 0)"

section \<open>The filter\<close>

definition httpcl_process :: "httpcl \<Rightarrow> phi_track \<Rightarrow> httpcl \<times> phi_track \<times> phi_r \<times> bool" where
  "httpcl_process h t =
     (let t1 = (if in_seek (t_input t) \<noteq> -1 then t\<lparr>t_input := (t_input t)\<lparr>in_seek := -1\<rparr>\<rparr> else t)
      in case h_state h of
           HS_DATA \<Rightarrow>
             (case (if h_icy h then track_add (Some ''phi_icy'') t1 else (t1, True)) of (t2, ok) \<Rightarrow>
                let h1 = h\<lparr>h_icy := False\<rparr>
                in if \<not> ok then (h1, t2, PHI_ERR, False)
                   else (h1\<lparr>h_state := HS_PROCESSING\<rparr>, t2\<lparr>t_data_out := h_data h\<rparr>,
                         (if h_done h then PHI_DONE else PHI_DATA), False))
         | HS_PROCESSING \<Rightarrow> (h\<lparr>h_state := HS_WAIT\<rparr>, t1, PHI_ASYNC, True)
         | _ \<Rightarrow> (h, t1, PHI_ERR, False))"

section \<open>ICY meta data\<close>

datatype icy_ev = ICYREAD_MORE | ICYREAD_DATA bytes | ICYREAD_META bytes

text \<open>
  \<open>icyread_open\<close>, \<open>icyread_process\<close> (event, new state, rest of the input), \<open>icymeta_read\<close> (key, value, rest),
  \<open>icymeta_artist_title\<close>, \<open>ffutf8_valid_str\<close> and the conversion from Windows-1252.
\<close>
record 'r icy_lib =
  il_open :: "u32 \<Rightarrow> 'r"
  il_process :: "'r \<Rightarrow> bytes \<Rightarrow> icy_ev \<times> 'r \<times> bytes"
  il_meta_read :: "bytes \<Rightarrow> (string \<times> string \<times> bytes) option"
  il_artist_title :: "string \<Rightarrow> string \<times> string"
  il_utf8_valid :: "string \<Rightarrow> bool"
  il_from_win1252 :: "string \<Rightarrow> string"

record 'r icy =
  y_icy :: 'r
  y_data :: bytes

definition icy_open :: "'r icy_lib \<Rightarrow> phi_track \<Rightarrow> 'r icy" where
  "icy_open L t = \<lparr>y_icy = il_open L (t_icy_meta_interval t), y_data = []\<rparr>"

text \<open>The loop over the pairs of one block of meta data; \<open>None\<close> when \<open>n\<close> rounds do not end it.\<close>
fun icy_pairs :: "nat \<Rightarrow> 'r icy_lib \<Rightarrow> bytes \<Rightarrow> string \<times> string \<Rightarrow> (string \<times> string) option" where
  "icy_pairs 0 L s at = None"
| "icy_pairs (Suc n) L s at =
     (case il_meta_read L s of
        None \<Rightarrow> Some at
      | Some (k, v, s1) \<Rightarrow> icy_pairs n L s1 (if ieq k ''StreamTitle'' then il_artist_title L v else at))"

definition icy_utf8 :: "'r icy_lib \<Rightarrow> string \<Rightarrow> string" where
  "icy_utf8 L s = (if il_utf8_valid L s then s else il_from_win1252 L s)"

definition icy_meta :: "'r icy_lib \<Rightarrow> bytes \<Rightarrow> phi_track \<Rightarrow> phi_track option" where
  "icy_meta L s t =
     (case icy_pairs (Suc (length s)) L s ([], []) of
        None \<Rightarrow> None
      | Some (artist, title) \<Rightarrow>
          Some (t\<lparr>t_meta := meta_set (meta_set [] ''artist'' (icy_utf8 L artist) 0) ''title'' (icy_utf8 L title) 0,
                  t_meta_changed := True\<rparr>))"

text \<open>The loop of \<open>icy_process\<close>; a block of meta data takes input, so the length of the input bounds the rounds.\<close>
fun icy_loop :: "nat \<Rightarrow> 'r icy_lib \<Rightarrow> 'r icy \<Rightarrow> phi_track \<Rightarrow> ('r icy \<times> phi_track \<times> phi_r) option" where
  "icy_loop 0 L c t = None"
| "icy_loop (Suc n) L c t =
     (case il_process L (y_icy c) (y_data c) of (ev, r, d) \<Rightarrow>
        let c1 = c\<lparr>y_icy := r, y_data := d\<rparr>
        in case ev of
             ICYREAD_MORE \<Rightarrow> Some (c1, t, PHI_MORE)
           | ICYREAD_DATA s \<Rightarrow> Some (c1, t\<lparr>t_data_out := s\<rparr>, PHI_DATA)
           | ICYREAD_META s \<Rightarrow> (case icy_meta L s t of None \<Rightarrow> None | Some t1 \<Rightarrow> icy_loop n L c1 t1))"

definition icy_process :: "'r icy_lib \<Rightarrow> 'r icy \<Rightarrow> phi_track \<Rightarrow> ('r icy \<times> phi_track \<times> phi_r) option" where
  "icy_process L c t =
     (if has_flag t PHI_FSTOP then Some (c, t, PHI_LASTOUT)
      else if has_flag t PHI_FFWD then icy_loop (Suc (length (t_data_in t))) L (c\<lparr>y_data := t_data_in t\<rparr>) (t\<lparr>t_data_in := []\<rparr>)
      else icy_loop (Suc (length (y_data c))) L c t)"

section \<open>The hand-over between client and filter\<close>

text \<open>
  The phases of the client: not started, working or waiting for the network, holding a chunk that the bridge
  has not released, and ended. A history is a list of the events of the worker thread: the track runs the
  filter, the client receives a header or a chunk, it gives up, or the user stops the track, which wakes it.
\<close>

datatype cl_phase = CNew | CRun | CHeld bytes bool | CFail | CEnd

datatype http_op = HFilter | HResp phi_http_data | HData bytes bool | HComplete | HStop

text \<open>
  \<open>s_in\<close> are the chunks the client received and \<open>s_out\<close> those the filter passed on; \<open>s_asleep\<close>: the track waits to be
  woken; \<open>s_end\<close> is the result that removed the filter from the chain.
\<close>
record http_sys =
  s_h :: httpcl
  s_t :: phi_track
  s_cl :: cl_phase
  s_asleep :: bool
  s_in :: "bytes list"
  s_out :: "bytes list"
  s_last :: bool
  s_stop :: bool
  s_end :: "phi_r option"

text \<open>\<open>nml_http_client_run\<close>: a client that holds a chunk calls the bridge with it again.\<close>
definition client_run :: "http_sys \<Rightarrow> http_sys" where
  "client_run s =
     (case s_cl s of
        CNew \<Rightarrow> s\<lparr>s_cl := CRun\<rparr>
      | CHeld c l \<Rightarrow>
          (case phi_output_process c l (s_h s) of (h, wake, r) \<Rightarrow>
             s\<lparr>s_h := h, s_asleep := (s_asleep s \<and> \<not> wake),
               s_cl := (if r = NMLF_BACK then CRun else if r = NMLF_ASYNC then CHeld c l else CFail)\<rparr>)
      | _ \<Rightarrow> s)"

fun http_exec :: "http_op \<Rightarrow> http_sys \<Rightarrow> http_sys" where
  "http_exec HFilter s =
     (case httpcl_process (s_h s) (s_t s) of (h, t, r, run) \<Rightarrow>
        let s1 = s\<lparr>s_h := h, s_t := t, s_asleep := (r = PHI_ASYNC),
                   s_out := (if r = PHI_DATA \<or> r = PHI_DONE then s_out s @ [t_data_out t] else s_out s),
                   s_end := (if r = PHI_DONE \<or> r = PHI_ERR then Some r else None)\<rparr>
        in if run then client_run s1 else s1)"
| "http_exec (HResp d) s =
     (case phi_hc_resp (s_h s) (s_t s) d of (h, t, r) \<Rightarrow>
        s\<lparr>s_h := h, s_t := t, s_cl := (if r = NMLF_OPEN then CRun else CFail)\<rparr>)"
| "http_exec (HData c l) s =
     (case phi_output_process c l (s_h s) of (h, wake, r) \<Rightarrow>
        s\<lparr>s_h := h, s_in := s_in s @ [c], s_last := l, s_asleep := (s_asleep s \<and> \<not> wake),
          s_cl := (if r = NMLF_ASYNC then CHeld c l else if r = NMLF_BACK then CRun else CFail)\<rparr>)"
| "http_exec HComplete s =
     (case on_complete (s_h s) of (h, wake) \<Rightarrow>
        s\<lparr>s_h := h, s_cl := CEnd, s_asleep := (s_asleep s \<and> \<not> wake)\<rparr>)"
| "http_exec HStop s = s\<lparr>s_stop := True, s_asleep := False\<rparr>"

text \<open>The track runs when it is awake; a working client reports; a client that failed gives up; nothing
  happens after the end.\<close>
fun http_ok :: "http_op \<Rightarrow> http_sys \<Rightarrow> bool" where
  "http_ok HFilter s \<longleftrightarrow> s_end s = None \<and> \<not> s_asleep s"
| "http_ok (HResp d) s \<longleftrightarrow> s_end s = None \<and> s_cl s = CRun \<and> s_in s = []"
| "http_ok (HData c l) s \<longleftrightarrow> s_end s = None \<and> s_cl s = CRun \<and> \<not> s_last s"
| "http_ok HComplete s \<longleftrightarrow> s_end s = None \<and> (s_cl s = CRun \<or> s_cl s = CFail)"
| "http_ok HStop s \<longleftrightarrow> s_end s = None"

definition http_start :: "httpcl \<Rightarrow> phi_track \<Rightarrow> http_sys" where
  "http_start h t =
     \<lparr>s_h = h, s_t = t, s_cl = CNew, s_asleep = False, s_in = [], s_out = [], s_last = False, s_stop = False,
      s_end = None\<rparr>"

text \<open>
  While the filter is in the chain: who holds the chunk, and which state of the filter belongs to which phase of
  the client.
\<close>
definition http_live :: "http_sys \<Rightarrow> bool" where
  "http_live s \<longleftrightarrow>
     (case s_cl s of
        CNew \<Rightarrow> h_state (s_h s) = HS_PROCESSING \<and> h_fstate (s_h s) = 0 \<and> s_out s = s_in s \<and> \<not> s_asleep s \<and> \<not> s_last s
      | CHeld c l \<Rightarrow>
          h_fstate (s_h s) = 1 \<and> \<not> s_asleep s \<and> s_last s = l \<and>
          (h_state (s_h s) = HS_DATA \<and> h_data (s_h s) = c \<and> h_done (s_h s) = l \<and> s_in s = s_out s @ [c]
           \<or> h_state (s_h s) = HS_PROCESSING \<and> \<not> l \<and> s_in s = s_out s)
      | CEnd \<Rightarrow> h_state (s_h s) = HS_ERR \<and> s_out s = s_in s \<and> \<not> s_asleep s
      | _ \<Rightarrow> h_state (s_h s) = HS_WAIT \<and> h_fstate (s_h s) = 0 \<and> s_out s = s_in s \<and> (s_asleep s \<or> s_stop s) \<and> \<not> s_last s)"

definition http_inv :: "http_sys \<Rightarrow> bool" where
  "http_inv s \<longleftrightarrow>
     (case s_end s of
        None \<Rightarrow> http_live s
      | Some r \<Rightarrow> \<not> s_asleep s \<and>
          (r = PHI_DONE \<and> s_out s = s_in s \<and> s_last s
           \<or> r = PHI_ERR \<and> (s_in s = s_out s \<and> (s_cl s = CEnd \<or> s_stop s) \<or> (\<exists>c. s_in s = s_out s @ [c]))))"

text \<open>The three outcomes of the filter, by the state it finds.\<close>

lemma process_data:
  assumes "h_state h = HS_DATA" and "httpcl_process h t = (h1, t1, r, run)"
  shows "\<not> run \<and> h_fstate h1 = h_fstate h
    \<and> (r = PHI_ERR \<or> h_state h1 = HS_PROCESSING \<and> t_data_out t1 = h_data h \<and> r = (if h_done h then PHI_DONE else PHI_DATA))"
  using assms by (auto simp: httpcl_process_def Let_def split: prod.splits if_splits)

lemma process_start:
  assumes "h_state h = HS_PROCESSING" and "httpcl_process h t = (h1, t1, r, run)"
  shows "run \<and> r = PHI_ASYNC \<and> h1 = h\<lparr>h_state := HS_WAIT\<rparr>"
  using assms by (auto simp: httpcl_process_def Let_def)

lemma process_other:
  assumes "h_state h = HS_WAIT \<or> h_state h = HS_ERR" and "httpcl_process h t = (h1, t1, r, run)"
  shows "\<not> run \<and> r = PHI_ERR"
  using assms by (auto simp: httpcl_process_def Let_def)

lemma filter_inv:
  assumes "http_inv s" and "http_ok HFilter s"
  shows "http_inv (http_exec HFilter s)"
proof -
  have live: "http_live s" and en: "s_end s = None" "\<not> s_asleep s" using assms by (simp_all add: http_inv_def)
  obtain h t r run where p: "httpcl_process (s_h s) (s_t s) = (h, t, r, run)" by (metis prod_cases4)
  show ?thesis
  proof (cases "h_state (s_h s)")
    case HS_DATA
    with live obtain c l where "s_cl s = CHeld c l" "h_data (s_h s) = c" "h_done (s_h s) = l" "h_fstate (s_h s) = 1"
      "s_in s = s_out s @ [c]" "s_last s = l"
      by (auto simp: http_live_def split: cl_phase.splits)
    then show ?thesis using process_data [OF HS_DATA p] p
      by (auto simp: http_inv_def http_live_def)
  next
    case HS_PROCESSING
    show ?thesis
      using live en process_start [OF HS_PROCESSING p] p HS_PROCESSING
      by (auto simp: http_inv_def http_live_def client_run_def phi_output_process_def phi_hc_data_def split: cl_phase.splits)
  next
    case HS_WAIT
    then show ?thesis using live en process_other [OF _ p] p
      by (auto simp: http_inv_def http_live_def split: cl_phase.splits)
  next
    case HS_ERR
    then show ?thesis using live en process_other [OF _ p] p
      by (auto simp: http_inv_def http_live_def split: cl_phase.splits)
  qed
qed

lemma http_exec_inv:
  assumes "http_inv s" and "http_ok op s"
  shows "http_inv (http_exec op s)"
proof (cases op)
  case HFilter
  with assms show ?thesis by (simp add: filter_inv del: http_exec.simps)
next
  case (HResp d)
  with assms show ?thesis
    by (auto simp: http_inv_def http_live_def phi_hc_resp_def)
next
  case (HData c l)
  with assms show ?thesis
    by (auto simp: http_inv_def http_live_def phi_output_process_def phi_hc_data_def)
next
  case HComplete
  with assms show ?thesis
    by (auto simp: http_inv_def http_live_def on_complete_def)
next
  case HStop
  with assms show ?thesis
    by (auto simp: http_inv_def http_live_def split: cl_phase.splits)
qed

interpretation http: op_invariant http_inv http_ok http_exec
  by unfold_locales (rule http_exec_inv)

lemma http_start_inv: "httpcl_open L t ssl = (t1, ssl1, Some h) \<Longrightarrow> http_inv (http_start h t1)"
  by (auto simp: httpcl_open_def conf_prepare_def Let_def http_inv_def http_live_def http_start_def split: if_splits)

text \<open>
  Property C32: the HTTP source hands every chunk of the body to the track exactly once and in order. In every
  history of the track and the client, the chunks passed on are those received, or all but the last one, which
  the filter still holds; whenever the track sleeps, the client is still at work and everything received has
  been passed on, so no wake-up is lost; and the track gets \<open>PHI_DONE\<close> only after the last chunk of a
  complete response.
\<close>

theorem http_hands_over_in_order:
  assumes "httpcl_open L t ssl = (t1, ssl1, Some h)" and "ops_ok http_ok http_exec ops (http_start h t1)"
  shows "let s = fold http_exec ops (http_start h t1) in
           (s_in s = s_out s \<or> (\<exists>c. s_in s = s_out s @ [c] \<and> (s_end s = None \<longrightarrow> h_state (s_h s) = HS_DATA \<and> h_data (s_h s) = c)))
         \<and> (s_asleep s \<longrightarrow> (s_cl s = CRun \<or> s_cl s = CFail) \<and> h_state (s_h s) = HS_WAIT \<and> s_in s = s_out s)
         \<and> (s_end s = Some PHI_DONE \<longrightarrow> s_last s \<and> s_in s = s_out s)"
proof -
  have "http_inv (fold http_exec ops (http_start h t1))"
    using http.run_inv [OF http_start_inv [OF assms(1)] assms(2)] .
  then show ?thesis
    unfolding Let_def http_inv_def http_live_def
    by (auto split: option.splits cl_phase.splits)
qed

definition demo_hc :: hc_lib where
  "demo_hc =
    \<lparr>hl_defaults = \<lparr>hc_log_level = 0, hc_host = [], hc_path = [], hc_ssl_chain = False, hc_server_port = 80, hc_headers = []\<rparr>,
     hl_split = (\<lambda>n. \<lparr>p_scheme = ''http://'', p_host = (7, 1), p_port = [], p_path = drop 8 n\<rparr>),
     hl_escape = (\<lambda>cap p. p), hl_ssl_prepare = False, hl_extra = False, hl_debug = True\<rparr>"

definition demo_url_track :: phi_track where
  "demo_url_track = phi_track_zero\<lparr>t_conf := phi_track_conf_zero\<lparr>c_ifile := (c_ifile phi_track_conf_zero)\<lparr>if_name := Some ''http://h/a.mp3''\<rparr>\<rparr>\<rparr>"

definition demo_http_ops :: "http_op list" where
  "demo_http_ops =
    [HFilter, HResp \<lparr>d_code = 200, d_status = ''OK'', d_ct = ''audio/mpeg'', d_icy_meta_interval = 0\<rparr>,
     HData [1, 2] False, HFilter, HFilter, HData [3] True, HFilter]"

definition demo_hc_start :: http_sys where
  "demo_hc_start =
     (case httpcl_open demo_hc demo_url_track False of (t, _, h) \<Rightarrow> http_start (the h) t)"

theorem http_hands_over_in_order_witness:
  "s_asleep (fold http_exec (take 1 demo_http_ops) demo_hc_start)
   \<and> h_state (s_h (fold http_exec (take 1 demo_http_ops) demo_hc_start)) = HS_WAIT
   \<and> s_end (fold http_exec demo_http_ops demo_hc_start) = Some PHI_DONE
   \<and> s_in (fold http_exec demo_http_ops demo_hc_start) = s_out (fold http_exec demo_http_ops demo_hc_start)"
proof -
  obtain t1 h where o: "httpcl_open demo_hc demo_url_track False = (t1, False, Some h)"
  proof -
    have "case httpcl_open demo_hc demo_url_track False of (_, ssl, h) \<Rightarrow> \<not> ssl \<and> h \<noteq> None" by code_simp
    with that show thesis by (auto split: prod.splits)
  qed
  then have st: "http_start h t1 = demo_hc_start" by (simp add: demo_hc_start_def)
  have ok: "ops_ok http_ok http_exec (take 1 demo_http_ops) demo_hc_start" "ops_ok http_ok http_exec demo_http_ops demo_hc_start"
    by code_simp+
  have e: "s_asleep (fold http_exec (take 1 demo_http_ops) demo_hc_start)"
    "s_end (fold http_exec demo_http_ops demo_hc_start) = Some PHI_DONE"
    by code_simp+
  show ?thesis
    using http_hands_over_in_order [OF o, of "take 1 demo_http_ops"] http_hands_over_in_order [OF o, of demo_http_ops] ok e
    by (simp add: st Let_def)
qed

section \<open>Separation of audio and meta data\<close>

text \<open>
  The ICY stream as a reference: \<open>iv\<close> bytes of audio, one byte with the number of 16-byte units, the meta data, and
  so on. The result is the audio, the position, and the blocks of meta data that were completed.
\<close>

datatype icy_pos = PAudio nat | PSize | PMeta nat bytes

fun icy_byte :: "nat \<Rightarrow> icy_pos \<Rightarrow> u8 \<Rightarrow> bytes \<times> icy_pos \<times> bytes list" where
  "icy_byte iv (PAudio n) b = ([b], (if n \<le> 1 then PSize else PAudio (n - 1)), [])"
| "icy_byte iv PSize b = ([], (if b = 0 then PAudio iv else PMeta (16 * unat b) []), [])"
| "icy_byte iv (PMeta n m) b = (if n \<le> 1 then ([], PAudio iv, [m @ [b]]) else ([], PMeta (n - 1) (m @ [b]), []))"

fun icy_ref :: "nat \<Rightarrow> icy_pos \<Rightarrow> bytes \<Rightarrow> bytes \<times> icy_pos \<times> bytes list" where
  "icy_ref iv p [] = ([], p, [])"
| "icy_ref iv p (b # bs) =
     (case icy_byte iv p b of (a, q, m) \<Rightarrow> case icy_ref iv q bs of (a2, q2, m2) \<Rightarrow> (a @ a2, q2, m @ m2))"

lemma icy_ref_append:
  "icy_ref iv p (xs @ ys) =
     (case icy_ref iv p xs of (a, q, m) \<Rightarrow> case icy_ref iv q ys of (a2, q2, m2) \<Rightarrow> (a @ a2, q2, m @ m2))"
  by (induction xs arbitrary: p) (simp_all split: prod.splits)

text \<open>The parser follows the format (\<open>pos\<close> is where its state stands) and takes input for every event.\<close>
definition icy_law :: "'r icy_lib \<Rightarrow> nat \<Rightarrow> ('r \<Rightarrow> icy_pos) \<Rightarrow> bool" where
  "icy_law L iv pos \<longleftrightarrow>
     pos (il_open L (of_nat iv)) = PAudio iv
     \<and> (\<forall>r d ev r1 d1. il_process L r d = (ev, r1, d1) \<longrightarrow>
          (\<exists>pre. d = pre @ d1 \<and>
             (case ev of
                ICYREAD_MORE \<Rightarrow> d1 = [] \<and> icy_ref iv (pos r) pre = ([], pos r1, [])
              | ICYREAD_DATA s \<Rightarrow> pre \<noteq> [] \<and> icy_ref iv (pos r) pre = (s, pos r1, [])
              | ICYREAD_META s \<Rightarrow> pre \<noteq> [] \<and> icy_ref iv (pos r) pre = ([], pos r1, [s]))))
     \<and> (\<forall>s k v s1. il_meta_read L s = Some (k, v, s1) \<longrightarrow> length s1 < length s)"

text \<open>The meta data of the track after a block.\<close>
definition icy_song :: "'r icy_lib \<Rightarrow> bytes \<Rightarrow> string list" where
  "icy_song L s = (case icy_pairs (Suc (length s)) L s ([], []) of
     Some (a, ti) \<Rightarrow> meta_set (meta_set [] ''artist'' (icy_utf8 L a) 0) ''title'' (icy_utf8 L ti) 0 | None \<Rightarrow> [])"

definition songs :: "'r icy_lib \<Rightarrow> bytes list \<Rightarrow> string list \<Rightarrow> string list" where
  "songs L ms m0 = (if ms = [] then m0 else icy_song L (last ms))"

text \<open>The track runs the filter until it asks for more input, and then gives it the next piece.\<close>
fun icy_drain :: "nat \<Rightarrow> 'r icy_lib \<Rightarrow> 'r icy \<Rightarrow> phi_track \<Rightarrow> ('r icy \<times> phi_track \<times> bytes) option" where
  "icy_drain n L c t =
     (case icy_process L c t of
        None \<Rightarrow> None
      | Some (c1, t1, r) \<Rightarrow>
          if r = PHI_MORE then Some (c1, t1, [])
          else if r = PHI_DATA \<and> n \<noteq> 0 then
            map_option (\<lambda>(c2, t2, out). (c2, t2, t_data_out t1 @ out))
              (icy_drain (n - 1) L c1 (t1\<lparr>t_chain_flags := 0\<rparr>))
          else None)"

declare icy_drain.simps [simp del]

fun icy_run :: "'r icy_lib \<Rightarrow> 'r icy \<Rightarrow> phi_track \<Rightarrow> bytes list \<Rightarrow> ('r icy \<times> phi_track \<times> bytes) option" where
  "icy_run L c t [] = Some (c, t, [])"
| "icy_run L c t (p # ps) =
     (case icy_drain (length p) L c (t\<lparr>t_data_in := p, t_chain_flags := PHI_FFWD\<rparr>) of
        None \<Rightarrow> None
      | Some (c1, t1, out) \<Rightarrow> map_option (\<lambda>(c2, t2, out2). (c2, t2, out @ out2)) (icy_run L c1 t1 ps))"

lemma icy_pairs_total:
  assumes "\<forall>s k v s1. il_meta_read L s = Some (k, v, s1) \<longrightarrow> length s1 < length s" and "length s < n"
  shows "icy_pairs n L s at \<noteq> None"
  using assms(2)
proof (induction n arbitrary: s at)
  case (Suc n)
  show ?case
  proof (cases "il_meta_read L s")
    case (Some x)
    obtain k v s1 where "x = (k, v, s1)" by (cases x)
    with Some assms(1) have "length s1 < n" using Suc.prems by fastforce
    from Suc.IH [OF this] show ?thesis using Some \<open>x = _\<close> by simp
  qed simp
qed simp

lemma icy_meta_song:
  assumes "icy_law L iv pos"
  shows "icy_meta L s t = Some (t\<lparr>t_meta := icy_song L s, t_meta_changed := True\<rparr>)"
proof -
  have "icy_pairs (Suc (length s)) L s ([], []) \<noteq> None"
    using assms by (intro icy_pairs_total) (simp_all add: icy_law_def)
  then show ?thesis by (auto simp: icy_meta_def icy_song_def)
qed

text \<open>One call: it takes a part of the input, passes its audio on and keeps the last meta data.\<close>

lemma icy_loop_step:
  assumes law: "icy_law L iv pos" and "length (y_data c) < n"
  shows "\<exists>pre c1 t1 r ms out. icy_loop n L c t = Some (c1, t1, r) \<and> y_data c = pre @ y_data c1
    \<and> icy_ref iv (pos (y_icy c)) pre = (out, pos (y_icy c1), ms) \<and> t_meta t1 = songs L ms (t_meta t)
    \<and> (r = PHI_MORE \<and> y_data c1 = [] \<and> out = [] \<or> r = PHI_DATA \<and> pre \<noteq> [] \<and> t_data_out t1 = out)"
  using assms(2)
proof (induction n arbitrary: c t)
  case (Suc n)
  obtain ev r1 d1 where p: "il_process L (y_icy c) (y_data c) = (ev, r1, d1)" by (metis prod_cases3)
  let ?c = "c\<lparr>y_icy := r1, y_data := d1\<rparr>"
  from law p obtain pre where pre: "y_data c = pre @ d1" and
    ev: "case ev of
                ICYREAD_MORE \<Rightarrow> d1 = [] \<and> icy_ref iv (pos (y_icy c)) pre = ([], pos r1, [])
              | ICYREAD_DATA s \<Rightarrow> pre \<noteq> [] \<and> icy_ref iv (pos (y_icy c)) pre = (s, pos r1, [])
              | ICYREAD_META s \<Rightarrow> pre \<noteq> [] \<and> icy_ref iv (pos (y_icy c)) pre = ([], pos r1, [s])"
    unfolding icy_law_def by blast
  show ?case
  proof (cases ev)
    case ICYREAD_MORE
    with p pre ev show ?thesis by (intro exI [of _ pre]) (simp add: songs_def)
  next
    case (ICYREAD_DATA s)
    with p pre ev show ?thesis by (intro exI [of _ pre]) (simp add: songs_def)
  next
    case (ICYREAD_META s)
    let ?t = "t\<lparr>t_meta := icy_song L s, t_meta_changed := True\<rparr>"
    have "length (y_data ?c) < n" using pre ev ICYREAD_META Suc.prems by (cases pre) simp_all
    from Suc.IH [OF this, of ?t] obtain pre2 c1 t1 r ms out where IH:
      "icy_loop n L ?c ?t = Some (c1, t1, r)" "y_data ?c = pre2 @ y_data c1"
      "icy_ref iv (pos (y_icy ?c)) pre2 = (out, pos (y_icy c1), ms)" "t_meta t1 = songs L ms (t_meta ?t)"
      "r = PHI_MORE \<and> y_data c1 = [] \<and> out = [] \<or> r = PHI_DATA \<and> pre2 \<noteq> [] \<and> t_data_out t1 = out"
      by (elim exE conjE) (rule that, assumption+)
    have "icy_ref iv (pos (y_icy c)) (pre @ pre2) = (out, pos (y_icy c1), s # ms)"
      using ev ICYREAD_META IH(3) by (simp add: icy_ref_append)
    moreover have "icy_loop (Suc n) L c t = Some (c1, t1, r)"
      using p ICYREAD_META IH(1) by (simp add: icy_meta_song [OF law])
    moreover have "t_meta t1 = songs L (s # ms) (t_meta t)" using IH(4) by (simp add: songs_def)
    ultimately show ?thesis
      using pre IH(2,5) by (intro exI [of _ "pre @ pre2"]) auto
  qed
qed simp

lemma icy_process_step:
  assumes law: "icy_law L iv pos" and stop: "\<not> has_flag t PHI_FSTOP"
    and d: "d = (if has_flag t PHI_FFWD then t_data_in t else y_data c)"
  shows "\<exists>pre c1 t1 r ms out. icy_process L c t = Some (c1, t1, r) \<and> d = pre @ y_data c1
    \<and> icy_ref iv (pos (y_icy c)) pre = (out, pos (y_icy c1), ms) \<and> t_meta t1 = songs L ms (t_meta t)
    \<and> (r = PHI_MORE \<and> y_data c1 = [] \<and> out = [] \<or> r = PHI_DATA \<and> pre \<noteq> [] \<and> t_data_out t1 = out)"
proof (cases "has_flag t PHI_FFWD")
  case True
  then show ?thesis
    using icy_loop_step [OF law, of "c\<lparr>y_data := t_data_in t\<rparr>" "Suc (length (t_data_in t))" "t\<lparr>t_data_in := []\<rparr>"] stop d
    by (simp add: icy_process_def del: icy_loop.simps)
next
  case False
  then show ?thesis
    using icy_loop_step [OF law, of c "Suc (length (y_data c))" t] stop d
    by (simp add: icy_process_def del: icy_loop.simps)
qed

lemma songs_append: "songs L (ms @ ms2) m0 = songs L ms2 (songs L ms m0)"
  by (simp add: songs_def)

lemma icy_flags [simp]:
  "\<not> has_flag (t\<lparr>t_chain_flags := PHI_FFWD\<rparr>) PHI_FSTOP" "has_flag (t\<lparr>t_chain_flags := PHI_FFWD\<rparr>) PHI_FFWD"
  "\<not> has_flag (t\<lparr>t_chain_flags := 0\<rparr>) f"
  by (simp_all add: has_flag_def phi_f_defs)

lemma icy_drain_all:
  assumes law: "icy_law L iv pos" and "\<not> has_flag t PHI_FSTOP"
    and "d = (if has_flag t PHI_FFWD then t_data_in t else y_data c)" and "length d \<le> n"
  shows "\<exists>c1 t1 ms out. icy_drain n L c t = Some (c1, t1, out)
    \<and> icy_ref iv (pos (y_icy c)) d = (out, pos (y_icy c1), ms) \<and> t_meta t1 = songs L ms (t_meta t)"
  using assms(2-)
proof (induction n arbitrary: c t d rule: less_induct)
  case (less n)
  from icy_process_step [OF law less.prems(1,2)] obtain pre c1 t1 r ms out where P:
    "icy_process L c t = Some (c1, t1, r)" "d = pre @ y_data c1"
    "icy_ref iv (pos (y_icy c)) pre = (out, pos (y_icy c1), ms)" "t_meta t1 = songs L ms (t_meta t)"
    "r = PHI_MORE \<and> y_data c1 = [] \<and> out = [] \<or> r = PHI_DATA \<and> pre \<noteq> [] \<and> t_data_out t1 = out"
    by (elim exE conjE) (rule that, assumption+)
  show ?case
  proof (cases "r = PHI_MORE")
    case True
    with P show ?thesis by (subst icy_drain.simps) (simp add: True)
  next
    case False
    with P(5) have r: "r = PHI_DATA" "pre \<noteq> []" "t_data_out t1 = out" by auto
    let ?t = "t1\<lparr>t_chain_flags := 0\<rparr>"
    have n: "n - 1 < n" "length (y_data c1) \<le> n - 1" using r(2) P(2) less.prems(3) by (cases pre; simp)+
    from less.IH [OF n(1) _ _ n(2), of ?t c1] obtain c2 t2 ms2 out2 where Q:
      "icy_drain (n - 1) L c1 ?t = Some (c2, t2, out2)"
      "icy_ref iv (pos (y_icy c1)) (y_data c1) = (out2, pos (y_icy c2), ms2)" "t_meta t2 = songs L ms2 (t_meta ?t)"
      by auto
    have "icy_drain n L c t = Some (c2, t2, out @ out2)"
      using P(1) r n Q(1) by (subst icy_drain.simps) simp
    moreover have "icy_ref iv (pos (y_icy c)) d = (out @ out2, pos (y_icy c2), ms @ ms2)"
      using P(2,3) Q(2) by (simp add: icy_ref_append)
    moreover have "t_meta t2 = songs L (ms @ ms2) (t_meta t)" using Q(3) P(4) by (simp add: songs_append)
    ultimately show ?thesis by blast
  qed
qed

lemma icy_run_all:
  assumes law: "icy_law L iv pos"
  shows "\<exists>c1 t1 ms out. icy_run L c t ps = Some (c1, t1, out)
    \<and> icy_ref iv (pos (y_icy c)) (concat ps) = (out, pos (y_icy c1), ms) \<and> t_meta t1 = songs L ms (t_meta t)"
proof (induction ps arbitrary: c t)
  case Nil
  then show ?case by (simp add: songs_def)
next
  case (Cons p ps)
  let ?t = "t\<lparr>t_data_in := p, t_chain_flags := PHI_FFWD\<rparr>"
  have "\<not> has_flag ?t PHI_FSTOP" "p = (if has_flag ?t PHI_FFWD then t_data_in ?t else y_data c)"
    by (simp_all add: has_flag_def phi_f_defs)
  from icy_drain_all [OF law this order_refl] obtain c1 t1 ms out where P:
    "icy_drain (length p) L c ?t = Some (c1, t1, out)"
    "icy_ref iv (pos (y_icy c)) p = (out, pos (y_icy c1), ms)" "t_meta t1 = songs L ms (t_meta ?t)"
    by blast
  from Cons [of c1 t1] obtain c2 t2 ms2 out2 where Q: "icy_run L c1 t1 ps = Some (c2, t2, out2)"
    "icy_ref iv (pos (y_icy c1)) (concat ps) = (out2, pos (y_icy c2), ms2)" "t_meta t2 = songs L ms2 (t_meta t1)"
    by blast
  have "icy_ref iv (pos (y_icy c)) (concat (p # ps)) = (out @ out2, pos (y_icy c2), ms @ ms2)"
    using P(2) Q(2) by (simp add: icy_ref_append)
  moreover have "t_meta t2 = songs L (ms @ ms2) (t_meta t)" using P(3) Q(3) by (simp add: songs_append)
  ultimately show ?case using P(1) Q(1) by auto
qed

text \<open>
  Property C33: the ICY filter separates audio and meta data whatever the pieces are in which the stream
  arrives. What it passes on is the audio of the whole stream, no byte of meta data and no byte missing, and
  the meta data of the track is that of the last complete block; every call ends.
\<close>

theorem icy_separates_meta:
  assumes "icy_law L iv pos" and "t_icy_meta_interval t = of_nat iv"
    and "icy_ref iv (PAudio iv) (concat ps) = (audio, p, ms)"
  shows "\<exists>c1 t1. icy_run L (icy_open L t) t ps = Some (c1, t1, audio) \<and> t_meta t1 = songs L ms (t_meta t)"
proof -
  have "pos (y_icy (icy_open L t)) = PAudio iv" using assms(1,2) by (simp add: icy_open_def icy_law_def)
  with icy_run_all [OF assms(1), of "icy_open L t" t ps] assms(3) show ?thesis by auto
qed

text \<open>A parser that follows the format one byte at a time, with two bytes of audio between the blocks.\<close>
fun byte_parse :: "icy_pos \<Rightarrow> bytes \<Rightarrow> icy_ev \<times> icy_pos \<times> bytes" where
  "byte_parse p [] = (ICYREAD_MORE, p, [])"
| "byte_parse p (b # bs) =
     (case icy_byte 2 p b of (a, q, m) \<Rightarrow>
        if a \<noteq> [] then (ICYREAD_DATA a, q, bs)
        else case m of [] \<Rightarrow> byte_parse q bs | s # _ \<Rightarrow> (ICYREAD_META s, q, bs))"

definition byte_icy :: "icy_pos icy_lib" where
  "byte_icy =
    \<lparr>il_open = (\<lambda>n. PAudio (unat n)), il_process = byte_parse,
     il_meta_read = (\<lambda>s. case s of [] \<Rightarrow> None | _ \<Rightarrow> Some (''StreamTitle'', map (\<lambda>b. char_of (unat b)) s, [])),
     il_artist_title = (\<lambda>v. (take 1 v, drop 1 v)), il_utf8_valid = (\<lambda>_. True), il_from_win1252 = id\<rparr>"

lemma byte_parse_law:
  "byte_parse p d = (ev, q, d1) \<Longrightarrow>
     \<exists>pre. d = pre @ d1 \<and>
       (case ev of
          ICYREAD_MORE \<Rightarrow> d1 = [] \<and> icy_ref 2 p pre = ([], q, [])
        | ICYREAD_DATA s \<Rightarrow> pre \<noteq> [] \<and> icy_ref 2 p pre = (s, q, [])
        | ICYREAD_META s \<Rightarrow> pre \<noteq> [] \<and> icy_ref 2 p pre = ([], q, [s]))"
proof (induction p d rule: byte_parse.induct)
  case (2 p b bs)
  obtain a q2 m where b: "icy_byte 2 p b = (a, q2, m)" by (metis prod_cases3)
  show ?case
  proof (cases "a = [] \<and> m = []")
    case True
    with 2 b obtain pre where "bs = pre @ d1" and
      "case ev of
          ICYREAD_MORE \<Rightarrow> d1 = [] \<and> icy_ref 2 q2 pre = ([], q, [])
        | ICYREAD_DATA s \<Rightarrow> pre \<noteq> [] \<and> icy_ref 2 q2 pre = (s, q, [])
        | ICYREAD_META s \<Rightarrow> pre \<noteq> [] \<and> icy_ref 2 q2 pre = ([], q, [s])"
      by fastforce
    with True b show ?thesis by (intro exI [of _ "b # pre"]) (auto split: icy_ev.splits)
  next
    case False
    then show ?thesis using 2(2) b
      by (intro exI [of _ "[b]"]) (cases p; auto split: if_splits list.splits)
  qed
qed auto

lemma byte_icy_law: "icy_law byte_icy 2 id"
  unfolding icy_law_def byte_icy_def using byte_parse_law
  by (auto split: list.splits)

theorem icy_separates_meta_witness:
  "\<exists>c1 t1. icy_run byte_icy (icy_open byte_icy (phi_track_zero\<lparr>t_icy_meta_interval := 2\<rparr>)) (phi_track_zero\<lparr>t_icy_meta_interval := 2\<rparr>)
       [[1], [2, 1, 65, 66] @ replicate 10 0, replicate 4 0 @ [3, 4], [0, 5]] = Some (c1, t1, [1, 2, 3, 4, 5])
     \<and> t_meta t1 = songs byte_icy [[65, 66] @ replicate 14 0] []"
proof -
  have "icy_ref 2 (PAudio 2) (concat [[1], [2, 1, 65, 66] @ replicate 10 0, replicate 4 0 @ [3, 4], [0, 5]])
      = ([1, 2, 3, 4, 5], PAudio 1, [[65, 66] @ replicate 14 0])"
    by (simp add: numeral_eq_Suc)
  from icy_separates_meta [OF byte_icy_law _ this, of "phi_track_zero\<lparr>t_icy_meta_interval := 2\<rparr>"] show ?thesis
    by (simp add: phi_track_zero_def)
qed

end
