(* ===== verification/Format_Read.thy ===== *)
theory Format_Read
  imports Conveyor Detector Tag_Edit
begin

text \<open>
  The readers of container formats: \<open>src/src/format/wav.c\<close>, \<open>mp3-read.h\<close>, \<open>flac-read.h\<close>, \<open>wv.c\<close>,
  \<open>ape-read.c\<close>, \<open>mpc-read.c\<close>, \<open>caf.c\<close>, \<open>avi.c\<close>, \<open>aac-adts.c\<close> and \<open>flac-ogg.c\<close>. Each is a filter around a parser
  of avpack: it calls the parser in a loop, stores what the header says in the track, adds the decoder,
  keeps tags, asks for another file offset, and passes frames on. The parser is the parameter \<open>av_lib\<close>.
  A reader is the body of its loop, \<open>..._step\<close>, and the code around the loop, \<open>..._process\<close>;
  \<open>None\<close> is a null pointer that is used, or a loop that does not end within the bound.
\<close>

section \<open>The parser\<close>

text \<open>
  What a call of the parser reports. The readers use only these of its codes; the output buffer is set
  for \<open>AvData\<close> and \<open>AvHeader\<close>.
\<close>
datatype av_ev =
    AvMore | AvMoreOrDone | AvDone | AvData bytes | AvHeader bytes | AvHeaderFin | AvTag | AvSeek | AvWarn | AvError

record av_info =
  ai_format :: u16
  ai_channels :: u8
  ai_rate :: u32
  ai_total :: u64
  ai_bitrate :: u32
  ai_layer :: u32
  ai_delay :: u16
  ai_padding :: u16
  ai_vbr_scale :: u8
  ai_minblock :: u32
  ai_maxblock :: u32
  ai_codec :: u32
  ai_codec_conf :: bytes

record av_track =
  at_type :: u32
  at_codec :: u32
  at_conf :: bytes
  at_bits :: u16
  at_channels :: u8
  at_rate :: u32
  at_duration_msec :: u64
  at_bitrate :: u32

text \<open>
  \<open>av_const\<close> are the named constants of avpack and \<open>av_dec\<close> the format \<open>%u\<close>; \<open>av_tracks\<close> are the tracks \<open>aviread_track_info\<close>
  returns for 0, 1, ... until NULL; \<open>av_fin\<close> tells the parser whether the end of the file has been reached.
\<close>
record 'r av_lib =
  av_open :: "u64 \<Rightarrow> 'r"
  av_process :: "'r \<Rightarrow> bytes \<Rightarrow> av_ev \<times> 'r \<times> bytes"
  av_seek :: "u64 \<Rightarrow> 'r \<Rightarrow> 'r"
  av_fin :: "bool \<Rightarrow> 'r \<Rightarrow> 'r"
  av_activate :: "nat \<Rightarrow> 'r \<Rightarrow> 'r"
  av_wholeframe :: "'r \<Rightarrow> 'r"
  av_offset :: "'r \<Rightarrow> u64"
  av_cursample :: "'r \<Rightarrow> u64"
  av_samples :: "'r \<Rightarrow> u32"
  av_block_samples :: "'r \<Rightarrow> u32"
  av_align4 :: "'r \<Rightarrow> u32"
  av_info :: "'r \<Rightarrow> av_info"
  av_tag :: "'r \<Rightarrow> int \<times> string \<times> string"
  av_tracks :: "'r \<Rightarrow> av_track list"
  av_const :: "string \<Rightarrow> u32"
  av_dec :: "u32 \<Rightarrow> string"

section \<open>What the readers share\<close>

text \<open>
  The state of a reader: the parser, the rest of the input, the state of the reader, the sample rate, and for some
  readers whether the first frame was seen, the position and the samples of a frame.
\<close>
record 'r rd =
  rd_lib :: 'r
  rd_in :: bytes
  rd_state :: nat
  rd_rate :: u32
  rd_hdr :: bool
  rd_apos :: u64
  rd_page :: u64
  rd_frame :: u32

definition rd_new :: "'r \<Rightarrow> 'r rd" where
  "rd_new r = \<lparr>rd_lib = r, rd_in = [], rd_state = 0, rd_rate = 0, rd_hdr = False, rd_apos = 0, rd_page = 0, rd_frame = 0\<rparr>"

type_synonym 'r rds = "'r rd \<times> phi_track"

abbreviation upd_audio :: "(trk_audio \<Rightarrow> trk_audio) \<Rightarrow> phi_track \<Rightarrow> phi_track" where
  "upd_audio f t \<equiv> t\<lparr>t_audio := f (t_audio t)\<rparr>"

text \<open>The size of the input for the parser: 0 when it is not known.\<close>
definition known_size :: "phi_track \<Rightarrow> u64" where
  "known_size t = (if in_size (t_input t) \<noteq> -1 then in_size (t_input t) else 0)"

definition av_next :: "'r av_lib \<Rightarrow> 'r rd \<Rightarrow> av_ev \<times> 'r rd" where
  "av_next L m = (case av_process L (rd_lib m) (rd_in m) of (ev, r, d) \<Rightarrow> (ev, m\<lparr>rd_lib := r, rd_in := d\<rparr>))"

definition seek_wanted :: "phi_track \<Rightarrow> bool" where
  "seek_wanted t \<longleftrightarrow> a_seek_req (t_audio t) \<and> a_seek (t_audio t) \<noteq> -1"

definition do_seek :: "'r av_lib \<Rightarrow> 'r rds \<Rightarrow> 'r rds" where
  "do_seek L = (\<lambda>(m, t).
     (m\<lparr>rd_lib := av_seek L (msec_to_samples (a_seek (t_audio t)) (rd_rate m)) (rd_lib m)\<rparr>,
      upd_audio (\<lambda>a. a\<lparr>a_seek_req := False\<rparr>) t))"

text \<open>The input at \<open>PHI_FFWD\<close>.\<close>
definition take_input :: "'r rds \<Rightarrow> 'r rds" where
  "take_input = (\<lambda>(m, t). (m\<lparr>rd_in := t_data_in t\<rparr>, t\<lparr>t_data_in := []\<rparr>))"

text \<open>A tag: a known one gets its name from the table.\<close>
definition put_tag :: "'r av_lib \<Rightarrow> 'r rds \<Rightarrow> 'r rds" where
  "put_tag L = (\<lambda>(m, t). case av_tag L (rd_lib m) of (tag, name, val) \<Rightarrow>
     (m, t\<lparr>t_meta := meta_set (t_meta t) (if tag \<noteq> 0 then ffmmtag_str ! nat tag else name) val 0\<rparr>))"

definition want_offset :: "'r av_lib \<Rightarrow> 'r rds \<Rightarrow> 'r rds" where
  "want_offset L = (\<lambda>(m, t). (m, t\<lparr>t_input := (t_input t)\<lparr>in_seek := av_offset L (rd_lib m)\<rparr>\<rparr>))"

text \<open>The label \<open>data\<close>: the position of the frame, and the frame.\<close>
definition put_frame :: "'r av_lib \<Rightarrow> bytes \<Rightarrow> 'r rds \<Rightarrow> 'r rds" where
  "put_frame L s = (\<lambda>(m, t). (m, (upd_audio (\<lambda>a. a\<lparr>a_pos := av_cursample L (rd_lib m)\<rparr>) t)\<lparr>t_data_out := s\<rparr>))"

abbreviation info_only :: "phi_track \<Rightarrow> bool" where "info_only t \<equiv> c_info_only (t_conf t)"

type_synonym 'r rd_step = "'r rds \<Rightarrow> ('r rds \<times> phi_r option) option"

text \<open>\<open>for (;;)\<close> around the parser: the body goes on, returns, or faults.\<close>
fun read_loop :: "nat \<Rightarrow> 'r rd_step \<Rightarrow> 'r rds \<Rightarrow> ('r rds \<times> phi_r) option" where
  "read_loop 0 step s = None"
| "read_loop (Suc n) step s =
     (case step s of
        None \<Rightarrow> None
      | Some (s1, Some r) \<Rightarrow> Some (s1, r)
      | Some (s1, None) \<Rightarrow> read_loop n step s1)"

text \<open>The end of the input is a normal end for the first filter of the chain.\<close>
abbreviation more_or :: "phi_r \<Rightarrow> phi_track \<Rightarrow> phi_r" where
  "more_or r t \<equiv> (if has_flag t PHI_FFIRST then r else PHI_MORE)"

section \<open>WAV\<close>

definition wav_open :: "'r av_lib \<Rightarrow> phi_track \<Rightarrow> 'r rd" where
  "wav_open L t = rd_new (av_open L 0)"

text \<open>The case \<open>WAVREAD_HEADER\<close>.\<close>
definition wav_header :: "'r av_lib \<Rightarrow> 'r rds \<Rightarrow> 'r rds" where
  "wav_header L = (\<lambda>(m, t).
     let i = av_info L (rd_lib m);
         f = \<lparr>af_format = (if ucast (ai_format i) = av_const L ''WAV_FLOAT'' then PHI_PCM_FLOAT32 else ai_format i),
              af_channels = ai_channels i, af_interleaved = True, af_rate = ai_rate i\<rparr>
     in (m, (upd_audio (\<lambda>a. a\<lparr>a_decoder := Some ''WAVE'', a_format := f, a_total := ai_total i, a_bitrate := ai_bitrate i\<rparr>) t)
              \<lparr>t_data_type := Some ''pcm''\<rparr>))"

text \<open>The label \<open>again\<close>.\<close>
definition wav_again :: "'r av_lib \<Rightarrow> 'r rds \<Rightarrow> 'r rds" where
  "wav_again L s =
     (case (if rd_state (fst s) = 1 \<and> seek_wanted (snd s) then do_seek L s else s) of (m, t) \<Rightarrow>
        (if has_flag t PHI_FFIRST then m\<lparr>rd_lib := av_fin L True (rd_lib m)\<rparr> else m, t))"

text \<open>\<open>wav_meta\<close>: an unknown tag is left out.\<close>
definition wav_meta :: "'r av_lib \<Rightarrow> 'r rds \<Rightarrow> 'r rds" where
  "wav_meta L s = (if fst (av_tag L (rd_lib (fst s))) = 0 then s else put_tag L s)"

definition wav_step :: "'r av_lib \<Rightarrow> 'r rd_step" where
  "wav_step L = (\<lambda>(m, t). case av_next L m of (ev, m1) \<Rightarrow>
     case ev of
       AvMore \<Rightarrow> Some ((m1, t), Some (more_or PHI_DONE t))
     | AvDone \<Rightarrow> Some ((m1, t), Some PHI_DONE)
     | AvData s \<Rightarrow> Some (put_frame L s (m1, t), Some PHI_DATA)
     | AvHeader _ \<Rightarrow>
         (case wav_header L (m1, t) of (m2, t2) \<Rightarrow>
            if info_only t2 then Some ((m2, t2), Some PHI_LASTOUT)
            else Some (wav_again L (m2\<lparr>rd_rate := ai_rate (av_info L (rd_lib m2)), rd_state := 1\<rparr>, t2), None))
     | AvTag \<Rightarrow> Some (wav_meta L (m1, t), None)
     | AvSeek \<Rightarrow> Some (want_offset L (m1, t), Some PHI_MORE)
     | _ \<Rightarrow> Some ((m1, t), Some PHI_ERR))"

definition wav_process :: "nat \<Rightarrow> 'r av_lib \<Rightarrow> 'r rds \<Rightarrow> ('r rds \<times> phi_r) option" where
  "wav_process n L s =
     (if has_flag (snd s) PHI_FSTOP then Some (s, PHI_LASTOUT)
      else read_loop n (wav_step L) (wav_again L (if has_flag (snd s) PHI_FFWD then take_input s else s)))"

section \<open>MP3\<close>

definition mp3_open :: "'r av_lib \<Rightarrow> phi_track \<Rightarrow> 'r rd" where
  "mp3_open L t = rd_new (av_open L (known_size t))"

definition mp3_header :: "'r av_lib \<Rightarrow> 'r rds \<Rightarrow> 'r rds" where
  "mp3_header L = (\<lambda>(m, t).
     let i = av_info L (rd_lib m);
         f = \<lparr>af_format = PHI_PCM_16, af_channels = ai_channels i, af_interleaved = False, af_rate = ai_rate i\<rparr>
     in (m\<lparr>rd_rate := ai_rate i\<rparr>,
         (upd_audio (\<lambda>a. a\<lparr>a_format := f, a_bitrate := ai_bitrate i, a_total := ai_total i,
              a_decoder := Some (''MPEG1-L'' @ av_dec L (ai_layer i)), a_mpeg1_delay := ai_delay i,
              a_mpeg1_padding := ai_padding i, a_mpeg1_vbr_scale := ai_vbr_scale i + 1\<rparr>) t)\<lparr>t_data_type := Some ''mpeg''\<rparr>))"

definition mp3_step :: "(string \<Rightarrow> string option) \<Rightarrow> 'r av_lib \<Rightarrow> 'r rd_step" where
  "mp3_step cmod L s0 =
     (case (if seek_wanted (snd s0) \<and> rd_rate (fst s0) \<noteq> 0 then do_seek L s0 else s0) of (m, t) \<Rightarrow>
        case av_next L m of (ev, m1) \<Rightarrow>
          case ev of
            AvData s \<Rightarrow> Some (put_frame L s (m1, t), Some PHI_DATA)
          | AvMore \<Rightarrow> Some ((m1, t), Some (more_or PHI_DONE t))
          | AvDone \<Rightarrow> Some ((m1, t), Some PHI_LASTOUT)
          | AvHeader _ \<Rightarrow>
              (case mp3_header L (m1, t) of (m2, t2) \<Rightarrow>
                 if info_only t2 then Some ((m2, t2), Some PHI_LASTOUT)
                 else if c_stream_copy (t_conf t2) then Some ((m2, t2), None)
                 else case track_add (cmod ''mpeg.decode'') t2 of (t3, ok) \<Rightarrow>
                        Some ((m2, t3), if ok then None else Some PHI_ERR))
          | AvTag \<Rightarrow> Some (put_tag L (m1, t), None)
          | AvSeek \<Rightarrow> Some (want_offset L (m1, t), Some PHI_MORE)
          | AvWarn \<Rightarrow> Some ((m1, t), None)
          | _ \<Rightarrow> Some ((m1, t), Some PHI_ERR))"

definition mp3_process :: "nat \<Rightarrow> (string \<Rightarrow> string option) \<Rightarrow> 'r av_lib \<Rightarrow> 'r rds \<Rightarrow> ('r rds \<times> phi_r) option" where
  "mp3_process n cmod L s =
     (if has_flag (snd s) PHI_FSTOP then Some (s, PHI_LASTOUT)
      else read_loop n (mp3_step cmod L) (if t_data_in (snd s) \<noteq> [] then take_input s else s))"

section \<open>FLAC\<close>

definition flac_in_create :: "'r av_lib \<Rightarrow> phi_track \<Rightarrow> 'r rd" where
  "flac_in_create L t = rd_new (av_open L (known_size t))"

definition MMTAG_PICTURE :: int where "MMTAG_PICTURE = 11"

definition flac_meta :: "'r av_lib \<Rightarrow> 'r rds \<Rightarrow> 'r rds" where
  "flac_meta L s =
     (if fst (av_tag L (rd_lib (fst s))) = MMTAG_PICTURE then s else
      case s of (m, t) \<Rightarrow> case av_tag L (rd_lib m) of (tag, name, val) \<Rightarrow>
        (m, t\<lparr>t_meta := meta_set (t_meta t) (if tag > 0 then ffmmtag_str ! nat tag else name) val 0\<rparr>))"

definition flac_header :: "'r av_lib \<Rightarrow> 'r rds \<Rightarrow> 'r rds" where
  "flac_header L = (\<lambda>(m, t).
     let i = av_info L (rd_lib m);
         f = \<lparr>af_format = ai_format i, af_channels = ai_channels i, af_interleaved = False, af_rate = ai_rate i\<rparr>
     in (m\<lparr>rd_rate := ai_rate i\<rparr>,
         (upd_audio (\<lambda>a. a\<lparr>a_decoder := Some ''FLAC'', a_format := f, a_total := ai_total i\<rparr>) t)\<lparr>t_data_type := Some ''flac''\<rparr>))"

definition flac_in_step :: "(string \<Rightarrow> string option) \<Rightarrow> 'r av_lib \<Rightarrow> 'r rd_step" where
  "flac_in_step cmod L s0 =
     (case (if seek_wanted (snd s0) \<and> rd_rate (fst s0) \<noteq> 0 then do_seek L s0 else s0) of (m, t) \<Rightarrow>
        case av_next L m of (ev, m1) \<Rightarrow>
          case ev of
            AvMore \<Rightarrow> Some ((m1, t), Some (more_or PHI_DONE t))
          | AvHeader _ \<Rightarrow> Some (flac_header L (m1, t), None)
          | AvTag \<Rightarrow> Some (flac_meta L (m1, t), None)
          | AvHeaderFin \<Rightarrow>
              (let i = av_info L (rd_lib m1); t2 = upd_audio (\<lambda>a. a\<lparr>a_bitrate := ai_bitrate i\<rparr>) t
               in if info_only t2 then Some ((m1, t2), Some PHI_LASTOUT)
                  else case track_add (cmod ''flac.decode'')
                         (upd_audio (\<lambda>a. a\<lparr>a_flac_minblock := ai_minblock i, a_flac_maxblock := ai_maxblock i\<rparr>) t2) of (t3, ok) \<Rightarrow>
                         Some ((m1, t3), if ok then None else Some PHI_ERR))
          | AvData s \<Rightarrow>
              (case put_frame L s (m1, t) of (m2, t2) \<Rightarrow>
                 Some ((m2, upd_audio (\<lambda>a. a\<lparr>a_flac_samples := av_samples L (rd_lib m2)\<rparr>) t2), Some PHI_DATA))
          | AvSeek \<Rightarrow> Some (want_offset L (m1, t), Some PHI_MORE)
          | AvDone \<Rightarrow> Some ((m1, t), Some PHI_DONE)
          | AvError \<Rightarrow> Some ((m1, t), Some PHI_ERR)
          | _ \<Rightarrow> Some ((m1, t), None))"

definition flac_in_read :: "nat \<Rightarrow> (string \<Rightarrow> string option) \<Rightarrow> 'r av_lib \<Rightarrow> 'r rds \<Rightarrow> ('r rds \<times> phi_r) option" where
  "flac_in_read n cmod L s =
     (if has_flag (snd s) PHI_FSTOP then Some (s, PHI_LASTOUT)
      else read_loop n (flac_in_step cmod L)
             (if has_flag (snd s) PHI_FFWD then
                (case take_input s of (m, t) \<Rightarrow>
                   (if has_flag t PHI_FFIRST then m\<lparr>rd_lib := av_fin L True (rd_lib m)\<rparr> else m, t))
              else s))"

section \<open>WavPack\<close>

definition wv_in_create :: "'r av_lib \<Rightarrow> phi_track \<Rightarrow> 'r rd" where
  "wv_in_create L t = rd_new (av_open L (known_size t))"

text \<open>The switch over the states \<open>I_HDR\<close>, \<open>I_HDR_PARSED\<close> and \<open>I_DATA\<close> before the loop.\<close>
definition parsed_seek :: "'r av_lib \<Rightarrow> 'r rds \<Rightarrow> 'r rds" where
  "parsed_seek L = (\<lambda>(m, t).
     if rd_state m = 0 then (m, t)
     else (let m1 = (if rd_state m = 1 then m\<lparr>rd_rate := af_rate (a_format (t_audio t)), rd_state := 2\<rparr> else m)
           in if seek_wanted t then do_seek L (m1, t) else (m1, t)))"

definition wv_in_step :: "(string \<Rightarrow> string option) \<Rightarrow> 'r av_lib \<Rightarrow> 'r rd_step" where
  "wv_in_step cmod L = (\<lambda>(m, t). case av_next L m of (ev, m1) \<Rightarrow>
     case ev of
       AvTag \<Rightarrow> Some (put_tag L (m1, t), None)
     | AvData s \<Rightarrow>
         if rd_hdr m1 then Some (put_frame L s (m1, t), Some PHI_DATA)
         else (case track_add (cmod ''wavpack.decode'')
                     ((upd_audio (\<lambda>a. a\<lparr>a_total := ai_total (av_info L (rd_lib m1))\<rparr>) t)\<lparr>t_data_out := s\<rparr>) of (t2, ok) \<Rightarrow>
                 if \<not> ok then Some ((m1\<lparr>rd_hdr := True\<rparr>, t2), Some PHI_ERR)
                 else Some (put_frame L s (m1\<lparr>rd_hdr := True, rd_state := 1\<rparr>, t2), Some PHI_DATA))
     | AvSeek \<Rightarrow> Some (want_offset L (m1, t), Some PHI_MORE)
     | AvMore \<Rightarrow> Some ((m1, t), Some (more_or PHI_LASTOUT t))
     | AvWarn \<Rightarrow> Some ((m1, t), None)
     | AvError \<Rightarrow> Some ((m1, t), Some PHI_ERR)
     | _ \<Rightarrow> Some ((m1, t), None))"

definition wv_in_process :: "nat \<Rightarrow> (string \<Rightarrow> string option) \<Rightarrow> 'r av_lib \<Rightarrow> 'r rds \<Rightarrow> ('r rds \<times> phi_r) option" where
  "wv_in_process n cmod L s =
     (if has_flag (snd s) PHI_FSTOP then Some (s, PHI_LASTOUT)
      else read_loop n (wv_in_step cmod L)
        (parsed_seek L
          (if has_flag (snd s) PHI_FFWD then
             take_input ((fst s)\<lparr>rd_lib := av_fin L (t_data_in (snd s) = []) (rd_lib (fst s))\<rparr>, snd s)
           else s)))"

section \<open>APE\<close>

definition ape_in_create :: "'r av_lib \<Rightarrow> phi_track \<Rightarrow> 'r rd" where
  "ape_in_create L t = rd_new (av_open L (known_size t))"

text \<open>The label \<open>data\<close> of this reader.\<close>
definition ape_frame :: "'r av_lib \<Rightarrow> 'r rds \<Rightarrow> 'r rds" where
  "ape_frame L = (\<lambda>(m, t).
     (m, upd_audio (\<lambda>a. a\<lparr>a_pos := av_cursample L (rd_lib m), a_ape_block_samples := av_block_samples L (rd_lib m),
                          a_ape_align4 := av_align4 L (rd_lib m)\<rparr>) t))"

definition ape_in_step :: "(string \<Rightarrow> string option) \<Rightarrow> 'r av_lib \<Rightarrow> 'r rd_step" where
  "ape_in_step cmod L = (\<lambda>(m, t). case av_next L m of (ev, m1) \<Rightarrow>
     case ev of
       AvTag \<Rightarrow> Some (put_tag L (m1, t), None)
     | AvHeader s \<Rightarrow>
         (case track_add (cmod ''ape.decode'') (t\<lparr>t_data_out := s\<rparr>) of (t2, ok) \<Rightarrow>
            if \<not> ok then Some ((m1, t2), Some PHI_ERR) else Some ((m1\<lparr>rd_state := 1\<rparr>, t2), Some PHI_DATA))
     | AvDone \<Rightarrow> Some (ape_frame L (m1, t), Some PHI_LASTOUT)
     | AvData s \<Rightarrow> Some (ape_frame L (m1, t\<lparr>t_data_out := s\<rparr>), Some PHI_DATA)
     | AvSeek \<Rightarrow> Some (want_offset L (m1, t), Some PHI_MORE)
     | AvMore \<Rightarrow> Some ((m1, t), Some (more_or PHI_LASTOUT t))
     | AvWarn \<Rightarrow> Some ((m1, t), None)
     | _ \<Rightarrow> Some ((m1, t), Some PHI_ERR))"

definition ape_in_process :: "nat \<Rightarrow> (string \<Rightarrow> string option) \<Rightarrow> 'r av_lib \<Rightarrow> 'r rds \<Rightarrow> ('r rds \<times> phi_r) option" where
  "ape_in_process n cmod L s =
     (if has_flag (snd s) PHI_FSTOP then Some (s, PHI_LASTOUT)
      else read_loop n (ape_in_step cmod L)
        (parsed_seek L (if has_flag (snd s) PHI_FFWD then take_input s else s)))"

section \<open>Musepack\<close>

definition mpc_open :: "'r av_lib \<Rightarrow> phi_track \<Rightarrow> 'r rd" where
  "mpc_open L t = rd_new (av_open L (known_size t))"

text \<open>\<open>brate\<close>: the quotient is 0 when the number of samples is; the result is a \<open>uint\<close>.\<close>
definition brate :: "u64 \<Rightarrow> u64 \<Rightarrow> u32 \<Rightarrow> u32" where
  "brate bytes samples rate = (if samples = 0 then 0 else ucast (bytes * 8 * ucast rate div samples))"

definition mpc_header :: "'r av_lib \<Rightarrow> 'r rds \<Rightarrow> 'r rds" where
  "mpc_header L = (\<lambda>(m, t).
     let i = av_info L (rd_lib m)
     in (m\<lparr>rd_rate := ai_rate i\<rparr>,
         upd_audio (\<lambda>a. a\<lparr>a_format := (a_format a)\<lparr>af_rate := ai_rate i, af_channels := ai_channels i\<rparr>,
             a_bitrate := (if in_size (t_input t) \<noteq> -1 then brate (in_size (t_input t)) (ai_total i) (ai_rate i) else a_bitrate a),
             a_total := ai_total i, a_decoder := Some ''Musepack''\<rparr>) t))"

definition mpc_step :: "(string \<Rightarrow> string option) \<Rightarrow> 'r av_lib \<Rightarrow> 'r rd_step" where
  "mpc_step cmod L = (\<lambda>(m, t). case av_next L m of (ev, m1) \<Rightarrow>
     case ev of
       AvHeader s \<Rightarrow>
         (case mpc_header L (m1, t) of (m2, t2) \<Rightarrow>
            case track_add (cmod ''mpc.decode'') t2 of (t3, ok) \<Rightarrow>
              if \<not> ok then Some ((m2, t3), Some PHI_ERR) else Some ((m2, t3\<lparr>t_data_out := s\<rparr>), Some PHI_DATA))
     | AvMore \<Rightarrow> Some ((m1, t), Some PHI_MORE)
     | AvSeek \<Rightarrow> Some (want_offset L (m1, t), Some PHI_MORE)
     | AvTag \<Rightarrow> Some (put_tag L (m1, t), None)
     | AvData s \<Rightarrow> Some (put_frame L s (m1, t), Some PHI_DATA)
     | AvDone \<Rightarrow> Some ((m1, t), Some PHI_LASTOUT)
     | AvWarn \<Rightarrow> Some ((m1, t), None)
     | AvError \<Rightarrow> Some ((m1, t), Some PHI_ERR)
     | _ \<Rightarrow> Some ((m1, t), None))"

definition mpc_process :: "nat \<Rightarrow> (string \<Rightarrow> string option) \<Rightarrow> 'r av_lib \<Rightarrow> 'r rds \<Rightarrow> ('r rds \<times> phi_r) option" where
  "mpc_process n cmod L s =
     (if has_flag (snd s) PHI_FSTOP then Some (s, PHI_LASTOUT)
      else read_loop n (mpc_step cmod L)
        (let s1 = (if t_data_in (snd s) \<noteq> [] then take_input s else s)
         in if seek_wanted (snd s1) \<and> rd_rate (fst s1) \<noteq> 0 then do_seek L s1 else s1))"

section \<open>CAF\<close>

definition caf_open :: "'r av_lib \<Rightarrow> phi_track \<Rightarrow> 'r rd" where
  "caf_open L t = rd_new (av_open L 0)"

text \<open>\<open>caf_codecs\<close> and \<open>caf_codecs_str\<close>; the search gives the first one with the number.\<close>
definition caf_codecs :: "(string \<times> string) list" where
  "caf_codecs = [(''CAF_AAC'', ''aac.decode''), (''CAF_ALAC'', ''alac.decode''), (''CAF_LPCM'', '''')]"

definition codec_find :: "'r av_lib \<Rightarrow> (string \<times> string) list \<Rightarrow> u32 \<Rightarrow> string option" where
  "codec_find L tab c = map_of (map (\<lambda>(k, v). (av_const L k, v)) tab) c"

text \<open>The case \<open>CAFREAD_HEADER\<close>.\<close>
definition caf_header :: "(string \<Rightarrow> string option) \<Rightarrow> 'r av_lib \<Rightarrow> 'r rds \<Rightarrow> 'r rds \<times> phi_r" where
  "caf_header cmod L = (\<lambda>(m, t).
     let i = av_info L (rd_lib m);
         rest = (\<lambda>t. let t1 = upd_audio (\<lambda>a. a\<lparr>a_format := (a_format a)\<lparr>af_channels := ai_channels i, af_rate := ai_rate i\<rparr>,
                                a_total := ai_total i, a_bitrate := ai_bitrate i\<rparr>) t
                     in if info_only t1 then ((m, t1), PHI_LASTOUT)
                        else ((m\<lparr>rd_state := 1\<rparr>, t1\<lparr>t_data_out := ai_codec_conf i\<rparr>), PHI_DATA))
     in case codec_find L caf_codecs (ai_codec i) of
          None \<Rightarrow> ((m, t), PHI_ERR)
        | Some codec \<Rightarrow>
            if codec = [] then
              (if ucast (ai_format i) AND av_const L ''CAF_FMT_FLOAT'' \<noteq> 0 then ((m, t), PHI_ERR)
               else if ucast (ai_format i) AND av_const L ''CAF_FMT_LE'' = 0 then ((m, t), PHI_ERR)
               else rest ((upd_audio (\<lambda>a. a\<lparr>a_format := (a_format a)\<lparr>af_format := ai_format i AND 0xff, af_interleaved := True\<rparr>\<rparr>) t)
                            \<lparr>t_data_type := Some ''pcm''\<rparr>))
            else (case track_add (cmod codec) t of (t1, ok) \<Rightarrow> if \<not> ok then ((m, t1), PHI_ERR) else rest t1))"

definition caf_step :: "(string \<Rightarrow> string option) \<Rightarrow> 'r av_lib \<Rightarrow> 'r rd_step" where
  "caf_step cmod L = (\<lambda>(m, t). case av_next L m of (ev, m1) \<Rightarrow>
     case ev of
       AvMoreOrDone \<Rightarrow> Some ((m1, if has_flag t PHI_FFIRST then t\<lparr>t_data_out := []\<rparr> else t), Some (more_or PHI_DONE t))
     | AvMore \<Rightarrow> Some ((m1, if has_flag t PHI_FFIRST then t\<lparr>t_data_out := []\<rparr> else t), Some (more_or PHI_DONE t))
     | AvDone \<Rightarrow> Some ((m1, t\<lparr>t_data_out := []\<rparr>), Some PHI_DONE)
     | AvData s \<Rightarrow> Some (put_frame L s (m1, t), Some PHI_DATA)
     | AvHeader _ \<Rightarrow> (case caf_header cmod L (m1, t) of (s1, r) \<Rightarrow> Some (s1, Some r))
     | AvTag \<Rightarrow>
         (case av_tag L (rd_lib m1) of (_, name, val) \<Rightarrow>
            Some ((m1, t\<lparr>t_meta := meta_set (t_meta t) name val 0\<rparr>), None))
     | AvSeek \<Rightarrow> Some (want_offset L (m1, t), Some PHI_MORE)
     | _ \<Rightarrow> Some ((m1, t), Some PHI_ERR))"

definition caf_process :: "nat \<Rightarrow> (string \<Rightarrow> string option) \<Rightarrow> 'r av_lib \<Rightarrow> 'r rds \<Rightarrow> ('r rds \<times> phi_r) option" where
  "caf_process n cmod L s =
     (if has_flag (snd s) PHI_FSTOP then Some ((fst s, (snd s)\<lparr>t_data_out := []\<rparr>), PHI_LASTOUT)
      else read_loop n (caf_step cmod L) (if has_flag (snd s) PHI_FFWD then take_input s else s))"

section \<open>AVI\<close>

definition avi_open :: "'r av_lib \<Rightarrow> phi_track \<Rightarrow> 'r rd" where
  "avi_open L t = rd_new (av_open L 0)"

definition avi_codecs :: "(string \<times> string) list" where
  "avi_codecs = [(''AVI_A_AAC'', ''aac.decode''), (''AVI_A_MP3'', ''mpeg.decode'')]"

text \<open>\<open>get_first_audio_track\<close>: the loop over the tracks from number \<open>i\<close>; \<open>None\<close> is NULL.\<close>
fun first_audio_track :: "'r av_lib \<Rightarrow> nat \<Rightarrow> av_track list \<Rightarrow> 'r \<Rightarrow> (av_track \<times> 'r) option" where
  "first_audio_track L i [] r = None"
| "first_audio_track L i (a # as) r =
     (if at_type a = 1 then Some (a, av_activate L i r) else first_audio_track L (i + 1) as r)"

text \<open>\<open>avi_meta\<close>.\<close>
definition avi_meta :: "'r av_lib \<Rightarrow> 'r rds \<Rightarrow> 'r rds" where
  "avi_meta L = (\<lambda>(m, t). case av_tag L (rd_lib m) of (tag, name, val) \<Rightarrow>
     if tag = -1 then (m, t) else (m, t\<lparr>t_meta := meta_set (t_meta t) (ffmmtag_str ! nat tag) val 0\<rparr>))"

text \<open>The case \<open>AVIREAD_HEADER\<close>: the track that was found is used without a test for NULL.\<close>
definition avi_header :: "(string \<Rightarrow> string option) \<Rightarrow> 'r av_lib \<Rightarrow> 'r rds \<Rightarrow> ('r rds \<times> phi_r) option" where
  "avi_header cmod L = (\<lambda>(m, t).
     case first_audio_track L 0 (av_tracks L (rd_lib m)) (rd_lib m) of
       None \<Rightarrow> None
     | Some (a, r) \<Rightarrow>
         (let m1 = m\<lparr>rd_lib := r\<rparr>;
              rest = (\<lambda>t. ((m1\<lparr>rd_state := 1\<rparr>,
                 (upd_audio (\<lambda>x. x\<lparr>a_format := (a_format x)\<lparr>af_channels := at_channels a, af_rate := at_rate a\<rparr>,
                    a_total := msec_to_samples (at_duration_msec a) (at_rate a), a_bitrate := at_bitrate a\<rparr>) t)
                   \<lparr>t_data_out := at_conf a\<rparr>), PHI_DATA))
          in Some (
            if at_codec a = av_const L ''AVI_A_PCM'' then
              rest ((upd_audio (\<lambda>x. x\<lparr>a_format := (a_format x)\<lparr>af_format := at_bits a, af_interleaved := True\<rparr>\<rparr>) t)
                      \<lparr>t_data_type := Some ''pcm''\<rparr>)
            else case codec_find L avi_codecs (at_codec a) of
                   None \<Rightarrow> ((m1, t), PHI_ERR)
                 | Some codec \<Rightarrow>
                     (case track_add (cmod codec) t of (t1, ok) \<Rightarrow> if \<not> ok then ((m1, t1), PHI_ERR) else rest t1))))"

definition avi_step :: "(string \<Rightarrow> string option) \<Rightarrow> 'r av_lib \<Rightarrow> 'r rd_step" where
  "avi_step cmod L = (\<lambda>(m, t). case av_next L m of (ev, m1) \<Rightarrow>
     case ev of
       AvMore \<Rightarrow> Some ((m1, t), Some (more_or PHI_DONE t))
     | AvDone \<Rightarrow> Some ((m1, t\<lparr>t_data_out := []\<rparr>), Some PHI_DONE)
     | AvData s \<Rightarrow> Some (put_frame L s (m1, t), Some PHI_DATA)
     | AvHeader _ \<Rightarrow> map_option (\<lambda>(s1, r). (s1, Some r)) (avi_header cmod L (m1, t))
     | AvTag \<Rightarrow> Some (avi_meta L (m1, t), None)
     | _ \<Rightarrow> Some ((m1, t), Some PHI_ERR))"

definition avi_process :: "nat \<Rightarrow> (string \<Rightarrow> string option) \<Rightarrow> 'r av_lib \<Rightarrow> 'r rds \<Rightarrow> ('r rds \<times> phi_r) option" where
  "avi_process n cmod L s =
     (if has_flag (snd s) PHI_FSTOP then Some (s, PHI_LASTOUT)
      else read_loop n (avi_step cmod L) (if has_flag (snd s) PHI_FFWD then take_input s else s))"

section \<open>AAC in ADTS frames\<close>

text \<open>\<open>ext\<close> is the part of a name behind the last dot, \<open>ieq\<close> the comparison without regard to case.\<close>
definition aac_adts_open ::
    "(string \<Rightarrow> string) \<Rightarrow> (string \<Rightarrow> string \<Rightarrow> bool) \<Rightarrow> 'r av_lib \<Rightarrow> phi_track \<Rightarrow> 'r rd" where
  "aac_adts_open ext ieq L t =
     rd_new (if c_stream_copy (t_conf t) \<and>
               ieq (ext (case of_name (c_ofile (t_conf t)) of None \<Rightarrow> [] | Some n \<Rightarrow> n)) ''aac''
             then av_wholeframe L (av_open L 0) else av_open L 0)"

definition aac_adts_header :: "'r av_lib \<Rightarrow> 'r rds \<Rightarrow> 'r rds" where
  "aac_adts_header L = (\<lambda>(m, t).
     let i = av_info L (rd_lib m);
         f = \<lparr>af_format = PHI_PCM_16, af_channels = ai_channels i, af_interleaved = False, af_rate = ai_rate i\<rparr>
     in (m\<lparr>rd_rate := ai_rate i\<rparr>,
         (upd_audio (\<lambda>a. a\<lparr>a_format := f, a_total := 0, a_decoder := Some ''AAC''\<rparr>) t)
           \<lparr>t_data_type := Some ''aac'', t_oaudio := (t_oaudio t)\<lparr>o_mp4_frame_samples := 1024\<rparr>\<rparr>))"

definition aac_adts_step :: "(string \<Rightarrow> string option) \<Rightarrow> 'r av_lib \<Rightarrow> 'r rd_step" where
  "aac_adts_step cmod L = (\<lambda>(m, t). case av_next L m of (ev, m1) \<Rightarrow>
     case ev of
       AvHeader s \<Rightarrow>
         (case aac_adts_header L (m1, t) of (m2, t2) \<Rightarrow>
            case (if c_stream_copy (t_conf t2) then (t2, True) else track_add (cmod ''aac.decode'') t2) of (t3, ok) \<Rightarrow>
              if \<not> ok then Some ((m2, t3), Some PHI_ERR) else Some ((m2, t3\<lparr>t_data_out := s\<rparr>), Some PHI_DATA))
     | AvData s \<Rightarrow>
         (let m2 = m1\<lparr>rd_apos := rd_apos m1 + ucast (av_samples L (rd_lib m1))\<rparr>;
              out = (\<lambda>t. Some ((m2, (upd_audio (\<lambda>a. a\<lparr>a_pos := rd_apos m2\<rparr>) t)\<lparr>t_data_out := s\<rparr>), Some PHI_DATA))
          in if seek_wanted t then
               if rd_apos m2 < msec_to_samples (a_seek (t_audio t)) (rd_rate m2) then Some ((m2, t), None)
               else out (upd_audio (\<lambda>a. a\<lparr>a_seek_req := False\<rparr>) t)
             else out t)
     | AvMore \<Rightarrow> Some ((m1, t), Some (more_or PHI_LASTOUT t))
     | AvWarn \<Rightarrow> Some ((m1, t), None)
     | _ \<Rightarrow> Some ((m1, t), Some PHI_ERR))"

text \<open>Here the input of the track is not cleared.\<close>
definition aac_adts_process :: "nat \<Rightarrow> (string \<Rightarrow> string option) \<Rightarrow> 'r av_lib \<Rightarrow> 'r rds \<Rightarrow> ('r rds \<times> phi_r) option" where
  "aac_adts_process n cmod L s =
     (if has_flag (snd s) PHI_FSTOP then Some (s, PHI_LASTOUT)
      else read_loop n (aac_adts_step cmod L)
        (if has_flag (snd s) PHI_FFWD then ((fst s)\<lparr>rd_in := t_data_in (snd s)\<rparr>, snd s) else s))"

section \<open>FLAC in OGG\<close>

definition flacogg_in_create :: "'r av_lib \<Rightarrow> phi_track \<Rightarrow> 'r rd" where
  "flacogg_in_create L t = rd_new (av_open L 0)"

text \<open>The label \<open>data\<close>: frames before the requested position are dropped.\<close>
definition flacogg_frame :: "bytes \<Rightarrow> 'r rds \<Rightarrow> 'r rds \<times> phi_r" where
  "flacogg_frame s = (\<lambda>(m, t).
     let m1 = m\<lparr>rd_apos := rd_apos m + ucast (rd_frame m)\<rparr>
     in if seek_wanted t \<and> rd_apos m + ucast (rd_frame m) \<le> msec_to_samples (a_seek (t_audio t)) (rd_rate m)
        then ((m1, t), PHI_MORE)
        else ((m1, (upd_audio (\<lambda>a. a\<lparr>a_seek_req := (if seek_wanted t then False else a_seek_req a), a_pos := rd_apos m,
                       a_flac_samples := rd_frame m\<rparr>) t)\<lparr>t_data_out := s\<rparr>), PHI_DATA))"

definition flacogg_step :: "(string \<Rightarrow> string option) \<Rightarrow> 'r av_lib \<Rightarrow> 'r rd_step" where
  "flacogg_step cmod L = (\<lambda>(m, t). case av_next L m of (ev, m1) \<Rightarrow>
     case ev of
       AvHeader _ \<Rightarrow>
         (let i = av_info L (rd_lib m1);
              f = \<lparr>af_format = ai_format i, af_channels = ai_channels i, af_interleaved = False, af_rate = ai_rate i\<rparr>
          in Some ((m1\<lparr>rd_rate := ai_rate i\<rparr>,
               (upd_audio (\<lambda>a. a\<lparr>a_decoder := Some ''FLAC'', a_format := f\<rparr>) t)\<lparr>t_data_type := Some ''flac''\<rparr>), None))
     | AvTag \<Rightarrow> Some (put_tag L (m1, t), None)
     | AvHeaderFin \<Rightarrow>
         (let i = av_info L (rd_lib m1)
          in if info_only t then Some ((m1, t), Some PHI_LASTOUT)
             else if ai_minblock i \<noteq> ai_maxblock i then Some ((m1, t), Some PHI_ERR)
             else case track_add (cmod ''flac.decode'')
                    (upd_audio (\<lambda>a. a\<lparr>a_flac_minblock := ai_minblock i, a_flac_maxblock := ai_maxblock i\<rparr>) t) of (t2, ok) \<Rightarrow>
                    Some ((m1\<lparr>rd_frame := ai_minblock i\<rparr>, t2), if ok then None else Some PHI_ERR))
     | AvData s \<Rightarrow> (case flacogg_frame s (m1, t) of (s1, r) \<Rightarrow> Some (s1, Some r))
     | AvMore \<Rightarrow> Some ((m1, t), Some (more_or PHI_DONE t))
     | _ \<Rightarrow> Some ((m1, t), Some PHI_ERR))"

definition flacogg_in_read :: "nat \<Rightarrow> (string \<Rightarrow> string option) \<Rightarrow> 'r av_lib \<Rightarrow> 'r rds \<Rightarrow> ('r rds \<times> phi_r) option" where
  "flacogg_in_read n cmod L s =
     (if has_flag (snd s) PHI_FSTOP then Some (s, PHI_LASTOUT)
      else read_loop n (flacogg_step cmod L)
        (if has_flag (snd s) PHI_FFWD then
           (case take_input s of (m, t) \<Rightarrow>
              (if rd_page m \<noteq> a_pos (t_audio t) then m\<lparr>rd_apos := a_pos (t_audio t), rd_page := a_pos (t_audio t)\<rparr> else m, t))
         else s))"

section \<open>The contract of a reader\<close>

text \<open>
  The frames a parser has given out, in order: for a frame its position and its bytes, for a header that is
  passed on as a block an entry without position. \<open>frames\<close> is a history function of the parser's state, \<open>mu\<close> the
  work left for the input at hand, bounded by \<open>K\<close>: every report that makes the reader go on uses some of it up.
\<close>
definition goes_on_ev :: "av_ev \<Rightarrow> bool" where
  "goes_on_ev ev \<longleftrightarrow> (case ev of AvData _ \<Rightarrow> True | AvHeader _ \<Rightarrow> True | AvHeaderFin \<Rightarrow> True | AvTag \<Rightarrow> True | AvWarn \<Rightarrow> True | _ \<Rightarrow> False)"

definition av_log :: "'r av_lib \<Rightarrow> bool \<Rightarrow> av_ev \<Rightarrow> 'r \<Rightarrow> (u64 option \<times> bytes) list" where
  "av_log L hdr ev r =
     (case ev of AvData s \<Rightarrow> [(Some (av_cursample L r), s)] | AvHeader _ \<Rightarrow> (if hdr then [(None, [])] else []) | _ \<Rightarrow> [])"

definition av_law ::
    "'r av_lib \<Rightarrow> bool \<Rightarrow> ('r \<Rightarrow> (u64 option \<times> bytes) list) \<Rightarrow> ('r \<Rightarrow> bytes \<Rightarrow> nat) \<Rightarrow> nat \<Rightarrow> bool" where
  "av_law L hdr frames mu K \<longleftrightarrow>
     (\<forall>r d ev r1 d1. av_process L r d = (ev, r1, d1) \<longrightarrow>
        frames r1 = frames r @ av_log L hdr ev r1 \<and> (goes_on_ev ev \<longrightarrow> mu r1 d1 < mu r d))
     \<and> (\<forall>r d. mu r d \<le> K)
     \<and> (\<forall>r p. frames (av_seek L p r) = frames r)
     \<and> (\<forall>r b d. frames (av_fin L b r) = frames r \<and> mu (av_fin L b r) d \<le> mu r d)
     \<and> (\<forall>r i. frames (av_activate L i r) = frames r)"

text \<open>A block on the track stands for an entry of the history.\<close>
definition passes :: "bool \<Rightarrow> phi_track \<Rightarrow> u64 option \<times> bytes \<Rightarrow> bool" where
  "passes pos t i \<longleftrightarrow> (case fst i of None \<Rightarrow> True | Some p \<Rightarrow> t_data_out t = snd i \<and> (pos \<longrightarrow> a_pos (t_audio t) = p))"

definition outcome ::
    "('r \<Rightarrow> (u64 option \<times> bytes) list) \<Rightarrow> bool \<Rightarrow> 'r rds \<Rightarrow> 'r rds \<Rightarrow> phi_r \<Rightarrow> bool" where
  "outcome frames pos s s1 r \<longleftrightarrow>
     r = PHI_ERR
     \<or> (if r = PHI_DATA then \<exists>i. frames (rd_lib (fst s1)) = frames (rd_lib (fst s)) @ [i] \<and> passes pos (snd s1) i
        else frames (rd_lib (fst s1)) = frames (rd_lib (fst s)))"

definition work :: "('r \<Rightarrow> bytes \<Rightarrow> nat) \<Rightarrow> nat \<Rightarrow> 'r rds \<Rightarrow> nat" where
  "work mu K s = mu (rd_lib (fst s)) (rd_in (fst s)) + (if seek_wanted (snd s) then K + 1 else 0)"

lemma outcome_start:
  "frames (rd_lib (fst s)) = frames (rd_lib (fst s0)) \<Longrightarrow> outcome frames pos s s1 r = outcome frames pos s0 s1 r"
  by (simp add: outcome_def)

text \<open>
  \<open>side\<close> is what one reader expects of its parser beyond \<open>av_law\<close>, \<open>quiet\<close> when it drops no frame on purpose.
\<close>
locale reader =
  fixes step :: "'r av_lib \<Rightarrow> 'r rd_step"
    and side :: "'r av_lib \<Rightarrow> bool"
    and hdr pos :: bool
    and quiet :: "phi_track \<Rightarrow> bool"
  assumes total: "side L \<Longrightarrow> step L s \<noteq> None"
    and cont: "av_law L hdr frames mu K \<Longrightarrow> side L \<Longrightarrow> quiet (snd s) \<Longrightarrow> step L s = Some (s1, None) \<Longrightarrow>
      work mu K s1 < work mu K s \<and> frames (rd_lib (fst s1)) = frames (rd_lib (fst s)) \<and> quiet (snd s1)"
    and fin: "av_law L hdr frames mu K \<Longrightarrow> side L \<Longrightarrow> quiet (snd s) \<Longrightarrow> step L s = Some (s1, Some r) \<Longrightarrow>
      outcome frames pos s s1 r"
begin

lemma loop_ok:
  assumes law: "av_law L hdr frames mu K" and sd: "side L" and "quiet (snd s)" and "work mu K s < n"
  shows "\<exists>s1 r. read_loop n (step L) s = Some (s1, r) \<and> outcome frames pos s s1 r"
  using assms(3,4)
proof (induction n arbitrary: s)
  case (Suc n)
  obtain s1 o1 where st: "step L s = Some (s1, o1)" using total [OF sd, of s] by auto
  show ?case
  proof (cases o1)
    case None
    from cont [OF law sd Suc.prems(1), of s1] st None have c: "work mu K s1 < work mu K s"
      "frames (rd_lib (fst s1)) = frames (rd_lib (fst s))" "quiet (snd s1)" by simp_all
    with Suc.IH [of s1] Suc.prems(2) obtain s2 r where "read_loop n (step L) s1 = Some (s2, r)" "outcome frames pos s1 s2 r"
      by auto
    with st None outcome_start [of frames s1 s pos s2 r, OF c(2)] show ?thesis by simp
  next
    case (Some r)
    with st fin [OF law sd Suc.prems(1)] show ?thesis by simp
  qed
qed simp

end

text \<open>The code around the loop: it prepares the parser and the input, or ends the track at \<open>PHI_FSTOP\<close>.\<close>
locale reader_filter = reader +
  fixes proc :: "nat \<Rightarrow> 'a av_lib \<Rightarrow> 'a rds \<Rightarrow> ('a rds \<times> phi_r) option"
    and pre :: "'a av_lib \<Rightarrow> 'a rds \<Rightarrow> 'a rds"
  assumes proc: "\<not> has_flag (snd s) PHI_FSTOP \<Longrightarrow> proc n L s = read_loop n (step L) (pre L s)"
    and stopped: "has_flag (snd s) PHI_FSTOP \<Longrightarrow> \<exists>t. proc n L s = Some ((fst s, t), PHI_LASTOUT)"
    and pre: "av_law L hdr frames mu K \<Longrightarrow> quiet (snd s) \<Longrightarrow>
      frames (rd_lib (fst (pre L s))) = frames (rd_lib (fst s)) \<and> quiet (snd (pre L s))"
begin

lemma call_ok:
  assumes law: "av_law L hdr frames mu K" and sd: "side L" and q: "quiet (snd s)" and n: "2 * K + 1 < n"
  shows "\<exists>s1 r. proc n L s = Some (s1, r) \<and> outcome frames pos s s1 r"
proof (cases "has_flag (snd s) PHI_FSTOP")
  case True
  with stopped [OF True, of n L] show ?thesis by (auto simp: outcome_def)
next
  case False
  have p: "frames (rd_lib (fst (pre L s))) = frames (rd_lib (fst s))" "quiet (snd (pre L s))"
    using pre [OF law q] by simp_all
  have "mu (rd_lib (fst (pre L s))) (rd_in (fst (pre L s))) \<le> K" using law by (simp add: av_law_def)
  then have "work mu K (pre L s) < n" using n by (simp add: work_def)
  from loop_ok [OF law sd p(2) this] show ?thesis
    unfolding proc [OF False] outcome_start [of frames "pre L s" s, OF p(1)] .
qed

end

section \<open>Every reader keeps it\<close>

lemma av_next_law:
  assumes "av_law L hdr frames mu K" and "av_next L m = (ev, m1)"
  shows "frames (rd_lib m1) = frames (rd_lib m) @ av_log L hdr ev (rd_lib m1)"
    and "goes_on_ev ev \<Longrightarrow> mu (rd_lib m1) (rd_in m1) < mu (rd_lib m) (rd_in m)"
    and "\<exists>r d. m1 = m\<lparr>rd_lib := r, rd_in := d\<rparr>"
  using assms by (auto simp: av_next_def av_law_def split: prod.splits)

text \<open>What the parts of a step do to the two things the contract speaks of.\<close>

lemma track_add_conf: "track_add f t = (t1, ok) \<Longrightarrow> t_conf t1 = t_conf t \<and> t_audio t1 = t_audio t \<and> t_data_out t1 = t_data_out t"
  by (auto simp: track_add_def split: prod.splits)

lemma do_seek_law:
  assumes "av_law L hdr frames mu K" and "seek_wanted (snd s)"
  shows "frames (rd_lib (fst (do_seek L s))) = frames (rd_lib (fst s)) \<and> work mu K (do_seek L s) < work mu K s
    \<and> t_conf (snd (do_seek L s)) = t_conf (snd s) \<and> \<not> seek_wanted (snd (do_seek L s))"
proof -
  have "mu (rd_lib (fst (do_seek L s))) (rd_in (fst (do_seek L s))) \<le> K" using assms(1) by (simp add: av_law_def)
  moreover have "\<not> seek_wanted (snd (do_seek L s))" by (auto simp: do_seek_def seek_wanted_def split: prod.splits)
  ultimately show ?thesis
    using assms by (cases s) (auto simp: work_def do_seek_def av_law_def less_Suc_eq_le intro: trans_le_add2)
qed

text \<open>The parts of the steps that leave the parser, the configuration and a pending seek request alone.\<close>

lemma seek_wanted_frame [simp]:
  "seek_wanted (t\<lparr>t_data_out := d\<rparr>) = seek_wanted t" "seek_wanted (t\<lparr>t_data_type := ty\<rparr>) = seek_wanted t"
  "seek_wanted (t\<lparr>t_meta := me\<rparr>) = seek_wanted t" "seek_wanted (t\<lparr>t_input := i\<rparr>) = seek_wanted t"
  "seek_wanted (t\<lparr>t_oaudio := o1\<rparr>) = seek_wanted t" "seek_wanted (t\<lparr>t_data_in := d\<rparr>) = seek_wanted t"
  by (simp_all add: seek_wanted_def)

lemma seek_wanted_audio [simp]:
  "a_seek_req a = a_seek_req (t_audio t) \<Longrightarrow> a_seek a = a_seek (t_audio t) \<Longrightarrow>
     seek_wanted (t\<lparr>t_audio := a\<rparr>) = seek_wanted t"
  by (simp add: seek_wanted_def)

lemma passes_simps:
  "passes pos t (None, d)" "passes pos t (Some p, d) = (t_data_out t = d \<and> (pos \<longrightarrow> a_pos (t_audio t) = p))"
  by (simp_all add: passes_def)

lemma passes_audio [simp]: "a_pos x = a_pos (t_audio t) \<Longrightarrow> passes pos (t\<lparr>t_audio := x\<rparr>) i = passes pos t i"
  by (simp add: passes_def split: option.splits)

declare passes_simps(1) [simp]

lemma track_add_frame [simp]:
  "t_conf (fst (track_add f t)) = t_conf t" "seek_wanted (fst (track_add f t)) = seek_wanted t"
  "t_audio (fst (track_add f t)) = t_audio t" "t_data_out (fst (track_add f t)) = t_data_out t"
  by (auto simp: track_add_def seek_wanted_def split: prod.splits)

lemma put_tag_frame [simp]:
  "rd_lib (fst (put_tag L s)) = rd_lib (fst s)" "rd_in (fst (put_tag L s)) = rd_in (fst s)"
  "t_conf (snd (put_tag L s)) = t_conf (snd s)" "seek_wanted (snd (put_tag L s)) = seek_wanted (snd s)"
  by (cases s; auto simp: put_tag_def seek_wanted_def Let_def split: prod.splits)+

lemma want_offset_frame [simp]:
  "rd_lib (fst (want_offset L s)) = rd_lib (fst s)" "rd_in (fst (want_offset L s)) = rd_in (fst s)"
  "t_conf (snd (want_offset L s)) = t_conf (snd s)" "seek_wanted (snd (want_offset L s)) = seek_wanted (snd s)"
  by (cases s; auto simp: want_offset_def seek_wanted_def Let_def split: prod.splits)+

lemma put_frame_frame [simp]:
  "rd_lib (fst (put_frame L d s)) = rd_lib (fst s)" "rd_in (fst (put_frame L d s)) = rd_in (fst s)"
  "t_conf (snd (put_frame L d s)) = t_conf (snd s)" "seek_wanted (snd (put_frame L d s)) = seek_wanted (snd s)"
  by (cases s; auto simp: put_frame_def seek_wanted_def Let_def split: prod.splits)+

lemma wav_header_frame [simp]:
  "rd_lib (fst (wav_header L s)) = rd_lib (fst s)" "rd_in (fst (wav_header L s)) = rd_in (fst s)"
  "t_conf (snd (wav_header L s)) = t_conf (snd s)" "seek_wanted (snd (wav_header L s)) = seek_wanted (snd s)"
  by (cases s; auto simp: wav_header_def seek_wanted_def Let_def split: prod.splits)+

lemma mp3_header_frame [simp]:
  "rd_lib (fst (mp3_header L s)) = rd_lib (fst s)" "rd_in (fst (mp3_header L s)) = rd_in (fst s)"
  "t_conf (snd (mp3_header L s)) = t_conf (snd s)" "seek_wanted (snd (mp3_header L s)) = seek_wanted (snd s)"
  by (cases s; auto simp: mp3_header_def seek_wanted_def Let_def split: prod.splits)+

lemma flac_header_frame [simp]:
  "rd_lib (fst (flac_header L s)) = rd_lib (fst s)" "rd_in (fst (flac_header L s)) = rd_in (fst s)"
  "t_conf (snd (flac_header L s)) = t_conf (snd s)" "seek_wanted (snd (flac_header L s)) = seek_wanted (snd s)"
  by (cases s; auto simp: flac_header_def seek_wanted_def Let_def split: prod.splits)+

lemma flac_meta_frame [simp]:
  "rd_lib (fst (flac_meta L s)) = rd_lib (fst s)" "rd_in (fst (flac_meta L s)) = rd_in (fst s)"
  "t_conf (snd (flac_meta L s)) = t_conf (snd s)" "seek_wanted (snd (flac_meta L s)) = seek_wanted (snd s)"
  by (cases s; auto simp: flac_meta_def seek_wanted_def Let_def split: prod.splits)+

lemma mpc_header_frame [simp]:
  "rd_lib (fst (mpc_header L s)) = rd_lib (fst s)" "rd_in (fst (mpc_header L s)) = rd_in (fst s)"
  "t_conf (snd (mpc_header L s)) = t_conf (snd s)" "seek_wanted (snd (mpc_header L s)) = seek_wanted (snd s)"
  by (cases s; auto simp: mpc_header_def seek_wanted_def Let_def split: prod.splits)+

lemma aac_adts_header_frame [simp]:
  "rd_lib (fst (aac_adts_header L s)) = rd_lib (fst s)" "rd_in (fst (aac_adts_header L s)) = rd_in (fst s)"
  "t_conf (snd (aac_adts_header L s)) = t_conf (snd s)" "seek_wanted (snd (aac_adts_header L s)) = seek_wanted (snd s)"
  by (cases s; auto simp: aac_adts_header_def seek_wanted_def Let_def split: prod.splits)+

lemma avi_meta_frame [simp]:
  "rd_lib (fst (avi_meta L s)) = rd_lib (fst s)" "rd_in (fst (avi_meta L s)) = rd_in (fst s)"
  "t_conf (snd (avi_meta L s)) = t_conf (snd s)" "seek_wanted (snd (avi_meta L s)) = seek_wanted (snd s)"
  by (cases s; auto simp: avi_meta_def seek_wanted_def Let_def split: prod.splits)+

lemma ape_frame_frame [simp]:
  "rd_lib (fst (ape_frame L s)) = rd_lib (fst s)" "rd_in (fst (ape_frame L s)) = rd_in (fst s)"
  "t_conf (snd (ape_frame L s)) = t_conf (snd s)" "seek_wanted (snd (ape_frame L s)) = seek_wanted (snd s)"
  by (cases s; auto simp: ape_frame_def seek_wanted_def Let_def split: prod.splits)+

lemma wav_meta_frame [simp]:
  "rd_lib (fst (wav_meta L s)) = rd_lib (fst s)" "rd_in (fst (wav_meta L s)) = rd_in (fst s)"
  "t_conf (snd (wav_meta L s)) = t_conf (snd s)" "seek_wanted (snd (wav_meta L s)) = seek_wanted (snd s)"
  by (simp_all add: wav_meta_def)

lemma put_frame_passes [simp]: "passes pos (snd (put_frame L d (m, t))) (Some p, d) = (pos \<longrightarrow> av_cursample L (rd_lib m) = p)"
  by (simp add: passes_def put_frame_def)

lemma av_fin_law:
  assumes "av_law L hdr frames mu K"
  shows "frames (av_fin L b r) = frames r" and "work mu K (m\<lparr>rd_lib := av_fin L b (rd_lib m)\<rparr>, t) \<le> work mu K (m, t)"
  using assms by (simp_all add: av_law_def work_def)

lemma wav_again_law:
  assumes law: "av_law L hdr frames mu K"
  shows "frames (rd_lib (fst (wav_again L s))) = frames (rd_lib (fst s)) \<and> work mu K (wav_again L s) \<le> work mu K s
    \<and> t_conf (snd (wav_again L s)) = t_conf (snd s)"
proof -
  let ?s = "if rd_state (fst s) = 1 \<and> seek_wanted (snd s) then do_seek L s else s"
  have a: "frames (rd_lib (fst ?s)) = frames (rd_lib (fst s)) \<and> work mu K ?s \<le> work mu K s \<and> t_conf (snd ?s) = t_conf (snd s)"
    using do_seek_law [OF law, of s] by auto
  obtain m t where s: "?s = (m, t)" by (cases ?s)
  have "wav_again L s = (if has_flag t PHI_FFIRST then m\<lparr>rd_lib := av_fin L True (rd_lib m)\<rparr> else m, t)"
    unfolding wav_again_def s by simp
  then show ?thesis
    using a av_fin_law [OF law, of True] order_trans [OF av_fin_law(2) [OF law, of True m t]] unfolding s by auto
qed

lemma maybe_seek_law:
  assumes law: "av_law L hdr frames mu K" and "b \<Longrightarrow> seek_wanted (snd s)" and s1: "s1 = (if b then do_seek L s else s)"
  shows "frames (rd_lib (fst s1)) = frames (rd_lib (fst s))" "work mu K s1 \<le> work mu K s" "t_conf (snd s1) = t_conf (snd s)"
  using do_seek_law [OF law, of s] assms(2) s1 by (auto split: if_splits)

lemmas step_simps = split_beta av_log_def goes_on_ev_def work_def outcome_def

interpretation wav: reader wav_step "\<lambda>L. True" False True "\<lambda>t. \<not> info_only t"
proof unfold_locales
  fix L :: "'r av_lib" and s
  show "wav_step L s \<noteq> None" by (auto simp: wav_step_def split: prod.splits av_ev.splits)
next
  fix L :: "'r av_lib" and frames mu K s s1
  assume law: "av_law L False frames mu K" and q: "\<not> info_only (snd s)" and st: "wav_step L s = Some (s1, None)"
  obtain ev m1 where n: "av_next L (fst s) = (ev, m1)" by (cases "av_next L (fst s)")
  note nl = av_next_law [OF law n]
  note ag = wav_again_law [OF law, of "((fst (wav_header L (m1, snd s)))\<lparr>rd_rate := ai_rate (av_info L (rd_lib m1)), rd_state := 1\<rparr>, snd (wav_header L (m1, snd s)))"]
  show "work mu K s1 < work mu K s \<and> frames (rd_lib (fst s1)) = frames (rd_lib (fst s)) \<and> \<not> info_only (snd s1)"
    using st n nl q ag
    by (auto simp: wav_step_def step_simps split: av_ev.splits if_splits)
next
  fix L :: "'r av_lib" and frames mu K s s1 r
  assume law: "av_law L False frames mu K" and q: "\<not> info_only (snd s)" and st: "wav_step L s = Some (s1, Some r)"
  obtain ev m1 where n: "av_next L (fst s) = (ev, m1)" by (cases "av_next L (fst s)")
  note nl = av_next_law [OF law n]
  show "outcome frames True s s1 r"
    using st n nl q
    by (auto simp: wav_step_def step_simps split: av_ev.splits if_splits)
qed

interpretation mp3: reader "mp3_step cmod" "\<lambda>L. True" False True "\<lambda>t. \<not> info_only t" for cmod
proof unfold_locales
  fix L :: "'r av_lib" and s
  show "mp3_step cmod L s \<noteq> None" by (auto simp: mp3_step_def split_beta split: av_ev.splits)
next
  fix L :: "'r av_lib" and frames mu K s s1
  assume law: "av_law L False frames mu K" and q: "\<not> info_only (snd s)" and st: "mp3_step cmod L s = Some (s1, None)"
  define s0 where "s0 = (if seek_wanted (snd s) \<and> rd_rate (fst s) \<noteq> 0 then do_seek L s else s)"
  note ms = maybe_seek_law [OF law _ s0_def]
  obtain ev m1 where n: "av_next L (fst s0) = (ev, m1)" by (cases "av_next L (fst s0)")
  note nl = av_next_law [OF law n]
  show "work mu K s1 < work mu K s \<and> frames (rd_lib (fst s1)) = frames (rd_lib (fst s)) \<and> \<not> info_only (snd s1)"
    using st n nl q ms
    by (auto simp: mp3_step_def s0_def [symmetric] step_simps split: av_ev.splits if_splits)
next
  fix L :: "'r av_lib" and frames mu K s s1 r
  assume law: "av_law L False frames mu K" and q: "\<not> info_only (snd s)" and st: "mp3_step cmod L s = Some (s1, Some r)"
  define s0 where "s0 = (if seek_wanted (snd s) \<and> rd_rate (fst s) \<noteq> 0 then do_seek L s else s)"
  note ms = maybe_seek_law [OF law _ s0_def]
  obtain ev m1 where n: "av_next L (fst s0) = (ev, m1)" by (cases "av_next L (fst s0)")
  note nl = av_next_law [OF law n]
  show "outcome frames True s s1 r"
    using st n nl q ms
    by (auto simp: mp3_step_def s0_def [symmetric] step_simps split: av_ev.splits if_splits)
qed

interpretation flac: reader "flac_in_step cmod" "\<lambda>L. \<forall>r d. fst (av_process L r d) \<noteq> AvMoreOrDone" False True "\<lambda>t. \<not> info_only t" for cmod
proof unfold_locales
  fix L :: "'r av_lib" and s
  show "flac_in_step cmod L s \<noteq> None" by (auto simp: flac_in_step_def Let_def split_beta split: av_ev.splits)
next
  fix L :: "'r av_lib" and frames mu K s s1
  assume law: "av_law L False frames mu K" and q: "\<not> info_only (snd s)" and st: "flac_in_step cmod L s = Some (s1, None)"
    and sd: "\<forall>r d. fst (av_process L r d) \<noteq> AvMoreOrDone"
  define s0 where "s0 = (if seek_wanted (snd s) \<and> rd_rate (fst s) \<noteq> 0 then do_seek L s else s)"
  note ms = maybe_seek_law [OF law _ s0_def]
  obtain ev m1 where n: "av_next L (fst s0) = (ev, m1)" by (cases "av_next L (fst s0)")
  note nl = av_next_law [OF law n]
  have "ev \<noteq> AvMoreOrDone" using n sd [rule_format, of "rd_lib (fst s0)" "rd_in (fst s0)"] by (auto simp: av_next_def split: prod.splits)
  then show "work mu K s1 < work mu K s \<and> frames (rd_lib (fst s1)) = frames (rd_lib (fst s)) \<and> \<not> info_only (snd s1)"
    using st n nl q ms
    by (auto simp: flac_in_step_def s0_def [symmetric] step_simps Let_def split: av_ev.splits if_splits)
next
  fix L :: "'r av_lib" and frames mu K s s1 r
  assume law: "av_law L False frames mu K" and q: "\<not> info_only (snd s)" and st: "flac_in_step cmod L s = Some (s1, Some r)"
  define s0 where "s0 = (if seek_wanted (snd s) \<and> rd_rate (fst s) \<noteq> 0 then do_seek L s else s)"
  note ms = maybe_seek_law [OF law _ s0_def]
  obtain ev m1 where n: "av_next L (fst s0) = (ev, m1)" by (cases "av_next L (fst s0)")
  note nl = av_next_law [OF law n]
  show "outcome frames True s s1 r"
    using st n nl q ms
    by (auto simp: flac_in_step_def s0_def [symmetric] step_simps Let_def split: av_ev.splits if_splits)
qed

interpretation wv: reader "wv_in_step cmod" "\<lambda>L. \<forall>r d. fst (av_process L r d) \<notin> {AvMoreOrDone, AvDone} \<and> (\<forall>x. fst (av_process L r d) \<noteq> AvHeader x)" False True "\<lambda>t. \<not> info_only t" for cmod
proof unfold_locales
  fix L :: "'r av_lib" and s
  assume "\<forall>r d. fst (av_process L r d) \<notin> {AvMoreOrDone, AvDone} \<and> (\<forall>x. fst (av_process L r d) \<noteq> AvHeader x)"
  then show "wv_in_step cmod L s \<noteq> None" by (auto simp: wv_in_step_def  split_beta split: av_ev.splits if_splits option.splits)
next
  fix L :: "'r av_lib" and frames mu K s s1
  assume law: "av_law L False frames mu K" and q: "\<not> info_only (snd s)" and st: "wv_in_step cmod L s = Some (s1, None)"
    and sd: "\<forall>r d. fst (av_process L r d) \<notin> {AvMoreOrDone, AvDone} \<and> (\<forall>x. fst (av_process L r d) \<noteq> AvHeader x)"
  obtain ev m1 where n: "av_next L (fst s) = (ev, m1)" by (cases "av_next L (fst s)")
  note nl = av_next_law [OF law n]
  have "ev \<notin> {AvMoreOrDone, AvDone}" using n sd [rule_format, of "rd_lib (fst s)" "rd_in (fst s)"] by (auto simp: av_next_def split: prod.splits)
  then show "work mu K s1 < work mu K s \<and> frames (rd_lib (fst s1)) = frames (rd_lib (fst s)) \<and> \<not> info_only (snd s1)"
    using st n nl q
    by (auto simp: wv_in_step_def step_simps  split: av_ev.splits if_splits option.splits)
next
  fix L :: "'r av_lib" and frames mu K s s1 r
  assume law: "av_law L False frames mu K" and q: "\<not> info_only (snd s)" and st: "wv_in_step cmod L s = Some (s1, Some r)"
  obtain ev m1 where n: "av_next L (fst s) = (ev, m1)" by (cases "av_next L (fst s)")
  note nl = av_next_law [OF law n]
  show "outcome frames True s s1 r"
    using st n nl q
    by (auto simp: wv_in_step_def step_simps  split: av_ev.splits if_splits option.splits)
qed

interpretation ape: reader "ape_in_step cmod" "\<lambda>L. True" True True "\<lambda>t. \<not> info_only t" for cmod
proof unfold_locales
  fix L :: "'r av_lib" and s
  show "ape_in_step cmod L s \<noteq> None" by (auto simp: ape_in_step_def  split_beta split: av_ev.splits if_splits option.splits)
next
  fix L :: "'r av_lib" and frames mu K s s1
  assume law: "av_law L True frames mu K" and q: "\<not> info_only (snd s)" and st: "ape_in_step cmod L s = Some (s1, None)"
  obtain ev m1 where n: "av_next L (fst s) = (ev, m1)" by (cases "av_next L (fst s)")
  note nl = av_next_law [OF law n]
  show "work mu K s1 < work mu K s \<and> frames (rd_lib (fst s1)) = frames (rd_lib (fst s)) \<and> \<not> info_only (snd s1)"
    using st n nl q
    by (auto simp: ape_in_step_def step_simps  split: av_ev.splits if_splits option.splits)
next
  fix L :: "'r av_lib" and frames mu K s s1 r
  assume law: "av_law L True frames mu K" and q: "\<not> info_only (snd s)" and st: "ape_in_step cmod L s = Some (s1, Some r)"
  obtain ev m1 where n: "av_next L (fst s) = (ev, m1)" by (cases "av_next L (fst s)")
  note nl = av_next_law [OF law n]
  show "outcome frames True s s1 r"
    using st n nl q
    by (auto simp: ape_in_step_def step_simps passes_simps ape_frame_def split: av_ev.splits if_splits option.splits)
qed

interpretation mpc: reader "mpc_step cmod" "\<lambda>L. \<forall>r d. fst (av_process L r d) \<noteq> AvMoreOrDone" True True "\<lambda>t. \<not> info_only t" for cmod
proof unfold_locales
  fix L :: "'r av_lib" and s
  assume "\<forall>r d. fst (av_process L r d) \<noteq> AvMoreOrDone"
  then show "mpc_step cmod L s \<noteq> None" by (auto simp: mpc_step_def  split_beta split: av_ev.splits if_splits option.splits)
next
  fix L :: "'r av_lib" and frames mu K s s1
  assume law: "av_law L True frames mu K" and q: "\<not> info_only (snd s)" and st: "mpc_step cmod L s = Some (s1, None)"
    and sd: "\<forall>r d. fst (av_process L r d) \<noteq> AvMoreOrDone"
  obtain ev m1 where n: "av_next L (fst s) = (ev, m1)" by (cases "av_next L (fst s)")
  note nl = av_next_law [OF law n]
  have "ev \<noteq> AvMoreOrDone" using n sd [rule_format, of "rd_lib (fst s)" "rd_in (fst s)"] by (auto simp: av_next_def split: prod.splits)
  then show "work mu K s1 < work mu K s \<and> frames (rd_lib (fst s1)) = frames (rd_lib (fst s)) \<and> \<not> info_only (snd s1)"
    using st n nl q
    by (auto simp: mpc_step_def step_simps  split: av_ev.splits if_splits option.splits)
next
  fix L :: "'r av_lib" and frames mu K s s1 r
  assume law: "av_law L True frames mu K" and q: "\<not> info_only (snd s)" and st: "mpc_step cmod L s = Some (s1, Some r)"
  obtain ev m1 where n: "av_next L (fst s) = (ev, m1)" by (cases "av_next L (fst s)")
  note nl = av_next_law [OF law n]
  show "outcome frames True s s1 r"
    using st n nl q
    by (auto simp: mpc_step_def step_simps split: av_ev.splits if_splits option.splits)
qed

interpretation caf: reader "caf_step cmod" "\<lambda>L. True" True True "\<lambda>t. \<not> info_only t" for cmod
proof unfold_locales
  fix L :: "'r av_lib" and s
  show "caf_step cmod L s \<noteq> None" by (auto simp: caf_step_def  split_beta split: av_ev.splits if_splits option.splits)
next
  fix L :: "'r av_lib" and frames mu K s s1
  assume law: "av_law L True frames mu K" and q: "\<not> info_only (snd s)" and st: "caf_step cmod L s = Some (s1, None)"
  obtain ev m1 where n: "av_next L (fst s) = (ev, m1)" by (cases "av_next L (fst s)")
  note nl = av_next_law [OF law n]
  show "work mu K s1 < work mu K s \<and> frames (rd_lib (fst s1)) = frames (rd_lib (fst s)) \<and> \<not> info_only (snd s1)"
    using st n nl q
    by (auto simp: caf_step_def step_simps caf_header_def Let_def split: av_ev.splits if_splits option.splits)
next
  fix L :: "'r av_lib" and frames mu K s s1 r
  assume law: "av_law L True frames mu K" and q: "\<not> info_only (snd s)" and st: "caf_step cmod L s = Some (s1, Some r)"
  obtain ev m1 where n: "av_next L (fst s) = (ev, m1)" by (cases "av_next L (fst s)")
  note nl = av_next_law [OF law n]
  show "outcome frames True s s1 r"
    using st n nl q
    by (auto simp: caf_step_def step_simps caf_header_def Let_def split: av_ev.splits if_splits option.splits)
qed

lemma first_audio_track_None: "first_audio_track L i as r = None \<longleftrightarrow> (\<forall>a \<in> set as. at_type a \<noteq> 1)"
  by (induction as arbitrary: i) auto

lemma first_audio_track_frames:
  "av_law L hdr frames mu K \<Longrightarrow> first_audio_track L i as r = Some (a, r1) \<Longrightarrow> frames r1 = frames r"
  by (induction as arbitrary: i) (auto simp: av_law_def split: if_splits)

interpretation avi: reader "avi_step cmod" "\<lambda>L. \<forall>r. \<exists>a \<in> set (av_tracks L r). at_type a = 1" True True "\<lambda>t. \<not> info_only t" for cmod
proof unfold_locales
  fix L :: "'r av_lib" and s
  assume "\<forall>r. \<exists>a \<in> set (av_tracks L r). at_type a = 1"
  then show "avi_step cmod L s \<noteq> None" by (auto simp: avi_step_def avi_header_def first_audio_track_None Let_def split_beta split: av_ev.splits if_splits option.splits)
next
  fix L :: "'r av_lib" and frames mu K s s1
  assume law: "av_law L True frames mu K" and q: "\<not> info_only (snd s)" and st: "avi_step cmod L s = Some (s1, None)"
    and sd: "\<forall>r. \<exists>a \<in> set (av_tracks L r). at_type a = 1"
  obtain ev m1 where n: "av_next L (fst s) = (ev, m1)" by (cases "av_next L (fst s)")
  note nl = av_next_law [OF law n]
  show "work mu K s1 < work mu K s \<and> frames (rd_lib (fst s1)) = frames (rd_lib (fst s)) \<and> \<not> info_only (snd s1)"
    using st n nl q
    by (auto simp: avi_step_def step_simps avi_header_def Let_def split: av_ev.splits if_splits option.splits)
next
  fix L :: "'r av_lib" and frames mu K s s1 r
  assume law: "av_law L True frames mu K" and q: "\<not> info_only (snd s)" and st: "avi_step cmod L s = Some (s1, Some r)"
  obtain ev m1 where n: "av_next L (fst s) = (ev, m1)" by (cases "av_next L (fst s)")
  note nl = av_next_law [OF law n]
  show "outcome frames True s s1 r"
    using st n nl q
    by (auto simp: avi_step_def step_simps avi_header_def Let_def dest: first_audio_track_frames [OF law]
      split: av_ev.splits if_splits option.splits)
qed

interpretation adts: reader "aac_adts_step cmod" "\<lambda>L. True" True False "\<lambda>t. \<not> info_only t \<and> \<not> seek_wanted t" for cmod
proof unfold_locales
  fix L :: "'r av_lib" and s
  show "aac_adts_step cmod L s \<noteq> None" by (auto simp: aac_adts_step_def Let_def split_beta split: av_ev.splits if_splits option.splits)
next
  fix L :: "'r av_lib" and frames mu K s s1
  assume law: "av_law L True frames mu K" and q: "\<not> info_only (snd s) \<and> \<not> seek_wanted (snd s)" and st: "aac_adts_step cmod L s = Some (s1, None)"
  obtain ev m1 where n: "av_next L (fst s) = (ev, m1)" by (cases "av_next L (fst s)")
  note nl = av_next_law [OF law n]
  show "work mu K s1 < work mu K s \<and> frames (rd_lib (fst s1)) = frames (rd_lib (fst s)) \<and> \<not> info_only (snd s1) \<and> \<not> seek_wanted (snd s1)"
    using st n nl q
    by (auto simp: aac_adts_step_def step_simps Let_def split: av_ev.splits if_splits option.splits)
next
  fix L :: "'r av_lib" and frames mu K s s1 r
  assume law: "av_law L True frames mu K" and q: "\<not> info_only (snd s) \<and> \<not> seek_wanted (snd s)" and st: "aac_adts_step cmod L s = Some (s1, Some r)"
  obtain ev m1 where n: "av_next L (fst s) = (ev, m1)" by (cases "av_next L (fst s)")
  note nl = av_next_law [OF law n]
  show "outcome frames False s s1 r"
    using st n nl q
    by (auto simp: aac_adts_step_def step_simps Let_def passes_simps split: av_ev.splits if_splits option.splits)
qed

interpretation flacogg: reader "flacogg_step cmod" "\<lambda>L. True" False False "\<lambda>t. \<not> info_only t \<and> \<not> seek_wanted t" for cmod
proof unfold_locales
  fix L :: "'r av_lib" and s
  show "flacogg_step cmod L s \<noteq> None" by (auto simp: flacogg_step_def Let_def split_beta split: av_ev.splits if_splits option.splits)
next
  fix L :: "'r av_lib" and frames mu K s s1
  assume law: "av_law L False frames mu K" and q: "\<not> info_only (snd s) \<and> \<not> seek_wanted (snd s)" and st: "flacogg_step cmod L s = Some (s1, None)"
  obtain ev m1 where n: "av_next L (fst s) = (ev, m1)" by (cases "av_next L (fst s)")
  note nl = av_next_law [OF law n]
  show "work mu K s1 < work mu K s \<and> frames (rd_lib (fst s1)) = frames (rd_lib (fst s)) \<and> \<not> info_only (snd s1) \<and> \<not> seek_wanted (snd s1)"
    using st n nl q
    by (auto simp: flacogg_step_def step_simps Let_def split: av_ev.splits if_splits option.splits)
next
  fix L :: "'r av_lib" and frames mu K s s1 r
  assume law: "av_law L False frames mu K" and q: "\<not> info_only (snd s) \<and> \<not> seek_wanted (snd s)" and st: "flacogg_step cmod L s = Some (s1, Some r)"
  obtain ev m1 where n: "av_next L (fst s) = (ev, m1)" by (cases "av_next L (fst s)")
  note nl = av_next_law [OF law n]
  show "outcome frames False s s1 r"
    using st n nl q
    by (auto simp: flacogg_step_def step_simps Let_def passes_simps flacogg_frame_def split: av_ev.splits if_splits option.splits)
qed

text \<open>A whole track: the environment gives each call a track with new input, flags and requests.\<close>

fun reader_run ::
    "('r rds \<Rightarrow> ('r rds \<times> phi_r) option) \<Rightarrow> 'r rd \<Rightarrow> phi_track list \<Rightarrow> ('r rd \<times> phi_track list \<times> phi_r list) option" where
  "reader_run f m [] = Some (m, [], [])"
| "reader_run f m (t # ts) =
     (case f (m, t) of
        None \<Rightarrow> None
      | Some ((m1, t1), r) \<Rightarrow>
          if r = PHI_DATA \<or> r = PHI_MORE then
            map_option (\<lambda>(m2, outs, rs). (m2, (if r = PHI_DATA then t1 # outs else outs), r # rs)) (reader_run f m1 ts)
          else Some (m1, [], [r]))"

context reader_filter
begin

lemma run_ok:
  assumes law: "av_law L hdr frames mu K" and sd: "side L" and n: "2 * K + 1 < n"
  shows "\<forall>t \<in> set ts. quiet t \<Longrightarrow>
    \<exists>m1 outs rs. reader_run (proc n L) m ts = Some (m1, outs, rs)
      \<and> (PHI_ERR \<notin> set rs \<longrightarrow> (\<exists>new. frames (rd_lib m1) = frames (rd_lib m) @ new \<and> list_all2 (passes pos) outs new))"
proof (induction ts arbitrary: m)
  case (Cons t ts)
  from call_ok [OF law sd _ n, of "(m, t)"] Cons.prems obtain m1 t1 r where
    c: "proc n L (m, t) = Some ((m1, t1), r)" "outcome frames pos (m, t) (m1, t1) r" by auto
  from Cons.IH [of m1] Cons.prems obtain m2 outs rs where
    IH: "reader_run (proc n L) m1 ts = Some (m2, outs, rs)"
      "PHI_ERR \<notin> set rs \<longrightarrow> (\<exists>new. frames (rd_lib m2) = frames (rd_lib m1) @ new \<and> list_all2 (passes pos) outs new)"
    by auto
  show ?case
  proof (cases "r = PHI_DATA")
    case True
    with c(2) obtain i where i: "frames (rd_lib m1) = frames (rd_lib m) @ [i]" "passes pos t1 i"
      by (auto simp: outcome_def)
    have "reader_run (proc n L) m (t # ts) = Some (m2, t1 # outs, PHI_DATA # rs)" using c(1) IH(1) True by simp
    moreover have "\<exists>new. frames (rd_lib m2) = frames (rd_lib m) @ new \<and> list_all2 (passes pos) (t1 # outs) new"
      if "PHI_ERR \<notin> set (PHI_DATA # rs)"
    proof -
      from that IH(2) obtain new where "frames (rd_lib m2) = frames (rd_lib m1) @ new" "list_all2 (passes pos) outs new" by auto
      with i show ?thesis by (intro exI [of _ "i # new"]) simp
    qed
    ultimately show ?thesis by blast
  next
    case False
    with c IH show ?thesis by (auto simp: outcome_def)
  qed
qed simp

end

lemma take_input_frame [simp]:
  "rd_lib (fst (take_input s)) = rd_lib (fst s)" "t_conf (snd (take_input s)) = t_conf (snd s)"
  "seek_wanted (snd (take_input s)) = seek_wanted (snd s)"
  by (cases s; simp add: take_input_def)+

lemma parsed_seek_law:
  assumes "av_law L hdr frames mu K"
  shows "frames (rd_lib (fst (parsed_seek L s))) = frames (rd_lib (fst s)) \<and> t_conf (snd (parsed_seek L s)) = t_conf (snd s)"
proof (cases s)
  case (Pair m t)
  then show ?thesis
    using do_seek_law [OF assms, of "(m, t)"] do_seek_law [OF assms, of "(m\<lparr>rd_rate := af_rate (a_format (t_audio t)), rd_state := 2\<rparr>, t)"]
    by (auto simp: parsed_seek_def Let_def)
qed

text \<open>The kinds of containers, and what each needs of its parser: no report outside of its switch, and for AVI an audio track.\<close>

datatype container = CWav | CMp3 | CFlac | CWv | CApe | CMpc | CCaf | CAvi | CAdts | CFlacOgg

fun container_process ::
    "container \<Rightarrow> (string \<Rightarrow> string option) \<Rightarrow> nat \<Rightarrow> 'r av_lib \<Rightarrow> 'r rds \<Rightarrow> ('r rds \<times> phi_r) option" where
  "container_process CWav cmod n = wav_process n"
| "container_process CMp3 cmod n = mp3_process n cmod"
| "container_process CFlac cmod n = flac_in_read n cmod"
| "container_process CWv cmod n = wv_in_process n cmod"
| "container_process CApe cmod n = ape_in_process n cmod"
| "container_process CMpc cmod n = mpc_process n cmod"
| "container_process CCaf cmod n = caf_process n cmod"
| "container_process CAvi cmod n = avi_process n cmod"
| "container_process CAdts cmod n = aac_adts_process n cmod"
| "container_process CFlacOgg cmod n = flacogg_in_read n cmod"

text \<open>Whether the header is passed on as a block, and whether the positions are those of the parser.\<close>
definition has_header_block :: "container \<Rightarrow> bool" where
  "has_header_block k \<longleftrightarrow> k \<in> {CApe, CMpc, CCaf, CAvi, CAdts}"

definition has_parser_pos :: "container \<Rightarrow> bool" where
  "has_parser_pos k \<longleftrightarrow> k \<notin> {CAdts, CFlacOgg}"

definition parser_side :: "container \<Rightarrow> 'r av_lib \<Rightarrow> bool" where
  "parser_side k L \<longleftrightarrow>
     (if k = CWv then \<forall>r d. fst (av_process L r d) \<notin> {AvMoreOrDone, AvDone} \<and> (\<forall>x. fst (av_process L r d) \<noteq> AvHeader x)
      else if k = CFlac \<or> k = CMpc then \<forall>r d. fst (av_process L r d) \<noteq> AvMoreOrDone
      else if k = CAvi then \<forall>r. \<exists>a \<in> set (av_tracks L r). at_type a = 1
      else True)"

text \<open>The track is played, and the two readers that seek by dropping frames have no request.\<close>
definition reads_all :: "container \<Rightarrow> phi_track \<Rightarrow> bool" where
  "reads_all k t \<longleftrightarrow> \<not> info_only t \<and> (k \<in> {CAdts, CFlacOgg} \<longrightarrow> \<not> seek_wanted t)"

interpretation wavf: reader_filter wav_step "\<lambda>L. True" False True "\<lambda>t. \<not> info_only t" "wav_process"
    "\<lambda>L s. wav_again L (if has_flag (snd s) PHI_FFWD then take_input s else s)"
  by unfold_locales (auto simp: wav_process_def wav_again_law)

interpretation mp3f: reader_filter "mp3_step cmod" "\<lambda>L. True" False True "\<lambda>t. \<not> info_only t" "\<lambda>n. mp3_process n cmod"
    "\<lambda>L s. if t_data_in (snd s) \<noteq> [] then take_input s else s" for cmod
  by unfold_locales (auto simp: mp3_process_def split_beta av_fin_law(1))

interpretation flacf: reader_filter "flac_in_step cmod" "\<lambda>L. \<forall>r d. fst (av_process L r d) \<noteq> AvMoreOrDone" False True "\<lambda>t. \<not> info_only t" "\<lambda>n. flac_in_read n cmod"
    "\<lambda>L s. if has_flag (snd s) PHI_FFWD then (case take_input s of (m, t) \<Rightarrow> (if has_flag t PHI_FFIRST then m\<lparr>rd_lib := av_fin L True (rd_lib m)\<rparr> else m, t)) else s" for cmod
  by unfold_locales (auto simp: flac_in_read_def split_beta av_fin_law(1))

interpretation wvf: reader_filter "wv_in_step cmod" "\<lambda>L. \<forall>r d. fst (av_process L r d) \<notin> {AvMoreOrDone, AvDone} \<and> (\<forall>x. fst (av_process L r d) \<noteq> AvHeader x)" False True "\<lambda>t. \<not> info_only t" "\<lambda>n. wv_in_process n cmod"
    "\<lambda>L s. parsed_seek L (if has_flag (snd s) PHI_FFWD then take_input ((fst s)\<lparr>rd_lib := av_fin L (t_data_in (snd s) = []) (rd_lib (fst s))\<rparr>, snd s) else s)" for cmod
  by unfold_locales (auto simp: wv_in_process_def parsed_seek_law av_fin_law(1))

interpretation apef: reader_filter "ape_in_step cmod" "\<lambda>L. True" True True "\<lambda>t. \<not> info_only t" "\<lambda>n. ape_in_process n cmod"
    "\<lambda>L s. parsed_seek L (if has_flag (snd s) PHI_FFWD then take_input s else s)" for cmod
  by unfold_locales (auto simp: ape_in_process_def parsed_seek_law av_fin_law(1))

interpretation mpcf: reader_filter "mpc_step cmod" "\<lambda>L. \<forall>r d. fst (av_process L r d) \<noteq> AvMoreOrDone" True True "\<lambda>t. \<not> info_only t" "\<lambda>n. mpc_process n cmod"
    "\<lambda>L s. let s1 = (if t_data_in (snd s) \<noteq> [] then take_input s else s) in if seek_wanted (snd s1) \<and> rd_rate (fst s1) \<noteq> 0 then do_seek L s1 else s1" for cmod
  by unfold_locales (auto simp: mpc_process_def Let_def do_seek_law)

interpretation caff: reader_filter "caf_step cmod" "\<lambda>L. True" True True "\<lambda>t. \<not> info_only t" "\<lambda>n. caf_process n cmod"
    "\<lambda>L s. if has_flag (snd s) PHI_FFWD then take_input s else s" for cmod
  by unfold_locales (auto simp: caf_process_def split_beta av_fin_law(1))

interpretation avif: reader_filter "avi_step cmod" "\<lambda>L. \<forall>r. \<exists>a \<in> set (av_tracks L r). at_type a = 1" True True "\<lambda>t. \<not> info_only t" "\<lambda>n. avi_process n cmod"
    "\<lambda>L s. if has_flag (snd s) PHI_FFWD then take_input s else s" for cmod
  by unfold_locales (auto simp: avi_process_def split_beta av_fin_law(1))

interpretation adtsf: reader_filter "aac_adts_step cmod" "\<lambda>L. True" True False "\<lambda>t. \<not> info_only t \<and> \<not> seek_wanted t" "\<lambda>n. aac_adts_process n cmod"
    "\<lambda>L s. if has_flag (snd s) PHI_FFWD then ((fst s)\<lparr>rd_in := t_data_in (snd s)\<rparr>, snd s) else s" for cmod
  by unfold_locales (auto simp: aac_adts_process_def split_beta av_fin_law(1))

interpretation flacoggf: reader_filter "flacogg_step cmod" "\<lambda>L. True" False False "\<lambda>t. \<not> info_only t \<and> \<not> seek_wanted t" "\<lambda>n. flacogg_in_read n cmod"
    "\<lambda>L s. if has_flag (snd s) PHI_FFWD then (case take_input s of (m, t) \<Rightarrow> (if rd_page m \<noteq> a_pos (t_audio t) then m\<lparr>rd_apos := a_pos (t_audio t), rd_page := a_pos (t_audio t)\<rparr> else m, t)) else s" for cmod
  by unfold_locales (auto simp: flacogg_in_read_def split_beta av_fin_law(1))


text \<open>A parser that reports a given list of events, at most eight, and keeps its history.\<close>
definition script_av :: "(av_ev list \<times> (u64 option \<times> bytes) list) av_lib" where
  "script_av =
    \<lparr>av_open = (\<lambda>_. ([], [])),
     av_process = (\<lambda>(evs, h) d. case take 8 evs of
        [] \<Rightarrow> (AvMore, ([], h), [])
      | AvData s # es \<Rightarrow> (AvData s, (es, h @ [(Some (of_nat (Suc (length h))), s)]), d)
      | ev # es \<Rightarrow> (ev, (es, h), d)),
     av_seek = (\<lambda>p r. r), av_fin = (\<lambda>b r. r), av_activate = (\<lambda>i r. r), av_wholeframe = id, av_offset = (\<lambda>r. 0),
     av_cursample = (\<lambda>(evs, h). of_nat (length h)), av_samples = (\<lambda>r. 1), av_block_samples = (\<lambda>r. 0), av_align4 = (\<lambda>r. 0),
     av_info = (\<lambda>r. \<lparr>ai_format = 16, ai_channels = 2, ai_rate = 44100, ai_total = 2, ai_bitrate = 0, ai_layer = 0, ai_delay = 0,
        ai_padding = 0, ai_vbr_scale = 0, ai_minblock = 0, ai_maxblock = 0, ai_codec = 0, ai_codec_conf = []\<rparr>),
     av_tag = (\<lambda>r. (13, [], ''song'')), av_tracks = (\<lambda>r. []), av_const = (\<lambda>n. 1), av_dec = (\<lambda>n. [])\<rparr>"

lemma script_av_law: "av_law script_av False snd (\<lambda>r d. length (take 8 (fst r))) 8"
proof -
  have "length es < length a \<and> length es < 8" if "take 8 a = x # es" for a es and x :: av_ev
    using arg_cong [OF that, of length] by (simp add: min_def split: if_splits)
  then show ?thesis
    unfolding av_law_def script_av_def
    by (auto simp: av_log_def goes_on_ev_def min_less_iff_disj split: list.splits av_ev.splits)
qed

definition script_events :: "av_ev list" where
  "script_events = [AvHeader [], AvTag, AvData [1, 2], AvData [3]]"


text \<open>An AVI file without an audio track: the reader uses a null pointer.\<close>
theorem avi_no_audio_faults:
  assumes "\<not> has_flag t PHI_FSTOP" and "\<not> has_flag t PHI_FFWD"
    and "av_process L (rd_lib m) (rd_in m) = (AvHeader s, r, d)" and "av_tracks L r = []"
  shows "avi_process (Suc n) cmod L (m, t) = None"
  using assms by (simp add: avi_process_def avi_step_def av_next_def avi_header_def)

text \<open>
  A Musepack file that ends early: the reader is then the first filter of the chain and asks for more data, which ends
  the track with an error, where the other readers end it normally.
\<close>
theorem mpc_truncated_fails:
  assumes "\<not> has_flag t PHI_FSTOP" and "has_flag t PHI_FFIRST" and "t_data_in t = []" and "\<not> seek_wanted t"
    and "av_process L (rd_lib m) (rd_in m) = (AvMore, r, d)" and "v_cur v = 0"
  shows "\<exists>s1. mpc_process (Suc n) cmod L (m, t) = Some (s1, PHI_MORE)
    \<and> trk_filter_handle_result i (Some PHI_MORE) v = (v, PHI_ERR)"
  using assms by (simp add: mpc_process_def mpc_step_def av_next_def trk_filter_handle_result_def)

end
