(* ===== verification/Pcm.thy ===== *)
theory Pcm
  imports Track_Types
begin

text \<open>
  \<open>src/afilter/pcm.h\<close>, \<open>pcm_convert.h\<close>, \<open>pcm_gain.h\<close> and \<open>pcm_maxpeak.h\<close>: conversion of PCM
  samples between formats, layouts and channel numbers, gain and peak.

  Sample data is bytes: an interleaved block is one buffer, non-interleaved data one buffer per
  channel. A pointer is a buffer number and an offset; an access outside of the buffers is
  \<open>None\<close>. A \<open>double\<close> or \<open>float\<close> is its bit pattern, the constants of the code are given as such, and
  the arithmetic of the processor on them is the record \<open>fpu\<close>. Integers are little-endian.
\<close>

section \<open>Floating point\<close>

record fpu =
  fp_of_int :: "int \<Rightarrow> f64"
  fp_to_int :: "f64 \<Rightarrow> int"             \<comment> \<open>\<open>cvtsd2si\<close>: \<open>int_ftoi\<close>\<close>
  fp_add :: "f64 \<Rightarrow> f64 \<Rightarrow> f64"
  fp_mul :: "f64 \<Rightarrow> f64 \<Rightarrow> f64"
  fp_div :: "f64 \<Rightarrow> f64 \<Rightarrow> f64"
  fp_abs :: "f64 \<Rightarrow> f64"
  fp_lt :: "f64 \<Rightarrow> f64 \<Rightarrow> bool"
  fp_eq :: "f64 \<Rightarrow> f64 \<Rightarrow> bool"
  fp_widen :: "f32 \<Rightarrow> f64"
  fp_narrow :: "f64 \<Rightarrow> f32"

definition FP_0 :: f64 where "FP_0 = 0"
definition FP_1 :: f64 where "FP_1 = 0x3FF0000000000000"
definition FP_M1 :: f64 where "FP_M1 = 0xBFF0000000000000"
definition SQRT1_2 :: f64 where "SQRT1_2 = 0x3FE6A09E667F3BCD"
definition max8f :: f64 where "max8f = 0x4060000000000000"
definition max16f :: f64 where "max16f = 0x40E0000000000000"
definition max24f :: f64 where "max24f = 0x4160000000000000"
definition max32f :: f64 where "max32f = 0x41E0000000000000"

text \<open>\<open>-maxNf\<close>, \<open>maxNf - 1\<close> and \<open>1 / maxNf\<close>\<close>
definition neg8f :: f64 where "neg8f = 0xC060000000000000"
definition neg16f :: f64 where "neg16f = 0xC0E0000000000000"
definition neg24f :: f64 where "neg24f = 0xC160000000000000"
definition neg32f :: f64 where "neg32f = 0xC1E0000000000000"
definition top8f :: f64 where "top8f = 0x405FC00000000000"
definition top16f :: f64 where "top16f = 0x40DFFFC000000000"
definition top24f :: f64 where "top24f = 0x415FFFFFC0000000"
definition top32f :: f64 where "top32f = 0x41DFFFFFFFC00000"
definition inv8f :: f64 where "inv8f = 0x3F80000000000000"
definition inv16f :: f64 where "inv16f = 0x3F00000000000000"
definition inv24f :: f64 where "inv24f = 0x3E80000000000000"
definition inv32f :: f64 where "inv32f = 0x3E00000000000000"

text \<open>The scale, clip and round of \<open>pcm_flt_N\<close>.\<close>
definition flt_clip :: "fpu \<Rightarrow> f64 \<Rightarrow> f64 \<Rightarrow> f64 \<Rightarrow> int \<Rightarrow> f64 \<Rightarrow> int" where
  "flt_clip U scale lo hi half f =
     (let d = fp_mul U f scale in
      if fp_lt U d lo then - half else if fp_lt U hi d then half - 1 else fp_to_int U d)"

definition pcm_flt_8 :: "fpu \<Rightarrow> f32 \<Rightarrow> int" where
  "pcm_flt_8 U f = flt_clip U max8f neg8f top8f 0x80 (fp_widen U f)"

definition pcm_flt_16le :: "fpu \<Rightarrow> f64 \<Rightarrow> int" where
  "pcm_flt_16le U f = flt_clip U max16f neg16f top16f 0x8000 f"

definition pcm_flt_24 :: "fpu \<Rightarrow> f64 \<Rightarrow> int" where
  "pcm_flt_24 U f = flt_clip U max24f neg24f top24f 0x800000 f"

definition pcm_flt_32 :: "fpu \<Rightarrow> f64 \<Rightarrow> int" where
  "pcm_flt_32 U f = flt_clip U max32f neg32f top32f 0x80000000 f"

definition pcm_8_flt :: "fpu \<Rightarrow> int \<Rightarrow> f64" where
  "pcm_8_flt U n = fp_mul U (fp_widen U (fp_narrow U (fp_of_int U n))) inv8f"

definition pcm_16le_flt :: "fpu \<Rightarrow> int \<Rightarrow> f64" where
  "pcm_16le_flt U n = fp_mul U (fp_of_int U n) inv16f"

definition pcm_24_flt :: "fpu \<Rightarrow> int \<Rightarrow> f64" where
  "pcm_24_flt U n = fp_mul U (fp_of_int U n) inv24f"

definition pcm_32_flt :: "fpu \<Rightarrow> int \<Rightarrow> f64" where
  "pcm_32_flt U n = fp_mul U (fp_of_int U n) inv32f"

definition pcm_limf :: "fpu \<Rightarrow> f64 \<Rightarrow> f64" where
  "pcm_limf U d = (if fp_lt U FP_1 d then FP_1 else if fp_lt U d FP_M1 then FP_M1 else d)"

section \<open>Little-endian integers\<close>

fun le_val :: "bytes \<Rightarrow> int" where
  "le_val [] = 0"
| "le_val (b # bs) = uint b + 256 * le_val bs"

definition le_sval :: "bytes \<Rightarrow> int" where
  "le_sval bs = (let v = le_val bs; m = 256 ^ length bs in if m \<le> 2 * v then v - m else v)"

text \<open>The \<open>n\<close> low bytes of an integer; what does not fit is cut off.\<close>
fun le_put :: "nat \<Rightarrow> int \<Rightarrow> bytes" where
  "le_put 0 v = []"
| "le_put (Suc n) v = word_of_int v # le_put n (v div 256)"

definition int_ltoh24s :: "bytes \<Rightarrow> int" where
  "int_ltoh24s b =
     (let n = (ucast (b ! 2) :: u32) * 0x10000 + ucast (b ! 1) * 0x100 + ucast (b ! 0)
      in sint (if n AND 0x00800000 \<noteq> 0 then n OR 0xff000000 else n))"

definition int_htol24 :: "int \<Rightarrow> bytes" where
  "int_htol24 n = le_put 3 n"

text \<open>C division: rounds towards zero.\<close>
definition cdiv :: "int \<Rightarrow> int \<Rightarrow> int" where
  "cdiv a b = (if a < 0 then - ((- a) div b) else a div b)"

abbreviation f32_of :: "bytes \<Rightarrow> f32" where "f32_of b \<equiv> word_of_int (le_val b)"
abbreviation f64_of :: "bytes \<Rightarrow> f64" where "f64_of b \<equiv> word_of_int (le_val b)"
abbreviation put_f32 :: "f32 \<Rightarrow> bytes" where "put_f32 f \<equiv> le_put 4 (uint f)"
abbreviation put_f64 :: "f64 \<Rightarrow> bytes" where "put_f64 f \<equiv> le_put 8 (uint f)"

section \<open>One sample\<close>

definition pcm_bits :: "u16 \<Rightarrow> nat" where
  "pcm_bits fmt = unat (fmt AND 0xff)"

definition pcm_size :: "u16 \<Rightarrow> nat \<Rightarrow> nat" where
  "pcm_size fmt channels = pcm_bits fmt div 8 * channels"

text \<open>The bodies of the loops of \<open>pcm_convert\<close>, by input format; \<open>None\<close>: not supported.\<close>

definition conv_8 :: "u16 \<Rightarrow> (bytes \<Rightarrow> bytes) option" where
  "conv_8 ofmt =
     (if ofmt = PHI_PCM_8 then Some (\<lambda>b. b)
      else if ofmt = PHI_PCM_16 then Some (\<lambda>b. le_put 2 (le_sval b * 0x100))
      else None)"

definition conv_16 :: "fpu \<Rightarrow> u16 \<Rightarrow> (bytes \<Rightarrow> bytes) option" where
  "conv_16 U ofmt =
     (if ofmt = PHI_PCM_8 then Some (\<lambda>b. le_put 1 (cdiv (le_sval b) 0x100))
      else if ofmt = PHI_PCM_16 then Some (\<lambda>b. b)
      else if ofmt = PHI_PCM_24 then Some (\<lambda>b. int_htol24 (le_sval b * 0x100))
      else if ofmt = PHI_PCM_24_4 then Some (\<lambda>b. 0 # int_htol24 (le_sval b * 0x100))
      else if ofmt = PHI_PCM_32 then Some (\<lambda>b. le_put 4 (le_sval b * 0x10000))
      else if ofmt = PHI_PCM_FLOAT32 then Some (\<lambda>b. put_f32 (fp_narrow U (pcm_16le_flt U (le_sval b))))
      else if ofmt = PHI_PCM_FLOAT64 then Some (\<lambda>b. put_f64 (pcm_16le_flt U (le_sval b)))
      else None)"

text \<open>\<open>ffint_le_cpu24_ptr\<close> reads three bytes as an unsigned number.\<close>
definition conv_24 :: "fpu \<Rightarrow> u16 \<Rightarrow> (bytes \<Rightarrow> bytes) option" where
  "conv_24 U ofmt =
     (if ofmt = PHI_PCM_16 then Some (\<lambda>b. le_put 2 (le_val b div 0x100))
      else if ofmt = PHI_PCM_24 then Some (\<lambda>b. b)
      else if ofmt = PHI_PCM_24_4 then Some (\<lambda>b. 0 # b)
      else if ofmt = PHI_PCM_32 then Some (\<lambda>b. le_put 4 (le_val b * 0x100))
      else if ofmt = PHI_PCM_FLOAT32 then Some (\<lambda>b. put_f32 (fp_narrow U (pcm_24_flt U (int_ltoh24s b))))
      else if ofmt = PHI_PCM_FLOAT64 then Some (\<lambda>b. put_f64 (pcm_24_flt U (int_ltoh24s b)))
      else None)"

definition conv_32 :: "fpu \<Rightarrow> u16 \<Rightarrow> (bytes \<Rightarrow> bytes) option" where
  "conv_32 U ofmt =
     (if ofmt = PHI_PCM_16 then Some (\<lambda>b. le_put 2 (le_sval b))
      else if ofmt = PHI_PCM_24 then Some (\<lambda>b. int_htol24 (cdiv (le_sval b) 0x100))
      else if ofmt = PHI_PCM_24_4 then Some (\<lambda>b. 0 # int_htol24 (cdiv (le_sval b) 0x100))
      else if ofmt = PHI_PCM_32 then Some (\<lambda>b. b)
      else if ofmt = PHI_PCM_FLOAT32 then Some (\<lambda>b. put_f32 (fp_narrow U (pcm_32_flt U (le_sval b))))
      else None)"

definition conv_f32 :: "fpu \<Rightarrow> u16 \<Rightarrow> (bytes \<Rightarrow> bytes) option" where
  "conv_f32 U ofmt =
     (if ofmt = PHI_PCM_16 then Some (\<lambda>b. le_put 2 (pcm_flt_16le U (fp_widen U (f32_of b))))
      else if ofmt = PHI_PCM_24 then Some (\<lambda>b. int_htol24 (pcm_flt_24 U (fp_widen U (f32_of b))))
      else if ofmt = PHI_PCM_24_4 then Some (\<lambda>b. 0 # int_htol24 (pcm_flt_24 U (fp_widen U (f32_of b))))
      else if ofmt = PHI_PCM_32 then Some (\<lambda>b. le_put 4 (pcm_flt_32 U (fp_widen U (f32_of b))))
      else if ofmt = PHI_PCM_FLOAT32 then Some (\<lambda>b. b)
      else if ofmt = PHI_PCM_FLOAT64 then Some (\<lambda>b. put_f64 (fp_widen U (f32_of b)))
      else None)"

definition conv_f64 :: "fpu \<Rightarrow> u16 \<Rightarrow> (bytes \<Rightarrow> bytes) option" where
  "conv_f64 U ofmt =
     (if ofmt = PHI_PCM_16 then Some (\<lambda>b. le_put 2 (pcm_flt_16le U (f64_of b)))
      else if ofmt = PHI_PCM_24 then Some (\<lambda>b. int_htol24 (pcm_flt_24 U (f64_of b)))
      else if ofmt = PHI_PCM_32 then Some (\<lambda>b. le_put 4 (pcm_flt_32 U (f64_of b)))
      else if ofmt = PHI_PCM_FLOAT32 then Some (\<lambda>b. put_f32 (fp_narrow U (f64_of b)))
      else if ofmt = PHI_PCM_FLOAT64 then Some (\<lambda>b. b)
      else None)"

definition conv_sample :: "fpu \<Rightarrow> u16 \<Rightarrow> u16 \<Rightarrow> (bytes \<Rightarrow> bytes) option" where
  "conv_sample U ifmt ofmt =
     (if ifmt = PHI_PCM_8 then conv_8 ofmt
      else if ifmt = PHI_PCM_16 then conv_16 U ofmt
      else if ifmt = PHI_PCM_24 then conv_24 U ofmt
      else if ifmt = PHI_PCM_32 then conv_32 U ofmt
      else if ifmt = PHI_PCM_FLOAT32 then conv_f32 U ofmt
      else if ifmt = PHI_PCM_FLOAT64 then conv_f64 U ofmt
      else None)"

section \<open>Buffers and planes\<close>

type_synonym arena = "bytes list"
type_synonym plane = "nat \<times> nat"

definition mem_read :: "arena \<Rightarrow> plane \<Rightarrow> nat \<Rightarrow> nat \<Rightarrow> bytes option" where
  "mem_read m p off n =
     (case p of (b, base) \<Rightarrow>
        if b < length m \<and> base + off + n \<le> length (m ! b)
        then Some (take n (drop (base + off) (m ! b))) else None)"

definition mem_write :: "arena \<Rightarrow> plane \<Rightarrow> nat \<Rightarrow> bytes \<Rightarrow> arena option" where
  "mem_write m p off d =
     (case p of (b, base) \<Rightarrow>
        if b < length m then map_option (\<lambda>x. m[b := x]) (mem_copy (m ! b) (base + off) d) else None)"

definition pcm_setni :: "plane \<Rightarrow> u16 \<Rightarrow> nat \<Rightarrow> plane list" where
  "pcm_setni p fmt nch = map (\<lambda>i. (fst p, snd p + i * pcm_bits fmt div 8)) [0..<nch]"

text \<open>The two nested loops: channel by channel, sample by sample.\<close>
fun conv_samples ::
    "(bytes \<Rightarrow> bytes) \<Rightarrow> nat \<Rightarrow> nat \<Rightarrow> arena \<Rightarrow> plane \<Rightarrow> plane \<Rightarrow> nat \<Rightarrow> nat \<Rightarrow> nat list \<Rightarrow> arena \<Rightarrow> arena option" where
  "conv_samples f isz osz im ip opl istep ostep [] om = Some om"
| "conv_samples f isz osz im ip opl istep ostep (i # is) om =
     (case mem_read im ip (i * istep * isz) isz of
        None \<Rightarrow> None
      | Some b \<Rightarrow>
          (case mem_write om opl (i * ostep * osz) (f b) of
             None \<Rightarrow> None
           | Some om1 \<Rightarrow> conv_samples f isz osz im ip opl istep ostep is om1))"

fun conv_channels ::
    "(bytes \<Rightarrow> bytes) \<Rightarrow> nat \<Rightarrow> nat \<Rightarrow> arena \<Rightarrow> plane list \<Rightarrow> plane list \<Rightarrow> nat \<Rightarrow> nat \<Rightarrow> nat \<Rightarrow> nat list \<Rightarrow> arena
     \<Rightarrow> arena option" where
  "conv_channels f isz osz im ips ops istep ostep samples [] om = Some om"
| "conv_channels f isz osz im ips ops istep ostep samples (c # cs) om =
     (if length ips \<le> c \<or> length ops \<le> c then None
      else case conv_samples f isz osz im (ips ! c) (ops ! c) istep ostep [0..<samples] om of
        None \<Rightarrow> None
      | Some om1 \<Rightarrow> conv_channels f isz osz im ips ops istep ostep samples cs om1)"

section \<open>Mixing channels\<close>

text \<open>Bits 0..7: FL, FR, FC, LFE, BL, BR, SL, SR.\<close>
definition chan_mask :: "nat \<Rightarrow> u32" where
  "chan_mask channels =
     (if channels = 1 then 0x04
      else if channels = 2 then 0x03
      else if channels = 6 then 0x3f
      else if channels = 8 then 0xff
      else -1)"

type_synonym levels = "nat \<Rightarrow> nat \<Rightarrow> f64"

definition lvl :: "nat \<Rightarrow> nat \<Rightarrow> f64 \<Rightarrow> levels \<Rightarrow> levels" where
  "lvl oc ic v L = L(oc := (L oc)(ic := v))"

definition norm_level :: "fpu \<Rightarrow> nat \<Rightarrow> levels \<Rightarrow> levels" where
  "norm_level U oc L =
     (let total = foldl (fp_add U) FP_0 (map (L oc) [0..<8])
      in if \<not> fp_eq U total FP_0
         then L(oc := (\<lambda>ic. if ic < 8 then fp_div U (L oc ic) total else L oc ic)) else L)"

text \<open>\<open>chan_fill_gain_levels\<close>; \<open>None\<close>: -1.\<close>
definition chan_fill_gain_levels :: "fpu \<Rightarrow> levels \<Rightarrow> u32 \<Rightarrow> u32 \<Rightarrow> levels option" where
  "chan_fill_gain_levels U L0 imask omask =
     (let equal = imask AND omask;
          unused = imask AND NOT omask;
          h = fp_mul U SQRT1_2 SQRT1_2;
          L1 = fold (\<lambda>c L. if bit equal c then lvl c c FP_1 L else L) [0..<8] L0
      in Option.bind
           (if bit unused 0
            then (if bit omask 2 then Some (lvl 2 1 SQRT1_2 (lvl 2 0 SQRT1_2 L1)) else None) else Some L1) (\<lambda>L2.
         Option.bind
           (if bit unused 2
            then (if bit omask 0 then Some (lvl 1 2 SQRT1_2 (lvl 0 2 SQRT1_2 L2)) else None) else Some L2) (\<lambda>L3.
         Option.bind
           (if bit unused 4
            then (if bit omask 0 then Some (lvl 1 5 SQRT1_2 (lvl 0 4 SQRT1_2 L3))
                  else if bit omask 2 then Some (lvl 2 5 h (lvl 2 4 h L3)) else None) else Some L3) (\<lambda>L4.
         Option.bind
           (if bit unused 6
            then (if bit omask 0 then Some (lvl 1 7 SQRT1_2 (lvl 0 6 SQRT1_2 L4))
                  else if bit omask 2 then Some (lvl 2 7 h (lvl 2 6 h L4)) else None) else Some L4) (\<lambda>L5.
         Some (fold (\<lambda>oc L. if bit omask oc then norm_level U oc L else L) [0..<8] L5))))))"

text \<open>A sample as \<open>double\<close>, in the four formats the mixer reads.\<close>
definition mix_in :: "fpu \<Rightarrow> u16 \<Rightarrow> bytes \<Rightarrow> f64 option" where
  "mix_in U fmt b =
     (if fmt = PHI_PCM_16 then Some (pcm_16le_flt U (le_sval b))
      else if fmt = PHI_PCM_24 then Some (pcm_24_flt U (int_ltoh24s b))
      else if fmt = PHI_PCM_32 then Some (pcm_32_flt U (le_sval b))
      else if fmt = PHI_PCM_FLOAT32 then Some (fp_widen U (f32_of b))
      else None)"

text \<open>The inner loop over the input channels; \<open>icstm\<close> counts the channels of the stream.\<close>
fun mix_sum ::
    "fpu \<Rightarrow> u16 \<Rightarrow> arena \<Rightarrow> plane list \<Rightarrow> nat \<Rightarrow> nat \<Rightarrow> (nat \<Rightarrow> f64) \<Rightarrow> u32 \<Rightarrow> nat list \<Rightarrow> nat \<Rightarrow> f64 \<Rightarrow> f64 option" where
  "mix_sum U fmt im ips istep i lv imask [] icstm acc = Some acc"
| "mix_sum U fmt im ips istep i lv imask (ic # ics) icstm acc =
     (if \<not> bit imask ic then mix_sum U fmt im ips istep i lv imask ics icstm acc
      else if length ips \<le> icstm then None
      else case mem_read im (ips ! icstm) (i * istep * (pcm_bits fmt div 8)) (pcm_bits fmt div 8) of
        None \<Rightarrow> None
      | Some b \<Rightarrow>
          (case mix_in U fmt b of
             None \<Rightarrow> None
           | Some x \<Rightarrow> mix_sum U fmt im ips istep i lv imask ics (Suc icstm) (fp_add U acc (fp_mul U x (lv ic)))))"

fun mix_samples ::
    "fpu \<Rightarrow> u16 \<Rightarrow> arena \<Rightarrow> plane list \<Rightarrow> nat \<Rightarrow> (nat \<Rightarrow> f64) \<Rightarrow> u32 \<Rightarrow> nat \<Rightarrow> nat \<Rightarrow> nat list \<Rightarrow> arena \<Rightarrow> arena option" where
  "mix_samples U fmt im ips istep lv imask ocstm ostep [] om = Some om"
| "mix_samples U fmt im ips istep lv imask ocstm ostep (i # is) om =
     (case mix_sum U fmt im ips istep i lv imask [0..<8] 0 FP_0 of
        None \<Rightarrow> None
      | Some x \<Rightarrow>
          (case mem_write om (0, 0) ((ocstm + i * ostep) * 4) (put_f32 (fp_narrow U (pcm_limf U x))) of
             None \<Rightarrow> None
           | Some om1 \<Rightarrow> mix_samples U fmt im ips istep lv imask ocstm ostep is om1))"

text \<open>
  The loop over the output channels. The branch for 24-bit input counts every channel of the
  mask, the others only those the output has.
\<close>
fun mix_channels ::
    "fpu \<Rightarrow> u16 \<Rightarrow> arena \<Rightarrow> plane list \<Rightarrow> nat \<Rightarrow> levels \<Rightarrow> u32 \<Rightarrow> u32 \<Rightarrow> nat \<Rightarrow> nat \<Rightarrow> nat list \<Rightarrow> nat \<Rightarrow> arena
     \<Rightarrow> arena option" where
  "mix_channels U fmt im ips istep L imask omask ochan samples [] ocstm om = Some om"
| "mix_channels U fmt im ips istep L imask omask ochan samples (oc # ocs) ocstm om =
     (if bit omask oc then
        (case mix_samples U fmt im ips istep (L oc) imask ocstm ochan [0..<samples] om of
           None \<Rightarrow> None
         | Some om1 \<Rightarrow>
             if Suc ocstm = ochan then Some om1
             else mix_channels U fmt im ips istep L imask omask ochan samples ocs (Suc ocstm) om1)
      else if fmt = PHI_PCM_24 then
        (if Suc ocstm = ochan then Some om
         else mix_channels U fmt im ips istep L imask omask ochan samples ocs (Suc ocstm) om)
      else mix_channels U fmt im ips istep L imask omask ochan samples ocs ocstm om)"

definition pcm_chan_mix ::
    "fpu \<Rightarrow> nat \<Rightarrow> bytes \<Rightarrow> phi_af \<Rightarrow> arena \<Rightarrow> nat \<Rightarrow> (int \<times> bytes) option" where
  "pcm_chan_mix U ochan odata inpcm im samples =
     (let imask = chan_mask (unat (af_channels inpcm)); omask = chan_mask ochan in
      if imask = 0 \<or> omask = 0 then Some (-1, odata)
      else case chan_fill_gain_levels U (\<lambda>_ _. FP_0) imask omask of
        None \<Rightarrow> Some (-1, odata)
      | Some L \<Rightarrow>
          (let nch = unat (af_channels inpcm);
               ips = (if af_interleaved inpcm then pcm_setni (0, 0) (af_format inpcm) nch
                      else map (\<lambda>c. (c, 0)) [0..<length im]);
               istep = (if af_interleaved inpcm then nch else 1)
           in if af_format inpcm \<notin> {PHI_PCM_16, PHI_PCM_24, PHI_PCM_32, PHI_PCM_FLOAT32} then Some (-1, odata)
              else map_option (\<lambda>om. (0, om ! 0))
                (mix_channels U (af_format inpcm) im ips istep L imask omask ochan samples [0..<8] 0 [odata])))"

section \<open>\<open>pcm_convert\<close>\<close>

text \<open>
  The source of the samples after the channel selection: the memory, the planes (for interleaved
  data the single pointer to the block), the step, the layout, the format and the number of channels.
\<close>
record pcm_src =
  ps_mem :: arena
  ps_planes :: "plane list"
  ps_step :: nat
  ps_ileaved :: bool
  ps_fmt :: u16
  ps_nch :: nat

definition in_planes :: "bool \<Rightarrow> arena \<Rightarrow> plane list" where
  "in_planes il m = (if il then [(0, 0)] else map (\<lambda>c. (c, 0)) [0..<length m])"

text \<open>
  The channel conversion; \<open>None\<close> is a memory fault, \<open>Some None\<close> the jump to \<open>done\<close> with -1. \<open>tmp\<close> is
  what \<open>ffmem_alloc\<close> returns for the mix.
\<close>
definition pcm_select ::
    "fpu \<Rightarrow> (nat \<Rightarrow> bytes option) \<Rightarrow> phi_af \<Rightarrow> phi_af \<Rightarrow> arena \<Rightarrow> nat \<Rightarrow> pcm_src option option" where
  "pcm_select U tmp outpcm inpcm im samples =
     (let s0 = \<lparr>ps_mem = im, ps_planes = in_planes (af_interleaved inpcm) im, ps_step = 1,
                ps_ileaved = af_interleaved inpcm, ps_fmt = af_format inpcm,
                ps_nch = unat (af_channels inpcm)\<rparr>
      in if af_channels inpcm = af_channels outpcm then Some (Some s0)
         else
           (let nch = unat (af_channels outpcm AND 0x0f); hi = af_channels outpcm AND NOT 0x0f in
            if nch = 1 \<and> hi \<noteq> 0 then
              (let ch = unat (drop_bit 4 hi) - 1 in
               if ch > 1 then Some None
               else if \<not> af_interleaved inpcm
               then Some (Some (s0\<lparr>ps_planes := drop ch (ps_planes s0), ps_nch := nch\<rparr>))
               else Some (Some (s0\<lparr>ps_planes := [(0, ch * pcm_bits (af_format inpcm) div 8)],
                      ps_step := unat (af_channels inpcm), ps_ileaved := False, ps_nch := nch\<rparr>)))
            else if hi = 0 then
              (case tmp (samples * nch * 4) of
                 None \<Rightarrow> Some None
               | Some t \<Rightarrow>
                   (case pcm_chan_mix U nch t inpcm im samples of
                      None \<Rightarrow> None
                    | Some (r, t1) \<Rightarrow>
                        if r \<noteq> 0 then Some None
                        else if af_interleaved outpcm
                        then Some (Some \<lparr>ps_mem = [t1], ps_planes = [(0, 0)], ps_step = 1, ps_ileaved = True,
                               ps_fmt = PHI_PCM_FLOAT32, ps_nch = nch\<rparr>)
                        else Some (Some \<lparr>ps_mem = [t1], ps_planes = pcm_setni (0, 0) PHI_PCM_FLOAT32 nch,
                               ps_step = nch, ps_ileaved = False, ps_fmt = PHI_PCM_FLOAT32, ps_nch = nch\<rparr>)))
            else Some None))"

fun copy_planes :: "arena \<Rightarrow> plane list \<Rightarrow> plane list \<Rightarrow> nat \<Rightarrow> nat list \<Rightarrow> arena \<Rightarrow> arena option" where
  "copy_planes im ips ops n [] om = Some om"
| "copy_planes im ips ops n (c # cs) om =
     (if length ips \<le> c \<or> length ops \<le> c then None
      else case mem_read im (ips ! c) 0 n of
        None \<Rightarrow> None
      | Some d \<Rightarrow> Option.bind (mem_write om (ops ! c) 0 d) (copy_planes im ips ops n cs))"

text \<open>The direct copy of equal formats; \<open>None\<close>: the layouts differ and the loops are needed.\<close>
definition pcm_direct :: "phi_af \<Rightarrow> arena \<Rightarrow> pcm_src \<Rightarrow> nat \<Rightarrow> arena option option" where
  "pcm_direct outpcm om s samples =
     (if \<not> (ps_fmt s = af_format outpcm \<and> ps_step s = 1) then None
      else
        (let il = (if ps_ileaved s \<noteq> af_interleaved outpcm \<and> ps_nch s = 1
                   then af_interleaved outpcm else ps_ileaved s)
         in if il \<noteq> af_interleaved outpcm then None
            else if samples = 0 then Some (Some om)
            else if il
            then Some (if ps_planes s = [] then None
                       else Option.bind (mem_read (ps_mem s) (ps_planes s ! 0) 0 (samples * pcm_size (ps_fmt s) (ps_nch s)))
                              (mem_write om (0, 0) 0))
            else Some (copy_planes (ps_mem s) (ps_planes s) (map (\<lambda>c. (c, 0)) [0..<length om])
                         (samples * pcm_bits (ps_fmt s) div 8) [0..<ps_nch s] om)))"

definition pcm_loops ::
    "fpu \<Rightarrow> phi_af \<Rightarrow> arena \<Rightarrow> pcm_src \<Rightarrow> nat \<Rightarrow> (int \<times> arena) option" where
  "pcm_loops U outpcm om s samples =
     (let ips = (if ps_ileaved s then pcm_setni (ps_planes s ! 0) (ps_fmt s) (ps_nch s) else ps_planes s);
          istep = (if ps_ileaved s then ps_nch s else ps_step s);
          ops = (if af_interleaved outpcm then pcm_setni (0, 0) (af_format outpcm) (ps_nch s)
                 else map (\<lambda>c. (c, 0)) [0..<length om]);
          ostep = (if af_interleaved outpcm then ps_nch s else 1)
      in case conv_sample U (ps_fmt s) (af_format outpcm) of
           None \<Rightarrow> Some (-1, om)
         | Some f \<Rightarrow>
             map_option (Pair 0)
               (conv_channels f (pcm_bits (ps_fmt s) div 8) (pcm_bits (af_format outpcm) div 8) (ps_mem s)
                  ips ops istep ostep samples [0..<ps_nch s] om))"

definition pcm_convert ::
    "fpu \<Rightarrow> (nat \<Rightarrow> bytes option) \<Rightarrow> phi_af \<Rightarrow> arena \<Rightarrow> phi_af \<Rightarrow> arena \<Rightarrow> nat \<Rightarrow> (int \<times> arena) option" where
  "pcm_convert U tmp outpcm om inpcm im samples =
     (if 8 < af_channels inpcm \<or> 8 < (af_channels outpcm AND 0x0f) then Some (-1, om)
      else if af_rate inpcm \<noteq> af_rate outpcm then Some (-1, om)
      else case pcm_select U tmp outpcm inpcm im samples of
        None \<Rightarrow> None
      | Some None \<Rightarrow> Some (-1, om)
      | Some (Some s) \<Rightarrow>
          (case pcm_direct outpcm om s samples of
             Some r \<Rightarrow> map_option (Pair 0) r
           | None \<Rightarrow> pcm_loops U outpcm om s samples))"

section \<open>Gain and peak\<close>

definition gain_sample :: "fpu \<Rightarrow> u16 \<Rightarrow> f32 \<Rightarrow> (bytes \<Rightarrow> bytes) option" where
  "gain_sample U fmt gain =
     (let g = fp_widen U gain in
      if fmt = PHI_PCM_8
      then Some (\<lambda>b. le_put 1 (pcm_flt_8 U (fp_narrow U (fp_mul U (pcm_8_flt U (le_sval b)) g))))
      else if fmt = PHI_PCM_16 then Some (\<lambda>b. le_put 2 (pcm_flt_16le U (fp_mul U (pcm_16le_flt U (le_sval b)) g)))
      else if fmt = PHI_PCM_24 then Some (\<lambda>b. int_htol24 (pcm_flt_24 U (fp_mul U (pcm_24_flt U (int_ltoh24s b)) g)))
      else if fmt = PHI_PCM_32 then Some (\<lambda>b. le_put 4 (pcm_flt_32 U (fp_mul U (pcm_32_flt U (le_sval b)) g)))
      else if fmt = PHI_PCM_FLOAT32 then Some (\<lambda>b. put_f32 (fp_narrow U (fp_mul U (fp_widen U (f32_of b)) g)))
      else if fmt = PHI_PCM_FLOAT64 then Some (\<lambda>b. put_f64 (fp_mul U (f64_of b) g))
      else None)"

text \<open>\<open>one\<close>: the gain compares equal to 1.\<close>
definition pcm_gain :: "fpu \<Rightarrow> phi_af \<Rightarrow> f32 \<Rightarrow> arena \<Rightarrow> arena \<Rightarrow> nat \<Rightarrow> (int \<times> arena) option" where
  "pcm_gain U pcm gain im om samples =
     (if fp_eq U (fp_widen U gain) FP_1 then Some (0, om)
      else if 8 < af_channels pcm then Some (-1, om)
      else
        (let nch = unat (af_channels pcm); il = af_interleaved pcm; sz = pcm_bits (af_format pcm) div 8;
             step = (if il then nch else 1);
             pl = (\<lambda>m. if il then pcm_setni (0, 0) (af_format pcm) nch else map (\<lambda>c. (c, 0)) [0..<length m])
         in case gain_sample U (af_format pcm) gain of
              None \<Rightarrow> Some (-1, om)
            | Some f \<Rightarrow>
                map_option (Pair 0) (conv_channels f sz sz im (pl im) (pl om) step step samples [0..<nch] om)))"

text \<open>The samples a peak is taken over, in the order of the loops.\<close>
definition pcm_samples_of :: "phi_af \<Rightarrow> arena \<Rightarrow> nat \<Rightarrow> bytes option list" where
  "pcm_samples_of fmt m samples =
     (let nch = unat (af_channels fmt); sz = pcm_bits (af_format fmt) div 8;
          step = (if af_interleaved fmt then nch else 1);
          pl = (if af_interleaved fmt then pcm_setni (0, 0) (af_format fmt) nch else map (\<lambda>c. (c, 0)) [0..<length m])
      in concat (map (\<lambda>c. map (\<lambda>i. if c < length pl then mem_read m (pl ! c) (i * step * sz) sz else None)
                                [0..<samples]) [0..<nch]))"

fun all_some :: "'a option list \<Rightarrow> 'a list option" where
  "all_some [] = Some []"
| "all_some (None # xs) = None"
| "all_some (Some x # xs) = map_option (Cons x) (all_some xs)"

definition max_from :: "int \<Rightarrow> int list \<Rightarrow> int" where
  "max_from m xs = foldl (\<lambda>m x. if m < x then x else m) m xs"

text \<open>\<open>pcm_maxpeak\<close>: \<open>Inl\<close> the failure 1, \<open>Inr\<close> the peak.\<close>
definition pcm_maxpeak :: "fpu \<Rightarrow> phi_af \<Rightarrow> arena \<Rightarrow> nat \<Rightarrow> (int + f64) option" where
  "pcm_maxpeak U fmt m samples =
     (if 8 < af_channels fmt then Some (Inl 1)
      else if af_format fmt = PHI_PCM_16
      then map_option (\<lambda>bs. Inr (pcm_16le_flt U (max_from 0 (map (\<lambda>b. \<bar>le_sval b\<bar>) bs)))) (all_some (pcm_samples_of fmt m samples))
      else if af_format fmt = PHI_PCM_24
      then map_option (\<lambda>bs. Inr (pcm_24_flt U (max_from 0 (map (\<lambda>b. \<bar>int_ltoh24s b\<bar>) bs)))) (all_some (pcm_samples_of fmt m samples))
      else if af_format fmt = PHI_PCM_32
      then map_option (\<lambda>bs. Inr (pcm_32_flt U (max_from 0 (map (\<lambda>b. \<bar>le_sval b\<bar>) bs)))) (all_some (pcm_samples_of fmt m samples))
      else if af_format fmt = PHI_PCM_FLOAT32
      then map_option (\<lambda>bs. Inr (foldl (\<lambda>mx b. if fp_lt U mx (fp_abs U (fp_widen U (f32_of b)))
                                    then fp_abs U (fp_widen U (f32_of b)) else mx) FP_0 bs))
             (all_some (pcm_samples_of fmt m samples))
      else Some (Inl 1))"

section \<open>Encoding of integers\<close>

lemma length_le_put [simp]: "length (le_put n v) = n"
  by (induction n arbitrary: v) auto

lemma le_val_put: "le_val (le_put n v) = v mod 256 ^ n"
proof (induction n arbitrary: v)
  case (Suc n)
  have "uint (word_of_int v :: u8) = v mod 256" by (simp add: unsigned_of_int take_bit_eq_mod)
  then have "le_val (le_put (Suc n) v) = v mod 256 + 256 * ((v div 256) mod 256 ^ n)"
    using Suc by simp
  also have "\<dots> = v mod (256 * 256 ^ n)" by (simp add: zmod_zmult2_eq)
  finally show ?case by simp
qed simp

lemma le_val_bounds: "0 \<le> le_val bs" "le_val bs < 256 ^ length bs"
proof (induction bs)
  case (Cons b bs)
  have b: "0 \<le> uint b" "uint b < 256" using uint_lt2p [of b] by simp_all
  { case 1 show ?case using b Cons by simp }
  { case 2 show ?case using b Cons by simp }
qed simp_all

lemma le_put_val: "le_put (length bs) (le_val bs) = bs"
proof (induction bs)
  case (Cons b bs)
  have b: "0 \<le> uint b" "uint b < 256" using uint_lt2p [of b] by simp_all
  have "(uint b + 256 * le_val bs) div 256 = le_val bs" using b by simp
  moreover have "word_of_int (uint b + 256 * le_val bs) = b"
  proof -
    have "(256 :: u8) = 0" by simp
    then have "256 * (word_of_int (le_val bs) :: u8) = 0" by (metis mult_zero_left)
    then show ?thesis by simp
  qed
  ultimately show ?case using Cons by simp
qed simp

lemma le_put_mod: "le_put n (v mod 256 ^ n) = le_put n v"
  using le_put_val [of "le_put n v"] by (simp add: le_val_put)

lemma le_put_cong: "v mod 256 ^ n = w mod 256 ^ n \<Longrightarrow> le_put n v = le_put n w"
  by (metis le_put_mod)

lemma le_sval_mod: "le_sval bs mod 256 ^ length bs = le_val bs"
  using le_val_bounds [of bs] by (auto simp: le_sval_def Let_def minus_mod_self2)

lemma le_put_sval: "le_put (length bs) (le_sval bs) = bs"
  using le_put_cong [of "le_sval bs" "length bs" "le_val bs"] le_val_bounds [of bs]
  by (simp add: le_sval_mod le_put_val)

lemma le_sval_put:
  assumes "- (256 ^ n) \<le> 2 * v" and "2 * v < 256 ^ n"
  shows "le_sval (le_put n v) = v"
proof (cases "v < 0")
  case True
  have "v mod 256 ^ n = (v + 256 ^ n) mod 256 ^ n" by simp
  also have "\<dots> = v + 256 ^ n" using True assms by (intro mod_pos_pos_trivial) auto
  finally have "v mod 256 ^ n = v + 256 ^ n" .
  then show ?thesis using True assms by (simp add: le_sval_def le_val_put)
next
  case False
  then have "v mod 256 ^ n = v" using assms by simp
  then show ?thesis using assms by (simp add: le_sval_def le_val_put)
qed

lemma le_sval_bounds: "0 < length bs \<Longrightarrow> - (256 ^ length bs) \<le> 2 * le_sval bs \<and> 2 * le_sval bs < 256 ^ length bs"
  using le_val_bounds [of bs] by (auto simp: le_sval_def Let_def)

lemma cdiv_mult: "0 < b \<Longrightarrow> cdiv (a * b) b = a"
proof -
  assume b: "0 < b"
  have "- (a * b) div b = - a" using b nonzero_mult_div_cancel_right [of b "- a"] by simp
  then show ?thesis using b by (auto simp: cdiv_def)
qed

lemma pcm_bits_simps [simp]:
  "pcm_bits PHI_PCM_8 = 8" "pcm_bits PHI_PCM_16 = 16" "pcm_bits PHI_PCM_24 = 24" "pcm_bits PHI_PCM_32 = 32"
  "pcm_bits PHI_PCM_24_4 = 32" "pcm_bits PHI_PCM_FLOAT32 = 32" "pcm_bits PHI_PCM_FLOAT64 = 64"
  by (simp_all add: pcm_bits_def PHI_PCM_8_def PHI_PCM_16_def PHI_PCM_24_def PHI_PCM_32_def PHI_PCM_24_4_def
      PHI_PCM_FLOAT32_def PHI_PCM_FLOAT64_def)

lemmas pcm_fmt_defs = PHI_PCM_8_def PHI_PCM_16_def PHI_PCM_24_def PHI_PCM_32_def PHI_PCM_24_4_def
  PHI_PCM_FLOAT32_def PHI_PCM_FLOAT64_def

lemmas conv_defs = conv_sample_def conv_8_def conv_16_def conv_24_def conv_32_def conv_f32_def conv_f64_def

lemma conv_8_16_8: "length b = 1 \<Longrightarrow> le_put 1 (cdiv (le_sval (le_put 2 (le_sval b * 0x100))) 0x100) = b"
proof -
  assume l: "length b = 1"
  then have "- 256 \<le> 2 * le_sval b \<and> 2 * le_sval b < 256" using le_sval_bounds [of b] by auto
  then have "le_sval (le_put 2 (le_sval b * 0x100)) = le_sval b * 0x100" by (intro le_sval_put) auto
  then show ?thesis using le_put_sval [of b] l by (simp only: cdiv_mult)
qed

lemma conv_16_24_16: "length b = 2 \<Longrightarrow> le_put 2 (le_val (le_put 3 (le_sval b * 0x100)) div 0x100) = b"
proof -
  assume l: "length b = 2"
  have "(le_sval b * 0x100) mod (256 ^ 3) div 0x100 = le_sval b mod 256 ^ 2"
  proof -
    have "256 * (le_sval b mod 65536) = (256 * le_sval b) mod (256 * 65536)" by (rule mult_mod_right)
    then have "(le_sval b * 256) mod 16777216 = (le_sval b mod 65536) * 256" by (simp add: mult.commute)
    then show ?thesis by simp
  qed
  then have "le_put 2 (le_val (le_put 3 (le_sval b * 0x100)) div 0x100) = le_put 2 (le_sval b mod 256 ^ 2)"
    by (simp only: le_val_put)
  also have "\<dots> = b" using le_put_sval [of b] l le_put_mod [of 2 "le_sval b"] by simp
  finally show ?thesis .
qed

lemma conv_24_32_24: "length b = 3 \<Longrightarrow> int_htol24 (cdiv (le_sval (le_put 4 (le_val b * 0x100))) 0x100) = b"
proof -
  assume l: "length b = 3"
  have b: "0 \<le> le_val b" "le_val b < 256 ^ 3" using le_val_bounds [of b] l by simp_all
  have v: "le_val (le_put 4 (le_val b * 0x100)) = le_val b * 0x100" using b by (simp add: le_val_put)
  obtain k where k: "le_sval (le_put 4 (le_val b * 0x100)) = (le_val b - k * 256 ^ 3) * 0x100"
  proof (cases "256 ^ 4 \<le> 2 * (le_val b * 0x100)")
    case True
    then show thesis using v by (intro that [of 1]) (simp add: le_sval_def)
  next
    case False
    then show thesis using v by (intro that [of 0]) (simp add: le_sval_def)
  qed
  have "cdiv (le_sval (le_put 4 (le_val b * 0x100))) 0x100 = le_val b - k * 256 ^ 3"
    unfolding k by (rule cdiv_mult) simp
  moreover have "(le_val b - k * 256 ^ 3) mod 256 ^ 3 = le_val b mod 256 ^ 3"
    by (simp only: mod_diff_eq [symmetric, of "le_val b"] mod_mult_self2_is_0 diff_zero mod_mod_trivial)
  then have "le_put 3 (le_val b - k * 256 ^ 3) = le_put 3 (le_val b)" by (rule le_put_cong)
  ultimately show ?thesis using le_put_val [of b] l by (simp add: int_htol24_def)
qed

text \<open>
  Property C16: widening integer samples loses nothing: a sample converted from 8 to 16, from 16 to 24
  or from 24 to 32 bits and back is the same sample, for every sample value.
\<close>

theorem pcm_widen_roundtrip:
  assumes "(a, c) \<in> {(PHI_PCM_8, PHI_PCM_16), (PHI_PCM_16, PHI_PCM_24), (PHI_PCM_24, PHI_PCM_32)}"
    and "length b = pcm_bits a div 8"
  shows "\<exists>f g. conv_sample U a c = Some f \<and> conv_sample U c a = Some g \<and> g (f b) = b"
  using assms conv_8_16_8 [of b] conv_16_24_16 [of b] conv_24_32_24 [of b]
  by (auto simp: conv_defs int_htol24_def pcm_bits_def pcm_fmt_defs)

theorem pcm_widen_roundtrip_witness:
  "\<forall>U. \<exists>f g. conv_sample U PHI_PCM_16 PHI_PCM_24 = Some f \<and> conv_sample U PHI_PCM_24 PHI_PCM_16 = Some g
     \<and> g (f [0x34, 0x92]) = [0x34, 0x92]"
  by (intro allI pcm_widen_roundtrip) simp_all

text \<open>
  Narrowing from 32 to 16 bits keeps the low half of the sample instead of the high
  half: a 16-bit sample that was widened to 32 bits comes back as zero, whatever it was.
\<close>

theorem pcm_32_to_16_keeps_low_half:
  assumes "length b = 2"
  shows "\<exists>f g. conv_sample U PHI_PCM_16 PHI_PCM_32 = Some f \<and> conv_sample U PHI_PCM_32 PHI_PCM_16 = Some g
     \<and> g (f b) = [0, 0]"
proof -
  have "le_put 2 (le_sval (le_put 4 (le_sval b * 0x10000))) = [0, 0]"
  proof -
    have bd: "- (256 ^ 2) \<le> 2 * le_sval b \<and> 2 * le_sval b < 256 ^ 2" using le_sval_bounds [of b] assms by auto
    then have "le_sval (le_put 4 (le_sval b * 0x10000)) = le_sval b * 0x10000" by (intro le_sval_put) auto
    moreover have "le_put 2 (le_sval b * 0x10000) = le_put 2 0" by (rule le_put_cong) simp
    ultimately show ?thesis by (simp add: numeral_2_eq_2)
  qed
  then show ?thesis by (simp add: conv_defs pcm_fmt_defs)
qed

theorem pcm_32_to_16_keeps_low_half_witness:
  "\<forall>U. \<exists>f g. conv_sample U PHI_PCM_16 PHI_PCM_32 = Some f \<and> conv_sample U PHI_PCM_32 PHI_PCM_16 = Some g
     \<and> g (f [0xff, 0x7f]) = [0, 0]"
  by (intro allI pcm_32_to_16_keeps_low_half) simp

section \<open>Samples as independent slots\<close>

text \<open>
  The contract of a memory of slots: a store that succeeds is read back, and it leaves every other
  slot alone.
\<close>
fun wr_all :: "('m \<Rightarrow> 'k \<Rightarrow> 'v \<Rightarrow> 'm option) \<Rightarrow> ('k \<times> 'v) list \<Rightarrow> 'm \<Rightarrow> 'm option" where
  "wr_all wr [] m = Some m"
| "wr_all wr ((k, v) # kvs) m = Option.bind (wr m k v) (wr_all wr kvs)"

locale slot_mem =
  fixes ok :: "'m \<Rightarrow> 'k \<Rightarrow> bool"
    and vok :: "'v \<Rightarrow> bool"
    and rd :: "'m \<Rightarrow> 'k \<Rightarrow> 'v option"
    and wr :: "'m \<Rightarrow> 'k \<Rightarrow> 'v \<Rightarrow> 'm option"
  assumes wr_ok: "ok m k \<Longrightarrow> vok v \<Longrightarrow>
      \<exists>m'. wr m k v = Some m' \<and> rd m' k = Some v \<and> (\<forall>k'. ok m' k' = ok m k')
        \<and> (\<forall>k'. k' \<noteq> k \<longrightarrow> ok m k' \<longrightarrow> rd m' k' = rd m k')"
begin

lemma wr_all_ok:
  "distinct (map fst kvs) \<Longrightarrow> (\<And>k v. (k, v) \<in> set kvs \<Longrightarrow> ok m k \<and> vok v) \<Longrightarrow>
     \<exists>m'. wr_all wr kvs m = Some m' \<and> (\<forall>k'. ok m' k' = ok m k')
       \<and> (\<forall>k v. (k, v) \<in> set kvs \<longrightarrow> rd m' k = Some v)
       \<and> (\<forall>k'. k' \<notin> fst ` set kvs \<longrightarrow> ok m k' \<longrightarrow> rd m' k' = rd m k')"
proof (induction kvs arbitrary: m)
  case (Cons kv kvs)
  obtain k v where kv: "kv = (k, v)" by (cases kv)
  have okk: "ok m k" and vokv: "vok v" using Cons.prems(2) kv by auto
  from wr_ok [OF okk vokv] obtain m1 where 1: "wr m k v = Some m1" "rd m1 k = Some v" "\<forall>k'. ok m1 k' = ok m k'"
    "\<forall>k'. k' \<noteq> k \<longrightarrow> ok m k' \<longrightarrow> rd m1 k' = rd m k'" by blast
  have "\<And>k v. (k, v) \<in> set kvs \<Longrightarrow> ok m1 k \<and> vok v" using Cons.prems(2) 1(3) by auto
  from Cons.IH [OF _ this] Cons.prems(1) obtain m' where 2: "wr_all wr kvs m1 = Some m'"
    "\<forall>k'. ok m' k' = ok m1 k'" "\<forall>k v. (k, v) \<in> set kvs \<longrightarrow> rd m' k = Some v"
    "\<forall>k'. k' \<notin> fst ` set kvs \<longrightarrow> ok m1 k' \<longrightarrow> rd m' k' = rd m1 k'" by auto
  have nk: "k \<notin> fst ` set kvs" using Cons.prems(1) kv by simp
  then have "rd m' k = Some v" using 2(4) 1(2,3) okk by metis
  with 1 2 nk kv show ?case by (intro exI [of _ m']) auto
qed simp

end

text \<open>Where sample \<open>i\<close> of channel \<open>c\<close> is: \<open>il\<close> interleaved, \<open>sz\<close> bytes per sample, \<open>n\<close> channels.\<close>
definition slot_plane :: "bool \<Rightarrow> nat \<Rightarrow> nat \<Rightarrow> plane" where
  "slot_plane il sz c = (if il then (0, c * sz) else (c, 0))"

definition slot_step :: "bool \<Rightarrow> nat \<Rightarrow> nat" where
  "slot_step il n = (if il then n else 1)"

definition slot_off :: "bool \<Rightarrow> nat \<Rightarrow> nat \<Rightarrow> nat \<Rightarrow> nat" where
  "slot_off il sz n i = i * slot_step il n * sz"

definition slot_rd :: "bool \<Rightarrow> nat \<Rightarrow> nat \<Rightarrow> arena \<Rightarrow> nat \<times> nat \<Rightarrow> bytes option" where
  "slot_rd il sz n m k = mem_read m (slot_plane il sz (fst k)) (slot_off il sz n (snd k)) sz"

definition slot_wr :: "bool \<Rightarrow> nat \<Rightarrow> nat \<Rightarrow> arena \<Rightarrow> nat \<times> nat \<Rightarrow> bytes \<Rightarrow> arena option" where
  "slot_wr il sz n m k d = mem_write m (slot_plane il sz (fst k)) (slot_off il sz n (snd k)) d"

text \<open>The buffer and the first byte of a slot, and that the slot lies within its buffer.\<close>
definition slot_buf :: "bool \<Rightarrow> nat \<times> nat \<Rightarrow> nat" where
  "slot_buf il k = (if il then 0 else fst k)"

definition slot_pos :: "bool \<Rightarrow> nat \<Rightarrow> nat \<Rightarrow> nat \<times> nat \<Rightarrow> nat" where
  "slot_pos il sz n k = (if il then fst k + snd k * n else snd k) * sz"

definition slot_ok :: "bool \<Rightarrow> nat \<Rightarrow> nat \<Rightarrow> arena \<Rightarrow> nat \<times> nat \<Rightarrow> bool" where
  "slot_ok il sz n m k \<longleftrightarrow> fst k < n \<and> slot_buf il k < length m
     \<and> slot_pos il sz n k + sz \<le> length (m ! slot_buf il k)"

lemma slot_addr: "fst (slot_plane il sz (fst k)) = slot_buf il k"
  "snd (slot_plane il sz (fst k)) + slot_off il sz n (snd k) = slot_pos il sz n k"
  by (simp_all add: slot_plane_def slot_off_def slot_step_def slot_buf_def slot_pos_def algebra_simps)

lemma slot_rd_ok:
  "slot_ok il sz n m k \<Longrightarrow> slot_rd il sz n m k = Some (take sz (drop (slot_pos il sz n k) (m ! slot_buf il k)))"
  using slot_addr(1) [of il sz k] slot_addr(2) [of il sz k n] by (auto simp: slot_rd_def mem_read_def slot_ok_def split: prod.splits)

lemma slot_wr_ok:
  assumes "slot_ok il sz n m k" and "length d = sz"
  shows "slot_wr il sz n m k d = Some (m[slot_buf il k :=
     take (slot_pos il sz n k) (m ! slot_buf il k) @ d @ drop (slot_pos il sz n k + sz) (m ! slot_buf il k)])"
  using assms slot_addr(1) [of il sz k] slot_addr(2) [of il sz k n]
  by (auto simp: slot_wr_def mem_write_def slot_ok_def mem_copy_Some split: prod.splits)

lemma slots_disjoint:
  assumes "fst k < n" and "fst k' < n" and "k \<noteq> k'" and "slot_buf il k = slot_buf il k'"
  shows "slot_pos il sz n k + sz \<le> slot_pos il sz n k' \<or> slot_pos il sz n k' + sz \<le> slot_pos il sz n k"
proof -
  define a where "a = (if il then fst k + snd k * n else snd k)"
  define b where "b = (if il then fst k' + snd k' * n else snd k')"
  have "a \<noteq> b"
  proof (cases il)
    case True
    have "(fst k + snd k * n) mod n = fst k" "(fst k' + snd k' * n) mod n = fst k'" using assms(1,2) by simp_all
    moreover have "(fst k + snd k * n) div n = snd k" "(fst k' + snd k' * n) div n = snd k'" using assms(1,2) by simp_all
    ultimately show ?thesis using True assms(3) by (metis a_def b_def prod.expand)
  next
    case False
    then show ?thesis using assms(3,4) by (auto simp: a_def b_def slot_buf_def prod_eq_iff)
  qed
  then have "Suc a \<le> b \<or> Suc b \<le> a" by linarith
  then have "Suc a * sz \<le> b * sz \<or> Suc b * sz \<le> a * sz" using mult_le_mono1 by blast
  then show ?thesis by (simp add: slot_pos_def a_def b_def add.commute)
qed

lemma take_drop_patch:
  assumes "p + length d \<le> q \<or> q + n \<le> p" and "p + length d \<le> length m"
  shows "take n (drop q (take p m @ d @ drop (p + length d) m)) = take n (drop q m)"
  using assms(1)
proof
  assume "p + length d \<le> q"
  then show ?thesis using assms(2) by (simp add: min_def)
next
  assume q: "q + n \<le> p"
  have p: "length (take p m) = p" using assms(2) by simp
  have "drop q (take p m @ d @ drop (p + length d) m) = drop q (take p m) @ d @ drop (p + length d) m"
    using q p by simp
  moreover have "take n (drop q (take p m) @ d @ drop (p + length d) m) = take n (drop q (take p m))"
    using q p by simp
  moreover have "take n (drop q (take p m)) = take n (drop q m)" using q by (simp add: drop_take)
  ultimately show ?thesis by simp
qed

interpretation pcm_slots: slot_mem "slot_ok il sz n" "\<lambda>d. length d = sz" "slot_rd il sz n" "slot_wr il sz n"
proof (unfold_locales, goal_cases)
  case (1 m k d)
  let ?p = "slot_pos il sz n k" and ?b = "slot_buf il k"
  let ?x = "take ?p (m ! ?b) @ d @ drop (?p + sz) (m ! ?b)"
  let ?m' = "m[?b := ?x]"
  have in_b: "?b < length m" "?p + sz \<le> length (m ! ?b)" using 1(1) by (simp_all add: slot_ok_def)
  have len: "length ?x = length (m ! ?b)" using in_b 1(2) by simp
  have ok: "slot_ok il sz n ?m' k' = slot_ok il sz n m k'" for k'
    using len in_b by (cases "slot_buf il k' = ?b") (simp_all add: slot_ok_def)
  have "slot_rd il sz n ?m' k = Some d"
    using slot_rd_ok [of il sz n ?m' k] ok 1 in_b by simp
  moreover have "slot_rd il sz n ?m' k' = slot_rd il sz n m k'" if k': "k' \<noteq> k" "slot_ok il sz n m k'" for k'
  proof (cases "slot_buf il k' = ?b")
    case True
    have "?p + sz \<le> slot_pos il sz n k' \<or> slot_pos il sz n k' + sz \<le> ?p"
      using slots_disjoint [of k n k' il sz] 1(1) k' True by (auto simp: slot_ok_def)
    then have "take sz (drop (slot_pos il sz n k') ?x) = take sz (drop (slot_pos il sz n k') (m ! ?b))"
      using take_drop_patch [of ?p d "slot_pos il sz n k'" sz "m ! ?b"] in_b 1(2) by simp
    then show ?thesis using slot_rd_ok [of il sz n m k'] slot_rd_ok [of il sz n ?m' k'] ok k'(2) True in_b by simp
  next
    case False
    then show ?thesis using slot_rd_ok [of il sz n m k'] slot_rd_ok [of il sz n ?m' k'] ok k'(2) by simp
  qed
  ultimately show ?case using slot_wr_ok [OF 1] ok by blast
qed

section \<open>Conversion sample by sample\<close>

text \<open>Buffers large enough for \<open>samples\<close> samples of \<open>n\<close> channels.\<close>
definition layout_ok :: "bool \<Rightarrow> nat \<Rightarrow> nat \<Rightarrow> nat \<Rightarrow> arena \<Rightarrow> bool" where
  "layout_ok il sz n samples m \<longleftrightarrow>
     (if il then length m = 1 \<and> samples * n * sz \<le> length (m ! 0)
      else length m = n \<and> (\<forall>c < n. samples * sz \<le> length (m ! c)))"

lemma layout_slot_ok:
  assumes "layout_ok il sz n samples m" and "c < n" and "i < samples"
  shows "slot_ok il sz n m (c, i)"
proof (cases il)
  case True
  have "Suc (c + i * n) \<le> samples * n"
  proof -
    have "Suc i * n \<le> samples * n" using assms(3) by (intro mult_le_mono1) simp
    then show ?thesis using assms(2) by simp
  qed
  then have "Suc (c + i * n) * sz \<le> samples * n * sz" by (rule mult_le_mono1)
  then show ?thesis using True assms by (auto simp: slot_ok_def slot_buf_def slot_pos_def layout_ok_def)
next
  case False
  have "Suc i * sz \<le> samples * sz" using assms(3) by (intro mult_le_mono1) simp
  then show ?thesis using False assms by (auto simp: slot_ok_def slot_buf_def slot_pos_def layout_ok_def intro: le_trans)
qed

text \<open>The loops are a sequence of stores, one per slot.\<close>
lemma conv_samples_slots:
  assumes "\<And>i. i \<in> set is \<Longrightarrow> slot_rd il isz n im (c, i) \<noteq> None"
  shows "conv_samples f isz osz im (slot_plane il isz c) (slot_plane ol osz c) (slot_step il n) (slot_step ol n) is om
    = wr_all (slot_wr ol osz n) (map (\<lambda>i. ((c, i), f (the (slot_rd il isz n im (c, i))))) is) om"
  using assms
proof (induction "is" arbitrary: om)
  case (Cons i "is")
  then obtain b where b: "slot_rd il isz n im (c, i) = Some b" by fastforce
  then have r: "mem_read im (slot_plane il isz c) (i * slot_step il n * isz) isz = Some b"
    by (simp add: slot_rd_def slot_off_def)
  have w: "mem_write om (slot_plane ol osz c) (i * slot_step ol n * osz) (f b) = slot_wr ol osz n om (c, i) (f b)"
    by (simp add: slot_wr_def slot_off_def)
  show ?case using Cons r b by (simp add: w split: option.split)
qed simp

lemma wr_all_append: "wr_all wr (xs @ ys) m = Option.bind (wr_all wr xs m) (wr_all wr ys)"
  by (induction xs arbitrary: m) (auto split: Option.bind_splits)

lemma conv_channels_slots:
  assumes "\<And>c i. c \<in> set cs \<Longrightarrow> i < samples \<Longrightarrow> slot_rd il isz n im (c, i) \<noteq> None"
    and "\<And>c. c \<in> set cs \<Longrightarrow> c < length ips \<and> ips ! c = slot_plane il isz c"
    and "\<And>c. c \<in> set cs \<Longrightarrow> c < length ops \<and> ops ! c = slot_plane ol osz c"
  shows "conv_channels f isz osz im ips ops (slot_step il n) (slot_step ol n) samples cs om
    = wr_all (slot_wr ol osz n)
        (concat (map (\<lambda>c. map (\<lambda>i. ((c, i), f (the (slot_rd il isz n im (c, i))))) [0..<samples]) cs)) om"
  using assms
proof (induction cs arbitrary: om)
  case (Cons c cs)
  have c: "c < length ips" "c < length ops" "ips ! c = slot_plane il isz c" "ops ! c = slot_plane ol osz c"
    using Cons.prems(2,3) by auto
  have "conv_samples f isz osz im (ips ! c) (ops ! c) (slot_step il n) (slot_step ol n) [0..<samples] om
    = wr_all (slot_wr ol osz n) (map (\<lambda>i. ((c, i), f (the (slot_rd il isz n im (c, i))))) [0..<samples]) om"
    unfolding c(3,4) using Cons.prems(1) by (intro conv_samples_slots) auto
  moreover have "conv_channels f isz osz im ips ops (slot_step il n) (slot_step ol n) samples cs om1
    = wr_all (slot_wr ol osz n)
        (concat (map (\<lambda>c. map (\<lambda>i. ((c, i), f (the (slot_rd il isz n im (c, i))))) [0..<samples]) cs)) om1" for om1
    using Cons.prems by (intro Cons.IH) auto
  moreover have "\<not> (length ips \<le> c \<or> length ops \<le> c)" using c(1,2) by simp
  ultimately show ?case by (simp add: wr_all_append split: option.split)
qed simp

lemma conv_channels_correct:
  assumes il: "layout_ok il isz n samples im" and ol: "layout_ok ol osz n samples om"
    and f: "\<And>b. length b = isz \<Longrightarrow> length (f b) = osz"
    and ips: "\<And>c. c < n \<Longrightarrow> c < length ips \<and> ips ! c = slot_plane il isz c"
    and ops: "\<And>c. c < n \<Longrightarrow> c < length ops \<and> ops ! c = slot_plane ol osz c"
  shows "\<exists>om'. conv_channels f isz osz im ips ops (slot_step il n) (slot_step ol n) samples [0..<n] om = Some om'
    \<and> (\<forall>c < n. \<forall>i < samples. slot_rd ol osz n om' (c, i) = map_option f (slot_rd il isz n im (c, i)))"
proof -
  let ?kvs = "concat (map (\<lambda>c. map (\<lambda>i. ((c, i), f (the (slot_rd il isz n im (c, i))))) [0..<samples]) [0..<n])"
  have in_ok: "slot_ok il isz n im (c, i)" "slot_ok ol osz n om (c, i)" if "c < n" "i < samples" for c i
    using layout_slot_ok [OF il that] layout_slot_ok [OF ol that] by simp_all
  have in_len: "length (the (slot_rd il isz n im (c, i))) = isz" if "c < n" "i < samples" for c i
    using slot_rd_ok [OF in_ok(1) [OF that]] in_ok(1) [OF that] by (auto simp: slot_ok_def min_def)
  have "map fst ?kvs = List.product [0..<n] [0..<samples]"
    by (simp add: map_concat product_concat_map comp_def)
  then have d: "distinct (map fst ?kvs)" by (simp add: distinct_product)
  have v: "slot_ok ol osz n om k \<and> length v = osz" if "(k, v) \<in> set ?kvs" for k v
    using that in_ok in_len f by auto
  from pcm_slots.wr_all_ok [OF d v] obtain om' where w: "wr_all (slot_wr ol osz n) ?kvs om = Some om'"
    and r: "\<forall>k v. (k, v) \<in> set ?kvs \<longrightarrow> slot_rd ol osz n om' k = Some v" by blast
  have rd: "slot_rd il isz n im (c, i) \<noteq> None" if "c < n" "i < samples" for c i
    using slot_rd_ok [OF in_ok(1) [OF that]] by simp
  have "conv_channels f isz osz im ips ops (slot_step il n) (slot_step ol n) samples [0..<n] om = Some om'"
    using w rd ips ops by (subst conv_channels_slots) auto
  moreover have "slot_rd ol osz n om' (c, i) = map_option f (slot_rd il isz n im (c, i))" if "c < n" "i < samples" for c i
  proof -
    have "((c, i), f (the (slot_rd il isz n im (c, i)))) \<in> set ?kvs"
      using that by (auto intro!: bexI [of _ c] image_eqI [of _ _ i])
    then have "slot_rd ol osz n om' (c, i) = Some (f (the (slot_rd il isz n im (c, i))))" using r by blast
    then show ?thesis using rd [OF that] by auto
  qed
  ultimately show ?thesis by blast
qed

lemma conv_sample_length:
  assumes "conv_sample U a c = Some f" and "length b = pcm_bits a div 8"
  shows "length (f b) = pcm_bits c div 8"
  using assms
  by (auto simp: conv_defs int_htol24_def split: if_splits)

lemma conv_sample_bits:
  assumes "conv_sample U a c = Some f"
  shows "8 dvd pcm_bits a \<and> 8 dvd pcm_bits c \<and> 0 < pcm_bits a div 8"
  using assms by (auto simp: conv_defs split: if_splits)

lemma conv_sample_same: "conv_sample U a a = Some f \<Longrightarrow> f b = b"
  by (auto simp: conv_defs pcm_fmt_defs split: if_splits)

lemma setni_plane:
  "8 dvd pcm_bits fmt \<Longrightarrow> c < n \<Longrightarrow> pcm_setni (0, 0) fmt n ! c = slot_plane True (pcm_bits fmt div 8) c"
  by (auto simp: pcm_setni_def slot_plane_def div_mult_swap)

text \<open>A copy of the whole block keeps every slot.\<close>
lemma take_drop_prefix:
  assumes "p + q \<le> k" and "k \<le> length xs"
  shows "take q (drop p (take k xs @ ys)) = take q (drop p xs)"
proof -
  have "drop p (take k xs @ ys) = drop p (take k xs) @ ys" using assms by simp
  moreover have "q \<le> length (drop p (take k xs))" using assms by simp
  ultimately have "take q (drop p (take k xs @ ys)) = take q (drop p (take k xs))" by simp
  also have "\<dots> = take q (take (k - p) (drop p xs))" by (simp add: drop_take)
  also have "\<dots> = take q (drop p xs)" using assms by (simp add: min_def)
  finally show ?thesis .
qed

lemma direct_il:
  assumes "layout_ok True sz n samples im" and "layout_ok True sz n samples om"
  shows "\<exists>om'. Option.bind (mem_read im (0, 0) 0 (samples * (sz * n))) (mem_write om (0, 0) 0) = Some om'
    \<and> (\<forall>c < n. \<forall>i < samples. slot_rd True sz n om' (c, i) = slot_rd True sz n im (c, i))"
proof -
  let ?k = "samples * (sz * n)"
  have len: "?k \<le> length (im ! 0)" "?k \<le> length (om ! 0)" "length im = 1" "length om = 1"
    using assms by (simp_all add: layout_ok_def algebra_simps)
  let ?om' = "om[0 := take ?k (im ! 0) @ drop ?k (om ! 0)]"
  have r: "Option.bind (mem_read im (0, 0) 0 ?k) (mem_write om (0, 0) 0) = Some ?om'"
    using len by (simp add: mem_read_def mem_write_def mem_copy_def min_def)
  have ok': "layout_ok True sz n samples ?om'" using len by (simp add: layout_ok_def algebra_simps)
  have "slot_rd True sz n ?om' (c, i) = slot_rd True sz n im (c, i)" if "c < n" "i < samples" for c i
  proof -
    let ?p = "slot_pos True sz n (c, i)"
    have o: "slot_ok True sz n ?om' (c, i)" "slot_ok True sz n im (c, i)"
      using layout_slot_ok [OF ok' that] layout_slot_ok [OF assms(1) that] by simp_all
    have "Suc (c + i * n) \<le> samples * n"
    proof -
      have "Suc i * n \<le> samples * n" using that(2) by (intro mult_le_mono1) simp
      then show ?thesis using that(1) by simp
    qed
    then have "Suc (c + i * n) * sz \<le> samples * n * sz" by (rule mult_le_mono1)
    then have "?p + sz \<le> ?k" by (simp add: slot_pos_def algebra_simps)
    then have "take sz (drop ?p (take ?k (im ! 0) @ drop ?k (om ! 0))) = take sz (drop ?p (im ! 0))"
      using len(1) by (intro take_drop_prefix)
    then show ?thesis using slot_rd_ok [OF o(1)] slot_rd_ok [OF o(2)] len by (simp add: slot_buf_def)
  qed
  with r show ?thesis by blast
qed


text \<open>A plane copied as one piece is a slot of \<open>samples * sz\<close> bytes.\<close>
lemma copy_planes_conv: "copy_planes im ips ops k cs om = conv_channels (\<lambda>b. b) k k im ips ops 1 1 1 cs om"
  by (induction cs arbitrary: om) (auto split: option.split Option.bind_splits)

lemma slot_rd_piece:
  assumes "(Suc i) * sz \<le> k" and "slot_ok False k n m (c, 0)"
  shows "slot_rd False sz n m (c, i) = map_option (\<lambda>b. take sz (drop (i * sz) b)) (slot_rd False k n m (c, 0))"
proof -
  have "k \<le> length (m ! c)" "c < length m" using assms(2) by (simp_all add: slot_ok_def slot_buf_def slot_pos_def)
  moreover have "take sz (drop (i * sz) (take k (m ! c))) = take sz (drop (i * sz) (m ! c))"
    using assms(1) by (simp add: drop_take min_def)
  ultimately show ?thesis using assms(1) by (simp add: slot_rd_def slot_plane_def slot_off_def slot_step_def mem_read_def)
qed

lemma direct_planar:
  assumes "layout_ok False sz n samples im" and "layout_ok False sz n samples om"
  shows "\<exists>om'. copy_planes im (map (\<lambda>c. (c, 0)) [0..<length im]) (map (\<lambda>c. (c, 0)) [0..<length om]) (samples * sz) [0..<n] om
      = Some om' \<and> (\<forall>c < n. \<forall>i < samples. slot_rd False sz n om' (c, i) = slot_rd False sz n im (c, i))"
proof -
  let ?k = "samples * sz"
  have l: "layout_ok False ?k n 1 im" "layout_ok False ?k n 1 om" "length im = n" "length om = n"
    using assms by (simp_all add: layout_ok_def)
  have pl: "c < length (map (\<lambda>c. (c, 0)) [0..<length m]) \<and> map (\<lambda>c. (c, 0)) [0..<length m] ! c = slot_plane False ?k c"
    if "c < n" "length m = n" for c and m :: arena using that by (simp add: slot_plane_def)
  obtain om' where r: "copy_planes im (map (\<lambda>c. (c, 0)) [0..<length im]) (map (\<lambda>c. (c, 0)) [0..<length om]) ?k [0..<n] om = Some om'"
    and s: "\<And>c. c < n \<Longrightarrow> slot_rd False ?k n om' (c, 0) = slot_rd False ?k n im (c, 0)"
    using conv_channels_correct [OF l(1,2), of "\<lambda>b. b" "map (\<lambda>c. (c, 0)) [0..<length im]" "map (\<lambda>c. (c, 0)) [0..<length om]"]
      pl l(3,4) by (auto simp: copy_planes_conv slot_step_def option.map_ident)
  have "slot_rd False sz n om' (c, i) = slot_rd False sz n im (c, i)" if "c < n" "i < samples" for c i
  proof -
    have k: "Suc i * sz \<le> ?k" using that(2) by (intro mult_le_mono1) simp
    have oki: "slot_ok False ?k n im (c, 0)" using layout_slot_ok [OF l(1) that(1)] by simp
    have "slot_rd False ?k n om' (c, 0) \<noteq> None" using s [OF that(1)] slot_rd_ok [OF oki] by simp
    then have oko: "slot_ok False ?k n om' (c, 0)"
      using that(1) by (auto simp: slot_rd_def slot_plane_def slot_off_def mem_read_def slot_ok_def slot_buf_def slot_pos_def
          split: if_splits)
    show ?thesis using slot_rd_piece [OF k oki] slot_rd_piece [OF k oko] s [OF that(1)] by simp
  qed
  with r show ?thesis by blast
qed

lemma mono_layout: "layout_ok il sz (Suc 0) samples m = layout_ok ol sz (Suc 0) samples m"
  by (auto simp: layout_ok_def)

lemma mono_slot: "slot_rd il sz (Suc 0) m (0, i) = slot_rd ol sz (Suc 0) m (0, i)"
  by (simp add: slot_rd_def slot_plane_def slot_off_def slot_step_def)

text \<open>The direct copy and the loops agree: both are \<open>f\<close> on every slot.\<close>
lemma pcm_direct_correct:
  assumes s: "s = \<lparr>ps_mem = im, ps_planes = in_planes il im, ps_step = 1, ps_ileaved = il, ps_fmt = af_format outpcm, ps_nch = n\<rparr>"
    and "layout_ok il sz n samples im" and "layout_ok (af_interleaved outpcm) sz n samples om"
    and sz: "pcm_bits (af_format outpcm) = 8 * sz" and "0 < n"
    and r: "pcm_direct outpcm om s samples = Some r"
  shows "\<exists>om'. r = Some om' \<and>
    (\<forall>c < n. \<forall>i < samples. slot_rd (af_interleaved outpcm) sz n om' (c, i) = slot_rd il sz n im (c, i))"
proof (cases "samples = 0")
  case True
  then show ?thesis using r by (auto simp: pcm_direct_def Let_def split: if_splits)
next
  case False
  let ?ol = "af_interleaved outpcm"
  have io: "il = ?ol \<or> n = 1" using r s by (auto simp: pcm_direct_def Let_def split: if_splits)
  then have im: "layout_ok ?ol sz n samples im"
    and rd: "c < n \<Longrightarrow> slot_rd il sz n im (c, i) = slot_rd ?ol sz n im (c, i)" for c i
    using assms(2) mono_layout [of il sz samples im ?ol] mono_slot [of il sz im i ?ol] by auto
  show ?thesis
  proof (cases ?ol)
    case True
    have "in_planes il im \<noteq> [] \<and> in_planes il im ! 0 = (0, 0)"
      using im True by (auto simp: in_planes_def layout_ok_def)
    then have "r = Option.bind (mem_read im (0, 0) 0 (samples * (sz * n))) (mem_write om (0, 0) 0)"
      using r s True False io sz by (auto simp: pcm_direct_def Let_def pcm_size_def split: if_splits)
    then show ?thesis using direct_il [of sz n samples im om] im assms(3) True rd by auto
  next
    case ol: False
    have "in_planes il im = map (\<lambda>c. (c, 0)) [0..<length im]"
      using im ol io by (auto simp: in_planes_def layout_ok_def)
    then have "r = copy_planes im (map (\<lambda>c. (c, 0)) [0..<length im]) (map (\<lambda>c. (c, 0)) [0..<length om]) (samples * sz) [0..<n] om"
      using r s ol False io sz by (auto simp: pcm_direct_def Let_def split: if_splits)
    then show ?thesis using direct_planar [of sz n samples im om] im assms(3) ol rd by auto
  qed
qed

lemma pcm_loops_correct:
  assumes s: "s = \<lparr>ps_mem = im, ps_planes = in_planes il im, ps_step = 1, ps_ileaved = il, ps_fmt = ifmt, ps_nch = n\<rparr>"
    and il: "layout_ok il isz n samples im" and ol: "layout_ok (af_interleaved outpcm) osz n samples om"
    and f: "conv_sample U ifmt (af_format outpcm) = Some f"
    and sz: "pcm_bits ifmt = 8 * isz" "pcm_bits (af_format outpcm) = 8 * osz"
  shows "\<exists>om'. pcm_loops U outpcm om s samples = Some (0, om') \<and>
    (\<forall>c < n. \<forall>i < samples. slot_rd (af_interleaved outpcm) osz n om' (c, i) = map_option f (slot_rd il isz n im (c, i)))"
proof -
  have fl: "\<And>b. length b = isz \<Longrightarrow> length (f b) = osz" using conv_sample_length [OF f] sz by simp
  let ?ips = "if il then pcm_setni (0, 0) ifmt n else map (\<lambda>c. (c, 0)) [0..<length im]"
  let ?ops = "if af_interleaved outpcm then pcm_setni (0, 0) (af_format outpcm) n else map (\<lambda>c. (c, 0)) [0..<length om]"
  have i: "c < length ?ips \<and> ?ips ! c = slot_plane il isz c" if "c < n" for c
    using il that sz setni_plane [of ifmt c n] by (auto simp: layout_ok_def slot_plane_def pcm_setni_def)
  have o: "c < length ?ops \<and> ?ops ! c = slot_plane (af_interleaved outpcm) osz c" if "c < n" for c
    using ol that sz setni_plane [of "af_format outpcm" c n] by (auto simp: layout_ok_def slot_plane_def pcm_setni_def)
  have "pcm_loops U outpcm om s samples = map_option (Pair 0)
      (conv_channels f isz osz im ?ips ?ops (slot_step il n) (slot_step (af_interleaved outpcm) n) samples [0..<n] om)"
    using s f sz by (simp add: pcm_loops_def Let_def in_planes_def slot_step_def)
  then show ?thesis using conv_channels_correct [OF il ol fl i o] by auto
qed

lemma chan_low_le8:
  fixes c :: "'a::len word"
  assumes "c \<le> 8"
  shows "c AND 0x0f \<le> 8"
  using assms word_and_le1 by (metis dual_order.trans word_bw_comms(1) word_and_le2)

lemma pcm_convert_slots:
  assumes "af_channels inpcm = af_channels outpcm" and "0 < af_channels inpcm" and "af_channels inpcm \<le> 8"
    and "af_rate inpcm = af_rate outpcm"
    and "conv_sample U (af_format inpcm) (af_format outpcm) = Some f"
    and "isz = pcm_bits (af_format inpcm) div 8" and "osz = pcm_bits (af_format outpcm) div 8"
    and "n = unat (af_channels inpcm)"
    and "layout_ok (af_interleaved inpcm) isz n samples im" and "layout_ok (af_interleaved outpcm) osz n samples om"
  shows "\<exists>om'. pcm_convert U tmp outpcm om inpcm im samples = Some (0, om')
     \<and> (\<forall>c < n. \<forall>i < samples.
          slot_rd (af_interleaved outpcm) osz n om' (c, i) = map_option f (slot_rd (af_interleaved inpcm) isz n im (c, i)))"
proof -
  define s where "s = \<lparr>ps_mem = im, ps_planes = in_planes (af_interleaved inpcm) im, ps_step = 1,
    ps_ileaved = af_interleaved inpcm, ps_fmt = af_format inpcm, ps_nch = n\<rparr>"
  have bits: "pcm_bits (af_format inpcm) = 8 * isz" "pcm_bits (af_format outpcm) = 8 * osz"
    using conv_sample_bits [OF assms(5)] assms(6,7) by auto
  have n: "0 < n" using assms(2,8) by (simp add: unat_gt_0)
  have sel: "pcm_select U tmp outpcm inpcm im samples = Some (Some s)"
    using assms(1,8) by (simp add: pcm_select_def s_def)
  have g: "\<not> (8 < af_channels inpcm \<or> 8 < (af_channels outpcm AND 0x0f))"
    using assms(1,3) chan_low_le8 [of "af_channels inpcm"] by (simp add: not_less)
  show ?thesis
  proof (cases "pcm_direct outpcm om s samples")
    case None
    then show ?thesis using pcm_loops_correct [OF s_def assms(9,10,5) bits] sel assms(4) g by (simp add: pcm_convert_def)
  next
    case (Some r)
    then have fmt: "af_format inpcm = af_format outpcm" by (auto simp: pcm_direct_def s_def split: if_splits)
    then have same: "f b = b" for b using conv_sample_same assms(5) by metis
    then have "map_option f x = x" for x by (cases x) auto
    moreover have "isz = osz" using assms(6,7) fmt by simp
    ultimately show ?thesis
      using pcm_direct_correct [OF s_def [unfolded fmt] _ assms(10) bits(2) n Some] assms(9) sel assms(4) g Some
      by (auto simp: pcm_convert_def)
  qed
qed

text \<open>
  Property C17: with equal channels and rates, \<open>pcm_convert\<close> succeeds for every pair of formats that
  has a conversion, whatever the two layouts, and the result is that conversion applied to every
  sample of every channel: the direct block copy, the copy plane by plane and the loops with their
  strides all mean the same.
\<close>

theorem pcm_convert_samplewise:
  assumes "af_channels inpcm = af_channels outpcm" and "0 < af_channels inpcm" and "af_channels inpcm \<le> 8"
    and "af_rate inpcm = af_rate outpcm"
    and "conv_sample U (af_format inpcm) (af_format outpcm) = Some f"
    and "isz = pcm_bits (af_format inpcm) div 8" and "osz = pcm_bits (af_format outpcm) div 8"
    and "n = unat (af_channels inpcm)"
    and "layout_ok (af_interleaved inpcm) isz n samples im" and "layout_ok (af_interleaved outpcm) osz n samples om"
  shows "\<exists>om'. pcm_convert U tmp outpcm om inpcm im samples = Some (0, om')
     \<and> (\<forall>c < n. \<forall>i < samples.
          slot_rd (af_interleaved outpcm) osz n om' (c, i) = map_option f (slot_rd (af_interleaved inpcm) isz n im (c, i)))"
  by (rule pcm_convert_slots [OF assms])

theorem pcm_convert_samplewise_witness:
  "\<forall>U tmp. \<exists>om'. pcm_convert U tmp
       \<lparr>af_format = PHI_PCM_24, af_channels = 2, af_interleaved = False, af_rate = 48000\<rparr> [[9, 9, 9], [9, 9, 9]]
       \<lparr>af_format = PHI_PCM_16, af_channels = 2, af_interleaved = True, af_rate = 48000\<rparr> [[1, 2, 3, 4]] 1 = Some (0, om')
     \<and> (\<forall>c < 2. \<forall>i < 1. slot_rd False 3 2 om' (c, i)
          = map_option (\<lambda>b. int_htol24 (le_sval b * 0x100)) (slot_rd True 2 2 [[1, 2, 3, 4]] (c, i)))"
proof (intro allI)
  fix U tmp
  let ?o = "\<lparr>af_format = PHI_PCM_24, af_channels = 2, af_interleaved = False, af_rate = 48000\<rparr>"
  let ?i = "\<lparr>af_format = PHI_PCM_16, af_channels = 2, af_interleaved = True, af_rate = 48000\<rparr>"
  show "\<exists>om'. pcm_convert U tmp ?o [[9, 9, 9], [9, 9, 9]] ?i [[1, 2, 3, 4]] 1 = Some (0, om')
     \<and> (\<forall>c < 2. \<forall>i < 1. slot_rd False 3 2 om' (c, i)
          = map_option (\<lambda>b. int_htol24 (le_sval b * 0x100)) (slot_rd True 2 2 [[1, 2, 3, 4]] (c, i)))"
    by (rule pcm_convert_samplewise [where inpcm = ?i and outpcm = ?o, unfolded phi_af.simps])
      (simp_all add: conv_sample_def conv_16_def pcm_fmt_defs layout_ok_def pcm_bits_def less_2_cases_iff)
qed

text \<open>
  The mixer writes nothing for 24-bit input mixed to mono: its channel counter also
  counts the channels that the output does not have, so the loop ends before the centre channel. The
  call succeeds and the output is whatever the allocated block contained.
\<close>

theorem pcm_mix_24_mono_unwritten:
  assumes "af_format inpcm = PHI_PCM_24" and "af_channels inpcm \<in> {2, 6, 8}"
  shows "pcm_chan_mix U 1 odata inpcm im samples = Some (0, odata)"
proof -
  have "chan_mask (unat (af_channels inpcm)) \<in> {0x03, 0x3f, 0xff}"
    using assms(2) by (auto simp: chan_mask_def)
  then have "\<exists>L. chan_fill_gain_levels U (\<lambda>_ _. FP_0) (chan_mask (unat (af_channels inpcm))) 4 = Some L"
    by (auto simp: chan_fill_gain_levels_def Let_def bit_simps)
  then obtain L where "chan_fill_gain_levels U (\<lambda>_ _. FP_0) (chan_mask (unat (af_channels inpcm))) 4 = Some L" ..
  moreover have "chan_mask (unat (af_channels inpcm)) \<noteq> 0" using assms(2) by (auto simp: chan_mask_def)
  moreover have "[0..<8] = 0 # [1..<8]" by (simp add: upt_rec)
  ultimately show ?thesis using assms(1) by (simp add: pcm_chan_mix_def chan_mask_def Let_def bit_simps)
qed


theorem pcm_mix_24_mono_unwritten_witness:
  "\<forall>U. pcm_chan_mix U 1 [7, 7, 7, 7] \<lparr>af_format = PHI_PCM_24, af_channels = 2, af_interleaved = True, af_rate = 48000\<rparr>
     [[1, 2, 3, 4, 5, 6]] 1 = Some (0, [7, 7, 7, 7])"
  by (intro allI pcm_mix_24_mono_unwritten) simp_all

lemma mix_sum_overrun:
  assumes "\<forall>ic \<in> set ics. bit imask ic" and "length ips < icstm + length ics" and "icstm \<le> length ips"
  shows "mix_sum U fmt im ips istep i lv imask ics icstm acc = None"
  using assms
proof (induction ics arbitrary: icstm acc)
  case (Cons ic ics)
  show ?case
  proof (cases "length ips \<le> icstm")
    case True
    then show ?thesis using Cons.prems by simp
  next
    case False
    then show ?thesis using Cons by (auto split: option.split)
  qed
qed simp

lemma mix_samples_overrun:
  assumes "length ips < 8" and "0 < samples"
  shows "mix_samples U fmt im ips istep lv (-1) ocstm ostep [0..<samples] om = None"
proof -
  have "[0..<samples] = 0 # [1..<samples]" using assms(2) by (simp add: upt_rec)
  moreover have "mix_sum U fmt im ips istep 0 lv (-1) [0..<8] 0 FP_0 = None"
    using assms(1) by (intro mix_sum_overrun) (auto simp: bit_simps)
  ultimately show ?thesis by simp
qed

text \<open>
  A layout without a channel mask (3, 4, 5 or 7 channels) is not refused by the mixer: the
  mask of an unknown layout has every bit set while the check expects zero, so the loop over the
  eight mask bits uses channel pointers that the stream does not have.
\<close>

theorem pcm_mix_unknown_layout_overruns:
  assumes "af_channels inpcm \<in> {3, 4, 5, 7}" and "ochan \<in> {1, 2}"
    and "af_format inpcm \<in> {PHI_PCM_16, PHI_PCM_32, PHI_PCM_FLOAT32}"
    and "\<not> af_interleaved inpcm \<Longrightarrow> length im = unat (af_channels inpcm)" and "0 < samples"
  shows "pcm_chan_mix U ochan odata inpcm im samples = None"
proof -
  let ?ips = "if af_interleaved inpcm then pcm_setni (0, 0) (af_format inpcm) (unat (af_channels inpcm))
    else map (\<lambda>c. (c, 0)) [0..<length im]"
  have l: "length ?ips < 8" using assms(1,4) by (auto simp: pcm_setni_def)
  have m: "chan_mask (unat (af_channels inpcm)) = -1" using assms(1) by (auto simp: chan_mask_def)
  have o: "chan_mask ochan = 4 \<or> chan_mask ochan = 3" using assms(2) by (auto simp: chan_mask_def)
  then have "\<exists>L. chan_fill_gain_levels U (\<lambda>_ _. FP_0) (-1) (chan_mask ochan) = Some L"
    by (auto simp: chan_fill_gain_levels_def Let_def bit_simps)
  then obtain L where L: "chan_fill_gain_levels U (\<lambda>_ _. FP_0) (-1) (chan_mask ochan) = Some L" ..
  have u: "[0..<8] = 0 # 1 # 2 # [3..<8::nat]" by (simp add: upt_rec)
  have "af_format inpcm \<noteq> PHI_PCM_24" using assms(3) by (auto simp: pcm_fmt_defs)
  then have "mix_channels U (af_format inpcm) im ?ips istep L (-1) (chan_mask ochan) ochan samples [0..<8] 0 om = None" for istep om
    using o unfolding u by (auto simp: mix_samples_overrun [OF l assms(5)] bit_simps)
  then show ?thesis using assms(3) o L m by (auto simp: pcm_chan_mix_def Let_def)
qed

theorem pcm_mix_unknown_layout_overruns_witness:
  "\<forall>U. pcm_chan_mix U 1 [0, 0, 0, 0] \<lparr>af_format = PHI_PCM_16, af_channels = 3, af_interleaved = True, af_rate = 48000\<rparr>
     [[1, 2, 3, 4, 5, 6]] 1 = None"
  by (intro allI pcm_mix_unknown_layout_overruns) simp_all

section \<open>Conversion keeps the sizes of the buffers\<close>

lemma mem_write_lengths: "mem_write om p off d = Some om' \<Longrightarrow> map length om' = map length om"
proof -
  assume w: "mem_write om p off d = Some om'"
  obtain b base where p: "p = (b, base)" by fastforce
  from w p obtain x where x: "mem_copy (om ! b) (base + off) d = Some x" "om' = om[b := x]" "b < length om"
    by (auto simp: mem_write_def split: if_splits)
  then have "length x = map length om ! b" using mem_copy_length by fastforce
  then show ?thesis using x by (simp only: map_update list_update_id)
qed

lemma conv_samples_lengths:
  "conv_samples f isz osz im ip opl istep ostep is om = Some om' \<Longrightarrow> map length om' = map length om"
  by (induction "is" arbitrary: om) (auto split: option.splits dest: mem_write_lengths)

lemma conv_channels_lengths:
  "conv_channels f isz osz im ips ops istep ostep samples cs om = Some om' \<Longrightarrow> map length om' = map length om"
  by (induction cs arbitrary: om) (auto split: option.splits if_splits dest: conv_samples_lengths)

lemma copy_planes_lengths: "copy_planes im ips ops k cs om = Some om' \<Longrightarrow> map length om' = map length om"
  unfolding copy_planes_conv by (rule conv_channels_lengths)

lemma pcm_direct_lengths: "pcm_direct outpcm om s samples = Some (Some om') \<Longrightarrow> map length om' = map length om"
  unfolding pcm_direct_def Let_def
  by (auto split: if_splits Option.bind_splits simp del: copy_planes.simps dest: mem_write_lengths copy_planes_lengths)

lemma pcm_loops_lengths: "pcm_loops U outpcm om s samples = Some (r, om') \<Longrightarrow> map length om' = map length om"
  by (auto simp: pcm_loops_def Let_def split: option.splits dest: conv_channels_lengths)

lemma pcm_convert_lengths:
  "pcm_convert U tmp outpcm om inpcm im samples = Some (r, om') \<Longrightarrow> map length om' = map length om"
  by (auto simp: pcm_convert_def split: if_splits option.splits dest: pcm_direct_lengths pcm_loops_lengths)

lemma layout_ok_lengths: "map length m' = map length m \<Longrightarrow> layout_ok il sz n samples m' = layout_ok il sz n samples m"
  unfolding layout_ok_def by (metis (no_types, opaque_lifting) length_map nth_map zero_less_one)

lemma layout_ok_mono: "layout_ok il sz n samples m \<Longrightarrow> k \<le> samples \<Longrightarrow> layout_ok il sz n k m"
  by (auto simp: layout_ok_def intro: order_trans [OF mult_le_mono1])

end
