(* ===== verification/Decode_Frame.thy ===== *)
theory Decode_Frame
  imports Conveyor Pcm Util Detector "HOL-Library.Monad_Syntax"
begin

text \<open>
  The decoders of formats whose container gives the position of every frame:
  \<open>src/src/acodec/alib3-bridge/flac.h\<close>, \<open>wavpack.h\<close>, \<open>alac.h\<close> and \<open>ape.h\<close> with the filters \<open>flac-dec.h\<close>,
  \<open>wavpack-dec.h\<close>, \<open>alac-dec.h\<close> and \<open>ape-dec.h\<close>. The decoder libraries are parameters; the code here prepares
  them, narrows their 32-bit samples in place, and cuts the first frame after a seek so that the output starts
  at the requested sample. Buffers are bytes; an access outside of a buffer or a failed assertion is \<open>None\<close>.
\<close>

datatype dec_r = DErr | DWarn | DData | DHdr | DMore | DDone

section \<open>Narrowing in place\<close>

text \<open>
  The loops of \<open>pcm_from32\<close> and \<open>ffwvpk_decode\<close>: number \<open>src\<close> of the 32-bit samples becomes number \<open>i\<close> of the
  \<open>w\<close>-byte samples of the same buffer. The low bytes of a little-endian integer come first.
\<close>
fun narrow_loop :: "nat \<Rightarrow> nat \<Rightarrow> nat \<Rightarrow> nat \<Rightarrow> bytes \<Rightarrow> bytes option" where
  "narrow_loop w 0 i src m = Some m"
| "narrow_loop w (Suc n) i src m =
     (if 4 * src + 4 \<le> length m then
        mem_copy m (w * i) (take w (drop (4 * src) m)) \<bind> narrow_loop w n (i + 1) (src + 1)
      else None)"

section \<open>FLAC\<close>

record flac_info =
  fi_minblock :: u32
  fi_maxblock :: u32
  fi_rate :: u32
  fi_channels :: nat
  fi_bits :: nat

record 'd ffflac_dec =
  fl_dec :: 'd
  fl_errtype :: u32
  fl_err :: int
  fl_info :: flac_info
  fl_frsample :: u64
  fl_seeksample :: u64
  fl_in :: bytes
  fl_pcmlen :: u64
  fl_out :: "bytes list"

text \<open>\<open>flac_decode_init\<close> and \<open>flac_decode\<close>: a code, and the buffers of the channels with 32-bit samples.\<close>
record 'd flac_lib =
  lf_init :: "flac_info \<Rightarrow> int \<times> 'd"
  lf_decode :: "'d \<Rightarrow> bytes \<Rightarrow> int \<times> 'd \<times> bytes list"

definition FLAC_ELIB :: u32 where "FLAC_ELIB = 2"

definition ffflac_dec_open :: "'d flac_lib \<Rightarrow> flac_info \<Rightarrow> 'd ffflac_dec \<Rightarrow> bool \<times> 'd ffflac_dec" where
  "ffflac_dec_open L info f =
     (case lf_init L info of (r, d) \<Rightarrow>
        if r \<noteq> 0 then (False, f\<lparr>fl_dec := d, fl_errtype := FLAC_ELIB, fl_err := r\<rparr>)
        else (True, f\<lparr>fl_dec := d, fl_info := info\<rparr>))"

definition ffflac_dec_seek :: "u64 \<Rightarrow> 'd ffflac_dec \<Rightarrow> 'd ffflac_dec" where
  "ffflac_dec_seek sample f = f\<lparr>fl_seeksample := sample\<rparr>"

definition ffflac_dec_input :: "bytes \<Rightarrow> u32 \<Rightarrow> u64 \<Rightarrow> 'd ffflac_dec \<Rightarrow> 'd ffflac_dec" where
  "ffflac_dec_input frame frame_samples frame_pos f =
     f\<lparr>fl_in := frame, fl_frsample := frame_pos, fl_pcmlen := ucast frame_samples\<rparr>"

text \<open>\<open>pcm_from32\<close>; other widths are left as they are, its result is not tested.\<close>
definition pcm_from32 :: "nat \<Rightarrow> nat \<Rightarrow> nat \<Rightarrow> bytes list \<Rightarrow> bytes list option" where
  "pcm_from32 dstbits samples isrc bufs =
     (if dstbits \<in> {8, 16, 24} then those (map (narrow_loop (dstbits div 8) samples 0 isrc) bufs) else Some bufs)"

text \<open>The part after the library: the offset of the first sample, the number of samples and the position.\<close>
definition flac_cut :: "'d ffflac_dec \<Rightarrow> u32 \<times> 'd ffflac_dec" where
  "flac_cut f =
     (if fl_seeksample f \<noteq> 0 then
        (if fl_frsample f < fl_seeksample f \<and> fl_seeksample f < fl_frsample f + fl_pcmlen f then
           (let isrc = ucast (fl_seeksample f - fl_frsample f) :: u32
            in (isrc, f\<lparr>fl_pcmlen := fl_pcmlen f - ucast isrc, fl_frsample := fl_seeksample f, fl_seeksample := 0\<rparr>))
         else (0, f\<lparr>fl_seeksample := 0\<rparr>))
      else (0, f))"

definition ffflac_decode :: "'d flac_lib \<Rightarrow> 'd ffflac_dec \<Rightarrow> (dec_r \<times> 'd ffflac_dec) option" where
  "ffflac_decode L f =
     (case lf_decode L (fl_dec f) (fl_in f) of (r, d, bufs) \<Rightarrow>
        let f1 = f\<lparr>fl_dec := d\<rparr>
        in if r \<noteq> 0 then Some (DWarn, f1\<lparr>fl_errtype := FLAC_ELIB, fl_err := r\<rparr>)
           else
             (case flac_cut f1 of (isrc, f2) \<Rightarrow>
                map_option
                  (\<lambda>out. (DData, f2\<lparr>fl_out := out,
                     fl_pcmlen := fl_pcmlen f2 * of_nat (fi_bits (fl_info f2) div 8 * fi_channels (fl_info f2))\<rparr>))
                  (pcm_from32 (fi_bits (fl_info f2)) (unat (ucast (fl_pcmlen f2) :: u32)) (unat isrc)
                     (take (fi_channels (fl_info f2)) bufs))))"

record 'd flac_dec =
  fd_fl :: "'d ffflac_dec"
  fd_fmt :: phi_af

text \<open>\<open>None\<close>: \<open>PHI_OPEN_ERR\<close>.\<close>
definition flac_dec_create :: "'d flac_lib \<Rightarrow> 'd \<Rightarrow> phi_track \<Rightarrow> phi_track \<times> 'd flac_dec option" where
  "flac_dec_create L d0 t =
     (let af = a_format (t_audio t);
          info = \<lparr>fi_minblock = a_flac_minblock (t_audio t), fi_maxblock = a_flac_maxblock (t_audio t), fi_rate = af_rate af,
                  fi_channels = unat (af_channels af), fi_bits = pcm_bits (af_format af)\<rparr>;
          f0 = \<lparr>fl_dec = d0, fl_errtype = 0, fl_err = 0, fl_info = info, fl_frsample = 0, fl_seeksample = 0, fl_in = [],
                fl_pcmlen = 0, fl_out = []\<rparr>
      in case ffflac_dec_open L info f0 of (ok, f) \<Rightarrow>
           if ok then (t\<lparr>t_data_type := Some ''pcm''\<rparr>, Some \<lparr>fd_fl = f, fd_fmt = af\<rparr>) else (t, None))"

text \<open>The output is the array of the channels' buffers, \<open>pcmlen\<close> bytes in all: here one after the other.\<close>
definition flac_dec_decode :: "'d flac_lib \<Rightarrow> 'd flac_dec \<Rightarrow> phi_track \<Rightarrow> ('d flac_dec \<times> phi_track \<times> phi_r) option" where
  "flac_dec_decode L f t =
     (if has_flag t PHI_FFIRST then Some (f, t, PHI_DONE)
      else
        (let fl1 = (if a_seek (t_audio t) \<noteq> -1 then ffflac_dec_seek (msec_to_samples (a_seek (t_audio t)) (af_rate (fd_fmt f))) (fd_fl f)
                    else fd_fl f);
             fl2 = ffflac_dec_input (t_data_in t) (a_flac_samples (t_audio t)) (a_pos (t_audio t)) fl1;
             t1 = t\<lparr>t_data_in := []\<rparr>
         in case ffflac_decode L fl2 of
              None \<Rightarrow> None
            | Some (DWarn, fl3) \<Rightarrow> Some (f\<lparr>fd_fl := fl3\<rparr>, t1, PHI_MORE)
            | Some (_, fl3) \<Rightarrow>
                Some (f\<lparr>fd_fl := fl3\<rparr>,
                  t1\<lparr>t_audio := (t_audio t1)\<lparr>a_pos := fl_frsample fl3\<rparr>, 
                     t_data_out := concat (map (take (unat (fl_pcmlen fl3) div length (fl_out fl3))) (fl_out fl3))\<rparr>, PHI_OK)))"

section \<open>WavPack\<close>

record ffwvpk_info =
  wi_format :: u16
  wi_channels :: u8
  wi_rate :: u32
  wi_comp_level :: nat
  wi_lossless :: bool

text \<open>\<open>wavpack_info\<close>: the mode is its set of flags, by name.\<close>
record wavpack_info =
  wl_channels :: u8
  wl_rate :: u32
  wl_bps :: nat
  wl_mode :: "string list"

record 'd wavpack_lib =
  lw_init :: "'d option"
  lw_header :: "'d \<Rightarrow> bytes \<Rightarrow> wavpack_info option \<times> 'd"
  lw_decode :: "'d \<Rightarrow> bytes \<Rightarrow> u32 \<Rightarrow> int \<times> 'd \<times> bytes"

text \<open>\<open>pcm\<close>, \<open>pcm32\<close> and \<open>pcmf\<close> are one buffer.\<close>
record 'd ffwvpack_dec =
  wp_ctx :: "'d option"
  wp_info :: ffwvpk_info
  wp_frsize :: nat
  wp_hdr_done :: bool
  wp_pcm :: bytes
  wp_outcap :: u32
  wp_seek_sample :: u64
  wp_samp_idx :: u32

definition ffwvpk_dec_seek :: "u64 \<Rightarrow> 'd ffwvpack_dec \<Rightarrow> 'd ffwvpack_dec" where
  "ffwvpk_dec_seek sample w = w\<lparr>wp_seek_sample := sample\<rparr>"

text \<open>\<open>None\<close>: an unsupported format.\<close>
definition wvpk_hdrinfo :: "wavpack_info \<Rightarrow> 'd ffwvpack_dec \<Rightarrow> 'd ffwvpack_dec option" where
  "wvpk_hdrinfo i w =
     (let fmt = (if wl_bps i = 16 then Some PHI_PCM_16
                 else if wl_bps i = 32 then Some (if ''MODE_FLOAT'' \<in> set (wl_mode i) then PHI_PCM_FLOAT32 else PHI_PCM_32)
                 else None);
          lvl = (if ''MODE_EXTRA'' \<in> set (wl_mode i) then 4 else if ''MODE_VERY_HIGH'' \<in> set (wl_mode i) then 3
                 else if ''MODE_HIGH'' \<in> set (wl_mode i) then 2 else if ''MODE_FAST'' \<in> set (wl_mode i) then 1
                 else wi_comp_level (wp_info w))
      in map_option (\<lambda>f. w\<lparr>wp_info := (wp_info w)\<lparr>wi_format := f, wi_channels := wl_channels i, wi_rate := wl_rate i,
              wi_comp_level := lvl, wi_lossless := (wi_lossless (wp_info w) \<or> ''MODE_LOSSLESS'' \<in> set (wl_mode i))\<rparr>,
            wp_frsize := pcm_size f (unat (wl_channels i))\<rparr>) fmt)"

text \<open>The seek of \<open>ffwvpk_decode\<close>: the first sample, the samples left and the position.\<close>
definition wvpk_cut :: "u32 \<Rightarrow> u32 \<Rightarrow> 'd ffwvpack_dec \<Rightarrow> u32 \<times> u32 \<times> 'd ffwvpack_dec" where
  "wvpk_cut block_index n w =
     (let w1 = w\<lparr>wp_samp_idx := block_index\<rparr>
      in if wp_seek_sample w \<noteq> -1 then
           (if ucast block_index < wp_seek_sample w \<and> wp_seek_sample w < ucast (block_index + n) then
              (let isrc = ucast (wp_seek_sample w - ucast block_index) :: u32
               in (isrc, n - isrc, w1\<lparr>wp_samp_idx := block_index + isrc, wp_seek_sample := -1\<rparr>))
            else (0, n, w1\<lparr>wp_seek_sample := -1\<rparr>))
         else (0, n, w1))"

text \<open>A 32-bit integer at an offset.\<close>
definition le32_at :: "bytes \<Rightarrow> nat \<Rightarrow> u32" where
  "le32_at d off = word_of_int (le_val (take 4 (drop off d)))"

text \<open>The decoding of a block, after the header; the result is the output too.\<close>
definition wvpk_block :: "'d wavpack_lib \<Rightarrow> 'd \<Rightarrow> bytes \<Rightarrow> u32 \<Rightarrow> 'd ffwvpack_dec \<Rightarrow> (dec_r \<times> 'd ffwvpack_dec \<times> bytes) option" where
  "wvpk_block L d inp block_index w =
     (let blk = le32_at inp 20; ch = unat (wi_channels (wp_info w));
          w1 = (if wp_outcap w < blk then
                  w\<lparr>wp_pcm := take (unat blk * 4 * ch) (wp_pcm w) @ replicate (unat blk * 4 * ch - length (wp_pcm w)) 0, wp_outcap := blk\<rparr>
                else w)
      in case lw_decode L d inp (wp_outcap w1) of (n, d1, ints) \<Rightarrow>
           let w2 = w1\<lparr>wp_ctx := Some d1\<rparr>
           in if n = -1 then Some (DErr, w2, [])
              else if n = 0 then Some (DMore, w2, [])
              else do {
                mem \<leftarrow> mem_copy (wp_pcm w2) 0 ints;
                (if word_of_int n \<noteq> blk then None else
                 case wvpk_cut block_index (word_of_int n) w2 of (isrc, n1, w3) \<Rightarrow>
                   let chw = ucast (wi_channels (wp_info w3)) :: u32;
                       outlen = unat (n1 * of_nat (wp_frsize w3))
                   in
                   if wi_format (wp_info w3) = PHI_PCM_16 then do {
                     m \<leftarrow> narrow_loop 2 (unat (n1 * chw)) 0 (unat (isrc * chw)) mem;
                     Some (DData, w3\<lparr>wp_pcm := m\<rparr>, take outlen m) }
                   else if wi_format (wp_info w3) = PHI_PCM_32 \<or> wi_format (wp_info w3) = PHI_PCM_FLOAT32 then
                     Some (DData, w3\<lparr>wp_pcm := mem\<rparr>, take outlen (drop (4 * unat (isrc * chw)) mem))
                   else Some (DErr, w3\<lparr>wp_pcm := mem\<rparr>, []))
              })"

text \<open>The second result is the rest of the input.\<close>
definition ffwvpk_decode ::
    "'d wavpack_lib \<Rightarrow> 'd ffwvpack_dec \<Rightarrow> bytes \<Rightarrow> u32 \<Rightarrow> (dec_r \<times> bytes \<times> 'd ffwvpack_dec \<times> bytes) option" where
  "ffwvpk_decode L w inp block_index =
     (if inp = [] then Some (DMore, inp, w, [])
      else if \<not> wp_hdr_done w then
        (let w1 = w\<lparr>wp_hdr_done := True, wp_ctx := lw_init L\<rparr>
         in case lw_init L of
              None \<Rightarrow> Some (DErr, inp, w1, [])
            | Some d \<Rightarrow>
                (case lw_header L d inp of
                   (None, d1) \<Rightarrow> Some (DErr, inp, w1\<lparr>wp_ctx := Some d1\<rparr>, [])
                 | (Some i, d1) \<Rightarrow>
                     (case wvpk_hdrinfo i (w1\<lparr>wp_ctx := Some d1\<rparr>) of
                        None \<Rightarrow> Some (DErr, inp, w1\<lparr>wp_ctx := Some d1\<rparr>, [])
                      | Some w2 \<Rightarrow> Some (DHdr, inp, w2, []))))
      else if length inp < 6 * 4 then Some (DErr, inp, w, [])
      else case wp_ctx w of
             None \<Rightarrow> None
           | Some d \<Rightarrow> map_option (\<lambda>(r, w1, out). (r, (if r = DData then [] else inp), w1, out)) (wvpk_block L d inp block_index w))"

record 'd wvpk_dec =
  wd_wv :: "'d ffwvpack_dec"
  wd_in :: bytes
  wd_frsize :: nat
  wd_rate :: u32
  wd_delayed :: bool

definition wvpk_dec_create :: "phi_track \<Rightarrow> 'd wvpk_dec" where
  "wvpk_dec_create t =
    \<lparr>wd_wv = \<lparr>wp_ctx = None, wp_info = \<lparr>wi_format = 0, wi_channels = 0, wi_rate = 0, wi_comp_level = 0, wi_lossless = False\<rparr>,
       wp_frsize = 0, wp_hdr_done = False, wp_pcm = [], wp_outcap = 0, wp_seek_sample = -1, wp_samp_idx = 0\<rparr>,
     wd_in = [], wd_frsize = 0, wd_rate = 0, wd_delayed = False\<rparr>"

text \<open>\<open>pcm_brate\<close>, as a \<open>uint\<close>.\<close>
definition pcm_brate :: "u64 \<Rightarrow> u64 \<Rightarrow> u32 \<Rightarrow> u32" where
  "pcm_brate bytes samples rate = (if samples = 0 then 0 else ucast (bytes * 8 * ucast rate div samples))"

definition wvpk_dec_decode :: "'d wavpack_lib \<Rightarrow> 'd wvpk_dec \<Rightarrow> phi_track \<Rightarrow> ('d wvpk_dec \<times> phi_track \<times> phi_r) option" where
  "wvpk_dec_decode L w0 t =
     (let w = w0\<lparr>wd_delayed := False\<rparr>
      in if wd_delayed w0 \<and> 0 < sint (a_seek (t_audio t)) then Some (w, t, PHI_MORE)
         else
           (let w1 = (if has_flag t PHI_FFWD then w\<lparr>wd_in := t_data_in t\<rparr> else w);
                w2 = (if has_flag t PHI_FFWD \<and> a_seek (t_audio t) \<noteq> -1 then
                        w1\<lparr>wd_wv := ffwvpk_dec_seek (msec_to_samples (a_seek (t_audio t)) (wd_rate w1)) (wd_wv w1)\<rparr> else w1)
            in case ffwvpk_decode L (wd_wv w2) (wd_in w2) (ucast (a_pos (t_audio t))) of
                 None \<Rightarrow> None
               | Some (r, inp, wv, out) \<Rightarrow>
                   (let w3 = w2\<lparr>wd_wv := wv, wd_in := inp\<rparr>; i = wp_info wv
                    in case r of
                         DHdr \<Rightarrow>
                           Some (w3\<lparr>wd_rate := wi_rate i, wd_frsize := pcm_size (wi_format i) (unat (wi_channels i)), wd_delayed := True\<rparr>,
                             t\<lparr>t_audio := (t_audio t)\<lparr>a_decoder := Some ''WavPack'',
                                   a_format := \<lparr>af_format = wi_format i, af_channels = wi_channels i, af_interleaved = True, af_rate = wi_rate i\<rparr>,
                                   a_bitrate := pcm_brate (in_size (t_input t)) (a_total (t_audio t)) (wi_rate i)\<rparr>,
                               t_data_type := Some ''pcm'', t_data_out := []\<rparr>, PHI_DATA)
                       | DData \<Rightarrow> Some (w3, t\<lparr>t_audio := (t_audio t)\<lparr>a_pos := ucast (wp_samp_idx wv)\<rparr>, t_data_out := out\<rparr>, PHI_DATA)
                       | DMore \<Rightarrow> Some (w3, t, if has_flag t PHI_FFIRST then PHI_DONE else PHI_MORE)
                       | _ \<Rightarrow> Some (w3, t, PHI_ERR))))"


section \<open>ALAC\<close>

record 'd alac_lib =
  la_init :: "bytes \<Rightarrow> 'd option"
  la_decode :: "'d \<Rightarrow> bytes \<Rightarrow> int \<times> 'd \<times> bytes"

record 'd ffalac =
  al_ctx :: 'd
  al_err :: int
  al_fmt :: phi_af
  al_bitrate :: u32
  al_data :: bytes
  al_pcmlen :: u32
  al_buf :: bytes
  al_cursample :: u64
  al_seek_sample :: u64
  al_total_samples :: u64

text \<open>\<open>pcm_size1\<close> as a \<open>uint\<close>, and a 32-bit integer in network order.\<close>
definition alac_ssize :: "'d ffalac \<Rightarrow> u32" where
  "alac_ssize a = of_nat (pcm_size (af_format (al_fmt a)) (unat (af_channels (al_fmt a))))"

definition be32_at :: "bytes \<Rightarrow> nat \<Rightarrow> u32" where
  "be32_at d off = word_of_int (le_val (rev (take 4 (drop off d))))"

text \<open>\<open>None\<close>: the cookie is shorter than \<open>struct alac_conf\<close>; \<open>Some None\<close>: the library refuses it.\<close>
definition ffalac_open :: "'d alac_lib \<Rightarrow> bytes \<Rightarrow> 'd ffalac option option" where
  "ffalac_open L d =
     (case la_init L d of
        None \<Rightarrow> Some None
      | Some al \<Rightarrow>
          if length d < 24 then None
          else
            (let a = \<lparr>al_ctx = al, al_err = 0,
                      al_fmt = \<lparr>af_format = ucast (d ! 5), af_channels = d ! 9, af_interleaved = False, af_rate = be32_at d 20\<rparr>,
                      al_bitrate = be32_at d 16, al_data = [], al_pcmlen = 0, al_buf = [], al_cursample = 0, al_seek_sample = 0,
                      al_total_samples = -1\<rparr>
             in Some (Some (a\<lparr>al_buf := replicate (unat (be32_at d 0 * alac_ssize a)) 0\<rparr>))))"

definition ffalac_seek :: "u64 \<Rightarrow> 'd ffalac \<Rightarrow> 'd ffalac" where
  "ffalac_seek sample a = a\<lparr>al_seek_sample := sample\<rparr>"

text \<open>A division by 0 is \<open>None\<close>.\<close>
definition ffalac_cursample :: "'d ffalac \<Rightarrow> u64 option" where
  "ffalac_cursample a =
     (if alac_ssize a = 0 then None else Some (al_cursample a - ucast (al_pcmlen a div alac_ssize a)))"

text \<open>The first sample: \<open>ffmax((int64)(seek - cur), 0)\<close>, as a \<open>uint\<close>, and at most \<open>samps\<close>.\<close>
definition alac_off :: "u32 \<Rightarrow> 'd ffalac \<Rightarrow> u32" where
  "alac_off samps a =
     (if al_seek_sample a \<noteq> 0 then
        min (if 0 < sint (al_seek_sample a - al_cursample a) then ucast (al_seek_sample a - al_cursample a) else 0) samps
      else 0)"

text \<open>The samples of the last frame beyond \<open>total_samples\<close> are dropped.\<close>
definition alac_trunc :: "u32 \<Rightarrow> 'd ffalac \<Rightarrow> u32 \<times> 'd ffalac" where
  "alac_trunc samps a =
     (let cur = al_cursample a + ucast samps
      in if cur > al_total_samples a then
           (samps - ucast (min (cur - al_total_samples a) (ucast samps)), a\<lparr>al_cursample := al_total_samples a\<rparr>)
         else (samps, a\<lparr>al_cursample := cur\<rparr>))"

text \<open>The block is the second result; a block that is not inside of the buffer is \<open>None\<close>.\<close>
definition ffalac_decode :: "'d alac_lib \<Rightarrow> 'd ffalac \<Rightarrow> (dec_r \<times> 'd ffalac \<times> bytes) option" where
  "ffalac_decode L a =
     (case la_decode L (al_ctx a) (al_data a) of (r, d, out) \<Rightarrow>
        (case mem_copy (al_buf a) 0 out of
           None \<Rightarrow> None
         | Some buf \<Rightarrow>
             let a1 = a\<lparr>al_ctx := d, al_buf := buf\<rparr>
             in if r < 0 then Some (DErr, a1\<lparr>al_err := r\<rparr>, [])
                else if r = 0 then Some (DMore, a1, [])
                else
                  (let off = alac_off (word_of_int r) a1
                   in case alac_trunc (word_of_int r) (a1\<lparr>al_data := [], al_seek_sample := 0\<rparr>) of (samps, a2) \<Rightarrow>
                        let p = unat (off * alac_ssize a2); len = (samps - off) * alac_ssize a2
                        in if p + unat len \<le> length buf then
                             Some (DData, a2\<lparr>al_pcmlen := len\<rparr>, take (unat len) (drop p buf))
                           else None)))"

text \<open>\<open>Some (_, None)\<close>: \<open>PHI_OPEN_ERR\<close>.\<close>
definition alac_open :: "'d alac_lib \<Rightarrow> phi_track \<Rightarrow> (phi_track \<times> 'd ffalac option) option" where
  "alac_open L t =
     (case ffalac_open L (t_data_in t) of
        None \<Rightarrow> None
      | Some None \<Rightarrow> Some (t, None)
      | Some (Some a) \<Rightarrow>
          Some (t\<lparr>t_data_in := [], t_data_type := Some ''pcm'',
                  t_audio := (t_audio t)\<lparr>a_bitrate := (if al_bitrate a \<noteq> 0 then al_bitrate a else a_bitrate (t_audio t)),
                     a_format := (al_fmt a)\<lparr>af_interleaved := True\<rparr>, a_decoder := Some ''ALAC''\<rparr>\<rparr>,
                Some (a\<lparr>al_total_samples := a_total (t_audio t)\<rparr>)))"

definition alac_in_decode :: "'d alac_lib \<Rightarrow> 'd ffalac \<Rightarrow> phi_track \<Rightarrow> ('d ffalac \<times> phi_track \<times> phi_r) option" where
  "alac_in_decode L a t =
     (let ffwd = has_flag t PHI_FFWD;
          a1 = (if ffwd then a\<lparr>al_data := t_data_in t, al_cursample := a_pos (t_audio t)\<rparr> else a);
          t1 = (if ffwd then t\<lparr>t_data_in := []\<rparr> else t);
          a2 = (if ffwd \<and> a_seek (t_audio t) \<noteq> -1 then ffalac_seek (msec_to_samples (a_seek (t_audio t)) (af_rate (al_fmt a1))) a1
                else a1)
      in case ffalac_decode L a2 of
           None \<Rightarrow> None
         | Some (DErr, a3, _) \<Rightarrow> Some (a3, t1, PHI_ERR)
         | Some (DMore, a3, _) \<Rightarrow> Some (a3, t1, if has_flag t PHI_FFIRST then PHI_DONE else PHI_MORE)
         | Some (_, a3, out) \<Rightarrow>
             map_option (\<lambda>pos. (a3, t1\<lparr>t_audio := (t_audio t1)\<lparr>a_pos := pos\<rparr>, t_data_out := out\<rparr>, PHI_DATA))
               (ffalac_cursample a3))"

section \<open>Narrowing in place is correct\<close>

lemma mem_copy_drop: "mem_copy m off d = Some m' \<Longrightarrow> off + length d \<le> k \<Longrightarrow> drop k m' = drop k m"
  by (auto simp: mem_copy_def split: if_splits)

lemma mem_copy_take: "mem_copy m off d = Some m' \<Longrightarrow> k \<le> off \<Longrightarrow> take k m' = take k m"
  by (auto simp: mem_copy_def min_def split: if_splits)

lemma mem_copy_mid: "mem_copy m off d = Some m' \<Longrightarrow> take (length d) (drop off m') = d"
  by (auto simp: mem_copy_def split: if_splits)

text \<open>The \<open>w\<close> low bytes of the 32-bit sample \<open>i\<close>, and the sample \<open>i\<close> of a buffer of \<open>w\<close>-byte samples.\<close>
definition low_at :: "nat \<Rightarrow> bytes \<Rightarrow> nat \<Rightarrow> bytes" where
  "low_at w m i = take w (drop (4 * i) m)"

definition samp_at :: "nat \<Rightarrow> bytes \<Rightarrow> nat \<Rightarrow> bytes" where
  "samp_at w m i = take w (drop (w * i) m)"

lemma length_low_at: "w \<le> 4 \<Longrightarrow> 4 * i + 4 \<le> length m \<Longrightarrow> length (low_at w m i) = w"
  by (simp add: low_at_def)

text \<open>The writes stay behind the reads, so what is still to be read is unchanged.\<close>
lemma narrow_loop_frame:
  assumes "i \<le> src" and "w \<le> 4" and "4 * (src + n) \<le> length m"
  shows "\<exists>m'. narrow_loop w n i src m = Some m' \<and> length m' = length m \<and> take (w * i) m' = take (w * i) m
    \<and> (\<forall>j<n. samp_at w m' (i + j) = low_at w m (src + j))"
  using assms
proof (induction n arbitrary: i src m)
  case 0
  then show ?case by simp
next
  case (Suc n)
  have len4: "4 * src + 4 \<le> length m" using Suc.prems(3) by simp
  have ld: "length (low_at w m src) = w" using Suc.prems(2) len4 by (rule length_low_at)
  have wi: "w * i + w \<le> 4 * src + 4" using mult_le_mono [of w 4 "i + 1" "src + 1"] Suc.prems(1,2) by simp
  obtain m1 where cp: "mem_copy m (w * i) (low_at w m src) = Some m1"
    using wi len4 ld by (auto simp: mem_copy_def)
  note l1 = mem_copy_length [OF cp]
  obtain m' where m': "narrow_loop w n (i + 1) (src + 1) m1 = Some m'" and len: "length m' = length m1"
    and tk: "take (w * (i + 1)) m' = take (w * (i + 1)) m1"
    and sm: "\<forall>j<n. samp_at w m' (i + 1 + j) = low_at w m1 (src + 1 + j)"
    using Suc.IH [of "i + 1" "src + 1" m1] Suc.prems l1 by auto
  have t1: "take (w * i) m' = take (w * i) m"
    using arg_cong [OF tk, of "take (w * i)"] mem_copy_take [OF cp order_refl] by (simp add: min_def)
  have "samp_at w m' i = drop (w * i) (take (w * (i + 1)) m')" by (simp add: samp_at_def drop_take)
  also have "\<dots> = samp_at w m1 i" unfolding tk by (simp add: samp_at_def drop_take)
  also have "\<dots> = low_at w m src" using mem_copy_mid [OF cp] by (simp add: samp_at_def ld)
  finally have s0: "samp_at w m' i = low_at w m src" .
  have "samp_at w m' (i + j) = low_at w m (src + j)" if "j < Suc n" for j
  proof (cases j)
    case 0
    then show ?thesis using s0 by simp
  next
    case (Suc k)
    have "low_at w m1 (src + 1 + k) = low_at w m (src + 1 + k)"
      using mem_copy_drop [OF cp, of "4 * (src + 1 + k)"] wi ld by (simp add: low_at_def)
    then show ?thesis using sm that Suc by auto
  qed
  moreover have "narrow_loop w (Suc n) i src m = Some m'" using m' cp len4 by (simp add: low_at_def)
  ultimately show ?case using len l1 t1 by auto
qed

text \<open>The bytes of \<open>n\<close> samples are the samples, one after the other.\<close>
lemma take_samps: "w * (i + n) \<le> length m \<Longrightarrow> take (w * n) (drop (w * i) m) = concat (map (samp_at w m) [i..<i + n])"
proof (induction n)
  case (Suc n)
  have "take (w * Suc n) (drop (w * i) m) = take (w * n) (drop (w * i) m) @ take w (drop (w * n) (drop (w * i) m))"
    using take_add [of "w * n" w "drop (w * i) m"] by (simp add: add.commute)
  also have "take w (drop (w * n) (drop (w * i) m)) = samp_at w m (i + n)"
    by (simp add: samp_at_def add_mult_distrib2 add.commute)
  also have "take (w * n) (drop (w * i) m) = concat (map (samp_at w m) [i..<i + n])"
    using Suc.IH Suc.prems by (simp add: add_mult_distrib2)
  finally show ?case by simp
qed simp

lemma narrow_loop_block:
  assumes "w \<le> 4" and "4 * (src + n) \<le> length m"
  shows "\<exists>m'. narrow_loop w n 0 src m = Some m' \<and> length m' = length m
    \<and> take (w * n) m' = concat (map (low_at w m) [src..<src + n])"
proof -
  obtain m' where m': "narrow_loop w n 0 src m = Some m'" and l: "length m' = length m"
    and s: "\<forall>j<n. samp_at w m' (0 + j) = low_at w m (src + j)"
    using narrow_loop_frame [of 0 src w n m] assms by auto
  have "w * n \<le> length m'" using l assms mult_le_mono [of w 4 n "src + n"] by simp
  then have "take (w * n) m' = concat (map (samp_at w m') [0..<n])" using take_samps [of w 0 n m'] by simp
  also have "map (samp_at w m') [0..<n] = map (\<lambda>j. low_at w m (src + j)) [0..<n]" using s by simp
  also have "\<dots> = map (low_at w m) [src..<src + n]" by (intro nth_equalityI) simp_all
  finally show ?thesis using m' l by blast
qed

lemma pcm_from32_blocks:
  assumes "bits \<in> {8, 16, 24}" and "\<forall>b\<in>set bufs. 4 * (src + n) \<le> length b"
  shows "\<exists>out. pcm_from32 bits n src bufs = Some out \<and> length out = length bufs
    \<and> map (take (bits div 8 * n)) out = map (\<lambda>b. concat (map (low_at (bits div 8) b) [src..<src + n])) bufs"
proof -
  let ?w = "bits div 8"
  have w: "?w \<le> 4" using assms(1) by auto
  have "\<exists>out. those (map (narrow_loop ?w n 0 src) bufs) = Some out \<and> length out = length bufs
      \<and> map (take (?w * n)) out = map (\<lambda>b. concat (map (low_at ?w b) [src..<src + n])) bufs"
    using assms(2)
  proof (induction bufs)
    case (Cons b bufs)
    then show ?case using narrow_loop_block [OF w, of src n b] by fastforce
  qed simp
  then show ?thesis using assms(1) by (simp add: pcm_from32_def)
qed

section \<open>Decoders that start at the requested sample\<close>

text \<open>The frames of a track, each step of the decoder with its output; the request to seek is gone after the first.\<close>
fun frames_run :: "('s \<Rightarrow> u64 \<Rightarrow> nat \<Rightarrow> 'f \<Rightarrow> ('s \<times> nat \<times> bytes) option) \<Rightarrow> ('f \<Rightarrow> 'c list) \<Rightarrow> 's \<Rightarrow> u64 \<Rightarrow> nat \<Rightarrow> 'f list
    \<Rightarrow> (nat \<times> bytes) list option" where
  "frames_run step samples s sk p [] = Some []"
| "frames_run step samples s sk p (f # fs) =
     (case step s sk p f of
        None \<Rightarrow> None
      | Some (s', q, out) \<Rightarrow> map_option ((#) (q, out)) (frames_run step samples s' (-1) (p + length (samples f)) fs))"

text \<open>Blocks of samples without a gap from the sample \<open>q\<close> on.\<close>
fun timeline :: "('c list \<Rightarrow> bytes) \<Rightarrow> nat \<Rightarrow> 'c list list \<Rightarrow> (nat \<times> bytes) list" where
  "timeline enc q [] = []"
| "timeline enc q (b # bs) = (q, enc b) # timeline enc (q + length b) bs"

text \<open>
  A decoder gets the frames of a container, each with the position of its first sample, and possibly a time to seek
  to. Its contract: a frame that holds the requested sample is cut before it, any other frame is passed on whole;
  the position that is reported is the one of the first sample that is passed on. \<open>samples\<close> are those of a frame,
  \<open>enc\<close> is their representation in the output, \<open>target\<close> the sample of a time.
\<close>
locale frame_decoder =
  fixes step :: "'s \<Rightarrow> u64 \<Rightarrow> nat \<Rightarrow> 'f \<Rightarrow> ('s \<times> nat \<times> bytes) option"
    and inv :: "'s \<Rightarrow> bool"
    and good :: "'f \<Rightarrow> bool"
    and lim :: nat
    and target :: "u64 \<Rightarrow> nat"
    and samples :: "'f \<Rightarrow> 'c list"
    and enc :: "'c list \<Rightarrow> bytes"
  assumes step_whole: "inv s \<Longrightarrow> good f \<Longrightarrow> p + length (samples f) < lim \<Longrightarrow> sk = -1 \<or> target sk \<le> p \<Longrightarrow>
      \<exists>s'. step s sk p f = Some (s', p, enc (samples f)) \<and> inv s'"
    and step_cut: "inv s \<Longrightarrow> good f \<Longrightarrow> p + length (samples f) < lim \<Longrightarrow> sk \<noteq> -1 \<Longrightarrow> p < target sk \<Longrightarrow>
      target sk < p + length (samples f) \<Longrightarrow>
      \<exists>s'. step s sk p f = Some (s', target sk, enc (drop (target sk - p) (samples f))) \<and> inv s'"
begin

lemma run_whole:
  assumes "inv s" and "\<forall>f\<in>set fs. good f" and "p + length (concat (map samples fs)) < lim"
  shows "frames_run step samples s (-1) p fs = Some (timeline enc p (map samples fs))"
  using assms
proof (induction fs arbitrary: s p)
  case (Cons f fs)
  obtain s' where "step s (-1) p f = Some (s', p, enc (samples f))" and "inv s'"
    using step_whole [of s f p "-1"] Cons.prems by auto
  then show ?case using Cons.IH [of s' "p + length (samples f)"] Cons.prems by (simp add: add.assoc)
qed simp

lemma run_exact:
  assumes "inv s" and "\<forall>f'\<in>set (f # fs). good f'" and "p + length (concat (map samples (f # fs))) < lim"
    and "sk \<noteq> -1" and "p \<le> target sk" and "target sk < p + length (samples f)"
  shows "frames_run step samples s sk p (f # fs)
    = Some (timeline enc (target sk) (drop (target sk - p) (samples f) # map samples fs))"
proof -
  have "\<exists>s'. step s sk p f = Some (s', target sk, enc (drop (target sk - p) (samples f))) \<and> inv s'"
  proof (cases "p = target sk")
    case True
    then show ?thesis using step_whole [of s f p sk] assms by simp
  next
    case False
    then show ?thesis using step_cut [of s f p sk] assms by simp
  qed
  then obtain s' where "step s sk p f = Some (s', target sk, enc (drop (target sk - p) (samples f)))" and "inv s'"
    by blast
  then show ?thesis using run_whole [of s' fs "p + length (samples f)"] assms by (simp add: add.assoc add.commute)
qed

end

text \<open>The packet of a frame as the chain hands it to a decoder.\<close>
definition frame_packet :: "phi_track \<Rightarrow> u64 \<Rightarrow> nat \<Rightarrow> bytes \<Rightarrow> u32 \<Rightarrow> phi_track" where
  "frame_packet t sk p f n =
     t\<lparr>t_chain_flags := PHI_FFWD, t_data_in := f,
       t_audio := (t_audio t)\<lparr>a_seek := sk, a_pos := of_nat p, a_flac_samples := n\<rparr>\<rparr>"

text \<open>What the next filter sees of a step that ends with \<open>r\<close>.\<close>
definition step_view :: "phi_r \<Rightarrow> ('s \<times> phi_track \<times> phi_r) option \<Rightarrow> ('s \<times> nat \<times> bytes) option" where
  "step_view r0 x = (case x of Some (s, t, r) \<Rightarrow> if r = r0 then Some (s, unat (a_pos (t_audio t)), t_data_out t) else None | None \<Rightarrow> None)"

lemma frame_packet_sel [simp]:
  "t_data_in (frame_packet t sk p f n) = f" "a_seek (t_audio (frame_packet t sk p f n)) = sk"
  "a_pos (t_audio (frame_packet t sk p f n)) = of_nat p" "a_flac_samples (t_audio (frame_packet t sk p f n)) = n"
  "has_flag (frame_packet t sk p f n) PHI_FFWD" "\<not> has_flag (frame_packet t sk p f n) PHI_FFIRST"
  by (simp_all add: frame_packet_def has_flag_def phi_f_defs)

subsection \<open>FLAC\<close>

text \<open>Documented behaviour of libFLAC: a good frame decodes to one buffer of 32-bit samples per channel.\<close>
definition flac_n :: "(bytes \<Rightarrow> bytes list) \<Rightarrow> bytes \<Rightarrow> nat" where
  "flac_n bufs f = length (hd (bufs f)) div 4"

definition flac_good :: "nat \<Rightarrow> (bytes \<Rightarrow> bytes list) \<Rightarrow> bytes \<Rightarrow> bool" where
  "flac_good ch bufs f \<longleftrightarrow> length (bufs f) = ch \<and> (\<forall>b\<in>set (bufs f). length b = 4 * flac_n bufs f) \<and> flac_n bufs f < 2 ^ 32"

definition flac_law :: "'d flac_lib \<Rightarrow> nat \<Rightarrow> (bytes \<Rightarrow> bytes list) \<Rightarrow> bool" where
  "flac_law L ch bufs \<longleftrightarrow> (\<forall>d f. flac_good ch bufs f \<longrightarrow> (\<exists>d'. lf_decode L d f = (0, d', bufs f)))"

text \<open>The samples of a frame: for each of them the bytes of the channels. The output has one channel after the other.\<close>
definition flac_samples :: "(bytes \<Rightarrow> bytes list) \<Rightarrow> nat \<Rightarrow> bytes \<Rightarrow> bytes list list" where
  "flac_samples bufs w f = map (\<lambda>i. map (\<lambda>b. low_at w b i) (bufs f)) [0..<flac_n bufs f]"

definition planar :: "nat \<Rightarrow> bytes list list \<Rightarrow> bytes" where
  "planar ch ss = concat (map (\<lambda>c. concat (map (\<lambda>s. s ! c) ss)) [0..<ch])"

definition flac_inv :: "'d flac_lib \<Rightarrow> (bytes \<Rightarrow> bytes list) \<Rightarrow> nat \<Rightarrow> nat \<Rightarrow> u32 \<Rightarrow> 'd flac_dec \<Rightarrow> bool" where
  "flac_inv L bufs ch w rate s \<longleftrightarrow> flac_law L ch bufs \<and> 0 < ch \<and> ch < 256 \<and> w \<in> {1, 2, 3}
     \<and> fi_channels (fl_info (fd_fl s)) = ch \<and> fi_bits (fl_info (fd_fl s)) = 8 * w \<and> af_rate (fd_fmt s) = rate
     \<and> fl_seeksample (fd_fl s) = 0"

definition flac_step :: "'d flac_lib \<Rightarrow> (bytes \<Rightarrow> bytes list) \<Rightarrow> phi_track \<Rightarrow> 'd flac_dec \<Rightarrow> u64 \<Rightarrow> nat \<Rightarrow> bytes
    \<Rightarrow> ('d flac_dec \<times> nat \<times> bytes) option" where
  "flac_step L bufs t s sk p f = step_view PHI_OK (flac_dec_decode L s (frame_packet t sk p f (of_nat (flac_n bufs f))))"

abbreviation target_of :: "u32 \<Rightarrow> u64 \<Rightarrow> nat" where
  "target_of rate sk \<equiv> unat (msec_to_samples sk rate)"

lemma length_flac_samples [simp]: "length (flac_samples bufs w f) = flac_n bufs f"
  by (simp add: flac_samples_def)

lemma planar_drop:
  assumes "length (bufs f) = ch"
  shows "planar ch (drop k (flac_samples bufs w f))
    = concat (map (\<lambda>b. concat (map (low_at w b) [k..<flac_n bufs f])) (bufs f))"
proof -
  have "map (\<lambda>c. concat (map (\<lambda>s. s ! c) (drop k (flac_samples bufs w f)))) [0..<ch]
      = map (\<lambda>b. concat (map (low_at w b) [k..<flac_n bufs f])) (bufs f)"
    using assms by (intro nth_equalityI) (simp_all add: flac_samples_def drop_map drop_upt o_def)
  then show ?thesis by (simp only: planar_def)
qed

text \<open>The call of the library and the conversion, once the cut is known.\<close>
lemma ffflac_decode_block:
  assumes law: "flac_law L ch bufs" "flac_good ch bufs (fl_in g)" and ch: "0 < ch" "ch < 256"
    and w: "w \<in> {1, 2, 3}" "fi_channels (fl_info g) = ch" "fi_bits (fl_info g) = 8 * w"
    and cut: "\<And>d. flac_cut (g\<lparr>fl_dec := d\<rparr>) = (src, g\<lparr>fl_dec := d, fl_pcmlen := n, fl_frsample := q, fl_seeksample := 0\<rparr>)"
    and n: "unat src + unat n = flac_n bufs (fl_in g)"
  shows "\<exists>g'. ffflac_decode L g = Some (DData, g') \<and> fl_info g' = fl_info g \<and> fl_seeksample g' = 0 \<and> fl_frsample g' = q
    \<and> concat (map (take (unat (fl_pcmlen g') div length (fl_out g'))) (fl_out g'))
      = planar ch (drop (unat src) (flac_samples bufs w (fl_in g)))"
proof -
  obtain d' where d': "lf_decode L (fl_dec g) (fl_in g) = (0, d', bufs (fl_in g))"
    using law by (auto simp: flac_law_def)
  have len: "length (bufs (fl_in g)) = ch" and big: "\<forall>b\<in>set (bufs (fl_in g)). length b = 4 * flac_n bufs (fl_in g)"
    and lt: "flac_n bufs (fl_in g) < 2 ^ 32"
    using law(2) by (auto simp: flac_good_def)
  have un: "unat (ucast n :: u32) = unat n" using n lt by (simp add: unsigned_ucast_eq take_bit_nat_eq_self)
  have b8: "fi_bits (fl_info g) \<in> {8, 16, 24}" and w8: "8 * w div 8 = w" using w by auto
  obtain out where out: "pcm_from32 (fi_bits (fl_info g)) (unat n) (unat src) (bufs (fl_in g)) = Some out"
    and lo: "length out = ch"
    and eq: "map (take (w * unat n)) out
      = map (\<lambda>b. concat (map (low_at w b) [unat src..<unat src + unat n])) (bufs (fl_in g))"
    using pcm_from32_blocks [OF b8, of "bufs (fl_in g)" "unat src" "unat n"] big n len w by auto
  have wc: "w * ch \<le> 3 * 256" using w(1) ch by (intro mult_le_mono) auto
  have "unat n * (w * ch) < 2 ^ 64"
  proof -
    have "unat n \<le> 2 ^ 32" using n lt by simp
    with wc have "unat n * (w * ch) \<le> 2 ^ 32 * (3 * 256)" by (rule mult_le_mono [rotated])
    then show ?thesis by simp
  qed
  moreover define m :: u64 where "m = of_nat (w * ch)"
  moreover have um: "unat m = w * ch"
    unfolding m_def using wc by (subst unat_of_nat) (simp add: take_bit_nat_eq_self)
  ultimately have pl: "unat (n * m) = unat n * (w * ch)"
    using unat_mult_lem [of n m] by simp
  have dv: "unat n * (w * ch) div ch = w * unat n"
    using ch by (metis less_numeral_extra(3) mult.assoc mult.commute nonzero_mult_div_cancel_right)
  let ?g' = "g\<lparr>fl_dec := d', fl_pcmlen := n * m, fl_frsample := q, fl_seeksample := 0, fl_out := out\<rparr>"
  have "ffflac_decode L g = Some (DData, ?g')"
    using d' cut [of d'] out un len w8 w by (simp add: ffflac_decode_def Let_def m_def)
  moreover have "concat (map (take (unat (fl_pcmlen ?g') div length (fl_out ?g'))) (fl_out ?g'))
      = planar ch (drop (unat src) (flac_samples bufs w (fl_in g)))"
    using planar_drop [where bufs = bufs and f = "fl_in g" and k = "unat src" and w = w, OF len] pl dv lo eq n by simp
  ultimately show ?thesis by auto
qed

lemma flac_step_block:
  assumes inv: "flac_inv L bufs ch w rate s" and good: "flac_good ch bufs f"
    and g: "g = ffflac_dec_input f (of_nat (flac_n bufs f)) (of_nat p)
       (if sk \<noteq> -1 then ffflac_dec_seek (msec_to_samples sk rate) (fd_fl s) else fd_fl s)"
    and cut: "\<And>d. flac_cut (g\<lparr>fl_dec := d\<rparr>) = (src, g\<lparr>fl_dec := d, fl_pcmlen := n, fl_frsample := q, fl_seeksample := 0\<rparr>)"
    and n: "unat src + unat n = flac_n bufs f"
  shows "\<exists>s'. flac_step L bufs t s sk p f = Some (s', unat q, planar ch (drop (unat src) (flac_samples bufs w f)))
    \<and> flac_inv L bufs ch w rate s'"
proof -
  note i = inv [unfolded flac_inv_def]
  have gin: "fl_in g = f" "fl_info g = fl_info (fd_fl s)"
    by (simp_all add: g ffflac_dec_input_def ffflac_dec_seek_def)
  have law: "flac_law L ch bufs" and ch: "0 < ch" "ch < 256" and wd: "w \<in> {1, 2, 3}" using i by simp_all
  have wc: "fi_channels (fl_info g) = ch" and wb: "fi_bits (fl_info g) = 8 * w" using i gin by simp_all
  have gd: "flac_good ch bufs (fl_in g)" and ng: "unat src + unat n = flac_n bufs (fl_in g)" using good n gin by simp_all
  obtain g' where g': "ffflac_decode L g = Some (DData, g')" and inf: "fl_info g' = fl_info (fd_fl s)"
    and sk0: "fl_seeksample g' = 0" and q: "fl_frsample g' = q"
    and out: "concat (map (take (unat (fl_pcmlen g') div length (fl_out g'))) (fl_out g'))
      = planar ch (drop (unat src) (flac_samples bufs w f))"
    using ffflac_decode_block [OF law gd ch wd wc wb cut ng] unfolding gin by (elim exE conjE)
  have fmt: "af_rate (fd_fmt s) = rate" using i by simp
  have "flac_step L bufs t s sk p f
      = Some (s\<lparr>fd_fl := g'\<rparr>, unat q, planar ch (drop (unat src) (flac_samples bufs w f)))"
    using g' out q fmt by (simp add: flac_step_def step_view_def flac_dec_decode_def Let_def g split del: if_split cong: if_cong)
  moreover have "flac_inv L bufs ch w rate (s\<lparr>fd_fl := g'\<rparr>)" using i inf sk0 by (simp add: flac_inv_def)
  ultimately show ?thesis by blast
qed

lemma u64_pos:
  assumes "p + k < 2 ^ 63"
  shows "unat (of_nat p :: u64) = p" "k < 2 ^ 32 \<Longrightarrow> unat (of_nat p + ucast (of_nat k :: u32) :: u64) = p + k"
proof -
  have p: "unat (of_nat p :: u64) = p" using assms by (simp add: unat_of_nat take_bit_nat_eq_self)
  show "unat (of_nat p :: u64) = p" by (fact p)
  assume "k < 2 ^ 32"
  then have "unat (ucast (of_nat k :: u32) :: u64) = k" by (simp add: unat_of_nat take_bit_nat_eq_self)
  then show "unat (of_nat p + ucast (of_nat k :: u32) :: u64) = p + k"
    using p assms by (subst unat_add_small) simp_all
qed

lemma flac_step_whole:
  assumes "flac_inv L bufs ch w rate s" and "flac_good ch bufs f" and "p + length (flac_samples bufs w f) < 2 ^ 63"
    and "sk = -1 \<or> target_of rate sk \<le> p"
  shows "\<exists>s'. flac_step L bufs t s sk p f = Some (s', p, planar ch (flac_samples bufs w f)) \<and> flac_inv L bufs ch w rate s'"
proof -
  have n: "flac_n bufs f < 2 ^ 32" and pn: "p + flac_n bufs f < 2 ^ 63"
    using assms(2,3) by (simp_all add: flac_good_def)
  let ?n = "ucast (of_nat (flac_n bufs f) :: u32) :: u64"
  have un: "unat ?n = flac_n bufs f" using n by (simp add: unat_of_nat take_bit_nat_eq_self)
  define g where "g = ffflac_dec_input f (of_nat (flac_n bufs f)) (of_nat p)
       (if sk \<noteq> -1 then ffflac_dec_seek (msec_to_samples sk rate) (fd_fl s) else fd_fl s)"
  have z: "fl_seeksample (fd_fl s) = 0" using assms(1) by (simp add: flac_inv_def)
  have "fl_seeksample g = 0 \<or> \<not> fl_frsample g < fl_seeksample g"
    using assms(4) z u64_pos(1) [OF pn] by (auto simp: g_def ffflac_dec_input_def ffflac_dec_seek_def word_less_nat_alt)
  moreover have "fl_pcmlen g = ?n" "fl_frsample g = of_nat p"
    by (simp_all add: g_def ffflac_dec_input_def ffflac_dec_seek_def)
  ultimately have "flac_cut (g\<lparr>fl_dec := d\<rparr>) = (0, g\<lparr>fl_dec := d, fl_pcmlen := ?n, fl_frsample := of_nat p, fl_seeksample := 0\<rparr>)" for d
    by (cases g) (auto simp: flac_cut_def)
  then show ?thesis
    using flac_step_block [OF assms(1,2) g_def, where src = 0 and n = ?n and q = "of_nat p" and t = t] un u64_pos(1) [OF pn]
    by simp
qed

lemma flac_step_cut:
  assumes "flac_inv L bufs ch w rate s" and "flac_good ch bufs f" and "p + length (flac_samples bufs w f) < 2 ^ 63"
    and "sk \<noteq> -1" and "p < target_of rate sk" and "target_of rate sk < p + length (flac_samples bufs w f)"
  shows "\<exists>s'. flac_step L bufs t s sk p f
      = Some (s', target_of rate sk, planar ch (drop (target_of rate sk - p) (flac_samples bufs w f)))
    \<and> flac_inv L bufs ch w rate s'"
proof -
  have n: "flac_n bufs f < 2 ^ 32" and pn: "p + flac_n bufs f < 2 ^ 63"
    using assms(2,3) by (simp_all add: flac_good_def)
  let ?n = "ucast (of_nat (flac_n bufs f) :: u32) :: u64" and ?k = "msec_to_samples sk rate"
  let ?d = "?k - of_nat p"
  let ?src = "ucast ?d :: u32"
  note up = u64_pos [OF pn]
  have un: "unat ?n = flac_n bufs f" using n by (simp add: unat_of_nat take_bit_nat_eq_self)
  have "of_nat p \<le> ?k" using assms(5) up(1) by (simp add: word_le_nat_alt)
  then have ud: "unat ?d = unat ?k - p" using up(1) by (simp add: unat_diff_le)
  then have us: "unat ?src = unat ?k - p"
    using assms(6) n by (simp add: unsigned_ucast_eq take_bit_nat_eq_self)
  have uss: "unat (ucast ?src :: u64) = unat ?k - p" using us by simp
  have "ucast ?src \<le> ?n" using assms(6) un uss by (simp add: word_le_nat_alt)
  then have unn: "unat (?n - ucast ?src) = flac_n bufs f - (unat ?k - p)" using un uss by (simp add: unat_diff_le)
  define g where "g = ffflac_dec_input f (of_nat (flac_n bufs f)) (of_nat p)
       (if sk \<noteq> -1 then ffflac_dec_seek ?k (fd_fl s) else fd_fl s)"
  have sel: "fl_pcmlen g = ?n" "fl_frsample g = of_nat p" "fl_seeksample g = ?k"
    using assms(4) by (simp_all add: g_def ffflac_dec_input_def ffflac_dec_seek_def)
  have "?k \<noteq> 0" "of_nat p < ?k" "?k < of_nat p + ?n"
    using assms(5,6) up n by (auto simp: word_less_nat_alt)
  then have "flac_cut (g\<lparr>fl_dec := d\<rparr>)
      = (?src, g\<lparr>fl_dec := d, fl_pcmlen := ?n - ucast ?src, fl_frsample := ?k, fl_seeksample := 0\<rparr>)" for d
    by (simp add: flac_cut_def sel Let_def)
  from flac_step_block [OF assms(1,2) g_def this, of t] us unn assms(5,6) show ?thesis by simp
qed

interpretation fld: frame_decoder "flac_step L bufs t" "flac_inv L bufs ch w rate" "flac_good ch bufs" "2 ^ 63"
    "target_of rate" "flac_samples bufs w" "planar ch"
  for L :: "'d flac_lib" and bufs t ch w rate
  by unfold_locales (fact flac_step_whole, fact flac_step_cut)

subsection \<open>WavPack\<close>

text \<open>Documented behaviour of libwavpack: the interleaved 32-bit samples of a block that fits in the buffer.\<close>
definition wv_n :: "bytes \<Rightarrow> nat" where
  "wv_n f = unat (le32_at f 20)"

definition wv_good :: "nat \<Rightarrow> (bytes \<Rightarrow> bytes) \<Rightarrow> bytes \<Rightarrow> bool" where
  "wv_good ch ints f \<longleftrightarrow> 24 \<le> length f \<and> 0 < wv_n f \<and> length (ints f) = 4 * (ch * wv_n f) \<and> 4 * (ch * wv_n f) < 2 ^ 32"

definition wavpack_law :: "'d wavpack_lib \<Rightarrow> nat \<Rightarrow> (bytes \<Rightarrow> bytes) \<Rightarrow> bool" where
  "wavpack_law L ch ints \<longleftrightarrow> (\<forall>d f cap. wv_good ch ints f \<and> wv_n f \<le> unat cap \<longrightarrow>
     (\<exists>d'. lw_decode L d f cap = (int (wv_n f), d', ints f)))"

definition wv_samples :: "(bytes \<Rightarrow> bytes) \<Rightarrow> nat \<Rightarrow> nat \<Rightarrow> bytes \<Rightarrow> bytes list" where
  "wv_samples ints ch w f = map (\<lambda>i. concat (map (low_at w (ints f)) [ch * i..<ch * (i + 1)])) [0..<wv_n f]"

definition wv_fmt_ok :: "u16 \<Rightarrow> nat \<Rightarrow> bool" where
  "wv_fmt_ok fmt w \<longleftrightarrow> fmt = PHI_PCM_16 \<and> w = 2 \<or> (fmt = PHI_PCM_32 \<or> fmt = PHI_PCM_FLOAT32) \<and> w = 4"

definition wv_inv :: "'d wavpack_lib \<Rightarrow> (bytes \<Rightarrow> bytes) \<Rightarrow> nat \<Rightarrow> nat \<Rightarrow> u32 \<Rightarrow> 'd wvpk_dec \<Rightarrow> bool" where
  "wv_inv L ints ch w rate s \<longleftrightarrow> wavpack_law L ch ints \<and> 0 < ch \<and> unat (wi_channels (wp_info (wd_wv s))) = ch
     \<and> wv_fmt_ok (wi_format (wp_info (wd_wv s))) w \<and> wp_frsize (wd_wv s) = w * ch \<and> wp_hdr_done (wd_wv s)
     \<and> wp_ctx (wd_wv s) \<noteq> None \<and> length (wp_pcm (wd_wv s)) = unat (wp_outcap (wd_wv s)) * 4 * ch
     \<and> wp_seek_sample (wd_wv s) = -1 \<and> wd_rate s = rate \<and> \<not> wd_delayed s"

definition wv_step :: "'d wavpack_lib \<Rightarrow> phi_track \<Rightarrow> 'd wvpk_dec \<Rightarrow> u64 \<Rightarrow> nat \<Rightarrow> bytes
    \<Rightarrow> ('d wvpk_dec \<times> nat \<times> bytes) option" where
  "wv_step L t s sk p f = step_view PHI_DATA (wvpk_dec_decode L s (frame_packet t sk p f 0))"

lemma length_wv_samples [simp]: "length (wv_samples ints ch w f) = wv_n f"
  by (simp add: wv_samples_def)

lemma concat_blocks:
  "concat (map (\<lambda>i. concat (map g [ch * i..<ch * (i + 1)])) [a..<a + k]) = concat (map g [ch * a..<ch * (a + k)])"
proof (induction k)
  case (Suc k)
  have "[ch * a..<ch * (a + Suc k)] = [ch * a..<ch * (a + k)] @ [ch * (a + k)..<ch * (a + k + 1)]"
    using upt_add_eq_append [of "ch * a" "ch * (a + k)" ch] by (simp add: add_mult_distrib2 add.commute add.left_commute)
  then show ?case using Suc.IH by simp
qed simp

lemma wv_samples_drop:
  "a \<le> wv_n f \<Longrightarrow> concat (drop a (wv_samples ints ch w f)) = concat (map (low_at w (ints f)) [ch * a..<ch * wv_n f])"
  using concat_blocks [of "low_at w (ints f)" ch a "wv_n f - a"] by (simp add: wv_samples_def drop_map drop_upt)

text \<open>Only the samples that the library has stored are read.\<close>
lemma low_at_prefix: "w \<le> 4 \<Longrightarrow> 4 * i + 4 \<le> length x \<Longrightarrow> low_at w (x @ y) i = low_at w x i"
  by (simp add: low_at_def)

lemma low4_block: "4 * (i + n) \<le> length m \<Longrightarrow> take (4 * n) (drop (4 * i) m) = concat (map (low_at 4 m) [i..<i + n])"
  using take_samps [of 4 i n m] by (simp add: samp_at_def low_at_def [abs_def] samp_at_def [abs_def])

lemma unat_ucast_u8: "unat (ucast (c :: u8) :: u32) = unat c"
proof -
  have "unat c < 2 ^ 32" using unsigned_less [of c] by (rule less_le_trans) simp
  then show ?thesis by (simp add: unsigned_ucast_eq take_bit_nat_eq_self)
qed

lemma u32_mult_small: "unat (a :: u32) * k < 2 ^ 32 \<Longrightarrow> unat m = k \<Longrightarrow> unat (a * m) = unat a * k"
  using unat_mult_lem [of a m] by simp

lemma wvpk_block_out:
  fixes v :: "'d ffwvpack_dec"
  assumes law: "wavpack_law L ch ints" "wv_good ch ints f"
    and ch: "unat (wi_channels (wp_info v)) = ch" and fmt: "wv_fmt_ok (wi_format (wp_info v)) w"
    and fr: "wp_frsize v = w * ch" and buf: "length (wp_pcm v) = unat (wp_outcap v) * 4 * ch"
    and cut: "\<forall>u :: 'd ffwvpack_dec. wp_seek_sample u = wp_seek_sample v \<longrightarrow>
      wvpk_cut bi (le32_at f 20) u = (src, n, u\<lparr>wp_samp_idx := q, wp_seek_sample := -1\<rparr>)"
    and n: "unat src + unat n = wv_n f"
  shows "\<exists>v'. wvpk_block L d f bi v = Some (DData, v', concat (drop (unat src) (wv_samples ints ch w f)))
    \<and> wp_info v' = wp_info v \<and> wp_frsize v' = w * ch \<and> wp_hdr_done v' = wp_hdr_done v \<and> wp_ctx v' \<noteq> None
    \<and> length (wp_pcm v') = unat (wp_outcap v') * 4 * ch \<and> wp_seek_sample v' = -1 \<and> wp_samp_idx v' = q"
proof -
  let ?blk = "le32_at f 20"
  define v1 where "v1 = (if wp_outcap v < ?blk then
      v\<lparr>wp_pcm := take (unat ?blk * 4 * ch) (wp_pcm v) @ replicate (unat ?blk * 4 * ch - length (wp_pcm v)) 0, wp_outcap := ?blk\<rparr>
    else v)"
  have l1: "length (wp_pcm v1) = unat (wp_outcap v1) * 4 * ch" and cap: "wv_n f \<le> unat (wp_outcap v1)"
    using buf by (auto simp: v1_def wv_n_def word_less_nat_alt min_def)
  have v1: "wp_info v1 = wp_info v" "wp_frsize v1 = w * ch" "wp_seek_sample v1 = wp_seek_sample v" "wp_hdr_done v1 = wp_hdr_done v"
    using fr by (simp_all add: v1_def)
  obtain d' where d': "lw_decode L d f (wp_outcap v1) = (int (wv_n f), d', ints f)"
    using law cap unfolding wavpack_law_def by blast
  have li: "length (ints f) = 4 * (ch * wv_n f)" and lt: "4 * (ch * wv_n f) < 2 ^ 32" and n0: "0 < wv_n f"
    using law(2) by (simp_all add: wv_good_def)
  have le: "4 * (ch * wv_n f) \<le> length (wp_pcm v1)"
    using l1 mult_le_mono2 [OF cap, of "4 * ch"] by (simp add: mult.assoc mult.left_commute mult.commute)
  define mem where "mem = ints f @ drop (length (ints f)) (wp_pcm v1)"
  have mem: "mem_copy (wp_pcm v1) 0 (ints f) = Some mem" and lm: "length mem = length (wp_pcm v1)"
    using le li by (simp_all add: mem_copy_def mem_def)
  have blk: "word_of_int (int (wv_n f)) = ?blk" by (simp add: wv_n_def)
  have w4: "w \<le> 4" using fmt by (auto simp: wv_fmt_ok_def)
  have sp: "unat src * ch + unat n * ch = ch * wv_n f" using n by (metis add_mult_distrib mult.commute)
  have uch: "unat (ucast (wi_channels (wp_info v)) :: u32) = ch"
    using ch by (simp add: unat_ucast_u8)
  have nch: "unat n * ch < 2 ^ 32" "unat src * ch < 2 ^ 32" using sp lt by simp_all
  have i1: "unat (n * ucast (wi_channels (wp_info v))) = unat n * ch"
    and i2: "unat (src * ucast (wi_channels (wp_info v))) = unat src * ch"
    using nch uch by (simp_all add: u32_mult_small)
  have wn: "w * (unat n * ch) \<le> 4 * (ch * wv_n f)" using mult_le_mono [OF w4, of "unat n" "wv_n f"] n by simp
  have wc: "w * ch \<le> 4 * (ch * wv_n f)" using mult_le_mono [OF w4, of ch "ch * wv_n f"] n0 by simp
  have uw: "unat (of_nat (w * ch) :: u32) = w * ch"
    using le_less_trans [OF wc lt] by (subst unat_of_nat) simp
  have "unat n * (w * ch) < 2 ^ 32" using le_less_trans [OF wn lt] by (simp only: mult.left_commute)
  then have i3: "unat (n * of_nat (w * ch)) = w * (unat n * ch)"
    using u32_mult_small [OF _ uw, of n] by (simp only: mult.left_commute)
  have lows: "map (low_at w mem) [unat src * ch..<unat src * ch + unat n * ch]
      = map (low_at w (ints f)) [ch * unat src..<ch * wv_n f]"
    unfolding sp using li by (intro map_cong) (simp_all add: mem_def low_at_prefix [OF w4] mult.commute)
  have out: "concat (map (low_at w mem) [unat src * ch..<unat src * ch + unat n * ch])
      = concat (drop (unat src) (wv_samples ints ch w f))"
    unfolding lows using n by (subst wv_samples_drop) simp_all
  have bnd: "4 * (unat src * ch + unat n * ch) \<le> length mem" unfolding sp lm by (rule le)
  let ?v = "v1\<lparr>wp_ctx := Some d', wp_samp_idx := q, wp_seek_sample := -1\<rparr>"
  have ct: "wvpk_cut bi ?blk (v1\<lparr>wp_ctx := Some d'\<rparr>) = (src, n, ?v)" using cut v1 by simp
  have vb: "wvpk_block L d f bi v =
      (let chw = ucast (wi_channels (wp_info ?v)) :: u32; outlen = unat (n * of_nat (wp_frsize ?v))
       in if wi_format (wp_info ?v) = PHI_PCM_16 then
            narrow_loop 2 (unat (n * chw)) 0 (unat (src * chw)) mem \<bind> (\<lambda>m. Some (DData, ?v\<lparr>wp_pcm := m\<rparr>, take outlen m))
          else if wi_format (wp_info ?v) = PHI_PCM_32 \<or> wi_format (wp_info ?v) = PHI_PCM_FLOAT32 then
            Some (DData, ?v\<lparr>wp_pcm := mem\<rparr>, take outlen (drop (4 * unat (src * chw)) mem))
          else Some (DErr, ?v\<lparr>wp_pcm := mem\<rparr>, []))"
    using d' mem blk n0 ct ch unfolding v1_def [symmetric]
    by (simp add: wvpk_block_def Let_def v1_def [symmetric])
  show ?thesis
  proof (cases "wi_format (wp_info v) = PHI_PCM_16")
    case True
    then have w2: "w = 2" using fmt by (auto simp: wv_fmt_ok_def pcm_format_defs)
    obtain m where "narrow_loop 2 (unat n * ch) 0 (unat src * ch) mem = Some m" and "length m = length mem"
      and "take (2 * (unat n * ch)) m = concat (map (low_at 2 mem) [unat src * ch..<unat src * ch + unat n * ch])"
      using narrow_loop_block [of 2 "unat src * ch" "unat n * ch" mem] bnd by auto
    then show ?thesis using True vb v1 i1 i2 i3 out w2 l1 lm by (simp add: Let_def)
  next
    case False
    then have w4': "w = 4" using fmt by (auto simp: wv_fmt_ok_def)
    have "wi_format (wp_info v) = PHI_PCM_32 \<or> wi_format (wp_info v) = PHI_PCM_FLOAT32"
      using False fmt by (auto simp: wv_fmt_ok_def)
    then show ?thesis using False vb v1 i1 i2 i3 out w4' l1 lm low4_block [OF bnd] by (simp add: Let_def)
  qed
qed

lemma wv_step_block:
  fixes s :: "'d wvpk_dec"
  assumes inv: "wv_inv L ints ch w rate s" and good: "wv_good ch ints f"
    and v: "v = (if sk \<noteq> -1 then ffwvpk_dec_seek (msec_to_samples sk rate) (wd_wv s) else wd_wv s)"
    and cut: "\<forall>u :: 'd ffwvpack_dec. wp_seek_sample u = wp_seek_sample v \<longrightarrow>
      wvpk_cut (ucast (of_nat p :: u64)) (le32_at f 20) u = (src, n, u\<lparr>wp_samp_idx := q, wp_seek_sample := -1\<rparr>)"
    and n: "unat src + unat n = wv_n f"
  shows "\<exists>s'. wv_step L t s sk p f = Some (s', unat (ucast q :: u64), concat (drop (unat src) (wv_samples ints ch w f)))
    \<and> wv_inv L ints ch w rate s'"
proof -
  note i = inv [unfolded wv_inv_def]
  have law: "wavpack_law L ch ints" and c: "0 < ch" and r: "wd_rate s = rate" "\<not> wd_delayed s" using i by simp_all
  have vs: "wp_info v = wp_info (wd_wv s)" "wp_frsize v = wp_frsize (wd_wv s)" "wp_hdr_done v = wp_hdr_done (wd_wv s)"
    "wp_ctx v = wp_ctx (wd_wv s)" "wp_pcm v = wp_pcm (wd_wv s)" "wp_outcap v = wp_outcap (wd_wv s)"
    by (simp_all add: v ffwvpk_dec_seek_def)
  obtain d where d: "wp_ctx v = Some d" using i vs by auto
  have ch: "unat (wi_channels (wp_info v)) = ch" and fmt: "wv_fmt_ok (wi_format (wp_info v)) w"
    and fr: "wp_frsize v = w * ch" and buf: "length (wp_pcm v) = unat (wp_outcap v) * 4 * ch" and hd: "wp_hdr_done v"
    using i vs by simp_all
  obtain v' where v': "wvpk_block L d f (ucast (of_nat p :: u64)) v
        = Some (DData, v', concat (drop (unat src) (wv_samples ints ch w f)))"
    and k: "wp_info v' = wp_info v" "wp_frsize v' = w * ch" "wp_hdr_done v' = wp_hdr_done v" "wp_ctx v' \<noteq> None"
      "length (wp_pcm v') = unat (wp_outcap v') * 4 * ch" "wp_seek_sample v' = -1" "wp_samp_idx v' = q"
    using wvpk_block_out [OF law good ch fmt fr buf cut n, of d] by (elim exE conjE)
  have ne: "f \<noteq> []" "\<not> length f < 6 * 4" using good by (auto simp: wv_good_def)
  have dec: "ffwvpk_decode L v f (ucast (of_nat p :: u64))
      = Some (DData, [], v', concat (drop (unat src) (wv_samples ints ch w f)))"
    using v' d hd ne by (simp add: ffwvpk_decode_def)
  have wd: "wd_wv (if sk \<noteq> -1 then s\<lparr>wd_in := f, wd_wv := ffwvpk_dec_seek (msec_to_samples sk rate) (wd_wv s)\<rparr> else s\<lparr>wd_in := f\<rparr>) = v"
    by (simp add: v)
  let ?s = "s\<lparr>wd_wv := v', wd_in := [], wd_delayed := False\<rparr>"
  have "wv_step L t s sk p f = Some (?s, unat (ucast q :: u64), concat (drop (unat src) (wv_samples ints ch w f)))"
    using dec r k(7) v
    by (cases s) (auto simp: wv_step_def step_view_def wvpk_dec_decode_def Let_def)
  moreover have "wv_inv L ints ch w rate ?s" using i k vs by (simp add: wv_inv_def)
  ultimately show ?thesis by blast
qed

lemma wv_p32:
  assumes "p + wv_n f < 2 ^ 32"
  shows "unat (ucast (of_nat p :: u64) :: u32) = p"
    and "unat ((ucast (of_nat p :: u64) :: u32) + le32_at f 20) = p + wv_n f"
    and "unat (ucast (ucast (of_nat p :: u64) :: u32) :: u64) = p"
    and "unat (ucast ((ucast (of_nat p :: u64) :: u32) + le32_at f 20) :: u64) = p + wv_n f"
proof -
  show p: "unat (ucast (of_nat p :: u64) :: u32) = p"
    using assms by (simp add: unsigned_ucast_eq unat_of_nat take_bit_nat_eq_self)
  show q: "unat ((ucast (of_nat p :: u64) :: u32) + le32_at f 20) = p + wv_n f"
    using assms p by (subst unat_add_small) (simp_all add: wv_n_def)
  show "unat (ucast (ucast (of_nat p :: u64) :: u32) :: u64) = p"
    "unat (ucast ((ucast (of_nat p :: u64) :: u32) + le32_at f 20) :: u64) = p + wv_n f"
    using p q by (simp_all only: unat_ucast_u32)
qed

lemma wv_step_whole:
  fixes s :: "'d wvpk_dec"
  assumes "wv_inv L ints ch w rate s" and "wv_good ch ints f" and "p + length (wv_samples ints ch w f) < 2 ^ 32"
    and "sk = -1 \<or> target_of rate sk \<le> p"
  shows "\<exists>s'. wv_step L t s sk p f = Some (s', p, concat (wv_samples ints ch w f)) \<and> wv_inv L ints ch w rate s'"
proof -
  have pn: "p + wv_n f < 2 ^ 32" using assms(3) by simp
  let ?p = "ucast (of_nat p :: u64) :: u32"
  define v where "v = (if sk \<noteq> -1 then ffwvpk_dec_seek (msec_to_samples sk rate) (wd_wv s) else wd_wv s)"
  have z: "wp_seek_sample (wd_wv s) = -1" using assms(1) by (simp add: wv_inv_def)
  have nocut: "wp_seek_sample v = -1 \<or> \<not> ucast ?p < wp_seek_sample v"
  proof (cases "sk = -1")
    case False
    then have "target_of rate sk \<le> p" using assms(4) by simp
    then have "\<not> ucast ?p < msec_to_samples sk rate" using wv_p32(3) [OF pn] by (simp add: word_less_nat_alt)
    then show ?thesis using False by (simp add: v_def ffwvpk_dec_seek_def)
  qed (simp add: v_def z)
  have "wvpk_cut ?p (le32_at f 20) u = (0, le32_at f 20, u\<lparr>wp_samp_idx := ?p, wp_seek_sample := -1\<rparr>)"
    if "wp_seek_sample u = wp_seek_sample v" for u :: "'d ffwvpack_dec"
    using nocut that by (cases u) (auto simp: wvpk_cut_def Let_def)
  then have cut: "\<forall>u :: 'd ffwvpack_dec. wp_seek_sample u = wp_seek_sample v \<longrightarrow>
      wvpk_cut ?p (le32_at f 20) u = (0, le32_at f 20, u\<lparr>wp_samp_idx := ?p, wp_seek_sample := -1\<rparr>)" by blast
  show ?thesis
    using wv_step_block [OF assms(1,2) v_def cut, of t] wv_p32(3) [OF pn] by (simp add: wv_n_def)
qed

lemma wv_step_cut:
  fixes s :: "'d wvpk_dec"
  assumes "wv_inv L ints ch w rate s" and "wv_good ch ints f" and "p + length (wv_samples ints ch w f) < 2 ^ 32"
    and "sk \<noteq> -1" and "p < target_of rate sk" and "target_of rate sk < p + length (wv_samples ints ch w f)"
  shows "\<exists>s'. wv_step L t s sk p f
      = Some (s', target_of rate sk, concat (drop (target_of rate sk - p) (wv_samples ints ch w f)))
    \<and> wv_inv L ints ch w rate s'"
proof -
  have pn: "p + wv_n f < 2 ^ 32" using assms(3) by simp
  let ?p = "ucast (of_nat p :: u64) :: u32" and ?k = "msec_to_samples sk rate" and ?n = "le32_at f 20"
  note up = wv_p32 [OF pn]
  define v where "v = (if sk \<noteq> -1 then ffwvpk_dec_seek ?k (wd_wv s) else wd_wv s)"
  have vk: "wp_seek_sample v = ?k" using assms(4) by (simp add: v_def ffwvpk_dec_seek_def)
  have kn: "unat ?k < p + wv_n f" using assms(6) by simp
  have k1: "ucast ?p < ?k" "?k < ucast (?p + ?n)" using assms(5) kn up(3,4) by (simp_all add: word_less_nat_alt)
  have km: "?k \<noteq> -1"
  proof
    assume "?k = -1"
    then have "unat ?k = 2 ^ 64 - 1" by (simp only: unsigned_minus_1_eq_mask) (simp add: mask_eq_exp_minus_1)
    then show False using kn pn by simp
  qed
  let ?src = "ucast (?k - ucast ?p) :: u32"
  have "unat (?k - ucast ?p) = unat ?k - p" using up(3) k1(1) by (simp add: unat_diff_le)
  then have us: "unat ?src = unat ?k - p" using kn pn by (simp add: unsigned_ucast_eq take_bit_nat_eq_self)
  have "?src \<le> ?n" using us kn by (simp add: word_le_nat_alt wv_n_def)
  then have un: "unat (?n - ?src) = wv_n f - (unat ?k - p)" using us by (simp add: unat_diff_le wv_n_def)
  have "unat (?p + ?src) = unat ?k" using us up(1) assms(5) kn pn by (subst unat_add_small) simp_all
  then have uq: "unat (ucast (?p + ?src) :: u64) = unat ?k" by (simp only: unat_ucast_u32)
  have cut: "\<forall>u :: 'd ffwvpack_dec. wp_seek_sample u = wp_seek_sample v \<longrightarrow>
      wvpk_cut ?p ?n u = (?src, ?n - ?src, u\<lparr>wp_samp_idx := ?p + ?src, wp_seek_sample := -1\<rparr>)"
    using k1 km vk by (simp add: wvpk_cut_def Let_def)
  have "unat ?src + unat (?n - ?src) = wv_n f" using us un kn by simp
  from wv_step_block [OF assms(1,2) v_def cut this, of t] us uq show ?thesis by simp
qed

interpretation wvd: frame_decoder "wv_step L t" "wv_inv L ints ch w rate" "wv_good ch ints" "2 ^ 32"
    "target_of rate" "wv_samples ints ch w" concat
  for L :: "'d wavpack_lib" and t ints ch w rate
  by unfold_locales (fact wv_step_whole, fact wv_step_cut)

subsection \<open>ALAC\<close>

text \<open>
  Documented behaviour of libALAC: a good frame has \<open>alac_n\<close> interleaved samples, which fit in the buffer that was
  allocated from the cookie.
\<close>
definition alac_good :: "nat \<Rightarrow> nat \<Rightarrow> (bytes \<Rightarrow> bytes) \<Rightarrow> bytes \<Rightarrow> bool" where
  "alac_good sz cap out f \<longleftrightarrow> out f \<noteq> [] \<and> sz dvd length (out f) \<and> length (out f) \<le> cap"

definition alac_n :: "nat \<Rightarrow> (bytes \<Rightarrow> bytes) \<Rightarrow> bytes \<Rightarrow> nat" where
  "alac_n sz out f = length (out f) div sz"

definition alac_law :: "'d alac_lib \<Rightarrow> nat \<Rightarrow> nat \<Rightarrow> (bytes \<Rightarrow> bytes) \<Rightarrow> bool" where
  "alac_law L sz cap out \<longleftrightarrow> (\<forall>d f. alac_good sz cap out f \<longrightarrow> (\<exists>d'. la_decode L d f = (int (alac_n sz out f), d', out f)))"

definition alac_samples :: "nat \<Rightarrow> (bytes \<Rightarrow> bytes) \<Rightarrow> bytes \<Rightarrow> bytes list" where
  "alac_samples sz out f = map (samp_at sz (out f)) [0..<alac_n sz out f]"

definition alac_inv :: "'d alac_lib \<Rightarrow> nat \<Rightarrow> nat \<Rightarrow> (bytes \<Rightarrow> bytes) \<Rightarrow> nat \<Rightarrow> u32 \<Rightarrow> 'd ffalac \<Rightarrow> bool" where
  "alac_inv L sz cap out tot rate a \<longleftrightarrow> alac_law L sz cap out \<and> 0 < sz \<and> unat (alac_ssize a) = sz \<and> length (al_buf a) = cap
     \<and> cap < 2 ^ 32 \<and> tot < 2 ^ 63 \<and> unat (al_total_samples a) = tot \<and> af_rate (al_fmt a) = rate \<and> al_seek_sample a = 0"

definition alac_step :: "'d alac_lib \<Rightarrow> phi_track \<Rightarrow> 'd ffalac \<Rightarrow> u64 \<Rightarrow> nat \<Rightarrow> bytes \<Rightarrow> ('d ffalac \<times> nat \<times> bytes) option" where
  "alac_step L t s sk p f = step_view PHI_DATA (alac_in_decode L s (frame_packet t sk p f 0))"

lemma length_alac_samples [simp]: "length (alac_samples sz out f) = alac_n sz out f"
  by (simp add: alac_samples_def)

lemma alac_samples_drop:
  assumes "alac_good sz cap out f" and "k \<le> alac_n sz out f" and "0 < sz"
  shows "concat (drop k (alac_samples sz out f)) = drop (sz * k) (out f)"
proof -
  have l: "sz * alac_n sz out f = length (out f)" using assms(1,3) by (simp add: alac_n_def alac_good_def)
  then have "take (sz * (alac_n sz out f - k)) (drop (sz * k) (out f)) = concat (map (samp_at sz (out f)) [k..<alac_n sz out f])"
    using take_samps [of sz k "alac_n sz out f - k" "out f"] assms(2) by simp
  then show ?thesis using l by (simp add: alac_samples_def drop_map drop_upt diff_mult_distrib2)
qed

lemma alac_ssize_upd [simp]:
  "alac_ssize (a\<lparr>al_ctx := c, al_buf := b\<rparr>) = alac_ssize a" "alac_ssize (a\<lparr>al_data := d\<rparr>) = alac_ssize a"
  "alac_ssize (a\<lparr>al_seek_sample := k\<rparr>) = alac_ssize a" "alac_ssize (a\<lparr>al_cursample := u\<rparr>) = alac_ssize a"
  "alac_ssize (a\<lparr>al_pcmlen := l\<rparr>) = alac_ssize a"
  by (simp_all add: alac_ssize_def)

text \<open>A frame that ends before \<open>total_samples\<close>, once the offset is known.\<close>
lemma ffalac_decode_block:
  assumes law: "alac_law L sz cap out" "alac_good sz cap out (al_data a)" and sz: "0 < sz" "unat (alac_ssize a) = sz"
    and cap: "length (al_buf a) = cap" "cap < 2 ^ 32"
    and tot: "unat (al_cursample a) + alac_n sz out (al_data a) \<le> unat (al_total_samples a)"
    and off: "\<forall>b :: 'd ffalac. al_seek_sample b = al_seek_sample a \<and> al_cursample b = al_cursample a \<longrightarrow>
      alac_off (of_nat (alac_n sz out (al_data a))) b = x"
    and xn: "unat x \<le> alac_n sz out (al_data a)"
  shows "\<exists>a'. ffalac_decode (L :: 'd alac_lib) a = Some (DData, a', concat (drop (unat x) (alac_samples sz out (al_data a))))
    \<and> ffalac_cursample a' = Some (al_cursample a + ucast x) \<and> alac_ssize a' = alac_ssize a \<and> length (al_buf a') = cap
    \<and> al_total_samples a' = al_total_samples a \<and> al_fmt a' = al_fmt a \<and> al_seek_sample a' = 0"
proof -
  let ?n = "alac_n sz out (al_data a)"
  have lo: "length (out (al_data a)) = sz * ?n" "sz * ?n \<le> cap" 
    using law(2) sz by (simp_all add: alac_good_def alac_n_def)
  have n0: "0 < ?n" using lo(1) law(2) by (cases "?n = 0") (simp_all add: alac_good_def)
  have n32: "?n < 2 ^ 32"
    using mult_le_mono1 [of 1 sz ?n] sz(1) lo(2) cap(2) by linarith
  obtain d' where d': "la_decode L (al_ctx a) (al_data a) = (int ?n, d', out (al_data a))"
    using law unfolding alac_law_def by blast
  let ?s = "of_nat ?n :: u32"
  have us: "unat ?s = ?n" using n32 by (simp add: unat_of_nat take_bit_nat_eq_self)
  define buf where "buf = out (al_data a) @ drop (sz * ?n) (al_buf a)"
  have buf: "mem_copy (al_buf a) 0 (out (al_data a)) = Some buf" and lb: "length buf = cap"
    using lo cap by (simp_all add: mem_copy_def buf_def)
  have le: "x \<le> ?s" using xn us by (simp add: word_le_nat_alt)
  have uso: "unat (?s - x) = ?n - unat x" using le us by (simp add: unat_diff_le)
  have cur: "unat (al_cursample a + ucast ?s) = unat (al_cursample a) + ?n"
  proof -
    have "unat (al_total_samples a) < 2 ^ 64" using unsigned_less [of "al_total_samples a"] by simp
    then have "unat (al_cursample a) + unat (ucast ?s :: u64) < 2 ^ LENGTH(64)" using tot us by simp
    then show ?thesis using us by (subst unat_add_small) simp_all
  qed
  then have ntr: "\<not> al_total_samples a < al_cursample a + ucast ?s" using tot by (simp add: word_less_nat_alt)
  let ?m = "alac_ssize a"
  have b1: "unat x * sz \<le> sz * ?n" "(?n - unat x) * sz \<le> sz * ?n"
    using xn by (simp_all add: mult.commute [of _ sz])
  have p1: "unat (x * ?m) = unat x * sz"
    by (rule u32_mult_small [OF _ sz(2)]) (use b1 lo cap in linarith)
  have lt2: "(?n - unat x) * sz < 2 ^ 32" using b1 lo cap by linarith
  have p2: "unat ((?s - x) * ?m) = (?n - unat x) * sz"
    by (rule u32_mult_small [OF _ sz(2), of "?s - x", unfolded uso]) (rule lt2)
  have sum: "unat x * sz + (?n - unat x) * sz = sz * ?n"
    using xn by (metis add_mult_distrib le_add_diff_inverse mult.commute)
  have blk: "take ((?n - unat x) * sz) (drop (unat x * sz) buf) = concat (drop (unat x) (alac_samples sz out (al_data a)))"
    unfolding alac_samples_drop [OF law(2) xn sz(1)]
    using sum lo(1) by (simp add: buf_def mult.commute [of sz])
  let ?a = "a\<lparr>al_ctx := d', al_buf := buf, al_data := [], al_seek_sample := 0,
      al_cursample := al_cursample a + ucast ?s, al_pcmlen := (?s - x) * ?m\<rparr>"
  have dec: "ffalac_decode L a = Some (DData, ?a, concat (drop (unat x) (alac_samples sz out (al_data a))))"
    using d' buf n0 off ntr p1 p2 lb sum lo(2) blk
    by (simp add: ffalac_decode_def alac_trunc_def Let_def)
  have "unat ((?s - x) * ?m div ?m) = ?n - unat x"
    using p2 sz by (simp add: unat_div)
  then have dv: "(?s - x) * ?m div ?m = ?s - x" using uso by (simp add: word_unat_eq_iff)
  have "ucast (?s - x) + ucast x = (ucast ?s :: u64)"
    using uso us xn n32 by (simp add: word_unat_eq_iff unat_add_small)
  then have "al_cursample a + ucast ?s - ucast (?s - x) = al_cursample a + ucast x" by (simp add: algebra_simps)
  moreover have "?m \<noteq> 0" using sz by auto
  ultimately have cs: "ffalac_cursample ?a = Some (al_cursample a + ucast x)"
    using dv by (simp add: ffalac_cursample_def)
  show ?thesis using dec cs lb by (intro exI [of _ ?a]) (simp add: alac_ssize_def)
qed

lemma alac_step_block:
  fixes a :: "'d ffalac"
  assumes inv: "alac_inv L sz cap out tot rate a" and good: "alac_good sz cap out f" and p: "p + alac_n sz out f \<le> tot"
    and sek: "sk' = (if sk \<noteq> -1 then msec_to_samples sk rate else 0)"
    and off: "\<forall>b :: 'd ffalac. al_seek_sample b = sk' \<and> al_cursample b = of_nat p \<longrightarrow>
      alac_off (of_nat (alac_n sz out f)) b = x"
    and xn: "unat x \<le> alac_n sz out f"
  shows "\<exists>a'. alac_step L t a sk p f = Some (a', p + unat x, concat (drop (unat x) (alac_samples sz out f)))
    \<and> alac_inv L sz cap out tot rate a'"
proof -
  note i = inv [unfolded alac_inv_def]
  have p64: "p < 2 ^ 64" "p + unat x < 2 ^ 64" using i p xn by simp_all
  have up: "unat (of_nat p :: u64) = p" using p64 by (simp add: unat_of_nat take_bit_nat_eq_self)
  define b where "b = a\<lparr>al_data := f, al_cursample := of_nat p, al_seek_sample := sk'\<rparr>"
  have bs: "al_data b = f" "al_cursample b = of_nat p" "al_seek_sample b = sk'" "al_total_samples b = al_total_samples a"
    "al_buf b = al_buf a" "al_fmt b = al_fmt a" "alac_ssize b = alac_ssize a"
    by (simp_all add: b_def alac_ssize_def)
  have law: "alac_law L sz cap out" and gd: "alac_good sz cap out (al_data b)" and s0: "0 < sz" and us: "unat (alac_ssize b) = sz"
    and lb: "length (al_buf b) = cap" and c: "cap < 2 ^ 32"
    and tt: "unat (al_cursample b) + alac_n sz out (al_data b) \<le> unat (al_total_samples b)"
    using i good bs up p by simp_all
  have off': "\<forall>u :: 'd ffalac. al_seek_sample u = al_seek_sample b \<and> al_cursample u = al_cursample b \<longrightarrow>
      alac_off (of_nat (alac_n sz out (al_data b))) u = x"
    using off bs by simp
  have xn': "unat x \<le> alac_n sz out (al_data b)" using xn bs by simp
  obtain a' where dec: "ffalac_decode L b = Some (DData, a', concat (drop (unat x) (alac_samples sz out f)))"
    and cs: "ffalac_cursample a' = Some (of_nat p + ucast x)" and k: "alac_ssize a' = alac_ssize a" "length (al_buf a') = cap"
      "al_total_samples a' = al_total_samples a" "al_fmt a' = al_fmt a" "al_seek_sample a' = 0"
    using ffalac_decode_block [OF law gd s0 us lb c tt off' xn'] unfolding bs by (elim exE conjE)
  have pos: "unat (of_nat p + ucast x :: u64) = p + unat x" using up p64 by (subst unat_add_small) simp_all
  have beq: "(if sk \<noteq> -1 then ffalac_seek (msec_to_samples sk (af_rate (al_fmt a))) (a\<lparr>al_data := f, al_cursample := of_nat p\<rparr>)
      else a\<lparr>al_data := f, al_cursample := of_nat p\<rparr>) = b"
    using i sek by (simp add: b_def ffalac_seek_def)
  have "alac_step L t a sk p f = Some (a', p + unat x, concat (drop (unat x) (alac_samples sz out f)))"
    using dec cs pos beq by (simp add: alac_step_def step_view_def alac_in_decode_def Let_def if_True split del: if_split cong: if_cong)
  moreover have "alac_inv L sz cap out tot rate a'" using i k by (simp add: alac_inv_def)
  ultimately show ?thesis by blast
qed

lemma alac_n_small:
  assumes "alac_inv L sz cap out tot rate a" and "alac_good sz cap out f"
  shows "alac_n sz out f < 2 ^ 32" and "tot < 2 ^ 63"
proof -
  have "alac_n sz out f \<le> length (out f)" by (simp add: alac_n_def)
  then show "alac_n sz out f < 2 ^ 32" and "tot < 2 ^ 63"
    using assms by (simp_all add: alac_inv_def alac_good_def)
qed

lemma alac_step_whole:
  fixes a :: "'d ffalac"
  assumes inv: "alac_inv L sz cap out tot rate a" and good: "alac_good sz cap out f"
    and p: "p + length (alac_samples sz out f) < Suc tot" and sk: "sk = -1 \<or> target_of rate sk \<le> p"
  shows "\<exists>a'. alac_step L t a sk p f = Some (a', p, concat (alac_samples sz out f)) \<and> alac_inv L sz cap out tot rate a'"
proof -
  note small = alac_n_small [OF inv good]
  define sk' where "sk' = (if sk \<noteq> -1 then msec_to_samples sk rate else 0)"
  have up: "unat (of_nat p :: u64) = p" using p small by (simp add: unat_of_nat take_bit_nat_eq_self)
  have "sk' = 0 \<or> \<not> 0 < sint (sk' - of_nat p)"
  proof (cases "sk' = of_nat p \<or> sk' = 0")
    case False
    then have "sk' < of_nat p"
      using sk up by (auto simp: sk'_def word_less_nat_alt word_unat_eq_iff order_le_less)
    then have lt: "unat sk' < p" using up by (simp add: word_less_nat_alt)
    then have "unat (sk' - of_nat p) = unat sk' + 2 ^ 64 - p" using up by (simp add: unat_sub_if')
    then have "2 ^ 63 \<le> unat (sk' - of_nat p)" using p small lt by simp
    then have "sint (sk' - of_nat p) < 0" by (simp only: sint_neg_iff)
    then show ?thesis by simp
  qed auto
  then have off: "\<forall>b :: 'd ffalac. al_seek_sample b = sk' \<and> al_cursample b = of_nat p \<longrightarrow>
      alac_off (of_nat (alac_n sz out f)) b = 0"
    by (auto simp: alac_off_def)
  have p': "p + alac_n sz out f \<le> tot" using p by simp
  have "\<exists>a'. alac_step L t a sk p f = Some (a', p + unat (0 :: u32), concat (drop (unat (0 :: u32)) (alac_samples sz out f)))
    \<and> alac_inv L sz cap out tot rate a'"
    by (rule alac_step_block [OF inv good p' sk'_def off]) simp_all
  then show ?thesis by simp
qed

lemma alac_step_cut:
  fixes a :: "'d ffalac"
  assumes inv: "alac_inv L sz cap out tot rate a" and good: "alac_good sz cap out f"
    and p: "p + length (alac_samples sz out f) < Suc tot" and sk: "sk \<noteq> -1" "p < target_of rate sk"
      "target_of rate sk < p + length (alac_samples sz out f)"
  shows "\<exists>a'. alac_step L t a sk p f
      = Some (a', target_of rate sk, concat (drop (target_of rate sk - p) (alac_samples sz out f)))
    \<and> alac_inv L sz cap out tot rate a'"
proof -
  note small = alac_n_small [OF inv good]
  let ?k = "msec_to_samples sk rate"
  let ?x = "ucast (?k - of_nat p) :: u32"
  have sk': "?k = (if sk \<noteq> -1 then ?k else 0)" using sk by simp
  have up: "unat (of_nat p :: u64) = p" using p small by (simp add: unat_of_nat take_bit_nat_eq_self)
  have "of_nat p \<le> ?k" using sk up by (simp add: word_le_nat_alt)
  then have ud: "unat (?k - of_nat p) = unat ?k - p" using up by (simp add: unat_diff_le)
  then have ux: "unat ?x = unat ?k - p"
    using sk small by (simp add: unsigned_ucast_eq take_bit_nat_eq_self)
  have us: "unat (of_nat (alac_n sz out f) :: u32) = alac_n sz out f" using small by (simp add: unat_of_nat take_bit_nat_eq_self)
  have "\<not> 2 ^ 63 \<le> unat (?k - of_nat p)" and "?k - of_nat p \<noteq> 0"
    using ud sk small by (auto simp: word_unat_eq_iff)
  then have pos: "0 < sint (?k - of_nat p)"
    by (metis linorder_neqE_linordered_idom signed_eq_0_iff sint_neg_iff)
  have "?k \<noteq> 0" using sk by auto
  have kn: "unat ?k - p \<le> alac_n sz out f" using sk by simp
  have off: "\<forall>b :: 'd ffalac. al_seek_sample b = ?k \<and> al_cursample b = of_nat p \<longrightarrow>
      alac_off (of_nat (alac_n sz out f)) b = ?x"
    using pos \<open>?k \<noteq> 0\<close> ux us kn by (simp add: alac_off_def min_def word_le_nat_alt)
  have xn: "unat ?x \<le> alac_n sz out f" and p': "p + alac_n sz out f \<le> tot" using ux sk p by simp_all
  have "\<exists>a'. alac_step L t a sk p f = Some (a', p + unat ?x, concat (drop (unat ?x) (alac_samples sz out f)))
    \<and> alac_inv L sz cap out tot rate a'"
    by (rule alac_step_block [OF inv good p' sk' off xn])
  then show ?thesis using ux sk by simp
qed

interpretation ald: frame_decoder "alac_step L t" "alac_inv L sz cap out tot rate" "alac_good sz cap out" "Suc tot"
    "target_of rate" "alac_samples sz out" concat
  for L :: "'d alac_lib" and t sz cap out tot rate
  by unfold_locales (fact alac_step_whole, fact alac_step_cut)

section \<open>From the opening of the decoders to their frames\<close>

lemma flac_dec_create_inv:
  assumes "flac_dec_create L d0 t0 = (t1, Some s)" and "flac_law L ch bufs" and "0 < ch"
    and "unat (af_channels (a_format (t_audio t0))) = ch" and "af_rate (a_format (t_audio t0)) = rate"
    and "pcm_bits (af_format (a_format (t_audio t0))) = 8 * w" and "w \<in> {1, 2, 3}"
  shows "flac_inv L bufs ch w rate s"
proof -
  have "unat (af_channels (a_format (t_audio t0))) < 256"
    using unsigned_less [of "af_channels (a_format (t_audio t0))"] by (rule less_le_trans) simp
  then have "ch < 256" using assms(4) by simp
  then show ?thesis
    using assms by (auto simp: flac_dec_create_def ffflac_dec_open_def flac_inv_def Let_def split: prod.splits if_splits)
qed

lemma alac_open_inv:
  assumes "alac_open L t = Some (t', Some a)" and "sz = unat (alac_ssize a)" and "0 < sz" and "cap = length (al_buf a)"
    and "alac_law L sz cap out" and "unat (a_total (t_audio t)) = tot" and "tot < 2 ^ 63" and "af_rate (al_fmt a) = rate"
  shows "alac_inv L sz cap out tot rate a"
proof -
  obtain b where b: "ffalac_open L (t_data_in t) = Some (Some b)" and a: "a = b\<lparr>al_total_samples := a_total (t_audio t)\<rparr>"
    using assms(1) by (auto simp: alac_open_def split: option.splits)
  obtain n :: u32 where "length (al_buf b) = unat n" and "al_seek_sample b = 0"
    using b by (auto simp: ffalac_open_def Let_def split: option.splits if_splits)
  moreover have "unat n < 2 ^ 32" using unsigned_less [of n] by simp
  ultimately show ?thesis using assms a by (simp add: alac_inv_def)
qed

text \<open>The first packet of WavPack is its header; the first block is decoded by the next call.\<close>
lemma wvpk_header_inv:
  assumes "wvpk_dec_decode L (wvpk_dec_create t0) t = Some (s, t', PHI_DATA)" and "wi_channels (wp_info (wd_wv s)) \<noteq> 0"
    and "wavpack_law L (unat (wi_channels (wp_info (wd_wv s)))) ints" and "has_flag t PHI_FFWD" and "a_seek (t_audio t) = -1"
    and "t_data_in t \<noteq> []"
  shows "\<exists>w. wv_inv L ints (unat (wi_channels (wp_info (wd_wv s)))) w (wd_rate s) (s\<lparr>wd_delayed := False\<rparr>)"
  using assms
  by (auto simp: wvpk_dec_decode_def wvpk_dec_create_def ffwvpk_decode_def wvpk_hdrinfo_def Let_def wv_inv_def wv_fmt_ok_def
      unat_gt_0 pcm_size_def pcm_bits_def pcm_format_defs split: option.splits prod.splits if_splits dec_r.splits)

section \<open>The properties\<close>

text \<open>
  Property C36: the conversion of decoded 32-bit samples to 8, 16 or 24 bits in the same memory gives the same bytes as a
  conversion into separate memory: no sample is overwritten before it has been read, for every offset of the first one.
\<close>
theorem pcm_from32_in_place:
  assumes "bits \<in> {8, 16, 24}" and "\<forall>b\<in>set bufs. 4 * (src + n) \<le> length b"
  shows "map_option (map (take (bits div 8 * n))) (pcm_from32 bits n src bufs)
    = Some (map (\<lambda>b. concat (map (low_at (bits div 8) b) [src..<src + n])) bufs)"
  using pcm_from32_blocks [OF assms] by auto

lemma pcm_from32_in_place_witness:
  "map_option (map (take 4)) (pcm_from32 16 2 1 [[1, 2, 0, 0, 3, 4, 0, 0, 5, 6, 0, 0]]) = Some [[3, 4, 5, 6]]"
  using pcm_from32_in_place [of 16 "[[1, 2, 0, 0, 3, 4, 0, 0, 5, 6, 0, 0]]" 1 2] by (simp add: low_at_def)


definition flac_ex_lib :: "unit flac_lib" where
  "flac_ex_lib = \<lparr>lf_init = (\<lambda>_. (0, ())), lf_decode = (\<lambda>d f. (0, d, [f, rev f]))\<rparr>"

definition flac_ex_track :: phi_track where
  "flac_ex_track = phi_track_zero\<lparr>t_audio := (t_audio phi_track_zero)\<lparr>a_format :=
     \<lparr>af_format = PHI_PCM_16, af_channels = 2, af_interleaved = False, af_rate = 1000\<rparr>\<rparr>\<rparr>"


text \<open>The request of a sample behind \<open>total_samples\<close>, in a last frame that is longer: the block is not in the buffer.\<close>
lemma alac_seek_behind_total:
  "ffalac_decode \<lparr>la_init = Some, la_decode = (\<lambda>d f. (4, d, [1, 0, 2, 0, 3, 0, 4, 0]))\<rparr>
     \<lparr>al_ctx = [], al_err = 0, al_fmt = \<lparr>af_format = PHI_PCM_16, af_channels = 1, af_interleaved = True, af_rate = 1000\<rparr>,
      al_bitrate = 0, al_data = [9], al_pcmlen = 0, al_buf = replicate 8 0, al_cursample = 8, al_seek_sample = 11,
      al_total_samples = 10\<rparr> = None"
  by (simp add: ffalac_decode_def mem_copy_def alac_off_def alac_trunc_def alac_ssize_def pcm_size_def pcm_bits_def
      pcm_format_defs Let_def)

end
