(* ===== verification/Flac_Enc.thy ===== *)
theory Flac_Enc
  imports Decode_Frame
begin

text \<open>
  The FLAC encoder: the second part of \<open>src/src/acodec/alib3-bridge/flac.h\<close> and the filter \<open>src/src/acodec/flac-enc.h\<close>.
  The samples of the input packets are collected in 32-bit buffers, one per channel, and given to libFLAC in blocks.
  libFLAC is a parameter; its documented behaviour (the patch \<open>alib3/FLAC/0003-new-encoder-interface.patch\<close>) is a law.
  An access outside of a buffer, a division by 0 and a failed assertion are \<open>None\<close>.
\<close>

section \<open>The bridge to libFLAC\<close>

record flac_sinfo =
  si_minblock :: u32
  si_maxblock :: u32
  si_minframe :: u32
  si_maxframe :: u32
  si_md5 :: bytes

text \<open>
  \<open>flac_encode_init\<close> (bits, channels, rate, level, nomd5), \<open>flac_encode_info\<close> and \<open>flac_encode\<close>: the channels, the
  number of samples; the bytes written or an error, the samples processed and the data.
\<close>
record 'e flac_enc_lib =
  le_init :: "nat \<Rightarrow> nat \<Rightarrow> u32 \<Rightarrow> nat \<Rightarrow> bool \<Rightarrow> int \<times> 'e"
  le_info :: "'e \<Rightarrow> flac_sinfo"
  le_encode :: "'e \<Rightarrow> int list list \<Rightarrow> u32 \<Rightarrow> int \<times> u32 \<times> bytes \<times> 'e"
  le_vendor :: string

datatype enc_state = ENC_HDR | ENC_FRAMES | ENC_DONE

datatype flac_err = FLAC_OK | FLAC_EFMT | FLAC_ERR_LIB

record 'e ffflac_enc =
  fe_state :: enc_state
  fe_enc :: 'e
  fe_channels :: nat
  fe_rate :: u32
  fe_bits :: nat
  fe_info :: flac_sinfo
  fe_err :: int
  fe_errtype :: flac_err
  fe_data :: bytes
  fe_pcmlen :: nat
  fe_pcm :: "bytes list"
  fe_frsamps :: u32
  fe_pcm32 :: "int list list"
  fe_off_pcm :: nat
  fe_off_pcm32 :: nat
  fe_cap_pcm32 :: nat
  fe_level :: nat
  fe_fin :: bool
  fe_nomd5 :: bool

definition ffflac_enc_init :: "'e \<Rightarrow> 'e ffflac_enc" where
  "ffflac_enc_init e =
     \<lparr>fe_state = ENC_HDR, fe_enc = e, fe_channels = 0, fe_rate = 0, fe_bits = 0,
      fe_info = \<lparr>si_minblock = 0, si_maxblock = 0, si_minframe = 0, si_maxframe = 0, si_md5 = replicate 16 0\<rparr>,
      fe_err = 0, fe_errtype = FLAC_OK, fe_data = [], fe_pcmlen = 0, fe_pcm = [], fe_frsamps = 0, fe_pcm32 = [],
      fe_off_pcm = 0, fe_off_pcm32 = 0, fe_cap_pcm32 = 0, fe_level = 5, fe_fin = False, fe_nomd5 = False\<rparr>"

text \<open>The results: the error or \<open>FLAC_OK\<close>, and the format, which is set to 24 bits when it is not supported.\<close>
definition ffflac_create :: "'e flac_enc_lib \<Rightarrow> 'e ffflac_enc \<Rightarrow> phi_af \<Rightarrow> flac_err \<times> phi_af \<times> 'e ffflac_enc" where
  "ffflac_create L f pcm =
     (if af_format pcm \<notin> {PHI_PCM_8, PHI_PCM_16, PHI_PCM_24} then
        (FLAC_EFMT, pcm\<lparr>af_format := PHI_PCM_24\<rparr>, f\<lparr>fe_errtype := FLAC_EFMT\<rparr>)
      else
        (case le_init L (pcm_bits (af_format pcm)) (unat (af_channels pcm)) (af_rate pcm) (fe_level f) (fe_nomd5 f) of (r, e) \<Rightarrow>
           if r \<noteq> 0 then (FLAC_ERR_LIB, pcm, f\<lparr>fe_enc := e, fe_err := r, fe_errtype := FLAC_ERR_LIB\<rparr>)
           else
             (FLAC_OK, pcm,
              f\<lparr>fe_enc := e, fe_info := (fe_info f)\<lparr>si_minblock := si_minblock (le_info L e), si_maxblock := si_maxblock (le_info L e)\<rparr>,
                fe_channels := unat (af_channels pcm), fe_rate := af_rate pcm, fe_bits := pcm_bits (af_format pcm)\<rparr>)))"

text \<open>\<open>pcm_to32\<close>: \<open>samples\<close> of each channel from \<open>off\<close>, stored at \<open>off32\<close>; \<open>Some None\<close> is another width.\<close>
definition pcm_to32 :: "nat \<Rightarrow> nat \<Rightarrow> nat \<Rightarrow> nat \<Rightarrow> bytes list \<Rightarrow> int list list \<Rightarrow> int list list option option" where
  "pcm_to32 bits off off32 samples planes bufs =
     (if bits \<notin> {8, 16, 24} then Some None
      else
        (let w = bits div 8 in
         map_option Some
           (those (map2 (\<lambda>pl b. if w * (off + samples) \<le> length pl then
                               mem_copy b off32 (map (\<lambda>i. le_sval (samp_at w pl (off + i))) [0..<samples])
                             else None) planes bufs))))"

text \<open>The header state allocates the buffers.\<close>
definition enc_header :: "'e ffflac_enc \<Rightarrow> 'e ffflac_enc" where
  "enc_header f =
     (let n = unat (si_minblock (fe_info f) + 1)
      in f\<lparr>fe_pcm32 := replicate (fe_channels f) (replicate n 0), fe_cap_pcm32 := n, fe_state := ENC_FRAMES\<rparr>)"

text \<open>The blocks that are full, or what is left at the end, go to the library.\<close>
definition enc_block :: "'e flac_enc_lib \<Rightarrow> 'e ffflac_enc \<Rightarrow> (dec_r \<times> 'e ffflac_enc) option" where
  "enc_block L f =
     (let f1 = f\<lparr>fe_off_pcm32 := 0\<rparr>
      in case le_encode L (fe_enc f1) (fe_pcm32 f1) (of_nat (fe_off_pcm32 f)) of (r, s, d, e) \<Rightarrow>
           let f2 = f1\<lparr>fe_enc := e, fe_data := d\<rparr>
           in if r < 0 then Some (DErr, f2\<lparr>fe_errtype := FLAC_ERR_LIB, fe_err := r\<rparr>)
              else
                (let flush = (r = 0 \<and> fe_fin f);
                     (r', s', d', e') = (if flush then le_encode L e (fe_pcm32 f2) 0 else (r, s, d, e));
                     f3 = f2\<lparr>fe_enc := e', fe_data := d'\<rparr>
                 in if flush \<and> r' < 0 then Some (DErr, f3\<lparr>fe_errtype := FLAC_ERR_LIB, fe_err := r'\<rparr>)
                    else if r' = 0 \<or> \<not> (unat s' = fe_cap_pcm32 f \<or> fe_fin f) then None
                    else
                      Some (DData, f3\<lparr>fe_state := (if flush then ENC_DONE else fe_state f3),
                          fe_cap_pcm32 := (if fe_cap_pcm32 f = unat (si_minblock (fe_info f) + 1) then unat (si_minblock (fe_info f))
                                           else fe_cap_pcm32 f),
                          fe_frsamps := (if flush then s' else si_minblock (fe_info f)),
                          fe_data := take (nat r') d'\<rparr>)))"

text \<open>The number of samples to convert, in 64 bits and cut to 32.\<close>
definition enc_samples :: "'e ffflac_enc \<Rightarrow> nat" where
  "enc_samples f =
     min ((2 ^ 64 + fe_pcmlen f div (fe_bits f div 8 * fe_channels f) - fe_off_pcm f) mod 2 ^ 64)
         ((2 ^ 64 + fe_cap_pcm32 f - fe_off_pcm32 f) mod 2 ^ 64) mod 2 ^ 32"

definition ffflac_encode :: "'e flac_enc_lib \<Rightarrow> 'e ffflac_enc \<Rightarrow> (dec_r \<times> 'e ffflac_enc) option" where
  "ffflac_encode L f0 =
     (if fe_state f0 = ENC_DONE then
        (let i = le_info L (fe_enc f0) in Some (DDone, f0\<lparr>fe_info := i\<rparr>))
      else
        (let f = (if fe_state f0 = ENC_HDR then enc_header f0 else f0); n = enc_samples f
         in if fe_bits f div 8 * fe_channels f = 0 then None
            else if n = 0 \<and> \<not> fe_fin f then Some (DMore, f\<lparr>fe_off_pcm := 0\<rparr>)
            else if n = 0 then enc_block L f
            else
              (case pcm_to32 (fe_bits f) (fe_off_pcm f) (fe_off_pcm32 f) n (fe_pcm f) (fe_pcm32 f) of
                 None \<Rightarrow> None
               | Some None \<Rightarrow> Some (DErr, f\<lparr>fe_errtype := FLAC_EFMT\<rparr>)
               | Some (Some bufs) \<Rightarrow>
                   (let f1 = f\<lparr>fe_pcm32 := bufs, fe_off_pcm := fe_off_pcm f + n, fe_off_pcm32 := fe_off_pcm32 f + n\<rparr>
                    in if \<not> (fe_off_pcm32 f1 = fe_cap_pcm32 f1 \<or> fe_fin f1) then Some (DMore, f1\<lparr>fe_off_pcm := 0\<rparr>)
                       else enc_block L f1))))"

section \<open>The filter\<close>

record 'e flac_enc =
  ef_fl :: "'e ffflac_enc"
  ef_state :: nat

text \<open>\<open>None\<close>: \<open>PHI_OPEN_ERR\<close>.\<close>
definition flac_enc_create :: "'e \<Rightarrow> phi_track \<Rightarrow> 'e flac_enc option" where
  "flac_enc_create e t =
     (if t_data_type t = Some ''pcm'' then Some \<lparr>ef_fl = (ffflac_enc_init e)\<lparr>fe_level := 6\<rparr>, ef_state = 0\<rparr> else None)"

text \<open>The channels of a packet: one after the other, of equal length.\<close>
definition planes_of :: "nat \<Rightarrow> bytes \<Rightarrow> bytes list" where
  "planes_of ch d = (let k = length d div ch in map (\<lambda>c. take k (drop (c * k) d)) [0..<ch])"

text \<open>
  The states 0 to 2: the format is negotiated with the converter; \<open>Inl\<close> is a result of the filter. The switch falls
  through from the creation of the encoder to the test of the layout.
\<close>
definition flac_enc_setup :: "'e flac_enc_lib \<Rightarrow> 'e flac_enc \<Rightarrow> phi_track \<Rightarrow> ('e flac_enc \<times> phi_track) \<times> phi_r option" where
  "flac_enc_setup L f t =
     (let layout = (\<lambda>f t.
            if af_interleaved (o_format (t_oaudio t)) then
              (if ef_state f = 0 then
                 ((f\<lparr>ef_state := 2\<rparr>, t\<lparr>t_oaudio := (t_oaudio t)\<lparr>o_conv_format := (o_conv_format (t_oaudio t))\<lparr>af_interleaved := False\<rparr>\<rparr>\<rparr>),
                  Some PHI_MORE)
               else ((f, t), Some PHI_ERR))
            else ((f, t), None))
      in if ef_state f \<le> 1 then
           (case ffflac_create L (ef_fl f) (o_format (t_oaudio t)) of (r, af, fl) \<Rightarrow>
              let f1 = f\<lparr>ef_fl := fl\<rparr>; t1 = t\<lparr>t_oaudio := (t_oaudio t)\<lparr>o_format := af\<rparr>\<rparr>
              in if r \<noteq> FLAC_OK then
                   (if ef_state f = 0 \<and> r = FLAC_EFMT then
                      ((f1\<lparr>ef_state := 1\<rparr>,
                        t1\<lparr>t_oaudio := (t_oaudio t1)\<lparr>o_conv_format := (o_conv_format (t_oaudio t1))\<lparr>af_interleaved := False\<rparr>\<rparr>\<rparr>),
                       Some PHI_MORE)
                    else ((f1, t1), Some PHI_ERR))
                 else layout f1 (t1\<lparr>t_oaudio := (t_oaudio t1)\<lparr>o_flac_vendor := Some (le_vendor L)\<rparr>, t_data_type := Some ''flac''\<rparr>))
         else if ef_state f = 2 then layout f t
         else ((f, t), None))"

text \<open>A packet, \<open>eof\<close> is \<open>PHI_FFIRST\<close>.\<close>
definition enc_input :: "bytes \<Rightarrow> bool \<Rightarrow> 'e ffflac_enc \<Rightarrow> 'e ffflac_enc" where
  "enc_input d eof f = f\<lparr>fe_pcm := planes_of (fe_channels f) d, fe_pcmlen := length d, fe_fin := (fe_fin f \<or> eof)\<rparr>"

text \<open>\<open>info\<close> gives the bytes of \<open>struct flac_info\<close>, the first and the last packet of the output.\<close>
definition flac_enc_encode ::
    "'e flac_enc_lib \<Rightarrow> ('e ffflac_enc \<Rightarrow> bytes) \<Rightarrow> 'e flac_enc \<Rightarrow> phi_track \<Rightarrow> ('e flac_enc \<times> phi_track \<times> phi_r) option" where
  "flac_enc_encode L info f0 t0 =
     (case flac_enc_setup L f0 t0 of
        ((f, t), Some r) \<Rightarrow> Some (f, t, r)
      | ((f, t), None) \<Rightarrow>
          (let fl = (if has_flag t PHI_FFWD then enc_input (t_data_in t) (has_flag t PHI_FFIRST) (ef_fl f)
                     else ef_fl f)
           in if ef_state f \<noteq> 3 then Some (f\<lparr>ef_fl := fl, ef_state := 3\<rparr>, t\<lparr>t_data_out := info fl\<rparr>, PHI_DATA)
              else
                (case ffflac_encode L fl of
                   None \<Rightarrow> None
                 | Some (DMore, fl1) \<Rightarrow> Some (f\<lparr>ef_fl := fl1\<rparr>, t, PHI_MORE)
                 | Some (DData, fl1) \<Rightarrow>
                     Some (f\<lparr>ef_fl := fl1\<rparr>,
                       t\<lparr>t_oaudio := (t_oaudio t)\<lparr>o_flac_frame_samples := fe_frsamps fl1\<rparr>, t_data_out := fe_data fl1\<rparr>, PHI_DATA)
                 | Some (DDone, fl1) \<Rightarrow> Some (f\<lparr>ef_fl := fl1\<rparr>, t\<lparr>t_data_out := info fl1\<rparr>, PHI_DONE)
                 | Some (_, fl1) \<Rightarrow> Some (f\<lparr>ef_fl := fl1\<rparr>, t, PHI_ERR))))"

section \<open>What libFLAC receives\<close>

text \<open>
  Documented behaviour of libFLAC with blocks of \<open>N\<close> samples: a frame is written when \<open>N + 1\<close> samples are pending, and
  one of them stays; a call without samples writes a frame of the pending ones, whose number is returned. \<open>got\<close> are
  the samples of a channel that the encoder has received.
\<close>
definition flac_enc_law :: "'e flac_enc_lib \<Rightarrow> nat \<Rightarrow> ('e \<Rightarrow> nat) \<Rightarrow> ('e \<Rightarrow> nat \<Rightarrow> int list) \<Rightarrow> bool" where
  "flac_enc_law L N pend got \<longleftrightarrow>
     (\<forall>e bufs s. s \<noteq> 0 \<and> pend e + unat s \<le> N + 1 \<longrightarrow>
        (\<exists>r d e'. le_encode L e bufs s = (r, s, d, e') \<and> (\<forall>c < length bufs. got e' c = got e c @ take (unat s) (bufs ! c))
           \<and> (if pend e + unat s = N + 1 then 0 < r \<and> pend e' = 1 else r = 0 \<and> pend e' = pend e + unat s)))
     \<and> (\<forall>e bufs. \<exists>r d e'. le_encode L e bufs 0 = (r, of_nat (pend e), d, e') \<and> got e' = got e \<and> pend e' = 0
           \<and> (if pend e = 0 then r = 0 else 0 < r))"

text \<open>The samples of a channel that the encoder has taken: those of the library and those still in the buffer.\<close>
definition taken :: "('e \<Rightarrow> nat \<Rightarrow> int list) \<Rightarrow> 'e ffflac_enc \<Rightarrow> nat \<Rightarrow> int list" where
  "taken got f c = got (fe_enc f) c @ take (fe_off_pcm32 f) (fe_pcm32 f ! c)"

definition plane_ints :: "nat \<Rightarrow> bytes \<Rightarrow> nat \<Rightarrow> nat \<Rightarrow> int list" where
  "plane_ints w pl a n = map (\<lambda>i. le_sval (samp_at w pl (a + i))) [0..<n]"

lemma length_plane_ints [simp]: "length (plane_ints w pl a n) = n"
  by (simp add: plane_ints_def)

lemma plane_ints_add: "plane_ints w pl a (m + n) = plane_ints w pl a m @ plane_ints w pl (a + m) n"
  by (rule nth_equalityI) (auto simp: plane_ints_def nth_append add.assoc)

text \<open>The packet: \<open>ch\<close> planes with \<open>len\<close> samples each.\<close>
definition packet_ok :: "nat \<Rightarrow> nat \<Rightarrow> nat \<Rightarrow> 'e ffflac_enc \<Rightarrow> bool" where
  "packet_ok ch w len f \<longleftrightarrow> length (fe_pcm f) = ch \<and> (\<forall>pl\<in>set (fe_pcm f). length pl = w * len) \<and> fe_pcmlen f = len * (w * ch)
     \<and> fe_off_pcm f \<le> len \<and> len < 2 ^ 32"

definition enc_inv :: "'e flac_enc_lib \<Rightarrow> nat \<Rightarrow> ('e \<Rightarrow> nat) \<Rightarrow> ('e \<Rightarrow> nat \<Rightarrow> int list) \<Rightarrow> nat \<Rightarrow> nat \<Rightarrow> 'e ffflac_enc \<Rightarrow> bool" where
  "enc_inv L N pend got ch w f \<longleftrightarrow> flac_enc_law L N pend got \<and> 0 < N \<and> N + 1 < 2 ^ 32 \<and> 0 < ch \<and> w \<in> {1, 2, 3}
     \<and> fe_state f = ENC_FRAMES \<and> unat (si_minblock (fe_info f)) = N \<and> fe_channels f = ch \<and> fe_bits f = 8 * w
     \<and> length (fe_pcm32 f) = ch \<and> (\<forall>b\<in>set (fe_pcm32 f). length b = N + 1)
     \<and> fe_off_pcm32 f < fe_cap_pcm32 f \<and> fe_cap_pcm32 f + pend (fe_enc f) = N + 1 \<and> pend (fe_enc f) \<le> 1"

lemma pcm_to32_ok:
  assumes "w \<in> {1, 2, 3}" and "length planes = length bufs" and "\<forall>pl\<in>set planes. w * (off + n) \<le> length pl"
    and "\<forall>b\<in>set bufs. off32 + n \<le> length b"
  shows "\<exists>bufs'. pcm_to32 (8 * w) off off32 n planes bufs = Some (Some bufs') \<and> length bufs' = length bufs
    \<and> (\<forall>c<length bufs. length (bufs' ! c) = length (bufs ! c)
         \<and> take (off32 + n) (bufs' ! c) = take off32 (bufs ! c) @ plane_ints w (planes ! c) off n)"
proof -
  let ?g = "\<lambda>pl b. if w * (off + n) \<le> length pl then mem_copy b off32 (plane_ints w pl off n) else None"
  have "\<exists>bufs'. those (map2 ?g planes bufs) = Some bufs' \<and> length bufs' = length bufs
    \<and> (\<forall>c<length bufs. length (bufs' ! c) = length (bufs ! c)
         \<and> take (off32 + n) (bufs' ! c) = take off32 (bufs ! c) @ plane_ints w (planes ! c) off n)"
    using assms(2-4)
  proof (induction planes bufs rule: list_induct2)
    case (Cons pl planes b bufs)
    obtain bufs' where b': "those (map2 ?g planes bufs) = Some bufs'" "length bufs' = length bufs"
      "\<forall>c<length bufs. length (bufs' ! c) = length (bufs ! c)
         \<and> take (off32 + n) (bufs' ! c) = take off32 (bufs ! c) @ plane_ints w (planes ! c) off n"
      using Cons by auto
    let ?b = "take off32 b @ plane_ints w pl off n @ drop (off32 + n) b"
    have "?g pl b = Some ?b" using Cons.prems by (simp add: mem_copy_def)
    moreover have "length ?b = length b" "take (off32 + n) ?b = take off32 b @ plane_ints w pl off n"
      using Cons.prems by simp_all
    ultimately show ?case using b' by (auto simp: nth_Cons split: nat.splits)
  qed simp
  moreover have "8 * w \<in> {8, 16, 24}" "8 * w div 8 = w" using assms(1) by auto
  then have "pcm_to32 (8 * w) off off32 n planes bufs = map_option Some (those (map2 ?g planes bufs))"
    by (simp only: pcm_to32_def Let_def plane_ints_def if_False not_True_eq_False)
  ultimately show ?thesis by auto
qed

lemma enc_samples_eq:
  assumes "enc_inv L N pend got ch w f" and "packet_ok ch w len f"
  shows "enc_samples f = min (len - fe_off_pcm f) (fe_cap_pcm32 f - fe_off_pcm32 f)"
proof -
  have b: "fe_bits f div 8 * fe_channels f = w * ch" "0 < w * ch" using assms(1) by (auto simp: enc_inv_def)
  then have l: "fe_pcmlen f div (fe_bits f div 8 * fe_channels f) = len" using assms(2) by (simp add: packet_ok_def)
  have m: "(2 ^ 64 + x - y) mod 2 ^ 64 = x - y" if "y \<le> x" "x < 2 ^ 32" for x y :: nat
  proof -
    have "2 ^ 64 + x - y = (x - y) + 2 ^ 64" using that by simp
    then show ?thesis using that by (simp only: mod_add_self2) simp
  qed
  have len: "fe_off_pcm f \<le> len" "len < 2 ^ 32" using assms(2) by (simp_all add: packet_ok_def)
  have cap: "fe_off_pcm32 f \<le> fe_cap_pcm32 f" "fe_cap_pcm32 f < 2 ^ 32" using assms(1) by (auto simp: enc_inv_def)
  have "enc_samples f = min (len - fe_off_pcm f) (fe_cap_pcm32 f - fe_off_pcm32 f) mod 2 ^ 32"
    by (simp only: enc_samples_def l m [OF len] m [OF cap])
  also have "min (len - fe_off_pcm f) (fe_cap_pcm32 f - fe_off_pcm32 f) < 2 ^ 32"
    using le_less_trans [OF min.cobounded1] len(2) by (metis diff_le_self le_less_trans)
  then have "min (len - fe_off_pcm f) (fe_cap_pcm32 f - fe_off_pcm32 f) mod 2 ^ 32
      = min (len - fe_off_pcm f) (fe_cap_pcm32 f - fe_off_pcm32 f)" by (rule mod_less)
  finally show ?thesis .
qed

text \<open>The samples that a call converts.\<close>
lemma enc_convert:
  assumes inv: "enc_inv L N pend got ch w f" and pk: "packet_ok ch w len f" and le: "fe_off_pcm f + n \<le> len"
    "fe_off_pcm32 f + n \<le> fe_cap_pcm32 f"
  shows "\<exists>bufs. pcm_to32 (fe_bits f) (fe_off_pcm f) (fe_off_pcm32 f) n (fe_pcm f) (fe_pcm32 f) = Some (Some bufs)
    \<and> length bufs = ch \<and> (\<forall>b\<in>set bufs. length b = N + 1)
    \<and> (\<forall>c<ch. got (fe_enc f) c @ take (fe_off_pcm32 f + n) (bufs ! c)
        = taken got f c @ plane_ints w (fe_pcm f ! c) (fe_off_pcm f) n)"
proof -
  note i = inv [unfolded enc_inv_def]
  have w: "w \<in> {1, 2, 3}" and lp: "length (fe_pcm f) = length (fe_pcm32 f)" and lb: "\<forall>b\<in>set (fe_pcm32 f). length b = N + 1"
    and lch: "length (fe_pcm32 f) = ch" and bits: "fe_bits f = 8 * w"
    using i pk by (simp_all add: packet_ok_def)
  have "w * (fe_off_pcm f + n) \<le> w * len" using le(1) by simp
  then have pl: "\<forall>pl\<in>set (fe_pcm f). w * (fe_off_pcm f + n) \<le> length pl" using pk by (simp add: packet_ok_def)
  have bl: "\<forall>b\<in>set (fe_pcm32 f). fe_off_pcm32 f + n \<le> length b" using lb le(2) i by auto
  obtain bufs where bufs: "pcm_to32 (fe_bits f) (fe_off_pcm f) (fe_off_pcm32 f) n (fe_pcm f) (fe_pcm32 f) = Some (Some bufs)"
    and lbufs: "length bufs = ch"
    and bc: "\<forall>c<ch. length (bufs ! c) = length (fe_pcm32 f ! c)
      \<and> take (fe_off_pcm32 f + n) (bufs ! c)
        = take (fe_off_pcm32 f) (fe_pcm32 f ! c) @ plane_ints w (fe_pcm f ! c) (fe_off_pcm f) n"
    using pcm_to32_ok [OF w lp pl bl] unfolding bits lch by blast
  have "\<forall>b\<in>set bufs. length b = N + 1" using bc lb lbufs lch by (metis in_set_conv_nth nth_mem)
  then show ?thesis using bufs lbufs bc by (intro exI [of _ bufs]) (simp add: taken_def)
qed

text \<open>A full block gives a frame of \<open>N\<close> samples.\<close>
lemma enc_block_full:
  assumes inv: "enc_inv L N pend got ch w (f\<lparr>fe_off_pcm32 := 0\<rparr>)" and full: "fe_off_pcm32 f = fe_cap_pcm32 f"
  shows "\<exists>g. enc_block L f = Some (DData, g) \<and> enc_inv L N pend got ch w g \<and> fe_off_pcm32 g = 0 \<and> pend (fe_enc g) = 1
    \<and> fe_pcm g = fe_pcm f \<and> fe_pcmlen g = fe_pcmlen f \<and> fe_off_pcm g = fe_off_pcm f \<and> fe_fin g = fe_fin f
    \<and> fe_frsamps g = of_nat N \<and> (\<forall>c<ch. taken got g c = taken got f c)"
proof -
  have i: "flac_enc_law L N pend got" "0 < N" "N + 1 < 2 ^ 32" "fe_state f = ENC_FRAMES" "unat (si_minblock (fe_info f)) = N"
    "length (fe_pcm32 f) = ch" "0 < fe_cap_pcm32 f" "fe_cap_pcm32 f + pend (fe_enc f) = N + 1" "pend (fe_enc f) \<le> 1"
    using inv by (simp_all add: enc_inv_def)
  let ?s = "of_nat (fe_cap_pcm32 f) :: u32"
  have cap: "0 < fe_cap_pcm32 f" "fe_cap_pcm32 f < 2 ^ 32" using i by auto
  have us: "unat ?s = fe_cap_pcm32 f" using cap by (simp add: unat_of_nat take_bit_nat_eq_self)
  have s0: "?s \<noteq> 0" using us cap by auto
  have pn: "pend (fe_enc f) + unat ?s = N + 1" using i us by simp
  obtain r d e where e: "le_encode L (fe_enc f) (fe_pcm32 f) ?s = (r, ?s, d, e)" and r: "0 < r" and pe: "pend e = 1"
    and ge: "\<forall>c<ch. got e c = got (fe_enc f) c @ take (fe_cap_pcm32 f) (fe_pcm32 f ! c)"
    using i s0 pn us unfolding flac_enc_law_def by (metis order_refl)
  have mb: "unat (si_minblock (fe_info f) + 1) = N + 1" using i by (subst unat_add_small) simp_all
  have mn: "si_minblock (fe_info f) = of_nat N" unfolding i(5) [symmetric] by simp
  let ?g = "f\<lparr>fe_off_pcm32 := 0, fe_enc := e, fe_cap_pcm32 := N, fe_frsamps := si_minblock (fe_info f), fe_data := take (nat r) d\<rparr>"
  have "(if fe_cap_pcm32 f = N + 1 then N else fe_cap_pcm32 f) = N" using i by auto
  then have "enc_block L f = Some (DData, ?g)"
    using e r us full mb i by (simp add: enc_block_def Let_def)
  moreover have "enc_inv L N pend got ch w ?g" using inv i pe by (simp add: enc_inv_def)
  moreover have "\<forall>c<ch. taken got ?g c = taken got f c" using ge full by (simp add: taken_def)
  ultimately show ?thesis using pe mn by (intro exI [of _ ?g]) simp
qed

text \<open>What a call takes from the packet.\<close>
lemma ffflac_encode_step:
  assumes inv: "enc_inv L N pend got ch w f" and pk: "packet_ok ch w len f"
  defines "n \<equiv> min (len - fe_off_pcm f) (fe_cap_pcm32 f - fe_off_pcm32 f)"
  assumes go: "\<not> fe_fin f \<or> fe_off_pcm32 f + n = fe_cap_pcm32 f"
  shows "\<exists>r f'. ffflac_encode L f = Some (r, f') \<and> enc_inv L N pend got ch w f' \<and> packet_ok ch w len f' \<and> fe_fin f' = fe_fin f
    \<and> fe_pcm f' = fe_pcm f
    \<and> (\<forall>c<ch. taken got f' c = taken got f c @ plane_ints w (fe_pcm f ! c) (fe_off_pcm f) n)
    \<and> (r = DMore \<and> fe_off_pcm f' = 0 \<and> fe_off_pcm f + n = len \<and> \<not> fe_fin f
          \<and> fe_enc f' = fe_enc f \<and> fe_off_pcm32 f' = fe_off_pcm32 f + n
       \<or> r = DData \<and> fe_off_pcm f' = fe_off_pcm f + n \<and> 0 < n \<and> fe_frsamps f' = of_nat N \<and> fe_off_pcm32 f' = 0
          \<and> pend (fe_enc f') = 1 \<and> pend (fe_enc f) + fe_off_pcm32 f + n = N + 1)"
proof -
  note i = inv [unfolded enc_inv_def]
  have ns: "enc_samples f = n" unfolding n_def by (rule enc_samples_eq [OF inv pk])
  have fr: "fe_state f = ENC_FRAMES" and sz: "fe_bits f div 8 * fe_channels f \<noteq> 0" using i by auto
  have bo: "fe_off_pcm32 f < fe_cap_pcm32 f" "fe_off_pcm f \<le> len" using i pk by (simp_all add: packet_ok_def)
  show ?thesis
  proof (cases "n = 0")
    case True
    then have fin: "\<not> fe_fin f" using go bo by simp
    have "fe_off_pcm f = len" using True bo by (simp add: n_def min_def split: if_splits)
    moreover have "ffflac_encode L f = Some (DMore, f\<lparr>fe_off_pcm := 0\<rparr>)"
      using True fr sz fin ns by (simp add: ffflac_encode_def)
    moreover have "enc_inv L N pend got ch w (f\<lparr>fe_off_pcm := 0\<rparr>)" "packet_ok ch w len (f\<lparr>fe_off_pcm := 0\<rparr>)"
      using i pk by (simp_all add: enc_inv_def packet_ok_def)
    ultimately show ?thesis using True fin
      by (intro exI [of _ DMore] exI [of _ "f\<lparr>fe_off_pcm := 0\<rparr>"]) (simp add: taken_def plane_ints_def)
  next
    case False
    have le: "fe_off_pcm f + n \<le> len" "fe_off_pcm32 f + n \<le> fe_cap_pcm32 f" using bo unfolding n_def by linarith+
    obtain bufs where bufs: "pcm_to32 (fe_bits f) (fe_off_pcm f) (fe_off_pcm32 f) n (fe_pcm f) (fe_pcm32 f) = Some (Some bufs)"
      and lbufs: "length bufs = ch" and lbs: "\<forall>b\<in>set bufs. length b = N + 1"
      and tk: "\<forall>c<ch. got (fe_enc f) c @ take (fe_off_pcm32 f + n) (bufs ! c)
        = taken got f c @ plane_ints w (fe_pcm f ! c) (fe_off_pcm f) n"
      using enc_convert [OF inv pk le] by blast
    let ?f = "f\<lparr>fe_pcm32 := bufs, fe_off_pcm := fe_off_pcm f + n, fe_off_pcm32 := fe_off_pcm32 f + n\<rparr>"
    show ?thesis
    proof (cases "fe_off_pcm32 f + n = fe_cap_pcm32 f")
      case full: False
      then have fin: "\<not> fe_fin f" using go by simp
      have "ffflac_encode L f = Some (DMore, ?f\<lparr>fe_off_pcm := 0\<rparr>)"
        using False fr sz fin ns bufs full by (simp add: ffflac_encode_def)
      moreover have "fe_off_pcm f + n = len" using full False le by (auto simp: n_def min_def split: if_splits)
      moreover have "enc_inv L N pend got ch w (?f\<lparr>fe_off_pcm := 0\<rparr>)" "packet_ok ch w len (?f\<lparr>fe_off_pcm := 0\<rparr>)"
        using i pk le full lbufs lbs by (simp_all add: enc_inv_def packet_ok_def)
      ultimately show ?thesis
        using fin tk by (intro exI [of _ DMore] exI [of _ "?f\<lparr>fe_off_pcm := 0\<rparr>"]) (simp add: taken_def)
    next
      case full: True
      have "enc_inv L N pend got ch w (?f\<lparr>fe_off_pcm32 := 0\<rparr>)" using i lbufs lbs by (simp add: enc_inv_def)
      then obtain g where g: "enc_block L ?f = Some (DData, g)" "enc_inv L N pend got ch w g" "fe_off_pcm32 g = 0"
        "pend (fe_enc g) = 1" "fe_pcm g = fe_pcm f" "fe_pcmlen g = fe_pcmlen f" "fe_off_pcm g = fe_off_pcm f + n"
        "fe_fin g = fe_fin f" "fe_frsamps g = of_nat N" "\<forall>c<ch. taken got g c = taken got ?f c"
        using enc_block_full [of L N pend got ch w ?f] full by auto
      have "ffflac_encode L f = Some (DData, g)"
        using False fr sz ns bufs full g(1) by (simp add: ffflac_encode_def)
      moreover have "packet_ok ch w len g" using pk le g by (simp add: packet_ok_def)
      moreover have "\<forall>c<ch. taken got g c = taken got f c @ plane_ints w (fe_pcm f ! c) (fe_off_pcm f) n"
        using tk g(10) by (simp add: taken_def)
      moreover have "pend (fe_enc f) + fe_off_pcm32 f + n = N + 1" using full i by simp
      ultimately show ?thesis using g False by (intro exI [of _ DData] exI [of _ g]) simp
    qed
  qed
qed

text \<open>Less than a block at the end: a frame of all that is left.\<close>
lemma enc_block_last:
  assumes inv: "enc_inv L N pend got ch w (f\<lparr>fe_off_pcm32 := 0\<rparr>)" and part: "0 < fe_off_pcm32 f" "fe_off_pcm32 f < fe_cap_pcm32 f"
    and fin: "fe_fin f"
  shows "\<exists>g. enc_block L f = Some (DData, g) \<and> fe_state g = ENC_DONE \<and> unat (fe_frsamps g) = pend (fe_enc f) + fe_off_pcm32 f
    \<and> (\<forall>c<ch. got (fe_enc g) c = taken got f c)"
proof -
  have i: "flac_enc_law L N pend got" "N + 1 < 2 ^ 32" "fe_state f = ENC_FRAMES" "length (fe_pcm32 f) = ch"
    "fe_cap_pcm32 f + pend (fe_enc f) = N + 1" "pend (fe_enc f) \<le> 1"
    using inv by (simp_all add: enc_inv_def)
  let ?s = "of_nat (fe_off_pcm32 f) :: u32"
  have us: "unat ?s = fe_off_pcm32 f" using part i by (simp add: unat_of_nat take_bit_nat_eq_self)
  have s0: "?s \<noteq> 0" using us part by auto
  have pn: "pend (fe_enc f) + unat ?s \<le> N + 1" "pend (fe_enc f) + unat ?s \<noteq> N + 1" using i us part by simp_all
  obtain d e where e: "le_encode L (fe_enc f) (fe_pcm32 f) ?s = (0, ?s, d, e)" and pe: "pend e = pend (fe_enc f) + fe_off_pcm32 f"
    and ge: "\<forall>c<ch. got e c = got (fe_enc f) c @ take (fe_off_pcm32 f) (fe_pcm32 f ! c)"
    using i s0 pn us unfolding flac_enc_law_def by metis
  obtain r' d' e' where e': "le_encode L e (fe_pcm32 f) 0 = (r', of_nat (pend e), d', e')" and g': "got e' = got e" and r': "0 < r'"
    using i pe part unfolding flac_enc_law_def by (metis add_is_0 less_numeral_extra(3))
  have "pend e < 2 ^ 32" using pe part i(2,5) by linarith
  then have up: "unat (of_nat (pend e) :: u32) = pend e" by (simp add: unat_of_nat take_bit_nat_eq_self)
  let ?g = "f\<lparr>fe_off_pcm32 := 0, fe_enc := e', fe_state := ENC_DONE, fe_frsamps := of_nat (pend e), fe_data := take (nat r') d',
    fe_cap_pcm32 := (if fe_cap_pcm32 f = unat (si_minblock (fe_info f) + 1) then unat (si_minblock (fe_info f)) else fe_cap_pcm32 f)\<rparr>"
  have "enc_block L f = Some (DData, ?g)"
    using e e' r' fin by (simp add: enc_block_def Let_def)
  then show ?thesis using up pe ge g' by (intro exI [of _ ?g]) (simp add: taken_def)
qed

text \<open>
  Nothing is left at the end but the sample that libFLAC keeps: its frame is announced with \<open>N\<close> samples, and the next
  call finds an encoder that gives nothing, against the assertion.
\<close>
lemma enc_block_kept:
  assumes inv: "enc_inv L N pend got ch w f" and kept: "fe_off_pcm32 f = 0" "pend (fe_enc f) = 1" and fin: "fe_fin f"
  shows "\<exists>g. enc_block L f = Some (DData, g) \<and> fe_frsamps g = of_nat N \<and> enc_block L g = None
    \<and> g = f\<lparr>fe_enc := fe_enc g, fe_data := fe_data g, fe_frsamps := of_nat N\<rparr>"
proof -
  note i = inv [unfolded enc_inv_def]
  obtain r d e where e: "le_encode L (fe_enc f) (fe_pcm32 f) 0 = (r, of_nat (pend (fe_enc f)), d, e)" and r: "0 < r" and pe: "pend e = 0"
    using i kept unfolding flac_enc_law_def by (metis zero_neq_one)
  have mn: "si_minblock (fe_info f) = of_nat N" "fe_cap_pcm32 f = N" using i kept by auto
  have mb: "unat (si_minblock (fe_info f) + 1) = N + 1" using i by (subst unat_add_small) simp_all
  let ?g = "f\<lparr>fe_enc := e, fe_data := take (nat r) d, fe_frsamps := of_nat N\<rparr>"
  have b: "enc_block L f = Some (DData, ?g)"
    using e r mn mb kept fin by (cases f) (simp add: enc_block_def Let_def)
  obtain d1 e1 where e1: "le_encode L e (fe_pcm32 f) 0 = (0, of_nat 0, d1, e1)" and "pend e1 = 0"
    using i pe unfolding flac_enc_law_def by metis
  moreover obtain d2 e2 where "le_encode L e1 (fe_pcm32 f) 0 = (0, of_nat 0, d2, e2)"
    using i \<open>pend e1 = 0\<close> unfolding flac_enc_law_def by metis
  ultimately have "enc_block L ?g = None" using kept fin by (simp add: enc_block_def Let_def)
  then show ?thesis using b by (intro exI [of _ ?g]) simp
qed

section \<open>A stream of packets\<close>

text \<open>The calls of the filter until it does not give data; the frames with their numbers of samples.\<close>
fun enc_drain :: "'e flac_enc_lib \<Rightarrow> nat \<Rightarrow> 'e ffflac_enc \<Rightarrow> (dec_r \<times> 'e ffflac_enc \<times> (u32 \<times> bytes) list) option" where
  "enc_drain L 0 f = None"
| "enc_drain L (Suc k) f =
     (case ffflac_encode L f of
        None \<Rightarrow> None
      | Some (r, f') \<Rightarrow>
          if r = DData then map_option (\<lambda>(r, g, fr). (r, g, (fe_frsamps f', fe_data f') # fr)) (enc_drain L k f')
          else Some (r, f', []))"

fun enc_stream :: "'e flac_enc_lib \<Rightarrow> bytes list \<Rightarrow> bytes \<Rightarrow> 'e ffflac_enc
    \<Rightarrow> (dec_r \<times> 'e ffflac_enc \<times> (u32 \<times> bytes) list) option" where
  "enc_stream L [] d f = enc_drain L (length d + 3) (enc_input d True f)"
| "enc_stream L (p # ps) d f =
     (case enc_drain L (length p + 1) (enc_input p False f) of
        Some (DMore, f', fr) \<Rightarrow> map_option (\<lambda>(r, g, fr'). (r, g, fr @ fr')) (enc_stream L ps d f')
      | _ \<Rightarrow> None)"

text \<open>The samples of a channel of a packet.\<close>
definition packet_ints :: "nat \<Rightarrow> nat \<Rightarrow> bytes \<Rightarrow> nat \<Rightarrow> int list" where
  "packet_ints ch w d c = plane_ints w (planes_of ch d ! c) 0 (length d div (w * ch))"

definition packet_len_ok :: "nat \<Rightarrow> nat \<Rightarrow> bytes \<Rightarrow> bool" where
  "packet_len_ok ch w d \<longleftrightarrow> w * ch dvd length d \<and> length d < 2 ^ 32"

lemma enc_input_ok:
  assumes "enc_inv L N pend got ch w f" and "packet_len_ok ch w d" and "fe_off_pcm f = 0"
  shows "enc_inv L N pend got ch w (enc_input d b f)" and "packet_ok ch w (length d div (w * ch)) (enc_input d b f)"
    and "taken got (enc_input d b f) c = taken got f c" and "fe_off_pcm (enc_input d b f) = 0"
    and "fe_pcm (enc_input d b f) = planes_of ch d"
proof -
  have ch: "fe_channels f = ch" "0 < ch" "0 < w" using assms(1) by (auto simp: enc_inv_def)
  obtain n where l: "length d = n * (w * ch)" using assms(2) by (metis dvd_div_mult_self packet_len_ok_def)
  have nd: "length d div (w * ch) = n" and dv: "length d div ch = w * n"
    using l ch by (simp_all add: mult.left_commute)
  have lp: "length (planes_of ch d) = ch" by (simp add: planes_of_def Let_def)
  have pl: "length pl = w * n" if "pl \<in> set (planes_of ch d)" for pl
  proof -
    obtain c where c: "c < ch" "pl = take (w * n) (drop (c * (w * n)) d)"
      using \<open>pl \<in> set (planes_of ch d)\<close> by (auto simp: planes_of_def Let_def dv)
    have "Suc c * (w * n) \<le> ch * (w * n)" using c(1) by (intro mult_le_mono1) simp
    also have "\<dots> = length d" using l by (simp add: mult.left_commute mult.commute)
    finally show ?thesis using c(2) by simp
  qed
  have "n * 1 \<le> n * (w * ch)" using ch by (intro mult_le_mono2) (simp add: Suc_leI)
  then have n: "n < 2 ^ 32" using assms(2) l unfolding packet_len_ok_def by linarith
  show "enc_inv L N pend got ch w (enc_input d b f)" using assms(1) by (simp add: enc_inv_def enc_input_def)
  show "packet_ok ch w (length d div (w * ch)) (enc_input d b f)"
    unfolding nd packet_ok_def using pl n l lp assms(3) ch by (simp add: enc_input_def)
  show "taken got (enc_input d b f) c = taken got f c" "fe_off_pcm (enc_input d b f) = 0"
    "fe_pcm (enc_input d b f) = planes_of ch d"
    using assms(3) ch by (simp_all add: taken_def enc_input_def)
qed

lemma enc_drain_packet:
  assumes "enc_inv L N pend got ch w f" and "packet_ok ch w len f" and "\<not> fe_fin f" and "len - fe_off_pcm f < k"
  shows "\<exists>f' fr. enc_drain L k f = Some (DMore, f', fr) \<and> enc_inv L N pend got ch w f' \<and> \<not> fe_fin f' \<and> fe_off_pcm f' = 0
    \<and> (\<forall>c<ch. taken got f' c = taken got f c @ plane_ints w (fe_pcm f ! c) (fe_off_pcm f) (len - fe_off_pcm f))
    \<and> (\<forall>x\<in>set fr. fst x = of_nat N)
    \<and> pend (fe_enc f') + fe_off_pcm32 f' + N * length fr = pend (fe_enc f) + fe_off_pcm32 f + (len - fe_off_pcm f)
    \<and> pend (fe_enc f') = (if fr = [] then pend (fe_enc f) else 1)"
  using assms
proof (induction k arbitrary: f)
  case (Suc k)
  define n where "n = min (len - fe_off_pcm f) (fe_cap_pcm32 f - fe_off_pcm32 f)"
  obtain r f1 where s: "ffflac_encode L f = Some (r, f1)" and inv1: "enc_inv L N pend got ch w f1" and pk1: "packet_ok ch w len f1"
    and fin1: "fe_fin f1 = fe_fin f" and pcm1: "fe_pcm f1 = fe_pcm f"
    and tk1: "\<forall>c<ch. taken got f1 c = taken got f c @ plane_ints w (fe_pcm f ! c) (fe_off_pcm f) n"
    and r: "r = DMore \<and> fe_off_pcm f1 = 0 \<and> fe_off_pcm f + n = len \<and> \<not> fe_fin f
          \<and> fe_enc f1 = fe_enc f \<and> fe_off_pcm32 f1 = fe_off_pcm32 f + n
       \<or> r = DData \<and> fe_off_pcm f1 = fe_off_pcm f + n \<and> 0 < n \<and> fe_frsamps f1 = of_nat N \<and> fe_off_pcm32 f1 = 0
          \<and> pend (fe_enc f1) = 1 \<and> pend (fe_enc f) + fe_off_pcm32 f + n = N + 1"
    using ffflac_encode_step [OF Suc.prems(1,2)] Suc.prems(3) unfolding n_def [symmetric] by blast
  from r show ?case
  proof (elim disjE conjE)
    assume m: "r = DMore" "fe_off_pcm f1 = 0" "fe_off_pcm f + n = len"
      "fe_enc f1 = fe_enc f" "fe_off_pcm32 f1 = fe_off_pcm32 f + n"
    then have "len - fe_off_pcm f = n" by simp
    then show ?thesis using s m inv1 fin1 Suc.prems(3) tk1 by simp
  next
    assume m: "r = DData" "fe_off_pcm f1 = fe_off_pcm f + n" "0 < n" "fe_frsamps f1 = of_nat N" "fe_off_pcm32 f1 = 0"
      "pend (fe_enc f1) = 1" "pend (fe_enc f) + fe_off_pcm32 f + n = N + 1"
    have lo: "fe_off_pcm f + n \<le> len" using pk1 m(2) by (simp add: packet_ok_def)
    then have k: "len - fe_off_pcm f1 < k" using Suc.prems(4) m by simp
    obtain f' fr where d: "enc_drain L k f1 = Some (DMore, f', fr)" "enc_inv L N pend got ch w f'" "\<not> fe_fin f'" "fe_off_pcm f' = 0"
      and tk: "\<forall>c<ch. taken got f' c = taken got f1 c @ plane_ints w (fe_pcm f1 ! c) (fe_off_pcm f1) (len - fe_off_pcm f1)"
      and fr: "\<forall>x\<in>set fr. fst x = of_nat N"
      and cnt: "pend (fe_enc f') + fe_off_pcm32 f' + N * length fr = pend (fe_enc f1) + fe_off_pcm32 f1 + (len - fe_off_pcm f1)"
      and pe: "pend (fe_enc f') = (if fr = [] then pend (fe_enc f1) else 1)"
      using Suc.IH [OF inv1 pk1 _ k] fin1 Suc.prems(3) by auto
    have sp: "len - fe_off_pcm f = n + (len - fe_off_pcm f1)" using lo m(2) by simp
    have "\<forall>c<ch. taken got f' c = taken got f c @ plane_ints w (fe_pcm f ! c) (fe_off_pcm f) (len - fe_off_pcm f)"
      unfolding sp plane_ints_add using tk tk1 pcm1 m(2) by simp
    moreover have "pend (fe_enc f') + fe_off_pcm32 f' + N * length ((fe_frsamps f1, fe_data f1) # fr)
        = pend (fe_enc f) + fe_off_pcm32 f + (len - fe_off_pcm f)"
      using cnt m(5-7) unfolding sp by simp
    moreover have "enc_drain L (Suc k) f = Some (DMore, f', (fe_frsamps f1, fe_data f1) # fr)" using s m(1) d(1) by simp
    moreover have "\<forall>x\<in>set ((fe_frsamps f1, fe_data f1) # fr). fst x = of_nat N" using fr m(4) by simp
    moreover have "pend (fe_enc f') = (if (fe_frsamps f1, fe_data f1) # fr = [] then pend (fe_enc f) else 1)" using pe m(6) by simp
    ultimately show ?thesis using d(2-4) by blast
  qed
qed simp

text \<open>Whether the end of the stream leaves a sample that can be written.\<close>
definition enc_end_ok :: "nat \<Rightarrow> nat \<Rightarrow> nat \<Rightarrow> bool" where
  "enc_end_ok N p S \<longleftrightarrow> S \<noteq> 0 \<and> (S mod N = 1 mod N \<longrightarrow> S = 1 \<and> p = 0)"

lemma enc_last_part:
  assumes inv: "enc_inv L N pend got ch w f" and pk: "packet_ok ch w len f" and fin: "fe_fin f"
    and part: "fe_off_pcm32 f + (len - fe_off_pcm f) < fe_cap_pcm32 f"
  shows "\<exists>f1. ffflac_encode L f = enc_block L f1 \<and> enc_inv L N pend got ch w (f1\<lparr>fe_off_pcm32 := 0\<rparr>) \<and> fe_fin f1
    \<and> fe_off_pcm32 f1 = fe_off_pcm32 f + (len - fe_off_pcm f) \<and> fe_cap_pcm32 f1 = fe_cap_pcm32 f \<and> fe_enc f1 = fe_enc f
    \<and> (\<forall>c<ch. taken got f1 c = taken got f c @ plane_ints w (fe_pcm f ! c) (fe_off_pcm f) (len - fe_off_pcm f))
    \<and> packet_ok ch w len f1 \<and> fe_off_pcm f1 = len"
proof -
  note i = inv [unfolded enc_inv_def]
  have fr: "fe_state f = ENC_FRAMES" and sz: "fe_bits f div 8 * fe_channels f \<noteq> 0" using i by auto
  have ol: "fe_off_pcm f \<le> len" using pk by (simp add: packet_ok_def)
  define n where "n = len - fe_off_pcm f"
  have ns: "enc_samples f = n" using enc_samples_eq [OF inv pk] part by (simp add: n_def)
  show ?thesis
  proof (cases "n = 0")
    case True
    then have "ffflac_encode L f = enc_block L f" using fr sz fin ns by (simp add: ffflac_encode_def)
    moreover have "enc_inv L N pend got ch w (f\<lparr>fe_off_pcm32 := 0\<rparr>)" using i by (auto simp: enc_inv_def)
    ultimately show ?thesis using True fin pk ol by (intro exI [of _ f]) (simp add: n_def plane_ints_def)
  next
    case False
    have le: "fe_off_pcm f + n \<le> len" "fe_off_pcm32 f + n \<le> fe_cap_pcm32 f" using part ol by (simp_all add: n_def)
    obtain bufs where bufs: "pcm_to32 (fe_bits f) (fe_off_pcm f) (fe_off_pcm32 f) n (fe_pcm f) (fe_pcm32 f) = Some (Some bufs)"
      and lbufs: "length bufs = ch" and lbs: "\<forall>b\<in>set bufs. length b = N + 1"
      and tk: "\<forall>c<ch. got (fe_enc f) c @ take (fe_off_pcm32 f + n) (bufs ! c)
        = taken got f c @ plane_ints w (fe_pcm f ! c) (fe_off_pcm f) n"
      using enc_convert [OF inv pk le] by blast
    let ?f = "f\<lparr>fe_pcm32 := bufs, fe_off_pcm := fe_off_pcm f + n, fe_off_pcm32 := fe_off_pcm32 f + n\<rparr>"
    have "ffflac_encode L f = enc_block L ?f" using False fr sz fin ns bufs by (simp add: ffflac_encode_def)
    moreover have "enc_inv L N pend got ch w (?f\<lparr>fe_off_pcm32 := 0\<rparr>)" using i lbufs lbs by (simp add: enc_inv_def)
    moreover have "packet_ok ch w len ?f" using pk le by (simp add: packet_ok_def)
    ultimately show ?thesis using fin tk ol unfolding n_def [symmetric]
      by (intro exI [of _ ?f]) (simp add: taken_def n_def)
  qed
qed

lemma enc_drain_last:
  assumes "enc_inv L N pend got ch w f" and "packet_ok ch w len f" and "fe_fin f" and "len - fe_off_pcm f + 3 \<le> k"
    and "S = pend (fe_enc f) + fe_off_pcm32 f + (len - fe_off_pcm f)" and "enc_end_ok N (pend (fe_enc f)) S"
  shows "\<exists>g fr x. enc_drain L k f = Some (DDone, g, fr @ [x])
    \<and> (\<forall>c<ch. got (fe_enc g) c = taken got f c @ plane_ints w (fe_pcm f ! c) (fe_off_pcm f) (len - fe_off_pcm f))
    \<and> (\<forall>y\<in>set fr. fst y = of_nat N) \<and> N * length fr + unat (fst x) = S"
  using assms
proof (induction k arbitrary: f S)
  case (Suc k)
  note inv = Suc.prems(1) and pk = Suc.prems(2) and fin = Suc.prems(3)
  have bo: "fe_off_pcm32 f < fe_cap_pcm32 f" "fe_off_pcm f \<le> len" "0 < N" "fe_cap_pcm32 f + pend (fe_enc f) = N + 1"
    "pend (fe_enc f) \<le> 1"
    using inv pk by (simp_all add: packet_ok_def enc_inv_def)
  show ?case
  proof (cases "fe_off_pcm32 f + (len - fe_off_pcm f) < fe_cap_pcm32 f")
    case True
    obtain f1 where f1: "ffflac_encode L f = enc_block L f1" "enc_inv L N pend got ch w (f1\<lparr>fe_off_pcm32 := 0\<rparr>)" "fe_fin f1"
      "fe_off_pcm32 f1 = fe_off_pcm32 f + (len - fe_off_pcm f)" "fe_cap_pcm32 f1 = fe_cap_pcm32 f" "fe_enc f1 = fe_enc f"
      and tk: "\<forall>c<ch. taken got f1 c = taken got f c @ plane_ints w (fe_pcm f ! c) (fe_off_pcm f) (len - fe_off_pcm f)"
      using enc_last_part [OF inv pk fin True] by (elim exE conjE)
    have S: "S = pend (fe_enc f) + fe_off_pcm32 f1" using Suc.prems(5) f1(4) by simp
    have "fe_off_pcm32 f1 \<noteq> 0"
    proof
      assume "fe_off_pcm32 f1 = 0"
      then have "S = pend (fe_enc f)" using S by simp
      then show False using Suc.prems(6) bo(5) by (cases "pend (fe_enc f)") (auto simp: enc_end_ok_def)
    qed
    then have m: "0 < fe_off_pcm32 f1" "fe_off_pcm32 f1 < fe_cap_pcm32 f1" using True f1(4,5) by linarith+
    obtain g where g: "enc_block L f1 = Some (DData, g)" "fe_state g = ENC_DONE"
      "unat (fe_frsamps g) = pend (fe_enc f1) + fe_off_pcm32 f1" "\<forall>c<ch. got (fe_enc g) c = taken got f1 c"
      using enc_block_last [OF f1(2) m f1(3)] by (elim exE conjE)
    obtain k' where k': "k = Suc k'" using Suc.prems(4) by (cases k) simp_all
    have "enc_drain L (Suc k) f
        = Some (DDone, g\<lparr>fe_info := le_info L (fe_enc g)\<rparr>, [] @ [(fe_frsamps g, fe_data g)])"
      using f1(1) g(1,2) k' by (simp add: ffflac_encode_def Let_def)
    moreover have "N * length ([] :: (u32 \<times> bytes) list) + unat (fst (fe_frsamps g, fe_data g)) = S"
      using g(3) S f1(6) by simp
    ultimately show ?thesis using g(4) tk
      by (intro exI [of _ "g\<lparr>fe_info := le_info L (fe_enc g)\<rparr>"] exI [of _ "[]"] exI [of _ "(fe_frsamps g, fe_data g)"]) simp
  next
    case False
    define n where "n = min (len - fe_off_pcm f) (fe_cap_pcm32 f - fe_off_pcm32 f)"
    have full: "fe_off_pcm32 f + n = fe_cap_pcm32 f" using False bo unfolding n_def by linarith
    obtain r f1 where s: "ffflac_encode L f = Some (r, f1)" and inv1: "enc_inv L N pend got ch w f1" and pk1: "packet_ok ch w len f1"
      and fin1: "fe_fin f1 = fe_fin f" and pcm1: "fe_pcm f1 = fe_pcm f"
      and tk1: "\<forall>c<ch. taken got f1 c = taken got f c @ plane_ints w (fe_pcm f ! c) (fe_off_pcm f) n"
      and r: "r = DData" "fe_off_pcm f1 = fe_off_pcm f + n" "0 < n" "fe_frsamps f1 = of_nat N" "fe_off_pcm32 f1 = 0"
        "pend (fe_enc f1) = 1" "pend (fe_enc f) + fe_off_pcm32 f + n = N + 1"
      using ffflac_encode_step [OF inv pk] full fin unfolding n_def [symmetric] by blast
    have fin': "fe_fin f1" using fin1 fin by simp
    have lo: "fe_off_pcm f + n \<le> len" using pk1 r(2) by (simp add: packet_ok_def)
    then have k: "len - fe_off_pcm f1 + 3 \<le> k" using Suc.prems(4) r by simp
    let ?S = "pend (fe_enc f1) + fe_off_pcm32 f1 + (len - fe_off_pcm f1)"
    have SS: "S = ?S + N" using Suc.prems(5) r lo by simp
    have "S mod N \<noteq> 1 mod N" using Suc.prems(6) SS r(6) bo(3) by (auto simp: enc_end_ok_def)
    moreover have ms: "?S mod N = S mod N" unfolding SS by simp
    ultimately have ok: "enc_end_ok N (pend (fe_enc f1)) ?S" unfolding enc_end_ok_def ms using r(6) by simp
    obtain g fr x where d: "enc_drain L k f1 = Some (DDone, g, fr @ [x])"
      and tk: "\<forall>c<ch. got (fe_enc g) c = taken got f1 c @ plane_ints w (fe_pcm f1 ! c) (fe_off_pcm f1) (len - fe_off_pcm f1)"
      and fr: "\<forall>y\<in>set fr. fst y = of_nat N" and cnt: "N * length fr + unat (fst x) = ?S"
      using Suc.IH [OF inv1 pk1 fin' k refl ok] by (elim exE conjE)
    have sp: "len - fe_off_pcm f = n + (len - fe_off_pcm f1)" using lo r(2) by simp
    have "enc_drain L (Suc k) f = Some (DDone, g, ((fe_frsamps f1, fe_data f1) # fr) @ [x])" using s r(1) d by simp
    moreover have "\<forall>c<ch. got (fe_enc g) c = taken got f c @ plane_ints w (fe_pcm f ! c) (fe_off_pcm f) (len - fe_off_pcm f)"
      unfolding sp plane_ints_add using tk tk1 pcm1 r(2) by simp
    moreover have "N * length ((fe_frsamps f1, fe_data f1) # fr) + unat (fst x) = S" using cnt SS by simp
    moreover have "\<forall>y\<in>set ((fe_frsamps f1, fe_data f1) # fr). fst y = of_nat N" using fr r(4) by simp
    ultimately show ?thesis by blast
  qed
qed simp

lemma enc_block_empty:
  assumes "enc_inv L N pend got ch w f" and "fe_off_pcm32 f = 0" "pend (fe_enc f) = 0" and "fe_fin f"
  shows "enc_block L f = None"
proof -
  note i = assms(1) [unfolded enc_inv_def]
  obtain d1 e1 where e1: "le_encode L (fe_enc f) (fe_pcm32 f) 0 = (0, of_nat 0, d1, e1)" and "pend e1 = 0"
    using i assms(3) unfolding flac_enc_law_def by metis
  moreover obtain d2 e2 where "le_encode L e1 (fe_pcm32 f) 0 = (0, of_nat 0, d2, e2)"
    using i \<open>pend e1 = 0\<close> unfolding flac_enc_law_def by metis
  ultimately show ?thesis using assms(2,4) by (simp add: enc_block_def Let_def)
qed

text \<open>The end without a sample in the buffer: an assertion of the encoder fails.\<close>
lemma enc_end_empty:
  assumes inv: "enc_inv L N pend got ch w f" and pk: "packet_ok ch w len f" and fin: "fe_fin f"
    and none: "fe_off_pcm32 f = 0" "fe_off_pcm f = len"
  shows "enc_drain L k f = None"
proof (cases k)
  case (Suc k')
  have "fe_off_pcm32 f + (len - fe_off_pcm f) < fe_cap_pcm32 f" using inv none by (simp add: enc_inv_def)
  then have ns: "enc_samples f = 0" using enc_samples_eq [OF inv pk] none by simp
  have fr: "fe_state f = ENC_FRAMES" and sz: "fe_bits f div 8 * fe_channels f \<noteq> 0" using inv by (auto simp: enc_inv_def)
  have enc: "ffflac_encode L f = enc_block L f" using fr sz fin ns by (simp add: ffflac_encode_def)
  have "pend (fe_enc f) = 0 \<or> pend (fe_enc f) = 1" using inv by (auto simp: enc_inv_def)
  then show ?thesis
  proof
    assume "pend (fe_enc f) = 0"
    then show ?thesis using enc_block_empty [OF inv none(1) _ fin] enc Suc by simp
  next
    assume p1: "pend (fe_enc f) = 1"
    obtain g where g: "enc_block L f = Some (DData, g)" "enc_block L g = None"
      and ge: "g = f\<lparr>fe_enc := fe_enc g, fe_data := fe_data g, fe_frsamps := of_nat N\<rparr>"
      using enc_block_kept [OF inv none(1) p1 fin] by (elim exE conjE)
    have gs: "fe_state g = fe_state f" "fe_bits g = fe_bits f" "fe_channels g = fe_channels f" "fe_fin g = fe_fin f"
      "enc_samples g = enc_samples f"
      by (subst ge, simp add: enc_samples_def)+
    have "ffflac_encode L g = None" using gs fr sz fin ns g(2) by (simp add: ffflac_encode_def)
    then have "enc_drain L k' g = None" by (cases k') simp_all
    then show ?thesis using enc g(1) Suc by simp
  qed
qed simp

lemma enc_drain_bad:
  assumes "enc_inv L N pend got ch w f" and "packet_ok ch w len f" and "fe_fin f"
    and "S = pend (fe_enc f) + fe_off_pcm32 f + (len - fe_off_pcm f)" and "\<not> enc_end_ok N (pend (fe_enc f)) S"
  shows "enc_drain L k f = None"
  using assms
proof (induction k arbitrary: f S)
  case (Suc k)
  note inv = Suc.prems(1) and pk = Suc.prems(2) and fin = Suc.prems(3)
  have bo: "fe_off_pcm32 f < fe_cap_pcm32 f" "fe_off_pcm f \<le> len" "0 < N" "fe_cap_pcm32 f + pend (fe_enc f) = N + 1"
    "pend (fe_enc f) \<le> 1"
    using inv pk by (simp_all add: packet_ok_def enc_inv_def)
  show ?case
  proof (cases "fe_off_pcm32 f + (len - fe_off_pcm f) < fe_cap_pcm32 f")
    case True
    define m where "m = fe_off_pcm32 f + (len - fe_off_pcm f)"
    have S: "S = pend (fe_enc f) + m" and SN: "S \<le> N" using Suc.prems(4) True bo(4) by (simp_all add: m_def)
    have "m = 0"
    proof (rule ccontr)
      assume "m \<noteq> 0"
      then have S0: "S \<noteq> 0" and S1: "S = 1 \<Longrightarrow> pend (fe_enc f) = 0" using S by simp_all
      then have "S mod N = 1 mod N" and n1: "S \<noteq> 1" using Suc.prems(5) by (auto simp: enc_end_ok_def)
      then show False using SN S0 bo(3) by (cases "S = N"; cases "N = 1") simp_all
    qed
    then have "fe_off_pcm32 f = 0" "fe_off_pcm f = len" using bo(2) by (simp_all add: m_def)
    then show ?thesis using enc_end_empty [OF inv pk fin] by blast
  next
    case False
    define n where "n = min (len - fe_off_pcm f) (fe_cap_pcm32 f - fe_off_pcm32 f)"
    have full: "fe_off_pcm32 f + n = fe_cap_pcm32 f" using False bo unfolding n_def by linarith
    obtain r f1 where s: "ffflac_encode L f = Some (r, f1)" and inv1: "enc_inv L N pend got ch w f1" and pk1: "packet_ok ch w len f1"
      and fin1: "fe_fin f1 = fe_fin f"
      and r: "r = DData" "fe_off_pcm f1 = fe_off_pcm f + n" "0 < n" "fe_off_pcm32 f1 = 0"
        "pend (fe_enc f1) = 1" "pend (fe_enc f) + fe_off_pcm32 f + n = N + 1"
      using ffflac_encode_step [OF inv pk] full fin unfolding n_def [symmetric] by blast
    have fin': "fe_fin f1" using fin1 fin by simp
    have lo: "fe_off_pcm f + n \<le> len" using pk1 r(2) by (simp add: packet_ok_def)
    let ?S = "pend (fe_enc f1) + fe_off_pcm32 f1 + (len - fe_off_pcm f1)"
    have SS: "S = ?S + N" using Suc.prems(4) r lo by simp
    have "S \<noteq> 0" "S \<noteq> 1" using SS r(5) bo(3) by simp_all
    then have "S mod N = 1 mod N" using Suc.prems(5) by (auto simp: enc_end_ok_def)
    moreover have ms: "?S mod N = S mod N" unfolding SS by simp
    ultimately have "\<not> enc_end_ok N (pend (fe_enc f1)) ?S" unfolding enc_end_ok_def ms using r(5) by simp
    then have "enc_drain L k f1 = None" by (rule Suc.IH [OF inv1 pk1 fin' refl])
    then show ?thesis using s r(1) by simp
  qed
qed simp

section \<open>The whole stream\<close>

lemma encode_header: "fe_state f = ENC_HDR \<Longrightarrow> ffflac_encode L f = ffflac_encode L (enc_header f)"
  by (simp add: ffflac_encode_def enc_header_def Let_def)

lemma enc_stream_header: "fe_state f = ENC_HDR \<Longrightarrow> enc_stream L ps d f = enc_stream L ps d (enc_header f)"
proof -
  assume h: "fe_state f = ENC_HDR"
  have "enc_drain L k (enc_input p b f) = enc_drain L k (enc_input p b (enc_header f))" for k p b
  proof (cases k)
    case (Suc k')
    have "enc_header (enc_input p b f) = enc_input p b (enc_header f)" by (simp add: enc_header_def enc_input_def Let_def)
    then have "ffflac_encode L (enc_input p b f) = ffflac_encode L (enc_input p b (enc_header f))"
      using encode_header [of "enc_input p b f" L] h by (simp add: enc_input_def)
    then show ?thesis using Suc by simp
  qed simp
  then show ?thesis by (cases ps) (simp_all del: enc_drain.simps)
qed

definition packets_len :: "nat \<Rightarrow> nat \<Rightarrow> bytes list \<Rightarrow> nat" where
  "packets_len ch w ps = sum_list (map (\<lambda>d. length d div (w * ch)) ps)"

lemma enc_stream_run:
  assumes "enc_inv L N pend got ch w f" and "\<not> fe_fin f" and "fe_off_pcm f = 0"
    and "\<forall>p\<in>set (ps @ [d]). packet_len_ok ch w p"
    and "S = pend (fe_enc f) + fe_off_pcm32 f + packets_len ch w (ps @ [d])"
    and "S \<noteq> 0" and "S mod N = 1 mod N \<longrightarrow> S = 1 \<and> pend (fe_enc f) = 0"
  shows "\<exists>g fr x. enc_stream L ps d f = Some (DDone, g, fr @ [x])
    \<and> (\<forall>c<ch. got (fe_enc g) c = taken got f c @ concat (map (\<lambda>p. packet_ints ch w p c) (ps @ [d])))
    \<and> (\<forall>y\<in>set fr. fst y = of_nat N) \<and> N * length fr + unat (fst x) = S"
  using assms
proof (induction ps arbitrary: f S)
  case Nil
  have dok: "packet_len_ok ch w d" using Nil.prems(4) by simp
  note ok = enc_input_ok [OF Nil.prems(1) dok Nil.prems(3), where b = True]
  let ?f = "enc_input d True f"
  have e: "fe_enc ?f = fe_enc f" "fe_off_pcm32 ?f = fe_off_pcm32 f" "fe_fin ?f" by (simp_all add: enc_input_def)
  have le: "length d div (w * ch) - fe_off_pcm ?f + 3 \<le> length d + 3" using ok(4) by simp
  have S: "S = pend (fe_enc ?f) + fe_off_pcm32 ?f + (length d div (w * ch) - fe_off_pcm ?f)"
    using Nil.prems(5) ok(4) e by (simp add: packets_len_def)
  have eo: "enc_end_ok N (pend (fe_enc ?f)) S" using Nil.prems(6,7) e by (simp add: enc_end_ok_def)
  from enc_drain_last [OF ok(1,2) e(3) le S eo] show ?case
    using ok(3-5) by (simp add: packet_ints_def)
next
  case (Cons p ps)
  have pok: "packet_len_ok ch w p" using Cons.prems(4) by simp
  note ok = enc_input_ok [OF Cons.prems(1) pok Cons.prems(3), where b = False]
  let ?f = "enc_input p False f" and ?len = "length p div (w * ch)"
  have e: "fe_enc ?f = fe_enc f" "fe_off_pcm32 ?f = fe_off_pcm32 f" "\<not> fe_fin ?f"
    using Cons.prems(2) by (simp_all add: enc_input_def)
  have lt: "?len - fe_off_pcm ?f < length p + 1" using ok(4) by (simp add: le_imp_less_Suc)
  obtain f' fr where d: "enc_drain L (length p + 1) ?f = Some (DMore, f', fr)" and inv': "enc_inv L N pend got ch w f'"
    and fin': "\<not> fe_fin f'" and off': "fe_off_pcm f' = 0"
    and tk: "\<forall>c<ch. taken got f' c = taken got ?f c @ plane_ints w (fe_pcm ?f ! c) (fe_off_pcm ?f) (?len - fe_off_pcm ?f)"
    and fr: "\<forall>x\<in>set fr. fst x = of_nat N"
    and cnt: "pend (fe_enc f') + fe_off_pcm32 f' + N * length fr = pend (fe_enc ?f) + fe_off_pcm32 ?f + (?len - fe_off_pcm ?f)"
    and pe: "pend (fe_enc f') = (if fr = [] then pend (fe_enc ?f) else 1)"
    using enc_drain_packet [OF ok(1,2) e(3) lt] by (elim exE conjE)
  let ?S = "pend (fe_enc f') + fe_off_pcm32 f' + packets_len ch w (ps @ [d])"
  have SS: "S = ?S + N * length fr" using Cons.prems(5) cnt ok(4) e by (simp add: packets_len_def)
  have ms: "?S mod N = S mod N" unfolding SS by simp
  have S0: "?S \<noteq> 0" and Sm: "?S mod N = 1 mod N \<longrightarrow> ?S = 1 \<and> pend (fe_enc f') = 0"
  proof -
    have N: "0 < N" using Cons.prems(1) by (simp add: enc_inv_def)
    show "?S \<noteq> 0"
    proof (cases "fr = []")
      case True
      then have "S = ?S" using SS by (simp only: list.size mult_0_right add_0_right)
      then show ?thesis using Cons.prems(6) by (simp only: not_False_eq_True)
    next
      case False
      then show ?thesis using pe by simp
    qed
    show "?S mod N = 1 mod N \<longrightarrow> ?S = 1 \<and> pend (fe_enc f') = 0"
    proof (cases "fr = []")
      case True
      then have "S = ?S" using SS by (simp only: list.size mult_0_right add_0_right)
      moreover have "pend (fe_enc f') = pend (fe_enc f)" using pe True e(1) by simp
      ultimately show ?thesis using Cons.prems(7) by (simp only:)
    next
      case False
      then have "N \<le> N * length fr" by (cases fr) simp_all
      then have "S \<noteq> 1" using SS pe False N by simp
      then show ?thesis unfolding ms using Cons.prems(7) by blast
    qed
  qed
  have oks: "\<forall>q\<in>set (ps @ [d]). packet_len_ok ch w q" using Cons.prems(4) by simp
  obtain g fr' x where g: "enc_stream L ps d f' = Some (DDone, g, fr' @ [x])"
    and tk': "\<forall>c<ch. got (fe_enc g) c = taken got f' c @ concat (map (\<lambda>p. packet_ints ch w p c) (ps @ [d]))"
    and fr': "\<forall>y\<in>set fr'. fst y = of_nat N" and cnt': "N * length fr' + unat (fst x) = ?S"
    using Cons.IH [OF inv' fin' off' oks refl S0 Sm] by (elim exE conjE)
  have "enc_stream L (p # ps) d f = Some (DDone, g, (fr @ fr') @ [x])" using d g by simp
  moreover have "\<forall>c<ch. got (fe_enc g) c = taken got f c @ concat (map (\<lambda>p. packet_ints ch w p c) ((p # ps) @ [d]))"
    using tk' tk ok(3-5) by (simp add: packet_ints_def)
  moreover have "\<forall>y\<in>set (fr @ fr'). fst y = of_nat N" using fr fr' by auto
  moreover have "N * length (fr @ fr') + unat (fst x) = S" using cnt' SS by (simp add: add_mult_distrib2)
  ultimately show ?case by blast
qed

lemma enc_stream_bad:
  assumes "enc_inv L N pend got ch w f" and "\<not> fe_fin f" and "fe_off_pcm f = 0"
    and "\<forall>p\<in>set (ps @ [d]). packet_len_ok ch w p"
    and "S = pend (fe_enc f) + fe_off_pcm32 f + packets_len ch w (ps @ [d])" and "\<not> enc_end_ok N (pend (fe_enc f)) S"
  shows "enc_stream L ps d f = None"
  using assms
proof (induction ps arbitrary: f S)
  case Nil
  have dok: "packet_len_ok ch w d" using Nil.prems(4) by simp
  note ok = enc_input_ok [OF Nil.prems(1) dok Nil.prems(3), where b = True]
  let ?f = "enc_input d True f"
  have e: "fe_enc ?f = fe_enc f" "fe_off_pcm32 ?f = fe_off_pcm32 f" "fe_fin ?f" by (simp_all add: enc_input_def)
  have S: "S = pend (fe_enc ?f) + fe_off_pcm32 ?f + (length d div (w * ch) - fe_off_pcm ?f)"
    using Nil.prems(5) ok(4) e by (simp add: packets_len_def)
  show ?case using enc_drain_bad [OF ok(1,2) e(3) S] Nil.prems(6) e(1) by simp
next
  case (Cons p ps)
  have pok: "packet_len_ok ch w p" using Cons.prems(4) by simp
  note ok = enc_input_ok [OF Cons.prems(1) pok Cons.prems(3), where b = False]
  let ?f = "enc_input p False f" and ?len = "length p div (w * ch)"
  have e: "fe_enc ?f = fe_enc f" "fe_off_pcm32 ?f = fe_off_pcm32 f" "\<not> fe_fin ?f"
    using Cons.prems(2) by (simp_all add: enc_input_def)
  have lt: "?len - fe_off_pcm ?f < length p + 1" using ok(4) by (simp add: le_imp_less_Suc)
  obtain f' fr where d: "enc_drain L (length p + 1) ?f = Some (DMore, f', fr)" and inv': "enc_inv L N pend got ch w f'"
    and fin': "\<not> fe_fin f'" and off': "fe_off_pcm f' = 0"
    and cnt: "pend (fe_enc f') + fe_off_pcm32 f' + N * length fr = pend (fe_enc ?f) + fe_off_pcm32 ?f + (?len - fe_off_pcm ?f)"
    and pe: "pend (fe_enc f') = (if fr = [] then pend (fe_enc ?f) else 1)"
    using enc_drain_packet [OF ok(1,2) e(3) lt] by (elim exE conjE)
  let ?S = "pend (fe_enc f') + fe_off_pcm32 f' + packets_len ch w (ps @ [d])"
  have SS: "S = ?S + N * length fr" using Cons.prems(5) cnt ok(4) e by (simp add: packets_len_def)
  have ms: "?S mod N = S mod N" unfolding SS by simp
  have bad: "\<not> enc_end_ok N (pend (fe_enc f')) ?S"
  proof (cases "fr = []")
    case True
    then have "S = ?S" using SS by (simp only: list.size mult_0_right add_0_right)
    moreover have "pend (fe_enc f') = pend (fe_enc f)" using pe True e(1) by simp
    ultimately show ?thesis using Cons.prems(6) by (simp only: not_False_eq_True)
  next
    case False
    have "0 < N" using Cons.prems(1) by (simp add: enc_inv_def)
    moreover have "N \<le> N * length fr" using False by (cases fr) simp_all
    moreover have p1: "pend (fe_enc f') = 1" using pe False by simp
    ultimately have "S \<noteq> 0" "S \<noteq> 1" using SS by linarith+
    then have "S mod N = 1 mod N" using Cons.prems(6) by (simp add: enc_end_ok_def)
    then have "?S mod N = 1 mod N" unfolding ms .
    then show ?thesis unfolding enc_end_ok_def using p1 by (metis One_nat_def zero_neq_one)
  qed
  have oks: "\<forall>q\<in>set (ps @ [d]). packet_len_ok ch w q" using Cons.prems(4) by simp
  have "enc_stream L ps d f' = None" using Cons.IH [OF inv' fin' off' oks refl bad] .
  then show ?case using d by simp
qed

text \<open>Documented behaviour of \<open>flac_encode_init\<close>: nothing is pending.\<close>
definition flac_init_law :: "'e flac_enc_lib \<Rightarrow> ('e \<Rightarrow> nat) \<Rightarrow> ('e \<Rightarrow> nat \<Rightarrow> int list) \<Rightarrow> bool" where
  "flac_init_law L pend got \<longleftrightarrow> (\<forall>b ch rate l m. pend (snd (le_init L b ch rate l m)) = 0 \<and> got (snd (le_init L b ch rate l m)) = (\<lambda>_. []))"

lemma enc_create_inv:
  assumes "ffflac_create L (ffflac_enc_init e0) pcm = (FLAC_OK, pcm', f)" and "flac_enc_law L N pend got" and "flac_init_law L pend got"
    and "unat (si_minblock (le_info L (fe_enc f))) = N" and "0 < N" and "N + 1 < 2 ^ 32" and "0 < unat (af_channels pcm)"
    and "pcm_bits (af_format pcm) = 8 * w"
  shows "fe_state f = ENC_HDR" and "enc_inv L N pend got (unat (af_channels pcm)) w (enc_header f)" and "\<not> fe_fin (enc_header f)"
    and "fe_off_pcm (enc_header f) = 0" and "fe_off_pcm32 (enc_header f) = 0" and "pend (fe_enc (enc_header f)) = 0"
    and "got (fe_enc (enc_header f)) c = []"
proof -
  obtain r e where ie: "le_init L (pcm_bits (af_format pcm)) (unat (af_channels pcm)) (af_rate pcm) 5 False = (r, e)"
    by (cases "le_init L (pcm_bits (af_format pcm)) (unat (af_channels pcm)) (af_rate pcm) 5 False")
  have fmt: "af_format pcm \<in> {PHI_PCM_8, PHI_PCM_16, PHI_PCM_24}"
    using assms(1) by (auto simp: ffflac_create_def split: if_splits)
  have "r = 0" using assms(1) ie by (auto simp: ffflac_create_def ffflac_enc_init_def split: if_splits)
  then have f: "f = (ffflac_enc_init e0)\<lparr>fe_enc := e,
      fe_info := (fe_info (ffflac_enc_init e0))\<lparr>si_minblock := si_minblock (le_info L e), si_maxblock := si_maxblock (le_info L e)\<rparr>,
      fe_channels := unat (af_channels pcm), fe_rate := af_rate pcm, fe_bits := pcm_bits (af_format pcm)\<rparr>"
    using assms(1) ie by (auto simp: ffflac_create_def ffflac_enc_init_def split: if_splits)
  have pe: "pend e = 0" "got e = (\<lambda>_. [])" using assms(3) ie unfolding flac_init_law_def by (metis snd_conv)+
  have fe: "fe_enc f = e" by (simp add: f)
  have w: "w \<in> {1, 2, 3}" using fmt assms(8) by (auto simp: pcm_bits_def pcm_format_defs)
  have mb: "unat (si_minblock (fe_info f) + 1) = N + 1"
    using assms(4,6) fe by (subst unat_add_small) (simp_all add: f)
  show "fe_state f = ENC_HDR" by (simp add: f ffflac_enc_init_def)
  show "enc_inv L N pend got (unat (af_channels pcm)) w (enc_header f)"
    using assms(2,4-8) fe pe w mb by (simp add: enc_inv_def enc_header_def Let_def) (simp add: f ffflac_enc_init_def)
  show "\<not> fe_fin (enc_header f)" "fe_off_pcm (enc_header f) = 0" "fe_off_pcm32 (enc_header f) = 0"
    "pend (fe_enc (enc_header f)) = 0" "got (fe_enc (enc_header f)) c = []"
    using pe by (simp_all add: enc_header_def Let_def) (simp_all add: f ffflac_enc_init_def)
qed


text \<open>A stream whose last frame would have one sample: an assertion of the encoder fails.\<close>
lemma flac_encoder_one_left:
  assumes "ffflac_create L (ffflac_enc_init e0) pcm = (FLAC_OK, pcm', f)" and "flac_enc_law L N pend got" and "flac_init_law L pend got"
    and "unat (si_minblock (le_info L (fe_enc f))) = N" and "0 < N" and "N + 1 < 2 ^ 32" and "0 < unat (af_channels pcm)"
    and "pcm_bits (af_format pcm) = 8 * w" and "\<forall>p\<in>set (ps @ [d]). packet_len_ok (unat (af_channels pcm)) w p"
    and "T = packets_len (unat (af_channels pcm)) w (ps @ [d])" and "T mod N = 1 mod N" and "1 < T"
  shows "enc_stream L ps d f = None"
proof -
  note i = enc_create_inv [OF assms(1-8)]
  have S: "T = pend (fe_enc (enc_header f)) + fe_off_pcm32 (enc_header f) + packets_len (unat (af_channels pcm)) w (ps @ [d])"
    using assms(10) i(5,6) by simp
  have "\<not> enc_end_ok N (pend (fe_enc (enc_header f))) T" using assms(11,12) by (simp add: enc_end_ok_def)
  from enc_stream_bad [OF i(2-4) assms(9) S this] show ?thesis using enc_stream_header [OF i(1)] by simp
qed

text \<open>A library with blocks of \<open>2\<close> samples: the number of pending samples and what each channel has got.\<close>
definition flac_enc_ex_lib :: "(nat \<times> (nat \<Rightarrow> int list)) flac_enc_lib" where
  "flac_enc_ex_lib =
     \<lparr>le_init = (\<lambda>_ _ _ _ _. (0, 0, \<lambda>_. [])),
      le_info = (\<lambda>_. \<lparr>si_minblock = 2, si_maxblock = 2, si_minframe = 0, si_maxframe = 0, si_md5 = []\<rparr>),
      le_encode = (\<lambda>(p, g) bufs s.
        if s = 0 then ((if p = 0 then 0 else 1), of_nat p, [0], (0, g))
        else
          (let p' = p + unat s; g' = (\<lambda>c. if c < length bufs then g c @ take (unat s) (bufs ! c) else g c)
           in if p' = 3 then (1, s, [1], (1, g')) else (0, s, [], (p', g')))),
      le_vendor = ''''\<rparr>"

lemma flac_enc_ex_laws: "flac_enc_law flac_enc_ex_lib 2 fst snd" "flac_init_law flac_enc_ex_lib fst snd"
  by (auto simp: flac_enc_law_def flac_init_law_def flac_enc_ex_lib_def Let_def)


end
