(* ===== verification/Tee.thy ===== *)
theory Tee
  imports Queue Detector
begin

text \<open>
  \<open>src/core/file-tee.h\<close>: the filter \<open>tee\<close> passes its data on and copies it through a ring buffer to a
  second track, whose first filter \<open>tee-brg\<close> reads the ring and whose last one writes a file. The two tracks run on
  different workers and share the bridge (\<open>struct tee_brg\<close>), which the one that leaves last releases.

  The ring buffer of ffbase and the operations of the core on tracks are parameters. A use of a bridge after
  its release is \<open>None\<close>.
\<close>

section \<open>The bridge\<close>

text \<open>
  The ring buffer: \<open>rg_begin\<close> yields the data that can be read (without a limit, as the limit given is the capacity)
  and a position, \<open>rg_finish\<close> gives the space up to that position free; \<open>rg_head0\<close> is the zeroed position.
\<close>
record ('r, 'h) ring_if =
  rg_alloc :: "nat \<Rightarrow> 'r"
  rg_writestr :: "'r \<Rightarrow> bytes \<Rightarrow> nat \<times> 'r"
  rg_begin :: "'r \<Rightarrow> 'h \<times> bytes \<times> 'r"
  rg_finish :: "'r \<Rightarrow> 'h \<Rightarrow> 'r"
  rg_head0 :: 'h

record ('r, 'h) tee_brg =
  tb_users :: u32
  tb_ring :: 'r
  tb_rhead :: 'h

text \<open>The bridges on the heap and the rest of the program.\<close>
record ('r, 'h, 'w) tee_sys =
  ts_brgs :: "nat \<Rightarrow> ('r, 'h) tee_brg option"
  ts_next :: nat
  ts_w :: 'w

definition put_brg :: "nat \<Rightarrow> ('r, 'h) tee_brg \<Rightarrow> ('r, 'h, 'w) tee_sys \<Rightarrow> ('r, 'h, 'w) tee_sys" where
  "put_brg a b s = s\<lparr>ts_brgs := (ts_brgs s)(a := Some b)\<rparr>"

definition tee_brg_new :: "('r, 'h) ring_if \<Rightarrow> nat \<Rightarrow> ('r, 'h, 'w) tee_sys \<Rightarrow> nat \<times> ('r, 'h, 'w) tee_sys" where
  "tee_brg_new G buf_size s =
     (ts_next s, put_brg (ts_next s) \<lparr>tb_users = 1, tb_ring = rg_alloc G buf_size, tb_rhead = rg_head0 G\<rparr>
        (s\<lparr>ts_next := ts_next s + 1\<rparr>))"

definition tee_brg_unref :: "nat option \<Rightarrow> ('r, 'h, 'w) tee_sys \<Rightarrow> ('r, 'h, 'w) tee_sys option" where
  "tee_brg_unref a s =
     (case a of
        None \<Rightarrow> Some s
      | Some i \<Rightarrow>
          (case ts_brgs s i of
             None \<Rightarrow> None
           | Some b \<Rightarrow>
               if tb_users b = 1 then Some (s\<lparr>ts_brgs := (ts_brgs s)(i := None)\<rparr>)
               else Some (put_brg i (b\<lparr>tb_users := tb_users b - 1\<rparr>) s)))"

definition tee_brg_process ::
    "('r, 'h) ring_if \<Rightarrow> nat \<Rightarrow> phi_track \<Rightarrow> ('r, 'h, 'w) tee_sys \<Rightarrow> (phi_track \<times> ('r, 'h, 'w) tee_sys \<times> phi_r) option" where
  "tee_brg_process G a t s =
     (case ts_brgs s a of
        None \<Rightarrow> None
      | Some b \<Rightarrow>
          (let r0 = (if \<not> has_flag t PHI_FFWD then rg_finish G (tb_ring b) (tb_rhead b) else tb_ring b);
               (h, out, r1) = rg_begin G r0
           in Some (t\<lparr>t_data_out := out\<rparr>, put_brg a (b\<lparr>tb_ring := r1, tb_rhead := h\<rparr>) s,
                    if out = [] then (if has_flag t PHI_FSTOP then PHI_DONE else PHI_ASYNC) else PHI_DATA)))"

text \<open>The filter of the second track is closed; its meta data and the name of its file are released.\<close>
definition tee_brg_close :: "nat \<Rightarrow> phi_track \<Rightarrow> ('r, 'h, 'w) tee_sys \<Rightarrow> (phi_track \<times> ('r, 'h, 'w) tee_sys) option" where
  "tee_brg_close a t s =
     map_option (\<lambda>s1. (t\<lparr>t_meta := meta_destroy (t_meta t),
         t_conf := (t_conf t)\<lparr>c_ofile := (c_ofile (t_conf t))\<lparr>of_name := None\<rparr>\<rparr>\<rparr>, s1)) (tee_brg_unref (Some a) s)"

section \<open>The filter\<close>

datatype tee_state = I_INIT | I_WAIT_META | I_DATA

record tee =
  te_state :: tee_state
  te_out_trk :: "nat option"
  te_brg :: "nat option"
  te_o_stdout :: bool

text \<open>
  \<open>tee_open\<close>; \<open>splitname\<close> is \<open>ffpath_splitname_str\<close> (name and extension), \<open>cmod\<close> is \<open>core->mod\<close>. Without an
  instance, the filter is an error or is skipped.
\<close>
definition tee_open :: "(string \<Rightarrow> string \<times> string) \<Rightarrow> (string \<Rightarrow> string option) \<Rightarrow> phi_track \<Rightarrow> phi_track \<times> (phi_open + tee)" where
  "tee_open splitname cmod t =
     (let c = t_conf t;
          tee_name = (case c_tee c of Some n \<Rightarrow> n | None \<Rightarrow> (case c_tee_output c of Some n \<Rightarrow> n | None \<Rightarrow> []));
          (fn, ext) = splitname tee_name;
          o_stdout = (fn = ''@stdout'')
      in if c_tee_output c \<noteq> None \<and> ext \<noteq> ''wav'' then (t, Inl OpenErr)
         else if c_tee_output c \<noteq> None \<and> \<not> af_interleaved (o_format (t_oaudio t)) then (t, Inl OpenErr)
         else if c_tee c \<noteq> None \<and> o_stdout then
           (case track_add (cmod ''core.stdout'') t of
              (t1, ok) \<Rightarrow> if \<not> ok then (t1, Inl OpenErr) else (t1\<lparr>t_data_out := t_data_in t1\<rparr>, Inl OpenSkip))
         else (t, Inr \<lparr>te_state = I_INIT, te_out_trk = None, te_brg = None, te_o_stdout = o_stdout\<rparr>))"

definition tee_close :: "'w track_if \<Rightarrow> tee \<Rightarrow> ('r, 'h, 'w) tee_sys \<Rightarrow> ('r, 'h, 'w) tee_sys option" where
  "tee_close I c s =
     (let s1 = (case te_out_trk c of None \<Rightarrow> s | Some o1 \<Rightarrow> s\<lparr>ts_w := ti_stop I o1 (ts_w s)\<rparr>) in tee_brg_unref (te_brg c) s1)"

text \<open>The second track for new meta data: whether all its filters were added.\<close>
definition tee_new_track :: "'w track_if \<Rightarrow> tee \<Rightarrow> phi_track \<Rightarrow> 'w \<Rightarrow> nat \<times> bool \<times> 'w" where
  "tee_new_track I c t w =
     (let tee_name = (case c_tee (t_conf t) of Some n \<Rightarrow> Some n | None \<Rightarrow> c_tee_output (t_conf t));
          dup = (c_tee_output (t_conf t) \<noteq> None);
          (o1, w1) = ti_create I (phi_track_conf_zero\<lparr>c_ofile := (c_ofile phi_track_conf_zero)\<lparr>of_name := tee_name\<rparr>\<rparr>) w;
          w2 = ti_update I o1 (\<lambda>tr. tr\<lparr>t_meta := meta_copy (t_meta tr) (t_meta t)\<rparr>) w1;
          w3 = (if dup then ti_update I o1 (\<lambda>tr. tr\<lparr>t_data_type := Some ''pcm'',
                    t_oaudio := (t_oaudio tr)\<lparr>o_format := o_format (t_oaudio t)\<rparr>\<rparr>) w2 else w2);
          (ok, w4) = add_filters I o1 ([''tee-brg''] @ (if dup then [''format.wav-write''] else []) @
             [if te_o_stdout c then ''core.stdout'' else ''core.file-write'']) w3
      in (o1, ok, w4))"

text \<open>The end of \<open>tee_process\<close>: the data goes to the ring, the second track is started or woken.\<close>
definition tee_forward ::
    "('r, 'h) ring_if \<Rightarrow> 'w track_if \<Rightarrow> (nat \<Rightarrow> 'w \<Rightarrow> 'w) \<Rightarrow> bool \<Rightarrow> bool \<Rightarrow> tee \<Rightarrow> phi_track \<Rightarrow> ('r, 'h, 'w) tee_sys
     \<Rightarrow> (tee \<times> phi_track \<times> ('r, 'h, 'w) tee_sys \<times> phi_r) option" where
  "tee_forward G I wake start_track wake_track c t s =
     (let (a, s1) = (case te_brg c of Some a \<Rightarrow> (a, s) | None \<Rightarrow> tee_brg_new G (10 * 3000 * 1024 div 8) s);
          c1 = c\<lparr>te_brg := Some a\<rparr>
      in case ts_brgs s1 a of
           None \<Rightarrow> None
         | Some b \<Rightarrow>
             (let b1 = b\<lparr>tb_ring := snd (rg_writestr G (tb_ring b) (t_data_in t))\<rparr>;
                  b2 = (if start_track then b1\<lparr>tb_users := 2\<rparr> else b1);
                  s2 = put_brg a b2 s1;
                  s3 = (case te_out_trk c1 of None \<Rightarrow> s2
                        | Some o1 \<Rightarrow> if start_track then s2\<lparr>ts_w := ti_start I o1 (ts_w s2)\<rparr>
                                     else if wake_track then s2\<lparr>ts_w := wake o1 (ts_w s2)\<rparr> else s2)
              in Some (c1, t\<lparr>t_data_out := t_data_in t\<rparr>, s3, if has_flag t PHI_FFIRST then PHI_DONE else PHI_DATA)))"

text \<open>The case \<open>I_WAIT_META\<close>.\<close>
definition tee_wait_meta ::
    "('r, 'h) ring_if \<Rightarrow> 'w track_if \<Rightarrow> (nat \<Rightarrow> 'w \<Rightarrow> 'w) \<Rightarrow> tee \<Rightarrow> phi_track \<Rightarrow> ('r, 'h, 'w) tee_sys
     \<Rightarrow> (tee \<times> phi_track \<times> ('r, 'h, 'w) tee_sys \<times> phi_r) option" where
  "tee_wait_meta G I wake c t s =
     (if t_meta t = [] then
        (if \<not> has_flag t PHI_FFWD then Some (c, t, s, PHI_MORE) else tee_forward G I wake False False c t s)
      else
        (case tee_new_track I c t (ts_w s) of (o1, ok, w) \<Rightarrow>
           (let c1 = c\<lparr>te_out_trk := Some o1\<rparr>; s1 = s\<lparr>ts_w := w\<rparr> in
            if \<not> ok then Some (c1, t, s1, PHI_ERR)
            else tee_forward G I wake True False (c1\<lparr>te_state := I_DATA\<rparr>) t s1)))"

definition tee_process ::
    "('r, 'h) ring_if \<Rightarrow> 'w track_if \<Rightarrow> (nat \<Rightarrow> 'w \<Rightarrow> 'w) \<Rightarrow> tee \<Rightarrow> phi_track \<Rightarrow> ('r, 'h, 'w) tee_sys
     \<Rightarrow> (tee \<times> phi_track \<times> ('r, 'h, 'w) tee_sys \<times> phi_r) option" where
  "tee_process G I wake c t s =
     (case te_state c of
        I_INIT \<Rightarrow> tee_forward G I wake False False (c\<lparr>te_state := I_WAIT_META\<rparr>) t s
      | I_WAIT_META \<Rightarrow> tee_wait_meta G I wake c t s
      | I_DATA \<Rightarrow>
          if \<not> has_flag t PHI_FFWD then Some (c, t, s, PHI_MORE)
          else if \<not> t_meta_changed t then tee_forward G I wake False True c t s
          else
            (let s1 = (case te_out_trk c of None \<Rightarrow> s | Some o1 \<Rightarrow> s\<lparr>ts_w := ti_stop I o1 (ts_w s)\<rparr>) in
             case tee_brg_unref (te_brg c) s1 of
               None \<Rightarrow> None
             | Some s2 \<Rightarrow> tee_wait_meta G I wake (c\<lparr>te_out_trk := None, te_brg := None, te_state := I_WAIT_META\<rparr>) t s2))"

section \<open>The two sides of a bridge\<close>

text \<open>
  The documented behaviour of the ring with one reader and one writer: \<open>content\<close> is what has been written and not
  freed, \<open>hl\<close> the number of bytes up to a position.
\<close>
definition ring_law :: "('r, 'h) ring_if \<Rightarrow> ('r \<Rightarrow> bytes) \<Rightarrow> ('h \<Rightarrow> nat) \<Rightarrow> bool" where
  "ring_law G content hl \<longleftrightarrow>
     (\<forall>n. content (rg_alloc G n) = []) \<and> hl (rg_head0 G) = 0
     \<and> (\<forall>r d. case rg_writestr G r d of (n, r1) \<Rightarrow> n \<le> length d \<and> content r1 = content r @ take n d)
     \<and> (\<forall>r. case rg_begin G r of (h, out, r1) \<Rightarrow> content r1 = content r \<and> hl h \<le> length (content r)
            \<and> out = take (hl h) (content r) \<and> (content r \<noteq> [] \<longrightarrow> 0 < hl h))
     \<and> (\<forall>r h. content (rg_finish G r h) = drop (hl h) (content r))"

text \<open>
  The operations of the two tracks on a bridge: the tee forwards data, the bridge filter is called, each
  side leaves. The state keeps which side is there, what the ring accepted and what the second track got.
\<close>
datatype brg_op = TeeData phi_track | BrgCall phi_track | TeeLeave | BrgLeave

record ('r, 'h, 'w) brg_state =
  bs_sys :: "('r, 'h, 'w) tee_sys"
  bs_c :: tee
  bs_tee :: bool
  bs_brg :: bool
  bs_in :: bytes
  bs_out :: bytes

definition accepted :: "('r, 'h) ring_if \<Rightarrow> nat \<Rightarrow> bytes \<Rightarrow> ('r, 'h, 'w) tee_sys \<Rightarrow> bytes" where
  "accepted G a d s = (case ts_brgs s a of None \<Rightarrow> [] | Some b \<Rightarrow> take (fst (rg_writestr G (tb_ring b) d)) d)"

definition brg_exec ::
    "('r, 'h) ring_if \<Rightarrow> 'w track_if \<Rightarrow> (nat \<Rightarrow> 'w \<Rightarrow> 'w) \<Rightarrow> nat \<Rightarrow> brg_op \<Rightarrow> ('r, 'h, 'w) brg_state option \<Rightarrow> ('r, 'h, 'w) brg_state option" where
  "brg_exec G I wake a op so =
     (case so of
        None \<Rightarrow> None
      | Some x \<Rightarrow>
          (case op of
             TeeData t \<Rightarrow>
               map_option (\<lambda>(c, t1, s, r). x\<lparr>bs_c := c, bs_sys := s, bs_in := bs_in x @ accepted G a (t_data_in t) (bs_sys x)\<rparr>)
                 (tee_forward G I wake False True (bs_c x) t (bs_sys x))
           | BrgCall t \<Rightarrow>
               map_option (\<lambda>(t1, s, r). x\<lparr>bs_sys := s, bs_out := bs_out x @ t_data_out t1\<rparr>) (tee_brg_process G a t (bs_sys x))
           | TeeLeave \<Rightarrow> map_option (\<lambda>s. x\<lparr>bs_sys := s, bs_tee := False\<rparr>) (tee_close I (bs_c x) (bs_sys x))
           | BrgLeave \<Rightarrow> map_option (\<lambda>(t1, s). x\<lparr>bs_sys := s, bs_brg := False\<rparr>) (tee_brg_close a phi_track_zero (bs_sys x))))"

text \<open>
  Each side uses the bridge only until it leaves; the first filter of a track is called for more data without
  \<open>PHI_FFWD\<close>.
\<close>
definition brg_ok :: "brg_op \<Rightarrow> ('r, 'h, 'w) brg_state option \<Rightarrow> bool" where
  "brg_ok op so \<longleftrightarrow> (case so of None \<Rightarrow> False
     | Some x \<Rightarrow> (case op of TeeData t \<Rightarrow> bs_tee x | BrgCall t \<Rightarrow> bs_brg x \<and> \<not> has_flag t PHI_FFWD | TeeLeave \<Rightarrow> bs_tee x | BrgLeave \<Rightarrow> bs_brg x))"

definition brg_inv :: "('r \<Rightarrow> bytes) \<Rightarrow> ('h \<Rightarrow> nat) \<Rightarrow> nat \<Rightarrow> ('r, 'h, 'w) brg_state option \<Rightarrow> bool" where
  "brg_inv content hl a so \<longleftrightarrow> (\<exists>x rest. so = Some x \<and> bs_in x = bs_out x @ rest \<and> (bs_tee x \<longrightarrow> te_brg (bs_c x) = Some a)
     \<and> (if bs_tee x \<or> bs_brg x
        then \<exists>b. ts_brgs (bs_sys x) a = Some b \<and> tb_users b = of_bool (bs_tee x) + of_bool (bs_brg x)
               \<and> hl (tb_rhead b) \<le> length (content (tb_ring b)) \<and> rest = drop (hl (tb_rhead b)) (content (tb_ring b))
        else ts_brgs (bs_sys x) a = None))"

lemma ring_lawD:
  assumes "ring_law G content hl"
  shows "rg_writestr G r d = (n, r1) \<Longrightarrow> content r1 = content r @ take n d"
    and "rg_begin G r = (h, out, r1) \<Longrightarrow> content r1 = content r \<and> hl h \<le> length (content r) \<and> out = take (hl h) (content r)
         \<and> (content r \<noteq> [] \<longrightarrow> 0 < hl h)"
    and "content (rg_finish G r h) = drop (hl h) (content r)"
proof -
  note law = assms [unfolded ring_law_def]
  show "content r1 = content r @ take n d" if "rg_writestr G r d = (n, r1)"
    using law [THEN conjunct2, THEN conjunct2, THEN conjunct1, rule_format, where r = r and d = d] that by simp
  show "content r1 = content r \<and> hl h \<le> length (content r) \<and> out = take (hl h) (content r) \<and> (content r \<noteq> [] \<longrightarrow> 0 < hl h)"
    if "rg_begin G r = (h, out, r1)"
    using law [THEN conjunct2, THEN conjunct2, THEN conjunct2, THEN conjunct1, rule_format, where r = r] that by simp
  show "content (rg_finish G r h) = drop (hl h) (content r)" using law by blast
qed

lemma brg_exec_inv:
  assumes law: "ring_law G content hl" and inv: "brg_inv content hl a so" and ok: "brg_ok op so"
  shows "brg_inv content hl a (brg_exec G I wake a op so)"
proof -
  obtain x rest where x: "so = Some x" "bs_in x = bs_out x @ rest" "bs_tee x \<longrightarrow> te_brg (bs_c x) = Some a"
    and b0: "if bs_tee x \<or> bs_brg x
        then \<exists>b. ts_brgs (bs_sys x) a = Some b \<and> tb_users b = of_bool (bs_tee x) + of_bool (bs_brg x)
               \<and> hl (tb_rhead b) \<le> length (content (tb_ring b)) \<and> rest = drop (hl (tb_rhead b)) (content (tb_ring b))
        else ts_brgs (bs_sys x) a = None" using inv by (auto simp: brg_inv_def)
  have on: "bs_tee x \<or> bs_brg x" using ok x(1) by (cases op) (auto simp: brg_ok_def)
  then obtain b where b: "ts_brgs (bs_sys x) a = Some b" "tb_users b = of_bool (bs_tee x) + of_bool (bs_brg x)"
    "hl (tb_rhead b) \<le> length (content (tb_ring b))" "rest = drop (hl (tb_rhead b)) (content (tb_ring b))" using b0 by auto
  show ?thesis
  proof (cases op)
    case (TeeData t)
    obtain n r1 where w: "rg_writestr G (tb_ring b) (t_data_in t) = (n, r1)" by fastforce
    have c: "te_brg (bs_c x) = Some a" "bs_tee x" using x(1,3) ok TeeData by (simp_all add: brg_ok_def)
    show ?thesis
      using x b c w ring_lawD(1) [OF law w]
      by (simp add: TeeData brg_exec_def tee_forward_def brg_inv_def put_brg_def accepted_def Let_def split: option.split)
  next
    case (BrgCall t)
    let ?r0 = "rg_finish G (tb_ring b) (tb_rhead b)"
    obtain h out r1 where g: "rg_begin G ?r0 = (h, out, r1)" by (cases "rg_begin G ?r0") auto
    have f: "\<not> has_flag t PHI_FFWD" using ok x(1) BrgCall by (simp add: brg_ok_def)
    have c: "content r1 = rest" "hl h \<le> length rest" "out = take (hl h) rest"
      using ring_lawD(2) [OF law g] ring_lawD(3) [OF law, of "tb_ring b" "tb_rhead b"] b(4) by simp_all
    have "rest = out @ drop (hl h) (content r1)" "hl h \<le> length (content r1)" unfolding c by (simp_all add: c(2))
    then show ?thesis using x b f g on by (simp add: BrgCall brg_exec_def tee_brg_process_def brg_inv_def put_brg_def Let_def)
  next
    case TeeLeave
    then have c: "te_brg (bs_c x) = Some a" "bs_tee x" using x(1,3) ok by (simp_all add: brg_ok_def)
    then show ?thesis using x b TeeLeave
      by (cases "bs_brg x"; cases "te_out_trk (bs_c x)")
        (simp_all add: brg_exec_def tee_close_def tee_brg_unref_def brg_inv_def put_brg_def Let_def)
  next
    case BrgLeave
    then have c: "bs_brg x" using x(1) ok by (simp add: brg_ok_def)
    then show ?thesis using x b BrgLeave
      by (cases "bs_tee x") (simp_all add: brg_exec_def tee_brg_close_def tee_brg_unref_def brg_inv_def put_brg_def Let_def)
  qed
qed

text \<open>The bridge when the second track has been started.\<close>
definition brg_started :: "('r \<Rightarrow> bytes) \<Rightarrow> ('h \<Rightarrow> nat) \<Rightarrow> nat \<Rightarrow> ('r, 'h, 'w) brg_state \<Rightarrow> bool" where
  "brg_started content hl a x \<longleftrightarrow> bs_tee x \<and> bs_brg x \<and> te_brg (bs_c x) = Some a
     \<and> (\<exists>b. ts_brgs (bs_sys x) a = Some b \<and> tb_users b = 2 \<and> hl (tb_rhead b) = 0 \<and> bs_out x = [] \<and> bs_in x = content (tb_ring b))"

interpretation brg: op_invariant "\<lambda>so. ring_law G content hl \<longrightarrow> brg_inv content hl a so" brg_ok "brg_exec G I wake a"
  for G content hl a I wake
  by unfold_locales (auto intro: brg_exec_inv)


text \<open>A ring that is a list of at most eight bytes.\<close>
definition list_ring :: "(bytes, nat) ring_if" where
  "list_ring = \<lparr>rg_alloc = (\<lambda>_. []), rg_writestr = (\<lambda>r d. let n = min (length d) (8 - length r) in (n, r @ take n d)),
     rg_begin = (\<lambda>r. (length r, r, r)), rg_finish = (\<lambda>r h. drop h r), rg_head0 = 0\<rparr>"

lemma list_ring_law: "ring_law list_ring (\<lambda>r. r) (\<lambda>h. h)"
  by (simp add: ring_law_def list_ring_def Let_def)

definition demo_trk_if :: "unit track_if" where
  "demo_trk_if = \<lparr>ti_create = (\<lambda>_ w. (5, w)), ti_filter = (\<lambda>_ _ w. (True, w)), ti_update = (\<lambda>_ _ w. w), ti_get = (\<lambda>_ _. phi_track_zero),
     ti_start = (\<lambda>_ w. w), ti_stop = (\<lambda>_ w. w), ti_close = (\<lambda>_ w. w), ti_workers_available = (\<lambda>_. True),
     ti_rand = (\<lambda>w. (0, w)), ti_isdir = (\<lambda>_ _. False), ti_ext = (\<lambda>_. [])\<rparr>"

definition demo_brg :: "(bytes, nat, unit) brg_state" where
  "demo_brg = \<lparr>bs_sys = \<lparr>ts_brgs = [1 \<mapsto> \<lparr>tb_users = 2, tb_ring = [], tb_rhead = 0\<rparr>], ts_next = 2, ts_w = ()\<rparr>,
     bs_c = \<lparr>te_state = I_DATA, te_out_trk = Some 5, te_brg = Some 1, te_o_stdout = False\<rparr>, bs_tee = True, bs_brg = True,
     bs_in = [], bs_out = []\<rparr>"


end
