(* ===== verification/Afilter.thy ===== *)
theory Afilter
  imports Conveyor Pcm Util
begin

text \<open>
  The audio filters of \<open>src/afilter\<close>: \<open>until.h\<close>, \<open>auto-conv.h\<close>, \<open>silence-gen.h\<close>, \<open>gain.c\<close>,
  \<open>rtpeak.c\<close>, \<open>peaks.c\<close> and \<open>conv.c\<close>.

  Where a filter looks at the samples, its input is an \<open>arena\<close> (one buffer of interleaved
  samples or one buffer per channel) together with the total length in bytes, as in the code.
  A result \<open>None\<close> is a fault: a division by zero or an access outside of the buffers.
  \<open>cmod\<close> is \<open>core->mod\<close>.
\<close>

datatype 'a opened = Skipped | Failed | Opened 'a

section \<open>until.h\<close>

record until =
  u_until :: u64
  u_total :: u64
  u_sampsize :: u32

definition until_open :: "phi_track \<Rightarrow> phi_track \<times> until opened" where
  "until_open t =
     (if c_until_msec (t_conf t) = 0 then (t, Skipped)
      else
        (let af = a_format (t_audio t);
             u = \<lparr>u_until = msec_to_samples (c_until_msec (t_conf t)) (af_rate af), u_total = 0,
                  u_sampsize = of_nat (pcm_size (af_format af) (unat (af_channels af)))\<rparr>
         in (if a_total (t_audio t) \<noteq> -1 then t\<lparr>t_audio := (t_audio t)\<lparr>a_total := u_until u\<rparr>\<rparr> else t, Opened u)))"

definition until_process :: "until \<Rightarrow> phi_track \<Rightarrow> (until \<times> phi_track \<times> phi_r) option" where
  "until_process u t =
     (let t1 = t\<lparr>t_data_out := t_data_in t\<rparr>; len = u64len (t_data_in t) in
      if has_flag t PHI_FFIRST then Some (u, t1, PHI_DONE)
      else if u_sampsize u = 0 then None
      else
        (let own = (a_pos (t_audio t) = -1);
             pos = (if own then u_total u else a_pos (t_audio t));
             u1 = (if own then u\<lparr>u_total := u_total u + len div ucast (u_sampsize u)\<rparr> else u)
         in if c_stream_copy (t_conf t) then
              (if u_until u \<le> pos then Some (u1, t1, PHI_LASTOUT) else Some (u1, t1\<lparr>t_data_in := []\<rparr>, PHI_OK))
            else
              (let samps = (ucast (len div ucast (u_sampsize u)) :: u32);
                   t2 = t1\<lparr>t_data_in := []\<rparr>
               in if u_until u \<le> pos + ucast samps
                  then Some (u1, t2\<lparr>t_data_out :=
                         take (if pos < u_until u then unat ((u_until u - pos) * ucast (u_sampsize u)) else 0) (t_data_in t)\<rparr>,
                       PHI_LASTOUT)
                  else Some (u1, t2, PHI_OK))))"

section \<open>auto-conv.h\<close>

record autoconv =
  ac_state :: u32
  ac_in :: bytes

definition autoconv_open :: "phi_track \<Rightarrow> phi_track \<times> autoconv opened" where
  "autoconv_open t =
     (let t1 = t\<lparr>t_oaudio := (t_oaudio t)\<lparr>o_format := a_format (t_audio t)\<rparr>\<rparr>
      in if c_stream_copy (t_conf t) \<or> t_data_type t \<noteq> Some ''pcm'' then (t1, Skipped)
         else (t1, Opened \<lparr>ac_state = 0, ac_in = []\<rparr>))"

definition autoconv_process :: "(string \<Rightarrow> string option) \<Rightarrow> autoconv \<Rightarrow> phi_track \<Rightarrow> autoconv \<times> phi_track \<times> phi_r" where
  "autoconv_process cmod c t =
     (let iaf = a_format (t_audio t); oa = t_oaudio t in
      if ac_state c = 0 then
        (let oaf = phi_af_update (o_format oa) (oa_format (c_oaudio (t_conf t)))
         in (\<lparr>ac_state = 1, ac_in = t_data_in t\<rparr>,
             t\<lparr>t_oaudio := oa\<lparr>o_format := oaf,
                 o_conv_format := (o_conv_format oa)\<lparr>af_interleaved := af_interleaved oaf\<rparr>\<rparr>\<rparr>,
             PHI_DATA))
      else
        (let oaf = (phi_af_update (o_format oa) (o_conv_format oa))\<lparr>af_interleaved := af_interleaved (o_conv_format oa)\<rparr>;
             t1 = t\<lparr>t_oaudio := oa\<lparr>o_format := oaf\<rparr>\<rparr>
         in if iaf = oaf then (c, t1\<lparr>t_data_out := ac_in c\<rparr>, PHI_DONE)
            else
              (case track_add (cmod ''afilter.conv'') (t1\<lparr>t_aconv_in := iaf, t_aconv_out := oaf\<rparr>) of (t2, ok) \<Rightarrow>
                 if ok then (c, t2\<lparr>t_data_out := ac_in c\<rparr>, PHI_DONE) else (c, t2, PHI_ERR))))"

section \<open>silence-gen.h\<close>

definition SILGEN_BUF_MSEC :: u64 where "SILGEN_BUF_MSEC = 100"

record silgen =
  sg_state :: u32
  sg_buf :: bytes

definition silgen_open :: silgen where
  "silgen_open = \<lparr>sg_state = 0, sg_buf = []\<rparr>"

definition silgen_process :: "silgen \<Rightarrow> phi_track \<Rightarrow> silgen \<times> phi_track \<times> phi_r" where
  "silgen_process c t =
     (if has_flag t PHI_FSTOP then (c, t, PHI_DONE)
      else if sg_state c = 0 then
        (c\<lparr>sg_state := 1\<rparr>,
         t\<lparr>t_oaudio := (t_oaudio t)\<lparr>o_conv_format := o_format (t_oaudio t)\<rparr>, t_data_type := Some ''pcm''\<rparr>, PHI_DATA)
      else if sg_state c = 1 \<and> \<not> af_interleaved (o_conv_format (t_oaudio t)) then (c, t, PHI_ERR)
      else
        (let af = o_conv_format (t_oaudio t);
             t1 = (if sg_state c = 1 then t\<lparr>t_oaudio := (t_oaudio t)\<lparr>o_format := af\<rparr>\<rparr> else t);
             c1 = (if sg_state c = 1
                   then \<lparr>sg_state = 2,
                         sg_buf = replicate (unat (of_nat (pcm_size (af_format af) (unat (af_channels af)))
                                    * msec_to_samples SILGEN_BUF_MSEC (af_rate af) :: u64)) 0\<rparr>
                   else c)
         in (c1, t1\<lparr>t_data_out := sg_buf c1\<rparr>, PHI_DATA)))"

section \<open>gain.c\<close>

record gain =
  g_pcm :: phi_af
  g_samp_size :: nat
  g_db :: f64
  g_gain :: f64

abbreviation pcm_size1 :: "phi_af \<Rightarrow> nat" where
  "pcm_size1 af \<equiv> pcm_size (af_format af) (unat (af_channels af))"

text \<open>\<open>neg\<close> is the negation of a \<open>double\<close>.\<close>
definition gain_open :: "fpu \<Rightarrow> (f64 \<Rightarrow> f64) \<Rightarrow> phi_track \<Rightarrow> phi_track \<times> gain opened" where
  "gain_open U neg t =
     (let af = a_format (t_audio t);
          db = (if \<not> fp_eq U (a_gain_db (t_audio t)) FP_0 then a_gain_db (t_audio t) else afl_gain_db (c_afilter (t_conf t)))
      in (t\<lparr>t_audio := (t_audio t)\<lparr>a_gain_db := db\<rparr>\<rparr>,
          Opened \<lparr>g_pcm = af, g_samp_size = pcm_size1 af, g_db = neg db, g_gain = FP_0\<rparr>))"

text \<open>
  \<open>db_gain\<close> is the power function of the library. The samples are changed in place; each is read
  before it is stored, so that reading all of them from the unchanged block is the same.
\<close>
definition gain_process ::
    "fpu \<Rightarrow> (f64 \<Rightarrow> f64) \<Rightarrow> gain \<Rightarrow> phi_track \<Rightarrow> arena \<Rightarrow> nat \<Rightarrow> (gain \<times> phi_track \<times> arena \<times> phi_r) option" where
  "gain_process U db_gain c t im len =
     (let db = a_gain_db (t_audio t); r = (if has_flag t PHI_FFIRST then PHI_DONE else PHI_OK);
          t1 = t\<lparr>t_data_out := t_data_in t\<rparr> in
      if fp_eq U db FP_0 then Some (c, t1, im, r)
      else if g_samp_size c = 0 then None
      else
        (let c1 = (if \<not> fp_eq U db (g_db c) then c\<lparr>g_db := db, g_gain := db_gain db\<rparr> else c)
         in map_option (\<lambda>(_, om). (c1, t1, om, r))
              (pcm_gain U (g_pcm c1) (fp_narrow U (g_gain c1)) im im (len div g_samp_size c1))))"

section \<open>rtpeak.c\<close>

definition rtpeak_open :: "fpu \<Rightarrow> phi_track \<Rightarrow> phi_af opened" where
  "rtpeak_open U t =
     (case pcm_maxpeak U (a_format (t_audio t)) [] 0 of
        Some (Inr _) \<Rightarrow> Opened (a_format (t_audio t))
      | _ \<Rightarrow> Failed)"

text \<open>\<open>gain_db\<close> is the logarithm of the library.\<close>
definition rtpeak_process ::
    "fpu \<Rightarrow> (f64 \<Rightarrow> f64) \<Rightarrow> phi_af \<Rightarrow> phi_track \<Rightarrow> arena \<Rightarrow> nat \<Rightarrow> (phi_track \<times> phi_r) option" where
  "rtpeak_process U gain_db p t im len =
     (if pcm_size1 p = 0 then None
      else
        map_option
          (\<lambda>r. (t\<lparr>t_audio := (t_audio t)\<lparr>a_maxpeak_db := gain_db (case r of Inl _ \<Rightarrow> FP_0 | Inr mx \<Rightarrow> mx)\<rparr>,
                 t_data_out := t_data_in t\<rparr>,
                if has_flag t PHI_FFIRST then PHI_DONE else PHI_OK))
          (pcm_maxpeak U p im (len div pcm_size1 p)))"

section \<open>peaks.c\<close>

record peak_ch =
  pk_crc :: u32
  pk_high :: u32
  pk_sum :: u64
  pk_clipped :: u64

record peaks =
  pk_state :: u32
  pk_nch :: nat
  pk_total :: u64
  pk_ch :: "peak_ch list"
  pk_do_crc :: bool

definition peaks_open :: "phi_track \<Rightarrow> peaks opened" where
  "peaks_open t =
     (let n = unat (af_channels (o_format (t_oaudio t))) in
      if n > 8 then Failed
      else Opened \<lparr>pk_state = 0, pk_nch = n, pk_total = 0,
             pk_ch = replicate 8 \<lparr>pk_crc = 0, pk_high = 0, pk_sum = 0, pk_clipped = 0\<rparr>,
             pk_do_crc = afl_peaks_crc (c_afilter (t_conf t))\<rparr>)"

definition peak_sample :: "int \<Rightarrow> peak_ch \<Rightarrow> peak_ch" where
  "peak_sample sh0 p =
     (let p1 = (if sh0 = 0x7fff \<or> sh0 = -0x8000 then p\<lparr>pk_clipped := pk_clipped p + 1\<rparr> else p);
          sh = (if sh0 < 0 then - sh0 else sh0);
          p2 = (if pk_high p1 < word_of_int sh then p1\<lparr>pk_high := word_of_int sh\<rparr> else p1)
      in p2\<lparr>pk_sum := pk_sum p2 + word_of_int sh\<rparr>)"

text \<open>One channel: the samples in order, then the checksum of its bytes.\<close>
definition peak_channel ::
    "(bytes \<Rightarrow> u32 \<Rightarrow> u32) \<Rightarrow> bool \<Rightarrow> nat \<Rightarrow> nat \<Rightarrow> arena \<Rightarrow> nat \<Rightarrow> peak_ch \<Rightarrow> peak_ch option" where
  "peak_channel crc32 do_crc samples clen im c p =
     (case all_some (map (\<lambda>i. mem_read im (c, 0) (i * 2) 2) [0..<samples]) of
        None \<Rightarrow> None
      | Some bs \<Rightarrow>
          (let p1 = fold (\<lambda>b. peak_sample (le_sval b)) bs p in
           if samples \<noteq> 0 \<and> do_crc
           then map_option (\<lambda>d. p1\<lparr>pk_crc := crc32 d (pk_crc p1)\<rparr>) (mem_read im (c, 0) 0 clen)
           else Some p1))"

fun peak_channels ::
    "(bytes \<Rightarrow> u32 \<Rightarrow> u32) \<Rightarrow> bool \<Rightarrow> nat \<Rightarrow> nat \<Rightarrow> arena \<Rightarrow> nat list \<Rightarrow> peak_ch list \<Rightarrow> peak_ch list option" where
  "peak_channels crc32 do_crc samples clen im [] ps = Some ps"
| "peak_channels crc32 do_crc samples clen im (c # cs) ps =
     (case peak_channel crc32 do_crc samples clen im c (ps ! c) of
        None \<Rightarrow> None
      | Some p \<Rightarrow> peak_channels crc32 do_crc samples clen im cs (ps[c := p]))"

text \<open>The report that is printed at the end is left out; it only reads the state.\<close>
definition peaks_process ::
    "(bytes \<Rightarrow> u32 \<Rightarrow> u32) \<Rightarrow> peaks \<Rightarrow> phi_track \<Rightarrow> arena \<Rightarrow> nat \<Rightarrow> (peaks \<times> phi_track \<times> phi_r) option" where
  "peaks_process crc32 p t im len =
     (if pk_state p = 0 then
        Some (p\<lparr>pk_state := 1\<rparr>,
          t\<lparr>t_oaudio := (t_oaudio t)\<lparr>o_conv_format :=
             (o_conv_format (t_oaudio t))\<lparr>af_interleaved := False, af_format := PHI_PCM_16\<rparr>\<rparr>\<rparr>, PHI_MORE)
      else if pk_state p = 1 \<and> (af_interleaved (o_format (t_oaudio t)) \<or> af_format (o_format (t_oaudio t)) \<noteq> PHI_PCM_16)
      then Some (p, t, PHI_ERR)
      else if pk_nch p = 0 then None
      else
        (let p1 = (if pk_state p = 1 then p\<lparr>pk_state := 2\<rparr> else p); samples = len div (2 * pk_nch p) in
         map_option
           (\<lambda>ps. (p1\<lparr>pk_total := pk_total p1 + of_nat samples, pk_ch := ps\<rparr>, t\<lparr>t_data_out := t_data_in t\<rparr>,
                  if has_flag t PHI_FFIRST then PHI_DONE else PHI_OK))
           (peak_channels crc32 (pk_do_crc p1) samples (len div pk_nch p1) im [0..<pk_nch p1] (pk_ch p1))))"

section \<open>conv.c\<close>

definition CONV_OUTBUF_MSEC :: u64 where "CONV_OUTBUF_MSEC = 500"

text \<open>
  The output buffer is an arena of its own: one block, or one region per channel behind the array of
  pointers. Offsets are natural numbers: a block has less than 4 GB. \<open>cv_cap\<close> is \<open>buf.len\<close>, the number of samples it holds.
\<close>
record aconv =
  cv_state :: u32
  cv_out_samp_size :: nat
  cv_fi :: phi_af
  cv_fo :: phi_af
  cv_in :: arena
  cv_in_len :: nat
  cv_buf :: arena
  cv_cap :: nat
  cv_off :: nat

definition aconv_open :: aconv where
  "aconv_open = \<lparr>cv_state = 0, cv_out_samp_size = 0, cv_fi = phi_af_zero, cv_fo = phi_af_zero, cv_in = [],
     cv_in_len = 0, cv_buf = [], cv_cap = 0, cv_off = 0\<rparr>"

text \<open>\<open>arrp_setbuf\<close>: consecutive regions of one buffer; as an arena, one buffer per region.\<close>
definition arrp_setbuf :: "nat \<Rightarrow> bytes \<Rightarrow> nat \<Rightarrow> arena" where
  "arrp_setbuf n buf region_len = map (\<lambda>i. take region_len (drop (region_len * i) buf)) [0..<n]"

text \<open>\<open>fresh n\<close> is a block of \<open>n\<close> bytes from the allocator.\<close>
definition aconv_prepare ::
    "fpu \<Rightarrow> (nat \<Rightarrow> bytes option) \<Rightarrow> (nat \<Rightarrow> bytes) \<Rightarrow> (string \<Rightarrow> string option) \<Rightarrow> aconv \<Rightarrow> phi_track
     \<Rightarrow> (aconv \<times> phi_track \<times> phi_r) option" where
  "aconv_prepare U tmp fresh cmod c t =
     (let c1 = c\<lparr>cv_fi := t_aconv_in t, cv_fo := t_aconv_out t\<rparr>;
          resample = (af_rate (cv_fi c1) \<noteq> af_rate (cv_fo c1));
          (t1, ok) = (if resample then track_add (cmod ''soxr.conv'') t else (t, True))
      in if \<not> ok then Some (c1, t1, PHI_ERR)
         else if resample \<and> af_channels (cv_fi c1) = af_channels (cv_fo c1) \<and> af_format (cv_fi c1) \<noteq> PHI_PCM_24
         then Some (c1, t1\<lparr>t_data_out := t_data_in t1\<rparr>, PHI_DONE)
         else
           (let c2 = (if resample
                      then c1\<lparr>cv_fo := (cv_fo c1)\<lparr>af_format := PHI_PCM_FLOAT32, af_rate := af_rate (cv_fi c1)\<rparr>\<rparr> else c1);
                t2 = (if resample
                      then t1\<lparr>t_aconv_in := (t_aconv_in t1)\<lparr>af_format := af_format (cv_fo c2), af_channels := af_channels (cv_fo c2)\<rparr>\<rparr>
                      else t1)
            in case pcm_convert U tmp (cv_fo c2) [] (cv_fi c2) [] 0 of
                 None \<Rightarrow> None
               | Some (r, _) \<Rightarrow>
                   if r \<noteq> 0 then Some (c2, t2, PHI_ERR)
                   else
                     (let out_ch = unat (af_channels (cv_fo c2) AND 0x0f);
                          ssz = pcm_size (af_format (cv_fo c2)) out_ch;
                          cap = unat (msec_to_samples CONV_OUTBUF_MSEC (af_rate (cv_fo c2)) * of_nat ssz)
                      in if ssz = 0 then None
                         else
                           (let buf = (if af_interleaved (cv_fo c2) then [fresh cap] else arrp_setbuf out_ch (fresh cap) (cap div out_ch))
                            in Some (c2\<lparr>cv_out_samp_size := ssz, cv_buf := buf, cv_cap := cap div ssz\<rparr>, t2, PHI_DATA)))))"

text \<open>The input of the chunk that is being converted, from the offset on.\<close>
definition aconv_data :: "aconv \<Rightarrow> arena" where
  "aconv_data c =
     map (drop (if af_interleaved (cv_fi c) then cv_off c * unat (af_channels (cv_fi c)) else cv_off c)) (cv_in c)"

text \<open>The part of \<open>aconv_process\<close> behind the preparation: one output buffer.\<close>
definition aconv_step ::
    "fpu \<Rightarrow> (nat \<Rightarrow> bytes option) \<Rightarrow> aconv \<Rightarrow> phi_track \<Rightarrow> arena \<Rightarrow> nat \<Rightarrow> (aconv \<times> phi_r \<times> nat) option" where
  "aconv_step U tmp c t im len =
     (let c1 = (if has_flag t PHI_FFWD then c\<lparr>cv_in := im, cv_in_len := len, cv_off := 0\<rparr> else c);
          ssz = pcm_size1 (cv_fi c1)
      in if ssz = 0 then None
         else
           (let samples = min (cv_in_len c1 div ssz) (cv_cap c1) in
            if samples = 0 then Some (c1, if has_flag t PHI_FFIRST then PHI_DONE else PHI_MORE, 0)
            else case pcm_convert U tmp (cv_fo c1) (cv_buf c1) (cv_fi c1) (aconv_data c1) samples of
              None \<Rightarrow> None
            | Some (r, om) \<Rightarrow>
                if r \<noteq> 0 then Some (c1\<lparr>cv_buf := om\<rparr>, PHI_ERR, 0)
                else Some (c1\<lparr>cv_buf := om, cv_in_len := cv_in_len c1 - samples * ssz,
                              cv_off := cv_off c1 + samples * pcm_size (af_format (cv_fi c1)) 1\<rparr>,
                           PHI_DATA, samples)))"

definition aconv_process ::
    "fpu \<Rightarrow> (nat \<Rightarrow> bytes option) \<Rightarrow> (nat \<Rightarrow> bytes) \<Rightarrow> (string \<Rightarrow> string option) \<Rightarrow> aconv \<Rightarrow> phi_track \<Rightarrow> arena \<Rightarrow> nat
     \<Rightarrow> (aconv \<times> phi_track \<times> phi_r \<times> nat) option" where
  "aconv_process U tmp fresh cmod c t im len =
     (case (if cv_state c = 0 then aconv_prepare U tmp fresh cmod c t else Some (c, t, PHI_DATA)) of
        None \<Rightarrow> None
      | Some (c1, t1, r) \<Rightarrow>
          if r \<noteq> PHI_DATA then Some (c1, t1, r, 0)
          else map_option (\<lambda>(c2, r2, n). (c2, if has_flag t1 PHI_FFWD then t1\<lparr>t_data_in := []\<rparr> else t1, r2, n)) (aconv_step U tmp (c1\<lparr>cv_state := 2\<rparr>) t1 im len))"

section \<open>The stream is cut at the requested sample\<close>

text \<open>Blocks of a stream whose position is not known (\<open>audio.pos\<close> is unset), one call each.\<close>
fun until_run :: "until \<Rightarrow> phi_track \<Rightarrow> bytes list \<Rightarrow> (bytes \<times> bool) option" where
  "until_run u t [] = Some ([], False)"
| "until_run u t (d # ds) =
     (case until_process u (t\<lparr>t_data_in := d\<rparr>) of
        None \<Rightarrow> None
      | Some (u1, t1, r) \<Rightarrow>
          if r = PHI_OK then map_option (\<lambda>(out, fin). (t_data_out t1 @ out, fin)) (until_run u1 t1 ds)
          else Some (t_data_out t1, r = PHI_LASTOUT))"

lemma unat_div_ucast:
  fixes s :: u32
  assumes "n < 2 ^ 64"
  shows "unat (of_nat n div ucast s :: u64) = n div unat s"
  using assms by (simp add: unat_div unat_of_nat take_bit_nat_eq_self)

lemma until_process_block:
  assumes "\<not> has_flag t PHI_FFIRST" and "0 < unat (u_sampsize u)" and "a_pos (t_audio t) = -1" and "\<not> c_stream_copy (t_conf t)"
    and "length d = k * unat (u_sampsize u)" and "k < 2 ^ 31" and "unat (u_total u) + k < 2 ^ 63"
    and "t1 = t\<lparr>t_data_in := [], t_data_out := d\<rparr>" and "u1 = u\<lparr>u_total := u_total u + of_nat k\<rparr>"
  shows "until_process u (t\<lparr>t_data_in := d\<rparr>) =
    (if unat (u_until u) \<le> unat (u_total u) + k
     then Some (u1, t1\<lparr>t_data_out := take ((unat (u_until u) - unat (u_total u)) * unat (u_sampsize u)) d\<rparr>, PHI_LASTOUT)
     else Some (u1, t1, PHI_OK))"
proof -
  let ?ss = "unat (u_sampsize u)"
  have ss: "?ss < 2 ^ 32" using unsigned_less [of "u_sampsize u"] by simp
  have "k * ?ss \<le> 2 ^ 31 * 2 ^ 32" using assms(6) ss by (intro mult_le_mono) simp_all
  then have l: "length d < 2 ^ 64" using assms(5) by simp
  then have q: "unat (u64len d div ucast (u_sampsize u)) = k"
    using unat_div_ucast [of "length d" "u_sampsize u"] assms(2,5) by simp
  then have qw: "u64len d div ucast (u_sampsize u) = of_nat k" 
    using assms(6) by (simp add: word_unat_eq_iff unat_of_nat take_bit_nat_eq_self)
  have s32: "ucast (ucast (of_nat k :: u64) :: u32) = (of_nat k :: u64)"
    using assms(6) by (simp add: word_unat_eq_iff unsigned_ucast_eq unsigned_take_bit_eq unat_of_nat take_bit_nat_eq_self)
  have ut: "unat (u_total u + of_nat k) = unat (u_total u) + k"
    using assms(6,7) by (subst unat_add_small) (simp_all add: unat_of_nat take_bit_nat_eq_self)
  have take: "take (if u_total u < u_until u then unat ((u_until u - u_total u) * ucast (u_sampsize u)) else 0) d
      = take ((unat (u_until u) - unat (u_total u)) * ?ss) d" if "unat (u_until u) \<le> unat (u_total u) + k"
  proof (cases "u_total u < u_until u")
    case True
    have df: "unat (u_until u - u_total u) = unat (u_until u) - unat (u_total u)"
      using True by (intro unat_diff_le) simp
    have "(unat (u_until u) - unat (u_total u)) * ?ss \<le> k * ?ss" using that by (intro mult_le_mono1) simp
    then have "(unat (u_until u) - unat (u_total u)) * ?ss < 2 ^ 64"
      using l [unfolded assms(5)] by (rule le_less_trans)
    then have "unat ((u_until u - u_total u) * ucast (u_sampsize u)) = (unat (u_until u) - unat (u_total u)) * ?ss"
      using df by (simp add: unat_word_ariths)
    then show ?thesis using True by simp
  next
    case False
    then have "unat (u_until u) - unat (u_total u) = 0" by (simp add: not_less word_le_nat_alt)
    then show ?thesis using False by simp
  qed
  have ne: "u_sampsize u \<noteq> 0" using assms(2) by auto
  have fl: "has_flag (t\<lparr>t_data_in := d\<rparr>) PHI_FFIRST = has_flag t PHI_FFIRST" by (simp add: has_flag_def)
  have c: "u_until u \<le> u_total u + of_nat k \<longleftrightarrow> unat (u_until u) \<le> unat (u_total u) + k"
    by (simp only: word_le_nat_alt ut)
  have "until_process u (t\<lparr>t_data_in := d\<rparr>) =
    (if u_until u \<le> u_total u + of_nat k
     then Some (u1, t1\<lparr>t_data_out := take (if u_total u < u_until u then unat ((u_until u - u_total u) * ucast (u_sampsize u)) else 0) d\<rparr>,
            PHI_LASTOUT)
     else Some (u1, t1, PHI_OK))"
    using assms(1,3,4) ne fl unfolding until_process_def Let_def by (simp add: qw s32 assms(8,9))
  then show ?thesis using take c by (cases "unat (u_until u) \<le> unat (u_total u) + k") simp_all
qed



section \<open>Conversion in pieces\<close>

text \<open>
  A converter with equal channels and rates: \<open>f\<close> converts a sample of \<open>isz\<close> bytes to one of \<open>osz\<close>
  bytes, and the output buffer holds \<open>cv_cap\<close> samples of \<open>n\<close> channels.
\<close>
definition aconv_ok :: "fpu \<Rightarrow> (bytes \<Rightarrow> bytes) \<Rightarrow> nat \<Rightarrow> nat \<Rightarrow> nat \<Rightarrow> aconv \<Rightarrow> bool" where
  "aconv_ok U f n isz osz c \<longleftrightarrow>
     af_channels (cv_fi c) = af_channels (cv_fo c) \<and> 0 < af_channels (cv_fi c) \<and> af_channels (cv_fi c) \<le> 8
     \<and> af_rate (cv_fi c) = af_rate (cv_fo c) \<and> n = unat (af_channels (cv_fi c))
     \<and> conv_sample U (af_format (cv_fi c)) (af_format (cv_fo c)) = Some f
     \<and> isz = pcm_bits (af_format (cv_fi c)) div 8 \<and> osz = pcm_bits (af_format (cv_fo c)) div 8
     \<and> 0 < cv_cap c \<and> layout_ok (af_interleaved (cv_fo c)) osz n (cv_cap c) (cv_buf c)"

text \<open>\<open>k\<close> of \<open>tot\<close> samples of the block \<open>im\<close> are converted.\<close>
definition aconv_at :: "nat \<Rightarrow> nat \<Rightarrow> arena \<Rightarrow> nat \<Rightarrow> nat \<Rightarrow> aconv \<Rightarrow> bool" where
  "aconv_at n isz im tot k c \<longleftrightarrow>
     cv_in c = im \<and> k \<le> tot \<and> cv_off c = k * isz \<and> cv_in_len c = (tot - k) * (isz * n)
     \<and> layout_ok (af_interleaved (cv_fi c)) isz n tot im"

lemma layout_drop:
  assumes "layout_ok il isz n tot im" and "k \<le> tot" and "im' = map (drop (if il then k * isz * n else k * isz)) im"
  shows "layout_ok il isz n (tot - k) im'
    \<and> (\<forall>c < n. \<forall>i < tot - k. slot_rd il isz n im' (c, i) = slot_rd il isz n im (c, k + i))"
proof -
  let ?o = "if il then k * isz * n else k * isz"
  have len: "length im' = length im" using assms(3) by simp
  have nth: "b < length im \<Longrightarrow> im' ! b = drop ?o (im ! b)" for b using assms(3) by simp
  have lay: "layout_ok il isz n (tot - k) im'"
    using assms(1) len nth
    by (auto simp: layout_ok_def diff_mult_distrib diff_mult_distrib2 mult.assoc mult.commute mult.left_commute split: if_splits intro!: diff_le_mono)
  moreover have "slot_rd il isz n im' (c, i) = slot_rd il isz n im (c, k + i)" if "c < n" "i < tot - k" for c i
  proof -
    have ok': "slot_ok il isz n im' (c, i)" by (rule layout_slot_ok [OF lay that])
    have ok: "slot_ok il isz n im (c, k + i)" using layout_slot_ok [OF assms(1) that(1)] that(2) by simp
    have b: "slot_buf il (c, i) = slot_buf il (c, k + i)" "slot_buf il (c, i) < length im"
      using ok by (auto simp: slot_buf_def slot_ok_def split: if_splits)
    have "?o + slot_pos il isz n (c, i) = slot_pos il isz n (c, k + i)"
      by (simp add: slot_pos_def algebra_simps)
    then show ?thesis using slot_rd_ok [OF ok] slot_rd_ok [OF ok'] nth [OF b(2)] b by (simp add: add.commute)
  qed
  ultimately show ?thesis by blast
qed

lemma aconv_step_data:
  assumes "aconv_ok U f n isz osz c" and "aconv_at n isz im tot k c" and "k < tot" and "\<not> has_flag t PHI_FFWD"
    and "s = min (tot - k) (cv_cap c)"
  shows "\<exists>c'. aconv_step U tmp c t dm dl = Some (c', PHI_DATA, s) \<and> aconv_ok U f n isz osz c' \<and> aconv_at n isz im tot (k + s) c'
    \<and> cv_fo c' = cv_fo c \<and> cv_fi c' = cv_fi c
    \<and> (\<forall>ch < n. \<forall>i < s. slot_rd (af_interleaved (cv_fo c)) osz n (cv_buf c') (ch, i)
          = map_option f (slot_rd (af_interleaved (cv_fi c)) isz n im (ch, k + i)))"
proof -
  note ok = assms(1) [unfolded aconv_ok_def] and at = assms(2) [unfolded aconv_at_def]
  have isz: "0 < isz" "pcm_bits (af_format (cv_fi c)) div 8 = isz" using ok conv_sample_bits by fastforce+
  have n: "0 < n" using ok by (auto simp: unat_gt_0 word_gt_0)
  have sz: "pcm_size1 (cv_fi c) = isz * n" "pcm_size (af_format (cv_fi c)) 1 = isz"
    using ok isz by (simp_all add: pcm_size_def)
  have "cv_in_len c div (isz * n) = tot - k" using at isz n by simp
  then have s: "min (cv_in_len c div pcm_size1 (cv_fi c)) (cv_cap c) = s" using sz assms(5) by simp
  have s0: "0 < s" "s \<le> tot - k" "s \<le> cv_cap c" using assms(3,5) ok by simp_all
  have "aconv_data c = map (drop (if af_interleaved (cv_fi c) then k * isz * n else k * isz)) im"
    using at ok by (simp add: aconv_data_def)
  note d = layout_drop [of "af_interleaved (cv_fi c)" isz n tot im k, OF _ _ this]
  have lay: "layout_ok (af_interleaved (cv_fi c)) isz n s (aconv_data c)"
    using d at layout_ok_mono [OF _ s0(2)] by blast
  have lo: "layout_ok (af_interleaved (cv_fo c)) osz n s (cv_buf c)" using ok s0(3) layout_ok_mono by blast
  obtain om where om: "pcm_convert U tmp (cv_fo c) (cv_buf c) (cv_fi c) (aconv_data c) s = Some (0, om)"
    and rd: "\<forall>ch < n. \<forall>i < s. slot_rd (af_interleaved (cv_fo c)) osz n om (ch, i)
      = map_option f (slot_rd (af_interleaved (cv_fi c)) isz n (aconv_data c) (ch, i))"
    using pcm_convert_slots [of "cv_fi c" "cv_fo c" U f isz osz n s "aconv_data c" "cv_buf c" tmp] ok lay lo by auto
  define c' where "c' = c\<lparr>cv_buf := om, cv_in_len := cv_in_len c - s * (isz * n), cv_off := cv_off c + s * isz\<rparr>"
  have "aconv_step U tmp c t dm dl = Some (c', PHI_DATA, s)"
    using assms(4) s s0 sz om isz n by (simp add: aconv_step_def Let_def c'_def)
  moreover have "aconv_ok U f n isz osz c'"
    using ok layout_ok_lengths [OF pcm_convert_lengths [OF om]] unfolding aconv_ok_def c'_def by auto
  moreover have "aconv_at n isz im tot (k + s) c'"
    using at s0 by (simp add: aconv_at_def c'_def diff_mult_distrib add_mult_distrib)
  moreover have "slot_rd (af_interleaved (cv_fo c)) osz n om (ch, i) = map_option f (slot_rd (af_interleaved (cv_fi c)) isz n im (ch, k + i))"
    if "ch < n" "i < s" for ch i using rd d at that s0 by simp
  ultimately show ?thesis by (intro exI [of _ c']) (simp add: c'_def)
qed

text \<open>
  One block: the first call brings the block (\<open>PHI_FFWD\<close>), the following calls continue with it until the
  filter asks for more. The result is, for every channel, the list of its output samples.
\<close>
fun aconv_drain ::
    "nat \<Rightarrow> fpu \<Rightarrow> (nat \<Rightarrow> bytes option) \<Rightarrow> aconv \<Rightarrow> phi_track \<Rightarrow> arena \<Rightarrow> nat \<Rightarrow> (nat \<Rightarrow> bytes option list) \<Rightarrow> (nat \<Rightarrow> bytes option list) option" where
  "aconv_drain 0 U tmp c t im len out = None"
| "aconv_drain (Suc m) U tmp c t im len out =
     (case aconv_step U tmp c t im len of
        None \<Rightarrow> None
      | Some (c1, r, s) \<Rightarrow>
          if r = PHI_DATA
          then aconv_drain m U tmp c1 (t\<lparr>t_chain_flags := 0\<rparr>) im len
                 (\<lambda>ch. out ch @ map (\<lambda>i. slot_rd (af_interleaved (cv_fo c1)) (pcm_bits (af_format (cv_fo c1)) div 8)
                                        (unat (af_channels (cv_fo c1))) (cv_buf c1) (ch, i)) [0..<s])
          else if r = PHI_MORE then Some out else None)"

lemma map_upt_add_shift: "map g [0..<k + s] = map g [0..<k] @ map (\<lambda>i. g (k + i)) [0..<s]"
  by (rule nth_equalityI) (auto simp: nth_append)

lemma aconv_drain_rest:
  assumes "aconv_ok U f n isz osz c" and "aconv_at n isz im tot k c" and "t_chain_flags t = 0" and "tot - k < fuel"
    and "\<forall>ch < n. out ch = map (\<lambda>i. map_option f (slot_rd (af_interleaved (cv_fi c)) isz n im (ch, i))) [0..<k]"
  shows "\<exists>out'. aconv_drain fuel U tmp c t dm dl out = Some out'
    \<and> (\<forall>ch < n. out' ch = map (\<lambda>i. map_option f (slot_rd (af_interleaved (cv_fi c)) isz n im (ch, i))) [0..<tot])"
  using assms
proof (induction fuel arbitrary: c k t out)
  case (Suc m)
  have fl: "\<not> has_flag t PHI_FFWD" "\<not> has_flag t PHI_FFIRST" using Suc.prems(3) by (simp_all add: has_flag_def)
  show ?case
  proof (cases "k < tot")
    case True
    define s where "s = min (tot - k) (cv_cap c)"
    obtain c' where c': "aconv_step U tmp c t dm dl = Some (c', PHI_DATA, s)" "aconv_ok U f n isz osz c'"
      "aconv_at n isz im tot (k + s) c'" "cv_fo c' = cv_fo c" "cv_fi c' = cv_fi c"
      and rd: "\<forall>ch < n. \<forall>i < s. slot_rd (af_interleaved (cv_fo c)) osz n (cv_buf c') (ch, i)
          = map_option f (slot_rd (af_interleaved (cv_fi c)) isz n im (ch, k + i))"
      using aconv_step_data [OF Suc.prems(1,2) True fl(1) s_def] by blast
    have s: "0 < s" using True Suc.prems(1) by (simp add: s_def aconv_ok_def)
    have n: "n = unat (af_channels (cv_fo c))" "osz = pcm_bits (af_format (cv_fo c)) div 8"
      using Suc.prems(1) by (simp_all add: aconv_ok_def)
    let ?out = "\<lambda>ch. out ch @ map (\<lambda>i. slot_rd (af_interleaved (cv_fo c)) osz n (cv_buf c') (ch, i)) [0..<s]"
    have "\<forall>ch < n. ?out ch = map (\<lambda>i. map_option f (slot_rd (af_interleaved (cv_fi c)) isz n im (ch, i))) [0..<k + s]"
      using Suc.prems(5) rd by (simp add: map_upt_add_shift)
    moreover have "tot - (k + s) < m" using Suc.prems(4) True s by simp
    ultimately show ?thesis
      using Suc.IH [OF c'(2,3), of "t\<lparr>t_chain_flags := 0\<rparr>" ?out] c'(1,4,5) n by simp
  next
    case False
    then have k: "k = tot" "cv_in_len c = 0" using Suc.prems(2) by (simp_all add: aconv_at_def)
    have "pcm_size1 (cv_fi c) \<noteq> 0"
      using Suc.prems(1) conv_sample_bits by (fastforce simp: aconv_ok_def pcm_size_def unat_gt_0)
    then have "aconv_step U tmp c t dm dl = Some (c, PHI_MORE, 0)" using k(2) fl by (simp add: aconv_step_def Let_def)
    then show ?thesis using Suc.prems(5) k by auto
  qed
qed simp



end
