(* ===== verification/Conf_Write.thy ===== *)
theory Conf_Write
  imports Prelude
begin

text \<open>
  \<open>src/util/conf-write.h\<close>: the writer of configuration text. The output vector is its characters and
  its capacity; a store beyond the capacity is the value \<open>None\<close>. The functions of the base
  library are the record \<open>conf_base\<close> with the laws \<open>conf_base_law\<close>.

  The text written for an element is compared with its description \<open>conf_text\<close>; the quoted form
  is read back by \<open>conf_unquote\<close>, the inverse that a reader of the format uses.
\<close>

section \<open>State\<close>

record conf_base =
  cb_grow :: "nat \<Rightarrow> nat \<Rightarrow> nat \<Rightarrow> nat option"       \<comment> \<open>\<open>ffvec_growtwice\<close>: capacity, length, request\<close>
  cb_add :: "string \<Rightarrow> nat \<Rightarrow> string \<Rightarrow> string"      \<comment> \<open>\<open>ffstr_add\<close>: copies what fits\<close>
  cb_findany :: "string \<Rightarrow> string \<Rightarrow> nat option"   \<comment> \<open>\<open>ffstr_findanyz\<close>\<close>
  cb_hex :: "nat \<Rightarrow> char"                        \<comment> \<open>\<open>ffHEX\<close>\<close>
  cb_fromint :: "int \<Rightarrow> string"                  \<comment> \<open>\<open>ffs_fromint\<close> with \<open>FFS_INTSIGN\<close>\<close>

record ffconfw =
  cw_buf :: string
  cw_cap :: nat
  cw_level :: u32
  cw_flags :: u32

definition FFCONFW_FDONTESCAPE :: u32 where "FFCONFW_FDONTESCAPE = 0x40000000"
definition FFCONFW_FLINE :: u32 where "FFCONFW_FLINE = 0x20000000"
definition FFCONFW_FCRLF :: u32 where "FFCONFW_FCRLF = 0x10000000"
definition FFCONFW_FKVTAB :: u32 where "FFCONFW_FKVTAB = 0x08000000"
definition FFCONFW_FINDENT :: u32 where "FFCONFW_FINDENT = 0x04000000"

abbreviation cw_flag :: "u32 \<Rightarrow> u32 \<Rightarrow> bool" where
  "cw_flag fl m \<equiv> fl AND m \<noteq> 0"

definition ffconfw_init :: "u32 \<Rightarrow> ffconfw" where
  "ffconfw_init flags = \<lparr>cw_buf = [], cw_cap = 0, cw_level = 0, cw_flags = flags\<rparr>"

definition ffconfw_close :: "ffconfw \<Rightarrow> ffconfw" where
  "ffconfw_close c = c\<lparr>cw_buf := [], cw_cap := 0\<rparr>"

definition ffconfw_clear :: "ffconfw \<Rightarrow> ffconfw" where
  "ffconfw_clear c = c\<lparr>cw_buf := []\<rparr>"

section \<open>Escaping\<close>

abbreviation QUOTE :: char where "QUOTE \<equiv> CHR 0x22"
abbreviation BSL :: char where "BSL \<equiv> CHR 0x5c"
abbreviation TAB :: char where "TAB \<equiv> CHR 0x09"
abbreviation LF :: char where "LF \<equiv> CHR 0x0a"
abbreviation CR :: char where "CR \<equiv> CHR 0x0d"

text \<open>The table \<open>esc_char\<close>: kept, written as a code, or written as a letter.\<close>
datatype esc = EscNo | EscHex | EscCh char

definition esc_char :: "char \<Rightarrow> esc" where
  "esc_char ch =
     (let n = of_char ch :: nat in
      if n = 0x08 then EscCh CHR ''b''
      else if n = 0x09 then EscCh CHR ''t''
      else if n = 0x0a then EscCh CHR ''n''
      else if n = 0x0c then EscCh CHR ''f''
      else if n = 0x0d then EscCh CHR ''r''
      else if n < 0x20 then EscHex
      else if n = 0x22 then EscCh QUOTE
      else if n = 0x5c then EscCh BSL
      else if n = 0x7f then EscHex
      else EscNo)"

text \<open>The first pass: \<open>dst == NULL\<close>.\<close>
fun escape_size :: "string \<Rightarrow> nat" where
  "escape_size [] = 0"
| "escape_size (ch # s) = (case esc_char ch of EscNo \<Rightarrow> 1 | EscHex \<Rightarrow> 4 | EscCh _ \<Rightarrow> 2) + escape_size s"

text \<open>
  The second pass stores at most \<open>cap\<close> characters. \<open>None\<close>: a store beyond \<open>cap\<close> (a plain
  character is stored without a test); \<open>Some None\<close>: the function returns 0.
\<close>
fun escape_write :: "conf_base \<Rightarrow> nat \<Rightarrow> string \<Rightarrow> string \<Rightarrow> string option option" where
  "escape_write B cap dst [] = Some (Some dst)"
| "escape_write B cap dst (ch # s) =
     (case esc_char ch of
        EscNo \<Rightarrow> if cap \<le> length dst then None else escape_write B cap (dst @ [ch]) s
      | EscHex \<Rightarrow>
          if cap < length dst + 4 then Some None
          else escape_write B cap (dst @ [BSL, CHR ''x'', cb_hex B (of_char ch div 16), cb_hex B (of_char ch mod 16)]) s
      | EscCh x \<Rightarrow>
          if cap < length dst + 2 then Some None else escape_write B cap (dst @ [BSL, x]) s)"

section \<open>Adding an element\<close>

definition MUST_QUOTE :: string where "MUST_QUOTE = '' {}#/'' @ [BSL]"

text \<open>The conversion of \<open>ffsize\<close> to \<open>int\<close> and back.\<close>
definition size_via_int :: "nat \<Rightarrow> nat" where
  "size_via_int n = unat (scast (of_nat n :: u32) :: u64)"

text \<open>The number of characters to reserve and whether the string is quoted.\<close>
definition ffconfw_size :: "conf_base \<Rightarrow> ffconfw \<Rightarrow> char \<Rightarrow> u32 \<Rightarrow> string \<Rightarrow> nat \<times> bool" where
  "ffconfw_size B c t fl s =
     (if t = CHR ''S'' \<or> t = CHR ''K'' then
        (let r = (if \<not> cw_flag fl FFCONFW_FDONTESCAPE then escape_size s else length s)
         in (size_via_int (4 + r + unat (cw_level c)),
             r \<noteq> length s \<or> s = [] \<or> cb_findany B s MUST_QUOTE \<noteq> None))
      else if t = CHR ''{'' \<or> t = CHR ''}'' then (size_via_int (3 + unat (cw_level c)), False)
      else (size_via_int (unat (cw_level c)), False))"

text \<open>\<open>*ffstr_push(&c->buf) = ch\<close>.\<close>
definition push :: "char \<Rightarrow> ffconfw \<Rightarrow> ffconfw option" where
  "push ch c = (if length (cw_buf c) < cw_cap c then Some (c\<lparr>cw_buf := cw_buf c @ [ch]\<rparr>) else None)"

fun pushes :: "string \<Rightarrow> ffconfw \<Rightarrow> ffconfw option" where
  "pushes [] c = Some c"
| "pushes (x # xs) c = Option.bind (push x c) (pushes xs)"

definition newline :: "u32 \<Rightarrow> string" where
  "newline fl = (if cw_flag fl FFCONFW_FCRLF then [CR, LF] else [LF])"

text \<open>The body of a string or key, quoted if needed.\<close>
definition put_body :: "conf_base \<Rightarrow> u32 \<Rightarrow> bool \<Rightarrow> string \<Rightarrow> ffconfw \<Rightarrow> ffconfw option" where
  "put_body B fl complex s c =
     (if complex \<and> \<not> cw_flag fl FFCONFW_FLINE then
        Option.bind (push QUOTE c) (\<lambda>c1.
        Option.bind
          (if \<not> cw_flag fl FFCONFW_FDONTESCAPE
           then (case escape_write B (cw_cap c1 - length (cw_buf c1)) [] s of
                   None \<Rightarrow> None
                 | Some None \<Rightarrow> Some c1
                 | Some (Some d) \<Rightarrow> Some (c1\<lparr>cw_buf := cw_buf c1 @ d\<rparr>))
           else Some (c1\<lparr>cw_buf := cb_add B (cw_buf c1) (cw_cap c1) s\<rparr>))
          (push QUOTE))
      else Some (c\<lparr>cw_buf := cb_add B (cw_buf c) (cw_cap c) s\<rparr>))"

text \<open>The switch of \<open>ffconfw_add\<close>; the close of an object asserts that one is open.\<close>
definition put_elem :: "conf_base \<Rightarrow> char \<Rightarrow> u32 \<Rightarrow> bool \<Rightarrow> string \<Rightarrow> ffconfw \<Rightarrow> ffconfw option" where
  "put_elem B t fl complex s c =
     (if t = CHR ''S'' then
        Option.bind (push (if cw_flag fl FFCONFW_FKVTAB then TAB else CHR '' '') c) (put_body B fl complex s)
      else if t = CHR ''K'' then
        (if cw_buf c \<noteq> [] then
           Option.bind (pushes (newline fl) c) (\<lambda>c1.
           Option.bind (pushes (replicate (unat (cw_level c)) TAB) c1) (put_body B fl complex s))
         else put_body B fl complex s c)
      else if t = CHR ''{'' then
        map_option (\<lambda>c1. if cw_flag fl FFCONFW_FINDENT then c1\<lparr>cw_level := cw_level c1 + 1\<rparr> else c1)
          (pushes '' {'' c)
      else if t = CHR ''}'' then
        (if cw_flag fl FFCONFW_FINDENT \<and> cw_level c = 0 then None
         else
           (let c1 = (if cw_flag fl FFCONFW_FINDENT then c\<lparr>cw_level := cw_level c - 1\<rparr> else c)
            in Option.bind (pushes (replicate (unat (cw_level c1)) TAB) c1) (\<lambda>c2.
               Option.bind (pushes (newline fl) c2) (push CHR ''}''))))
      else Some c)"

text \<open>The number of characters written; -1: no memory.\<close>
definition ffconfw_add :: "conf_base \<Rightarrow> ffconfw \<Rightarrow> char \<Rightarrow> u32 \<Rightarrow> string \<Rightarrow> (ffconfw \<times> int) option" where
  "ffconfw_add B c t flags s =
     (let fl = flags OR cw_flags c in
      case ffconfw_size B c t fl s of (r, complex) \<Rightarrow>
      case cb_grow B (cw_cap c) (length (cw_buf c)) r of
        None \<Rightarrow> Some (c, -1)
      | Some cap \<Rightarrow>
          map_option (\<lambda>c1. (c1, int (length (cw_buf c1)) - int (length (cw_buf c))))
            (put_elem B t fl complex s (c\<lparr>cw_cap := cap\<rparr>)))"

definition ffconfw_addf :: "conf_base \<Rightarrow> ffconfw \<Rightarrow> string \<Rightarrow> (ffconfw \<times> int) option" where
  "ffconfw_addf B c text =
     (case cb_grow B (cw_cap c) (length (cw_buf c)) (unat (cw_level c + 2)) of
        None \<Rightarrow> Some (c, -1)
      | Some cap \<Rightarrow>
          Option.bind (pushes (newline (cw_flags c)) (c\<lparr>cw_cap := cap\<rparr>)) (\<lambda>c1.
          Option.bind (pushes (replicate (unat (cw_level c)) TAB) c1) (\<lambda>c2.
          case cb_grow B (cw_cap c2) (length (cw_buf c2)) (length text) of
            None \<Rightarrow> Some (c2, int (length (cw_buf c2)) - int (length (cw_buf c)))
          | Some cap2 \<Rightarrow>
              Some (c2\<lparr>cw_cap := cap2, cw_buf := cw_buf c2 @ text\<rparr>,
                    int (length (cw_buf c2 @ text)) - int (length (cw_buf c))))))"

definition ffconfw_add_line :: "conf_base \<Rightarrow> ffconfw \<Rightarrow> string \<Rightarrow> (ffconfw \<times> int) option" where
  "ffconfw_add_line B c s = ffconfw_add B c CHR ''K'' (FFCONFW_FLINE OR FFCONFW_FDONTESCAPE) s"

definition ffconfw_add_str :: "conf_base \<Rightarrow> ffconfw \<Rightarrow> string \<Rightarrow> (ffconfw \<times> int) option" where
  "ffconfw_add_str B c s = ffconfw_add B c CHR ''S'' 0 s"

definition ffconfw_add_key :: "conf_base \<Rightarrow> ffconfw \<Rightarrow> string \<Rightarrow> (ffconfw \<times> int) option" where
  "ffconfw_add_key B c s = ffconfw_add B c CHR ''K'' 0 s"

definition ffconfw_add_int :: "conf_base \<Rightarrow> ffconfw \<Rightarrow> int \<Rightarrow> (ffconfw \<times> int) option" where
  "ffconfw_add_int B c v = ffconfw_add B c CHR ''S'' 0 (cb_fromint B v)"

definition ffconfw_add_obj :: "conf_base \<Rightarrow> ffconfw \<Rightarrow> char \<Rightarrow> (ffconfw \<times> int) option" where
  "ffconfw_add_obj B c open_close = ffconfw_add B c open_close 0 []"

text \<open>Two calls, the second only if the first succeeded.\<close>
definition and_then :: "(ffconfw \<times> int) option \<Rightarrow> (ffconfw \<Rightarrow> (ffconfw \<times> int) option) \<Rightarrow> (ffconfw \<times> int) option" where
  "and_then x f =
     Option.bind x (\<lambda>(c1, n). if n < 0 then Some (c1, n)
       else map_option (\<lambda>(c2, r). (c2, if r < 0 then r else n + r)) (f c1))"

definition ffconfw_add2 :: "conf_base \<Rightarrow> ffconfw \<Rightarrow> string \<Rightarrow> string \<Rightarrow> (ffconfw \<times> int) option" where
  "ffconfw_add2 B c key val = and_then (ffconfw_add_key B c key) (\<lambda>c1. ffconfw_add_str B c1 val)"

definition ffconfw_add2u :: "conf_base \<Rightarrow> ffconfw \<Rightarrow> string \<Rightarrow> u64 \<Rightarrow> (ffconfw \<times> int) option" where
  "ffconfw_add2u B c key val = and_then (ffconfw_add_key B c key) (\<lambda>c1. ffconfw_add_int B c1 (sint val))"

definition ffconfw_add2obj :: "conf_base \<Rightarrow> ffconfw \<Rightarrow> string \<Rightarrow> char \<Rightarrow> (ffconfw \<times> int) option" where
  "ffconfw_add2obj B c key open_close = and_then (ffconfw_add_key B c key) (\<lambda>c1. ffconfw_add_obj B c1 open_close)"

text \<open>The result of growing the vector is not tested.\<close>
definition ffconfw_fin :: "conf_base \<Rightarrow> ffconfw \<Rightarrow> ffconfw" where
  "ffconfw_fin B c =
     (case cb_grow B (cw_cap c) (length (cw_buf c)) 1 of
        None \<Rightarrow> c
      | Some cap \<Rightarrow> c\<lparr>cw_cap := cap, cw_buf := cw_buf c @ [LF]\<rparr>)"

section \<open>The text of an element\<close>

text \<open>A hexadecimal digit, upper or lower case.\<close>
definition hexval :: "char \<Rightarrow> nat option" where
  "hexval c =
     (let n = of_char c :: nat in
      if 48 \<le> n \<and> n \<le> 57 then Some (n - 48)
      else if 65 \<le> n \<and> n \<le> 70 then Some (n - 55)
      else if 97 \<le> n \<and> n \<le> 102 then Some (n - 87)
      else None)"

definition conf_base_law :: "conf_base \<Rightarrow> bool" where
  "conf_base_law B \<longleftrightarrow>
     (\<forall>cap len n c. cb_grow B cap len n = Some c \<longrightarrow> len + n \<le> c \<and> cap \<le> c)
     \<and> (\<forall>b cap s. cb_add B b cap s = b @ take (cap - length b) s)
     \<and> (\<forall>s cs. cb_findany B s cs = None \<longleftrightarrow> set s \<inter> set cs = {})
     \<and> (\<forall>n < 16. hexval (cb_hex B n) = Some n)"

definition esc_text :: "conf_base \<Rightarrow> char \<Rightarrow> string" where
  "esc_text B ch =
     (case esc_char ch of
        EscNo \<Rightarrow> [ch]
      | EscHex \<Rightarrow> [BSL, CHR ''x'', cb_hex B (of_char ch div 16), cb_hex B (of_char ch mod 16)]
      | EscCh x \<Rightarrow> [BSL, x])"

definition escape :: "conf_base \<Rightarrow> string \<Rightarrow> string" where
  "escape B s = concat (map (esc_text B) s)"

lemma escape_Cons [simp]: "escape B [] = []" "escape B (c # s) = esc_text B c @ escape B s"
  by (simp_all add: escape_def)

lemma length_escape [simp]: "length (escape B s) = escape_size s"
  by (induction s) (auto simp: esc_text_def split: esc.split)

lemma escape_size_le: "escape_size s \<le> 4 * length s"
  by (induction s) (auto split: esc.split)

lemma escape_write_fits:
  "length dst + escape_size s \<le> cap \<Longrightarrow> escape_write B cap dst s = Some (Some (dst @ escape B s))"
  by (induction s arbitrary: dst) (auto simp: esc_text_def split: esc.split)

lemma pushes_fits:
  "length (cw_buf c) + length xs \<le> cw_cap c \<Longrightarrow> pushes xs c = Some (c\<lparr>cw_buf := cw_buf c @ xs\<rparr>)"
  by (induction xs arbitrary: c) (auto simp: push_def)

lemma push_fits: "length (cw_buf c) < cw_cap c \<Longrightarrow> push x c = Some (c\<lparr>cw_buf := cw_buf c @ [x]\<rparr>)"
  by (simp add: push_def)

definition conf_quoted :: "u32 \<Rightarrow> string \<Rightarrow> bool" where
  "conf_quoted fl s \<longleftrightarrow> \<not> cw_flag fl FFCONFW_FLINE
     \<and> (\<not> cw_flag fl FFCONFW_FDONTESCAPE \<and> escape_size s \<noteq> length s \<or> s = [] \<or> set s \<inter> set MUST_QUOTE \<noteq> {})"

definition conf_body :: "conf_base \<Rightarrow> u32 \<Rightarrow> string \<Rightarrow> string" where
  "conf_body B fl s =
     (if conf_quoted fl s then QUOTE # (if cw_flag fl FFCONFW_FDONTESCAPE then s else escape B s) @ [QUOTE] else s)"

text \<open>What an element adds to a text of which \<open>first\<close> tells whether it is empty.\<close>
definition conf_text :: "conf_base \<Rightarrow> u32 \<Rightarrow> nat \<Rightarrow> bool \<Rightarrow> char \<Rightarrow> string \<Rightarrow> string" where
  "conf_text B fl level first t s =
     (if t = CHR ''S'' then (if cw_flag fl FFCONFW_FKVTAB then TAB else CHR '' '') # conf_body B fl s
      else if t = CHR ''K'' then (if first then [] else newline fl @ replicate level TAB) @ conf_body B fl s
      else if t = CHR ''{'' then '' {''
      else if t = CHR ''}'' then
        replicate (if cw_flag fl FFCONFW_FINDENT then level - 1 else level) TAB @ newline fl @ ''}''
      else [])"

lemma length_newline: "length (newline fl) \<le> 2"
  by (simp add: newline_def)

lemma conf_body_length: "length (conf_body B fl s) \<le> 2 +
    (if \<not> cw_flag fl FFCONFW_FDONTESCAPE then escape_size s else length s)"
proof -
  have "length s \<le> escape_size s" by (induction s) (auto split: esc.split)
  then show ?thesis by (simp add: conf_body_def)
qed

lemma put_body_fits:
  assumes "conf_base_law B" and "length (cw_buf c) + length (conf_body B fl s) \<le> cw_cap c"
    and "complex \<longleftrightarrow> (\<not> cw_flag fl FFCONFW_FDONTESCAPE \<and> escape_size s \<noteq> length s) \<or> s = [] \<or> cb_findany B s MUST_QUOTE \<noteq> None"
  shows "put_body B fl complex s c = Some (c\<lparr>cw_buf := cw_buf c @ conf_body B fl s\<rparr>)"
proof -
  have add: "length b + length s \<le> cap \<Longrightarrow> cb_add B b cap s = b @ s" for b cap
    using assms(1) by (simp add: conf_base_law_def)
  have "(complex \<and> \<not> cw_flag fl FFCONFW_FLINE) = conf_quoted fl s"
    using assms(1,3) by (auto simp: conf_quoted_def conf_base_law_def)
  then show ?thesis using assms(2)
    by (auto simp: put_body_def conf_body_def push_fits escape_write_fits add split: if_splits)
qed

lemma size_via_int_small: "n < 2 ^ 31 \<Longrightarrow> size_via_int n = n"
proof -
  assume n: "n < 2 ^ 31"
  then have u: "unat (of_nat n :: u32) = n" by (simp add: unat_of_nat take_bit_nat_eq_self)
  have "sint (of_nat n :: u32) = int n"
    using n by (simp add: signed_of_nat signed_take_bit_int_eq_self)
  then have "uint (scast (of_nat n :: u32) :: u64) = int n"
    using n by (simp add: scast_eq unsigned_of_nat take_bit_nat_eq_self)
  then show ?thesis by (simp add: size_via_int_def unat_eq_nat_uint)
qed

lemma put_elem_fits:
  assumes "conf_base_law B" and "length (cw_buf c) + length (conf_text B fl (unat (cw_level c)) (cw_buf c = []) t s) \<le> cw_cap c"
    and "t = CHR ''S'' \<or> t = CHR ''K'' \<Longrightarrow> complex \<longleftrightarrow> (\<not> cw_flag fl FFCONFW_FDONTESCAPE \<and> escape_size s \<noteq> length s) \<or> s = [] \<or> cb_findany B s MUST_QUOTE \<noteq> None"
    and "t = CHR ''}'' \<Longrightarrow> cw_flag fl FFCONFW_FINDENT \<Longrightarrow> cw_level c \<noteq> 0"
  shows "\<exists>c1. put_elem B t fl complex s c = Some c1
    \<and> cw_buf c1 = cw_buf c @ conf_text B fl (unat (cw_level c)) (cw_buf c = []) t s \<and> cw_cap c1 = cw_cap c"
proof -
  consider (s) "t = CHR ''S''" | (k) "t = CHR ''K''" | (op) "t = CHR ''{''" | (cl) "t = CHR ''}''"
    | (other) "t \<notin> {CHR ''S'', CHR ''K'', CHR ''{'', CHR ''}''}" by blast
  then show ?thesis
  proof cases
    case s
    then show ?thesis using assms(2,3) put_body_fits [OF assms(1), of _ fl s complex]
      by (simp add: put_elem_def conf_text_def push_fits)
  next
    case k
    then show ?thesis using assms(2,3) put_body_fits [OF assms(1), of _ fl s complex]
      by (auto simp: put_elem_def conf_text_def pushes_fits)
  next
    case op
    then have "pushes '' {'' c = Some (c\<lparr>cw_buf := cw_buf c @ '' {''\<rparr>)"
      using assms(2) by (intro pushes_fits) (simp add: conf_text_def)
    then show ?thesis using op by (simp add: put_elem_def conf_text_def del: pushes.simps)
  next
    case cl
    have "unat (cw_level c - 1) = unat (cw_level c) - 1" if "cw_level c \<noteq> 0"
      using that by (simp add: unat_minus_one)
    then show ?thesis using cl assms(2,4)
      by (auto simp: put_elem_def conf_text_def Let_def pushes_fits push_fits split: if_splits)
  next
    case other
    then show ?thesis using assms(2) by (auto simp: put_elem_def conf_text_def)
  qed
qed

text \<open>The reserved number of characters is enough for the text.\<close>
lemma ffconfw_size_enough:
  assumes "ffconfw_size B c t fl s = (r, complex)" and "4 * length s + unat (cw_level c) + 4 < 2 ^ 31"
  shows "length (conf_text B fl (unat (cw_level c)) first t s) \<le> r"
proof -
  have "escape_size s \<le> 4 * length s" by (rule escape_size_le)
  then have "4 + escape_size s + unat (cw_level c) < 2 ^ 31" "4 + length s + unat (cw_level c) < 2 ^ 31"
    "3 + unat (cw_level c) < 2 ^ 31" using assms(2) by auto
  note sz = this [THEN size_via_int_small]
  show ?thesis
    using assms(1) sz conf_body_length [of B fl s] length_newline [of fl]
    by (auto simp: ffconfw_size_def conf_text_def Let_def split: if_splits)
qed


definition demo_conf_base :: conf_base where
  "demo_conf_base = \<lparr>cb_grow = (\<lambda>cap len n. Some (max cap (len + n))),
     cb_add = (\<lambda>b cap s. b @ take (cap - length b) s),
     cb_findany = (\<lambda>s cs. if set s \<inter> set cs = {} then None else Some 0),
     cb_hex = (\<lambda>n. ''0123456789abcdef'' ! n), cb_fromint = (\<lambda>_. [])\<rparr>"

lemma demo_conf_base_law: "conf_base_law demo_conf_base"
proof -
  have "\<forall>n \<in> set [0..<16]. hexval (''0123456789abcdef'' ! n) = Some n"
    by (simp add: upt_rec hexval_def Let_def)
  then show ?thesis by (auto simp: conf_base_law_def demo_conf_base_def)
qed


section \<open>Reading back\<close>

definition unesc :: "char \<Rightarrow> char option" where
  "unesc x =
     (if x = CHR ''b'' then Some CHR 0x08 else if x = CHR ''t'' then Some TAB else if x = CHR ''n'' then Some LF
      else if x = CHR ''f'' then Some CHR 0x0c else if x = CHR ''r'' then Some CR
      else if x = QUOTE then Some QUOTE else if x = BSL then Some BSL else None)"

text \<open>The string up to the closing quote, and the text behind it.\<close>
fun conf_unquote :: "string \<Rightarrow> (string \<times> string) option" where
  "conf_unquote [] = None"
| "conf_unquote (c # cs) =
     (if c = QUOTE then Some ([], cs)
      else if c \<noteq> BSL then map_option (\<lambda>(s, r). (c # s, r)) (conf_unquote cs)
      else case cs of
        [] \<Rightarrow> None
      | x # r \<Rightarrow>
          if x = CHR ''x'' then
            (case r of
               a # b # r' \<Rightarrow>
                 (case (hexval a, hexval b) of
                    (Some h, Some l) \<Rightarrow> map_option (\<lambda>(s, r). (char_of (16 * h + l) # s, r)) (conf_unquote r')
                  | _ \<Rightarrow> None)
             | _ \<Rightarrow> None)
          else case unesc x of None \<Rightarrow> None | Some y \<Rightarrow> map_option (\<lambda>(s, r). (y # s, r)) (conf_unquote r))"

lemma unquote_esc_text:
  assumes "conf_base_law B"
  shows "conf_unquote (esc_text B ch @ txt) = map_option (\<lambda>(s, r). (ch # s, r)) (conf_unquote txt)"
proof (cases "esc_char ch")
  case EscNo
  then have "ch \<noteq> QUOTE" "ch \<noteq> BSL" by (auto simp: esc_char_def)
  then show ?thesis using EscNo by (simp add: esc_text_def)
next
  case EscHex
  have "(of_char ch :: nat) div 16 < 16" by (rule less_mult_imp_div_less) simp
  then have "hexval (cb_hex B (of_char ch div 16)) = Some (of_char ch div 16)"
    "hexval (cb_hex B (of_char ch mod 16)) = Some (of_char ch mod 16)"
    using assms by (simp_all add: conf_base_law_def)
  moreover have "16 * (of_char ch div 16) + of_char ch mod 16 = (of_char ch :: nat)" by simp
  ultimately show ?thesis using EscHex by (simp add: esc_text_def del: mult_div_mod_eq)
next
  case (EscCh x)
  have ch: "of_char ch = (of_char y :: nat) \<Longrightarrow> ch = y" for y by (simp only: of_char_eq_iff)
  have "unesc x = Some ch \<and> x \<noteq> CHR ''x''"
    using EscCh ch [of "CHR 0x08"] ch [of TAB] ch [of LF] ch [of "CHR 0x0c"] ch [of CR] ch [of QUOTE] ch [of BSL]
    by (auto simp: esc_char_def unesc_def Let_def split: if_splits)
  then show ?thesis using EscCh by (simp add: esc_text_def)
qed

text \<open>
  Escaping loses nothing. The second pass of \<open>ffconf_escape\<close>, given the space computed by
  the first, succeeds, and reading its output between quotes returns the original string, for
  every string of bytes and whatever text follows the closing quote.
\<close>

theorem conf_escape_roundtrip:
  assumes "conf_base_law B"
  shows "\<exists>d. escape_write B (escape_size s) [] s = Some (Some d)
    \<and> conf_unquote (d @ QUOTE # rest) = Some (s, rest)"
proof -
  have "conf_unquote (escape B s @ QUOTE # rest) = Some (s, rest)"
    by (induction s) (simp_all add: unquote_esc_text [OF assms])
  then show ?thesis using escape_write_fits [of "[]" s "escape_size s" B] by simp
qed

theorem conf_escape_roundtrip_witness:
  "\<exists>d. escape_write demo_conf_base (escape_size [CHR 0x01, QUOTE, LF]) [] [CHR 0x01, QUOTE, LF] = Some (Some d)
    \<and> conf_unquote (d @ QUOTE # ''x'') = Some ([CHR 0x01, QUOTE, LF], ''x'')"
  by (rule conf_escape_roundtrip [OF demo_conf_base_law])

end
