(* ===== verification/Audio_Dev.thy ===== *)
theory Audio_Dev
  imports Conveyor Pcm Util
begin

text \<open>
  \<open>src/adev/audio.h\<close>, \<open>audio-play.h\<close> and \<open>audio-rec.h\<close>: the code that the audio modules share for playback
  and capture; \<open>src/adev/pulse.c\<close> and \<open>pulse-play.h\<close>: the playback filter over PulseAudio, which keeps one
  buffer for all tracks.

  The library \<open>ffaudio\<close> is the record \<open>ffaudio\<close> with a state \<open>'d\<close>: buffers and devices are
  numbers, and a negative result of a call is the negated error code, as in the library. Loops
  whose length the library decides take fuel; \<open>None\<close> is a fault (a call through a null pointer,
  a division by zero) or the end of the fuel.
\<close>

record au_conf =
  uc_device_id :: "string option"
  uc_format :: u16
  uc_rate :: u32
  uc_channels :: u8
  uc_buf_msec :: u32

record 'd ffaudio =
  au_init :: "'d \<Rightarrow> int \<times> 'd"
  au_uninit :: "'d \<Rightarrow> 'd"
  au_dev_alloc :: "u32 \<Rightarrow> 'd \<Rightarrow> nat \<times> 'd"
  au_dev_next :: "nat \<Rightarrow> 'd \<Rightarrow> int \<times> 'd"
  au_dev_id :: "nat \<Rightarrow> 'd \<Rightarrow> string option"
  au_dev_free :: "nat option \<Rightarrow> 'd \<Rightarrow> 'd"
  au_alloc :: "'d \<Rightarrow> nat option \<times> 'd"
  au_open :: "nat \<Rightarrow> au_conf \<Rightarrow> u32 \<Rightarrow> 'd \<Rightarrow> int \<times> au_conf \<times> 'd"
  au_free :: "nat option \<Rightarrow> 'd \<Rightarrow> 'd"
  au_stop :: "nat \<Rightarrow> 'd \<Rightarrow> int \<times> 'd"
  au_clear :: "nat \<Rightarrow> 'd \<Rightarrow> int \<times> 'd"
  au_write :: "nat \<Rightarrow> bytes \<Rightarrow> 'd \<Rightarrow> int \<times> 'd"
  au_drain :: "nat \<Rightarrow> 'd \<Rightarrow> int \<times> 'd"
  au_read :: "nat \<Rightarrow> 'd \<Rightarrow> int \<times> bytes \<times> 'd"
  au_formats :: "u16 list"                  \<comment> \<open>\<open>FFAUDIO_F_INT8\<close>, ..., in the order of the table\<close>
  FFAUDIO_ERROR :: int
  FFAUDIO_EFORMAT :: int
  FFAUDIO_ECONNECTION :: int
  FFAUDIO_ESYNC :: int
  FFAUDIO_EDEV_OFFLINE :: int
  FFAUDIO_PLAYBACK :: u32
  FFAUDIO_CAPTURE :: u32
  FFAUDIO_LOOPBACK :: u32
  FFAUDIO_O_NONBLOCK :: u32
  FFAUDIO_O_HWDEV :: u32
  FFAUDIO_DEV_PLAYBACK :: u32
  FFAUDIO_DEV_CAPTURE :: u32

section \<open>audio.h\<close>

definition af_eq :: "phi_af \<Rightarrow> phi_af \<Rightarrow> bool" where
  "af_eq a b \<longleftrightarrow> af_format a = af_format b \<and> af_channels a = af_channels b \<and> af_rate a = af_rate b"

text \<open>\<open>struct fmt_pair\<close>: \<open>bad\<close> and \<open>good\<close>.\<close>
type_synonym fmt_pair = "phi_af \<times> phi_af"

fun fmt_conv_find :: "fmt_pair list \<Rightarrow> phi_af \<Rightarrow> phi_af option" where
  "fmt_conv_find [] fmt = None"
| "fmt_conv_find ((bad, good) # fmts) fmt = (if af_eq fmt bad then Some good else fmt_conv_find fmts fmt)"

text \<open>The pair that \<open>fmt_conv_find\<close> finds is overwritten; otherwise a new one is added.\<close>
fun fmt_conv_add :: "fmt_pair list \<Rightarrow> phi_af \<Rightarrow> phi_af \<Rightarrow> fmt_pair list" where
  "fmt_conv_add [] bad good = [(bad, good)]"
| "fmt_conv_add ((b, g) # fmts) bad good =
     (if af_eq bad b then (b, good) # fmts else (b, g) # fmt_conv_add fmts bad good)"

definition ffpcm_formats :: "u16 list" where
  "ffpcm_formats = [PHI_PCM_8, PHI_PCM_16, PHI_PCM_24, PHI_PCM_32, PHI_PCM_24_4, PHI_PCM_FLOAT32, PHI_PCM_FLOAT64]"

text \<open>\<open>None\<close>: -1. \<open>ffarrint16_find\<close> is the position of the first equal element.\<close>
definition ffpcm_to_ffaudio :: "'d ffaudio \<Rightarrow> u16 \<Rightarrow> u16 option" where
  "ffpcm_to_ffaudio L f = map_option (\<lambda>i. au_formats L ! i) (first_pos (\<lambda>x. x = f) ffpcm_formats)"

definition ffaudio_to_ffpcm :: "'d ffaudio \<Rightarrow> u16 \<Rightarrow> u16 option" where
  "ffaudio_to_ffpcm L f = map_option (\<lambda>i. ffpcm_formats ! i) (first_pos (\<lambda>x. x = f) (au_formats L))"

text \<open>-1 stored in a field of 16 bits.\<close>
definition fmt_or_all :: "u16 option \<Rightarrow> u16" where
  "fmt_or_all f = (case f of None \<Rightarrow> -1 | Some x \<Rightarrow> x)"

text \<open>The loop of \<open>audio_devbyidx\<close> from the position \<open>i\<close>.\<close>
fun devbyidx_loop :: "nat \<Rightarrow> 'd ffaudio \<Rightarrow> nat \<Rightarrow> u32 \<Rightarrow> u32 \<Rightarrow> 'd \<Rightarrow> (int \<times> nat option \<times> 'd) option" where
  "devbyidx_loop 0 L dev i idev d = None"
| "devbyidx_loop (Suc n) L dev i idev d =
     (case au_dev_next L dev d of (r, d1) \<Rightarrow>
        if r \<noteq> 0 then Some (r, None, au_dev_free L (Some dev) d1)
        else if i + 1 = idev then Some (0, Some dev, d1)
        else devbyidx_loop n L dev (i + 1) idev d1)"

definition audio_devbyidx :: "nat \<Rightarrow> 'd ffaudio \<Rightarrow> u32 \<Rightarrow> u32 \<Rightarrow> 'd \<Rightarrow> (int \<times> nat option \<times> 'd) option" where
  "audio_devbyidx n L idev flags d =
     (case au_dev_alloc L flags d of (dev, d1) \<Rightarrow> devbyidx_loop n L dev 0 idev d1)"

datatype ast = ST_TRY | ST_OPEN | ST_WAITING | ST_SIGNALLED | ST_PROCESSING | ST_FEEDING

section \<open>audio-play.h\<close>

record audio_out =
  ao_buf_msec :: u32
  ao_try_open :: bool
  ao_dev_idx :: u32
  ao_aflags :: u32
  ao_err_code :: int
  ao_handle_dev_offline :: bool
  ao_stream :: "nat option"
  ao_dev :: "nat option"
  ao_state :: ast
  ao_reconnect :: bool

text \<open>The answer to an unsupported format: what \<open>open\<close> changed is requested from the converter.\<close>
definition request_format :: "'d ffaudio \<Rightarrow> au_conf \<Rightarrow> au_conf \<Rightarrow> phi_track \<Rightarrow> phi_track \<times> bool" where
  "request_format L inc conf t =
     (let cf = o_conv_format (t_oaudio t);
          cf1 = (if uc_format conf \<noteq> uc_format inc then cf\<lparr>af_format := fmt_or_all (ffaudio_to_ffpcm L (uc_format conf))\<rparr> else cf);
          cf2 = (if uc_rate conf \<noteq> uc_rate inc then cf1\<lparr>af_rate := uc_rate conf\<rparr> else cf1);
          cf3 = (if uc_channels conf \<noteq> uc_channels inc then cf2\<lparr>af_channels := uc_channels conf\<rparr> else cf2)
      in (t\<lparr>t_oaudio := (t_oaudio t)\<lparr>o_conv_format := cf3\<rparr>\<rparr>,
          uc_format conf \<noteq> uc_format inc \<or> uc_rate conf \<noteq> uc_rate inc \<or> uc_channels conf \<noteq> uc_channels inc))"

text \<open>The end of \<open>audio_out_open\<close> with an error: the buffer is freed.\<close>
definition open_failed :: "'d ffaudio \<Rightarrow> audio_out \<Rightarrow> phi_track \<Rightarrow> 'd \<Rightarrow> int \<Rightarrow> audio_out \<times> phi_track \<times> 'd \<times> int" where
  "open_failed L a t d rc = (a\<lparr>ao_stream := None\<rparr>, t, au_free L (ao_stream a) d, rc)"

definition out_conf :: "'d ffaudio \<Rightarrow> audio_out \<Rightarrow> phi_track \<Rightarrow> phi_af \<Rightarrow> u16 \<Rightarrow> 'd \<Rightarrow> au_conf" where
  "out_conf L a t fmt afmt d =
     \<lparr>uc_device_id = (case ao_dev a of None \<Rightarrow> None | Some dev \<Rightarrow> au_dev_id L dev d), uc_format = afmt, uc_rate = af_rate fmt,
      uc_channels = af_channels fmt,
      uc_buf_msec = (if oa_buf_time (c_oaudio (t_conf t)) \<noteq> 0 then oa_buf_time (c_oaudio (t_conf t)) else 500)\<rparr>"

definition audio_out_open ::
    "nat \<Rightarrow> 'd ffaudio \<Rightarrow> audio_out \<Rightarrow> phi_track \<Rightarrow> phi_af \<Rightarrow> 'd \<Rightarrow> (audio_out \<times> phi_track \<times> 'd \<times> int) option" where
  "audio_out_open n L a t fmt d =
     (if t_data_type t \<noteq> Some ''pcm'' then Some (a, t, d, FFAUDIO_ERROR L)
      else
        (let a1 = a\<lparr>ao_dev_idx := oa_device_index (c_oaudio (t_conf t))\<rparr> in
         case (if ao_dev a1 = None \<and> ao_dev_idx a1 \<noteq> 0
               then audio_devbyidx n L (ao_dev_idx a1) (FFAUDIO_DEV_PLAYBACK L) d else Some (0, ao_dev a1, d)) of
           None \<Rightarrow> None
         | Some (rd, dev, d1) \<Rightarrow>
             (let a2 = a1\<lparr>ao_dev := dev\<rparr> in
              if rd \<noteq> 0 then Some (open_failed L a2 t d1 (FFAUDIO_ERROR L))
              else
                (case au_alloc L d1 of (stream, d2) \<Rightarrow>
                   (let a3 = a2\<lparr>ao_stream := stream\<rparr> in
                    case stream of
                      None \<Rightarrow> Some (open_failed L a3 t d2 (FFAUDIO_ERROR L))
                    | Some s \<Rightarrow>
                        (case ffpcm_to_ffaudio L (af_format fmt) of
                           None \<Rightarrow> Some (open_failed L a3 t d2 (FFAUDIO_ERROR L))
                         | Some afmt \<Rightarrow>
                             (let inc = out_conf L a3 t fmt afmt d2 in
                              case au_open L s inc (FFAUDIO_PLAYBACK L OR FFAUDIO_O_NONBLOCK L OR ao_aflags a3) d2 of (r, conf, d3) \<Rightarrow>
                                if r = FFAUDIO_EFORMAT L then
                                  (case (if ao_try_open a3 then request_format L inc conf t else (t, False)) of (t1, new) \<Rightarrow>
                                     Some (open_failed L a3 t1 d3 (if new then FFAUDIO_EFORMAT L else FFAUDIO_ERROR L)))
                                else if r = FFAUDIO_ECONNECTION L then Some (open_failed L a3 t d3 (FFAUDIO_ECONNECTION L))
                                else if r \<noteq> 0 then Some (open_failed L a3 t d3 (FFAUDIO_ERROR L))
                                else Some (a3\<lparr>ao_buf_msec := uc_buf_msec conf, ao_state := ST_FEEDING\<rparr>, t, d3, 0))))))))"

text \<open>\<open>audio_out_onplay\<close>: whether the track is woken.\<close>
definition audio_out_onplay :: "audio_out \<Rightarrow> audio_out \<times> bool" where
  "audio_out_onplay a = (a\<lparr>ao_state := ST_SIGNALLED\<rparr>, ao_state a = ST_WAITING)"

text \<open>The loop of \<open>audio_out_write\<close>; \<open>None\<close> as a result: all data is written.\<close>
fun out_loop ::
    "nat \<Rightarrow> 'd ffaudio \<Rightarrow> nat \<Rightarrow> audio_out \<Rightarrow> bytes \<Rightarrow> 'd \<Rightarrow> (audio_out \<times> bytes \<times> 'd \<times> phi_r option) option" where
  "out_loop 0 L s a inp d = None"
| "out_loop (Suc n) L s a inp d =
     (if inp = [] then Some (a, inp, d, None)
      else
        (case au_write L s inp d of (r, d1) \<Rightarrow>
           if r > 0 then out_loop n L s a (drop (nat r) inp) d1
           else if r = 0 then Some (a\<lparr>ao_state := ST_WAITING\<rparr>, inp, d1, Some PHI_ASYNC)
           else if r = - FFAUDIO_ESYNC L then out_loop n L s a inp d1
           else if r = - FFAUDIO_EDEV_OFFLINE L \<and> ao_handle_dev_offline a
           then Some (a\<lparr>ao_err_code := FFAUDIO_EDEV_OFFLINE L\<rparr>, inp, d1, Some PHI_ERR)
           else Some (a\<lparr>ao_err_code := - r\<rparr>, inp, d1, Some PHI_ERR)))"

text \<open>Behind the loop: the end of the data waits until everything is played.\<close>
definition out_finish :: "'d ffaudio \<Rightarrow> nat \<Rightarrow> audio_out \<Rightarrow> phi_track \<Rightarrow> 'd \<Rightarrow> audio_out \<times> 'd \<times> phi_r" where
  "out_finish L s a t d =
     (if has_flag t PHI_FFIRST then
        (case au_drain L s d of (r, d1) \<Rightarrow>
           if r = 1 then (a, d1, PHI_DONE)
           else if r < 0 then (a\<lparr>ao_err_code := FFAUDIO_ERROR L\<rparr>, d1, PHI_ERR)
           else (a\<lparr>ao_state := ST_WAITING\<rparr>, d1, PHI_ASYNC))
      else (a\<lparr>ao_state := ST_FEEDING\<rparr>, d, PHI_MORE))"

definition audio_out_write ::
    "nat \<Rightarrow> 'd ffaudio \<Rightarrow> audio_out \<Rightarrow> phi_track \<Rightarrow> 'd \<Rightarrow> (audio_out \<times> phi_track \<times> 'd \<times> phi_r) option" where
  "audio_out_write n L a t d =
     (if has_flag t PHI_FSTOP then Some (a, t, d, PHI_FIN)
      else case ao_stream a of
        None \<Rightarrow> None
      | Some s \<Rightarrow>
          (let d1 = (if o_clear (t_oaudio t) then snd (au_clear L s (snd (au_stop L s d))) else d);
               t1 = t\<lparr>t_oaudio := (t_oaudio t)\<lparr>o_clear := False\<rparr>\<rparr>
           in if o_clear (t_oaudio t) \<and> a_seek_req (t_audio t) then Some (a, t1, d1, PHI_MORE)
              else if o_pause (t_oaudio t1)
              then Some (a, t1\<lparr>t_oaudio := (t_oaudio t1)\<lparr>o_pause := False\<rparr>\<rparr>, snd (au_stop L s d1), PHI_ASYNC)
              else
                (case out_loop n L s a (t_data_in t1) d1 of
                   None \<Rightarrow> None
                 | Some (a2, rest, d2, r) \<Rightarrow>
                     (let t2 = t1\<lparr>t_data_in := rest\<rparr> in
                      case r of
                        Some res \<Rightarrow> Some (a2, t2, d2, res)
                      | None \<Rightarrow> (case out_finish L s a2 t2 d2 of (a3, d3, res) \<Rightarrow> Some (a3, t2, d3, res))))))"

definition audio_stop :: "'d ffaudio \<Rightarrow> audio_out \<Rightarrow> 'd \<Rightarrow> (audio_out \<times> 'd \<times> bool) option" where
  "audio_stop L a d =
     (case ao_stream a of
        None \<Rightarrow> None
      | Some s \<Rightarrow> (case audio_out_onplay a of (a1, wake) \<Rightarrow> Some (a1, snd (au_stop L s d), wake)))"

section \<open>audio-rec.h\<close>

record audio_in =
  ai_dev_idx :: u32
  ai_buf_msec :: u32
  ai_loopback :: bool
  ai_aflags :: u32
  ai_stream :: "nat option"
  ai_total_samples :: u64
  ai_frame_size :: u32
  ai_state :: ast

text \<open>The defaults of the capture format.\<close>
definition in_format :: "phi_af \<Rightarrow> phi_af" where
  "in_format f =
     (let f1 = (if af_format f = 0 then f\<lparr>af_format := PHI_PCM_16\<rparr> else f);
          f2 = (if af_rate f1 = 0 then f1\<lparr>af_rate := 44100\<rparr> else f1)
      in if af_channels f2 = 0 then f2\<lparr>af_channels := 2\<rparr> else f2)"

definition set_in_format :: "phi_af \<Rightarrow> phi_track \<Rightarrow> phi_track" where
  "set_in_format f t = t\<lparr>t_conf := (t_conf t)\<lparr>c_iaudio := (c_iaudio (t_conf t))\<lparr>ia_format := f\<rparr>\<rparr>\<rparr>"

definition conf_af :: "'d ffaudio \<Rightarrow> au_conf \<Rightarrow> bool \<Rightarrow> phi_af" where
  "conf_af L conf il = \<lparr>af_format = fmt_or_all (ffaudio_to_ffpcm L (uc_format conf)), af_channels = uc_channels conf,
     af_interleaved = il, af_rate = uc_rate conf\<rparr>"

lemma clear_flag: "(x AND NOT h) AND h = (0 :: 'a::len word)"
  by (rule bit_word_eqI) (auto simp: bit_and_iff bit_not_iff)

text \<open>
  The loop of \<open>audio_in_open\<close>: the format that \<open>open\<close> proposes is tried once, then without direct access to the
  hardware. The result is \<open>Inl\<close> the error or \<open>Inr\<close> the configuration.
\<close>
function in_open_loop ::
    "'d ffaudio \<Rightarrow> nat \<Rightarrow> bool \<Rightarrow> u32 \<Rightarrow> au_conf \<Rightarrow> phi_track \<Rightarrow> 'd \<Rightarrow> phi_track \<times> 'd \<times> (int + au_conf)" where
  "in_open_loop L s first aflags conf t d =
     (case au_open L s conf (aflags OR FFAUDIO_O_NONBLOCK L) d of (r, conf1, d1) \<Rightarrow>
        if r = FFAUDIO_EFORMAT L then
          (if first then in_open_loop L s False aflags conf1 (set_in_format (conf_af L conf1 False) t) d1
           else if aflags AND FFAUDIO_O_HWDEV L \<noteq> 0
           then in_open_loop L s False (aflags AND NOT (FFAUDIO_O_HWDEV L)) conf1 t d1
           else (t, d1, Inl (FFAUDIO_ERROR L)))
        else if r \<noteq> 0 then (t, d1, Inl r)
        else (t, d1, Inr conf1))"
  by pat_completeness auto
termination
  by (relation "measure (\<lambda>(L, s, first, aflags, conf, t, d). (if first then 2 else 0) + (if aflags AND FFAUDIO_O_HWDEV L \<noteq> 0 then 1 else 0))")
    (auto simp: clear_flag)

declare in_open_loop.simps [simp del]

definition audio_in_open :: "nat \<Rightarrow> 'd ffaudio \<Rightarrow> audio_in \<Rightarrow> phi_track \<Rightarrow> 'd \<Rightarrow> (audio_in \<times> phi_track \<times> 'd \<times> int) option" where
  "audio_in_open n L a t d =
     (let t1 = set_in_format (in_format (ia_format (c_iaudio (t_conf t)))) t;
          ia = c_iaudio (t_conf t1); fmt = ia_format ia;
          a1 = a\<lparr>ai_dev_idx := ia_device_index ia\<rparr>
      in case (if ai_dev_idx a1 \<noteq> 0
               then audio_devbyidx n L (ai_dev_idx a1) (if ai_loopback a1 then FFAUDIO_DEV_PLAYBACK L else FFAUDIO_DEV_CAPTURE L) d
               else Some (0, None, d)) of
           None \<Rightarrow> None
         | Some (rd, dev, d1) \<Rightarrow>
             (let fail = (\<lambda>a t d rc. Some (a\<lparr>ai_stream := None\<rparr>, t,
                    au_free L (ai_stream a) (if dev \<noteq> None then au_dev_free L dev d else d), rc))
              in if rd \<noteq> 0 then fail a1 t1 d1 (FFAUDIO_ERROR L)
                 else case ffpcm_to_ffaudio L (af_format fmt) of
                   None \<Rightarrow> fail a1 t1 d1 (FFAUDIO_ERROR L)
                 | Some afmt \<Rightarrow>
                     (let conf = \<lparr>uc_device_id = (case dev of None \<Rightarrow> None | Some v \<Rightarrow> au_dev_id L v d1), uc_format = afmt,
                            uc_rate = af_rate fmt, uc_channels = af_channels fmt,
                            uc_buf_msec = (if ia_buf_time ia \<noteq> 0 then ia_buf_time ia else 500)\<rparr>;
                          aflags = (if ai_loopback a1 then FFAUDIO_LOOPBACK L else FFAUDIO_CAPTURE L) OR ai_aflags a1
                      in case au_alloc L d1 of (stream, d2) \<Rightarrow>
                           (let a2 = a1\<lparr>ai_stream := stream\<rparr> in
                            case stream of
                              None \<Rightarrow> fail a2 t1 d2 (FFAUDIO_ERROR L)
                            | Some s \<Rightarrow>
                                (case in_open_loop L s True aflags conf t1 d2 of
                                   (t2, d3, Inl rc) \<Rightarrow> fail a2 t2 d3 rc
                                 | (t2, d3, Inr conf2) \<Rightarrow>
                                     Some (a2\<lparr>ai_buf_msec := uc_buf_msec conf2,
                                              ai_frame_size := of_nat (pcm_size (af_format (ia_format (c_iaudio (t_conf t2))))
                                                                 (unat (af_channels (ia_format (c_iaudio (t_conf t2)))))),
                                              ai_state := ST_SIGNALLED\<rparr>,
                                           t2\<lparr>t_audio := (t_audio t2)\<lparr>a_format := conf_af L conf2 True\<rparr>, t_data_type := Some ''pcm''\<rparr>,
                                           if dev \<noteq> None then au_dev_free L dev d3 else d3, 0))))))"

definition audio_in_close :: "'d ffaudio \<Rightarrow> audio_in \<Rightarrow> 'd \<Rightarrow> audio_in \<times> 'd" where
  "audio_in_close L a d = (a\<lparr>ai_stream := None\<rparr>, au_free L (ai_stream a) d)"

definition audio_oncapt :: "audio_in \<Rightarrow> audio_in \<times> bool" where
  "audio_oncapt a = (a\<lparr>ai_state := ST_SIGNALLED\<rparr>, ai_state a = ST_WAITING)"

text \<open>The loop of \<open>audio_in_read\<close>: an overrun is read again.\<close>
fun in_loop :: "nat \<Rightarrow> 'd ffaudio \<Rightarrow> nat \<Rightarrow> 'd \<Rightarrow> (int \<times> bytes \<times> 'd) option" where
  "in_loop 0 L s d = None"
| "in_loop (Suc n) L s d =
     (case au_read L s d of (r, buf, d1) \<Rightarrow> if r = - FFAUDIO_ESYNC L then in_loop n L s d1 else Some (r, buf, d1))"

definition audio_in_read ::
    "nat \<Rightarrow> 'd ffaudio \<Rightarrow> audio_in \<Rightarrow> phi_track \<Rightarrow> 'd \<Rightarrow> (audio_in \<times> phi_track \<times> 'd \<times> phi_r) option" where
  "audio_in_read n L a t d =
     (case ai_stream a of
        None \<Rightarrow> None
      | Some s \<Rightarrow>
          if has_flag t PHI_FSTOP then Some (a, t, snd (au_stop L s d), PHI_DONE)
          else
            (case in_loop n L s d of
               None \<Rightarrow> None
             | Some (r, buf, d1) \<Rightarrow>
                 if r < 0 then Some (a, t\<lparr>t_error := PHI_E_AUDIO_INPUT\<rparr>, d1, PHI_DONE)
                 else if r = 0 then Some (a\<lparr>ai_state := ST_WAITING\<rparr>, t, d1, PHI_ASYNC)
                 else if ai_frame_size a = 0 then None
                 else Some (a\<lparr>ai_total_samples := ai_total_samples a + of_int (r div int (unat (ai_frame_size a))), ai_state := ST_PROCESSING\<rparr>,
                            t\<lparr>t_audio := (t_audio t)\<lparr>a_pos := ai_total_samples a\<rparr>, t_data_out := take (nat r) buf\<rparr>, d1, PHI_DATA)))"

section \<open>The PulseAudio module\<close>

text \<open>What the module's timer calls.\<close>
datatype pulse_timer = TmrOff | TmrPlay nat u32 | TmrClose

text \<open>
  \<open>struct pulse_mod\<close>, with the objects \<open>audio_out\<close> of the open tracks by their address and the list of
  the tracks that were woken.
\<close>
record 'd pulse_mod =
  pm_tmr :: pulse_timer
  pm_out :: "nat option"
  pm_buf_msec :: u32
  pm_fmt :: phi_af
  pm_usedby :: "nat option"
  pm_dev_idx :: u32
  pm_init_ok :: bool
  pm_objs :: "nat \<rightharpoonup> audio_out"
  pm_woken :: "nat list"
  pm_dev :: 'd

definition pulse_buf_close :: "'d ffaudio \<Rightarrow> 'd pulse_mod \<Rightarrow> 'd pulse_mod" where
  "pulse_buf_close L m =
     (if pm_out m = None then m else m\<lparr>pm_out := None, pm_dev := au_free L (pm_out m) (pm_dev m)\<rparr>)"

definition pulse_init :: "'d ffaudio \<Rightarrow> 'd pulse_mod \<Rightarrow> 'd pulse_mod \<times> int" where
  "pulse_init L m =
     (if pm_init_ok m then (m, 0)
      else case au_init L (pm_dev m) of (r, d) \<Rightarrow>
        if r \<noteq> 0 then (m\<lparr>pm_dev := d\<rparr>, -1) else (m\<lparr>pm_dev := d, pm_init_ok := True\<rparr>, 0))"

definition audio_out_zero :: audio_out where
  "audio_out_zero = \<lparr>ao_buf_msec = 0, ao_try_open = False, ao_dev_idx = 0, ao_aflags = 0, ao_err_code = 0,
     ao_handle_dev_offline = False, ao_stream = None, ao_dev = None, ao_state = ST_TRY, ao_reconnect = False\<rparr>"

text \<open>\<open>o1\<close> is the address of the new object.\<close>
definition pulse_open :: "'d ffaudio \<Rightarrow> nat \<Rightarrow> 'd pulse_mod \<Rightarrow> 'd pulse_mod \<times> phi_open" where
  "pulse_open L o1 m =
     (case pulse_init L m of (m1, r) \<Rightarrow>
        if r \<noteq> 0 then (m1, OpenErr) else (m1\<lparr>pm_objs := (pm_objs m1)(o1 \<mapsto> audio_out_zero)\<rparr>, OpenObj o1))"

definition pulse_close :: "'d ffaudio \<Rightarrow> nat \<Rightarrow> 'd pulse_mod \<Rightarrow> 'd pulse_mod option" where
  "pulse_close L o1 m =
     (case pm_objs m o1 of
        None \<Rightarrow> None
      | Some a \<Rightarrow>
          (case (if ao_err_code a \<noteq> 0 then
                   (let m1 = (pulse_buf_close L m)\<lparr>pm_tmr := TmrOff\<rparr>
                    in Some (if pm_usedby m1 = Some o1 then m1\<lparr>pm_usedby := None\<rparr> else m1))
                 else if pm_usedby m = Some o1 then
                   (case pm_out m of
                      None \<Rightarrow> None
                    | Some s \<Rightarrow> Some (m\<lparr>pm_dev := snd (au_stop L s (pm_dev m)), pm_tmr := TmrClose, pm_usedby := None\<rparr>))
                 else Some m) of
             None \<Rightarrow> None
           | Some m2 \<Rightarrow> Some (m2\<lparr>pm_dev := au_dev_free L (ao_dev a) (pm_dev m2), pm_objs := (pm_objs m2)(o1 := None)\<rparr>)))"

text \<open>The loop that opens the buffer, with one reconnection; \<open>Inl\<close> is what \<open>pulse_create\<close> returns at once.\<close>
fun pulse_open_loop ::
    "nat \<Rightarrow> nat \<Rightarrow> 'd ffaudio \<Rightarrow> audio_out \<Rightarrow> phi_track \<Rightarrow> phi_af \<Rightarrow> 'd pulse_mod
     \<Rightarrow> (audio_out \<times> phi_track \<times> 'd pulse_mod \<times> phi_r option) option" where
  "pulse_open_loop 0 n L a t fmt m = None"
| "pulse_open_loop (Suc k) n L a t fmt m =
     (case audio_out_open n L a t fmt (pm_dev m) of
        None \<Rightarrow> None
      | Some (a1, t1, d1, r) \<Rightarrow>
          (let m1 = m\<lparr>pm_dev := d1\<rparr> in
           if r = 0 then Some (a1, t1, m1, None)
           else if r = FFAUDIO_EFORMAT L then Some (a1, t1, m1, Some PHI_MORE)
           else if r = FFAUDIO_ECONNECTION L \<and> \<not> ao_reconnect a1 then
             (case pulse_init L (m1\<lparr>pm_dev := au_uninit L (pm_dev m1), pm_init_ok := False\<rparr>) of (m2, ri) \<Rightarrow>
                let a2 = a1\<lparr>ao_reconnect := True\<rparr> in
                if ri \<noteq> 0 then Some (a2\<lparr>ao_err_code := FFAUDIO_ERROR L\<rparr>, t1, m2, Some PHI_ERR)
                else pulse_open_loop k n L a2 t1 fmt m2)
           else Some (a1\<lparr>ao_err_code := FFAUDIO_ERROR L\<rparr>, t1, m1, Some PHI_ERR)))"

text \<open>The current user of the buffer is told to continue: \<open>audio_out_onplay (cur)\<close>.\<close>
definition pulse_take :: "'d pulse_mod \<Rightarrow> 'd pulse_mod option" where
  "pulse_take m =
     (case pm_usedby m of
        None \<Rightarrow> Some m
      | Some u \<Rightarrow>
          (case pm_objs m u of
             None \<Rightarrow> None
           | Some c \<Rightarrow>
               (case audio_out_onplay c of (c1, wake) \<Rightarrow>
                  Some (m\<lparr>pm_usedby := None, pm_objs := (pm_objs m)(u \<mapsto> c1), pm_woken := pm_woken m @ (if wake then [u] else [])\<rparr>))))"

text \<open>The end of \<open>pulse_create\<close>: the track is the user of the buffer.\<close>
definition pulse_fin :: "nat \<Rightarrow> audio_out \<Rightarrow> 'd pulse_mod \<Rightarrow> 'd pulse_mod" where
  "pulse_fin o1 a m =
     m\<lparr>pm_usedby := Some o1, pm_tmr := TmrPlay o1 (pm_buf_msec m div 2), pm_objs := (pm_objs m)(o1 \<mapsto> a)\<rparr>"

definition pulse_create ::
    "nat \<Rightarrow> 'd ffaudio \<Rightarrow> nat \<Rightarrow> phi_track \<Rightarrow> 'd pulse_mod \<Rightarrow> ('d pulse_mod \<times> phi_track \<times> phi_r) option" where
  "pulse_create n L o1 t m =
     (case pm_objs m o1 of
        None \<Rightarrow> None
      | Some a0 \<Rightarrow>
          (let fmt = o_format (t_oaudio t);
               m0 = m\<lparr>pm_objs := (pm_objs m)(o1 \<mapsto> a0\<lparr>ao_dev_idx := oa_device_index (c_oaudio (t_conf t))\<rparr>)\<rparr>
           in case (if pm_out m0 = None then Some m0 else pulse_take (m0\<lparr>pm_tmr := TmrOff\<rparr>)) of
                None \<Rightarrow> None
              | Some m1 \<Rightarrow>
                  (case pm_objs m1 o1 of
                     None \<Rightarrow> None
                   | Some a \<Rightarrow>
                       if pm_out m1 \<noteq> None \<and> af_eq fmt (pm_fmt m1) \<and> ao_dev_idx a = pm_dev_idx m1 then
                         (let s = the (pm_out m1);
                              d = au_dev_free L (ao_dev a) (snd (au_clear L s (snd (au_stop L s (pm_dev m1)))))
                          in Some (pulse_fin o1 (a\<lparr>ao_stream := pm_out m1, ao_dev := None\<rparr>) (m1\<lparr>pm_dev := d\<rparr>), t, PHI_DONE))
                       else
                         (case pulse_open_loop 2 n L a t fmt (pulse_buf_close L m1) of
                            None \<Rightarrow> None
                          | Some (a1, t1, m2, Some r) \<Rightarrow> Some (m2\<lparr>pm_objs := (pm_objs m2)(o1 \<mapsto> a1)\<rparr>, t1, r)
                          | Some (a1, t1, m2, None) \<Rightarrow>
                              Some (pulse_fin o1 (a1\<lparr>ao_dev := None\<rparr>)
                                      (m2\<lparr>pm_dev := au_dev_free L (ao_dev a1) (pm_dev m2), pm_out := ao_stream a1,
                                          pm_buf_msec := ao_buf_msec a1, pm_fmt := fmt, pm_dev_idx := ao_dev_idx a1\<rparr>), t1, PHI_DONE)))))"

definition pulse_write ::
    "nat \<Rightarrow> 'd ffaudio \<Rightarrow> nat \<Rightarrow> phi_track \<Rightarrow> 'd pulse_mod \<Rightarrow> ('d pulse_mod \<times> phi_track \<times> phi_r) option" where
  "pulse_write n L o1 t m =
     (case pm_objs m o1 of
        None \<Rightarrow> None
      | Some a \<Rightarrow>
          (let write = (\<lambda>m t. case pm_objs m o1 of
                 None \<Rightarrow> None
               | Some a \<Rightarrow>
                   (case audio_out_write n L a t (pm_dev m) of
                      None \<Rightarrow> None
                    | Some (a1, t1, d1, r) \<Rightarrow> Some (m\<lparr>pm_objs := (pm_objs m)(o1 \<mapsto> a1), pm_dev := d1\<rparr>, t1, r)))
           in if ao_state a \<noteq> ST_TRY \<and> ao_state a \<noteq> ST_OPEN then write m t
              else
                (case pulse_create n L o1 t (m\<lparr>pm_objs := (pm_objs m)(o1 \<mapsto> a\<lparr>ao_try_open := (ao_state a = ST_TRY)\<rparr>)\<rparr>) of
                   None \<Rightarrow> None
                 | Some (m1, t1, r) \<Rightarrow>
                     if r = PHI_ERR then Some (m1, t1, PHI_ERR)
                     else
                       (case pm_objs m1 o1 of
                          None \<Rightarrow> None
                        | Some a1 \<Rightarrow>
                            if \<not> (r = PHI_DONE \<and> af_interleaved (o_format (t_oaudio t1))) then
                              (let t2 = t1\<lparr>t_oaudio := (t_oaudio t1)\<lparr>o_conv_format := (o_conv_format (t_oaudio t1))\<lparr>af_interleaved := True\<rparr>\<rparr>\<rparr>
                               in if ao_state a1 = ST_OPEN then Some (m1, t2, PHI_ERR)
                                  else Some (m1\<lparr>pm_objs := (pm_objs m1)(o1 \<mapsto> a1\<lparr>ao_state := ST_OPEN\<rparr>)\<rparr>, t2, PHI_MORE))
                            else write (m1\<lparr>pm_objs := (pm_objs m1)(o1 \<mapsto> a1\<lparr>ao_state := ST_WAITING\<rparr>)\<rparr>) t1))))"

section \<open>Playback delivers the data in order\<close>

text \<open>
  \<open>played s d\<close> are the bytes that the buffer \<open>s\<close> accepted. A write accepts a part of the data from its
  start on, or nothing; \<open>sync d\<close> bounds the underruns that are reported before a write is accepted.
\<close>
definition write_law :: "'d ffaudio \<Rightarrow> (nat \<Rightarrow> 'd \<Rightarrow> bytes) \<Rightarrow> ('d \<Rightarrow> nat) \<Rightarrow> bool" where
  "write_law L played sync \<longleftrightarrow>
     (\<forall>s inp d. case au_write L s inp d of (r, d') \<Rightarrow>
        (if r > 0 then nat r \<le> length inp \<and> played s d' = played s d @ take (nat r) inp \<and> sync d' \<le> sync d
         else played s d' = played s d \<and> (if r = - FFAUDIO_ESYNC L then sync d' < sync d else sync d' \<le> sync d)))
     \<and> (\<forall>s d. played s (snd (au_drain L s d)) = played s d)"

lemma out_loop_delivers:
  assumes "write_law L played sync" and "length inp + sync d < n"
  shows "\<exists>a' d' k r. out_loop n L s a inp d = Some (a', drop k inp, d', r) \<and> k \<le> length inp
    \<and> played s d' = played s d @ take k inp \<and> (r = None \<longrightarrow> k = length inp) \<and> r \<noteq> Some PHI_MORE \<and> r \<noteq> Some PHI_DONE
    \<and> (r = Some PHI_ASYNC \<longrightarrow> ao_state a' = ST_WAITING)"
  using assms(2)
proof (induction n arbitrary: inp d)
  case (Suc n)
  obtain x d1 where w: "au_write L s inp d = (x, d1)" by force
  have law: "if x > 0 then nat x \<le> length inp \<and> played s d1 = played s d @ take (nat x) inp \<and> sync d1 \<le> sync d
     else played s d1 = played s d \<and> (if x = - FFAUDIO_ESYNC L then sync d1 < sync d else sync d1 \<le> sync d)"
    using assms(1) w unfolding write_law_def by (metis (mono_tags, lifting) prod.case)
  consider "inp = []" | "inp \<noteq> []" "x > 0" | "inp \<noteq> []" "x = - FFAUDIO_ESYNC L" "\<not> x > 0" "x \<noteq> 0" | "inp \<noteq> []" "\<not> x > 0" "x = 0 \<or> x \<noteq> - FFAUDIO_ESYNC L"
    by blast
  then show ?case
  proof cases
    case 2
    then have x: "nat x \<le> length inp" "0 < nat x" "played s d1 = played s d @ take (nat x) inp" "sync d1 \<le> sync d"
      using law by simp_all
    then have "length (drop (nat x) inp) + sync d1 < n" using Suc.prems by simp
    from Suc.IH [OF this] obtain a' d' k r where IH: "out_loop n L s a (drop (nat x) inp) d1 = Some (a', drop k (drop (nat x) inp), d', r)"
      "k \<le> length (drop (nat x) inp)" "played s d' = played s d1 @ take k (drop (nat x) inp)"
      "r = None \<longrightarrow> k = length (drop (nat x) inp)" "r \<noteq> Some PHI_MORE" "r \<noteq> Some PHI_DONE" "r = Some PHI_ASYNC \<longrightarrow> ao_state a' = ST_WAITING"
      by blast
    then show ?thesis
      using 2 w x by (intro exI [of _ a'] exI [of _ d'] exI [of _ "nat x + k"] exI [of _ r]) (auto simp: take_add add.commute [of k])
  next
    case 3
    then have l: "sync d1 < sync d" "played s d1 = played s d" using law by auto
    have "out_loop (Suc n) L s a inp d = out_loop n L s a inp d1" using 3 w by simp
    then show ?thesis using Suc.IH [of inp d1] Suc.prems l by simp
  next
    case 4
    then have "played s d1 = played s d" using law by auto
    then show ?thesis using 4 w by (auto intro!: exI [of _ 0])
  qed (auto intro!: exI [of _ 0])
qed simp


text \<open>A device that accepts three bytes at a time into one buffer.\<close>
definition demo_audio :: "bytes ffaudio" where
  "demo_audio = \<lparr>au_init = (\<lambda>d. (0, d)), au_uninit = (\<lambda>d. d), au_dev_alloc = (\<lambda>_ d. (0, d)), au_dev_next = (\<lambda>_ d. (1, d)),
     au_dev_id = (\<lambda>_ _. None), au_dev_free = (\<lambda>_ d. d), au_alloc = (\<lambda>d. (Some 1, d)), au_open = (\<lambda>_ c _ d. (0, c, d)),
     au_free = (\<lambda>_ d. d), au_stop = (\<lambda>_ d. (0, d)), au_clear = (\<lambda>_ d. (0, d)),
     au_write = (\<lambda>_ inp d. (int (min 3 (length inp)), d @ take 3 inp)), au_drain = (\<lambda>_ d. (1, d)), au_read = (\<lambda>_ d. (0, [], d)),
     au_formats = [1, 2, 3, 4, 5, 6, 7], FFAUDIO_ERROR = 1, FFAUDIO_EFORMAT = 2, FFAUDIO_ECONNECTION = 3, FFAUDIO_ESYNC = 4,
     FFAUDIO_EDEV_OFFLINE = 5, FFAUDIO_PLAYBACK = 1, FFAUDIO_CAPTURE = 2, FFAUDIO_LOOPBACK = 4, FFAUDIO_O_NONBLOCK = 8,
     FFAUDIO_O_HWDEV = 16, FFAUDIO_DEV_PLAYBACK = 1, FFAUDIO_DEV_CAPTURE = 2\<rparr>"

lemma demo_audio_law: "write_law demo_audio (\<lambda>_ d. d) (\<lambda>_. 0)"
  by (auto simp: write_law_def demo_audio_def min_def)

lemma phi_track_zero_flags:
  "t_chain_flags phi_track_zero = 0" "o_clear (t_oaudio phi_track_zero) = False" "o_pause (t_oaudio phi_track_zero) = False"
  by (simp_all add: phi_track_zero_def)


section \<open>Two tracks and one buffer\<close>

text \<open>Buffers are numbered as they are allocated; a freed buffer stays dead.\<close>
definition dead_law :: "'d ffaudio \<Rightarrow> ('d \<Rightarrow> nat set) \<Rightarrow> bool" where
  "dead_law L dead \<longleftrightarrow>
     (\<forall>s d. s \<in> dead (au_free L (Some s) d)) \<and> (\<forall>x d. dead d \<subseteq> dead (au_free L x d))
     \<and> (\<forall>d. dead d \<subseteq> dead (snd (au_init L d))) \<and> (\<forall>d. dead d \<subseteq> dead (au_uninit L d))
     \<and> (\<forall>fl d. dead d \<subseteq> dead (snd (au_dev_alloc L fl d))) \<and> (\<forall>v d. dead d \<subseteq> dead (snd (au_dev_next L v d)))
     \<and> (\<forall>x d. dead d \<subseteq> dead (au_dev_free L x d)) \<and> (\<forall>d. dead d \<subseteq> dead (snd (au_alloc L d)))
     \<and> (\<forall>s c fl d. dead d \<subseteq> dead (snd (snd (au_open L s c fl d))))"

lemma dead_lawD:
  assumes "dead_law L dead"
  shows "s \<in> dead (au_free L (Some s) d)" "x \<in> dead d \<Longrightarrow> x \<in> dead (au_free L y d)" "x \<in> dead d \<Longrightarrow> x \<in> dead (au_uninit L d)"
    "x \<in> dead d \<Longrightarrow> x \<in> dead (au_dev_free L w d)"
    "au_init L d = (r, d') \<Longrightarrow> x \<in> dead d \<Longrightarrow> x \<in> dead d'" "au_dev_alloc L fl d = (v, d') \<Longrightarrow> x \<in> dead d \<Longrightarrow> x \<in> dead d'"
    "au_dev_next L v d = (r, d') \<Longrightarrow> x \<in> dead d \<Longrightarrow> x \<in> dead d'" "au_alloc L d = (k, d') \<Longrightarrow> x \<in> dead d \<Longrightarrow> x \<in> dead d'"
    "au_open L s c fl d = (r, c', d') \<Longrightarrow> x \<in> dead d \<Longrightarrow> x \<in> dead d'"
  using assms unfolding dead_law_def by (metis subsetD snd_conv)+

lemma devbyidx_loop_dead:
  assumes "dead_law L dead" and "devbyidx_loop n L dev i idev d = Some (r, v, d')" and "x \<in> dead d"
  shows "x \<in> dead d'"
  using assms(2,3)
proof (induction n arbitrary: i d)
  case (Suc n)
  then show ?case using dead_lawD [OF assms(1)] by (auto split: if_splits prod.splits)
qed simp

lemma open_failed_dead: "dead_law L dead \<Longrightarrow> x \<in> dead d \<Longrightarrow> open_failed L a t d rc = (a', t', d', r) \<Longrightarrow> x \<in> dead d'"
  using dead_lawD(2) by (fastforce simp: open_failed_def)

lemma audio_out_open_dead:
  assumes "dead_law L dead" and "audio_out_open n L a t fmt d = Some (a', t', d', r)" and "x \<in> dead d"
  shows "x \<in> dead d'"
proof (cases "t_data_type t = Some ''pcm''")
  case True
  let ?a1 = "a\<lparr>ao_dev_idx := oa_device_index (c_oaudio (t_conf t))\<rparr>"
  obtain rd dev d1 where dv: "(if ao_dev ?a1 = None \<and> ao_dev_idx ?a1 \<noteq> 0
      then audio_devbyidx n L (ao_dev_idx ?a1) (FFAUDIO_DEV_PLAYBACK L) d else Some (0, ao_dev ?a1, d)) = Some (rd, dev, d1)"
    using assms(2) True by (auto simp: audio_out_open_def Let_def split: option.splits if_splits)
  have d1: "x \<in> dead d1"
    using dv assms(3) devbyidx_loop_dead [OF assms(1)] dead_lawD(6) [OF assms(1)]
    by (auto simp: audio_devbyidx_def split: if_splits prod.splits)
  obtain stream d2 where al: "au_alloc L d1 = (stream, d2)" by force
  have d2: "x \<in> dead d2" using dead_lawD(8) [OF assms(1) al d1] .
  show ?thesis
  proof (cases "rd = 0 \<and> stream \<noteq> None \<and> ffpcm_to_ffaudio L (af_format fmt) \<noteq> None")
    case False
    then show ?thesis
      using assms(2) True dv al open_failed_dead [OF assms(1) d1] open_failed_dead [OF assms(1) d2]
      by (auto simp: audio_out_open_def Let_def split: option.splits if_splits)
  next
    case ok: True
    then obtain s afmt where sa: "stream = Some s" "ffpcm_to_ffaudio L (af_format fmt) = Some afmt" by blast
    let ?a3 = "?a1\<lparr>ao_dev := dev, ao_stream := stream\<rparr>"
    obtain ro conf d3 where op: "au_open L s (out_conf L ?a3 t fmt afmt d2) (FFAUDIO_PLAYBACK L OR FFAUDIO_O_NONBLOCK L OR ao_aflags ?a3) d2 = (ro, conf, d3)"
      by (metis prod_cases3)
    have d3: "x \<in> dead d3" using dead_lawD(9) [OF assms(1) op d2] .
    show ?thesis
      using assms(2) True dv al ok sa op d3 open_failed_dead [OF assms(1) d3]
      by (auto simp: audio_out_open_def Let_def split: if_splits prod.splits)
  qed
next
  case False
  then show ?thesis using assms(2,3) by (simp add: audio_out_open_def)
qed

lemma pulse_init_dead: "dead_law L dead \<Longrightarrow> x \<in> dead (pm_dev m) \<Longrightarrow> pulse_init L m = (m', r) \<Longrightarrow> x \<in> dead (pm_dev m') \<and> pm_objs m' = pm_objs m"
  using dead_lawD(5) by (fastforce simp: pulse_init_def split: if_splits prod.splits)

lemma pulse_open_loop_dead:
  assumes "dead_law L dead" and "pulse_open_loop k n L a t fmt m = Some (a', t', m', r)" and "x \<in> dead (pm_dev m)"
  shows "x \<in> dead (pm_dev m') \<and> pm_objs m' = pm_objs m"
  using assms(2,3)
proof (induction k arbitrary: a t m)
  case (Suc k)
  obtain a1 t1 d1 ro where op: "audio_out_open n L a t fmt (pm_dev m) = Some (a1, t1, d1, ro)"
    using Suc.prems(1) by (auto split: option.splits)
  have d1: "x \<in> dead d1" by (rule audio_out_open_dead [OF assms(1) op Suc.prems(2)])
  let ?m = "m\<lparr>pm_dev := au_uninit L d1, pm_init_ok := False\<rparr>"
  obtain m2 ri where ini: "pulse_init L ?m = (m2, ri)" by force
  have m2: "x \<in> dead (pm_dev m2)" "pm_objs m2 = pm_objs m"
    using pulse_init_dead [OF assms(1) _ ini] dead_lawD(3) [OF assms(1) d1] by simp_all
  show ?case
    using Suc.prems(1) op d1 ini m2 Suc.IH [of "a1\<lparr>ao_reconnect := True\<rparr>" t1 m2]
    by (auto simp: Let_def split: if_splits)
qed simp

text \<open>
  A second track takes the buffer away from under the first. When a track starts to play in a
  format or on a device that differs from that of the shared buffer, \<open>pulse_create\<close> frees the buffer although
  another track plays through it; that track keeps the freed buffer as its stream, and its next call of
  \<open>pulse_write\<close> passes it to the audio library.
\<close>

theorem pulse_create_frees_buffer_in_use:
  assumes "dead_law L dead" and "pm_out m = Some s" and "pm_usedby m = Some o1" and "pm_objs m o1 = Some a1" and "ao_stream a1 = Some s"
    and "o2 \<noteq> o1" and "\<not> (af_eq (o_format (t_oaudio t)) (pm_fmt m) \<and> oa_device_index (c_oaudio (t_conf t)) = pm_dev_idx m)"
    and "pulse_create n L o2 t m = Some (m', t', r)"
  shows "s \<in> dead (pm_dev m') \<and> (\<exists>a. pm_objs m' o1 = Some a \<and> ao_stream a = Some s \<and> ao_state a = ST_SIGNALLED)"
proof -
  obtain a0 where a0: "pm_objs m o2 = Some a0" using assms(8) by (auto simp: pulse_create_def split: option.splits)
  define a where "a = a0\<lparr>ao_dev_idx := oa_device_index (c_oaudio (t_conf t))\<rparr>"
  define m1 where "m1 = m\<lparr>pm_objs := (pm_objs m)(o2 \<mapsto> a, o1 \<mapsto> a1\<lparr>ao_state := ST_SIGNALLED\<rparr>), pm_tmr := TmrOff, pm_usedby := None,
    pm_woken := pm_woken m @ (if ao_state a1 = ST_WAITING then [o1] else [])\<rparr>"
  have take: "pulse_take (m\<lparr>pm_objs := (pm_objs m)(o2 \<mapsto> a), pm_tmr := TmrOff\<rparr>) = Some m1"
    using assms(3,4,6) by (simp add: pulse_take_def audio_out_onplay_def m1_def)
  have m1: "pm_objs m1 o2 = Some a" "pm_out m1 = Some s" "pm_fmt m1 = pm_fmt m" "pm_dev_idx m1 = pm_dev_idx m"
    using assms(2,6) by (simp_all add: m1_def)
  have idx: "ao_dev_idx a = oa_device_index (c_oaudio (t_conf t))" by (simp add: a_def)
  let ?mc = "pulse_buf_close L m1"
  have mc: "s \<in> dead (pm_dev ?mc)" "pm_objs ?mc = pm_objs m1"
    using dead_lawD(1) [OF assms(1)] m1(2) by (simp_all add: pulse_buf_close_def)
  obtain b t1 m2 ro where lp: "pulse_open_loop 2 n L a t (o_format (t_oaudio t)) ?mc = Some (b, t1, m2, ro)"
    using assms(2,7,8) a0 take m1 idx by (auto simp: pulse_create_def Let_def a_def [symmetric] split: option.splits)
  have m2: "s \<in> dead (pm_dev m2)" "pm_objs m2 = pm_objs m1" using pulse_open_loop_dead [OF assms(1) lp mc(1)] mc(2) by simp_all
  have obj: "pm_objs m1 o1 = Some (a1\<lparr>ao_state := ST_SIGNALLED\<rparr>)" by (simp add: m1_def)
  have eq: "pulse_create n L o2 t m = (case ro of
      Some r \<Rightarrow> Some (m2\<lparr>pm_objs := (pm_objs m2)(o2 \<mapsto> b)\<rparr>, t1, r)
    | None \<Rightarrow> Some (pulse_fin o2 (b\<lparr>ao_dev := None\<rparr>) (m2\<lparr>pm_dev := au_dev_free L (ao_dev b) (pm_dev m2), pm_out := ao_stream b,
        pm_buf_msec := ao_buf_msec b, pm_fmt := o_format (t_oaudio t), pm_dev_idx := ao_dev_idx b\<rparr>), t1, PHI_DONE))"
    using assms(2,7) a0 take m1 lp idx by (auto simp: pulse_create_def Let_def a_def [symmetric] split: option.split)
  show ?thesis
    using eq assms(5,6,8) m2 obj dead_lawD(4) [OF assms(1)] by (auto simp: pulse_fin_def split: option.splits)
qed

text \<open>Track 1 plays through buffer 7 in 16 bits; track 2 starts in 24 bits. A state of the library: the freed buffers.\<close>
definition dead_audio :: "nat set ffaudio" where
  "dead_audio = \<lparr>au_init = (\<lambda>d. (0, d)), au_uninit = (\<lambda>d. d), au_dev_alloc = (\<lambda>_ d. (0, d)), au_dev_next = (\<lambda>_ d. (1, d)),
     au_dev_id = (\<lambda>_ _. None), au_dev_free = (\<lambda>_ d. d), au_alloc = (\<lambda>d. (Some 8, d)), au_open = (\<lambda>_ c _ d. (0, c, d)),
     au_free = (\<lambda>s d. (case s of None \<Rightarrow> d | Some x \<Rightarrow> insert x d)), au_stop = (\<lambda>_ d. (0, d)), au_clear = (\<lambda>_ d. (0, d)),
     au_write = (\<lambda>_ _ d. (0, d)), au_drain = (\<lambda>_ d. (1, d)), au_read = (\<lambda>_ d. (0, [], d)),
     au_formats = [1, 2, 3, 4, 5, 6, 7], FFAUDIO_ERROR = 1, FFAUDIO_EFORMAT = 2, FFAUDIO_ECONNECTION = 3, FFAUDIO_ESYNC = 4,
     FFAUDIO_EDEV_OFFLINE = 5, FFAUDIO_PLAYBACK = 1, FFAUDIO_CAPTURE = 2, FFAUDIO_LOOPBACK = 4, FFAUDIO_O_NONBLOCK = 8,
     FFAUDIO_O_HWDEV = 16, FFAUDIO_DEV_PLAYBACK = 1, FFAUDIO_DEV_CAPTURE = 2\<rparr>"

lemma dead_audio_law: "dead_law dead_audio (\<lambda>d. d)"
  by (auto simp: dead_law_def dead_audio_def split: option.splits)

definition demo_pulse :: "nat set pulse_mod" where
  "demo_pulse = \<lparr>pm_tmr = TmrPlay 1 250, pm_out = Some 7, pm_buf_msec = 500,
     pm_fmt = \<lparr>af_format = PHI_PCM_16, af_channels = 2, af_interleaved = True, af_rate = 48000\<rparr>, pm_usedby = Some 1, pm_dev_idx = 0,
     pm_init_ok = True, pm_objs = [1 \<mapsto> audio_out_zero\<lparr>ao_stream := Some 7, ao_state := ST_FEEDING\<rparr>, 2 \<mapsto> audio_out_zero],
     pm_woken = [], pm_dev = {}\<rparr>"

definition demo_track24 :: phi_track where
  "demo_track24 = phi_track_zero\<lparr>t_data_type := Some ''pcm'', t_oaudio := (t_oaudio phi_track_zero)\<lparr>o_format :=
     \<lparr>af_format = PHI_PCM_24, af_channels = 2, af_interleaved = True, af_rate = 48000\<rparr>\<rparr>\<rparr>"

theorem pulse_create_frees_buffer_in_use_witness:
  "\<exists>m' t' r. pulse_create 0 dead_audio 2 demo_track24 demo_pulse = Some (m', t', r)
     \<and> 7 \<in> pm_dev m' \<and> (\<exists>a. pm_objs m' 1 = Some a \<and> ao_stream a = Some 7 \<and> ao_state a = ST_SIGNALLED)"
proof -
  have "t_data_type demo_track24 = Some ''pcm''" "oa_device_index (c_oaudio (t_conf demo_track24)) = 0"
    "o_format (t_oaudio demo_track24) = \<lparr>af_format = PHI_PCM_24, af_channels = 2, af_interleaved = True, af_rate = 48000\<rparr>"
    by (simp_all add: demo_track24_def phi_track_zero_def phi_track_conf_zero_def)
  note t = this
  have "pulse_create 0 dead_audio 2 demo_track24 demo_pulse \<noteq> None"
    using t by (simp add: pulse_create_def pulse_take_def demo_pulse_def audio_out_onplay_def af_eq_def pcm_format_defs
        pulse_buf_close_def audio_out_open_def Let_def dead_audio_def audio_out_zero_def ffpcm_to_ffaudio_def ffpcm_formats_def
        numeral_2_eq_2)
  then obtain m' t' r where c: "pulse_create 0 dead_audio 2 demo_track24 demo_pulse = Some (m', t', r)" by (metis option.exhaust prod_cases3)
  have "\<not> (af_eq (o_format (t_oaudio demo_track24)) (pm_fmt demo_pulse) \<and> oa_device_index (c_oaudio (t_conf demo_track24)) = pm_dev_idx demo_pulse)"
    using t by (simp add: af_eq_def demo_pulse_def pcm_format_defs)
  then have "7 \<in> pm_dev m' \<and> (\<exists>a. pm_objs m' 1 = Some a \<and> ao_stream a = Some 7 \<and> ao_state a = ST_SIGNALLED)"
    using pulse_create_frees_buffer_in_use [OF dead_audio_law, of demo_pulse 7 1 "audio_out_zero\<lparr>ao_stream := Some 7, ao_state := ST_FEEDING\<rparr>" 2
        demo_track24 0 m' t' r] c by (simp add: demo_pulse_def)
  then show ?thesis using c by blast
qed

end
