(* ===== verification/Spec2Isabelle.thy ===== *)
theory Spec2Isabelle
  imports File_Write File_Read File_Open File_Std Worker Conveyor Playlist Cue Dir_Read Tag_Edit Http Format_Read Flac_Enc Tee Pcm Afilter Core Conf_Write Fntree Detector Audio_Dev
begin

text \<open>
  \<^bold>\<open>phiola: a verification library.\<close>
  phiola plays, records and converts audio. A user request becomes a \<^emph>\<open>track\<close>: a chain
  of filters (file input, format reader, decoder, audio conversion, encoder, writer or device) that
  a worker thread runs until a filter waits or the track ends. The core loads the modules that hold
  the filters, assigns tracks to workers and lets them wait for kernel events and timers; the queue
  module keeps the play lists and starts the tracks.

  \<^bold>\<open>Theories and sources\<close> (all paths below \<open>src/src/\<close>).
  \<^item> \<open>Prelude\<close>: words of the C types, lists as buffers, shared lemmas and collections.
  \<^item> \<open>Track_Types\<close>: structures and enumerations of \<open>phiola.h\<close> and \<open>track.h\<close>: \<open>phi_track\<close>,
    \<open>phi_track_conf\<close>, \<open>phi_af\<close>, filter results, chain flags.
  \<^item> \<open>Sys_File\<close>: the file calls of the operating system as a record of functions \<open>kfs\<close>.
  \<^item> \<open>Fcache\<close> (\<open>util/fcache.h\<close>), \<open>File_Read\<close> (\<open>core/file-read.h\<close>), \<open>File_Write\<close> and \<open>File_Open\<close>
    (\<open>core/file-write.h\<close>), \<open>File_Std\<close> (\<open>core/file-stdin.h\<close>, \<open>core/file-stdout.h\<close>): the buffered file
    filters. C1-C3, C39, C40: writes through the cache refine direct writes, the reader
    delivers the file, expansion of templates cannot add directories, standard streams keep order.
  \<^item> \<open>Taskqueue\<close> (\<open>util/taskqueue.h\<close>, \<open>util/kq-tq.h\<close>), \<open>Kq\<close> (\<open>util/kq.h\<close>, \<open>util/kq-timer.h\<close>), \<open>Worker\<close>
    (\<open>core/worker.h\<close>): tasks between threads, kernel events with reused slots, timers, assignment of
    jobs. C4-C9: refinement of a FIFO and of a stack of free slots, no lost wake-up, stale
    events, invariants of timers and job counts.
  \<^item> \<open>Conveyor\<close> (\<open>core/track.c\<close>): the filter chain. C10-C13: the position stays in the chain, each filter
    is closed once, a stopped track closes, data reaches the next filter.
  \<^item> \<open>Queue\<close> (\<open>queue/qu.c\<close>, \<open>queue/ent.h\<close>): play lists over a store of reference-counted entries. C14, C15.
  \<^item> \<open>Pcm\<close> (\<open>afilter/pcm*.h\<close>) and \<open>Afilter\<close> (the filters of \<open>afilter/\<close>): sample conversion, mixing, gain,
    peaks; C16, C17, C21, C22.
  \<^item> \<open>Util\<close> (\<open>util/util.h\<close>) and \<open>Core\<close> (\<open>core/core.c\<close>, \<open>format/mod-fmt.c\<close>, \<open>afilter/afilter.c\<close> and other name
    tables): binary search, interface tables, module registry; C18, C19.
  \<^item> \<open>Conf_Write\<close> (\<open>util/conf-write.h\<close>): the configuration writer; C20.
  \<^item> \<open>Fntree\<close> (\<open>util/fntree.h\<close>): the tree of file names in byte-addressed blocks; C23-C25.
  \<^item> \<open>Detector\<close> (\<open>format/detector.h\<close>, \<open>core/auto.c\<close>, \<open>format/meta.h\<close>): recognition of formats, automatic
    filters, meta data; C26.
  \<^item> \<open>Audio_Dev\<close> (\<open>adev/audio*.h\<close>, \<open>adev/pulse.c\<close>, \<open>adev/pulse-play.h\<close>): playback and recording over an
    audio interface and the shared PulseAudio buffer; C27.
  \<^item> \<open>Queue_Edit\<close>: replacing one entry of a queue by others, over the operations of \<open>Queue\<close>; \<open>Playlist\<close>
    (\<open>list/m3u-read.h\<close>, \<open>list/pls-read.c\<close>, \<open>list/m3u-write.h\<close>, \<open>list/entry.h\<close>, saving in \<open>queue/qu.c\<close>) and
    \<open>Cue\<close> (\<open>list/cue-read.c\<close>): files that list tracks. C28, C29: the entry of the file is replaced by
    its lines in order, saving and loading gives the same list, tracks of a sheet start and end by the gap option.
  \<^item> \<open>Dir_Read\<close> (\<open>core/dir-read.c\<close>): the expansion of a directory over \<open>Fntree\<close> and \<open>Queue_Edit\<close>; C30:
    the entry of the directory is replaced by the files of the tree in the order of the walk.
  \<^item> \<open>Tag_Edit\<close> (\<open>format/tag.c\<close>): editing ID3 tags in place or through a temporary file; C31: the audio data
    behind the tag is never lost, whichever call fails.
  \<^item> \<open>Http\<close> (\<open>net/http.c\<close>, \<open>net/http-filters.c\<close>, \<open>net/icy.c\<close>): the HTTP source and the ICY filter; C32, C33: chunks are
    handed from the client to the track once and in order without a lost wake-up, and the ICY filter separates audio and meta data.
  \<^item> \<open>Format_Read\<close> (\<open>format/wav.c\<close>, \<open>mp3-read.h\<close>, \<open>flac-read.h\<close>, \<open>wv.c\<close>, \<open>ape-read.c\<close>, \<open>mpc-read.c\<close>, \<open>caf.c\<close>, \<open>avi.c\<close>,
    \<open>aac-adts.c\<close>, \<open>flac-ogg.c\<close>): the readers around the parsers of avpack; C34: every reader passes on the frames of
    its parser in order, with their positions.
  \<^item> \<open>Decode_Frame\<close> (\<open>acodec/alib3-bridge/flac.h\<close>, \<open>wavpack.h\<close>, \<open>alac.h\<close>, \<open>acodec/flac-dec.h\<close>, \<open>wavpack-dec.h\<close>,
    \<open>alac-dec.h\<close>): decoders of formats whose container gives the position of a frame; C35, C36: a track starts with exactly
    the requested sample, and the conversion of samples in place does not overwrite what it still has to read.
  \<^item> \<open>Flac_Enc\<close> (\<open>acodec/alib3-bridge/flac.h\<close>, \<open>acodec/flac-enc.h\<close>): the FLAC encoder; C37: libFLAC receives every sample once and
    in order, whatever the sizes of the packets are.
  \<^item> \<open>Tee\<close> (\<open>core/file-tee.h\<close>): a second track that writes a copy, and the ring buffer shared with it; C38.

  \<^bold>\<open>Conventions.\<close> A C structure is a record, an enumeration a datatype or word constants. Pointers that
  are shared or compared are addresses in a store. A function that reads or writes outside of
  its memory, divides by zero or uses freed memory returns \<open>None\<close> (or a named fault), so a theorem
  that a call is \<open>Some\<close> also shows the absence of these faults. Integers are words of the width in the
  source, or \<open>nat\<close> with the reduction written out. Functions of ffbase, ffsys, the audio
  interface and the C math library are parameters, with the documented behaviour they are used for
  as a predicate \<open>..._law\<close>; each witness instantiates them with concrete functions.

  \<^bold>\<open>Loops.\<close> Loops bounded by data are structural or have a termination proof. Loops that wait for
  the environment carry a step bound and give \<open>None\<close> when it is used up; the theorems state which
  bound suffices: the remaining bytes for readers and writers, the size of the tree for
  walks, the number of entries for the event loop.

  \<^bold>\<open>Interfaces.\<close> \<open>op_invariant\<close> and \<open>simulation\<close> (\<open>Prelude\<close>) give preservation and refinement over
  sequences of operations; \<open>slot_mem\<close> is the contract of the event slots, \<open>kv_store\<close> the contract of the
  meta data, \<open>reader\<close> and \<open>reader_filter\<close> the contract of the container readers, \<open>frame_decoder\<close> the contract of the decoders, \<open>list_edit\<close> the contract between the queue and the readers of play lists. Each is interpreted on the definitions of the components.

  \<^bold>\<open>Not modelled.\<close> The libraries of codecs, containers, compression and
  resampling are not part of the repository; the filters around them are modelled for the formats above. The user interfaces, the command-line tables, logging and
  crash reports are input and output. Not yet modelled, in the order of the plan: the kernel
  call queue, the ALSA back end, the readers of configuration and
  arguments, copying of queue entries, and the filters around the other libraries of containers and codecs.
\<close>

end
